(* ===== verification/Prelude.thy ===== *)
theory Prelude
  imports Main "HOL-Library.Word"
begin

unbundle bit_operations_syntax

text \<open>
  What the components share: names for the machine types of the source, the
  event log through which the metrics code reports non-fatal errors or panics,
  decimal printing of integers (Rust's \<open>Display\<close> of \<open>u64\<close>, \<open>i64\<close> and their
  kin), and list lemmas about \<^emph>\<open>retain\<close> loops, prefix searches and stable
  regrouping. Rust's \<open>String\<close> is modelled by the list of its UTF-8 bytes, one
  \<^typ>\<open>char\<close> per byte.
\<close>

section \<open>Machine types\<close>

type_synonym u8 = "8 word"
type_synonym u32 = "32 word"
type_synonym i32 = "32 word"
type_synonym u64 = "64 word"
type_synonym i64 = "64 word"

named_theorems component_simps \<open>unfolding rules of the component operations\<close>
named_theorems invariant_intros \<open>preservation rules of the component invariants\<close>

section \<open>Results\<close>

text \<open>\<open>Result<T, E>\<close> is a sum with the error on the left; \<open>bind_result\<close> is \<open>?\<close>.\<close>

definition bind_result :: "'e + 'a \<Rightarrow> ('a \<Rightarrow> 'e + 'b) \<Rightarrow> 'e + 'b" where
  "bind_result r f = (case r of Inl e \<Rightarrow> Inl e | Inr x \<Rightarrow> f x)"

lemma bind_result_simps [simp]:
  "bind_result (Inl e) f = Inl e"
  "bind_result (Inr x) f = f x"
  by (simp_all add: bind_result_def)

lemma bind_result_Inr_iff:
  "bind_result r f = Inr y \<longleftrightarrow> (\<exists>x. r = Inr x \<and> f x = Inr y)"
  by (cases r) auto

lemma bind_result_Inl_iff:
  "bind_result r f = Inl e \<longleftrightarrow> r = Inl e \<or> (\<exists>x. r = Inr x \<and> f x = Inl e)"
  by (cases r) auto

lemma bind_result_cong [fundef_cong]:
  "r = r' \<Longrightarrow> (\<And>x. r' = Inr x \<Longrightarrow> f x = g x) \<Longrightarrow> bind_result r f = bind_result r' g"
  by (cases r') auto

section \<open>Characters and decimal printing\<close>

definition digit_char :: "int \<Rightarrow> char" where
  "digit_char d = (char_of (48 + d) :: char)"

definition is_ascii_digit :: "char \<Rightarrow> bool" where
  "is_ascii_digit c \<longleftrightarrow> 48 \<le> (of_char c :: int) \<and> (of_char c :: int) \<le> 57"

definition is_ascii_alphabetic :: "char \<Rightarrow> bool" where
  "is_ascii_alphabetic c \<longleftrightarrow>
     (let n = (of_char c :: int) in (65 \<le> n \<and> n \<le> 90) \<or> (97 \<le> n \<and> n \<le> 122))"

definition is_ascii_alphanumeric :: "char \<Rightarrow> bool" where
  "is_ascii_alphanumeric c \<longleftrightarrow> is_ascii_alphabetic c \<or> is_ascii_digit c"

text \<open>The digits of a natural number, most significant first, onto an accumulator.\<close>

function show_uint_onto :: "int \<Rightarrow> string \<Rightarrow> string" where
  "show_uint_onto n acc =
     (if n < 10 then digit_char n # acc
      else show_uint_onto (n div 10) (digit_char (n mod 10) # acc))"
  by pat_completeness auto
termination
  by (relation "measure (\<lambda>(n, _). nat n)") auto

declare show_uint_onto.simps [simp del]

definition show_int :: "int \<Rightarrow> string" where
  "show_int n = (if n < 0 then CHR ''-'' # show_uint_onto (- n) [] else show_uint_onto n [])"

definition show_u64 :: "u64 \<Rightarrow> string" where
  "show_u64 w = show_int (uint w)"

fun read_uint :: "int \<Rightarrow> string \<Rightarrow> int" where
  "read_uint acc [] = acc"
| "read_uint acc (c # cs) = read_uint (10 * acc + ((of_char c :: int) - 48)) cs"

lemma of_digit_char:
  "0 \<le> d \<Longrightarrow> d < 10 \<Longrightarrow> (of_char (digit_char d) :: int) = 48 + d"
  unfolding digit_char_def by simp

lemma digit_char_is_digit: "0 \<le> d \<Longrightarrow> d < 10 \<Longrightarrow> is_ascii_digit (digit_char d)"
  unfolding is_ascii_digit_def by (simp add: of_digit_char)

lemma show_uint_onto_digits:
  "0 \<le> n \<Longrightarrow> (\<forall>c\<in>set acc. is_ascii_digit c) \<Longrightarrow> \<forall>c\<in>set (show_uint_onto n acc). is_ascii_digit c"
proof (induction n acc rule: show_uint_onto.induct)
  case (1 n acc)
  show ?case
  proof (cases "n < 10")
    case True
    then show ?thesis
      using "1.prems" by (subst show_uint_onto.simps) (auto intro: digit_char_is_digit)
  next
    case False
    have "\<forall>c\<in>set (show_uint_onto (n div 10) (digit_char (n mod 10) # acc)). is_ascii_digit c"
      using "1.IH" [OF False] "1.prems" by (simp add: digit_char_is_digit)
    with False show ?thesis
      by (subst show_uint_onto.simps) simp
  qed
qed

lemma show_uint_onto_not_Nil: "show_uint_onto n acc \<noteq> []"
  by (induction n acc rule: show_uint_onto.induct) (subst show_uint_onto.simps, simp)

lemma read_show_uint_onto:
  "0 \<le> n \<Longrightarrow> read_uint 0 (show_uint_onto n acc) = read_uint n acc"
proof (induction n acc rule: show_uint_onto.induct)
  case (1 n acc)
  show ?case
  proof (cases "n < 10")
    case True
    then show ?thesis
      using "1.prems" by (subst show_uint_onto.simps) (simp add: of_digit_char)
  next
    case False
    have "read_uint 0 (show_uint_onto n acc) = read_uint (n div 10) (digit_char (n mod 10) # acc)"
      using "1.IH" [OF False] "1.prems" False by (subst show_uint_onto.simps) simp
    then show ?thesis
      by (simp add: of_digit_char)
  qed
qed

lemma show_u64_digits: "\<forall>c\<in>set (show_u64 w). is_ascii_digit c"
  unfolding show_u64_def show_int_def
  using show_uint_onto_digits [of "uint w" "[]"] by simp

lemma show_u64_not_Nil [simp]: "show_u64 w \<noteq> []"
  unfolding show_u64_def show_int_def by (simp add: show_uint_onto_not_Nil)

lemma read_show_u64: "read_uint 0 (show_u64 w) = uint w"
  unfolding show_u64_def show_int_def by (simp add: read_show_uint_onto)

lemma show_u64_inj: "show_u64 v = show_u64 w \<longleftrightarrow> v = w"
  by (metis read_show_u64 word_uint_eq_iff)

section \<open>Hash maps\<close>

text \<open>A \<open>HashMap\<close> is a map; it is iterated over in an order the program does not control. Code
  that iterates takes the entries in that order, \<open>es\<close>, as an argument.\<close>

definition iteration_of :: "('k \<rightharpoonup> 'v) \<Rightarrow> ('k \<times> 'v) list \<Rightarrow> bool" where
  "iteration_of m es \<longleftrightarrow> distinct (map fst es) \<and> map_of es = m"

lemma iteration_of_mem: "iteration_of m es \<Longrightarrow> (k, v) \<in> set es \<longleftrightarrow> m k = Some v"
  by (auto simp: iteration_of_def)

lemma iteration_of_Nil [simp]: "iteration_of (\<lambda>_. None) [] "
  by (simp add: iteration_of_def)

section \<open>Lists\<close>

text \<open>\<open>Vec::retain_mut\<close> whose closure logs: keep the rewritten elements, join the logs.\<close>

fun retain_mut :: "('a \<Rightarrow> bool \<times> 'a \<times> 'l list) \<Rightarrow> 'a list \<Rightarrow> 'a list \<times> 'l list" where
  "retain_mut f [] = ([], [])"
| "retain_mut f (x # xs) =
     (case f x of (keep, y, l) \<Rightarrow>
      case retain_mut f xs of (ys, ls) \<Rightarrow> (if keep then y # ys else ys, l @ ls))"

lemma fst_retain_mut:
  "fst (retain_mut f xs) = map (\<lambda>x. fst (snd (f x))) (filter (\<lambda>x. fst (f x)) xs)"
  by (induction xs) (auto split: prod.split)

lemma snd_retain_mut: "snd (retain_mut f xs) = concat (map (\<lambda>x. snd (snd (f x))) xs)"
  by (induction xs) (auto split: prod.split)

lemmas retain_mut_conv = fst_retain_mut snd_retain_mut

lemma retain_mut_id:
  "(\<And>x. x \<in> set xs \<Longrightarrow> f x = (True, x, [])) \<Longrightarrow> retain_mut f xs = (xs, [])"
  by (induction xs) auto

lemma length_takeWhile_sorted_split:
  assumes "\<And>i j. i \<le> j \<Longrightarrow> j < length xs \<Longrightarrow> P (xs ! j) \<Longrightarrow> P (xs ! i)"
    and "k \<le> length xs" "\<forall>i<k. P (xs ! i)" "\<forall>i. k \<le> i \<longrightarrow> i < length xs \<longrightarrow> \<not> P (xs ! i)"
  shows "length (takeWhile P xs) = k"
proof -
  have "takeWhile P xs = take k xs"
    using assms(2-4) by (intro takeWhile_eq_take_P_nth) auto
  then show ?thesis
    using assms(2) by simp
qed

lemma find_append:
  "List.find P (xs @ ys) = (case List.find P xs of Some x \<Rightarrow> Some x | None \<Rightarrow> List.find P ys)"
  by (induction xs) auto

lemma find_Some_split:
  "List.find P xs = Some x \<Longrightarrow> \<exists>us vs. xs = us @ x # vs \<and> P x \<and> (\<forall>u\<in>set us. \<not> P u)"
proof (induction xs)
  case Nil
  then show ?case by simp
next
  case (Cons y ys)
  show ?case
  proof (cases "P y")
    case True
    with Cons.prems show ?thesis by (intro exI [of _ "[]"] exI [of _ ys]) simp
  next
    case False
    with Cons obtain us vs where "ys = us @ x # vs" "P x" "\<forall>u\<in>set us. \<not> P u" by auto
    with False show ?thesis by (intro exI [of _ "y # us"] exI [of _ vs]) simp
  qed
qed

end
