(* ===== verification/F64.thy ===== *)
theory F64
  imports Prelude "HOL-Library.Log_Nat"
begin

text \<open>
  Rust's \<open>f64\<close> as its 64 bits. A finite double has a \<^emph>\<open>magnitude\<close> (the 63 low bits)
  that encodes significand and exponent; \<open>units\<close> is its absolute value in multiples of
  \<open>2^(-1074)\<close>, the smallest positive double, so that every finite double is an integer
  and the arithmetic of IEEE 754 (round to nearest, ties to even) is integer arithmetic.
  Comparisons are decided on the encoding; \<open>total_key\<close> is the key of \<open>f64::total_cmp\<close>.
  The payload of a NaN produced by arithmetic is not specified by the language; the model
  returns the canonical quiet NaN.
\<close>

section \<open>Encoding\<close>

datatype f64 = F64 (to_bits: u64)

definition f64_neg :: "f64 \<Rightarrow> bool" where
  "f64_neg x \<longleftrightarrow> 2 ^ 63 \<le> uint (to_bits x)"

definition f64_mag :: "f64 \<Rightarrow> int" where
  "f64_mag x = uint (to_bits x) mod 2 ^ 63"

abbreviation (input) inf_mag :: int where
  "inf_mag \<equiv> 0x7FF0000000000000"

definition f64_zero :: f64 where "f64_zero = F64 0"
definition f64_one :: f64 where "f64_one = F64 0x3FF0000000000000"
definition f64_max :: f64 where "f64_max = F64 0x7FEFFFFFFFFFFFFF"
definition f64_infinity :: f64 where "f64_infinity = F64 0x7FF0000000000000"
definition f64_neg_infinity :: f64 where "f64_neg_infinity = F64 0xFFF0000000000000"
definition f64_nan :: f64 where "f64_nan = F64 0x7FF8000000000000"

definition is_nan :: "f64 \<Rightarrow> bool" where
  "is_nan x \<longleftrightarrow> inf_mag < f64_mag x"

definition is_finite :: "f64 \<Rightarrow> bool" where
  "is_finite x \<longleftrightarrow> f64_mag x < inf_mag"

section \<open>Comparison\<close>

definition f64_ord :: "f64 \<Rightarrow> int" where
  "f64_ord x = (if f64_neg x then - f64_mag x else f64_mag x)"

definition f64_lt :: "f64 \<Rightarrow> f64 \<Rightarrow> bool" where
  "f64_lt x y \<longleftrightarrow> \<not> is_nan x \<and> \<not> is_nan y \<and> f64_ord x < f64_ord y"

definition f64_ge :: "f64 \<Rightarrow> f64 \<Rightarrow> bool" where
  "f64_ge x y \<longleftrightarrow> \<not> is_nan x \<and> \<not> is_nan y \<and> f64_ord y \<le> f64_ord x"

definition f64_gt :: "f64 \<Rightarrow> f64 \<Rightarrow> bool" where
  "f64_gt x y \<longleftrightarrow> f64_lt y x"

definition f64_eq :: "f64 \<Rightarrow> f64 \<Rightarrow> bool" where
  "f64_eq x y \<longleftrightarrow> \<not> is_nan x \<and> \<not> is_nan y \<and> f64_ord x = f64_ord y"

definition total_key :: "f64 \<Rightarrow> int" where
  "total_key x = (if f64_neg x then - f64_mag x - 1 else f64_mag x)"

lemma f64_mag_bounds: "0 \<le> f64_mag x" "f64_mag x < 2 ^ 63"
  unfolding f64_mag_def by simp_all

lemma uint_to_bits: "uint (to_bits x) = (if f64_neg x then 2 ^ 63 else 0) + f64_mag x"
proof -
  have "uint (to_bits x) < 2 ^ 64"
    using uint_lt2p [of "to_bits x"] by simp
  then have "f64_neg x \<Longrightarrow> (uint (to_bits x) - 2 ^ 63) mod 2 ^ 63 = uint (to_bits x) - 2 ^ 63"
    unfolding f64_neg_def by (intro mod_pos_pos_trivial) simp_all
  moreover have "(uint (to_bits x) - 2 ^ 63) mod 2 ^ 63 = uint (to_bits x) mod 2 ^ 63"
    by simp
  moreover have "\<not> f64_neg x \<Longrightarrow> uint (to_bits x) mod 2 ^ 63 = uint (to_bits x)"
    unfolding f64_neg_def by (intro mod_pos_pos_trivial) simp_all
  ultimately show ?thesis
    unfolding f64_mag_def by auto
qed

lemma f64_eq_iff_fields: "x = y \<longleftrightarrow> f64_neg x = f64_neg y \<and> f64_mag x = f64_mag y"
proof
  assume "f64_neg x = f64_neg y \<and> f64_mag x = f64_mag y"
  then have "uint (to_bits x) = uint (to_bits y)"
    by (simp add: uint_to_bits)
  then show "x = y"
    by (simp add: word_uint_eq_iff [symmetric] f64.expand)
qed simp

lemma total_key_inj: "total_key x = total_key y \<Longrightarrow> x = y"
  using f64_mag_bounds [of x] f64_mag_bounds [of y]
  by (auto simp: total_key_def f64_eq_iff_fields split: if_splits)

text \<open>\<open>f64::total_cmp\<close> is a linear order on all encodings; the class makes the library's
  stable sort (\<^const>\<open>sort_key\<close>) apply to lists keyed by doubles.\<close>

instantiation f64 :: linorder
begin

definition less_eq_f64 :: "f64 \<Rightarrow> f64 \<Rightarrow> bool" where
  "less_eq_f64 x y \<longleftrightarrow> total_key x \<le> total_key y"

definition less_f64 :: "f64 \<Rightarrow> f64 \<Rightarrow> bool" where
  "less_f64 x y \<longleftrightarrow> total_key x < total_key y"

instance
  by standard (auto simp: less_eq_f64_def less_f64_def intro: total_key_inj)

end

text \<open>On numbers the two orders agree, so a list sorted by \<open>total_cmp\<close> is sorted for \<open><\<close>.\<close>

lemma total_le_not_lt:
  "x \<le> y \<Longrightarrow> \<not> f64_lt y x"
  using f64_mag_bounds [of x] f64_mag_bounds [of y]
  by (auto simp: less_eq_f64_def total_key_def f64_lt_def f64_ord_def split: if_splits)

lemma f64_lt_le_trans:
  "x \<le> y \<Longrightarrow> f64_lt y v \<Longrightarrow> \<not> is_nan x \<Longrightarrow> f64_lt x v"
  using f64_mag_bounds [of x] f64_mag_bounds [of y] f64_mag_bounds [of v]
  by (auto simp: less_eq_f64_def total_key_def f64_lt_def f64_ord_def split: if_splits)

lemma f64_not_lt_iff_ge: "\<not> is_nan x \<Longrightarrow> \<not> is_nan y \<Longrightarrow> \<not> f64_lt x y \<longleftrightarrow> f64_ge x y"
  by (auto simp: f64_lt_def f64_ge_def)

lemma mag_consts [simp]:
  "f64_mag f64_zero = 0" "f64_mag f64_max = inf_mag - 1" "f64_mag f64_infinity = inf_mag"
  "f64_mag f64_neg_infinity = inf_mag" "f64_mag f64_nan = 0x7FF8000000000000"
  "f64_mag f64_one = 0x3FF0000000000000"
  by (simp_all add: f64_mag_def f64_zero_def f64_max_def f64_infinity_def
      f64_neg_infinity_def f64_nan_def f64_one_def)

lemma neg_consts [simp]:
  "\<not> f64_neg f64_zero" "\<not> f64_neg f64_max" "\<not> f64_neg f64_infinity"
  "f64_neg f64_neg_infinity" "\<not> f64_neg f64_nan" "\<not> f64_neg f64_one"
  by (simp_all add: f64_neg_def f64_zero_def f64_max_def f64_infinity_def
      f64_neg_infinity_def f64_nan_def f64_one_def)

lemma nan_consts [simp]:
  "\<not> is_nan f64_zero" "\<not> is_nan f64_max" "\<not> is_nan f64_infinity" "\<not> is_nan f64_neg_infinity"
  "is_nan f64_nan" "\<not> is_nan f64_one" "is_finite f64_zero" "is_finite f64_max" "is_finite f64_one"
  "\<not> is_finite f64_infinity" "\<not> is_finite f64_neg_infinity" "\<not> is_finite f64_nan"
  by (simp_all add: is_nan_def is_finite_def)

lemma finite_not_nan [simp]: "is_finite x \<Longrightarrow> \<not> is_nan x"
  by (simp add: is_finite_def is_nan_def)

lemma max_not_lt: "f64_lt f64_max x \<longleftrightarrow> x = f64_infinity"
  using f64_mag_bounds [of x]
  by (auto simp: f64_lt_def f64_ord_def is_nan_def f64_eq_iff_fields)

lemma f64_cases:
  "is_nan x \<or> x = f64_infinity \<or> x = f64_neg_infinity \<or> is_finite x"
  by (auto simp: is_nan_def is_finite_def f64_eq_iff_fields)

end
