(* ===== verification/F64_Arith.thy ===== *)
theory F64_Arith
  imports F64
begin

text \<open>
  Arithmetic on doubles: exact integer arithmetic on \<open>units\<close> followed by one rounding.
  \<open>f64_round s num den\<close> is the double of sign \<open>s\<close> nearest to \<open>num / den\<close> units, ties to
  even, infinite when the rounded value is out of range; the magnitude of the result is
  \<open>s * 2^52 + q\<close> for the \<open>53\<close>-bit significand \<open>q\<close> at exponent \<open>s\<close>, which also covers
  subnormals and the carry into the next binade. The lemmas show that a representable
  value is returned unchanged and that a bounded value stays finite.
\<close>

section \<open>Values\<close>

definition f64_sig :: "f64 \<Rightarrow> int" where
  "f64_sig x = (let e = f64_mag x div 2 ^ 52; f = f64_mag x mod 2 ^ 52
                in if e = 0 then f else 2 ^ 52 + f)"

definition f64_exp :: "f64 \<Rightarrow> nat" where
  "f64_exp x = nat (f64_mag x div 2 ^ 52 - 1)"

definition units :: "f64 \<Rightarrow> int" where
  "units x = f64_sig x * 2 ^ f64_exp x"

definition signed_units :: "f64 \<Rightarrow> int" where
  "signed_units x = (if f64_neg x then - units x else units x)"

section \<open>Rounding and the operations\<close>

definition f64_pack :: "bool \<Rightarrow> int \<Rightarrow> f64" where
  "f64_pack s m = F64 (word_of_int ((if s then 2 ^ 63 else 0) + min m inf_mag))"

definition round_shift :: "int \<Rightarrow> nat" where
  "round_shift q = nat (bitlen q - 53)"

definition round_sig :: "int \<Rightarrow> int \<Rightarrow> int" where
  "round_sig num d = (let q = num div d; r = num mod d
                      in if d < 2 * r \<or> (2 * r = d \<and> odd q) then q + 1 else q)"

definition f64_round :: "bool \<Rightarrow> int \<Rightarrow> int \<Rightarrow> f64" where
  "f64_round s num den =
     (let e = round_shift (num div den)
      in f64_pack s (int e * 2 ^ 52 + round_sig num (den * 2 ^ e)))"

definition f64_add :: "f64 \<Rightarrow> f64 \<Rightarrow> f64" where
  "f64_add x y =
     (if is_nan x \<or> is_nan y then f64_nan
      else if \<not> is_finite x \<and> \<not> is_finite y then (if f64_neg x = f64_neg y then x else f64_nan)
      else if \<not> is_finite x then x
      else if \<not> is_finite y then y
      else let t = signed_units x + signed_units y
           in if t = 0 then F64 (if f64_neg x \<and> f64_neg y then 2 ^ 63 else 0)
              else f64_round (t < 0) \<bar>t\<bar> 1)"

definition f64_negate :: "f64 \<Rightarrow> f64" where
  "f64_negate x = F64 (to_bits x XOR 2 ^ 63)"

definition f64_sub :: "f64 \<Rightarrow> f64 \<Rightarrow> f64" where
  "f64_sub x y = f64_add x (f64_negate y)"

definition f64_mul :: "f64 \<Rightarrow> f64 \<Rightarrow> f64" where
  "f64_mul x y =
     (let s = (f64_neg x \<noteq> f64_neg y) in
      if is_nan x \<or> is_nan y then f64_nan
      else if \<not> is_finite x \<or> \<not> is_finite y
      then (if f64_mag x = 0 \<or> f64_mag y = 0 then f64_nan else f64_pack s inf_mag)
      else f64_round s (units x * units y) (2 ^ 1074))"

definition f64_div :: "f64 \<Rightarrow> f64 \<Rightarrow> f64" where
  "f64_div x y =
     (let s = (f64_neg x \<noteq> f64_neg y) in
      if is_nan x \<or> is_nan y then f64_nan
      else if \<not> is_finite x then (if \<not> is_finite y then f64_nan else f64_pack s inf_mag)
      else if \<not> is_finite y then f64_pack s 0
      else if f64_mag y = 0 then (if f64_mag x = 0 then f64_nan else f64_pack s inf_mag)
      else f64_round s (units x * 2 ^ 1074) (units y))"

text \<open>The casts \<open>as f64\<close> from \<open>u64\<close>, \<open>i64\<close> and \<open>i32\<close>.\<close>

definition f64_of_int :: "int \<Rightarrow> f64" where
  "f64_of_int n = f64_round (n < 0) (\<bar>n\<bar> * 2 ^ 1074) 1"

definition f64_of_u64 :: "u64 \<Rightarrow> f64" where
  "f64_of_u64 w = f64_of_int (uint w)"

definition f64_of_i64 :: "i64 \<Rightarrow> f64" where
  "f64_of_i64 w = f64_of_int (sint w)"

definition f64_of_i32 :: "i32 \<Rightarrow> f64" where
  "f64_of_i32 w = f64_of_int (sint w)"

section \<open>Packing\<close>

lemma pack_fields:
  assumes "0 \<le> m"
  shows "f64_neg (f64_pack s m) = s" "f64_mag (f64_pack s m) = min m inf_mag"
proof -
  define k where "k = (if s then 2 ^ 63 else 0) + min m inf_mag"
  have "0 \<le> k" "k < 2 ^ 64"
    using assms by (auto simp: k_def)
  then have "uint (word_of_int k :: u64) = k"
    by (simp add: uint_word_of_int)
  then have "uint (to_bits (f64_pack s m)) = (if s then 2 ^ 63 else 0) + min m inf_mag"
    unfolding f64_pack_def k_def by simp
  then show "f64_neg (f64_pack s m) = s" "f64_mag (f64_pack s m) = min m inf_mag"
    using assms by (auto simp: f64_neg_def f64_mag_def)
qed

lemma round_sig_nonneg: "0 \<le> num \<Longrightarrow> 0 < d \<Longrightarrow> 0 \<le> round_sig num d"
  by (auto simp: round_sig_def Let_def pos_imp_zdiv_nonneg_iff intro: add_nonneg_nonneg)

lemma round_sig_exact: "0 < d \<Longrightarrow> round_sig (q * d) d = q"
  by (simp add: round_sig_def)

lemma not_nan_round: "0 \<le> num \<Longrightarrow> 0 < den \<Longrightarrow> \<not> is_nan (f64_round s num den)"
  by (simp add: f64_round_def Let_def is_nan_def pack_fields round_sig_nonneg)

section \<open>Exactness and range\<close>

lemma bitlen_range: "0 < n \<Longrightarrow> 2 ^ nat (bitlen n - 1) \<le> n" "0 < n \<Longrightarrow> n < 2 ^ nat (bitlen n)"
  using bitlen_bounds [of n] by auto

lemma div_less_iff_mult: "0 < d \<Longrightarrow> n < k * d \<Longrightarrow> n div d < (k :: int)"
proof -
  assume d: "0 < d" and n: "n < k * d"
  have "n div d * d \<le> n"
    using d by (metis Euclidean_Rings.pos_mod_sign div_mult_mod_eq le_add_same_cancel1)
  with n have "n div d * d < k * d" by linarith
  with d show ?thesis by simp
qed

lemma div_ge_mult: "0 < d \<Longrightarrow> k * d \<le> n \<Longrightarrow> (k :: int) \<le> n div d"
  using zdiv_mono1 [of "k * d" n d] by simp

lemma round_shift_div_bound: "0 \<le> n \<Longrightarrow> n div 2 ^ round_shift n < 2 ^ 53"
proof -
  assume n: "0 \<le> n"
  have "n < 2 ^ nat (bitlen n)"
    using n bitlen_range (2) [of n] by (cases "n = 0") auto
  also have "\<dots> \<le> 2 ^ (53 + round_shift n)"
    by (intro power_increasing) (auto simp: round_shift_def)
  finally have "n < 2 ^ 53 * 2 ^ round_shift n"
    by (simp add: power_add)
  then show ?thesis
    by (intro div_less_iff_mult) simp_all
qed

lemma round_shift_div_lower: "0 < round_shift n \<Longrightarrow> 0 < n \<Longrightarrow> 2 ^ 52 \<le> n div 2 ^ round_shift n"
proof -
  assume e: "0 < round_shift n" and n: "0 < n"
  then have "52 + round_shift n = nat (bitlen n - 1)"
    by (simp add: round_shift_def)
  then have "2 ^ 52 * 2 ^ round_shift n \<le> n"
    using bitlen_range (1) [OF n] by (simp only: power_add [symmetric])
  then show ?thesis
    by (intro div_ge_mult) simp_all
qed

lemma units_pack:
  assumes "0 \<le> q" "q < 2 ^ 53" "e = 0 \<or> 2 ^ 52 \<le> q" "e \<le> 2045"
  shows "is_finite (f64_pack s (int e * 2 ^ 52 + q))"
    and "units (f64_pack s (int e * 2 ^ 52 + q)) = q * 2 ^ e"
proof -
  let ?x = "f64_pack s (int e * 2 ^ 52 + q)"
  have le: "int e * 2 ^ 52 + q < inf_mag"
    using assms by simp
  then have m: "f64_mag ?x = int e * 2 ^ 52 + q"
    using assms by (simp add: pack_fields)
  then show "is_finite ?x"
    using le by (simp add: is_finite_def)
  show "units ?x = q * 2 ^ e"
  proof (cases "q < 2 ^ 52")
    case True
    then show ?thesis
      using assms m by (auto simp: units_def f64_sig_def f64_exp_def)
  next
    case False
    define f where "f = q - 2 ^ 52"
    have "f64_mag ?x = f + (int e + 1) * 2 ^ 52"
      unfolding m f_def by (simp add: algebra_simps)
    moreover have "0 \<le> f" "f < 2 ^ 52"
      using False assms by (auto simp: f_def)
    ultimately have "f64_mag ?x div 2 ^ 52 = int e + 1" "f64_mag ?x mod 2 ^ 52 = q - 2 ^ 52"
      unfolding f_def [symmetric] by (simp_all only: div_mult_self1 mod_mult_self1, simp_all)
    then show ?thesis
      by (simp add: units_def f64_sig_def f64_exp_def)
  qed
qed

text \<open>A value whose low bits below the chosen exponent are zero is returned unchanged.\<close>

lemma round_exact:
  assumes "0 < n" "2 ^ round_shift n dvd n" "bitlen n \<le> 2098"
  shows "is_finite (f64_round s n 1) \<and> units (f64_round s n 1) = n \<and> f64_neg (f64_round s n 1) = s"
proof -
  let ?e = "round_shift n" and ?q = "n div 2 ^ round_shift n"
  have n: "n = ?q * 2 ^ ?e"
    using assms(2) by simp
  then have "round_sig n (2 ^ ?e) = ?q"
    by (metis round_sig_exact zero_less_numeral zero_less_power)
  then have r: "f64_round s n 1 = f64_pack s (int ?e * 2 ^ 52 + ?q)"
    by (simp add: f64_round_def Let_def)
  have "?e = 0 \<or> 2 ^ 52 \<le> ?q"
    using assms round_shift_div_lower [of n] by (cases "?e = 0") simp_all
  moreover have "?e \<le> 2045"
    using assms by (simp add: round_shift_def)
  moreover have "0 \<le> ?q" "?q < 2 ^ 53"
    using assms round_shift_div_bound [of n] by (simp_all add: pos_imp_zdiv_nonneg_iff)
  ultimately have q: "0 \<le> ?q" "?q < 2 ^ 53" "?e = 0 \<or> 2 ^ 52 \<le> ?q" "?e \<le> 2045"
    by blast+
  show ?thesis
    unfolding r using units_pack [OF q, of s] n q(1) by (simp add: pack_fields)
qed

lemma round_finite:
  assumes "0 \<le> num" "0 < den" "num div den < 2 ^ 2000"
  shows "is_finite (f64_round s num den)"
proof -
  let ?n = "num div den" and ?e = "round_shift (num div den)"
  have n: "0 \<le> ?n"
    using assms by (simp add: pos_imp_zdiv_nonneg_iff)
  have "num div (den * 2 ^ ?e) = ?n div 2 ^ ?e"
    using assms by (simp add: zdiv_zmult2_eq)
  then have sig: "round_sig num (den * 2 ^ ?e) \<le> 2 ^ 53"
    using round_shift_div_bound [OF n] by (auto simp: round_sig_def Let_def)
  have "bitlen ?n \<le> 2000"
  proof (cases "?n = 0")
    case False
    then have "2 ^ nat (bitlen ?n - 1) < (2 :: int) ^ 2000"
      using n assms(3) bitlen_range (1) [of ?n] by linarith
    then have "nat (bitlen ?n - 1) < 2000"
      by (rule power_less_imp_less_exp [rotated]) simp
    then show ?thesis by simp
  qed simp
  then have "?e \<le> 1947"
    by (simp add: round_shift_def)
  then show ?thesis
    using sig assms round_sig_nonneg [of num "den * 2 ^ ?e"]
    by (simp add: is_finite_def f64_round_def pack_fields Let_def)
qed

lemma bitlen_shift: "0 < n \<Longrightarrow> bitlen (n * 2 ^ k) = bitlen n + int k"
  by (simp add: bitlen_alt_def log_mult floor_add_int [symmetric])

lemma of_int_exact:
  assumes "\<bar>n\<bar> < 2 ^ 53"
  shows "is_finite (f64_of_int n) \<and> signed_units (f64_of_int n) = n * 2 ^ 1074"
proof (cases "n = 0")
  case True
  then show ?thesis
    by (simp add: f64_of_int_def f64_round_def round_shift_def round_sig_def signed_units_def
        units_def f64_sig_def f64_exp_def is_finite_def pack_fields)
next
  case False
  let ?n = "\<bar>n\<bar> * 2 ^ 1074"
  have "2 ^ nat (bitlen \<bar>n\<bar> - 1) < (2 :: int) ^ 53"
    using bitlen_range (1) [of "\<bar>n\<bar>"] False assms by linarith
  then have "nat (bitlen \<bar>n\<bar> - 1) < 53"
    by (rule power_less_imp_less_exp [rotated]) simp
  then have bl: "bitlen \<bar>n\<bar> \<le> 53" by simp
  have bl': "bitlen ?n = bitlen \<bar>n\<bar> + 1074"
    using False bitlen_shift [of "\<bar>n\<bar>" 1074] by simp
  have "round_shift ?n \<le> 1074"
    using bl bl' by (simp add: round_shift_def)
  then have "(2 :: int) ^ round_shift ?n dvd 2 ^ 1074"
    by (rule le_imp_power_dvd)
  then have "2 ^ round_shift ?n dvd ?n"
    by (rule dvd_mult)
  then have "is_finite (f64_of_int n) \<and> units (f64_of_int n) = ?n \<and> f64_neg (f64_of_int n) = (n < 0)"
    unfolding f64_of_int_def using False bl bl' by (intro round_exact) auto
  then show ?thesis
    by (simp add: signed_units_def)
qed

text \<open>The double denotes the integer \<open>n\<close> exactly.\<close>

definition f64_denotes :: "f64 \<Rightarrow> int \<Rightarrow> bool" where
  "f64_denotes x n \<longleftrightarrow> is_finite x \<and> signed_units x = n * 2 ^ 1074"

lemma of_int_denotes: "\<bar>n\<bar> < 2 ^ 53 \<Longrightarrow> f64_denotes (f64_of_int n) n"
  unfolding f64_denotes_def by (rule of_int_exact)

text \<open>Rounding an integer number of units at most carries into the next power of two.\<close>

lemma round_units_le:
  assumes "0 \<le> n" "bitlen n \<le> 2000"
  shows "units (f64_round s n 1) \<le> 2 ^ (53 + round_shift n)"
proof -
  let ?e = "round_shift n" and ?q = "round_sig n (2 ^ round_shift n)"
  have r: "f64_round s n 1 = f64_pack s (int ?e * 2 ^ 52 + ?q)"
    by (simp add: f64_round_def Let_def)
  have e: "?e \<le> 1947"
    using assms(2) by (simp add: round_shift_def)
  have q: "0 \<le> ?q" "?q \<le> 2 ^ 53" "n div 2 ^ ?e \<le> ?q"
    using round_shift_div_bound [OF assms(1)] round_sig_nonneg [OF assms(1), of "2 ^ ?e"]
    by (auto simp: round_sig_def Let_def)
  have lower: "?e = 0 \<or> 2 ^ 52 \<le> ?q"
  proof (cases "?e = 0")
    case False
    then have "0 < n"
      using assms(1) by (cases "n = 0") (auto simp: round_shift_def)
    then show ?thesis
      using round_shift_div_lower [of n] False q(3) by linarith
  qed simp
  show ?thesis
  proof (cases "?q = 2 ^ 53")
    case True
    have "int ?e * 2 ^ 52 + ?q = int (Suc ?e) * 2 ^ 52 + 2 ^ 52"
      unfolding True by (simp add: algebra_simps)
    then have r': "f64_round s n 1 = f64_pack s (int (Suc ?e) * 2 ^ 52 + 2 ^ 52)"
      unfolding r by (rule arg_cong)
    have "units (f64_round s n 1) = 2 ^ 52 * 2 ^ Suc ?e"
      unfolding r' by (rule units_pack (2)) (use e in simp_all)
    also have "\<dots> = 2 ^ (53 + ?e)"
      by (simp only: power_add [symmetric]) simp
    finally show ?thesis by simp
  next
    case False
    then have "units (f64_round s n 1) = ?q * 2 ^ ?e"
      unfolding r using units_pack (2) [of ?q ?e s] q(1,2) lower e by linarith
    also have "\<dots> \<le> 2 ^ 53 * 2 ^ ?e"
      using q(2) by (intro mult_right_mono) simp_all
    also have "\<dots> = 2 ^ (53 + ?e)"
      by (simp only: power_add)
    finally show ?thesis .
  qed
qed

end
