(* ===== verification/Atomics.thy ===== *)
theory Atomics
  imports F64_Arith
begin

text \<open>
  The 64-bit atomics behind counters and gauges, \<open>foundations-metrics/src/metrics/mod.rs\<close>.
  An integer operation is one read-modify-write instruction, so a sequence of them is the
  interleaving itself. A float update is the compare-exchange loop \<open>update_f64\<close>: its
  uncontended run is a terminating function, and its contended run a step relation over any
  number of threads, in which a load may return any earlier value of the cell (the orderings
  are relaxed) and \<open>compare_exchange_weak\<close> may fail although the values agree.
\<close>

section \<open>Integer atomics\<close>

definition fetch_add :: "u64 \<Rightarrow> u64 \<Rightarrow> u64 \<times> u64" where
  "fetch_add v a = (a, a + v)"

definition fetch_sub :: "u64 \<Rightarrow> u64 \<Rightarrow> u64 \<times> u64" where
  "fetch_sub v a = (a, a - v)"

definition atomic_swap :: "u64 \<Rightarrow> u64 \<Rightarrow> u64 \<times> u64" where
  "atomic_swap v a = (a, v)"

section \<open>The compare-exchange loop, uncontended\<close>

text \<open>\<open>weak\<close> says which of the next attempts fail spuriously.\<close>

function update_f64_loop :: "(f64 \<Rightarrow> f64) \<Rightarrow> bool list \<Rightarrow> u64 \<Rightarrow> u64 \<Rightarrow> f64 \<times> u64" where
  "update_f64_loop f weak mem old_bits =
     (let old = F64 old_bits; new_bits = to_bits (f old)
      in case weak of
           True # weak' \<Rightarrow> update_f64_loop f weak' mem mem
         | _ \<Rightarrow> if mem = old_bits then (old, new_bits) else update_f64_loop f (tl weak) mem mem)"
  by pat_completeness auto
termination
  by (relation "measure (\<lambda>(f, weak, mem, old). length weak + (if mem = old then 0 else 1))")
    (auto split: list.splits)

declare update_f64_loop.simps [simp del]

definition update_f64 :: "(f64 \<Rightarrow> f64) \<Rightarrow> u64 \<Rightarrow> f64 \<times> u64" where
  "update_f64 f mem = update_f64_loop f [] mem mem"

lemma update_f64_loop_result:
  "update_f64_loop f weak mem old_bits = (F64 mem, to_bits (f (F64 mem)))"
  by (induction f weak mem old_bits rule: update_f64_loop.induct)
    (subst update_f64_loop.simps, auto simp: Let_def split: list.split bool.split)

lemma update_f64_result [simp]: "update_f64 f mem = (F64 mem, to_bits (f (F64 mem)))"
  by (simp add: update_f64_def update_f64_loop_result)

section \<open>The compare-exchange loop, contended\<close>

datatype cas_pc = AtLoad | AtCas u64 | Returned f64

text \<open>\<open>cs_history\<close> is the modification order of the cell, latest value first; \<open>cs_log\<close> the
  threads whose exchange succeeded, latest first.\<close>

record cas_state =
  cs_history :: "u64 list"
  cs_pc :: "nat \<Rightarrow> cas_pc"
  cs_log :: "nat list"

inductive cas_step :: "(nat \<Rightarrow> f64 \<Rightarrow> f64) \<Rightarrow> cas_state \<Rightarrow> cas_state \<Rightarrow> bool" for f where
  load: "cs_pc s t = AtLoad \<Longrightarrow> v \<in> set (cs_history s) \<Longrightarrow>
     cas_step f s (s\<lparr>cs_pc := (cs_pc s)(t := AtCas v)\<rparr>)"
| exchange: "cs_pc s t = AtCas old_bits \<Longrightarrow> hd (cs_history s) = old_bits \<Longrightarrow>
     cas_step f s (s\<lparr>cs_history := to_bits (f t (F64 old_bits)) # cs_history s,
                     cs_pc := (cs_pc s)(t := Returned (F64 old_bits)),
                     cs_log := t # cs_log s\<rparr>)"
| fail: "cs_pc s t = AtCas old_bits \<Longrightarrow> actual \<in> set (cs_history s) \<Longrightarrow>
     cas_step f s (s\<lparr>cs_pc := (cs_pc s)(t := AtCas actual)\<rparr>)"

definition cas_start :: "u64 \<Rightarrow> cas_state" where
  "cas_start v = \<lparr>cs_history = [v], cs_pc = (\<lambda>_. AtLoad), cs_log = []\<rparr>"

inductive cas_reachable :: "(nat \<Rightarrow> f64 \<Rightarrow> f64) \<Rightarrow> u64 \<Rightarrow> cas_state \<Rightarrow> bool" for f v where
  start: "cas_reachable f v (cas_start v)"
| step: "cas_reachable f v s \<Longrightarrow> cas_step f s s' \<Longrightarrow> cas_reachable f v s'"

inductive_cases cas_stepE: "cas_step f s s'"

text \<open>The value after the updates of a log, applied one after the other.\<close>

fun apply_log :: "(nat \<Rightarrow> f64 \<Rightarrow> f64) \<Rightarrow> f64 \<Rightarrow> nat list \<Rightarrow> f64" where
  "apply_log f v [] = v"
| "apply_log f v (t # ts) = f t (apply_log f v ts)"

definition cas_inv :: "(nat \<Rightarrow> f64 \<Rightarrow> f64) \<Rightarrow> u64 \<Rightarrow> cas_state \<Rightarrow> bool" where
  "cas_inv f v s \<longleftrightarrow>
     cs_history s \<noteq> [] \<and>
     hd (cs_history s) = to_bits (apply_log f (F64 v) (cs_log s)) \<and>
     distinct (cs_log s) \<and>
     (\<forall>t. t \<in> set (cs_log s) \<longleftrightarrow> (\<exists>r. cs_pc s t = Returned r)) \<and>
     (\<forall>t r. cs_pc s t = Returned r \<longrightarrow>
        (\<exists>later earlier. cs_log s = later @ t # earlier \<and> r = apply_log f (F64 v) earlier))"

lemma cas_inv_start: "cas_inv f v (cas_start v)"
  by (simp add: cas_inv_def cas_start_def)

lemma cas_inv_other_pc:
  assumes "cas_inv f v s" "\<forall>r. cs_pc s t \<noteq> Returned r"
  shows "cas_inv f v (s\<lparr>cs_pc := (cs_pc s)(t := AtCas w)\<rparr>)"
  using assms by (auto simp: cas_inv_def)

lemma cas_inv_exchange:
  assumes "cas_inv f v s" "cs_pc s t = AtCas old_bits" "hd (cs_history s) = old_bits"
  shows "cas_inv f v (s\<lparr>cs_history := to_bits (f t (F64 old_bits)) # cs_history s,
                     cs_pc := (cs_pc s)(t := Returned (F64 old_bits)), cs_log := t # cs_log s\<rparr>)"
proof -
  have t: "t \<notin> set (cs_log s)"
    using assms by (auto simp: cas_inv_def)
  have old: "F64 old_bits = apply_log f (F64 v) (cs_log s)"
    using assms by (simp add: cas_inv_def f64.expand)
  have log: "\<exists>later earlier. t # cs_log s = later @ t' # earlier \<and> r = apply_log f (F64 v) earlier"
    if "((cs_pc s)(t := Returned (F64 old_bits))) t' = Returned r" for t' r
  proof (cases "t' = t")
    case True
    then show ?thesis
      using that old by (intro exI [of _ "[]"] exI [of _ "cs_log s"]) auto
  next
    case False
    then have "cs_pc s t' = Returned r"
      using that by simp
    then obtain later earlier where "cs_log s = later @ t' # earlier" "r = apply_log f (F64 v) earlier"
      using assms(1) unfolding cas_inv_def by blast
    then show ?thesis
      by (intro exI [of _ "t # later"] exI [of _ earlier]) auto
  qed
  have ret: "\<forall>t'. t' \<in> set (t # cs_log s) \<longleftrightarrow>
      (\<exists>r. ((cs_pc s)(t := Returned (F64 old_bits))) t' = Returned r)"
    using assms(1) by (simp add: cas_inv_def)
  have val: "to_bits (f t (F64 old_bits)) = to_bits (apply_log f (F64 v) (t # cs_log s))"
    using old by simp
  have dist: "distinct (t # cs_log s)"
    using assms(1) t by (simp add: cas_inv_def)
  define s' where "s' = s\<lparr>cs_history := to_bits (f t (F64 old_bits)) # cs_history s,
      cs_pc := (cs_pc s)(t := Returned (F64 old_bits)), cs_log := t # cs_log s\<rparr>"
  have fields: "cs_history s' = to_bits (f t (F64 old_bits)) # cs_history s"
    "cs_pc s' = (cs_pc s)(t := Returned (F64 old_bits))" "cs_log s' = t # cs_log s"
    by (simp_all add: s'_def)
  have "cas_inv f v s'"
    unfolding cas_inv_def fields list.sel
    by (intro conjI allI impI log ret [THEN spec] val dist list.distinct) assumption
  then show ?thesis
    by (simp add: s'_def)
qed

lemma cas_step_inv [invariant_intros]: "cas_step f s s' \<Longrightarrow> cas_inv f v s \<Longrightarrow> cas_inv f v s'"
  by (auto elim!: cas_stepE intro: cas_inv_other_pc cas_inv_exchange)

lemma cas_reachable_inv: "cas_reachable f v s \<Longrightarrow> cas_inv f v s"
  by (induction rule: cas_reachable.induct) (auto intro: cas_inv_start invariant_intros)

section \<open>Properties\<close>

text \<open>The float update loop is linearizable and loses no update: in every reachable state of
  any interleaving, with stale loads and spurious failures, the cell holds the result of
  applying the updates of exactly the threads that have returned, each once, in the order of
  their successful exchanges, and every thread returned the value its own update was applied
  to.\<close>

theorem update_f64_linearizable:
  assumes "cas_reachable f v s"
  shows "hd (cs_history s) = to_bits (apply_log f (F64 v) (cs_log s)) \<and>
    distinct (cs_log s) \<and> set (cs_log s) = {t. \<exists>r. cs_pc s t = Returned r} \<and>
    (\<forall>t r. cs_pc s t = Returned r \<longrightarrow>
       (\<exists>later earlier. cs_log s = later @ t # earlier \<and> r = apply_log f (F64 v) earlier))"
proof -
  have "cas_inv f v s"
    using assms by (rule cas_reachable_inv)
  then show ?thesis
    unfolding cas_inv_def by blast
qed

text \<open>Thread 1 reads, thread 0 reads and writes, thread 1 fails and retries.\<close>

definition contended_run :: cas_state where
  "contended_run =
     \<lparr>cs_history = [to_bits f64_max, to_bits f64_one, 0],
      cs_pc = (\<lambda>_. AtLoad)(1 := Returned f64_one, 0 := Returned (F64 0)), cs_log = [1, 0]\<rparr>"

lemma contended_run_reachable:
  "cas_reachable (\<lambda>t _. if t = 0 then f64_one else f64_max) 0 contended_run"
proof -
  let ?f = "\<lambda>t :: nat. \<lambda>_ :: f64. if t = 0 then f64_one else f64_max"
  let ?s1 = "\<lparr>cs_history = [0], cs_pc = (\<lambda>_. AtLoad)(1 := AtCas 0), cs_log = []\<rparr>"
  let ?s2 = "\<lparr>cs_history = [0], cs_pc = (\<lambda>_. AtLoad)(1 := AtCas 0, 0 := AtCas 0), cs_log = []\<rparr>"
  let ?s3 = "\<lparr>cs_history = [to_bits f64_one, 0],
     cs_pc = (\<lambda>_. AtLoad)(1 := AtCas 0, 0 := Returned (F64 0)), cs_log = [0]\<rparr>"
  let ?s4 = "\<lparr>cs_history = [to_bits f64_one, 0],
     cs_pc = (\<lambda>_. AtLoad)(1 := AtCas (to_bits f64_one), 0 := Returned (F64 0)), cs_log = [0]\<rparr>"
  have "cas_step ?f (cas_start 0) ?s1"
    using cas_step.load [of "cas_start 0" 1 0 ?f] by (simp add: cas_start_def)
  moreover have "cas_step ?f ?s1 ?s2"
    using cas_step.load [of ?s1 0 0 ?f] by simp
  moreover have "cas_step ?f ?s2 ?s3"
    using cas_step.exchange [of ?s2 0 0 ?f] by simp
  moreover have "cas_step ?f ?s3 ?s4"
    using cas_step.fail [of ?s3 1 0 "to_bits f64_one" ?f] by (simp add: fun_upd_twist)
  moreover have "cas_step ?f ?s4 contended_run"
    using cas_step.exchange [of ?s4 1 "to_bits f64_one" ?f]
    by (simp add: contended_run_def fun_upd_twist)
  ultimately show ?thesis
    by (meson cas_reachable.intros)
qed

theorem update_f64_linearizable_witness:
  "hd (cs_history contended_run) =
     to_bits (apply_log (\<lambda>t _. if t = 0 then f64_one else f64_max) (F64 0) [1, 0]) \<and>
   set [1, 0] = {t. \<exists>r. cs_pc contended_run t = Returned r}"
  using update_f64_linearizable [OF contended_run_reachable]
  by (simp add: contended_run_def)

text \<open>No state of the loop is stuck: from every reachable state, a thread that has loaded the
  cell returns within two steps that change no other thread's position (a failed exchange that
  refreshes its value, then a successful one), however stale the value it had.\<close>

theorem update_f64_can_finish:
  assumes "cas_reachable f v s" and "cs_pc s t = AtCas old_bits"
  shows "\<exists>s1 s2 r. cas_step f s s1 \<and> cas_step f s1 s2 \<and> cs_pc s2 = (cs_pc s)(t := Returned r) \<and>
    cs_log s2 = t # cs_log s"
proof -
  have ne: "cs_history s \<noteq> []"
    using cas_reachable_inv [OF assms(1)] by (simp add: cas_inv_def)
  define h where "h = hd (cs_history s)"
  define s1 where "s1 = s\<lparr>cs_pc := (cs_pc s)(t := AtCas h)\<rparr>"
  define s2 where "s2 = s1\<lparr>cs_history := to_bits (f t (F64 h)) # cs_history s1,
                     cs_pc := (cs_pc s1)(t := Returned (F64 h)), cs_log := t # cs_log s1\<rparr>"
  have "cas_step f s s1"
    unfolding s1_def h_def using assms(2) ne by (intro cas_step.fail) auto
  moreover have "cas_step f s1 s2"
    unfolding s2_def by (rule cas_step.exchange) (simp_all add: s1_def h_def)
  moreover have "cs_pc s2 = (cs_pc s)(t := Returned (F64 h))" "cs_log s2 = t # cs_log s"
    by (simp_all add: s1_def s2_def)
  ultimately show ?thesis
    by blast
qed

lemma loaded_reachable:
  "cas_reachable f v (cas_start v\<lparr>cs_pc := (\<lambda>_. AtLoad)(0 := AtCas v)\<rparr>)"
  using cas_reachable.step [OF cas_reachable.start cas_step.load [of "cas_start v" 0 v f]]
  by (simp add: cas_start_def)

theorem update_f64_can_finish_witness:
  "\<exists>s1 s2 r. cas_step (\<lambda>_ x. f64_add x f64_one)
      (cas_start 0\<lparr>cs_pc := (\<lambda>_. AtLoad)(0 := AtCas 0)\<rparr>) s1 \<and>
    cas_step (\<lambda>_ x. f64_add x f64_one) s1 s2 \<and> cs_pc s2 = (\<lambda>_. AtLoad)(0 := Returned r) \<and>
    cs_log s2 = [0]"
  using update_f64_can_finish [OF loaded_reachable, of 0 0 0 "\<lambda>_ x. f64_add x f64_one"]
  by (simp add: cas_start_def)

end
