(* ===== verification/Proto.thy ===== *)
theory Proto
  imports F64
begin

text \<open>
  The Prometheus protobuf data model, \<open>foundations-metrics-registry/src/proto/model.rs\<close>:
  one record per message with the fields in the order of the source, optional fields as
  \<^typ>\<open>'a option\<close>, repeated fields as lists, and the record a \<open>..Default::default()\<close>
  starts from. \<open>metric_type\<close> is the enumeration; a \<^typ>\<open>i32\<close> outside its range has no
  variant (\<open>MetricType::try_from\<close>).
\<close>

record label_pair =
  lp_name :: "string option"
  lp_value :: "string option"

record gauge_msg =
  g_value :: "f64 option"

text \<open>\<open>prost_types::Timestamp\<close>, as far as the code reads it.\<close>

record timestamp =
  ts_seconds :: i64
  ts_nanos :: i32

record exemplar =
  ex_label :: "label_pair list"
  ex_value :: "f64 option"
  ex_timestamp :: "timestamp option"

record counter_msg =
  c_value :: "f64 option"
  c_exemplar :: "exemplar option"
  c_created_timestamp :: "timestamp option"

record quantile =
  q_quantile :: "f64 option"
  q_value :: "f64 option"

record summary =
  s_sample_count :: "u64 option"
  s_sample_sum :: "f64 option"
  s_quantile :: "quantile list"
  s_created_timestamp :: "timestamp option"

record untyped =
  u_value :: "f64 option"

record bucket_span =
  bs_offset :: "i32 option"
  bs_length :: "u32 option"

record bucket =
  b_cumulative_count :: "u64 option"
  b_cumulative_count_float :: "f64 option"
  b_upper_bound :: "f64 option"
  b_exemplar :: "exemplar option"

record histogram_msg =
  h_sample_count :: "u64 option"
  h_sample_count_float :: "f64 option"
  h_sample_sum :: "f64 option"
  h_bucket :: "bucket list"
  h_created_timestamp :: "timestamp option"
  h_schema :: "i32 option"
  h_zero_threshold :: "f64 option"
  h_zero_count :: "u64 option"
  h_zero_count_float :: "f64 option"
  h_negative_span :: "bucket_span list"
  h_negative_delta :: "i64 list"
  h_negative_count :: "f64 list"
  h_positive_span :: "bucket_span list"
  h_positive_delta :: "i64 list"
  h_positive_count :: "f64 list"
  h_exemplars :: "exemplar list"

record metric =
  m_label :: "label_pair list"
  m_gauge :: "gauge_msg option"
  m_counter :: "counter_msg option"
  m_summary :: "summary option"
  m_untyped :: "untyped option"
  m_histogram :: "histogram_msg option"
  m_timestamp_ms :: "i64 option"

record metric_family =
  f_name :: "string option"
  f_help :: "string option"
  f_type :: "i32 option"
  f_metric :: "metric list"
  f_unit :: "string option"

section \<open>Defaults\<close>

definition exemplar_default :: exemplar where
  "exemplar_default = \<lparr>ex_label = [], ex_value = None, ex_timestamp = None\<rparr>"

definition counter_default :: counter_msg where
  "counter_default = \<lparr>c_value = None, c_exemplar = None, c_created_timestamp = None\<rparr>"

definition bucket_default :: bucket where
  "bucket_default = \<lparr>b_cumulative_count = None, b_cumulative_count_float = None,
     b_upper_bound = None, b_exemplar = None\<rparr>"

definition histogram_default :: histogram_msg where
  "histogram_default = \<lparr>h_sample_count = None, h_sample_count_float = None,
     h_sample_sum = None, h_bucket = [], h_created_timestamp = None, h_schema = None,
     h_zero_threshold = None, h_zero_count = None, h_zero_count_float = None,
     h_negative_span = [], h_negative_delta = [], h_negative_count = [],
     h_positive_span = [], h_positive_delta = [], h_positive_count = [], h_exemplars = []\<rparr>"

definition metric_default :: metric where
  "metric_default = \<lparr>m_label = [], m_gauge = None, m_counter = None, m_summary = None,
     m_untyped = None, m_histogram = None, m_timestamp_ms = None\<rparr>"

lemmas proto_defaults = exemplar_default_def counter_default_def bucket_default_def
  histogram_default_def metric_default_def

section \<open>The metric type enumeration\<close>

datatype metric_type = Counter | Gauge | Summary | Untyped | Histogram | GaugeHistogram

fun metric_type_to_i32 :: "metric_type \<Rightarrow> i32" where
  "metric_type_to_i32 Counter = 0"
| "metric_type_to_i32 Gauge = 1"
| "metric_type_to_i32 Summary = 2"
| "metric_type_to_i32 Untyped = 3"
| "metric_type_to_i32 Histogram = 4"
| "metric_type_to_i32 GaugeHistogram = 5"

definition metric_type_try_from :: "i32 \<Rightarrow> metric_type option" where
  "metric_type_try_from w =
     (if w = 0 then Some Counter else if w = 1 then Some Gauge
      else if w = 2 then Some Summary else if w = 3 then Some Untyped
      else if w = 4 then Some Histogram else if w = 5 then Some GaugeHistogram else None)"

fun as_str_name :: "metric_type \<Rightarrow> string" where
  "as_str_name Counter = ''COUNTER''"
| "as_str_name Gauge = ''GAUGE''"
| "as_str_name Summary = ''SUMMARY''"
| "as_str_name Untyped = ''UNTYPED''"
| "as_str_name Histogram = ''HISTOGRAM''"
| "as_str_name GaugeHistogram = ''GAUGE_HISTOGRAM''"

definition from_str_name :: "string \<Rightarrow> metric_type option" where
  "from_str_name s =
     (if s = ''COUNTER'' then Some Counter else if s = ''GAUGE'' then Some Gauge
      else if s = ''SUMMARY'' then Some Summary else if s = ''UNTYPED'' then Some Untyped
      else if s = ''HISTOGRAM'' then Some Histogram
      else if s = ''GAUGE_HISTOGRAM'' then Some GaugeHistogram else None)"

lemma metric_type_try_from_to_i32 [simp]: "metric_type_try_from (metric_type_to_i32 t) = Some t"
  by (cases t) (simp_all add: metric_type_try_from_def)

lemma metric_type_try_from_Some:
  "metric_type_try_from w = Some t \<longleftrightarrow> w = metric_type_to_i32 t"
  by (cases t) (auto simp: metric_type_try_from_def)

lemma from_str_name_as_str_name [simp]: "from_str_name (as_str_name t) = Some t"
  by (cases t) (simp_all add: from_str_name_def)

lemma from_str_name_Some: "from_str_name s = Some t \<longleftrightarrow> s = as_str_name t"
  by (cases t) (auto simp: from_str_name_def)

text \<open>The type of a family as the code decodes it:
  \<open>family.r#type.and_then(|value| MetricType::try_from(value).ok())\<close>.\<close>

definition family_type :: "metric_family \<Rightarrow> metric_type option" where
  "family_type f = Option.bind (f_type f) metric_type_try_from"

end
