(* ===== verification/Diagnostics.thy ===== *)
theory Diagnostics
  imports Prelude
begin

text \<open>
  Non-fatal diagnostics, \<open>foundations-metrics/src/diagnostics.rs\<close>. Every call of
  \<open>report_collect_error(format_args!(..))\<close> in the crate is a constructor of
  \<open>collect_error\<close> holding the arguments of its message; the code that reports returns the
  list of its \<open>event\<close>s in the order of the calls. A reached \<open>unreachable!\<close>, failing
  \<open>expect\<close> or underflowing \<open>usize\<close> subtraction is a \<open>Panic\<close> event, so that the absence
  of panics is a statement about the log. The process-wide hook is a cell written once.
\<close>

datatype validation_context = Collection | TextEncoding | ProtobufEncoding

text \<open>\<open>ValidationContext::action\<close>.\<close>

fun validation_action :: "validation_context \<Rightarrow> string" where
  "validation_action Collection = ''collecting metrics''"
| "validation_action TextEncoding = ''encoding OpenMetrics text''"
| "validation_action ProtobufEncoding = ''encoding Prometheus protobuf''"

datatype exemplar_kind = CounterExemplar | ClassicBucketExemplar | NativeHistogramExemplar

datatype collect_error =
    InvalidFamilyName validation_context "string option"
  | InvalidRowLabel validation_context string "string option"
  | DuplicateRowLabel validation_context string string
  | ReservedRowLabel validation_context string string
  | InvalidExemplarLabel validation_context exemplar_kind string "string option"
  | DuplicateExemplarLabel validation_context exemplar_kind string string
  | ExemplarSerialization validation_context exemplar_kind string string
  | NativeExemplarWithoutTimestamp validation_context string
  | InvalidServiceLabelName string
  | ServiceLabelConflict string string
  | UnknownFamilyType string
  | MissingValue string string
  | NativeHistogramInText string
  | FloatHistogramInText string
  | LabelSetsSkipped int string
  | MetadataGroupsSkipped int "string option"
  | InfoLabelsFailed string string
  | NativeEncodingFailed string

datatype event = Report collect_error | Panic string

definition panic_free :: "event list \<Rightarrow> bool" where
  "panic_free evs \<longleftrightarrow> (\<forall>m. Panic m \<notin> set evs)"

lemma panic_free_simps [simp]:
  "panic_free []"
  "panic_free (Report e # evs) \<longleftrightarrow> panic_free evs"
  "\<not> panic_free (Panic m # evs)"
  "panic_free (evs @ evs') \<longleftrightarrow> panic_free evs \<and> panic_free evs'"
  by (auto simp: panic_free_def)

lemma panic_free_concat: "panic_free (concat evss) \<longleftrightarrow> (\<forall>l\<in>set evss. panic_free l)"
  by (induction evss) auto

section \<open>The error hook\<close>

text \<open>\<open>COLLECT_ERROR_HOOK\<close> is a \<open>OnceLock\<close>: the first \<open>set\<close> stores its hook, a later one
  returns \<open>CollectErrorHookAlreadySet\<close> and changes nothing. A report goes to the hook, or
  to standard error while there is none.\<close>

datatype hook_already_set = CollectErrorHookAlreadySet

definition hook_already_set_message :: "hook_already_set \<Rightarrow> string" where
  "hook_already_set_message e = ''a metric collection error hook is already installed''"

datatype 'h report_sink = ToHook 'h collect_error | ToStderr collect_error

definition set_collect_error_hook ::
    "'h option \<Rightarrow> 'h \<Rightarrow> (hook_already_set + unit) \<times> 'h option" where
  "set_collect_error_hook cell hook =
     (case cell of None \<Rightarrow> (Inr (), Some hook)
                 | Some h \<Rightarrow> (Inl CollectErrorHookAlreadySet, Some h))"

definition report_collect_error :: "'h option \<Rightarrow> collect_error \<Rightarrow> 'h report_sink" where
  "report_collect_error cell e =
     (case cell of Some hook \<Rightarrow> ToHook hook e | None \<Rightarrow> ToStderr e)"

fun run_hook_sets :: "'h option \<Rightarrow> 'h list \<Rightarrow> 'h option" where
  "run_hook_sets cell [] = cell"
| "run_hook_sets cell (h # hs) = run_hook_sets (snd (set_collect_error_hook cell h)) hs"

lemma run_hook_sets_Some: "run_hook_sets (Some h) hs = Some h"
  by (induction hs) (simp_all add: set_collect_error_hook_def)

end
