(* ===== verification/Registry.thy ===== *)
theory Registry
  imports Proto Diagnostics
begin

text \<open>
  The process-wide registry, \<open>foundations-metrics-registry/src/\<close>: \<open>RegistrationMetadata\<close> and
  its setters (\<open>metadata.rs\<close>), the append-only list of entries behind a \<open>OnceLock\<close>
  (\<open>registry.rs\<close>) and the snapshot iterator (\<open>iter.rs\<close>). A registered metric is a trait
  object the registry never calls, so its type is a parameter. The interleaving of
  registrations, snapshots and \<open>next\<close> calls by any threads is a sequence of \<open>registry_op\<close>s:
  each holds the lock for its whole effect.
\<close>

section \<open>Metadata\<close>

record registration_metadata =
  md_optional :: bool
  md_unprefixed :: bool
  md_unlabeled :: bool

definition registration_metadata_default :: registration_metadata where
  "registration_metadata_default =
     \<lparr>md_optional = False, md_unprefixed = False, md_unlabeled = False\<rparr>"

definition set_optional :: "registration_metadata \<Rightarrow> bool \<Rightarrow> registration_metadata" where
  "set_optional md b = md\<lparr>md_optional := b\<rparr>"

definition set_unprefixed :: "registration_metadata \<Rightarrow> bool \<Rightarrow> registration_metadata" where
  "set_unprefixed md b = md\<lparr>md_unprefixed := b\<rparr>"

definition set_unlabeled :: "registration_metadata \<Rightarrow> bool \<Rightarrow> registration_metadata" where
  "set_unlabeled md b = md\<lparr>md_unlabeled := b\<rparr>"

section \<open>Registering\<close>

record 'm reg_entry =
  re_metadata :: registration_metadata
  re_metric :: 'm

text \<open>\<open>REGISTRY\<close>: a cell initialised with the empty vector on first use.\<close>

type_synonym 'm registry = "'m reg_entry list option"

definition registry_get :: "'m registry \<Rightarrow> 'm reg_entry list" where
  "registry_get cell = (case cell of None \<Rightarrow> [] | Some entries \<Rightarrow> entries)"

datatype 'm metrics_arg = BoxedMetric 'm | MetricVec "'m list"

fun into_metrics :: "'m metrics_arg \<Rightarrow> 'm list" where
  "into_metrics (BoxedMetric m) = [m]"
| "into_metrics (MetricVec ms) = ms"

fun register_loop ::
    "'m reg_entry list \<Rightarrow> registration_metadata \<Rightarrow> 'm list \<Rightarrow> 'm reg_entry list" where
  "register_loop guard md [] = guard"
| "register_loop guard md (m # ms) =
     register_loop (guard @ [\<lparr>re_metadata = md, re_metric = m\<rparr>]) md ms"

definition register :: "'m registry \<Rightarrow> 'm metrics_arg \<Rightarrow> registration_metadata \<Rightarrow> 'm registry" where
  "register cell metrics md = Some (register_loop (registry_get cell) md (into_metrics metrics))"

section \<open>The snapshot iterator\<close>

record 'm metrics_iter =
  mi_entries :: "'m reg_entry list"

definition registry_iter :: "'m registry \<Rightarrow> 'm metrics_iter" where
  "registry_iter cell = \<lparr>mi_entries = registry_get cell\<rparr>"

definition iter_next :: "'m metrics_iter \<Rightarrow> 'm reg_entry option \<times> 'm metrics_iter" where
  "iter_next it =
     (case mi_entries it of [] \<Rightarrow> (None, it)
                          | e # es \<Rightarrow> (Some e, \<lparr>mi_entries = es\<rparr>))"

definition iter_size_hint :: "'m metrics_iter \<Rightarrow> nat \<times> nat option" where
  "iter_size_hint it = (length (mi_entries it), Some (length (mi_entries it)))"

text \<open>\<open>for registered in iter()\<close>: the items until \<open>next\<close> returns \<open>None\<close>.\<close>

function iter_collect :: "'m metrics_iter \<Rightarrow> 'm reg_entry list" where
  "iter_collect it =
     (case iter_next it of (None, it') \<Rightarrow> [] | (Some e, it') \<Rightarrow> e # iter_collect it')"
  by pat_completeness auto
termination
  by (relation "measure (\<lambda>it. length (mi_entries it))")
    (auto simp: iter_next_def split: list.splits)

declare iter_collect.simps [simp del]

lemma iter_collect_entries: "iter_collect it = mi_entries it"
proof (induction it rule: iter_collect.induct)
  case (1 it)
  then show ?case
    by (subst iter_collect.simps) (auto simp: iter_next_def split: list.split)
qed

lemma register_loop_append:
  "register_loop guard md ms = guard @ map (\<lambda>m. \<lparr>re_metadata = md, re_metric = m\<rparr>) ms"
  by (induction ms arbitrary: guard) simp_all

lemma registry_get_register:
  "registry_get (register cell metrics md) =
     registry_get cell @ map (\<lambda>m. \<lparr>re_metadata = md, re_metric = m\<rparr>) (into_metrics metrics)"
  by (simp add: register_def registry_get_def register_loop_append split: option.split)

section \<open>Interleaved use\<close>

text \<open>Iterators are numbered in the order of their creation; \<open>rg_yielded\<close> records what the
  \<open>next\<close> calls of each have returned.\<close>

datatype 'm registry_op =
    RegisterOp "'m metrics_arg" registration_metadata
  | IterOp
  | NextOp nat

record 'm registry_state =
  rg_cell :: "'m registry"
  rg_iters :: "'m metrics_iter list"
  rg_yielded :: "'m reg_entry list list"

definition registry_start :: "'m registry_state" where
  "registry_start = \<lparr>rg_cell = None, rg_iters = [], rg_yielded = []\<rparr>"

fun registry_step :: "'m registry_op \<Rightarrow> 'm registry_state \<Rightarrow> 'm registry_state" where
  "registry_step (RegisterOp metrics md) s = s\<lparr>rg_cell := register (rg_cell s) metrics md\<rparr>"
| "registry_step IterOp s =
     s\<lparr>rg_iters := rg_iters s @ [registry_iter (rg_cell s)], rg_yielded := rg_yielded s @ [[]]\<rparr>"
| "registry_step (NextOp i) s =
     (if i < length (rg_iters s)
      then case iter_next (rg_iters s ! i) of
             (None, it) \<Rightarrow> s\<lparr>rg_iters := (rg_iters s)[i := it]\<rparr>
           | (Some e, it) \<Rightarrow>
               s\<lparr>rg_iters := (rg_iters s)[i := it],
                 rg_yielded := (rg_yielded s)[i := rg_yielded s ! i @ [e]]\<rparr>
      else s)"

definition registry_run :: "'m registry_op list \<Rightarrow> 'm registry_state \<Rightarrow> 'm registry_state" where
  "registry_run ops s = fold registry_step ops s"

fun registered_by :: "'m registry_op list \<Rightarrow> 'm reg_entry list" where
  "registered_by [] = []"
| "registered_by (RegisterOp metrics md # ops) =
     map (\<lambda>m. \<lparr>re_metadata = md, re_metric = m\<rparr>) (into_metrics metrics) @ registered_by ops"
| "registered_by (IterOp # ops) = registered_by ops"
| "registered_by (NextOp i # ops) = registered_by ops"

text \<open>What iterator \<open>i\<close> has produced and still holds.\<close>

definition iter_total :: "'m registry_state \<Rightarrow> nat \<Rightarrow> 'm reg_entry list" where
  "iter_total s i = rg_yielded s ! i @ mi_entries (rg_iters s ! i)"

definition registry_wf :: "'m registry_state \<Rightarrow> bool" where
  "registry_wf s \<longleftrightarrow> length (rg_yielded s) = length (rg_iters s)"

lemma registry_step_wf [invariant_intros]: "registry_wf s \<Longrightarrow> registry_wf (registry_step op s)"
  by (cases "(op, s)" rule: registry_step.cases)
    (auto simp: registry_wf_def split: prod.split option.split)

lemma registry_run_wf: "registry_wf s \<Longrightarrow> registry_wf (registry_run ops s)"
  unfolding registry_run_def by (induction ops arbitrary: s) (auto intro: invariant_intros)

lemma registry_step_iters:
  "registry_wf s \<Longrightarrow> length (rg_iters s) \<le> length (rg_iters (registry_step op s))"
  by (cases op) (auto split: prod.split option.split)

lemma registry_step_total:
  "registry_wf s \<Longrightarrow> i < length (rg_iters s) \<Longrightarrow> iter_total (registry_step op s) i = iter_total s i"
  by (cases op)
    (auto simp: iter_total_def registry_wf_def nth_append iter_next_def nth_list_update
      split: prod.split option.split list.split)

lemma registry_run_total:
  "registry_wf s \<Longrightarrow> i < length (rg_iters s) \<Longrightarrow>
     i < length (rg_iters (registry_run ops s)) \<and> iter_total (registry_run ops s) i = iter_total s i"
proof (induction ops arbitrary: s)
  case Nil
  then show ?case by (simp add: registry_run_def)
next
  case (Cons op ops)
  have "i < length (rg_iters (registry_step op s))"
    using Cons.prems registry_step_iters [of s op] by simp
  then show ?case
    using Cons.IH [OF registry_step_wf [OF Cons.prems(1)]] Cons.prems
    by (simp add: registry_run_def registry_step_total)
qed

lemma registry_run_cell:
  "registry_get (rg_cell (registry_run ops s)) = registry_get (rg_cell s) @ registered_by ops"
proof (induction ops arbitrary: s)
  case (Cons op ops)
  have "registry_get (rg_cell (registry_step op s)) = registry_get (rg_cell s) @ registered_by [op]"
    by (cases op) (auto simp: registry_get_register split: prod.split option.split)
  then show ?case
    using Cons.IH [of "registry_step op s"] by (cases op) (simp_all add: registry_run_def)
qed (simp add: registry_run_def)

section \<open>Properties\<close>

text \<open>A snapshot is a point in time: whatever registrations, snapshots and \<open>next\<close> calls came
  before an \<open>iter()\<close> (\<open>before\<close>) and come after it (\<open>after\<close>), in any order and on any number of
  threads, the items that iterator has yielded followed by the items it still holds are
  exactly the entries registered before it was created, in registration order, each with the
  metadata of its own call.\<close>

theorem snapshot_is_point_in_time:
  "iter_total (registry_run (before @ IterOp # after) registry_start)
     (length (rg_iters (registry_run before registry_start))) = registered_by before"
proof -
  let ?s = "registry_run before registry_start"
  let ?t = "registry_step IterOp ?s"
  have wf: "registry_wf ?s"
    by (rule registry_run_wf) (simp add: registry_wf_def registry_start_def)
  have "registry_run (before @ IterOp # after) registry_start = registry_run after ?t"
    by (simp add: registry_run_def)
  moreover have "iter_total (registry_run after ?t) (length (rg_iters ?s)) =
      iter_total ?t (length (rg_iters ?s))"
    using registry_run_total [OF registry_step_wf [OF wf, of IterOp]] by simp
  moreover have "iter_total ?t (length (rg_iters ?s)) = registry_get (rg_cell ?s)"
    using wf by (simp add: iter_total_def registry_wf_def registry_iter_def nth_append)
  ultimately show ?thesis
    using registry_run_cell [of before "registry_start"]
    by (simp add: registry_start_def registry_get_def)
qed

end
