(* ===== verification/Validation.thy ===== *)
theory Validation
  imports Proto Diagnostics
begin

text \<open>
  Validation of metric families, \<open>foundations-metrics/src/validation.rs\<close>: the name rule,
  the label search with its three issues, and the sanitizers that drop rows and exemplars
  and report why. \<open>sanitized_metric_family\<close> has a fast path that borrows a family whose
  rows are already valid; \<open>sanitize_metric_family\<close> works in place. The lemmas give the
  search an index-free meaning and characterise what sanitizing keeps.
\<close>

section \<open>Names\<close>

definition is_valid_name :: "string \<Rightarrow> bool" where
  "is_valid_name name \<longleftrightarrow> name \<noteq> [] \<and> CHR 0x00 \<notin> set name"

text \<open>\<open>EXEMPLAR_SERIALIZATION_ERROR_LABEL\<close> starts with a NUL byte.\<close>

definition exemplar_serialization_error_label :: string where
  "exemplar_serialization_error_label =
     CHR 0x00 # ''foundations_metrics_exemplar_serialization_error''"

lemma serialization_label_invalid: "\<not> is_valid_name exemplar_serialization_error_label"
  by (simp add: is_valid_name_def exemplar_serialization_error_label_def)

definition valid_name_opt :: "string option \<Rightarrow> bool" where
  "valid_name_opt n \<longleftrightarrow> (case n of None \<Rightarrow> False | Some s \<Rightarrow> is_valid_name s)"

lemma valid_name_opt_simps [simp]:
  "\<not> valid_name_opt None" "valid_name_opt (Some s) = is_valid_name s"
  by (simp_all add: valid_name_opt_def)

section \<open>Label issues\<close>

datatype label_issue = LabelInvalid "string option" | LabelDuplicate string | LabelReserved string

datatype exemplar_issue = IssueLabel label_issue | IssueSerialization string

text \<open>The loop of \<open>find_label_issue\<close>; \<open>prev\<close> is \<open>labels[..index]\<close>.\<close>

fun find_label_issue_from ::
    "label_pair list \<Rightarrow> label_pair list \<Rightarrow> string option \<Rightarrow> label_issue option" where
  "find_label_issue_from prev [] reserved = None"
| "find_label_issue_from prev (l # ls) reserved =
     (case lp_name l of
        None \<Rightarrow> Some (LabelInvalid None)
      | Some name \<Rightarrow>
          if \<not> is_valid_name name then Some (LabelInvalid (Some name))
          else if \<exists>p\<in>set prev. lp_name p = Some name then Some (LabelDuplicate name)
          else if reserved = Some name then Some (LabelReserved name)
          else find_label_issue_from (prev @ [l]) ls reserved)"

definition find_label_issue :: "label_pair list \<Rightarrow> string option \<Rightarrow> label_issue option" where
  "find_label_issue labels reserved = find_label_issue_from [] labels reserved"

definition reserved_row_label :: "metric_type option \<Rightarrow> string option" where
  "reserved_row_label t =
     (case t of Some Histogram \<Rightarrow> Some ''le''
              | Some GaugeHistogram \<Rightarrow> Some ''le''
              | Some Summary \<Rightarrow> Some ''quantile''
              | _ \<Rightarrow> None)"

definition find_exemplar_issue :: "label_pair list \<Rightarrow> exemplar_issue option" where
  "find_exemplar_issue labels =
     (case labels of
        [l] \<Rightarrow> (case lp_value l of
                  Some err \<Rightarrow>
                    if lp_name l = Some exemplar_serialization_error_label
                    then Some (IssueSerialization err)
                    else map_option IssueLabel (find_label_issue labels None)
                | None \<Rightarrow> map_option IssueLabel (find_label_issue labels None))
      | _ \<Rightarrow> map_option IssueLabel (find_label_issue labels None))"

definition exemplar_is_valid :: "exemplar \<Rightarrow> bool" where
  "exemplar_is_valid e \<longleftrightarrow> find_exemplar_issue (ex_label e) = None"

definition native_exemplar_is_valid :: "exemplar \<Rightarrow> bool" where
  "native_exemplar_is_valid e \<longleftrightarrow> ex_timestamp e \<noteq> None \<and> exemplar_is_valid e"

definition is_none_or :: "('a \<Rightarrow> bool) \<Rightarrow> 'a option \<Rightarrow> bool" where
  "is_none_or P x = (case x of None \<Rightarrow> True | Some y \<Rightarrow> P y)"

lemma is_none_or_simps [simp]: "is_none_or P None" "is_none_or P (Some y) = P y"
  by (simp_all add: is_none_or_def)

definition exemplars_are_valid :: "metric \<Rightarrow> bool" where
  "exemplars_are_valid m \<longleftrightarrow>
     is_none_or exemplar_is_valid (Option.bind (m_counter m) c_exemplar) \<and>
     is_none_or (\<lambda>h. (\<forall>b\<in>set (h_bucket h). is_none_or exemplar_is_valid (b_exemplar b)) \<and>
                     (\<forall>e\<in>set (h_exemplars h). native_exemplar_is_valid e)) (m_histogram m)"

definition rows_are_valid :: "metric list \<Rightarrow> metric_type option \<Rightarrow> bool" where
  "rows_are_valid ms t \<longleftrightarrow>
     (let reserved = reserved_row_label t
      in \<forall>m\<in>set ms. find_label_issue (m_label m) reserved = None \<and> exemplars_are_valid m)"

section \<open>Reports\<close>

fun report_row_drop :: "validation_context \<Rightarrow> string \<Rightarrow> label_issue \<Rightarrow> event" where
  "report_row_drop ctx family (LabelInvalid n) = Report (InvalidRowLabel ctx family n)"
| "report_row_drop ctx family (LabelDuplicate n) = Report (DuplicateRowLabel ctx family n)"
| "report_row_drop ctx family (LabelReserved n) = Report (ReservedRowLabel ctx family n)"

fun report_exemplar_drop ::
    "validation_context \<Rightarrow> string \<Rightarrow> exemplar_kind \<Rightarrow> exemplar_issue \<Rightarrow> event" where
  "report_exemplar_drop ctx family kind (IssueLabel (LabelInvalid n)) =
     Report (InvalidExemplarLabel ctx kind family n)"
| "report_exemplar_drop ctx family kind (IssueLabel (LabelDuplicate n)) =
     Report (DuplicateExemplarLabel ctx kind family n)"
| "report_exemplar_drop ctx family kind (IssueSerialization err) =
     Report (ExemplarSerialization ctx kind family err)"
| "report_exemplar_drop ctx family kind (IssueLabel (LabelReserved n)) =
     Panic ''exemplar labels have no reserved names''"

section \<open>Sanitizing\<close>

definition sanitize_exemplar_slot ::
    "validation_context \<Rightarrow> string \<Rightarrow> exemplar_kind \<Rightarrow> exemplar option \<Rightarrow> exemplar option \<times> event list" where
  "sanitize_exemplar_slot ctx family kind ex =
     (case Option.bind ex (\<lambda>e. find_exemplar_issue (ex_label e)) of
        None \<Rightarrow> (ex, [])
      | Some issue \<Rightarrow> (None, [report_exemplar_drop ctx family kind issue]))"

fun sanitize_buckets ::
    "validation_context \<Rightarrow> string \<Rightarrow> bucket list \<Rightarrow> bucket list \<times> event list" where
  "sanitize_buckets ctx family [] = ([], [])"
| "sanitize_buckets ctx family (b # bs) =
     (case sanitize_exemplar_slot ctx family ClassicBucketExemplar (b_exemplar b) of (e, l) \<Rightarrow>
      case sanitize_buckets ctx family bs of (bs', ls) \<Rightarrow> (b\<lparr>b_exemplar := e\<rparr> # bs', l @ ls))"

text \<open>The closure of \<open>histogram.exemplars.retain\<close>.\<close>

definition retain_native_exemplar ::
    "validation_context \<Rightarrow> string \<Rightarrow> exemplar \<Rightarrow> bool \<times> exemplar \<times> event list" where
  "retain_native_exemplar ctx family e =
     (case find_exemplar_issue (ex_label e) of
        Some issue \<Rightarrow> (False, e, [report_exemplar_drop ctx family NativeHistogramExemplar issue])
      | None \<Rightarrow> if ex_timestamp e = None
                then (False, e, [Report (NativeExemplarWithoutTimestamp ctx family)])
                else (True, e, []))"

definition sanitize_counter_exemplar ::
    "validation_context \<Rightarrow> string \<Rightarrow> counter_msg \<Rightarrow> counter_msg \<times> event list" where
  "sanitize_counter_exemplar ctx family c =
     (case sanitize_exemplar_slot ctx family CounterExemplar (c_exemplar c) of
        (e, l) \<Rightarrow> (c\<lparr>c_exemplar := e\<rparr>, l))"

definition sanitize_histogram_exemplars ::
    "validation_context \<Rightarrow> string \<Rightarrow> histogram_msg \<Rightarrow> histogram_msg \<times> event list" where
  "sanitize_histogram_exemplars ctx family h =
     (case sanitize_buckets ctx family (h_bucket h) of (bs, l1) \<Rightarrow>
      case retain_mut (retain_native_exemplar ctx family) (h_exemplars h) of (es, l2) \<Rightarrow>
        (h\<lparr>h_bucket := bs, h_exemplars := es\<rparr>, l1 @ l2))"

definition on_option :: "('a \<Rightarrow> 'a \<times> 'l list) \<Rightarrow> 'a option \<Rightarrow> 'a option \<times> 'l list" where
  "on_option f x = (case x of None \<Rightarrow> (None, []) | Some y \<Rightarrow> (case f y of (z, l) \<Rightarrow> (Some z, l)))"

definition sanitize_exemplars ::
    "validation_context \<Rightarrow> string \<Rightarrow> metric \<Rightarrow> metric \<times> event list" where
  "sanitize_exemplars ctx family m =
     (case on_option (sanitize_counter_exemplar ctx family) (m_counter m) of (c, l1) \<Rightarrow>
      case on_option (sanitize_histogram_exemplars ctx family) (m_histogram m) of (h, l2) \<Rightarrow>
        (m\<lparr>m_counter := c, m_histogram := h\<rparr>, l1 @ l2))"

text \<open>The closure of \<open>metrics.retain_mut\<close>.\<close>

definition sanitize_row ::
    "metric_type option \<Rightarrow> string \<Rightarrow> validation_context \<Rightarrow> metric \<Rightarrow> bool \<times> metric \<times> event list" where
  "sanitize_row t family ctx m =
     (case find_label_issue (m_label m) (reserved_row_label t) of
        Some issue \<Rightarrow> (False, m, [report_row_drop ctx family issue])
      | None \<Rightarrow> (case sanitize_exemplars ctx family m of (m', l) \<Rightarrow> (True, m', l)))"

definition sanitize_rows ::
    "metric list \<Rightarrow> metric_type option \<Rightarrow> string \<Rightarrow> validation_context \<Rightarrow> metric list \<times> event list" where
  "sanitize_rows ms t family ctx = retain_mut (sanitize_row t family ctx) ms"

text \<open>In place: the flag says whether the family is kept.\<close>

definition sanitize_metric_family ::
    "metric_family \<Rightarrow> validation_context \<Rightarrow> bool \<times> metric_family \<times> event list" where
  "sanitize_metric_family f ctx =
     (case f_name f of
        Some name \<Rightarrow>
          if is_valid_name name
          then (case sanitize_rows (f_metric f) (family_type f) name ctx of
                  (ms, l) \<Rightarrow> (True, f\<lparr>f_metric := ms\<rparr>, l))
          else (False, f, [Report (InvalidFamilyName ctx (f_name f))])
      | None \<Rightarrow> (False, f, [Report (InvalidFamilyName ctx (f_name f))]))"

text \<open>Borrowing: a family whose rows are valid is returned as it is.\<close>

definition sanitized_metric_family ::
    "metric_family \<Rightarrow> validation_context \<Rightarrow> metric_family option \<times> event list" where
  "sanitized_metric_family f ctx =
     (case f_name f of
        Some name \<Rightarrow>
          if is_valid_name name
          then if rows_are_valid (f_metric f) (family_type f) then (Some f, [])
               else (case sanitize_rows (f_metric f) (family_type f) name ctx of
                       (ms, l) \<Rightarrow> (Some (f\<lparr>f_metric := ms\<rparr>), l))
          else (None, [Report (InvalidFamilyName ctx (f_name f))])
      | None \<Rightarrow> (None, [Report (InvalidFamilyName ctx (f_name f))]))"

section \<open>What the label search decides\<close>

definition labels_ok :: "label_pair list \<Rightarrow> string option \<Rightarrow> bool" where
  "labels_ok ls reserved \<longleftrightarrow>
     (\<forall>l\<in>set ls. valid_name_opt (lp_name l) \<and> (reserved \<noteq> None \<longrightarrow> lp_name l \<noteq> reserved)) \<and>
     distinct (map lp_name ls)"

lemma find_label_issue_from_None:
  "find_label_issue_from prev ls reserved = None \<longleftrightarrow>
     labels_ok ls reserved \<and> lp_name ` set prev \<inter> lp_name ` set ls = {}"
proof (induction prev ls reserved rule: find_label_issue_from.induct)
  case (1 prev reserved)
  then show ?case by (simp add: labels_ok_def)
next
  case (2 prev l ls reserved)
  show ?case
  proof (cases "lp_name l")
    case None
    then show ?thesis by (auto simp: labels_ok_def)
  next
    case (Some name)
    have "(\<exists>p\<in>set prev. lp_name p = Some name) \<longleftrightarrow> Some name \<in> lp_name ` set prev"
      by (metis image_iff)
    with 2 Some show ?thesis
      by (cases reserved) (auto simp: labels_ok_def)
  qed
qed

lemma find_label_issue_None: "find_label_issue ls reserved = None \<longleftrightarrow> labels_ok ls reserved"
  by (simp add: find_label_issue_def find_label_issue_from_None)

lemma find_label_issue_from_no_reserved:
  "find_label_issue_from prev ls None \<noteq> Some (LabelReserved n)"
proof (induction ls arbitrary: prev)
  case (Cons l ls)
  then show ?case by (cases "lp_name l") auto
qed simp

lemma find_label_issue_no_reserved: "find_label_issue ls None \<noteq> Some (LabelReserved n)"
  by (simp add: find_label_issue_def find_label_issue_from_no_reserved)

lemma find_exemplar_issue_None: "find_exemplar_issue ls = None \<longleftrightarrow> labels_ok ls None"
  by (auto simp: find_exemplar_issue_def find_label_issue_None labels_ok_def
      serialization_label_invalid split: list.splits option.splits)

lemma find_exemplar_issue_no_reserved:
  "find_exemplar_issue ls \<noteq> Some (IssueLabel (LabelReserved n))"
  by (auto simp: find_exemplar_issue_def find_label_issue_no_reserved
      split: list.splits option.splits if_splits)

lemma report_exemplar_drop_no_panic:
  "find_exemplar_issue ls = Some issue \<Longrightarrow> panic_free [report_exemplar_drop ctx family kind issue]"
  using find_exemplar_issue_no_reserved [of ls]
  by (cases "(ctx, family, kind, issue)" rule: report_exemplar_drop.cases) auto

section \<open>What sanitizing keeps\<close>

definition row_ok :: "metric_type option \<Rightarrow> metric \<Rightarrow> bool" where
  "row_ok t m \<longleftrightarrow> find_label_issue (m_label m) (reserved_row_label t) = None"

lemma row_ok_iff: "row_ok t = (\<lambda>m. labels_ok (m_label m) (reserved_row_label t))"
  by (rule ext) (simp add: row_ok_def find_label_issue_None)

lemma rows_are_valid_alt:
  "rows_are_valid ms t \<longleftrightarrow> (\<forall>m\<in>set ms. row_ok t m \<and> exemplars_are_valid m)"
  by (simp add: rows_are_valid_def row_ok_def Let_def)

lemma sanitize_exemplar_slot_valid:
  "is_none_or exemplar_is_valid ex \<Longrightarrow> sanitize_exemplar_slot ctx family kind ex = (ex, [])"
  by (cases ex) (simp_all add: sanitize_exemplar_slot_def exemplar_is_valid_def)

lemma sanitize_exemplar_slot_result:
  "sanitize_exemplar_slot ctx family kind ex = (ex', l) \<Longrightarrow>
     is_none_or exemplar_is_valid ex' \<and> panic_free l \<and>
     ex' = (if is_none_or exemplar_is_valid ex then ex else None)"
  by (cases ex) (auto simp: sanitize_exemplar_slot_def exemplar_is_valid_def
      report_exemplar_drop_no_panic split: option.splits)

lemma sanitize_buckets_valid:
  "\<forall>b\<in>set bs. is_none_or exemplar_is_valid (b_exemplar b) \<Longrightarrow> sanitize_buckets ctx family bs = (bs, [])"
  by (induction bs) (simp_all add: sanitize_exemplar_slot_valid)

lemma sanitize_buckets_result:
  "sanitize_buckets ctx family bs = (bs', l) \<Longrightarrow>
     (\<forall>b\<in>set bs'. is_none_or exemplar_is_valid (b_exemplar b)) \<and> panic_free l"
  by (induction bs arbitrary: bs' l)
    (auto split: prod.splits dest!: sanitize_exemplar_slot_result)

lemma retain_native_exemplar_valid:
  "native_exemplar_is_valid e \<Longrightarrow> retain_native_exemplar ctx family e = (True, e, [])"
  by (simp add: retain_native_exemplar_def native_exemplar_is_valid_def exemplar_is_valid_def)

lemma retain_native_exemplar_kept:
  "fst (retain_native_exemplar ctx family e) \<longleftrightarrow> native_exemplar_is_valid e"
  "fst (snd (retain_native_exemplar ctx family e)) = e"
  "panic_free (snd (snd (retain_native_exemplar ctx family e)))"
  by (auto simp: retain_native_exemplar_def native_exemplar_is_valid_def exemplar_is_valid_def
      report_exemplar_drop_no_panic split: option.splits)

lemma sanitize_exemplars_valid:
  "exemplars_are_valid m \<Longrightarrow> sanitize_exemplars ctx family m = (m, [])"
  by (cases "m_counter m"; cases "m_histogram m")
    (auto simp: exemplars_are_valid_def sanitize_exemplars_def on_option_def
      sanitize_counter_exemplar_def sanitize_histogram_exemplars_def
      sanitize_exemplar_slot_valid sanitize_buckets_valid
      retain_mut_id retain_native_exemplar_valid)

lemma on_option_result:
  "on_option f x = (x', l) \<Longrightarrow> (\<And>y y' l'. f y = (y', l') \<Longrightarrow> P y' \<and> panic_free l') \<Longrightarrow>
     is_none_or P x' \<and> panic_free l"
  by (cases x) (auto simp: on_option_def split: prod.splits)

lemma sanitize_counter_exemplar_result:
  "sanitize_counter_exemplar ctx family c = (c', l) \<Longrightarrow>
     is_none_or exemplar_is_valid (c_exemplar c') \<and> panic_free l"
  by (auto simp: sanitize_counter_exemplar_def split: prod.splits
      dest!: sanitize_exemplar_slot_result)

lemma retain_native_exemplars_result:
  assumes "retain_mut (retain_native_exemplar ctx family) es = (es', l)"
  shows "(\<forall>e\<in>set es'. native_exemplar_is_valid e) \<and> panic_free l"
proof -
  have "es' = fst (retain_mut (retain_native_exemplar ctx family) es)"
    and "l = snd (retain_mut (retain_native_exemplar ctx family) es)"
    using assms by simp_all
  then show ?thesis
    by (simp add: retain_mut_conv panic_free_concat retain_native_exemplar_kept)
qed

lemma sanitize_histogram_exemplars_result:
  assumes "sanitize_histogram_exemplars ctx family h = (h', l)"
  shows "((\<forall>b\<in>set (h_bucket h'). is_none_or exemplar_is_valid (b_exemplar b)) \<and>
          (\<forall>e\<in>set (h_exemplars h'). native_exemplar_is_valid e)) \<and> panic_free l"
proof -
  obtain bs l1 where b: "sanitize_buckets ctx family (h_bucket h) = (bs, l1)"
    by (rule prod.exhaust)
  obtain es l2 where e: "retain_mut (retain_native_exemplar ctx family) (h_exemplars h) = (es, l2)"
    by (rule prod.exhaust)
  show ?thesis
    using assms sanitize_buckets_result [OF b] retain_native_exemplars_result [OF e]
    by (auto simp: sanitize_histogram_exemplars_def b e)
qed

lemma sanitize_exemplars_result:
  "sanitize_exemplars ctx family m = (m', l) \<Longrightarrow>
     exemplars_are_valid m' \<and> panic_free l \<and> m_label m' = m_label m"
proof -
  assume "sanitize_exemplars ctx family m = (m', l)"
  then obtain c h l1 l2 where
      c: "on_option (sanitize_counter_exemplar ctx family) (m_counter m) = (c, l1)" and
      h: "on_option (sanitize_histogram_exemplars ctx family) (m_histogram m) = (h, l2)" and
      m': "m' = m\<lparr>m_counter := c, m_histogram := h\<rparr>" "l = l1 @ l2"
    by (auto simp: sanitize_exemplars_def split: prod.splits)
  note on_option_result [OF c sanitize_counter_exemplar_result]
    and on_option_result [OF h sanitize_histogram_exemplars_result]
  then show ?thesis
    unfolding m' exemplars_are_valid_def by (cases c; cases h) simp_all
qed

lemma report_row_drop_no_panic: "panic_free [report_row_drop ctx family issue]"
  by (cases issue) simp_all

lemma sanitize_row_fields:
  "fst (sanitize_row t family ctx m) \<longleftrightarrow> row_ok t m"
  "panic_free (snd (snd (sanitize_row t family ctx m)))"
  "row_ok t m \<Longrightarrow> fst (snd (sanitize_row t family ctx m)) = fst (sanitize_exemplars ctx family m)"
proof -
  obtain m' l where m: "sanitize_exemplars ctx family m = (m', l)"
    by (rule prod.exhaust)
  note defs = sanitize_row_def row_ok_def m report_row_drop_no_panic
  show "fst (sanitize_row t family ctx m) \<longleftrightarrow> row_ok t m"
    by (simp add: defs split: option.splits)
  show "panic_free (snd (snd (sanitize_row t family ctx m)))"
    using sanitize_exemplars_result [OF m] by (simp add: defs split: option.splits)
  show "row_ok t m \<Longrightarrow> fst (snd (sanitize_row t family ctx m)) = fst (sanitize_exemplars ctx family m)"
    by (simp add: defs)
qed

lemma sanitize_row_valid:
  "row_ok t m \<Longrightarrow> exemplars_are_valid m \<Longrightarrow> sanitize_row t family ctx m = (True, m, [])"
  by (simp add: sanitize_row_def row_ok_def sanitize_exemplars_valid)

text \<open>Sanitizing keeps exactly the rows without a label issue, in order, with their labels.\<close>

lemma fst_sanitize_rows:
  "fst (sanitize_rows ms t family ctx) =
     map (\<lambda>m. fst (sanitize_exemplars ctx family m)) (filter (row_ok t) ms)"
  by (auto simp: sanitize_rows_def fst_retain_mut sanitize_row_fields intro!: map_cong filter_cong)

lemma sanitize_exemplars_label: "m_label (fst (sanitize_exemplars ctx family m)) = m_label m"
  using sanitize_exemplars_result [of ctx family m] by (metis prod.collapse)

lemma sanitize_rows_valid_result: "rows_are_valid (fst (sanitize_rows ms t family ctx)) t"
  using sanitize_exemplars_result [OF prod.collapse [symmetric]]
  by (auto simp: rows_are_valid_alt fst_sanitize_rows row_ok_def)

lemma sanitize_rows_panic_free: "panic_free (snd (sanitize_rows ms t family ctx))"
  by (simp add: sanitize_rows_def snd_retain_mut panic_free_concat sanitize_row_fields)

lemma sanitize_rows_valid:
  "rows_are_valid ms t \<Longrightarrow> sanitize_rows ms t family ctx = (ms, [])"
  by (simp add: sanitize_rows_def rows_are_valid_alt retain_mut_id sanitize_row_valid)

lemma family_type_update [simp]: "family_type (f\<lparr>f_metric := ms\<rparr>) = family_type f"
  by (simp add: family_type_def)

section \<open>Properties\<close>

text \<open>The borrowing entry point \<open>sanitized_metric_family\<close>, whose fast path returns a family
  with valid rows untouched, computes the same family, the same keep/drop decision and the same
  reports as the in-place \<open>sanitize_metric_family\<close>, for every family and context.\<close>

theorem sanitized_family_equals_in_place:
  "sanitized_metric_family f ctx =
     (case sanitize_metric_family f ctx of (keep, f', evs) \<Rightarrow> (if keep then Some f' else None, evs))"
  by (auto simp: sanitized_metric_family_def sanitize_metric_family_def sanitize_rows_valid
      split: option.split prod.split)

text \<open>C39: A family that is kept after sanitizing has a valid name; its rows are exactly the
  rows whose label names are all non-empty and NUL-free, pairwise distinct and not the reserved
  \<open>le\<close>/\<open>quantile\<close> of the type, in their order and with their labels; all rows and their
  exemplars are valid; and sanitizing again, in any context, changes and reports nothing.\<close>

theorem sanitize_reaches_valid_fixpoint:
  assumes "sanitize_metric_family f ctx = (True, f', evs)"
  shows "valid_name_opt (f_name f') \<and> f' = f\<lparr>f_metric := f_metric f'\<rparr> \<and>
    map m_label (f_metric f') =
      filter (\<lambda>ls. labels_ok ls (reserved_row_label (family_type f))) (map m_label (f_metric f)) \<and>
    rows_are_valid (f_metric f') (family_type f') \<and>
    sanitize_metric_family f' ctx' = (True, f', [])"
proof -
  obtain name where name: "f_name f = Some name" "is_valid_name name"
    using assms by (auto simp: sanitize_metric_family_def split: option.splits if_splits)
  define ms where "ms = fst (sanitize_rows (f_metric f) (family_type f) name ctx)"
  have f': "f' = f\<lparr>f_metric := ms\<rparr>"
    using assms name by (auto simp: sanitize_metric_family_def ms_def split: prod.splits)
  have "map m_label ms = map m_label (filter (row_ok (family_type f)) (f_metric f))"
    by (simp add: ms_def fst_sanitize_rows sanitize_exemplars_label)
  moreover have "rows_are_valid ms (family_type f)"
    by (simp add: ms_def sanitize_rows_valid_result)
  ultimately show ?thesis
    by (simp add: f' name row_ok_iff filter_map o_def
        sanitize_metric_family_def sanitize_rows_valid)
qed

definition duplicate_label_family :: metric_family where
  "duplicate_label_family =
     \<lparr>f_name = Some ''m'', f_help = None, f_type = Some (metric_type_to_i32 Gauge),
      f_metric =
        [metric_default\<lparr>m_label := [\<lparr>lp_name = Some ''a'', lp_value = Some ''1''\<rparr>]\<rparr>,
         metric_default\<lparr>m_label := [\<lparr>lp_name = Some ''a'', lp_value = Some ''1''\<rparr>,
                                  \<lparr>lp_name = Some ''a'', lp_value = Some ''2''\<rparr>]\<rparr>],
      f_unit = None\<rparr>"

lemma sanitize_duplicate_label_family:
  "sanitize_metric_family duplicate_label_family Collection =
     (True,
      duplicate_label_family\<lparr>f_metric :=
        [metric_default\<lparr>m_label := [\<lparr>lp_name = Some ''a'', lp_value = Some ''1''\<rparr>]\<rparr>]\<rparr>,
      [Report (DuplicateRowLabel Collection ''m'' ''a'')])"
  by (simp add: sanitize_metric_family_def duplicate_label_family_def is_valid_name_def
      sanitize_rows_def sanitize_row_def find_label_issue_def reserved_row_label_def
      family_type_def sanitize_exemplars_def on_option_def metric_default_def metric_type_try_from_def)

theorem sanitize_reaches_valid_fixpoint_witness:
  "map m_label (f_metric duplicate_label_family) =
     [[\<lparr>lp_name = Some ''a'', lp_value = Some ''1''\<rparr>],
      [\<lparr>lp_name = Some ''a'', lp_value = Some ''1''\<rparr>, \<lparr>lp_name = Some ''a'', lp_value = Some ''2''\<rparr>]] \<and>
   filter (\<lambda>ls. labels_ok ls (reserved_row_label (family_type duplicate_label_family)))
     (map m_label (f_metric duplicate_label_family)) =
     [[\<lparr>lp_name = Some ''a'', lp_value = Some ''1''\<rparr>]]"
  using sanitize_reaches_valid_fixpoint [OF sanitize_duplicate_label_family, of TextEncoding]
  by (simp add: duplicate_label_family_def metric_default_def)

text \<open>Sanitizing never reaches the \<open>unreachable!\<close> of \<open>report_exemplar_drop\<close>: whatever
  labels, types and exemplars a family holds, its log holds reports only.\<close>

theorem sanitize_never_panics:
  "panic_free (snd (snd (sanitize_metric_family f ctx))) \<and>
   panic_free (snd (sanitized_metric_family f ctx))"
proof -
  have "panic_free evs" if "sanitize_rows ms t name ctx = (ms', evs)" for ms t name ms' evs
    using sanitize_rows_panic_free [of ms t name ctx] that by simp
  then show ?thesis
    by (auto simp: sanitized_metric_family_def sanitize_metric_family_def
        split: option.split prod.split)
qed

end
