(* ===== verification/Collect.thy ===== *)
theory Collect
  imports Registry Validation
begin

text \<open>
  Collection, \<open>foundations-metrics/src/collect.rs\<close>: the filter on optional metrics, the
  service name as a prefix of family names or as a label on every row, and the final
  validation of each family. A registered metric is a trait object; its \<open>encode\<close> is the
  argument \<open>enc\<close>, which returns the families and what it reported while encoding. The
  families of one metric are processed before the next metric is encoded.
\<close>

section \<open>Options\<close>

datatype service_name_format = MetricPrefix | LabelWithName string

record collection_options =
  co_include_optional :: bool
  co_service_name :: "string option"
  co_service_name_format :: service_name_format

section \<open>The service label\<close>

text \<open>The scan over the labels of a row: \<open>None\<close> when one of that name has another value,
  else whether one has the same value.\<close>

fun service_label_scan :: "string \<Rightarrow> string \<Rightarrow> bool \<Rightarrow> label_pair list \<Rightarrow> bool option" where
  "service_label_scan label_name svc has_same [] = Some has_same"
| "service_label_scan label_name svc has_same (l # ls) =
     (if lp_name l \<noteq> Some label_name then service_label_scan label_name svc has_same ls
      else if lp_value l \<noteq> Some svc then None
      else service_label_scan label_name svc True ls)"

text \<open>The closure of \<open>family.metric.retain_mut\<close>.\<close>

definition apply_service_label_row ::
    "string \<Rightarrow> string \<Rightarrow> string \<Rightarrow> metric \<Rightarrow> bool \<times> metric \<times> event list" where
  "apply_service_label_row family_name label_name svc m =
     (case service_label_scan label_name svc False (m_label m) of
        None \<Rightarrow> (False, m, [Report (ServiceLabelConflict family_name label_name)])
      | Some True \<Rightarrow> (True, m, [])
      | Some False \<Rightarrow>
          (True, m\<lparr>m_label := \<lparr>lp_name = Some label_name, lp_value = Some svc\<rparr> # m_label m\<rparr>, []))"

fun apply_service_label ::
    "metric_family list \<Rightarrow> string \<Rightarrow> string \<Rightarrow> metric_family list \<times> event list" where
  "apply_service_label [] label_name svc = ([], [])"
| "apply_service_label (f # fs) label_name svc =
     (let family_name = (case f_name f of None \<Rightarrow> [] | Some n \<Rightarrow> n) in
      case retain_mut (apply_service_label_row family_name label_name svc) (f_metric f) of (ms, l) \<Rightarrow>
      case apply_service_label fs label_name svc of (fs', ls) \<Rightarrow>
        (f\<lparr>f_metric := ms\<rparr> # fs', l @ ls))"

section \<open>The service name\<close>

text \<open>\<open>name.insert(0, '_'); name.insert_str(0, service_name)\<close>.\<close>

definition prefix_family_name :: "string \<Rightarrow> metric_family \<Rightarrow> metric_family" where
  "prefix_family_name svc f =
     (case f_name f of None \<Rightarrow> f | Some name \<Rightarrow> f\<lparr>f_name := Some (svc @ CHR ''_'' # name)\<rparr>)"

definition apply_service_name ::
    "metric_family list \<Rightarrow> string \<Rightarrow> service_name_format \<Rightarrow> bool \<Rightarrow> bool \<Rightarrow>
     metric_family list \<times> event list" where
  "apply_service_name fs svc format unprefixed unlabeled =
     (case format of
        MetricPrefix \<Rightarrow> if \<not> unprefixed then (map (prefix_family_name svc) fs, []) else (fs, [])
      | LabelWithName label_name \<Rightarrow>
          if \<not> unlabeled then apply_service_label fs label_name svc else (fs, []))"

section \<open>Collecting\<close>

fun collect_families :: "metric_family list \<Rightarrow> metric_family list \<times> event list" where
  "collect_families [] = ([], [])"
| "collect_families (f # fs) =
     (case sanitize_metric_family f Collection of (keep, f', l) \<Rightarrow>
      case collect_families fs of (fs', ls) \<Rightarrow> (if keep then f' # fs' else fs', l @ ls))"

definition collect_metric ::
    "('m \<Rightarrow> metric_family list \<times> event list) \<Rightarrow> collection_options \<Rightarrow> 'm reg_entry \<Rightarrow>
     metric_family list \<times> event list" where
  "collect_metric enc opts e =
     (case enc (re_metric e) of (fs, l1) \<Rightarrow>
      case (case co_service_name opts of
              None \<Rightarrow> (fs, [])
            | Some svc \<Rightarrow> apply_service_name fs svc (co_service_name_format opts)
                            (md_unprefixed (re_metadata e)) (md_unlabeled (re_metadata e)))
      of (fs', l2) \<Rightarrow>
      case collect_families fs' of (fs'', l3) \<Rightarrow> (fs'', l1 @ l2 @ l3))"

fun collect_loop ::
    "('m \<Rightarrow> metric_family list \<times> event list) \<Rightarrow> collection_options \<Rightarrow> 'm reg_entry list \<Rightarrow>
     metric_family list \<times> event list" where
  "collect_loop enc opts [] = ([], [])"
| "collect_loop enc opts (e # es) =
     (if md_optional (re_metadata e) \<and> \<not> co_include_optional opts
      then collect_loop enc opts es
      else case collect_metric enc opts e of (fs, l) \<Rightarrow>
           case collect_loop enc opts es of (fs', ls) \<Rightarrow> (fs @ fs', l @ ls))"

definition collect ::
    "('m \<Rightarrow> metric_family list \<times> event list) \<Rightarrow> collection_options \<Rightarrow> 'm registry \<Rightarrow>
     metric_family list \<times> event list" where
  "collect enc opts cell =
     (case (co_service_name opts, co_service_name_format opts) of
        (Some svc, LabelWithName label_name) \<Rightarrow>
          if \<not> is_valid_name label_name then ([], [Report (InvalidServiceLabelName label_name)])
          else collect_loop enc opts (iter_collect (registry_iter cell))
      | _ \<Rightarrow> collect_loop enc opts (iter_collect (registry_iter cell)))"

section \<open>What collection computes\<close>

lemma service_label_scan_result:
  "service_label_scan label_name svc has_same ls =
     (if \<exists>l\<in>set ls. lp_name l = Some label_name \<and> lp_value l \<noteq> Some svc then None
      else Some (has_same \<or> Some label_name \<in> lp_name ` set ls))"
  by (induction ls arbitrary: has_same) (auto simp: image_iff)

lemma collect_families_mem:
  "g \<in> set (fst (collect_families fs)) \<longleftrightarrow>
     (\<exists>f\<in>set fs. \<exists>l. sanitize_metric_family f Collection = (True, g, l))"
  by (induction fs) (auto split: prod.splits)

lemma collect_families_panic_free: "panic_free (snd (collect_families fs))"
proof (induction fs)
  case (Cons f fs)
  have "panic_free (snd (snd (sanitize_metric_family f Collection)))"
    using sanitize_rows_panic_free
    by (auto simp: sanitize_metric_family_def split: option.split prod.split)
       (metis snd_conv)
  with Cons show ?case by (auto split: prod.splits)
qed simp

lemma apply_service_label_panic_free: "panic_free (snd (apply_service_label fs label_name svc))"
proof (induction fs)
  case (Cons f fs)
  have "panic_free (snd (snd (apply_service_label_row n label_name svc m)))" for n m
    by (simp add: apply_service_label_row_def split: option.split bool.split)
  then have "panic_free (snd (retain_mut (apply_service_label_row n label_name svc) ms))" for n ms
    by (auto simp: snd_retain_mut panic_free_concat)
  with Cons show ?case
    by (auto simp: Let_def split: prod.splits) (metis snd_conv)+
qed simp

lemma collect_loop_mem:
  "g \<in> set (fst (collect_loop enc opts es)) \<Longrightarrow>
     \<exists>e\<in>set es. g \<in> set (fst (collect_metric enc opts e))"
  by (induction es) (auto split: prod.splits if_splits)

lemma collect_mem:
  "g \<in> set (fst (collect enc opts cell)) \<Longrightarrow>
     \<exists>e\<in>set (registry_get cell). g \<in> set (fst (collect_metric enc opts e))"
  using collect_loop_mem
  by (fastforce simp: collect_def iter_collect_entries registry_iter_def
      split: option.splits service_name_format.splits if_splits)

lemma collect_metric_mem:
  "g \<in> set (fst (collect_metric enc opts e)) \<Longrightarrow>
     \<exists>f l. sanitize_metric_family f Collection = (True, g, l) \<and>
       f \<in> set (fst (case co_service_name opts of
                 None \<Rightarrow> (fst (enc (re_metric e)), [])
               | Some svc \<Rightarrow> apply_service_name (fst (enc (re_metric e))) svc
                   (co_service_name_format opts) (md_unprefixed (re_metadata e))
                   (md_unlabeled (re_metadata e))))"
  by (auto simp: collect_metric_def split: prod.splits option.splits)
     (metis collect_families_mem fst_conv)+

lemma sanitize_kept:
  assumes "sanitize_metric_family f ctx = (True, g, l)"
  shows "valid_name_opt (f_name g)" "rows_are_valid (f_metric g) (family_type g)"
    "m \<in> set (f_metric g) \<Longrightarrow> \<exists>m'\<in>set (f_metric f). m_label m' = m_label m"
    "f_name g = f_name f"
proof -
  obtain name where name: "f_name f = Some name" "is_valid_name name"
    using assms by (auto simp: sanitize_metric_family_def split: option.splits if_splits)
  then have g: "g = f\<lparr>f_metric := fst (sanitize_rows (f_metric f) (family_type f) name ctx)\<rparr>"
    using assms by (auto simp: sanitize_metric_family_def split: prod.splits)
  show "valid_name_opt (f_name g)" "rows_are_valid (f_metric g) (family_type g)"
    by (simp_all add: g name sanitize_rows_valid_result)
  show "m \<in> set (f_metric g) \<Longrightarrow> \<exists>m'\<in>set (f_metric f). m_label m' = m_label m"
    by (auto simp: g fst_sanitize_rows sanitize_exemplars_label)
  show "f_name g = f_name f"
    by (simp add: g)
qed

text \<open>The label list a row leaves \<open>apply_service_label\<close> with.\<close>

lemma apply_service_label_row_kept:
  "fst (apply_service_label_row n label_name svc m) \<longleftrightarrow>
     (\<forall>l\<in>set (m_label m). lp_name l = Some label_name \<longrightarrow> lp_value l = Some svc)"
  by (auto simp: apply_service_label_row_def service_label_scan_result split: bool.split)

lemma apply_service_label_row_labels:
  "fst (apply_service_label_row n label_name svc m) \<Longrightarrow>
     (\<forall>l\<in>set (m_label (fst (snd (apply_service_label_row n label_name svc m)))).
        lp_name l = Some label_name \<longrightarrow> lp_value l = Some svc) \<and>
     Some label_name \<in> lp_name ` set (m_label (fst (snd (apply_service_label_row n label_name svc m))))"
  by (auto simp: apply_service_label_row_def service_label_scan_result split: bool.splits if_splits)

lemma apply_service_label_mem:
  assumes "f \<in> set (fst (apply_service_label fs label_name svc))" "m \<in> set (f_metric f)"
  shows "(\<forall>l\<in>set (m_label m). lp_name l = Some label_name \<longrightarrow> lp_value l = Some svc) \<and>
    Some label_name \<in> lp_name ` set (m_label m)"
  using assms
proof (induction fs)
  case (Cons f' fs)
  define n where "n = (case f_name f' of None \<Rightarrow> [] | Some n \<Rightarrow> n)"
  define ms where "ms = fst (retain_mut (apply_service_label_row n label_name svc) (f_metric f'))"
  have fst_eq: "fst (apply_service_label (f' # fs) label_name svc) =
      f'\<lparr>f_metric := ms\<rparr> # fst (apply_service_label fs label_name svc)"
    by (simp add: ms_def n_def Let_def split: prod.split)
  from Cons.prems(1) consider "f = f'\<lparr>f_metric := ms\<rparr>"
    | "f \<in> set (fst (apply_service_label fs label_name svc))"
    unfolding fst_eq by auto
  then show ?case
  proof cases
    case 1
    then obtain m' where "fst (apply_service_label_row n label_name svc m')"
      "m = fst (snd (apply_service_label_row n label_name svc m'))"
      using Cons.prems(2) by (auto simp: ms_def fst_retain_mut)
    then show ?thesis
      using apply_service_label_row_labels by blast
  next
    case 2
    then show ?thesis
      using Cons by blast
  qed
qed simp

text \<open>Distinct names and a uniform value leave one label of the name.\<close>

lemma filter_unique_label:
  "distinct (map lp_name ls) \<Longrightarrow> Some n \<in> lp_name ` set ls \<Longrightarrow>
   \<forall>l\<in>set ls. lp_name l = Some n \<longrightarrow> lp_value l = Some v \<Longrightarrow>
   filter (\<lambda>l. lp_name l = Some n) ls = [\<lparr>lp_name = Some n, lp_value = Some v\<rparr>]"
proof (induction ls)
  case (Cons l ls)
  show ?case
  proof (cases "lp_name l = Some n")
    case True
    then have "filter (\<lambda>l. lp_name l = Some n) ls = []"
      using Cons.prems(1) by (auto simp: filter_empty_conv image_iff)
    moreover have "l = \<lparr>lp_name = Some n, lp_value = Some v\<rparr>"
      using True Cons.prems(3) by simp
    ultimately show ?thesis by simp
  next
    case False
    then show ?thesis using Cons by auto
  qed
qed simp

lemma labels_ok_distinct: "row_ok t m \<Longrightarrow> distinct (map lp_name (m_label m))"
  by (simp add: row_ok_iff labels_ok_def)

section \<open>The families a well-formed registry should give\<close>

text \<open>The result collection aims at, row by row, without its filters.\<close>

definition with_service_name ::
    "collection_options \<Rightarrow> registration_metadata \<Rightarrow> metric_family \<Rightarrow> metric_family" where
  "with_service_name opts md f =
     (case co_service_name opts of
        None \<Rightarrow> f
      | Some svc \<Rightarrow>
          (case co_service_name_format opts of
             MetricPrefix \<Rightarrow> if md_unprefixed md then f else prefix_family_name svc f
           | LabelWithName n \<Rightarrow>
               if md_unlabeled md then f
               else f\<lparr>f_metric :=
                 map (\<lambda>m. m\<lparr>m_label := \<lparr>lp_name = Some n, lp_value = Some svc\<rparr> # m_label m\<rparr>)
                   (f_metric f)\<rparr>))"

definition included_entries :: "collection_options \<Rightarrow> 'm registry \<Rightarrow> 'm reg_entry list" where
  "included_entries opts cell =
     filter (\<lambda>e. md_optional (re_metadata e) \<longrightarrow> co_include_optional opts) (registry_get cell)"

lemma collect_loop_entries:
  "fst (collect_loop enc opts es) =
     concat (map (\<lambda>e. fst (collect_metric enc opts e))
       (filter (\<lambda>e. md_optional (re_metadata e) \<longrightarrow> co_include_optional opts) es))"
  by (induction es) (auto split: prod.splits)

lemma collect_entries:
  "fst (collect enc opts cell) =
     (if co_service_name opts \<noteq> None \<and>
         (\<exists>n. co_service_name_format opts = LabelWithName n \<and> \<not> is_valid_name n)
      then [] else concat (map (\<lambda>e. fst (collect_metric enc opts e)) (included_entries opts cell)))"
  by (auto simp: collect_def iter_collect_entries registry_iter_def collect_loop_entries included_entries_def
      split: option.splits service_name_format.splits)

definition family_valid :: "metric_family \<Rightarrow> bool" where
  "family_valid f \<longleftrightarrow> valid_name_opt (f_name f) \<and> rows_are_valid (f_metric f) (family_type f)"

text \<open>What the service name asks of a family: a NUL-free prefix, or a valid label name that no
  row uses and the family's type does not reserve.\<close>

definition service_name_fits :: "collection_options \<Rightarrow> metric_family \<Rightarrow> bool" where
  "service_name_fits opts f \<longleftrightarrow>
     (case co_service_name opts of
        None \<Rightarrow> True
      | Some svc \<Rightarrow>
          (case co_service_name_format opts of
             MetricPrefix \<Rightarrow> CHR 0x00 \<notin> set svc
           | LabelWithName n \<Rightarrow>
               is_valid_name n \<and> reserved_row_label (family_type f) \<noteq> Some n \<and>
               (\<forall>m\<in>set (f_metric f). Some n \<notin> lp_name ` set (m_label m))))"

lemma sanitize_family_valid: "family_valid f \<Longrightarrow> sanitize_metric_family f ctx = (True, f, [])"
  by (cases "f_name f") (simp_all add: family_valid_def sanitize_metric_family_def sanitize_rows_valid)

lemma collect_families_valid: "\<forall>f\<in>set fs. family_valid f \<Longrightarrow> collect_families fs = (fs, [])"
  by (induction fs) (simp_all add: sanitize_family_valid)

lemma exemplars_are_valid_label [simp]:
  "exemplars_are_valid (m\<lparr>m_label := ls\<rparr>) = exemplars_are_valid m"
  by (simp add: exemplars_are_valid_def)

lemma with_service_name_valid:
  assumes "family_valid f" "service_name_fits opts f"
  shows "family_valid (with_service_name opts md f)"
proof (cases "co_service_name opts")
  case None
  then show ?thesis using assms by (simp add: with_service_name_def)
next
  case (Some svc)
  show ?thesis
  proof (cases "co_service_name_format opts")
    case MetricPrefix
    then show ?thesis
      using assms Some by (cases "f_name f")
        (auto simp: with_service_name_def prefix_family_name_def family_valid_def
          service_name_fits_def is_valid_name_def family_type_def)
  next
    case (LabelWithName n)
    have "rows_are_valid
        (map (\<lambda>m. m\<lparr>m_label := \<lparr>lp_name = Some n, lp_value = Some svc\<rparr> # m_label m\<rparr>) (f_metric f))
        (family_type f)"
      using assms Some LabelWithName
      by (auto simp: family_valid_def rows_are_valid_alt service_name_fits_def row_ok_iff labels_ok_def)
    then show ?thesis
      using assms Some LabelWithName by (simp add: with_service_name_def family_valid_def)
  qed
qed

lemma apply_service_label_fits:
  assumes "\<forall>f\<in>set fs. \<forall>m\<in>set (f_metric f). Some n \<notin> lp_name ` set (m_label m)"
  shows "apply_service_label fs n svc =
     (map (\<lambda>f. f\<lparr>f_metric := map (\<lambda>m. m\<lparr>m_label := \<lparr>lp_name = Some n, lp_value = Some svc\<rparr> # m_label m\<rparr>)
        (f_metric f)\<rparr>) fs, [])"
  using assms
proof (induction fs)
  case (Cons f fs)
  have "retain_mut (apply_service_label_row fn n svc) ms =
      (map (\<lambda>m. m\<lparr>m_label := \<lparr>lp_name = Some n, lp_value = Some svc\<rparr> # m_label m\<rparr>) ms, [])"
    if "\<forall>m\<in>set ms. Some n \<notin> lp_name ` set (m_label m)" for fn ms
    using that by (induction ms)
      (auto simp: apply_service_label_row_def service_label_scan_result image_iff)
  with Cons show ?case by (simp add: Let_def)
qed simp

lemma collect_metric_valid:
  assumes "\<forall>f\<in>set (fst (enc (re_metric e))). family_valid f \<and> service_name_fits opts f"
  shows "collect_metric enc opts e =
     (map (with_service_name opts (re_metadata e)) (fst (enc (re_metric e))), snd (enc (re_metric e)))"
proof -
  obtain fs l where enc: "enc (re_metric e) = (fs, l)" by (rule prod.exhaust)
  have "(case co_service_name opts of None \<Rightarrow> (fs, [])
          | Some svc \<Rightarrow> apply_service_name fs svc (co_service_name_format opts)
              (md_unprefixed (re_metadata e)) (md_unlabeled (re_metadata e))) =
        (map (with_service_name opts (re_metadata e)) fs, [])"
    using assms
    by (auto simp: enc apply_service_name_def with_service_name_def service_name_fits_def
        apply_service_label_fits split: option.splits service_name_format.splits
        intro!: map_idI [symmetric])
  then show ?thesis
    using assms by (simp add: collect_metric_def enc collect_families_valid with_service_name_valid)
qed

lemma collect_loop_valid:
  assumes "\<forall>e\<in>set es. (md_optional (re_metadata e) \<longrightarrow> co_include_optional opts) \<longrightarrow>
     (\<forall>f\<in>set (fst (enc (re_metric e))). family_valid f \<and> service_name_fits opts f)"
  shows "collect_loop enc opts es =
     (concat (map (\<lambda>e. map (with_service_name opts (re_metadata e)) (fst (enc (re_metric e))))
        (filter (\<lambda>e. md_optional (re_metadata e) \<longrightarrow> co_include_optional opts) es)),
      concat (map (\<lambda>e. snd (enc (re_metric e)))
        (filter (\<lambda>e. md_optional (re_metadata e) \<longrightarrow> co_include_optional opts) es)))"
  using assms by (induction es) (auto simp: collect_metric_valid)

section \<open>Properties\<close>

text \<open>C1: When a service name is represented as a label with a valid name, what is collected is what each
  included metric gives, in the order of registration; with an invalid label name nothing is. Every
  family and row that a metric gives is valid. If the metric does not opt out, every row carries the
  label exactly once and with the service's value, whatever labels the metric's own encoding
  produced (missing, already present with the same value, repeated, or conflicting). If it opts out,
  its families keep their names and their rows the labels they were encoded with.\<close>

theorem service_label_on_every_row:
  assumes "co_service_name opts = Some svc"
    and "co_service_name_format opts = LabelWithName label_name"
  shows "fst (collect enc opts cell) =
      (if is_valid_name label_name
       then concat (map (\<lambda>e. fst (collect_metric enc opts e)) (included_entries opts cell)) else []) \<and>
    (\<forall>e. \<forall>f\<in>set (fst (collect_metric enc opts e)).
       family_valid f \<and>
       (if md_unlabeled (re_metadata e)
        then \<exists>g\<in>set (fst (enc (re_metric e))). f_name f = f_name g \<and>
          m_label ` set (f_metric f) \<subseteq> m_label ` set (f_metric g)
        else \<forall>m\<in>set (f_metric f).
          filter (\<lambda>l. lp_name l = Some label_name) (m_label m) =
            [\<lparr>lp_name = Some label_name, lp_value = Some svc\<rparr>]))"
proof (intro conjI allI ballI)
  show "fst (collect enc opts cell) =
      (if is_valid_name label_name
       then concat (map (\<lambda>e. fst (collect_metric enc opts e)) (included_entries opts cell)) else [])"
    using assms by (simp add: collect_entries)
next
  fix e f
  assume f: "f \<in> set (fst (collect_metric enc opts e))"
  obtain g l where g: "sanitize_metric_family g Collection = (True, f, l)"
    "g \<in> set (fst (apply_service_name (fst (enc (re_metric e))) svc (LabelWithName label_name)
      (md_unprefixed (re_metadata e)) (md_unlabeled (re_metadata e))))"
    using collect_metric_mem [OF f] assms by auto
  show "family_valid f"
    using sanitize_kept(1,2) [OF g(1)] by (simp add: family_valid_def)
  show "if md_unlabeled (re_metadata e)
        then \<exists>g\<in>set (fst (enc (re_metric e))). f_name f = f_name g \<and>
          m_label ` set (f_metric f) \<subseteq> m_label ` set (f_metric g)
        else \<forall>m\<in>set (f_metric f).
          filter (\<lambda>l. lp_name l = Some label_name) (m_label m) =
            [\<lparr>lp_name = Some label_name, lp_value = Some svc\<rparr>]"
  proof (cases "md_unlabeled (re_metadata e)")
    case True
    then have "g \<in> set (fst (enc (re_metric e)))"
      using g(2) by (simp add: apply_service_name_def)
    moreover have "f_name f = f_name g"
      using sanitize_kept(4) [OF g(1)] .
    moreover have "m_label ` set (f_metric f) \<subseteq> m_label ` set (f_metric g)"
      using sanitize_kept(3) [OF g(1)] by (intro image_subsetI) (metis image_eqI)
    ultimately show ?thesis using True by auto
  next
    case False
    then have labelled: "g \<in> set (fst (apply_service_label (fst (enc (re_metric e))) label_name svc))"
      using g(2) by (simp add: apply_service_name_def)
    have "filter (\<lambda>l. lp_name l = Some label_name) (m_label m) =
        [\<lparr>lp_name = Some label_name, lp_value = Some svc\<rparr>]" if m: "m \<in> set (f_metric f)" for m
    proof (rule filter_unique_label)
      show "distinct (map lp_name (m_label m))"
        using sanitize_kept(2) [OF g(1)] m labels_ok_distinct by (auto simp: rows_are_valid_alt)
      show "Some label_name \<in> lp_name ` set (m_label m)"
        "\<forall>l\<in>set (m_label m). lp_name l = Some label_name \<longrightarrow> lp_value l = Some svc"
        using sanitize_kept(3) [OF g(1) m] apply_service_label_mem [OF labelled] by metis+
    qed
    with False show ?thesis by simp
  qed
qed

definition sample_metric :: "metric_family list" where
  "sample_metric =
     [\<lparr>f_name = Some ''m'', f_help = None, f_type = Some 1,
       f_metric =
         [metric_default,
          metric_default\<lparr>m_label := [\<lparr>lp_name = Some ''svc'', lp_value = Some ''other''\<rparr>]\<rparr>],
       f_unit = None\<rparr>]"

text \<open>A registry in which the second metric opts out.\<close>

definition sample_registry :: "metric_family list registry" where
  "sample_registry =
     register (register None (BoxedMetric sample_metric) registration_metadata_default)
       (BoxedMetric sample_metric) (set_unlabeled registration_metadata_default True)"

definition sample_options :: collection_options where
  "sample_options = \<lparr>co_include_optional = False, co_service_name = Some ''api'',
     co_service_name_format = LabelWithName ''svc''\<rparr>"

lemma sample_entries:
  "included_entries sample_options sample_registry =
     [\<lparr>re_metadata = registration_metadata_default, re_metric = sample_metric\<rparr>,
      \<lparr>re_metadata = set_unlabeled registration_metadata_default True, re_metric = sample_metric\<rparr>]"
  by (simp add: included_entries_def sample_registry_def register_def registry_get_def
      registration_metadata_default_def set_unlabeled_def)

text \<open>The conflicting row of the first metric is dropped, that of the second kept.\<close>

theorem service_label_on_every_row_witness:
  "fst (collect (\<lambda>fs. (fs, [])) sample_options sample_registry) =
     fst (collect_metric (\<lambda>fs. (fs, [])) sample_options
       \<lparr>re_metadata = registration_metadata_default, re_metric = sample_metric\<rparr>) @
     fst (collect_metric (\<lambda>fs. (fs, [])) sample_options
       \<lparr>re_metadata = set_unlabeled registration_metadata_default True, re_metric = sample_metric\<rparr>)"
proof -
  have "is_valid_name ''svc''"
    by (simp add: is_valid_name_def)
  then show ?thesis
    using service_label_on_every_row [of sample_options "''api''" "''svc''" "\<lambda>fs. (fs, [])" sample_registry]
    by (simp add: sample_entries) (simp add: sample_options_def)
qed

lemma collect_sample:
  "collect_metric (\<lambda>fs. (fs, [])) sample_options
     \<lparr>re_metadata = registration_metadata_default, re_metric = sample_metric\<rparr> =
     ([\<lparr>f_name = Some ''m'', f_help = None, f_type = Some 1,
        f_metric = [metric_default\<lparr>m_label := [\<lparr>lp_name = Some ''svc'', lp_value = Some ''api''\<rparr>]\<rparr>],
        f_unit = None\<rparr>],
      [Report (ServiceLabelConflict ''m'' ''svc'')])"
  by (simp add: sample_options_def sample_metric_def registration_metadata_default_def collect_metric_def
      apply_service_name_def apply_service_label_row_def is_valid_name_def metric_default_def
      sanitize_metric_family_def sanitize_rows_def sanitize_row_def find_label_issue_def
      reserved_row_label_def family_type_def metric_type_try_from_def sanitize_exemplars_def on_option_def)

text \<open>Nothing well-formed is lost: when the metrics encode valid families and the service name
  fits them (a NUL-free prefix; or a valid label name no row uses and the type does not
  reserve), collection returns exactly the families of the included metrics, in registration
  order, each with the service name as its prefix or its label and otherwise unchanged, and
  reports only what the metrics reported while encoding.\<close>

theorem collect_complete:
  assumes "\<forall>e\<in>set (included_entries opts cell). \<forall>f\<in>set (fst (enc (re_metric e))).
      family_valid f \<and> service_name_fits opts f"
    and "\<forall>n. co_service_name_format opts = LabelWithName n \<longrightarrow> is_valid_name n"
  shows "collect enc opts cell =
    (concat (map (\<lambda>e. map (with_service_name opts (re_metadata e)) (fst (enc (re_metric e))))
       (included_entries opts cell)),
     concat (map (\<lambda>e. snd (enc (re_metric e))) (included_entries opts cell)))"
proof -
  have "collect enc opts cell = collect_loop enc opts (registry_get cell)"
    using assms(2) by (auto simp: collect_def iter_collect_entries registry_iter_def
        split: option.splits service_name_format.splits)
  then show ?thesis
    using assms(1) collect_loop_valid [of "registry_get cell" opts enc]
    by (simp add: included_entries_def)
qed

theorem collect_complete_witness:
  "collect (\<lambda>f. ([f], [])) \<lparr>co_include_optional = False, co_service_name = Some ''api'',
       co_service_name_format = MetricPrefix\<rparr>
     (register (register None (BoxedMetric (duplicate_label_family\<lparr>f_metric := []\<rparr>)) registration_metadata_default)
       (BoxedMetric duplicate_label_family) (set_optional registration_metadata_default True)) =
   ([duplicate_label_family\<lparr>f_name := Some ''api_m'', f_metric := []\<rparr>], [])"
proof -
  let ?c = "register (register None (BoxedMetric (duplicate_label_family\<lparr>f_metric := []\<rparr>))
      registration_metadata_default)
    (BoxedMetric duplicate_label_family) (set_optional registration_metadata_default True)"
  let ?o = "\<lparr>co_include_optional = False, co_service_name = Some ''api'',
       co_service_name_format = MetricPrefix\<rparr>"
  have e: "included_entries ?o ?c =
      [\<lparr>re_metadata = registration_metadata_default, re_metric = duplicate_label_family\<lparr>f_metric := []\<rparr>\<rparr>]"
    by (simp add: included_entries_def register_def registry_get_def set_optional_def
        registration_metadata_default_def)
  have v: "family_valid (duplicate_label_family\<lparr>f_metric := []\<rparr>)"
    by (simp add: family_valid_def duplicate_label_family_def is_valid_name_def rows_are_valid_def)
  have "with_service_name ?o registration_metadata_default (duplicate_label_family\<lparr>f_metric := []\<rparr>) =
      duplicate_label_family\<lparr>f_name := Some ''api_m'', f_metric := []\<rparr>"
    by (simp add: with_service_name_def prefix_family_name_def
        registration_metadata_default_def duplicate_label_family_def)
  then show ?thesis
    using collect_complete [of ?o ?c "\<lambda>f. ([f], [])"] unfolding e
    by (simp add: v service_name_fits_def)
qed

end
