(* ===== verification/MetricValue.thy ===== *)
theory MetricValue
  imports Collect
begin

text \<open>
  The contract between a storage metric and the registry: \<open>EncodeMetricValue\<close>
  (\<open>foundations-metrics/src/value.rs\<close>) promises relatively named families, and
  \<open>NamedMetric\<close> (\<open>registered.rs\<close>) turns them into complete ones. The contract is the
  locale \<open>metric_value\<close>; its extension \<open>valid_metric_value\<close> adds that the rows need no
  sanitizing. Each metric theory interprets them on its own encoder.
\<close>

section \<open>NamedMetric\<close>

record 'm named_metric =
  nm_name :: string
  nm_help :: string
  nm_metric :: 'm

definition named_metric_new :: "string \<Rightarrow> string \<Rightarrow> 'm \<Rightarrow> 'm named_metric" where
  "named_metric_new name help metric = \<lparr>nm_name = name, nm_help = help, nm_metric = metric\<rparr>"

text \<open>The loop body over the encoded families.\<close>

definition complete_family :: "'m named_metric \<Rightarrow> metric_family \<Rightarrow> metric_family" where
  "complete_family nm f =
     (let name = (case f_name f of None \<Rightarrow> [] | Some n \<Rightarrow> n);
          f' = f\<lparr>f_name := Some (nm_name nm @ name)\<rparr>
      in if f_help f' = None then f'\<lparr>f_help := Some (nm_help nm)\<rparr> else f')"

definition named_encode ::
    "('m \<Rightarrow> metric_family list \<times> event list) \<Rightarrow> 'm named_metric \<Rightarrow>
     metric_family list \<times> event list" where
  "named_encode encv nm =
     (case encv (nm_metric nm) of (fs, l) \<Rightarrow> (map (complete_family nm) fs, l))"

lemma complete_family_fields [simp]:
  "f_metric (complete_family nm f) = f_metric f"
  "f_type (complete_family nm f) = f_type f"
  "f_unit (complete_family nm f) = f_unit f"
  "family_type (complete_family nm f) = family_type f"
  "f_help (complete_family nm f) =
     (case f_help f of None \<Rightarrow> Some (nm_help nm) | Some h \<Rightarrow> Some h)"
  by (auto simp: complete_family_def Let_def family_type_def split: option.split)

lemma complete_family_name:
  "f_name f = Some suffix \<Longrightarrow> f_name (complete_family nm f) = Some (nm_name nm @ suffix)"
  by (simp add: complete_family_def Let_def)

section \<open>The contract\<close>

definition relative_name :: "metric_family \<Rightarrow> bool" where
  "relative_name f \<longleftrightarrow> (case f_name f of None \<Rightarrow> False | Some n \<Rightarrow> CHR 0x00 \<notin> set n)"

locale metric_value =
  fixes encv :: "'m \<Rightarrow> metric_family list \<times> event list"
  assumes encoded_names: "f \<in> set (fst (encv m)) \<Longrightarrow> relative_name f"
    and encode_no_panic: "panic_free (snd (encv m))"
begin

lemma named_names:
  assumes "f \<in> set (fst (named_encode encv nm))" "is_valid_name (nm_name nm)"
  shows "valid_name_opt (f_name f)" "f_help f \<noteq> None"
proof -
  obtain f' n where f': "f' \<in> set (fst (encv (nm_metric nm)))" "f = complete_family nm f'"
      "f_name f' = Some n" "CHR 0x00 \<notin> set n"
    using assms(1) encoded_names [of _ "nm_metric nm"]
    by (fastforce simp: named_encode_def relative_name_def split: prod.splits option.splits)
  then show "valid_name_opt (f_name f)" "f_help f \<noteq> None"
    using assms(2) by (auto simp: complete_family_name is_valid_name_def split: option.split)
qed

lemma named_no_panic: "panic_free (snd (named_encode encv nm))"
  using encode_no_panic [of "nm_metric nm"] by (auto simp: named_encode_def split: prod.split)

end

locale valid_metric_value = metric_value +
  assumes encoded_rows: "f \<in> set (fst (encv m)) \<Longrightarrow> rows_are_valid (f_metric f) (family_type f)"
begin

lemma named_valid:
  assumes "f \<in> set (fst (named_encode encv nm))" "is_valid_name (nm_name nm)"
  shows "family_valid f"
proof -
  have "rows_are_valid (f_metric f) (family_type f)"
    using assms(1) encoded_rows [of _ "nm_metric nm"]
    by (auto simp: named_encode_def split: prod.splits)
  with named_names(1) [OF assms] show ?thesis
    by (simp add: family_valid_def)
qed

text \<open>Without a service name, collection returns the encoded families as they are.\<close>

lemma collected_as_encoded:
  assumes "is_valid_name (nm_name nm)" "co_service_name opts = None"
    "md_optional md \<longrightarrow> co_include_optional opts"
  shows "collect_metric (named_encode encv) opts \<lparr>re_metadata = md, re_metric = nm\<rparr> =
    named_encode encv nm"
proof -
  have "\<forall>f\<in>set (fst (named_encode encv nm)). family_valid f \<and> service_name_fits opts f"
    using named_valid assms by (auto simp: service_name_fits_def)
  moreover have "with_service_name opts md = id"
    using assms(2) by (intro ext) (simp add: with_service_name_def)
  ultimately show ?thesis
    using assms collect_metric_valid
      [of "named_encode encv" "\<lparr>re_metadata = md, re_metric = nm\<rparr>" opts]
    by simp
qed

end

end
