(* ===== verification/Counters.thy ===== *)
theory Counters
  imports Atomics MetricValue
begin

text \<open>
  Counters, \<open>foundations-metrics/src/metrics/counter.rs\<close>. \<open>CounterAtomic\<close> is the locale
  \<open>counter_atomic\<close>, interpreted for its two implementations on a 64-bit atomic. A \<open>Counter\<close>
  is a handle on shared storage, so a handle is an index into the list of cells that exist,
  \<open>clone\<close> copies the index and \<open>default\<close> allocates a cell; an operation of any thread on any
  handle is one atomic step on the store.
\<close>

section \<open>CounterAtomic\<close>

locale counter_atomic =
  fixes inc :: "'a \<Rightarrow> 'n \<times> 'a"
    and inc_by :: "'n \<Rightarrow> 'a \<Rightarrow> 'n \<times> 'a"
    and get :: "'a \<Rightarrow> 'n"
    and plus :: "'n \<Rightarrow> 'n \<Rightarrow> 'n"
    and one :: 'n
  assumes inc_is_inc_by: "inc a = inc_by one a"
    and inc_by_previous: "fst (inc_by v a) = get a"
    and get_inc_by: "get (snd (inc_by v a)) = plus (get a) v"
begin

lemma get_inc: "get (snd (inc a)) = plus (get a) one"
  by (simp add: inc_is_inc_by get_inc_by)

lemma get_fold: "get (fold (\<lambda>v a. snd (inc_by v a)) vs a) = foldl plus (get a) vs"
  by (induction vs arbitrary: a) (simp_all add: get_inc_by)

end

definition counter_u64_inc_by :: "u64 \<Rightarrow> u64 \<Rightarrow> u64 \<times> u64" where
  "counter_u64_inc_by v a = fetch_add v a"

definition counter_u64_inc :: "u64 \<Rightarrow> u64 \<times> u64" where
  "counter_u64_inc a = counter_u64_inc_by 1 a"

definition counter_u64_get :: "u64 \<Rightarrow> u64" where
  "counter_u64_get a = a"

definition counter_f64_inc_by :: "f64 \<Rightarrow> u64 \<Rightarrow> f64 \<times> u64" where
  "counter_f64_inc_by v a = update_f64 (\<lambda>old. f64_add old v) a"

definition counter_f64_inc :: "u64 \<Rightarrow> f64 \<times> u64" where
  "counter_f64_inc a = counter_f64_inc_by f64_one a"

definition counter_f64_get :: "u64 \<Rightarrow> f64" where
  "counter_f64_get a = F64 a"

interpretation cu: counter_atomic counter_u64_inc counter_u64_inc_by counter_u64_get "(+)" 1
  by unfold_locales
    (simp_all add: counter_u64_inc_def counter_u64_inc_by_def counter_u64_get_def fetch_add_def)

interpretation cf: counter_atomic counter_f64_inc counter_f64_inc_by counter_f64_get f64_add f64_one
  by unfold_locales (simp_all add: counter_f64_inc_def counter_f64_inc_by_def counter_f64_get_def)

section \<open>Counter handles\<close>

text \<open>\<open>Arc<AtomicU64>\<close>: the index of the shared cell.\<close>

record counter =
  cn_val :: nat

type_synonym cells = "u64 list"

definition counter_handle_default :: "cells \<Rightarrow> counter \<times> cells" where
  "counter_handle_default st = (\<lparr>cn_val = length st\<rparr>, st @ [0])"

definition counter_clone :: "counter \<Rightarrow> counter" where
  "counter_clone c = \<lparr>cn_val = cn_val c\<rparr>"

definition counter_inc_by :: "counter \<Rightarrow> u64 \<Rightarrow> cells \<Rightarrow> u64 \<times> cells" where
  "counter_inc_by c v st =
     (case counter_u64_inc_by v (st ! cn_val c) of (prev, a) \<Rightarrow> (prev, st[cn_val c := a]))"

definition counter_inc :: "counter \<Rightarrow> cells \<Rightarrow> u64 \<times> cells" where
  "counter_inc c st =
     (case counter_u64_inc (st ! cn_val c) of (prev, a) \<Rightarrow> (prev, st[cn_val c := a]))"

definition counter_get :: "counter \<Rightarrow> cells \<Rightarrow> u64" where
  "counter_get c st = counter_u64_get (st ! cn_val c)"

section \<open>Encoding\<close>

definition encode_counter :: "f64 \<Rightarrow> metric_family list" where
  "encode_counter value =
     [\<lparr>f_name = Some [], f_help = None, f_type = Some (metric_type_to_i32 Counter),
       f_metric = [metric_default\<lparr>m_counter := Some (counter_default\<lparr>c_value := Some value\<rparr>)\<rparr>],
       f_unit = None\<rparr>]"

definition counter_encode_metric_value :: "counter \<times> cells \<Rightarrow> metric_family list \<times> event list" where
  "counter_encode_metric_value cs =
     (case cs of (c, st) \<Rightarrow> (encode_counter (f64_of_u64 (counter_get c st)), []))"

definition counter_f64_encode_metric_value :: "u64 \<Rightarrow> metric_family list \<times> event list" where
  "counter_f64_encode_metric_value a = (encode_counter (counter_f64_get a), [])"

lemma encode_counter_valid:
  "f \<in> set (encode_counter v) \<Longrightarrow> relative_name f \<and> rows_are_valid (f_metric f) (family_type f)"
  by (simp add: encode_counter_def relative_name_def rows_are_valid_alt row_ok_iff labels_ok_def
      exemplars_are_valid_def proto_defaults)

interpretation counter_value: valid_metric_value counter_encode_metric_value
  by unfold_locales
    (auto simp: counter_encode_metric_value_def encode_counter_valid split: prod.splits
      dest: encode_counter_valid)

interpretation counter_f64_value: valid_metric_value counter_f64_encode_metric_value
  by unfold_locales
    (auto simp: counter_f64_encode_metric_value_def dest: encode_counter_valid)

section \<open>Runs\<close>

text \<open>Increments by any threads through any handles, in the order of their atomic steps.\<close>

datatype counter_op = Inc counter | IncBy counter u64

fun counter_op_target :: "counter_op \<Rightarrow> nat" where
  "counter_op_target (Inc c) = cn_val c"
| "counter_op_target (IncBy c v) = cn_val c"

fun counter_op_amount :: "counter_op \<Rightarrow> u64" where
  "counter_op_amount (Inc c) = 1"
| "counter_op_amount (IncBy c v) = v"

fun counter_step :: "counter_op \<Rightarrow> cells \<Rightarrow> u64 \<times> cells" where
  "counter_step (Inc c) st = counter_inc c st"
| "counter_step (IncBy c v) st = counter_inc_by c v st"

fun counter_run :: "counter_op list \<Rightarrow> cells \<Rightarrow> u64 list \<times> cells" where
  "counter_run [] st = ([], st)"
| "counter_run (op # ops) st =
     (case counter_step op st of (prev, st') \<Rightarrow>
      case counter_run ops st' of (prevs, st'') \<Rightarrow> (prev # prevs, st''))"

definition amounts_on :: "nat \<Rightarrow> counter_op list \<Rightarrow> u64 list" where
  "amounts_on i ops = map counter_op_amount (filter (\<lambda>op. counter_op_target op = i) ops)"

lemma counter_step_effect:
  "counter_step op st =
     (st ! counter_op_target op, st[counter_op_target op := st ! counter_op_target op + counter_op_amount op])"
  by (cases op)
    (simp_all add: counter_inc_def counter_inc_by_def counter_u64_inc_def counter_u64_inc_by_def fetch_add_def)

lemma counter_run_cell:
  "i < length st \<Longrightarrow> snd (counter_run ops st) ! i = st ! i + sum_list (amounts_on i ops)"
proof (induction ops arbitrary: st)
  case (Cons op ops)
  let ?st = "st[counter_op_target op := st ! counter_op_target op + counter_op_amount op]"
  have "snd (counter_run (op # ops) st) = snd (counter_run ops ?st)"
    by (simp add: counter_step_effect split: prod.split)
  then show ?case
    using Cons.IH [of ?st] Cons.prems by (auto simp: amounts_on_def nth_list_update ac_simps)
qed (simp add: amounts_on_def)

lemma counter_run_previous:
  "\<forall>op\<in>set ops. counter_op_target op < length st \<Longrightarrow> k < length ops \<Longrightarrow>
     fst (counter_run ops st) ! k = st ! counter_op_target (ops ! k) +
       sum_list (amounts_on (counter_op_target (ops ! k)) (take k ops))"
proof (induction ops arbitrary: st k)
  case (Cons op ops)
  show ?case
  proof (cases k)
    case 0
    then show ?thesis
      by (auto simp: counter_step_effect amounts_on_def split: prod.split)
  next
    case (Suc j)
    let ?st = "st[counter_op_target op := st ! counter_op_target op + counter_op_amount op]"
    have "fst (counter_run (op # ops) st) ! k = fst (counter_run ops ?st) ! j"
      by (auto simp: counter_step_effect Suc split: prod.split)
    then show ?thesis
      using Cons.IH [of ?st j] Cons.prems Suc
      by (auto simp: amounts_on_def nth_list_update ac_simps)
  qed
qed simp

lemma uint_sum_list:
  "(\<Sum>v\<leftarrow>vs. uint v) < 2 ^ 64 \<Longrightarrow> uint (sum_list (vs :: u64 list)) = (\<Sum>v\<leftarrow>vs. uint v)"
proof (induction vs)
  case (Cons v vs)
  have nn: "0 \<le> uint v" "0 \<le> (\<Sum>v\<leftarrow>vs. uint v)"
    by (auto intro: sum_list_nonneg)
  have "(\<Sum>v\<leftarrow>vs. uint v) < 2 ^ 64"
  proof -
    have "(\<Sum>v\<leftarrow>vs. uint v) \<le> (\<Sum>v\<leftarrow>v # vs. uint v)"
      by simp
    with Cons.prems show ?thesis by linarith
  qed
  then have "uint (sum_list vs) = (\<Sum>v\<leftarrow>vs. uint v)"
    using Cons.IH by blast
  then show ?case
    using Cons.prems nn by (simp add: uint_add_lem [THEN iffD1])
qed simp

lemma counter_exports:
  assumes "(c, st) = counter_handle_default st0"
    and "\<forall>op\<in>set ops. counter_op_target op < length st"
    and "(\<Sum>v\<leftarrow>amounts_on (cn_val c) ops. uint v) < 2 ^ 53"
  shows "\<exists>x. counter_encode_metric_value (c, snd (counter_run ops st)) = (encode_counter x, []) \<and>
    f64_denotes x (\<Sum>v\<leftarrow>amounts_on (cn_val c) ops. uint v)"
proof -
  have c: "cn_val c < length st" "st ! cn_val c = 0"
    by (use assms(1) in \<open>simp_all add: counter_handle_default_def\<close>)
  have "counter_get c (snd (counter_run ops st)) = sum_list (amounts_on (cn_val c) ops)"
    using counter_run_cell [OF c(1), of ops] c(2) by (simp add: counter_get_def counter_u64_get_def)
  moreover have "uint (sum_list (amounts_on (cn_val c) ops)) = (\<Sum>v\<leftarrow>amounts_on (cn_val c) ops. uint v)"
    using assms(3) by (intro uint_sum_list) simp
  moreover have "0 \<le> (\<Sum>v\<leftarrow>amounts_on (cn_val c) ops. uint v)"
    by (auto intro: sum_list_nonneg)
  ultimately show ?thesis
    using of_int_denotes [of "\<Sum>v\<leftarrow>amounts_on (cn_val c) ops. uint v"] assms(3)
    by (intro exI conjI) (auto simp: counter_encode_metric_value_def f64_of_u64_def)
qed

section \<open>Properties\<close>

text \<open>Clones share one total. After any interleaving of \<open>inc\<close> and \<open>inc_by\<close> calls through any
  handles, \<open>get\<close> through a handle returns the starting value plus the amounts of exactly the
  calls made through it and its clones, modulo \<open>2^64\<close>; and the \<open>k\<close>-th call returned the value
  just before it, so the returned values of calls on one counter are its running totals.\<close>

theorem counter_total:
  assumes "\<forall>op\<in>set ops. counter_op_target op < length st" "cn_val c < length st"
  shows "counter_get c (snd (counter_run ops st)) =
      counter_get c st + sum_list (amounts_on (cn_val c) ops) \<and>
    counter_get (counter_clone c) (snd (counter_run ops st)) =
      counter_get c (snd (counter_run ops st)) \<and>
    (\<forall>k<length ops. counter_op_target (ops ! k) = cn_val c \<longrightarrow>
       fst (counter_run ops st) ! k = counter_get c st + sum_list (amounts_on (cn_val c) (take k ops)))"
  using counter_run_cell [OF assms(2)] counter_run_previous [OF assms(1)]
  by (auto simp: counter_get_def counter_u64_get_def counter_clone_def)

theorem counter_total_witness:
  "counter_get \<lparr>cn_val = 0\<rparr> (snd (counter_run
      [IncBy \<lparr>cn_val = 0\<rparr> 7, Inc \<lparr>cn_val = 1\<rparr>, Inc (counter_clone \<lparr>cn_val = 0\<rparr>)] [-8, 0])) = 0"
  using counter_total [of "[IncBy \<lparr>cn_val = 0\<rparr> 7, Inc \<lparr>cn_val = 1\<rparr>, Inc (counter_clone \<lparr>cn_val = 0\<rparr>)]"
      "[-8, 0]" "\<lparr>cn_val = 0\<rparr>"]
  by (simp add: counter_clone_def counter_get_def counter_u64_get_def amounts_on_def)

text \<open>A counter created by \<open>default\<close> and incremented any number of times, through itself or
  clones and among increments of other counters, exports one row whose double denotes exactly
  the sum of its increments, as long as that sum is below \<open>2^53\<close>.\<close>

theorem counter_export_exact:
  assumes "(c, st) = counter_handle_default st0"
    and "\<forall>op\<in>set ops. counter_op_target op < length st"
    and "(\<Sum>v\<leftarrow>amounts_on (cn_val c) ops. uint v) < 2 ^ 53"
  shows "\<exists>x. counter_encode_metric_value (c, snd (counter_run ops st)) = (encode_counter x, []) \<and>
    f64_denotes x (\<Sum>v\<leftarrow>amounts_on (cn_val c) ops. uint v)"
  using assms by (rule counter_exports)

theorem counter_export_exact_witness:
  "\<exists>x. counter_encode_metric_value
        (\<lparr>cn_val = 1\<rparr>, snd (counter_run [IncBy \<lparr>cn_val = 1\<rparr> 5, Inc \<lparr>cn_val = 0\<rparr>, Inc \<lparr>cn_val = 1\<rparr>] [9, 0])) =
      (encode_counter x, []) \<and> f64_denotes x 6"
  using counter_export_exact
    [of "\<lparr>cn_val = 1\<rparr>" "[9, 0]" "[9]" "[IncBy \<lparr>cn_val = 1\<rparr> 5, Inc \<lparr>cn_val = 0\<rparr>, Inc \<lparr>cn_val = 1\<rparr>]"]
  by (simp add: counter_handle_default_def amounts_on_def)

end
