(* ===== verification/Gauges.thy ===== *)
theory Gauges
  imports Counters
begin

text \<open>
  Gauges, \<open>foundations-metrics/src/metrics/gauge.rs\<close>. \<open>GaugeAtomic\<close> extends the contract of
  \<open>CounterAtomic\<close> with \<open>dec\<close>, \<open>dec_by\<close> and \<open>set\<close>; it is interpreted for \<open>i64\<close>, \<open>u64\<close> and
  \<open>f64\<close>, and its exact extension, in which a decrement undoes an increment, for the two
  integer types. A \<open>RangeGauge\<close> keeps the extremes since the last scrape; its operations are
  here as sequential functions, their interleavings in \<open>RangeGaugeRace\<close>. \<open>GaugeGuard\<close> is a
  client of the contract \<open>generic_gauge\<close>, which both gauges meet.
\<close>

section \<open>GaugeAtomic\<close>

locale gauge_atomic = counter_atomic inc inc_by get plus one
  for inc :: "'a \<Rightarrow> 'n \<times> 'a" and inc_by :: "'n \<Rightarrow> 'a \<Rightarrow> 'n \<times> 'a" and get :: "'a \<Rightarrow> 'n"
    and plus :: "'n \<Rightarrow> 'n \<Rightarrow> 'n" and one :: 'n +
  fixes dec :: "'a \<Rightarrow> 'n \<times> 'a"
    and dec_by :: "'n \<Rightarrow> 'a \<Rightarrow> 'n \<times> 'a"
    and set_value :: "'n \<Rightarrow> 'a \<Rightarrow> 'n \<times> 'a"
    and minus :: "'n \<Rightarrow> 'n \<Rightarrow> 'n"
  assumes dec_is_dec_by: "dec a = dec_by one a"
    and dec_by_previous: "fst (dec_by v a) = get a"
    and get_dec_by: "get (snd (dec_by v a)) = minus (get a) v"
    and set_previous: "fst (set_value v a) = get a"
    and get_set: "get (snd (set_value v a)) = v"
begin

lemma get_dec: "get (snd (dec a)) = minus (get a) one"
  by (simp add: dec_is_dec_by get_dec_by)

lemma set_discards: "get (snd (set_value v (snd (inc_by w a)))) = get (snd (set_value v a))"
  by (simp add: get_set)

end

locale exact_gauge = gauge_atomic +
  assumes plus_minus: "minus (plus a v) v = a"
begin

lemma dec_undoes_inc: "get (snd (dec (snd (inc a)))) = get a"
  by (simp add: get_dec get_inc plus_minus)

lemma dec_by_undoes_inc_by: "get (snd (dec_by v (snd (inc_by v a)))) = get a"
  by (simp add: get_dec_by get_inc_by plus_minus)

end

definition gauge_i64_inc_by :: "i64 \<Rightarrow> i64 \<Rightarrow> i64 \<times> i64" where
  "gauge_i64_inc_by v a = fetch_add v a"

definition gauge_i64_inc :: "i64 \<Rightarrow> i64 \<times> i64" where
  "gauge_i64_inc a = gauge_i64_inc_by 1 a"

definition gauge_i64_dec_by :: "i64 \<Rightarrow> i64 \<Rightarrow> i64 \<times> i64" where
  "gauge_i64_dec_by v a = fetch_sub v a"

definition gauge_i64_dec :: "i64 \<Rightarrow> i64 \<times> i64" where
  "gauge_i64_dec a = gauge_i64_dec_by 1 a"

definition gauge_i64_set :: "i64 \<Rightarrow> i64 \<Rightarrow> i64 \<times> i64" where
  "gauge_i64_set v a = atomic_swap v a"

definition gauge_i64_get :: "i64 \<Rightarrow> i64" where
  "gauge_i64_get a = a"

definition gauge_u64_inc_by :: "u64 \<Rightarrow> u64 \<Rightarrow> u64 \<times> u64" where
  "gauge_u64_inc_by v a = fetch_add v a"

definition gauge_u64_inc :: "u64 \<Rightarrow> u64 \<times> u64" where
  "gauge_u64_inc a = gauge_u64_inc_by 1 a"

definition gauge_u64_dec_by :: "u64 \<Rightarrow> u64 \<Rightarrow> u64 \<times> u64" where
  "gauge_u64_dec_by v a = fetch_sub v a"

definition gauge_u64_dec :: "u64 \<Rightarrow> u64 \<times> u64" where
  "gauge_u64_dec a = gauge_u64_dec_by 1 a"

definition gauge_u64_set :: "u64 \<Rightarrow> u64 \<Rightarrow> u64 \<times> u64" where
  "gauge_u64_set v a = atomic_swap v a"

definition gauge_u64_get :: "u64 \<Rightarrow> u64" where
  "gauge_u64_get a = a"

definition gauge_f64_inc_by :: "f64 \<Rightarrow> u64 \<Rightarrow> f64 \<times> u64" where
  "gauge_f64_inc_by v a = update_f64 (\<lambda>old. f64_add old v) a"

definition gauge_f64_inc :: "u64 \<Rightarrow> f64 \<times> u64" where
  "gauge_f64_inc a = gauge_f64_inc_by f64_one a"

definition gauge_f64_dec_by :: "f64 \<Rightarrow> u64 \<Rightarrow> f64 \<times> u64" where
  "gauge_f64_dec_by v a = update_f64 (\<lambda>old. f64_sub old v) a"

definition gauge_f64_dec :: "u64 \<Rightarrow> f64 \<times> u64" where
  "gauge_f64_dec a = gauge_f64_dec_by f64_one a"

definition gauge_f64_set :: "f64 \<Rightarrow> u64 \<Rightarrow> f64 \<times> u64" where
  "gauge_f64_set v a = (case atomic_swap (to_bits v) a of (prev, a') \<Rightarrow> (F64 prev, a'))"

definition gauge_f64_get :: "u64 \<Rightarrow> f64" where
  "gauge_f64_get a = F64 a"

lemmas gauge_i64_defs = gauge_i64_inc_by_def gauge_i64_inc_def gauge_i64_dec_by_def
  gauge_i64_dec_def gauge_i64_set_def gauge_i64_get_def fetch_add_def fetch_sub_def atomic_swap_def

lemmas gauge_u64_defs = gauge_u64_inc_by_def gauge_u64_inc_def gauge_u64_dec_by_def
  gauge_u64_dec_def gauge_u64_set_def gauge_u64_get_def fetch_add_def fetch_sub_def atomic_swap_def

lemmas gauge_f64_defs = gauge_f64_inc_by_def gauge_f64_inc_def gauge_f64_dec_by_def
  gauge_f64_dec_def gauge_f64_set_def gauge_f64_get_def atomic_swap_def

interpretation gi: exact_gauge gauge_i64_inc gauge_i64_inc_by gauge_i64_get "(+)" 1
    gauge_i64_dec gauge_i64_dec_by gauge_i64_set "(-)"
  by unfold_locales (simp_all add: gauge_i64_defs)

interpretation gu: exact_gauge gauge_u64_inc gauge_u64_inc_by gauge_u64_get "(+)" 1
    gauge_u64_dec gauge_u64_dec_by gauge_u64_set "(-)"
  by unfold_locales (simp_all add: gauge_u64_defs)

interpretation gf: gauge_atomic gauge_f64_inc gauge_f64_inc_by gauge_f64_get f64_add f64_one
    gauge_f64_dec gauge_f64_dec_by gauge_f64_set f64_sub
  by unfold_locales (simp_all add: gauge_f64_defs)

section \<open>Gauge handles\<close>

record gauge =
  gg_val :: nat

definition gauge_handle_default :: "cells \<Rightarrow> gauge \<times> cells" where
  "gauge_handle_default st = (\<lparr>gg_val = length st\<rparr>, st @ [0])"

definition gauge_clone :: "gauge \<Rightarrow> gauge" where
  "gauge_clone g = \<lparr>gg_val = gg_val g\<rparr>"

definition on_cell :: "nat \<Rightarrow> (u64 \<Rightarrow> u64 \<times> u64) \<Rightarrow> cells \<Rightarrow> u64 \<times> cells" where
  "on_cell i f st = (case f (st ! i) of (prev, a) \<Rightarrow> (prev, st[i := a]))"

definition gauge_inc :: "gauge \<Rightarrow> cells \<Rightarrow> u64 \<times> cells" where
  "gauge_inc g st = on_cell (gg_val g) gauge_u64_inc st"

definition gauge_inc_by :: "gauge \<Rightarrow> u64 \<Rightarrow> cells \<Rightarrow> u64 \<times> cells" where
  "gauge_inc_by g v st = on_cell (gg_val g) (gauge_u64_inc_by v) st"

definition gauge_dec :: "gauge \<Rightarrow> cells \<Rightarrow> u64 \<times> cells" where
  "gauge_dec g st = on_cell (gg_val g) gauge_u64_dec st"

definition gauge_dec_by :: "gauge \<Rightarrow> u64 \<Rightarrow> cells \<Rightarrow> u64 \<times> cells" where
  "gauge_dec_by g v st = on_cell (gg_val g) (gauge_u64_dec_by v) st"

definition gauge_set :: "gauge \<Rightarrow> u64 \<Rightarrow> cells \<Rightarrow> u64 \<times> cells" where
  "gauge_set g v st = on_cell (gg_val g) (gauge_u64_set v) st"

definition gauge_get :: "gauge \<Rightarrow> cells \<Rightarrow> u64" where
  "gauge_get g st = gauge_u64_get (st ! gg_val g)"

section \<open>Encoding\<close>

definition gauge_row_family :: "string \<Rightarrow> f64 \<Rightarrow> metric_family" where
  "gauge_row_family suffix value =
     \<lparr>f_name = Some suffix, f_help = None, f_type = Some (metric_type_to_i32 Gauge),
      f_metric = [metric_default\<lparr>m_gauge := Some \<lparr>g_value = Some value\<rparr>\<rparr>], f_unit = None\<rparr>"

definition gauge_encode_metric_value :: "gauge \<times> cells \<Rightarrow> metric_family list \<times> event list" where
  "gauge_encode_metric_value gs =
     (case gs of (g, st) \<Rightarrow> ([gauge_row_family [] (f64_of_u64 (gauge_get g st))], []))"

definition gauge_i64_encode_metric_value :: "i64 \<Rightarrow> metric_family list \<times> event list" where
  "gauge_i64_encode_metric_value a = ([gauge_row_family [] (f64_of_i64 (gauge_i64_get a))], [])"

definition gauge_f64_encode_metric_value :: "u64 \<Rightarrow> metric_family list \<times> event list" where
  "gauge_f64_encode_metric_value a = ([gauge_row_family [] (gauge_f64_get a)], [])"

lemma gauge_family_valid:
  "CHR 0x00 \<notin> set suffix \<Longrightarrow> relative_name (gauge_row_family suffix v)"
  "rows_are_valid (f_metric (gauge_row_family suffix v)) (family_type (gauge_row_family suffix v))"
  by (simp_all add: gauge_row_family_def relative_name_def rows_are_valid_alt row_ok_iff labels_ok_def
      exemplars_are_valid_def metric_default_def)

interpretation gauge_value: valid_metric_value gauge_encode_metric_value
  by unfold_locales (auto simp: gauge_encode_metric_value_def gauge_family_valid split: prod.splits)

interpretation gauge_i64_value: valid_metric_value gauge_i64_encode_metric_value
  by unfold_locales (auto simp: gauge_i64_encode_metric_value_def gauge_family_valid)

interpretation gauge_f64_value: valid_metric_value gauge_f64_encode_metric_value
  by unfold_locales (auto simp: gauge_f64_encode_metric_value_def gauge_family_valid)

section \<open>RangeGauge\<close>

text \<open>The three atomics a \<open>RangeGauge\<close> and its clones share. \<open>checks\<close> says whether integer
  overflow panics (a build with overflow checks) or wraps; a panic of \<open>prev + v\<close> comes after
  the gauge has been updated and is the result \<open>None\<close>.\<close>

record range_gauge =
  rg_gauge :: u64
  rg_min :: u64
  rg_max :: u64

definition range_gauge_default :: range_gauge where
  "range_gauge_default = \<lparr>rg_gauge = 0, rg_min = 0, rg_max = 0\<rparr>"

definition update_max :: "u64 \<Rightarrow> range_gauge \<Rightarrow> range_gauge" where
  "update_max new_max s = s\<lparr>rg_max := max (rg_max s) new_max\<rparr>"

definition update_min :: "u64 \<Rightarrow> range_gauge \<Rightarrow> range_gauge" where
  "update_min new_min s = s\<lparr>rg_min := min (rg_min s) new_min\<rparr>"

definition range_inc_by :: "bool \<Rightarrow> u64 \<Rightarrow> range_gauge \<Rightarrow> u64 option \<times> range_gauge" where
  "range_inc_by checks v s =
     (case gauge_u64_inc_by v (rg_gauge s) of (prev, g) \<Rightarrow>
      let s' = s\<lparr>rg_gauge := g\<rparr>
      in if checks \<and> 2 ^ 64 \<le> uint prev + uint v then (None, s')
         else (Some prev, update_max (prev + v) s'))"

definition range_inc :: "bool \<Rightarrow> range_gauge \<Rightarrow> u64 option \<times> range_gauge" where
  "range_inc checks s = range_inc_by checks 1 s"

definition range_dec_by :: "bool \<Rightarrow> u64 \<Rightarrow> range_gauge \<Rightarrow> u64 option \<times> range_gauge" where
  "range_dec_by checks v s =
     (case gauge_u64_dec_by v (rg_gauge s) of (prev, g) \<Rightarrow>
      let s' = s\<lparr>rg_gauge := g\<rparr>
      in if checks \<and> uint prev < uint v then (None, s')
         else (Some prev, update_min (prev - v) s'))"

definition range_dec :: "bool \<Rightarrow> range_gauge \<Rightarrow> u64 option \<times> range_gauge" where
  "range_dec checks s = range_dec_by checks 1 s"

definition range_set :: "u64 \<Rightarrow> range_gauge \<Rightarrow> u64 \<times> range_gauge" where
  "range_set v s =
     (case gauge_u64_set v (rg_gauge s) of (prev, g) \<Rightarrow>
      (prev, update_min v (update_max v (s\<lparr>rg_gauge := g\<rparr>))))"

definition range_get :: "range_gauge \<Rightarrow> u64" where
  "range_get s = gauge_u64_get (rg_gauge s)"

definition get_values :: "range_gauge \<Rightarrow> (u64 \<times> u64 \<times> u64) \<times> range_gauge" where
  "get_values s =
     (let current = range_get s;
          mn = min current (rg_min s);
          s1 = s\<lparr>rg_min := current\<rparr>;
          mx = max current (rg_max s1);
          s2 = s1\<lparr>rg_max := current\<rparr>;
          current_fixup = range_get s2;
          s3 = update_max current_fixup (update_min current_fixup s2)
      in ((mn, current, mx), s3))"

definition gauge_family :: "string \<Rightarrow> u64 \<Rightarrow> metric_family" where
  "gauge_family suffix value = gauge_row_family suffix (f64_of_u64 value)"

definition range_encode :: "range_gauge \<Rightarrow> metric_family list \<times> range_gauge" where
  "range_encode s =
     (case get_values s of ((mn, current, mx), s') \<Rightarrow>
       ([gauge_family [] current, gauge_family ''_min'' mn, gauge_family ''_max'' mx], s'))"

definition range_encode_metric_value :: "range_gauge \<Rightarrow> metric_family list \<times> event list" where
  "range_encode_metric_value s = (fst (range_encode s), [])"

interpretation range_value: valid_metric_value range_encode_metric_value
  by unfold_locales
    (auto simp: range_encode_metric_value_def range_encode_def gauge_family_def gauge_family_valid
      split: prod.splits)

section \<open>RangeGauge between two scrapes\<close>

datatype range_op = RInc | RIncBy u64 | RDec | RDecBy u64 | RSet u64

fun range_step :: "bool \<Rightarrow> range_op \<Rightarrow> range_gauge \<Rightarrow> u64 option \<times> range_gauge" where
  "range_step checks RInc s = range_inc checks s"
| "range_step checks (RIncBy v) s = range_inc_by checks v s"
| "range_step checks RDec s = range_dec checks s"
| "range_step checks (RDecBy v) s = range_dec_by checks v s"
| "range_step checks (RSet v) s = (case range_set v s of (prev, s') \<Rightarrow> (Some prev, s'))"

fun range_run :: "bool \<Rightarrow> range_op list \<Rightarrow> range_gauge \<Rightarrow> range_gauge" where
  "range_run checks [] s = s"
| "range_run checks (op # ops) s = range_run checks ops (snd (range_step checks op s))"

text \<open>The exact value an operation leaves, when it neither overflows nor underflows.\<close>

fun range_value :: "range_op \<Rightarrow> int \<Rightarrow> int" where
  "range_value RInc n = n + 1"
| "range_value (RIncBy v) n = n + uint v"
| "range_value RDec n = n - 1"
| "range_value (RDecBy v) n = n - uint v"
| "range_value (RSet v) n = uint v"

fun range_trace :: "range_op list \<Rightarrow> int \<Rightarrow> int list" where
  "range_trace [] n = [n]"
| "range_trace (op # ops) n = n # range_trace ops (range_value op n)"

definition fits_u64 :: "int list \<Rightarrow> bool" where
  "fits_u64 ns \<longleftrightarrow> (\<forall>n\<in>set ns. 0 \<le> n \<and> n < 2 ^ 64)"

lemma range_trace_hd: "\<exists>ns. range_trace ops n = n # ns"
  by (cases ops) auto

lemma uint_max: "uint (max a b) = max (uint a) (uint (b :: u64))"
  by (simp add: max_def word_le_def)

lemma uint_min: "uint (min a b) = min (uint a) (uint (b :: u64))"
  by (simp add: min_def word_le_def)

lemma uint_add_fits: "uint (a :: u64) + uint b < 2 ^ 64 \<Longrightarrow> uint (a + b) = uint a + uint b"
  by (simp add: uint_add_lem [THEN iffD1])

lemma uint_sub_fits: "uint (b :: u64) \<le> uint a \<Longrightarrow> uint (a - b) = uint a - uint b"
  by (simp add: uint_sub_lem [THEN iffD1])

text \<open>One operation on a state whose extremes bracket the gauge.\<close>

lemma range_step_exact:
  assumes "rg_min s \<le> rg_gauge s" "rg_gauge s \<le> rg_max s"
    and "0 \<le> range_value op (uint (rg_gauge s))" "range_value op (uint (rg_gauge s)) < 2 ^ 64"
  shows "uint (rg_gauge (snd (range_step checks op s))) = range_value op (uint (rg_gauge s)) \<and>
    uint (rg_min (snd (range_step checks op s))) = min (uint (rg_min s)) (range_value op (uint (rg_gauge s))) \<and>
    uint (rg_max (snd (range_step checks op s))) = max (uint (rg_max s)) (range_value op (uint (rg_gauge s))) \<and>
    fst (range_step checks op s) = Some (rg_gauge s)"
proof -
  have b: "uint (rg_min s) \<le> uint (rg_gauge s)" "uint (rg_gauge s) \<le> uint (rg_max s)"
    using assms(1,2) by (simp_all add: word_le_def)
  have inc: "uint (rg_gauge (snd (range_inc_by checks v s))) = uint (rg_gauge s) + uint v \<and>
    uint (rg_min (snd (range_inc_by checks v s))) = min (uint (rg_min s)) (uint (rg_gauge s) + uint v) \<and>
    uint (rg_max (snd (range_inc_by checks v s))) = max (uint (rg_max s)) (uint (rg_gauge s) + uint v) \<and>
    fst (range_inc_by checks v s) = Some (rg_gauge s)" if "uint (rg_gauge s) + uint v < 2 ^ 64" for v
    using b that by (auto simp: range_inc_by_def gauge_u64_defs update_max_def uint_max uint_add_fits
        Let_def min_def intro: order.trans)
  have mx: "max (uint (rg_max s)) (uint (rg_gauge s) - uint v) = uint (rg_max s)" for v :: u64
    by (rule max_absorb1) (use b uint_ge_0 [of v] in linarith)
  have dec: "uint (rg_gauge (snd (range_dec_by checks v s))) = uint (rg_gauge s) - uint v \<and>
    uint (rg_min (snd (range_dec_by checks v s))) = min (uint (rg_min s)) (uint (rg_gauge s) - uint v) \<and>
    uint (rg_max (snd (range_dec_by checks v s))) = max (uint (rg_max s)) (uint (rg_gauge s) - uint v) \<and>
    fst (range_dec_by checks v s) = Some (rg_gauge s)" if "uint v \<le> uint (rg_gauge s)" for v
    using b that by (simp add: range_dec_by_def gauge_u64_defs update_min_def uint_min uint_sub_fits mx Let_def)
  show ?thesis
  proof (cases op)
    case RInc
    then show ?thesis using assms(4) inc [of 1] by (simp add: range_inc_def)
  next
    case (RIncBy v)
    then show ?thesis using assms(4) inc [of v] by simp
  next
    case RDec
    then show ?thesis using assms(3) dec [of 1] by (simp add: range_dec_def)
  next
    case (RDecBy v)
    then show ?thesis using assms(3) dec [of v] by simp
  next
    case (RSet v)
    then show ?thesis
      by (simp add: range_set_def gauge_u64_defs update_max_def update_min_def uint_max uint_min)
  qed
qed

lemma range_run_exact:
  assumes "rg_min s \<le> rg_gauge s" "rg_gauge s \<le> rg_max s"
    and "fits_u64 (range_trace ops (uint (rg_gauge s)))"
  shows "uint (rg_gauge (range_run checks ops s)) = last (range_trace ops (uint (rg_gauge s))) \<and>
    uint (rg_min (range_run checks ops s)) = Min (insert (uint (rg_min s)) (set (range_trace ops (uint (rg_gauge s))))) \<and>
    uint (rg_max (range_run checks ops s)) = Max (insert (uint (rg_max s)) (set (range_trace ops (uint (rg_gauge s)))))"
  using assms
proof (induction ops arbitrary: s)
  case Nil
  then show ?case by (simp add: word_le_def)
next
  case (Cons op ops)
  let ?n = "range_value op (uint (rg_gauge s))" and ?s = "snd (range_step checks op s)"
  obtain ns where ns: "range_trace ops ?n = ?n # ns"
    using range_trace_hd by blast
  have fit: "0 \<le> ?n" "?n < 2 ^ 64" "fits_u64 (range_trace ops ?n)"
    using Cons.prems(3) by (simp_all add: fits_u64_def ns)
  note st = range_step_exact [OF Cons.prems(1,2) fit(1,2), of checks]
  have "uint (rg_min s) \<le> uint (rg_gauge s)" "uint (rg_gauge s) \<le> uint (rg_max s)"
    using Cons.prems(1,2) by (simp_all add: word_le_def)
  moreover have "rg_min ?s \<le> rg_gauge ?s" "rg_gauge ?s \<le> rg_max ?s"
    using st by (simp_all add: word_le_def)
  then have "uint (rg_gauge (range_run checks ops ?s)) = last (range_trace ops ?n) \<and>
    uint (rg_min (range_run checks ops ?s)) = Min (insert (uint (rg_min ?s)) (set (range_trace ops ?n))) \<and>
    uint (rg_max (range_run checks ops ?s)) = Max (insert (uint (rg_max ?s)) (set (range_trace ops ?n)))"
    using Cons.IH [of ?s] fit(3) st by simp
  ultimately show ?case
    using st by (simp add: ns min.assoc max.assoc min.left_commute max.left_commute
        min.absorb1 max.absorb1)
qed

section \<open>Guards\<close>

text \<open>\<open>GenericGauge\<close>: what a \<open>GaugeGuard\<close> calls. \<open>value\<close> is the live count it maintains.\<close>

locale generic_gauge =
  fixes inc :: "'s \<Rightarrow> 's" and dec :: "'s \<Rightarrow> 's" and val :: "'s \<Rightarrow> u64"
  assumes val_inc: "val (inc s) = val s + 1"
    and val_dec: "val (dec s) = val s - 1"

definition gauge_guard_new :: "('s \<Rightarrow> 's) \<Rightarrow> 's \<Rightarrow> 's" where
  "gauge_guard_new inc s = inc s"

definition gauge_guard_drop :: "('s \<Rightarrow> 's) \<Rightarrow> 's \<Rightarrow> 's" where
  "gauge_guard_drop dec s = dec s"

text \<open>Guards are values with one owner: only a live guard can be dropped, and only once.\<close>

datatype guard_op = GuardNew nat | GuardDrop nat

fun guard_run :: "('s \<Rightarrow> 's) \<Rightarrow> ('s \<Rightarrow> 's) \<Rightarrow> guard_op list \<Rightarrow> nat set \<times> 's \<Rightarrow> nat set \<times> 's" where
  "guard_run inc dec [] ls = ls"
| "guard_run inc dec (GuardNew i # ops) (live, s) =
     (if i \<in> live then guard_run inc dec ops (live, s)
      else guard_run inc dec ops (insert i live, gauge_guard_new inc s))"
| "guard_run inc dec (GuardDrop i # ops) (live, s) =
     (if i \<in> live then guard_run inc dec ops (live - {i}, gauge_guard_drop dec s)
      else guard_run inc dec ops (live, s))"

context generic_gauge
begin

lemma guard_run_counts:
  "finite live \<Longrightarrow> guard_run inc dec ops (live, s) = (live', s') \<Longrightarrow>
     finite live' \<and> val s' - word_of_nat (card live') = val s - word_of_nat (card live)"
proof (induction ops arbitrary: live s)
  case (Cons op ops)
  show ?case
  proof (cases op)
    case (GuardNew i)
    then show ?thesis
      using Cons.prems Cons.IH [of "insert i live" "inc s"] Cons.IH [of live s]
      by (auto simp: gauge_guard_new_def val_inc card_insert_if algebra_simps split: if_splits)
  next
    case (GuardDrop i)
    have "(of_nat (card (live - {i})) :: u64) = of_nat (card live) - 1" if "i \<in> live"
      using Cons.prems(1) that by (simp only: card.remove of_nat_Suc) simp
    then show ?thesis
      using Cons.prems GuardDrop Cons.IH [of "live - {i}" "dec s"] Cons.IH [of live s]
      by (auto simp: gauge_guard_drop_def val_dec split: if_splits)
  qed
qed simp

lemma guards_live:
  "guard_run inc dec ops ({}, s) = (live, s') \<Longrightarrow> val s' = val s + word_of_nat (card live)"
  using guard_run_counts [of "{}" ops s live s'] by (simp add: algebra_simps)

end

text \<open>The two implementations: a \<open>Gauge\<close> handle on a store, and a \<open>RangeGauge\<close>.\<close>

definition generic_gauge_inc :: "u64 \<Rightarrow> u64" where
  "generic_gauge_inc a = snd (gauge_u64_inc a)"

definition generic_gauge_dec :: "u64 \<Rightarrow> u64" where
  "generic_gauge_dec a = snd (gauge_u64_dec a)"

definition generic_range_inc :: "range_gauge \<Rightarrow> range_gauge" where
  "generic_range_inc s = snd (range_inc False s)"

definition generic_range_dec :: "range_gauge \<Rightarrow> range_gauge" where
  "generic_range_dec s = snd (range_dec False s)"

interpretation gauge_guards: generic_gauge generic_gauge_inc generic_gauge_dec gauge_u64_get
  by unfold_locales (simp_all add: generic_gauge_inc_def generic_gauge_dec_def gauge_u64_defs)

interpretation range_guards: generic_gauge generic_range_inc generic_range_dec range_get
  by unfold_locales
    (simp_all add: generic_range_inc_def generic_range_dec_def range_inc_def range_dec_def
      range_inc_by_def range_dec_by_def range_get_def update_max_def update_min_def gauge_u64_defs Let_def)

section \<open>Properties\<close>

text \<open>Between two scrapes a \<open>RangeGauge\<close> tracks the exact range: from the state a scrape leaves
  (both extremes equal to the value), after any sequence of increments, decrements and sets whose
  values stay within \<open>u64\<close>, \<open>get_values\<close> returns the minimum, the last and the maximum of all
  values the gauge has held, with or without overflow checks, and resets both extremes to the
  current value.\<close>

theorem range_gauge_tracks_extremes:
  assumes "rg_min s = rg_gauge s" "rg_max s = rg_gauge s"
    and "fits_u64 (range_trace ops (uint (rg_gauge s)))"
    and "get_values (range_run checks ops s) = ((mn, current, mx), s')"
  shows "uint mn = Min (set (range_trace ops (uint (rg_gauge s)))) \<and>
    uint current = last (range_trace ops (uint (rg_gauge s))) \<and>
    uint mx = Max (set (range_trace ops (uint (rg_gauge s)))) \<and>
    s' = \<lparr>rg_gauge = current, rg_min = current, rg_max = current\<rparr>"
proof -
  let ?t = "range_trace ops (uint (rg_gauge s))" and ?r = "range_run checks ops s"
  obtain ns where ns: "?t = uint (rg_gauge s) # ns"
    using range_trace_hd by blast
  have r: "uint (rg_gauge ?r) = last ?t" "uint (rg_min ?r) = Min (set ?t)" "uint (rg_max ?r) = Max (set ?t)"
    using range_run_exact [of s ops checks] assms(1-3) by (simp_all add: ns)
  have "last ?t \<in> set ?t"
    by (simp add: ns)
  then have "Min (set ?t) \<le> last ?t" "last ?t \<le> Max (set ?t)"
    by simp_all
  then have "rg_min ?r \<le> rg_gauge ?r" "rg_gauge ?r \<le> rg_max ?r"
    by (simp_all add: word_le_def r)
  then show ?thesis
    using assms(4) r by (auto simp: get_values_def range_get_def gauge_u64_get_def update_max_def
        update_min_def Let_def min_def max_def)
qed

theorem range_gauge_tracks_extremes_witness:
  "get_values (range_run True [RIncBy 7, RDecBy 5, RInc, RSet 4] range_gauge_default) =
     ((0, 4, 7), \<lparr>rg_gauge = 4, rg_min = 4, rg_max = 4\<rparr>) \<and>
   Max (set (range_trace [RIncBy 7, RDecBy 5, RInc, RSet 4] 0)) = uint (7 :: u64)"
proof -
  have v: "get_values (range_run True [RIncBy 7, RDecBy 5, RInc, RSet 4] range_gauge_default) =
     ((0, 4, 7), \<lparr>rg_gauge = 4, rg_min = 4, rg_max = 4\<rparr>)"
    by (simp add: range_gauge_default_def range_inc_def range_inc_by_def range_dec_by_def range_set_def
        gauge_u64_defs update_max_def update_min_def get_values_def range_get_def)
  show ?thesis
    using range_gauge_tracks_extremes [OF _ _ _ v] v
    by (simp add: range_gauge_default_def fits_u64_def)
qed

text \<open>Guards keep an exact live count: after any interleaving of creations and drops of any
  number of guards on one gauge, its value is the starting value plus the number of guards still
  alive; so it is back at its start once all are dropped. The same holds of a \<open>RangeGauge\<close>.\<close>

theorem gauge_guards_count_live:
  "(guard_run generic_gauge_inc generic_gauge_dec ops ({}, a) = (live, a') \<longrightarrow>
      gauge_u64_get a' = gauge_u64_get a + word_of_nat (card live)) \<and>
   (guard_run generic_range_inc generic_range_dec ops ({}, s) = (live', s') \<longrightarrow>
      range_get s' = range_get s + word_of_nat (card live'))"
  using gauge_guards.guards_live range_guards.guards_live by blast

theorem gauge_guards_count_live_witness:
  "gauge_u64_get (snd (guard_run generic_gauge_inc generic_gauge_dec
      [GuardNew 0, GuardNew 1, GuardDrop 0, GuardNew 2, GuardDrop 0] ({}, 5))) = 7"
  using gauge_guards_count_live
    [of "[GuardNew 0, GuardNew 1, GuardDrop 0, GuardNew 2, GuardDrop 0]" 5 "{1, 2}" 7]
  by (simp add: gauge_guard_new_def gauge_guard_drop_def generic_gauge_inc_def generic_gauge_dec_def
      gauge_u64_defs insert_commute)

end
