(* ===== verification/RangeGaugeRace.thy ===== *)
theory RangeGaugeRace
  imports Gauges
begin

text \<open>
  \<open>RangeGauge\<close> under concurrency, \<open>foundations-metrics/src/metrics/gauge.rs\<close>: every operation is
  split at its atomic instructions, any number of threads interleave, and the mutex \<open>reset_cs\<close>
  admits one thread to \<open>get_values\<close> at a time. Instructions take effect in one global order.
  Integer arithmetic wraps as in a build without overflow checks; the flag \<open>rr_wrapped\<close>
  records that some increment or decrement went out of range.
\<close>

section \<open>States\<close>

text \<open>Where a thread is: before an operation, or between two of its instructions. The scraping
  positions carry the values already read: the current value, the minimum, the maximum and the
  fixup.\<close>

datatype range_pc =
    Ready
  | MaxPending u64
  | MinPending u64
  | SetMaxPending u64
  | ScrapeLocked
  | ScrapeSwapMin u64
  | ScrapeSwapMax u64 u64
  | ScrapeLoadFixup u64 u64 u64
  | ScrapeFixMin u64 u64 u64 u64
  | ScrapeFixMax u64 u64 u64 u64
  | ScrapeUnlock u64 u64 u64

record range_race =
  rr_state :: range_gauge
  rr_pc :: "nat \<Rightarrow> range_pc"
  rr_lock :: "nat option"
  rr_scrapes :: "(u64 \<times> u64 \<times> u64) list"
  rr_wrapped :: bool

definition at_pc :: "nat \<Rightarrow> range_pc \<Rightarrow> range_gauge \<Rightarrow> range_race \<Rightarrow> range_race" where
  "at_pc t pc g s = s\<lparr>rr_state := g, rr_pc := (rr_pc s)(t := pc)\<rparr>"

definition race_start :: "range_gauge \<Rightarrow> range_race" where
  "race_start g = \<lparr>rr_state = g, rr_pc = (\<lambda>_. Ready), rr_lock = None, rr_scrapes = [],
     rr_wrapped = False\<rparr>"

section \<open>Steps\<close>

text \<open>One atomic instruction of one thread.\<close>

inductive race_step :: "range_race \<Rightarrow> range_race \<Rightarrow> bool" where
  inc_by: "rr_pc s t = Ready \<Longrightarrow> gauge_u64_inc_by v (rg_gauge (rr_state s)) = (prev, g) \<Longrightarrow>
     race_step s (at_pc t (MaxPending (prev + v)) ((rr_state s)\<lparr>rg_gauge := g\<rparr>)
       (s\<lparr>rr_wrapped := rr_wrapped s \<or> 2 ^ 64 \<le> uint prev + uint v\<rparr>))"
| dec_by: "rr_pc s t = Ready \<Longrightarrow> gauge_u64_dec_by v (rg_gauge (rr_state s)) = (prev, g) \<Longrightarrow>
     race_step s (at_pc t (MinPending (prev - v)) ((rr_state s)\<lparr>rg_gauge := g\<rparr>)
       (s\<lparr>rr_wrapped := rr_wrapped s \<or> uint prev < uint v\<rparr>))"
| set: "rr_pc s t = Ready \<Longrightarrow> gauge_u64_set v (rg_gauge (rr_state s)) = (prev, g) \<Longrightarrow>
     race_step s (at_pc t (SetMaxPending v) ((rr_state s)\<lparr>rg_gauge := g\<rparr>) s)"
| max: "rr_pc s t = MaxPending v \<Longrightarrow>
     race_step s (at_pc t Ready (update_max v (rr_state s)) s)"
| min: "rr_pc s t = MinPending v \<Longrightarrow>
     race_step s (at_pc t Ready (update_min v (rr_state s)) s)"
| set_max: "rr_pc s t = SetMaxPending v \<Longrightarrow>
     race_step s (at_pc t (MinPending v) (update_max v (rr_state s)) s)"
| lock: "rr_pc s t = Ready \<Longrightarrow> rr_lock s = None \<Longrightarrow>
     race_step s (at_pc t ScrapeLocked (rr_state s) (s\<lparr>rr_lock := Some t\<rparr>))"
| load: "rr_pc s t = ScrapeLocked \<Longrightarrow>
     race_step s (at_pc t (ScrapeSwapMin (range_get (rr_state s))) (rr_state s) s)"
| swap_min: "rr_pc s t = ScrapeSwapMin c \<Longrightarrow>
     race_step s (at_pc t (ScrapeSwapMax c (min c (rg_min (rr_state s)))) ((rr_state s)\<lparr>rg_min := c\<rparr>) s)"
| swap_max: "rr_pc s t = ScrapeSwapMax c mn \<Longrightarrow>
     race_step s (at_pc t (ScrapeLoadFixup c mn (max c (rg_max (rr_state s))))
       ((rr_state s)\<lparr>rg_max := c\<rparr>) s)"
| load_fixup: "rr_pc s t = ScrapeLoadFixup c mn mx \<Longrightarrow>
     race_step s (at_pc t (ScrapeFixMin (range_get (rr_state s)) c mn mx) (rr_state s) s)"
| fix_min: "rr_pc s t = ScrapeFixMin f c mn mx \<Longrightarrow>
     race_step s (at_pc t (ScrapeFixMax f c mn mx) (update_min f (rr_state s)) s)"
| fix_max: "rr_pc s t = ScrapeFixMax f c mn mx \<Longrightarrow>
     race_step s (at_pc t (ScrapeUnlock c mn mx) (update_max f (rr_state s)) s)"
| unlock: "rr_pc s t = ScrapeUnlock c mn mx \<Longrightarrow>
     race_step s (at_pc t Ready (rr_state s)
       (s\<lparr>rr_lock := None, rr_scrapes := rr_scrapes s @ [(mn, c, mx)]\<rparr>))"

inductive race_reachable :: "range_gauge \<Rightarrow> range_race \<Rightarrow> bool" for g where
  start: "race_reachable g (race_start g)"
| step: "race_reachable g s \<Longrightarrow> race_step s s' \<Longrightarrow> race_reachable g s'"

inductive_cases race_stepE: "race_step s s'"

section \<open>The invariant\<close>

text \<open>A pending instruction of a thread at \<open>pc\<close> will raise the maximum to \<open>g\<close> or more; a scrape
  between its swap and its fixup load will read the value then current.\<close>

fun covers_max :: "u64 \<Rightarrow> range_pc \<Rightarrow> bool" where
  "covers_max g (MaxPending v) \<longleftrightarrow> g \<le> v"
| "covers_max g (SetMaxPending v) \<longleftrightarrow> g \<le> v"
| "covers_max g (ScrapeLoadFixup c mn mx) \<longleftrightarrow> True"
| "covers_max g (ScrapeFixMin f c mn mx) \<longleftrightarrow> g \<le> f"
| "covers_max g (ScrapeFixMax f c mn mx) \<longleftrightarrow> g \<le> f"
| "covers_max g _ \<longleftrightarrow> False"

fun covers_min :: "u64 \<Rightarrow> range_pc \<Rightarrow> bool" where
  "covers_min g (MinPending v) \<longleftrightarrow> v \<le> g"
| "covers_min g (SetMaxPending v) \<longleftrightarrow> v \<le> g"
| "covers_min g (ScrapeSwapMax c mn) \<longleftrightarrow> True"
| "covers_min g (ScrapeLoadFixup c mn mx) \<longleftrightarrow> True"
| "covers_min g (ScrapeFixMin f c mn mx) \<longleftrightarrow> f \<le> g"
| "covers_min g _ \<longleftrightarrow> False"

fun scraping :: "range_pc \<Rightarrow> bool" where
  "scraping Ready \<longleftrightarrow> False"
| "scraping (MaxPending v) \<longleftrightarrow> False"
| "scraping (MinPending v) \<longleftrightarrow> False"
| "scraping (SetMaxPending v) \<longleftrightarrow> False"
| "scraping _ \<longleftrightarrow> True"

fun pc_ordered :: "range_pc \<Rightarrow> bool" where
  "pc_ordered (ScrapeSwapMax c mn) \<longleftrightarrow> mn \<le> c"
| "pc_ordered (ScrapeLoadFixup c mn mx) \<longleftrightarrow> mn \<le> c \<and> c \<le> mx"
| "pc_ordered (ScrapeFixMin f c mn mx) \<longleftrightarrow> mn \<le> c \<and> c \<le> mx"
| "pc_ordered (ScrapeFixMax f c mn mx) \<longleftrightarrow> mn \<le> c \<and> c \<le> mx"
| "pc_ordered (ScrapeUnlock c mn mx) \<longleftrightarrow> mn \<le> c \<and> c \<le> mx"
| "pc_ordered _ \<longleftrightarrow> True"

definition max_inv :: "range_race \<Rightarrow> bool" where
  "max_inv s \<longleftrightarrow> rg_gauge (rr_state s) \<le> rg_max (rr_state s) \<or>
     (\<exists>t. covers_max (rg_gauge (rr_state s)) (rr_pc s t))"

definition min_inv :: "range_race \<Rightarrow> bool" where
  "min_inv s \<longleftrightarrow> rg_min (rr_state s) \<le> rg_gauge (rr_state s) \<or>
     (\<exists>t. covers_min (rg_gauge (rr_state s)) (rr_pc s t))"

definition lock_inv :: "range_race \<Rightarrow> bool" where
  "lock_inv s \<longleftrightarrow> (\<forall>t. scraping (rr_pc s t) \<longleftrightarrow> rr_lock s = Some t)"

definition ordered_inv :: "range_race \<Rightarrow> bool" where
  "ordered_inv s \<longleftrightarrow> (\<forall>t. pc_ordered (rr_pc s t)) \<and>
     (\<forall>(mn, c, mx)\<in>set (rr_scrapes s). mn \<le> c \<and> c \<le> mx)"

lemmas race_defs = at_pc_def update_max_def update_min_def gauge_u64_defs range_get_def

lemma ordered_inv_pc: "ordered_inv s \<Longrightarrow> rr_pc s t = pc \<Longrightarrow> pc_ordered pc"
  by (auto simp: ordered_inv_def)

lemma ordered_inv_at:
  "ordered_inv s \<Longrightarrow> pc_ordered pc \<Longrightarrow> ordered_inv (at_pc t pc g s)"
  by (simp add: ordered_inv_def at_pc_def)

lemma ordered_inv_update [simp]:
  "ordered_inv (s\<lparr>rr_lock := l\<rparr>) = ordered_inv s"
  "ordered_inv (s\<lparr>rr_wrapped := w\<rparr>) = ordered_inv s"
  "ordered_inv (s\<lparr>rr_lock := l, rr_scrapes := rr_scrapes s @ [(mn, c, mx)]\<rparr>) \<longleftrightarrow>
     ordered_inv s \<and> mn \<le> c \<and> c \<le> mx"
  by (auto simp: ordered_inv_def)

lemma ordered_inv_step [invariant_intros]:
  assumes "race_step s s'" "ordered_inv s"
  shows "ordered_inv s'"
  using assms
proof (cases rule: race_step.cases)
  case (unlock t c mn mx)
  moreover have "ordered_inv (s\<lparr>rr_lock := None, rr_scrapes := rr_scrapes s @ [(mn, c, mx)]\<rparr>)"
    using assms(2) ordered_inv_pc [OF assms(2) unlock(2)] by simp
  ultimately show ?thesis
    by (auto intro!: ordered_inv_at)
qed (use ordered_inv_pc [OF assms(2)] assms(2) in \<open>fastforce intro!: ordered_inv_at\<close>)+

lemma lock_inv_at:
  assumes "lock_inv s" "rr_pc s0 = rr_pc s" "scraping pc \<longleftrightarrow> rr_lock s0 = Some t"
    and "\<And>t'. t' \<noteq> t \<Longrightarrow> rr_lock s = Some t' \<longleftrightarrow> rr_lock s0 = Some t'"
  shows "lock_inv (at_pc t pc g s0)"
  using assms by (auto simp: lock_inv_def at_pc_def)

lemma lock_inv_pc: "lock_inv s \<Longrightarrow> rr_pc s t = pc \<Longrightarrow> scraping pc \<longleftrightarrow> rr_lock s = Some t"
  by (auto simp: lock_inv_def)

lemma lock_inv_step [invariant_intros]:
  assumes "race_step s s'" "lock_inv s"
  shows "lock_inv s'"
  using assms(1)
  by (rule race_stepE)
    (use lock_inv_pc [OF assms(2)] in \<open>fastforce intro!: lock_inv_at [OF assms(2)]\<close>)+

lemma covers_max_mono: "covers_max g pc \<Longrightarrow> g' \<le> g \<Longrightarrow> covers_max g' pc"
  by (cases pc) auto

lemma covers_min_mono: "covers_min g pc \<Longrightarrow> g \<le> g' \<Longrightarrow> covers_min g' pc"
  by (cases pc) auto

text \<open>A step keeps the bound if it establishes it, or if it moves the gauge away from the bound,
  does not weaken the bound and does not lose the cover its thread was.\<close>

lemma max_inv_at:
  assumes "max_inv s" "rr_pc s0 = rr_pc s"
    and "(rg_gauge g \<le> rg_max g \<or> covers_max (rg_gauge g) pc) \<or>
      (rg_gauge g \<le> rg_gauge (rr_state s) \<and> rg_max (rr_state s) \<le> rg_max g \<and>
       (covers_max (rg_gauge g) (rr_pc s t) \<longrightarrow> rg_gauge g \<le> rg_max g \<or> covers_max (rg_gauge g) pc))"
  shows "max_inv (at_pc t pc g s0)"
proof (cases "rg_gauge g \<le> rg_max g \<or> covers_max (rg_gauge g) pc")
  case True
  then show ?thesis by (auto simp: max_inv_def at_pc_def)
next
  case False
  with assms(3) have le: "rg_gauge g \<le> rg_gauge (rr_state s)" "rg_max (rr_state s) \<le> rg_max g"
    and n: "\<not> covers_max (rg_gauge g) (rr_pc s t)" by blast+
  then have "\<not> rg_gauge (rr_state s) \<le> rg_max (rr_state s)"
    using False by (meson order.trans)
  then obtain t' where t': "covers_max (rg_gauge (rr_state s)) (rr_pc s t')"
    using assms(1) by (auto simp: max_inv_def)
  then have "covers_max (rg_gauge g) (rr_pc s t')"
    using le(1) covers_max_mono by blast
  with n have "t' \<noteq> t" "covers_max (rg_gauge g) (rr_pc s t')" by auto
  then show ?thesis
    using assms(2) by (auto simp: max_inv_def at_pc_def)
qed

lemma min_inv_at:
  assumes "min_inv s" "rr_pc s0 = rr_pc s"
    and "(rg_min g \<le> rg_gauge g \<or> covers_min (rg_gauge g) pc) \<or>
      (rg_gauge (rr_state s) \<le> rg_gauge g \<and> rg_min g \<le> rg_min (rr_state s) \<and>
       (covers_min (rg_gauge g) (rr_pc s t) \<longrightarrow> rg_min g \<le> rg_gauge g \<or> covers_min (rg_gauge g) pc))"
  shows "min_inv (at_pc t pc g s0)"
proof (cases "rg_min g \<le> rg_gauge g \<or> covers_min (rg_gauge g) pc")
  case True
  then show ?thesis by (auto simp: min_inv_def at_pc_def)
next
  case False
  with assms(3) have le: "rg_gauge (rr_state s) \<le> rg_gauge g" "rg_min g \<le> rg_min (rr_state s)"
    and n: "\<not> covers_min (rg_gauge g) (rr_pc s t)" by blast+
  then have "\<not> rg_min (rr_state s) \<le> rg_gauge (rr_state s)"
    using False by (meson order.trans)
  then obtain t' where t': "covers_min (rg_gauge (rr_state s)) (rr_pc s t')"
    using assms(1) by (auto simp: min_inv_def)
  then have "covers_min (rg_gauge g) (rr_pc s t')"
    using le(1) covers_min_mono by blast
  with n have "t' \<noteq> t" "covers_min (rg_gauge g) (rr_pc s t')" by auto
  then show ?thesis
    using assms(2) by (auto simp: min_inv_def at_pc_def)
qed

lemma max_inv_step:
  assumes "race_step s s'" "max_inv s" "\<not> rr_wrapped s'"
  shows "max_inv s'"
  using assms(1)
proof (cases rule: race_step.cases)
  case (dec_by t v prev g)
  then have "prev - v \<le> prev"
    using assms(3) by (simp add: at_pc_def word_le_def uint_sub_fits)
  with dec_by show ?thesis
    by (auto intro!: max_inv_at [OF assms(2)] simp: gauge_u64_defs)
qed (auto intro!: max_inv_at [OF assms(2)] simp: update_max_def update_min_def gauge_u64_defs
    range_get_def max_def)

lemma min_inv_step:
  assumes "race_step s s'" "min_inv s" "\<not> rr_wrapped s'"
  shows "min_inv s'"
  using assms(1)
proof (cases rule: race_step.cases)
  case (inc_by t v prev g)
  then have "prev \<le> prev + v"
    using assms(3) by (simp add: at_pc_def word_le_def uint_add_fits not_le)
  with inc_by show ?thesis
    by (auto intro!: min_inv_at [OF assms(2)] simp: gauge_u64_defs)
qed (auto intro!: min_inv_at [OF assms(2)] simp: update_max_def update_min_def gauge_u64_defs
    range_get_def min_def)

lemma race_step_wrapped: "race_step s s' \<Longrightarrow> rr_wrapped s \<Longrightarrow> rr_wrapped s'"
  by (erule race_stepE) (auto simp: at_pc_def)

lemma race_reachable_bounds:
  "race_reachable g s \<Longrightarrow> rg_min g \<le> rg_gauge g \<Longrightarrow> rg_gauge g \<le> rg_max g \<Longrightarrow> \<not> rr_wrapped s \<Longrightarrow>
     max_inv s \<and> min_inv s"
proof (induction rule: race_reachable.induct)
  case start
  then show ?case by (simp add: max_inv_def min_inv_def race_start_def)
next
  case (step s s')
  then show ?case
    using race_step_wrapped max_inv_step min_inv_step by blast
qed

lemma race_reachable_locked: "race_reachable g s \<Longrightarrow> lock_inv s \<and> ordered_inv s"
proof (induction rule: race_reachable.induct)
  case start
  then show ?case by (simp add: lock_inv_def ordered_inv_def race_start_def)
qed (auto intro: invariant_intros)

section \<open>Properties\<close>

text \<open>C7: Under any interleaving of increments, decrements, sets and scrapes by any number of
  threads: every scrape that completed returned \<open>min <= current <= max\<close>; at most one thread is
  inside \<open>get_values\<close>; and whenever no operation is in flight and no arithmetic has left the
  range of \<open>u64\<close>, the stored extremes bracket the gauge, although a scrape resets them while
  updates are between their two instructions.\<close>

theorem range_gauge_race:
  assumes "race_reachable g s" "rg_min g \<le> rg_gauge g" "rg_gauge g \<le> rg_max g"
  shows "(\<forall>(mn, c, mx)\<in>set (rr_scrapes s). mn \<le> c \<and> c \<le> mx) \<and>
    (\<forall>t t'. scraping (rr_pc s t) \<longrightarrow> scraping (rr_pc s t') \<longrightarrow> t = t') \<and>
    (\<not> rr_wrapped s \<longrightarrow> (\<forall>t. rr_pc s t = Ready) \<longrightarrow>
       rg_min (rr_state s) \<le> rg_gauge (rr_state s) \<and> rg_gauge (rr_state s) \<le> rg_max (rr_state s))"
proof (intro conjI impI allI)
  show "\<forall>(mn, c, mx)\<in>set (rr_scrapes s). mn \<le> c \<and> c \<le> mx"
    using race_reachable_locked [OF assms(1)] by (simp add: ordered_inv_def)
next
  fix t t'
  assume "scraping (rr_pc s t)" "scraping (rr_pc s t')"
  then show "t = t'"
    using race_reachable_locked [OF assms(1)] by (simp add: lock_inv_def)
next
  assume w: "\<not> rr_wrapped s" and q: "\<forall>t. rr_pc s t = Ready"
  show "rg_min (rr_state s) \<le> rg_gauge (rr_state s)" "rg_gauge (rr_state s) \<le> rg_max (rr_state s)"
    using race_reachable_bounds [OF assms w] q by (auto simp: max_inv_def min_inv_def)
qed

definition raced_state :: range_race where
  "raced_state = \<lparr>rr_state = \<lparr>rg_gauge = 3, rg_min = 0, rg_max = 3\<rparr>, rr_pc = (\<lambda>_. Ready),
     rr_lock = None, rr_scrapes = [], rr_wrapped = False\<rparr>"

lemma raced_state_reachable: "race_reachable range_gauge_default raced_state"
proof -
  let ?s1 = "\<lparr>rr_state = \<lparr>rg_gauge = 3, rg_min = 0, rg_max = 0\<rparr>, rr_pc = (\<lambda>_. Ready)(1 := MaxPending 3),
     rr_lock = None, rr_scrapes = [], rr_wrapped = False\<rparr>"
  have "race_step (race_start range_gauge_default) ?s1"
    using race_step.inc_by [of "race_start range_gauge_default" 1 3 0 3]
    by (simp add: race_start_def range_gauge_default_def at_pc_def gauge_u64_defs)
  moreover have "race_step ?s1 raced_state"
    using race_step.max [of ?s1 1 3] by (simp add: at_pc_def update_max_def raced_state_def fun_upd_idem)
  ultimately show ?thesis
    by (meson race_reachable.intros)
qed

theorem range_gauge_race_witness:
  "rg_min (rr_state raced_state) \<le> rg_gauge (rr_state raced_state) \<and>
   rg_gauge (rr_state raced_state) \<le> rg_max (rr_state raced_state) \<and> rg_gauge (rr_state raced_state) = 3"
  using range_gauge_race [OF raced_state_reachable]
  by (simp add: range_gauge_default_def) (simp add: raced_state_def)

end
