(* ===== verification/Histograms.thy ===== *)
theory Histograms
  imports Counters "HOL-Library.Multiset"
begin

text \<open>
  Classic histograms, \<open>foundations-metrics/src/metrics/histogram.rs\<close>. \<open>Histogram\<close> keeps its
  state behind a mutex, so an observation is one step; its bucket is found by the standard
  library's \<open>partition_point\<close>, a binary search that is modelled as its loop. The specification
  of a bucket is the number of observations between two bounds; of an encoded bucket, the
  number of observations up to its bound.
\<close>

section \<open>partition\_point\<close>

text \<open>The loop of \<open>binary_search_by\<close> with \<open>pred\<close> as \<open>Less\<close>/\<open>Greater\<close>.\<close>

function partition_loop :: "('a \<Rightarrow> bool) \<Rightarrow> 'a list \<Rightarrow> nat \<Rightarrow> nat \<Rightarrow> nat" where
  "partition_loop P xs base sz =
     (if 1 < sz
      then let half = sz div 2; mid = base + half
           in partition_loop P xs (if P (xs ! mid) then mid else base) (sz - half)
      else base + (if P (xs ! base) then 1 else 0))"
  by pat_completeness auto
termination
  by (relation "measure (\<lambda>(P, xs, base, sz). sz)") auto

declare partition_loop.simps [simp del]

definition partition_point :: "('a \<Rightarrow> bool) \<Rightarrow> 'a list \<Rightarrow> nat" where
  "partition_point P xs = (if xs = [] then 0 else partition_loop P xs 0 (length xs))"

definition partitioned :: "('a \<Rightarrow> bool) \<Rightarrow> 'a list \<Rightarrow> bool" where
  "partitioned P xs \<longleftrightarrow> (\<forall>i j. i \<le> j \<longrightarrow> j < length xs \<longrightarrow> P (xs ! j) \<longrightarrow> P (xs ! i))"

lemma partitionedD: "partitioned P xs \<Longrightarrow> i \<le> j \<Longrightarrow> j < length xs \<Longrightarrow> P (xs ! j) \<Longrightarrow> P (xs ! i)"
  by (auto simp: partitioned_def)

lemma partition_loop_correct:
  assumes "partitioned P xs" "0 < sz" "base + sz \<le> length xs"
    "\<forall>i<base. P (xs ! i)" "\<forall>i. base + sz \<le> i \<longrightarrow> i < length xs \<longrightarrow> \<not> P (xs ! i)"
  shows "partition_loop P xs base sz = length (takeWhile P xs)"
  using assms
proof (induction P xs base sz rule: partition_loop.induct)
  case (1 P xs base sz)
  note part = partitionedD [OF "1.prems"(1)]
  show ?case
  proof (cases "1 < sz")
    case False
    with "1.prems" have sz: "sz = 1" by simp
    let ?k = "base + (if P (xs ! base) then 1 else 0)"
    have "length (takeWhile P xs) = ?k"
    proof (rule length_takeWhile_sorted_split)
      show "\<And>i j. i \<le> j \<Longrightarrow> j < length xs \<Longrightarrow> P (xs ! j) \<Longrightarrow> P (xs ! i)"
        by (rule part)
      show "\<forall>i. ?k \<le> i \<longrightarrow> i < length xs \<longrightarrow> \<not> P (xs ! i)"
      proof (intro allI impI)
        fix i assume "?k \<le> i" "i < length xs"
        then show "\<not> P (xs ! i)"
          using part [of base i] "1.prems"(5) sz by (cases "P (xs ! base)") auto
      qed
    qed (use "1.prems" sz in \<open>auto simp: less_Suc_eq\<close>)
    with False show ?thesis
      by (subst partition_loop.simps) simp
  next
    case True
    define half where "half = sz div 2"
    have half: "0 < half" "half < sz" "half \<le> sz - half"
      using True by (auto simp: half_def)
    have mid: "base + half < length xs"
      using half "1.prems"(3) by simp
    let ?base = "if P (xs ! (base + half)) then base + half else base"
    have lo: "\<forall>i<?base. P (xs ! i)"
      using part [of _ "base + half"] mid "1.prems"(4) by auto
    have hi: "\<forall>i. ?base + (sz - half) \<le> i \<longrightarrow> i < length xs \<longrightarrow> \<not> P (xs ! i)"
    proof (intro allI impI)
      fix i assume i: "?base + (sz - half) \<le> i" "i < length xs"
      show "\<not> P (xs ! i)"
      proof (cases "P (xs ! (base + half))")
        case True
        then show ?thesis using i half "1.prems"(5) by simp
      next
        case False
        then have "base + half \<le> i" using i half by simp
        then show ?thesis using False i part [of "base + half" i] by blast
      qed
    qed
    have "partition_loop P xs ?base (sz - half) = length (takeWhile P xs)"
    proof (rule "1.IH" [OF True half_def refl "1.prems"(1) _ _ lo hi])
      show "0 < sz - half"
        using half by simp
      show "?base + (sz - half) \<le> length xs"
        using half "1.prems"(3) by (cases "P (xs ! (base + half))") simp_all
    qed
    then show ?thesis
      by (subst partition_loop.simps) (simp only: Let_def half_def [symmetric] True if_True)
  qed
qed

lemma partition_point_correct:
  "partitioned P xs \<Longrightarrow> partition_point P xs = length (takeWhile P xs)"
  using partition_loop_correct [of P xs "length xs" 0] by (cases xs) (simp_all add: partition_point_def)

section \<open>Histogram\<close>

record histogram_state =
  hs_sum :: f64
  hs_count :: u64
  hs_buckets :: "(f64 \<times> u64) list"

record histogram_snapshot =
  hp_sum :: f64
  hp_count :: u64
  hp_buckets :: "(f64 \<times> u64) list"

text \<open>\<open>sort_by\<close> with \<open>total_cmp\<close> is the library's stable sort under the order of \<^typ>\<open>f64\<close>.\<close>

definition histogram_new :: "f64 list \<Rightarrow> histogram_state" where
  "histogram_new bounds =
     \<lparr>hs_sum = f64_zero, hs_count = 0,
      hs_buckets = sort_key fst (map (\<lambda>bound. (bound, 0)) bounds @ [(f64_max, 0)])\<rparr>"

definition observe_and_bucket :: "f64 \<Rightarrow> histogram_state \<Rightarrow> nat option \<times> histogram_state" where
  "observe_and_bucket v s =
     (let s = s\<lparr>hs_sum := f64_add (hs_sum s) v, hs_count := hs_count s + 1\<rparr>
      in if is_nan v then (None, s)
         else let index = partition_point (\<lambda>(upper_bound, n). f64_lt upper_bound v) (hs_buckets s)
              in if index < length (hs_buckets s)
                 then (Some index,
                       s\<lparr>hs_buckets := (hs_buckets s)[index :=
                         (fst (hs_buckets s ! index), snd (hs_buckets s ! index) + 1)]\<rparr>)
                 else (None, s))"

definition observe :: "f64 \<Rightarrow> histogram_state \<Rightarrow> histogram_state" where
  "observe v s = snd (observe_and_bucket v s)"

definition snapshot :: "histogram_state \<Rightarrow> histogram_snapshot" where
  "snapshot s = \<lparr>hp_sum = hs_sum s, hp_count = hs_count s, hp_buckets = hs_buckets s\<rparr>"

text \<open>The closure of the bucket iterator carries \<open>cumulative_count\<close>.\<close>

fun encode_buckets :: "u64 \<Rightarrow> (f64 \<times> u64) list \<Rightarrow> bucket list" where
  "encode_buckets cumulative_count [] = []"
| "encode_buckets cumulative_count ((upper_bound, n) # bs) =
     (let cumulative_count = cumulative_count + n
      in bucket_default\<lparr>b_cumulative_count := Some cumulative_count, b_upper_bound := Some upper_bound\<rparr>
         # encode_buckets cumulative_count bs)"

definition encode_snapshot :: "histogram_snapshot \<Rightarrow> metric_family list" where
  "encode_snapshot hp =
     [\<lparr>f_name = Some [], f_help = None, f_type = Some (metric_type_to_i32 Histogram),
       f_metric = [metric_default\<lparr>m_histogram := Some (histogram_default\<lparr>
         h_sample_count := Some (hp_count hp), h_sample_sum := Some (hp_sum hp),
         h_bucket := encode_buckets 0 (hp_buckets hp)\<rparr>)\<rparr>],
       f_unit = None\<rparr>]"

definition histogram_encode_metric_value :: "histogram_state \<Rightarrow> metric_family list \<times> event list" where
  "histogram_encode_metric_value s = (encode_snapshot (snapshot s), [])"

text \<open>\<open>HistogramBuilder\<close>, the constructor of a family's histograms.\<close>

record histogram_builder =
  hb_buckets :: "f64 list"

definition builder_new_metric :: "histogram_builder \<Rightarrow> histogram_state" where
  "builder_new_metric b = histogram_new (hb_buckets b)"

lemma encode_buckets_exemplar: "b \<in> set (encode_buckets c bs) \<Longrightarrow> b_exemplar b = None"
  by (induction c bs rule: encode_buckets.induct) (auto simp: Let_def bucket_default_def)

lemma encode_snapshot_valid:
  "f \<in> set (encode_snapshot hp) \<Longrightarrow> relative_name f \<and> rows_are_valid (f_metric f) (family_type f)"
  by (auto simp: encode_snapshot_def relative_name_def rows_are_valid_alt row_ok_iff labels_ok_def
      exemplars_are_valid_def metric_default_def histogram_default_def dest!: encode_buckets_exemplar)

interpretation histogram_value: valid_metric_value histogram_encode_metric_value
  by unfold_locales (auto simp: histogram_encode_metric_value_def dest: encode_snapshot_valid)

section \<open>Where an observation lands\<close>

definition bounds_of :: "(f64 \<times> u64) list \<Rightarrow> f64 list" where
  "bounds_of buckets = map fst buckets"

text \<open>The bounds are sorted and none is a NaN.\<close>

definition good_bounds :: "f64 list \<Rightarrow> bool" where
  "good_bounds bs \<longleftrightarrow> sorted bs \<and> (\<forall>b\<in>set bs. \<not> is_nan b)"

definition bucket_of :: "f64 list \<Rightarrow> f64 \<Rightarrow> nat" where
  "bucket_of bs v = length (takeWhile (\<lambda>b. f64_lt b v) bs)"

lemma good_bounds_partitioned: "good_bounds bs \<Longrightarrow> partitioned (\<lambda>b. f64_lt b v) bs"
  unfolding partitioned_def good_bounds_def
  by (metis f64_lt_le_trans le_less_trans nth_mem sorted_nth_mono)

lemma partition_point_bounds:
  assumes "good_bounds (bounds_of buckets)"
  shows "partition_point (\<lambda>(upper_bound, n). f64_lt upper_bound v) buckets = bucket_of (bounds_of buckets) v"
proof -
  have "partitioned (\<lambda>(upper_bound, n). f64_lt upper_bound v) buckets"
    using good_bounds_partitioned [OF assms, of v]
    by (simp add: partitioned_def bounds_of_def case_prod_beta)
  then show ?thesis
    by (simp add: partition_point_correct bucket_of_def bounds_of_def takeWhile_map o_def split_def)
qed

lemma bucket_of_le_iff:
  assumes "good_bounds bs" "i < length bs" "\<not> is_nan v"
  shows "bucket_of bs v \<le> i \<longleftrightarrow> f64_ge (bs ! i) v"
proof -
  have nn: "\<not> is_nan (bs ! i)"
    using assms(1,2) by (auto simp: good_bounds_def)
  have "bucket_of bs v \<le> i \<longleftrightarrow> \<not> f64_lt (bs ! i) v"
  proof
    assume "bucket_of bs v \<le> i"
    then have k: "bucket_of bs v < length bs"
      using assms(2) by simp
    then have "\<not> f64_lt (bs ! bucket_of bs v) v"
      unfolding bucket_of_def using nth_length_takeWhile by blast
    then show "\<not> f64_lt (bs ! i) v"
      using partitionedD [OF good_bounds_partitioned [OF assms(1)], of "bucket_of bs v" i v]
        \<open>bucket_of bs v \<le> i\<close> assms(2) by blast
  next
    assume "\<not> f64_lt (bs ! i) v"
    then show "bucket_of bs v \<le> i"
      unfolding bucket_of_def
      by (metis assms(2) leI length_takeWhile_le nth_mem set_takeWhileD takeWhile_nth)
  qed
  then show ?thesis
    using f64_not_lt_iff_ge [OF nn assms(3)] by simp
qed

section \<open>A run of observations\<close>

definition observe_all :: "f64 list \<Rightarrow> histogram_state \<Rightarrow> histogram_state" where
  "observe_all vs s = fold observe vs s"

text \<open>The observations in a bucket, and those up to its bound.\<close>

definition lands_in :: "f64 list \<Rightarrow> nat \<Rightarrow> f64 \<Rightarrow> bool" where
  "lands_in bs i v \<longleftrightarrow> \<not> is_nan v \<and> bucket_of bs v = i"

definition up_to :: "f64 \<Rightarrow> f64 list \<Rightarrow> f64 list" where
  "up_to b vs = filter (\<lambda>v. f64_ge b v) vs"

definition counted_state :: "histogram_state \<Rightarrow> f64 list \<Rightarrow> histogram_state \<Rightarrow> bool" where
  "counted_state s0 vs s \<longleftrightarrow>
     hs_sum s = foldl f64_add (hs_sum s0) vs \<and>
     hs_count s = hs_count s0 + word_of_nat (length vs) \<and>
     bounds_of (hs_buckets s) = bounds_of (hs_buckets s0) \<and>
     (\<forall>i<length (hs_buckets s0). snd (hs_buckets s ! i) = snd (hs_buckets s0 ! i) +
        word_of_nat (length (filter (lands_in (bounds_of (hs_buckets s0)) i) vs)))"

lemma bounds_of_length: "length (bounds_of bs) = length bs"
  by (simp add: bounds_of_def)

lemma observe_effect:
  assumes "good_bounds (bounds_of (hs_buckets s))"
  shows "hs_sum (observe v s) = f64_add (hs_sum s) v"
    and "hs_count (observe v s) = hs_count s + 1"
    and "bounds_of (hs_buckets (observe v s)) = bounds_of (hs_buckets s)"
    and "i < length (hs_buckets s) \<Longrightarrow> snd (hs_buckets (observe v s) ! i) =
       snd (hs_buckets s ! i) + (if lands_in (bounds_of (hs_buckets s)) i v then 1 else 0)"
proof -
  show "hs_sum (observe v s) = f64_add (hs_sum s) v" "hs_count (observe v s) = hs_count s + 1"
    by (simp_all add: observe_def observe_and_bucket_def Let_def)
  show "bounds_of (hs_buckets (observe v s)) = bounds_of (hs_buckets s)"
    by (auto simp: observe_def observe_and_bucket_def Let_def bounds_of_def map_update
        intro!: list_update_same_conv [THEN iffD2])
  show "snd (hs_buckets (observe v s) ! i) =
       snd (hs_buckets s ! i) + (if lands_in (bounds_of (hs_buckets s)) i v then 1 else 0)"
    if "i < length (hs_buckets s)"
    using that partition_point_bounds [OF assms, of v]
    by (auto simp: observe_def observe_and_bucket_def Let_def lands_in_def nth_list_update)
qed

lemma observe_all_counted:
  "good_bounds (bounds_of (hs_buckets s0)) \<Longrightarrow> counted_state s0 vs (observe_all vs s0)"
proof (induction vs rule: rev_induct)
  case Nil
  then show ?case by (simp add: observe_all_def counted_state_def)
next
  case (snoc v vs)
  let ?s = "observe_all vs s0"
  have c: "counted_state s0 vs ?s"
    using snoc by simp
  then have b: "bounds_of (hs_buckets ?s) = bounds_of (hs_buckets s0)"
    by (simp add: counted_state_def)
  then have len: "length (hs_buckets ?s) = length (hs_buckets s0)"
    by (metis bounds_of_length)
  have good: "good_bounds (bounds_of (hs_buckets ?s))"
    using b snoc.prems by simp
  have step: "observe_all (vs @ [v]) s0 = observe v ?s"
    by (simp add: observe_all_def)
  show ?case
    using c observe_effect [OF good, where v = v] by (simp add: step counted_state_def b len)
qed

lemma new_fields [simp]: "hs_sum (histogram_new bs) = f64_zero" "hs_count (histogram_new bs) = 0"
  by (simp_all add: histogram_new_def)

lemma new_bounds_good:
  "\<forall>b\<in>set bs. \<not> is_nan b \<Longrightarrow> good_bounds (bounds_of (hs_buckets (histogram_new bs)))"
  by (auto simp: good_bounds_def bounds_of_def histogram_new_def)

lemma new_bounds:
  "bounds_of (hs_buckets (histogram_new bs)) = sort (bs @ [f64_max])"
  by (rule properties_for_sort [symmetric]) (simp_all add: bounds_of_def histogram_new_def image_mset.compositionality o_def)

lemma new_buckets_zero: "b \<in> set (hs_buckets (histogram_new bs)) \<Longrightarrow> snd b = 0"
  by (auto simp: histogram_new_def)

section \<open>What a snapshot encodes\<close>

lemma encode_buckets_nth:
  "i < length bs \<Longrightarrow> encode_buckets c bs ! i =
     bucket_default\<lparr>b_cumulative_count := Some (c + sum_list (map snd (take (Suc i) bs))),
       b_upper_bound := Some (fst (bs ! i))\<rparr>"
proof (induction c bs arbitrary: i rule: encode_buckets.induct)
  case (2 c b n bs)
  then show ?case by (cases i) (simp_all add: Let_def ac_simps)
qed simp

lemma encode_buckets_length [simp]: "length (encode_buckets c bs) = length bs"
  by (induction c bs rule: encode_buckets.induct) (simp_all add: Let_def)

lemma lands_below_Suc:
  "length (filter (\<lambda>v. \<not> is_nan v \<and> bucket_of bs v < Suc k) vs) =
     length (filter (\<lambda>v. \<not> is_nan v \<and> bucket_of bs v < k) vs) + length (filter (lands_in bs k) vs)"
  by (induction vs) (auto simp: lands_in_def)

text \<open>Buckets that count where the observations \<open>xs\<close> land.\<close>

definition landed :: "f64 list \<Rightarrow> f64 list \<Rightarrow> (f64 \<times> u64) list \<Rightarrow> bool" where
  "landed bs xs buckets \<longleftrightarrow> bounds_of buckets = bs \<and>
     (\<forall>i<length bs. snd (buckets ! i) = word_of_nat (length (filter (lands_in bs i) xs)))"

lemma landed_length: "landed bs xs buckets \<Longrightarrow> length buckets = length bs"
  by (auto simp: landed_def bounds_of_length)

lemma landed_prefix:
  "landed bs xs buckets \<Longrightarrow> k \<le> length bs \<Longrightarrow>
     sum_list (map snd (take k buckets)) =
       word_of_nat (length (filter (\<lambda>v. \<not> is_nan v \<and> bucket_of bs v < k) xs))"
proof (induction k)
  case (Suc k)
  then show ?case
    using landed_length [OF Suc.prems(1)]
    by (simp add: take_Suc_conv_app_nth lands_below_Suc) (simp add: landed_def)
qed simp

lemma up_to_bucket:
  assumes "good_bounds bs" "i < length bs"
  shows "filter (\<lambda>v. \<not> is_nan v \<and> bucket_of bs v < Suc i) vs = up_to (bs ! i) vs"
  unfolding up_to_def
proof (rule filter_cong [OF refl])
  fix v
  have "is_nan v \<Longrightarrow> \<not> f64_ge (bs ! i) v"
    by (simp add: f64_ge_def)
  then show "(\<not> is_nan v \<and> bucket_of bs v < Suc i) = f64_ge (bs ! i) v"
    using bucket_of_le_iff [OF assms, of v] by (auto simp: less_Suc_eq_le)
qed

lemma encode_landed:
  assumes "good_bounds bs" "landed bs xs buckets"
  shows "encode_buckets 0 buckets =
    map (\<lambda>b. bucket_default\<lparr>b_cumulative_count := Some (word_of_nat (length (up_to b xs))),
                             b_upper_bound := Some b\<rparr>) bs"
proof (rule nth_equalityI)
  show "length (encode_buckets 0 buckets) = length (map (\<lambda>b. bucket_default\<lparr>
      b_cumulative_count := Some (word_of_nat (length (up_to b xs))), b_upper_bound := Some b\<rparr>) bs)"
    using landed_length [OF assms(2)] by simp
  fix i assume "i < length (encode_buckets 0 buckets)"
  then have i: "i < length buckets" "i < length bs"
    using landed_length [OF assms(2)] by simp_all
  have "sum_list (map snd (take (Suc i) buckets)) = word_of_nat (length (up_to (bs ! i) xs))"
    using landed_prefix [OF assms(2), of "Suc i"] i up_to_bucket [OF assms(1) i(2), of xs] by simp
  moreover have "fst (buckets ! i) = bs ! i"
    using assms(2) i by (metis bounds_of_def landed_def nth_map)
  ultimately show "encode_buckets 0 buckets ! i = map (\<lambda>b. bucket_default\<lparr>
      b_cumulative_count := Some (word_of_nat (length (up_to b xs))), b_upper_bound := Some b\<rparr>) bs ! i"
    using i by (simp add: encode_buckets_nth)
qed

lemma observed_landed:
  assumes "\<forall>b\<in>set bs. \<not> is_nan b"
  shows "landed (sort (bs @ [f64_max])) vs (hs_buckets (observe_all vs (histogram_new bs)))"
proof -
  have c: "counted_state (histogram_new bs) vs (observe_all vs (histogram_new bs))"
    by (rule observe_all_counted [OF new_bounds_good [OF assms]])
  have "snd (hs_buckets (histogram_new bs) ! i) = 0" if "i < length (sort (bs @ [f64_max]))" for i
    using that by (intro new_buckets_zero [of _ bs] nth_mem) (simp add: histogram_new_def)
  with c show ?thesis
    by (simp add: landed_def counted_state_def new_bounds) (simp add: histogram_new_def)
qed

lemma sorted_bounds_good: "\<forall>b\<in>set bs. \<not> is_nan b \<Longrightarrow> good_bounds (sort (bs @ [f64_max]))"
  by (auto simp: good_bounds_def)

lemma below_infinity: "\<not> is_nan b \<Longrightarrow> f64_lt b f64_infinity \<longleftrightarrow> b \<noteq> f64_infinity"
  using f64_mag_bounds [of b]
  by (auto simp: f64_lt_def f64_ord_def is_nan_def f64_eq_iff_fields)

lemma bucket_of_in_range:
  "bucket_of bs v < length bs \<longleftrightarrow> (\<exists>b\<in>set bs. \<not> f64_lt b v)"
  by (induction bs) (auto simp: bucket_of_def)

lemma histogram_exports:
  assumes "\<forall>b\<in>set bs. \<not> is_nan b"
  shows "histogram_encode_metric_value (observe_all vs (histogram_new bs)) =
    ([\<lparr>f_name = Some [], f_help = None, f_type = Some (metric_type_to_i32 Histogram),
       f_metric = [metric_default\<lparr>m_histogram := Some (histogram_default\<lparr>
         h_sample_count := Some (word_of_nat (length vs)),
         h_sample_sum := Some (foldl f64_add f64_zero vs),
         h_bucket := map (\<lambda>b. bucket_default\<lparr>
             b_cumulative_count := Some (word_of_nat (length (filter (\<lambda>v. f64_ge b v) vs))),
             b_upper_bound := Some b\<rparr>) (sort (bs @ [f64_max]))\<rparr>)\<rparr>],
       f_unit = None\<rparr>], [])"
proof -
  have "counted_state (histogram_new bs) vs (observe_all vs (histogram_new bs))"
    by (rule observe_all_counted [OF new_bounds_good [OF assms]])
  then show ?thesis
    by (simp add: histogram_encode_metric_value_def encode_snapshot_def snapshot_def
        encode_landed [OF sorted_bounds_good [OF assms] observed_landed [OF assms]]
        up_to_def counted_state_def)
qed

lemma bucket_of_first:
  assumes "good_bounds bs" "i < length bs" "\<not> is_nan v"
  shows "bucket_of bs v = i \<longleftrightarrow> f64_ge (bs ! i) v \<and> (\<forall>j<i. f64_lt (bs ! j) v)"
proof
  assume i: "bucket_of bs v = i"
  have "f64_lt (bs ! j) v" if "j < i" for j
  proof -
    have "j < length (takeWhile (\<lambda>b. f64_lt b v) bs)"
      using that i by (simp add: bucket_of_def)
    then show ?thesis
      by (metis nth_mem set_takeWhileD takeWhile_nth)
  qed
  then show "f64_ge (bs ! i) v \<and> (\<forall>j<i. f64_lt (bs ! j) v)"
    using bucket_of_le_iff [OF assms] i by simp
next
  assume i: "f64_ge (bs ! i) v \<and> (\<forall>j<i. f64_lt (bs ! j) v)"
  have "\<not> bucket_of bs v < i"
  proof
    assume "bucket_of bs v < i"
    then have "f64_lt (bs ! bucket_of bs v) v" "bucket_of bs v < length bs"
      using i assms(2) by auto
    then show False
      unfolding bucket_of_def using nth_length_takeWhile by blast
  qed
  then show "bucket_of bs v = i"
    using bucket_of_le_iff [OF assms] i by simp
qed

lemma observed_bucket:
  assumes "\<forall>b\<in>set bs. \<not> is_nan b"
  shows "fst (observe_and_bucket v (observe_all vs (histogram_new bs))) =
    (if is_nan v \<or> \<not> bucket_of (sort (bs @ [f64_max])) v < Suc (length bs) then None
     else Some (bucket_of (sort (bs @ [f64_max])) v))"
proof -
  let ?s = "observe_all vs (histogram_new bs)"
  have good: "good_bounds (bounds_of (hs_buckets (histogram_new bs)))"
    by (rule new_bounds_good [OF assms])
  have b: "bounds_of (hs_buckets ?s) = sort (bs @ [f64_max])"
    using observe_all_counted [OF good, of vs] by (simp add: counted_state_def new_bounds)
  have "partition_point (\<lambda>(upper_bound, n). f64_lt upper_bound v) (hs_buckets ?s) =
      bucket_of (sort (bs @ [f64_max])) v"
    using partition_point_bounds [of "hs_buckets ?s" v] good b by (simp add: new_bounds)
  moreover have "length (hs_buckets ?s) = Suc (length bs)"
    using b by (metis bounds_of_length length_append_singleton length_sort)
  ultimately show ?thesis
    by (simp add: observe_and_bucket_def Let_def)
qed

section \<open>Properties\<close>

text \<open>An observation enters exactly the bucket the binary search is for: after any earlier
  observations, \<open>observe_and_bucket\<close> returns index \<open>i\<close> if and only if the observation is not a NaN,
  the \<open>i\<close>-th sorted bound (with \<open>f64::MAX\<close> appended) is not below it and every earlier bound is.\<close>

theorem observe_finds_first_bucket:
  assumes "\<forall>b\<in>set bs. \<not> is_nan b"
  shows "fst (observe_and_bucket v (observe_all vs (histogram_new bs))) = Some i \<longleftrightarrow>
    \<not> is_nan v \<and> i < Suc (length bs) \<and> f64_ge (sort (bs @ [f64_max]) ! i) v \<and>
    (\<forall>j<i. f64_lt (sort (bs @ [f64_max]) ! j) v)"
proof (cases "is_nan v \<or> Suc (length bs) \<le> i")
  case True
  then show ?thesis
    by (auto simp: observed_bucket [OF assms])
next
  case False
  then have "bucket_of (sort (bs @ [f64_max])) v = i \<longleftrightarrow>
      f64_ge (sort (bs @ [f64_max]) ! i) v \<and> (\<forall>j<i. f64_lt (sort (bs @ [f64_max]) ! j) v)"
    by (intro bucket_of_first sorted_bounds_good assms) simp_all
  with False show ?thesis
    by (auto simp: observed_bucket [OF assms])
qed

theorem observe_finds_first_bucket_witness:
  "fst (observe_and_bucket f64_one (observe_all [f64_zero] (histogram_new [f64_one, f64_zero]))) = Some 1"
proof -
  have "sort [f64_one, f64_zero, f64_max] = [f64_zero, f64_one, f64_max]"
    by (simp add: less_eq_f64_def total_key_def)
  then show ?thesis
    using observe_finds_first_bucket [of "[f64_one, f64_zero]" f64_one "[f64_zero]" 1]
    by (simp add: f64_ge_def f64_lt_def f64_ord_def)
qed

text \<open>What a histogram exports after any sequence of observations: the count of all of them,
  their sum in order, and one bucket per configured bound (given in any order) and for the
  terminal \<open>f64::MAX\<close>, in ascending order, whose cumulative count is the number of
  observations less than or equal to its bound; a NaN is counted and summed but in no bucket.\<close>

theorem histogram_exports_counts:
  assumes "\<forall>b\<in>set bs. \<not> is_nan b"
  shows "histogram_encode_metric_value (observe_all vs (histogram_new bs)) =
    ([\<lparr>f_name = Some [], f_help = None, f_type = Some (metric_type_to_i32 Histogram),
       f_metric = [metric_default\<lparr>m_histogram := Some (histogram_default\<lparr>
         h_sample_count := Some (word_of_nat (length vs)),
         h_sample_sum := Some (foldl f64_add f64_zero vs),
         h_bucket := map (\<lambda>b. bucket_default\<lparr>
             b_cumulative_count := Some (word_of_nat (length (filter (\<lambda>v. f64_ge b v) vs))),
             b_upper_bound := Some b\<rparr>) (sort (bs @ [f64_max]))\<rparr>)\<rparr>],
       f_unit = None\<rparr>], [])"
  using assms by (rule histogram_exports)

theorem histogram_exports_counts_witness:
  "h_bucket (the (m_histogram (f_metric (fst (histogram_encode_metric_value
      (observe_all [f64_one, f64_zero, f64_nan, f64_infinity] (histogram_new [f64_one]))) ! 0) ! 0))) =
   [bucket_default\<lparr>b_cumulative_count := Some 2, b_upper_bound := Some f64_one\<rparr>,
    bucket_default\<lparr>b_cumulative_count := Some 2, b_upper_bound := Some f64_max\<rparr>]"
proof -
  have le: "f64_one \<le> f64_max"
    by (simp add: less_eq_f64_def total_key_def)
  show ?thesis
    by (subst histogram_exports_counts) (simp_all add: le f64_ge_def f64_ord_def)
qed

text \<open>Exactly the NaN observations, and \<open>+inf\<close> unless it is itself a bound, fall into no
  bucket: the terminal bucket is \<open>f64::MAX\<close>, not \<open>+inf\<close>. Such an observation still enters the
  count, so the last bucket's cumulative count stays behind it.\<close>

theorem histogram_unbucketed_observations:
  assumes "\<forall>b\<in>set bs. \<not> is_nan b"
  shows "(fst (observe_and_bucket v (observe_all vs (histogram_new bs))) = None \<longleftrightarrow>
      is_nan v \<or> (v = f64_infinity \<and> f64_infinity \<notin> set bs)) \<and>
    hs_count (snd (observe_and_bucket v (observe_all vs (histogram_new bs)))) =
      word_of_nat (length vs) + 1"
proof -
  let ?s = "observe_all vs (histogram_new bs)"
  have good: "good_bounds (bounds_of (hs_buckets (histogram_new bs)))"
    by (rule new_bounds_good [OF assms])
  have c: "counted_state (histogram_new bs) vs ?s"
    by (rule observe_all_counted [OF good])
  have "fst (observe_and_bucket v ?s) = None \<longleftrightarrow>
      is_nan v \<or> \<not> bucket_of (sort (bs @ [f64_max])) v < length (sort (bs @ [f64_max]))"
    by (simp add: observed_bucket [OF assms])
  also have "\<dots> \<longleftrightarrow> is_nan v \<or> (\<forall>b\<in>insert f64_max (set bs). f64_lt b v)"
    using bucket_of_in_range [of "sort (bs @ [f64_max])" v] by auto
  also have "\<dots> \<longleftrightarrow> is_nan v \<or> (v = f64_infinity \<and> f64_infinity \<notin> set bs)"
    using assms by (auto simp: max_not_lt below_infinity)
  finally have none: "fst (observe_and_bucket v ?s) = None \<longleftrightarrow>
      is_nan v \<or> (v = f64_infinity \<and> f64_infinity \<notin> set bs)" .
  have "hs_count (snd (observe_and_bucket v ?s)) = hs_count ?s + 1"
    by (simp add: observe_and_bucket_def Let_def)
  with none c show ?thesis
    by (simp add: counted_state_def)
qed

theorem histogram_unbucketed_observations_witness:
  "fst (observe_and_bucket f64_infinity (observe_all [] (histogram_new [f64_one]))) = None \<and>
   hs_count (snd (observe_and_bucket f64_infinity (observe_all [] (histogram_new [f64_one])))) = 1"
proof -
  have "f64_infinity \<noteq> f64_one"
    by (simp add: f64_infinity_def f64_one_def)
  then show ?thesis
    using histogram_unbucketed_observations [of "[f64_one]" f64_infinity "[]"] by simp
qed

end
