(* ===== verification/TimeHistograms.thy ===== *)
theory TimeHistograms
  imports Histograms
begin

text \<open>
  Time histograms and timers, \<open>foundations-metrics/src/metrics/histogram.rs\<close>. A
  \<open>TimeHistogram\<close> is lock-free: an observation is three separate atomic additions, which any
  number of threads interleave. A \<open>HistogramTimer\<close> is a state machine over \<open>pause\<close>, \<open>resume\<close>
  and a final \<open>stop_and_record\<close>, \<open>stop_and_discard\<close> or drop. \<open>Instant\<close>s and \<open>Duration\<close>s are
  integers in nanoseconds, \<open>now\<close> being what \<open>Instant::now()\<close> returns at the call.
\<close>

section \<open>TimeHistogram\<close>

record time_histogram =
  th_sum :: u64
  th_count :: u64
  th_buckets :: "(f64 \<times> u64) list"

text \<open>The double nearest to \<open>1E-9\<close>.\<close>

definition nano :: f64 where
  "nano = F64 0x3E112E0BE826D695"

definition seconds :: "u64 \<Rightarrow> f64" where
  "seconds val = f64_mul (f64_of_u64 val) nano"

definition time_histogram_new :: "f64 list \<Rightarrow> time_histogram" where
  "time_histogram_new bounds =
     \<lparr>th_sum = 0, th_count = 0,
      th_buckets = sort_key fst (map (\<lambda>upper_bound. (upper_bound, 0)) (bounds @ [f64_max]))\<rparr>"

text \<open>The search \<open>iter().enumerate().find(..)\<close>.\<close>

definition first_bucket :: "u64 \<Rightarrow> (f64 \<times> u64) list \<Rightarrow> nat option" where
  "first_bucket v buckets =
     map_option fst (List.find (\<lambda>(i, (upper_bound, n)). f64_ge upper_bound (seconds v)) (enumerate 0 buckets))"

text \<open>The three atomic instructions of an observation.\<close>

datatype time_instr = AddSum u64 | AddCount | AddBucket nat

definition bump_bucket :: "nat \<Rightarrow> (f64 \<times> u64) list \<Rightarrow> (f64 \<times> u64) list" where
  "bump_bucket i bs = bs[i := (fst (bs ! i), snd (fetch_add 1 (snd (bs ! i))))]"

fun time_exec :: "time_instr \<Rightarrow> time_histogram \<Rightarrow> time_histogram" where
  "time_exec (AddSum v) s = s\<lparr>th_sum := snd (fetch_add v (th_sum s))\<rparr>"
| "time_exec AddCount s = s\<lparr>th_count := snd (fetch_add 1 (th_count s))\<rparr>"
| "time_exec (AddBucket i) s = s\<lparr>th_buckets := bump_bucket i (th_buckets s)\<rparr>"

definition time_observe_and_bucket :: "u64 \<Rightarrow> time_histogram \<Rightarrow> nat option \<times> time_histogram" where
  "time_observe_and_bucket v s =
     (let s = time_exec AddCount (time_exec (AddSum v) s)
      in case first_bucket v (th_buckets s) of
           Some i \<Rightarrow> (Some i, time_exec (AddBucket i) s)
         | None \<Rightarrow> (None, s))"

definition time_observe :: "u64 \<Rightarrow> time_histogram \<Rightarrow> time_histogram" where
  "time_observe nanos s = snd (time_observe_and_bucket nanos s)"

definition time_snapshot :: "time_histogram \<Rightarrow> histogram_snapshot" where
  "time_snapshot s = \<lparr>hp_sum = seconds (th_sum s), hp_count = th_count s, hp_buckets = th_buckets s\<rparr>"

definition time_encode_metric_value :: "time_histogram \<Rightarrow> metric_family list \<times> event list" where
  "time_encode_metric_value s = (encode_snapshot (time_snapshot s), [])"

definition builder_new_time_histogram :: "histogram_builder \<Rightarrow> time_histogram" where
  "builder_new_time_histogram b = time_histogram_new (hb_buckets b)"

interpretation time_histogram_value: valid_metric_value time_encode_metric_value
  by unfold_locales (auto simp: time_encode_metric_value_def dest: encode_snapshot_valid)

section \<open>HistogramTimer\<close>

record histogram_timer =
  ht_observed :: bool
  ht_start :: "int option"
  ht_accumulated :: int

definition saturating_duration_since :: "int \<Rightarrow> int \<Rightarrow> int" where
  "saturating_duration_since now earlier = max 0 (now - earlier)"

definition start_timer :: "int \<Rightarrow> histogram_timer" where
  "start_timer now = \<lparr>ht_observed = False, ht_start = Some now, ht_accumulated = 0\<rparr>"

definition timer_pause :: "int \<Rightarrow> histogram_timer \<Rightarrow> histogram_timer" where
  "timer_pause now t =
     t\<lparr>ht_accumulated := ht_accumulated t +
         (case ht_start t of None \<Rightarrow> 0 | Some v \<Rightarrow> saturating_duration_since now v),
       ht_start := None\<rparr>"

definition timer_resume :: "int \<Rightarrow> histogram_timer \<Rightarrow> histogram_timer" where
  "timer_resume now t = (if ht_start t = None then t\<lparr>ht_start := Some now\<rparr> else t)"

text \<open>\<open>observe(record)\<close>: the returned duration and the effects on the timer and the histogram;
  \<open>as_nanos() as u64\<close> keeps the low 64 bits.\<close>

definition timer_observe ::
    "bool \<Rightarrow> int \<Rightarrow> histogram_timer \<times> time_histogram \<Rightarrow> int \<times> histogram_timer \<times> time_histogram" where
  "timer_observe rec now ts =
     (case ts of (t, h) \<Rightarrow>
      let elapsed_since_start =
            (case ht_start t of None \<Rightarrow> 0 | Some v \<Rightarrow> saturating_duration_since now v);
          elapsed = elapsed_since_start + ht_accumulated t;
          t = t\<lparr>ht_observed := True\<rparr>
      in (elapsed, t, if rec then time_observe (word_of_int elapsed) h else h))"

definition timer_drop :: "int \<Rightarrow> histogram_timer \<times> time_histogram \<Rightarrow> time_histogram" where
  "timer_drop now ts =
     (if \<not> ht_observed (fst ts) then snd (snd (timer_observe True now ts)) else snd ts)"

text \<open>Both \<open>stop\<close> methods own the timer, so it is dropped when they return.\<close>

definition stop_and_record :: "int \<Rightarrow> histogram_timer \<times> time_histogram \<Rightarrow> int \<times> time_histogram" where
  "stop_and_record now ts =
     (case timer_observe True now ts of (d, ts') \<Rightarrow> (d, timer_drop now ts'))"

definition stop_and_discard :: "int \<Rightarrow> histogram_timer \<times> time_histogram \<Rightarrow> int \<times> time_histogram" where
  "stop_and_discard now ts =
     (case timer_observe False now ts of (d, ts') \<Rightarrow> (d, timer_drop now ts'))"

datatype timer_op = Pause int | Resume int

fun timer_step :: "timer_op \<Rightarrow> histogram_timer \<Rightarrow> histogram_timer" where
  "timer_step (Pause now) t = timer_pause now t"
| "timer_step (Resume now) t = timer_resume now t"

definition timer_run :: "timer_op list \<Rightarrow> histogram_timer \<Rightarrow> histogram_timer" where
  "timer_run ops t = fold timer_step ops t"

section \<open>Every duration has a bucket\<close>

lemma nano_fields: "f64_mag nano = 0x3E112E0BE826D695" "\<not> f64_neg nano" "is_finite nano" "\<not> is_nan nano"
  by (simp_all add: nano_def f64_mag_def f64_neg_def is_finite_def is_nan_def)

lemma f64_of_u64_finite: "is_finite (f64_of_u64 v)"
proof -
  have "\<bar>uint v\<bar> * 2 ^ 1074 div 1 < (2 :: int) ^ 2000"
  proof -
    have "uint v < 2 ^ 64"
      using uint_lt2p [of v] by simp
    then have "uint v * 2 ^ 1074 < (2 :: int) ^ 64 * 2 ^ 1074"
      by (rule mult_strict_right_mono) simp
    also have "\<dots> = 2 ^ 1138"
      by (simp only: power_add [symmetric]) simp
    also have "\<dots> < 2 ^ 2000"
      by (rule power_strict_increasing) simp_all
    finally show ?thesis by simp
  qed
  then show ?thesis
    unfolding f64_of_u64_def f64_of_int_def by (intro round_finite) simp_all
qed

lemma bitlen_scaled_u64: "bitlen (uint (v :: u64) * 2 ^ 1074) \<le> 1138"
proof (cases "uint v = 0")
  case False
  then have "0 < uint v"
    using uint_ge_0 [of v] by linarith
  moreover from this have "2 ^ nat (bitlen (uint v) - 1) < (2 :: int) ^ 64"
    using bitlen_range (1) [of "uint v"] uint_lt2p [of v] by simp
  then have "nat (bitlen (uint v) - 1) < 64"
    by (rule power_less_imp_less_exp [rotated]) simp
  ultimately show ?thesis
    using bitlen_shift [of "uint v" 1074] by simp
qed simp

lemma units_of_u64_le: "units (f64_of_u64 v) \<le> 2 ^ 1138"
proof -
  let ?n = "uint v * 2 ^ 1074"
  have "units (f64_of_u64 v) \<le> 2 ^ (53 + round_shift ?n)"
    unfolding f64_of_u64_def f64_of_int_def
    using round_units_le [of ?n "uint v < 0"] bitlen_scaled_u64 [of v] by simp
  also have "\<dots> \<le> (2 :: int) ^ 1138"
    using bitlen_scaled_u64 [of v] by (intro power_increasing) (auto simp: round_shift_def)
  finally show ?thesis .
qed

lemma units_nano: "0 < units nano" "units nano < 2 ^ 1045"
proof -
  have u: "units nano = 4835703278458517 * 2 ^ 992"
    by (simp add: units_def f64_sig_def f64_exp_def nano_fields)
  then show "0 < units nano" by simp
  have "(4835703278458517 :: int) * 2 ^ 992 < 2 ^ 53 * 2 ^ 992"
    by (rule mult_strict_right_mono) simp_all
  also have "\<dots> = 2 ^ 1045"
    by (simp only: power_add [symmetric]) simp
  finally show "units nano < 2 ^ 1045"
    using u by simp
qed

lemma units_nonneg: "0 \<le> units x"
  using f64_mag_bounds [of x] by (auto simp: units_def f64_sig_def Let_def)

lemma seconds_finite: "is_finite (seconds v)"
proof -
  let ?n = "units (f64_of_u64 v) * units nano"
  have "?n \<le> 2 ^ 1138 * units nano"
    using units_nano(1) by (intro mult_right_mono units_of_u64_le) simp
  also have "\<dots> < 2 ^ 1138 * 2 ^ 1045"
    using units_nano(2) by (rule mult_strict_left_mono) simp
  also have "\<dots> = (2 :: int) ^ 2183"
    by (simp only: power_add [symmetric]) simp
  also have "\<dots> \<le> 2 ^ 2000 * 2 ^ 1074"
    unfolding power_add [symmetric] by (rule power_increasing) simp_all
  finally have "?n div 2 ^ 1074 < 2 ^ 2000"
    by (intro div_less_iff_mult) simp_all
  moreover have "0 \<le> ?n"
    using units_nonneg units_nano by (simp add: less_imp_le)
  ultimately have "is_finite (f64_round s ?n (2 ^ 1074))" for s
    by (intro round_finite) simp_all
  then show ?thesis
    using f64_of_u64_finite [of v] nano_fields
    by (simp add: seconds_def f64_mul_def Let_def)
qed

lemma max_ge_seconds: "f64_ge f64_max (seconds v)"
proof -
  have "\<not> f64_lt f64_max (seconds v)"
    using seconds_finite [of v] by (auto simp: max_not_lt)
  then show ?thesis
    using f64_not_lt_iff_ge [of f64_max "seconds v"] seconds_finite [of v] by simp
qed

section \<open>The state after observations\<close>

lemma find_enumerate:
  "map_option fst (List.find (\<lambda>(i, x). P x) (enumerate k xs)) =
     (if \<exists>x\<in>set xs. P x then Some (k + length (takeWhile (\<lambda>x. \<not> P x) xs)) else None)"
proof (induction xs arbitrary: k)
  case (Cons x xs)
  show ?case
    using Cons [of "Suc k"] by (cases "P x") simp_all
qed simp

lemma first_bucket_result:
  "first_bucket v buckets =
     (if \<exists>b\<in>set (bounds_of buckets). f64_ge b (seconds v)
      then Some (length (takeWhile (\<lambda>b. \<not> f64_ge b (seconds v)) (bounds_of buckets))) else None)"
proof -
  have "length (takeWhile (\<lambda>(upper_bound, n). \<not> f64_ge upper_bound (seconds v)) buckets) =
      length (takeWhile (\<lambda>b. \<not> f64_ge b (seconds v)) (bounds_of buckets))"
    by (simp add: bounds_of_def takeWhile_map o_def split_def)
  then show ?thesis
    using find_enumerate [of "\<lambda>(upper_bound, n). f64_ge upper_bound (seconds v)" 0 buckets]
    by (simp add: first_bucket_def bounds_of_def split_def)
qed

lemma bump_bucket_fields:
  "bounds_of (bump_bucket i bs) = bounds_of bs"
  "k < length bs \<Longrightarrow> snd (bump_bucket i bs ! k) = snd (bs ! k) + (if i = k then 1 else 0)"
proof -
  show "bounds_of (bump_bucket i bs) = bounds_of bs"
    by (cases "i < length bs")
      (simp_all add: bump_bucket_def bounds_of_def map_update list_update_beyond list_update_same_conv)
qed (simp add: bump_bucket_def nth_list_update fetch_add_def)

lemma bump_bucket_commute: "bump_bucket i (bump_bucket j bs) = bump_bucket j (bump_bucket i bs)"
  by (cases "i = j"; cases "i < length bs"; cases "j < length bs")
    (simp_all add: bump_bucket_def list_update_swap nth_list_update list_update_beyond)

lemma time_exec_bounds [simp]: "bounds_of (th_buckets (time_exec i s)) = bounds_of (th_buckets s)"
  by (cases i) (simp_all add: bump_bucket_fields)

lemma time_exec_commute: "time_exec i (time_exec j s) = time_exec j (time_exec i s)"
  by (cases i; cases j) (simp_all add: fetch_add_def bump_bucket_commute ac_simps)

text \<open>The instructions of one observation: its bucket depends on the bounds only.\<close>

definition time_instrs :: "f64 list \<Rightarrow> u64 \<Rightarrow> time_instr list" where
  "time_instrs bounds v =
     [AddSum v, AddCount] @
     (if \<exists>b\<in>set bounds. f64_ge b (seconds v)
      then [AddBucket (length (takeWhile (\<lambda>b. \<not> f64_ge b (seconds v)) bounds))] else [])"

lemma time_observe_instrs:
  "time_observe v s = fold time_exec (time_instrs (bounds_of (th_buckets s)) v) s"
  by (simp add: time_observe_def time_observe_and_bucket_def time_instrs_def first_bucket_result Let_def)

lemma fold_time_exec_bounds [simp]:
  "bounds_of (th_buckets (fold time_exec ins s)) = bounds_of (th_buckets s)"
  by (induction ins arbitrary: s) simp_all

lemma fold_time_observe:
  "fold time_observe vs s = fold time_exec (concat (map (time_instrs (bounds_of (th_buckets s))) vs)) s"
  by (induction vs arbitrary: s) (simp_all add: time_observe_instrs)

lemma fold_time_exec_fields:
  "th_sum (fold time_exec ins s) = th_sum s + sum_list (map (\<lambda>i. case i of AddSum v \<Rightarrow> v | _ \<Rightarrow> 0) ins)"
  "th_count (fold time_exec ins s) = th_count s + word_of_nat (length (filter (\<lambda>i. i = AddCount) ins))"
  "k < length (th_buckets s) \<Longrightarrow> snd (th_buckets (fold time_exec ins s) ! k) =
     snd (th_buckets s ! k) + word_of_nat (length (filter (\<lambda>i. i = AddBucket k) ins))"
proof (induction ins arbitrary: s)
  case (Cons i ins)
  { case 1 then show ?case
      using Cons.IH(1) by (cases i) (simp_all add: fetch_add_def ac_simps)
  next
    case 2 then show ?case
      using Cons.IH(2) by (cases i) (simp_all add: fetch_add_def ac_simps)
  next
    case 3
    have "k < length (th_buckets (time_exec i s))"
      using 3 time_exec_bounds [of i s] by (metis bounds_of_length)
    then show ?case
      using Cons.IH(3) 3 by (cases i) (simp_all add: bump_bucket_fields ac_simps)
  }
qed simp_all

text \<open>On good bounds the two searches agree.\<close>

lemma takeWhile_ge_bucket:
  assumes "good_bounds bs"
  shows "length (takeWhile (\<lambda>b. \<not> f64_ge b (seconds v)) bs) = bucket_of bs (seconds v)"
proof -
  have "takeWhile (\<lambda>b. \<not> f64_ge b (seconds v)) bs = takeWhile (\<lambda>b. f64_lt b (seconds v)) bs"
    by (intro takeWhile_cong refl)
      (metis assms f64_not_lt_iff_ge finite_not_nan good_bounds_def seconds_finite)
  then show ?thesis by (simp add: bucket_of_def)
qed

lemma time_instrs_good:
  assumes "good_bounds bs" "f64_max \<in> set bs"
  shows "time_instrs bs v = [AddSum v, AddCount, AddBucket (bucket_of bs (seconds v))]"
  using assms max_ge_seconds by (auto simp: time_instrs_def takeWhile_ge_bucket)

lemma all_time_instrs:
  assumes "good_bounds bs" "f64_max \<in> set bs"
  shows "sum_list (map (\<lambda>i. case i of AddSum v \<Rightarrow> v | _ \<Rightarrow> 0) (concat (map (time_instrs bs) vs))) = sum_list vs"
    and "length (filter (\<lambda>i. i = AddCount) (concat (map (time_instrs bs) vs))) = length vs"
    and "length (filter (\<lambda>i. i = AddBucket k) (concat (map (time_instrs bs) vs))) =
      length (filter (lands_in bs k) (map seconds vs))"
  using seconds_finite by (induction vs) (auto simp: lands_in_def time_instrs_good [OF assms])

lemma new_time_bounds: "bounds_of (th_buckets (time_histogram_new bs)) = sort (bs @ [f64_max])"
  by (rule properties_for_sort [symmetric])
    (simp_all add: bounds_of_def time_histogram_new_def image_mset.compositionality o_def)

lemma new_time_buckets_zero: "b \<in> set (th_buckets (time_histogram_new bs)) \<Longrightarrow> snd b = 0"
  by (auto simp: time_histogram_new_def)

section \<open>Properties\<close>

text \<open>A time histogram loses nothing to concurrency and every duration has a bucket. Take any
  observations and any interleaving of their atomic instructions (any list with the same
  instructions): the exported count is their number, the exported sum the seconds of their total
  nanoseconds, and the cumulative count of each bucket the number of durations whose seconds do
  not exceed its bound; the bucket of \<open>f64::MAX\<close> holds all of them, since no \<open>u64\<close> of
  nanoseconds exceeds it.\<close>

theorem time_histogram_interleaving:
  assumes "\<forall>b\<in>set bs. \<not> is_nan b"
    and "mset ins = mset (concat (map (time_instrs (sort (bs @ [f64_max]))) vs))"
  shows "fold time_exec ins (time_histogram_new bs) = fold time_observe vs (time_histogram_new bs) \<and>
    time_encode_metric_value (fold time_exec ins (time_histogram_new bs)) =
    ([\<lparr>f_name = Some [], f_help = None, f_type = Some (metric_type_to_i32 Histogram),
       f_metric = [metric_default\<lparr>m_histogram := Some (histogram_default\<lparr>
         h_sample_count := Some (word_of_nat (length vs)),
         h_sample_sum := Some (seconds (sum_list vs)),
         h_bucket := map (\<lambda>b. bucket_default\<lparr>
             b_cumulative_count := Some (word_of_nat (length (filter (\<lambda>v. f64_ge b (seconds v)) vs))),
             b_upper_bound := Some b\<rparr>) (sort (bs @ [f64_max]))\<rparr>)\<rparr>],
       f_unit = None\<rparr>], []) \<and>
    filter (\<lambda>v. f64_ge f64_max (seconds v)) vs = vs"
proof -
  let ?bs = "sort (bs @ [f64_max])" and ?new = "time_histogram_new bs"
  let ?all = "concat (map (time_instrs ?bs) vs)"
  have good: "good_bounds ?bs" "f64_max \<in> set ?bs"
    by (simp_all add: sorted_bounds_good [OF assms(1)])
  have eq: "fold time_exec ins ?new = fold time_exec ?all ?new"
    using assms(2) by (intro fun_cong [OF fold_multiset_equiv]) (auto simp: fun_eq_iff time_exec_commute)
  have obs: "fold time_exec ?all ?new = fold time_observe vs ?new"
    by (simp add: fold_time_observe new_time_bounds)
  note fields = fold_time_exec_fields [where s = ?new and ins = ?all, unfolded all_time_instrs [OF good]]
  have len: "length (th_buckets ?new) = length ?bs"
    by (metis bounds_of_length new_time_bounds)
  have "snd (th_buckets ?new ! i) = 0" if "i < length ?bs" for i
    using that len by (intro new_time_buckets_zero [of _ bs] nth_mem) simp
  then have "landed ?bs (map seconds vs) (th_buckets (fold time_exec ?all ?new))"
    using fields(3) len by (simp add: landed_def new_time_bounds)
  note enc = encode_landed [OF good(1) this]
  have "th_sum ?new = 0" "th_count ?new = 0"
    by (simp_all add: time_histogram_new_def)
  then have "time_encode_metric_value (fold time_exec ?all ?new) =
    ([\<lparr>f_name = Some [], f_help = None, f_type = Some (metric_type_to_i32 Histogram),
       f_metric = [metric_default\<lparr>m_histogram := Some (histogram_default\<lparr>
         h_sample_count := Some (word_of_nat (length vs)),
         h_sample_sum := Some (seconds (sum_list vs)),
         h_bucket := map (\<lambda>b. bucket_default\<lparr>
             b_cumulative_count := Some (word_of_nat (length (filter (\<lambda>v. f64_ge b (seconds v)) vs))),
             b_upper_bound := Some b\<rparr>) ?bs\<rparr>)\<rparr>],
       f_unit = None\<rparr>], [])"
    using enc fields(1,2)
    by (simp add: time_encode_metric_value_def encode_snapshot_def time_snapshot_def up_to_def
        filter_map o_def)
  then show ?thesis
    using eq obs max_ge_seconds by simp
qed

theorem time_histogram_interleaving_witness:
  "th_count (fold time_observe [5, 7] (time_histogram_new [])) = 2 \<and>
   fold time_exec [AddCount, AddSum 7, AddSum 5, AddBucket 0, AddCount, AddBucket 0] (time_histogram_new []) =
     fold time_observe [5, 7] (time_histogram_new [])"
proof -
  have b: "bucket_of [f64_max] (seconds v) = 0" for v
    using seconds_finite [of v] by (auto simp: bucket_of_def max_not_lt)
  have good: "good_bounds [f64_max]"
    by (simp add: good_bounds_def)
  have "time_instrs [f64_max] v = [AddSum v, AddCount, AddBucket 0]" for v
    using time_instrs_good [OF good, of v] by (simp add: b)
  then have "fold time_exec [AddCount, AddSum 7, AddSum 5, AddBucket 0, AddCount, AddBucket 0]
      (time_histogram_new []) = fold time_observe [5, 7] (time_histogram_new [])"
    using time_histogram_interleaving
      [of "[]" "[AddCount, AddSum 7, AddSum 5, AddBucket 0, AddCount, AddBucket 0]" "[5, 7]"]
    by simp
  moreover have "th_count (fold time_exec [AddCount, AddSum 7, AddSum 5, AddBucket 0, AddCount, AddBucket 0]
      (time_histogram_new [])) = 2"
    by (simp only: fold_time_exec_fields) (simp add: time_histogram_new_def)
  ultimately show ?thesis by simp
qed

section \<open>Timers\<close>

text \<open>The time a timer has been running: the clock advances from one call to the next, and an
  interval counts when no pause is in force.\<close>

fun active_time :: "bool \<Rightarrow> int \<Rightarrow> timer_op list \<Rightarrow> int \<Rightarrow> int" where
  "active_time running prev [] now = (if running then now - prev else 0)"
| "active_time running prev (Pause t # ops) now =
     (if running then t - prev else 0) + active_time False t ops now"
| "active_time running prev (Resume t # ops) now =
     (if running then t - prev else 0) + active_time True t ops now"

fun clock_monotone :: "int \<Rightarrow> timer_op list \<Rightarrow> int \<Rightarrow> bool" where
  "clock_monotone prev [] now \<longleftrightarrow> prev \<le> now"
| "clock_monotone prev (Pause t # ops) now \<longleftrightarrow> prev \<le> t \<and> clock_monotone t ops now"
| "clock_monotone prev (Resume t # ops) now \<longleftrightarrow> prev \<le> t \<and> clock_monotone t ops now"

definition timer_elapsed :: "int \<Rightarrow> histogram_timer \<Rightarrow> int" where
  "timer_elapsed now t =
     (case ht_start t of None \<Rightarrow> 0 | Some v \<Rightarrow> saturating_duration_since now v) + ht_accumulated t"

lemma clock_monotone_le: "clock_monotone prev ops now \<Longrightarrow> prev \<le> now"
  by (induction prev ops now rule: clock_monotone.induct) auto

lemma timer_run_elapsed:
  "clock_monotone prev ops now \<Longrightarrow> (\<forall>v. ht_start t = Some v \<longrightarrow> v \<le> prev) \<Longrightarrow>
     timer_elapsed now (timer_run ops t) =
       ht_accumulated t + (case ht_start t of None \<Rightarrow> 0 | Some v \<Rightarrow> prev - v) +
       active_time (ht_start t \<noteq> None) prev ops now"
proof (induction ops arbitrary: prev t)
  case Nil
  then show ?case
    by (auto simp: timer_run_def timer_elapsed_def saturating_duration_since_def split: option.split)
next
  case (Cons op ops)
  have step: "timer_run (op' # ops) t = timer_run ops (timer_step op' t)" for op'
    by (simp add: timer_run_def)
  show ?case
  proof (cases op)
    case (Pause now')
    then show ?thesis
      using Cons.IH [of now' "timer_step op t"] Cons.prems
      by (auto simp: step timer_pause_def saturating_duration_since_def split: option.split)
  next
    case (Resume now')
    then show ?thesis
      using Cons.IH [of now' "timer_step op t"] Cons.prems
      by (cases "ht_start t") (auto simp: step timer_resume_def)
  qed
qed

lemma timer_run_observed: "ht_observed (timer_run ops t) = ht_observed t"
proof (induction ops arbitrary: t)
  case (Cons op ops)
  have "ht_observed (timer_step op t) = ht_observed t"
    by (cases op) (simp_all add: timer_pause_def timer_resume_def)
  with Cons show ?case by (simp add: timer_run_def)
qed (simp add: timer_run_def)

text \<open>A timer records at most once and records the time it was running: after any sequence of
  pauses and resumes (redundant ones included) on a clock that does not go back, stopping
  returns the total length of the intervals in which it was not paused; \<open>stop_and_record\<close> and
  dropping an unstopped timer each add exactly one observation of that many nanoseconds, the
  drop that follows either \<open>stop\<close> adds none, and \<open>stop_and_discard\<close> leaves the histogram alone.\<close>

theorem timer_records_running_time:
  assumes "clock_monotone t0 ops now"
    and "t = timer_run ops (start_timer t0)"
  shows "stop_and_record now (t, h) =
      (active_time True t0 ops now, time_observe (word_of_int (active_time True t0 ops now)) h) \<and>
    timer_drop now (t, h) = time_observe (word_of_int (active_time True t0 ops now)) h \<and>
    stop_and_discard now (t, h) = (active_time True t0 ops now, h)"
proof -
  have e: "timer_elapsed now t = active_time True t0 ops now"
    using timer_run_elapsed [OF assms(1), of "start_timer t0"] assms(2) by (simp add: start_timer_def)
  have o: "\<not> ht_observed t"
    by (simp add: assms(2) timer_run_observed) (simp add: start_timer_def)
  have "timer_observe rec now (t, h) = (active_time True t0 ops now, t\<lparr>ht_observed := True\<rparr>,
      if rec then time_observe (word_of_int (active_time True t0 ops now)) h else h)" for rec
    by (simp only: timer_observe_def prod.case Let_def e [unfolded timer_elapsed_def])
  then show ?thesis
    using o by (simp add: stop_and_record_def stop_and_discard_def timer_drop_def)
qed

theorem timer_records_running_time_witness:
  "fst (stop_and_record 130 (timer_run [Pause 110, Pause 115, Resume 120] (start_timer 100), time_histogram_new [])) = 20 \<and>
   stop_and_discard 130 (timer_run [Pause 110, Pause 115, Resume 120] (start_timer 100), time_histogram_new []) = (20, time_histogram_new [])"
  using timer_records_running_time [of 100 "[Pause 110, Pause 115, Resume 120]" 130 _ "time_histogram_new []", OF _ refl]
  by simp

end
