(* ===== verification/Externals.thy ===== *)
theory Externals
  imports F64
begin

text \<open>
  Code the crates call and the repository does not contain: the \<open>ryu\<close> crate's float
  formatting and the \<open>Debug\<close> rendering of a string inside an error message. They are
  fields of a record that the operations take as their first argument. What the text
  encoder relies on is the documented output alphabet of \<open>ryu\<close>: for a finite double,
  a non-empty text over digits, point, sign and exponent letter.
\<close>

record externals =
  ryu_f32 :: "u32 \<Rightarrow> string"
  ryu_f64 :: "f64 \<Rightarrow> string"
  debug_str :: "string \<Rightarrow> string"

definition is_ryu_char :: "char \<Rightarrow> bool" where
  "is_ryu_char c \<longleftrightarrow> is_ascii_digit c \<or> c \<in> set ''.-eE''"

definition ryu_text :: "externals \<Rightarrow> bool" where
  "ryu_text ext \<longleftrightarrow>
     (\<forall>x. is_finite x \<longrightarrow> ryu_f64 ext x \<noteq> [] \<and> (\<forall>c\<in>set (ryu_f64 ext x). is_ryu_char c))"

text \<open>An instance for evaluating the definitions: every finite double prints as \<open>1.0\<close>.\<close>

definition constant_externals :: externals where
  "constant_externals =
     \<lparr>ryu_f32 = (\<lambda>_. ''1.0''), ryu_f64 = (\<lambda>_. ''1.0''), debug_str = (\<lambda>s. s)\<rparr>"

lemma ryu_text_constant: "ryu_text constant_externals"
  by (simp add: ryu_text_def constant_externals_def is_ryu_char_def is_ascii_digit_def)

end
