(* ===== verification/Labels.thy ===== *)
theory Labels
  imports Validation Externals
begin

text \<open>
  Serialization of label sets, \<open>foundations-metrics/src/labels/\<close>. A value that implements
  \<open>serde::Serialize\<close> is the tree of calls it makes on its serializer (\<open>sval\<close>, one
  constructor per \<open>serialize_*\<close> method; a tuple keeps the length it announced beside its
  elements, since \<open>serialize_tuple\<close> checks the announced one). \<open>ser_label_set\<close> is
  \<open>LabelSetSerializer\<close>, \<open>ser_label_value\<close> is \<open>LabelValueSerializer\<close>; errors are the
  messages of \<open>LabelError\<close>.
\<close>

section \<open>Serde's data model\<close>

datatype int_type = I8 | I16 | I32 | I64 | I128 | U8 | U16 | U32 | U64 | U128

datatype sval =
    SBool bool
  | SInt int_type int
  | SF32 u32
  | SF64 f64
  | SChar string
  | SStr string
  | SBytes "u8 list"
  | SNone
  | SSome sval
  | SUnit
  | SUnitStruct string
  | SUnitVariant string nat string
  | SNewtypeStruct string sval
  | SNewtypeVariant string nat string sval
  | SSeq "sval list"
  | STuple nat "sval list"
  | STupleStruct string "sval list"
  | STupleVariant string nat string "sval list"
  | SMap "(sval \<times> sval) list"
  | SStruct string "(string \<times> sval) list"
  | SStructVariant string nat string "(string \<times> sval) list"
  | SCollectStr string

type_synonym label_error = string

text \<open>The requirement quoted in messages, \<open>NAME_REQUIREMENT\<close>.\<close>

definition name_requirement :: string where
  "name_requirement = ''a non-empty UTF-8 string without NUL bytes''"

definition invalid_label_set :: label_error where
  "invalid_label_set = ''metric labels must serialize as a struct or unit''"

definition invalid_label_value :: "string \<Rightarrow> label_error" where
  "invalid_label_value kind = ''unsupported '' @ kind @ '' metric label value''"

definition validate_label_name :: "externals \<Rightarrow> string \<Rightarrow> label_error + unit" where
  "validate_label_name ext name =
     (if is_valid_name name then Inr ()
      else Inl (''invalid metric label name '' @ debug_str ext name @ '': expected '' @ name_requirement))"

definition show_bool :: "bool \<Rightarrow> string" where
  "show_bool b = (if b then ''true'' else ''false'')"

section \<open>Label values\<close>

fun ser_label_value :: "externals \<Rightarrow> sval \<Rightarrow> label_error + string" where
  "ser_label_value ext (SBool b) = Inr (show_bool b)"
| "ser_label_value ext (SInt ty n) = Inr (show_int n)"
| "ser_label_value ext (SF32 x) = Inr (ryu_f32 ext x)"
| "ser_label_value ext (SF64 x) = Inr (ryu_f64 ext x)"
| "ser_label_value ext (SChar c) = Inr c"
| "ser_label_value ext (SStr s) = Inr s"
| "ser_label_value ext SUnit = Inr []"
| "ser_label_value ext (SUnitStruct name) = Inr name"
| "ser_label_value ext (SUnitVariant name idx variant) = Inr variant"
| "ser_label_value ext (SNewtypeStruct name v) = ser_label_value ext v"
| "ser_label_value ext SNone = Inr []"
| "ser_label_value ext (SSome v) = ser_label_value ext v"
| "ser_label_value ext (SCollectStr s) = Inr s"
| "ser_label_value ext (SBytes bs) = Inl (invalid_label_value ''byte array'')"
| "ser_label_value ext (SNewtypeVariant name idx variant v) = Inl (invalid_label_value ''newtype variant'')"
| "ser_label_value ext (SSeq vs) = Inl (invalid_label_value ''sequence'')"
| "ser_label_value ext (STuple n vs) = Inl (invalid_label_value ''tuple'')"
| "ser_label_value ext (STupleStruct name vs) = Inl (invalid_label_value ''tuple struct'')"
| "ser_label_value ext (STupleVariant name idx variant vs) = Inl (invalid_label_value ''tuple variant'')"
| "ser_label_value ext (SMap kvs) = Inl (invalid_label_value ''map'')"
| "ser_label_value ext (SStruct name fs) = Inl (invalid_label_value ''struct'')"
| "ser_label_value ext (SStructVariant name idx variant fs) = Inl (invalid_label_value ''struct variant'')"

section \<open>Label sets\<close>

text \<open>\<open>LabelPairSerializer\<close>: one pair per field, names validated first.\<close>

fun ser_struct_fields ::
    "externals \<Rightarrow> label_pair list \<Rightarrow> (string \<times> sval) list \<Rightarrow> label_error + label_pair list" where
  "ser_struct_fields ext labels [] = Inr labels"
| "ser_struct_fields ext labels ((key, v) # fs) =
     bind_result (validate_label_name ext key) (\<lambda>_.
     bind_result (ser_label_value ext v) (\<lambda>s.
       ser_struct_fields ext (labels @ [\<lparr>lp_name = Some key, lp_value = Some s\<rparr>]) fs))"

text \<open>\<open>LabelTupleSerializer\<close>: the first element is the name, the second the value.\<close>

fun ser_tuple_elements ::
    "externals \<Rightarrow> string option \<Rightarrow> string option \<Rightarrow> sval list \<Rightarrow> label_error + label_pair list" where
  "ser_tuple_elements ext name val [] =
     (case name of None \<Rightarrow> Inl ''label pair is missing its name''
      | Some n \<Rightarrow> (case val of None \<Rightarrow> Inl ''label pair is missing its value''
                  | Some v \<Rightarrow> Inr [\<lparr>lp_name = Some n, lp_value = Some v\<rparr>]))"
| "ser_tuple_elements ext name val (e # es) =
     (if name = None
      then bind_result (ser_label_value ext e) (\<lambda>n.
           bind_result (validate_label_name ext n) (\<lambda>_. ser_tuple_elements ext (Some n) val es))
      else if val = None
      then bind_result (ser_label_value ext e) (\<lambda>v. ser_tuple_elements ext name (Some v) es)
      else Inl ''label pairs must contain exactly one name and value'')"

definition ser_tuple :: "externals \<Rightarrow> nat \<Rightarrow> sval list \<Rightarrow> label_error + label_pair list" where
  "ser_tuple ext len es =
     (if len \<noteq> 2 then Inl ''label pairs must contain a name and value''
      else ser_tuple_elements ext None None es)"

text \<open>\<open>LabelSetSerializer\<close>, with the element loop of \<open>LabelSequenceSerializer\<close>: every
  element must itself serialize to exactly one pair.\<close>

fun ser_label_set :: "externals \<Rightarrow> sval \<Rightarrow> label_error + label_pair list"
  and ser_seq_elements :: "externals \<Rightarrow> label_pair list \<Rightarrow> sval list \<Rightarrow> label_error + label_pair list"
where
  "ser_label_set ext SUnit = Inr []"
| "ser_label_set ext (SUnitStruct name) = Inr []"
| "ser_label_set ext (SNewtypeStruct name v) = ser_label_set ext v"
| "ser_label_set ext SNone = Inr []"
| "ser_label_set ext (SSome v) = ser_label_set ext v"
| "ser_label_set ext (SStruct name fs) = ser_struct_fields ext [] fs"
| "ser_label_set ext (SBool b) = Inl invalid_label_set"
| "ser_label_set ext (SInt ty n) = Inl invalid_label_set"
| "ser_label_set ext (SF32 x) = Inl invalid_label_set"
| "ser_label_set ext (SF64 x) = Inl invalid_label_set"
| "ser_label_set ext (SChar c) = Inl invalid_label_set"
| "ser_label_set ext (SStr s) = Inl invalid_label_set"
| "ser_label_set ext (SCollectStr s) = Inl invalid_label_set"
| "ser_label_set ext (SBytes bs) = Inl invalid_label_set"
| "ser_label_set ext (SUnitVariant name idx variant) = Inl invalid_label_set"
| "ser_label_set ext (SNewtypeVariant name idx variant v) = Inl invalid_label_set"
| "ser_label_set ext (SSeq vs) = ser_seq_elements ext [] vs"
| "ser_label_set ext (STuple len vs) = ser_tuple ext len vs"
| "ser_label_set ext (STupleStruct name vs) = Inl invalid_label_set"
| "ser_label_set ext (STupleVariant name idx variant vs) = Inl invalid_label_set"
| "ser_label_set ext (SMap kvs) = Inl invalid_label_set"
| "ser_label_set ext (SStructVariant name idx variant fs) = Inl invalid_label_set"
| "ser_seq_elements ext labels [] = Inr labels"
| "ser_seq_elements ext labels (v # vs) =
     bind_result (ser_label_set ext v) (\<lambda>ls.
       case ls of [l] \<Rightarrow> ser_seq_elements ext (labels @ [l]) vs
                | _ \<Rightarrow> Inl ''label sequences must contain name-value pairs'')"

definition to_label_pairs :: "externals \<Rightarrow> sval \<Rightarrow> label_error + label_pair list" where
  "to_label_pairs ext v = ser_label_set ext v"

section \<open>What serialization produces\<close>

text \<open>The values \<open>LabelValueSerializer\<close> accepts: scalars under \<open>Some\<close> and newtype wrappers.\<close>

fun label_scalar :: "sval \<Rightarrow> bool" where
  "label_scalar (SNewtypeStruct name v) = label_scalar v"
| "label_scalar (SSome v) = label_scalar v"
| "label_scalar (SBytes bs) = False"
| "label_scalar (SNewtypeVariant name idx variant v) = False"
| "label_scalar (SSeq vs) = False"
| "label_scalar (STuple n vs) = False"
| "label_scalar (STupleStruct name vs) = False"
| "label_scalar (STupleVariant name idx variant vs) = False"
| "label_scalar (SMap kvs) = False"
| "label_scalar (SStruct name fs) = False"
| "label_scalar (SStructVariant name idx variant fs) = False"
| "label_scalar v = True"

lemma ser_label_value_scalar: "(\<exists>s. ser_label_value ext v = Inr s) \<longleftrightarrow> label_scalar v"
  by (induction v rule: label_scalar.induct) simp_all

text \<open>The text of a scalar, once it is known to be one.\<close>

definition label_text :: "externals \<Rightarrow> sval \<Rightarrow> string" where
  "label_text ext v = (case ser_label_value ext v of Inr s \<Rightarrow> s | Inl e \<Rightarrow> [])"

lemma ser_label_value_text: "label_scalar v \<Longrightarrow> ser_label_value ext v = Inr (label_text ext v)"
  using ser_label_value_scalar [of ext v] by (auto simp: label_text_def)

lemma validate_label_name_Inr [simp]:
  "validate_label_name ext n = Inr u \<longleftrightarrow> is_valid_name n"
  by (simp add: validate_label_name_def)

lemma ser_struct_fields_Inr:
  "ser_struct_fields ext labels fs = Inr ls \<longleftrightarrow>
     (\<forall>(key, v)\<in>set fs. is_valid_name key \<and> label_scalar v) \<and>
     ls = labels @ map (\<lambda>(key, v). \<lparr>lp_name = Some key, lp_value = Some (label_text ext v)\<rparr>) fs"
proof (induction fs arbitrary: labels)
  case Nil
  then show ?case by auto
next
  case (Cons f fs)
  obtain key v where f: "f = (key, v)" by (rule prod.exhaust)
  show ?case
  proof (cases "label_scalar v")
    case True
    then show ?thesis
      using Cons.IH by (auto simp: f bind_result_Inr_iff ser_label_value_text)
  next
    case False
    then show ?thesis
      using ser_label_value_scalar [of ext v] by (auto simp: f bind_result_Inr_iff)
  qed
qed

definition pair_well_formed :: "label_pair \<Rightarrow> bool" where
  "pair_well_formed l \<longleftrightarrow> valid_name_opt (lp_name l) \<and> lp_value l \<noteq> None"

lemma ser_tuple_elements_wf:
  "ser_tuple_elements ext name val es = Inr ls \<Longrightarrow> is_none_or is_valid_name name \<Longrightarrow>
     (\<forall>l\<in>set ls. pair_well_formed l) \<and> length ls = 1"
proof (induction ext name val es rule: ser_tuple_elements.induct)
  case (1 ext name val)
  then show ?case
    by (auto simp: pair_well_formed_def split: option.splits)
next
  case (2 ext name val e es)
  show ?case
    using "2.prems" "2.IH" by (cases name; cases val) (auto simp: bind_result_Inr_iff)
qed

lemma ser_label_set_wf:
  "ser_label_set ext v = Inr ls \<Longrightarrow> \<forall>l\<in>set ls. pair_well_formed l"
  "ser_seq_elements ext labels vs = Inr ls' \<Longrightarrow> \<forall>l\<in>set labels. pair_well_formed l \<Longrightarrow>
     \<forall>l\<in>set ls'. pair_well_formed l"
proof (induction ext v and ext labels vs arbitrary: ls and ls'
    rule: ser_label_set_ser_seq_elements.induct)
  case (6 ext name fs)
  then show ?case
    by (auto simp: ser_struct_fields_Inr pair_well_formed_def)
next
  case (18 ext len vs)
  then show ?case
    using ser_tuple_elements_wf by (auto simp: ser_tuple_def split: if_splits)
next
  case (24 ext labels v vs)
  from "24.prems" (1) obtain ls where ls: "ser_label_set ext v = Inr ls"
    "(case ls of [l] \<Rightarrow> ser_seq_elements ext (labels @ [l]) vs
       | _ \<Rightarrow> Inl ''label sequences must contain name-value pairs'') = Inr ls'"
    by (auto simp: bind_result_Inr_iff)
  then obtain l where l: "ls = [l]" "ser_seq_elements ext (labels @ [l]) vs = Inr ls'"
    by (auto split: list.splits)
  then have "pair_well_formed l"
    using "24.IH" (1) [OF ls(1)] by simp
  with "24.prems" (2) have "\<forall>l\<in>set (labels @ [l]). pair_well_formed l"
    by simp
  then show ?case
    by (rule "24.IH" (2) [OF ls(1) l(1) refl l(2)])
qed (simp_all add: invalid_label_set_def)

section \<open>Properties\<close>

text \<open>Serializing a struct of labels succeeds exactly when every field name is a valid label
  name and every field value is a scalar (behind any number of \<open>Some\<close> and newtype wrappers);
  the result is then one pair per field, in declaration order, holding the field name and the
  unescaped text of the value.\<close>

theorem struct_label_set_iff:
  "to_label_pairs ext (SStruct name fs) = Inr ls \<longleftrightarrow>
     (\<forall>(key, v)\<in>set fs. is_valid_name key \<and> label_scalar v) \<and>
     ls = map (\<lambda>(key, v). \<lparr>lp_name = Some key, lp_value = Some (label_text ext v)\<rparr>) fs"
  by (simp add: to_label_pairs_def ser_struct_fields_Inr)

theorem struct_label_set_iff_witness:
  "to_label_pairs constant_externals (SStruct ''Labels'' [(''a'', SSome (SStr ''x'')), (''b'', SBool True)]) =
     Inr [\<lparr>lp_name = Some ''a'', lp_value = Some ''x''\<rparr>, \<lparr>lp_name = Some ''b'', lp_value = Some ''true''\<rparr>] \<and>
   (\<nexists>ls. to_label_pairs constant_externals (SStruct ''Labels'' [(''a'', SSeq [])]) = Inr ls)"
  unfolding struct_label_set_iff
  by (simp add: is_valid_name_def label_text_def show_bool_def)

text \<open>C26: Whatever value is serialized (struct, unit, sequence of pairs, tuple, nested wrappers),
  every pair of a successful result has a valid name and a value, so the validation that runs
  later can only object to duplicate or reserved names: it accepts the labels of a row of type
  \<open>t\<close> exactly when their names are distinct and none is the reserved one.\<close>

theorem serialized_labels_pass_validation:
  assumes "to_label_pairs ext v = Inr ls"
  shows "(\<forall>l\<in>set ls. pair_well_formed l) \<and>
    (find_label_issue ls (reserved_row_label t) = None \<longleftrightarrow>
       distinct (map lp_name ls) \<and>
       (reserved_row_label t = None \<or> reserved_row_label t \<notin> lp_name ` set ls))"
proof -
  have wf: "\<forall>l\<in>set ls. pair_well_formed l"
    using assms ser_label_set_wf (1) by (simp add: to_label_pairs_def)
  have "(reserved_row_label t \<noteq> None \<longrightarrow> (\<forall>l\<in>set ls. lp_name l \<noteq> reserved_row_label t)) \<longleftrightarrow>
      reserved_row_label t = None \<or> reserved_row_label t \<notin> lp_name ` set ls"
    by (metis image_iff)
  with wf show ?thesis
    by (auto simp: find_label_issue_None labels_ok_def pair_well_formed_def)
qed

theorem serialized_labels_pass_validation_witness:
  "to_label_pairs constant_externals
     (SSeq [STuple 2 [SStr ''trace_id'', SStr ''abc''], STuple 2 [SStr ''span_id'', SSome (SInt U16 7)]]) =
     Inr [\<lparr>lp_name = Some ''trace_id'', lp_value = Some ''abc''\<rparr>,
          \<lparr>lp_name = Some ''span_id'', lp_value = Some ''7''\<rparr>] \<and>
   find_label_issue
     [\<lparr>lp_name = Some ''trace_id'', lp_value = Some ''abc''\<rparr>,
      \<lparr>lp_name = Some ''span_id'', lp_value = Some ''7''\<rparr>] (reserved_row_label (Some Summary)) = None"
proof -
  have s: "to_label_pairs constant_externals
     (SSeq [STuple 2 [SStr ''trace_id'', SStr ''abc''], STuple 2 [SStr ''span_id'', SSome (SInt U16 7)]]) =
     Inr [\<lparr>lp_name = Some ''trace_id'', lp_value = Some ''abc''\<rparr>,
          \<lparr>lp_name = Some ''span_id'', lp_value = Some ''7''\<rparr>]"
    by (simp add: to_label_pairs_def ser_tuple_def validate_label_name_def is_valid_name_def
        show_int_def show_uint_onto.simps digit_char_def char_of_def bit_iff_odd)
  show ?thesis
    using s serialized_labels_pass_validation [OF s, of "Some Summary"]
    by (simp add: reserved_row_label_def)
qed

end
