(* ===== verification/Exemplars.thy ===== *)
theory Exemplars
  imports Histograms Labels
begin

text \<open>
  Exemplars, \<open>foundations-metrics/src/metrics/exemplar.rs\<close> and the \<open>WithExemplar\<close>
  implementations of \<open>counter.rs\<close> and \<open>histogram.rs\<close>. The storage is \<open>Empty\<close> until the first
  labelled update and then either a single exemplar or one per bucket; the arms for the other
  shape are \<open>unreachable!\<close>, a \<open>Panic\<close> event here. A label set that does not serialize becomes
  a reserved label, which validation turns into a report once all locks are released.
\<close>

section \<open>Exemplars and their storage\<close>

record 'v exemplar_of =
  xe_label_set :: sval
  xe_value :: 'v
  xe_timestamp :: "timestamp option"

definition exemplar_new :: "sval \<Rightarrow> 'v \<Rightarrow> timestamp option \<Rightarrow> 'v exemplar_of" where
  "exemplar_new label_set v ts = \<lparr>xe_label_set = label_set, xe_value = v, xe_timestamp = ts\<rparr>"

definition exemplar_encode ::
    "externals \<Rightarrow> ('v \<Rightarrow> f64) \<Rightarrow> 'v exemplar_of \<Rightarrow> string + exemplar" where
  "exemplar_encode ext into_f64 e =
     bind_result (to_label_pairs ext (xe_label_set e)) (\<lambda>label.
       Inr \<lparr>ex_label = label, ex_value = Some (into_f64 (xe_value e)), ex_timestamp = xe_timestamp e\<rparr>)"

datatype stored_exemplar =
    StoredI64 "i64 exemplar_of"
  | StoredU64 "u64 exemplar_of"
  | StoredF64 "f64 exemplar_of"

fun stored_encode :: "externals \<Rightarrow> stored_exemplar \<Rightarrow> string + exemplar" where
  "stored_encode ext (StoredI64 e) = exemplar_encode ext f64_of_i64 e"
| "stored_encode ext (StoredU64 e) = exemplar_encode ext f64_of_u64 e"
| "stored_encode ext (StoredF64 e) = exemplar_encode ext (\<lambda>v. v) e"

definition finish_exemplar :: "(string + exemplar) option \<Rightarrow> exemplar option" where
  "finish_exemplar r =
     (case r of
        Some (Inr e) \<Rightarrow> Some e
      | Some (Inl err) \<Rightarrow>
          Some (exemplar_default\<lparr>ex_label :=
            [\<lparr>lp_name = Some exemplar_serialization_error_label, lp_value = Some err\<rparr>]\<rparr>)
      | None \<Rightarrow> None)"

datatype exemplar_storage =
    NoExemplars
  | Single "stored_exemplar option"
  | PerBucket "nat \<rightharpoonup> f64 exemplar_of"

fun storage_clear :: "exemplar_storage \<Rightarrow> exemplar_storage" where
  "storage_clear NoExemplars = NoExemplars"
| "storage_clear (Single e) = Single None"
| "storage_clear (PerBucket es) = PerBucket (\<lambda>_. None)"

text \<open>The wrapped metric's shared state and the storage behind the mutex.\<close>

record 'a with_exemplar =
  we_inner :: 'a
  we_exemplars :: exemplar_storage

definition with_exemplar_new :: "'a \<Rightarrow> 'a with_exemplar" where
  "with_exemplar_new metric = \<lparr>we_inner = metric, we_exemplars = NoExemplars\<rparr>"

definition clear_exemplars :: "'a with_exemplar \<Rightarrow> 'a with_exemplar" where
  "clear_exemplars w = w\<lparr>we_exemplars := storage_clear (we_exemplars w)\<rparr>"

section \<open>Counters with exemplars\<close>

text \<open>\<open>impl_counter_with_exemplar!(value, variant)\<close>: \<open>inc_by\<close> is the atomic's and \<open>variant\<close> the
  constructor of \<open>StoredExemplar\<close>.\<close>

definition inc_by_with_exemplar ::
    "('n \<Rightarrow> 'a \<Rightarrow> 'n \<times> 'a) \<Rightarrow> ('n exemplar_of \<Rightarrow> stored_exemplar) \<Rightarrow> sval \<Rightarrow> 'n \<Rightarrow>
     'a with_exemplar \<Rightarrow> 'n \<times> 'a with_exemplar \<times> event list" where
  "inc_by_with_exemplar inc_by variant label_set v w =
     (let exemplar = variant (exemplar_new label_set v None)
      in case inc_by v (we_inner w) of (previous, inner) \<Rightarrow>
         case we_exemplars w of
           NoExemplars \<Rightarrow> (previous, \<lparr>we_inner = inner, we_exemplars = Single (Some exemplar)\<rparr>, [])
         | Single stored \<Rightarrow> (previous, \<lparr>we_inner = inner, we_exemplars = Single (Some exemplar)\<rparr>, [])
         | PerBucket es \<Rightarrow> (previous, w\<lparr>we_inner := inner\<rparr>,
                            [Panic ''counter uses single exemplar storage'']))"

text \<open>\<open>families[0].metric[0].counter.as_mut().expect(..).exemplar = exemplar\<close>.\<close>

definition set_counter_exemplar ::
    "exemplar option \<Rightarrow> metric_family list \<Rightarrow> metric_family list \<times> event list" where
  "set_counter_exemplar e fs =
     (case fs of
        f # rest \<Rightarrow>
          (case f_metric f of
             m # ms \<Rightarrow>
               (case m_counter m of
                  Some c \<Rightarrow>
                    (f\<lparr>f_metric := m\<lparr>m_counter := Some (c\<lparr>c_exemplar := e\<rparr>)\<rparr> # ms\<rparr> # rest, [])
                | None \<Rightarrow> (fs, [Panic ''counter encoder always creates a counter value'']))
           | [] \<Rightarrow> (fs, [Panic ''index out of bounds'']))
      | [] \<Rightarrow> (fs, [Panic ''index out of bounds'']))"

definition counter_with_exemplar_encode ::
    "externals \<Rightarrow> ('a \<Rightarrow> f64) \<Rightarrow> 'a with_exemplar \<Rightarrow> metric_family list \<times> event list" where
  "counter_with_exemplar_encode ext get_f64 w =
     (case we_exemplars w of
        PerBucket es \<Rightarrow> ([], [Panic ''counter uses single exemplar storage''])
      | NoExemplars \<Rightarrow> set_counter_exemplar None (encode_counter (get_f64 (we_inner w)))
      | Single e \<Rightarrow> set_counter_exemplar (finish_exemplar (map_option (stored_encode ext) e))
                       (encode_counter (get_f64 (we_inner w))))"

section \<open>Histograms with exemplars\<close>

definition observe_with_exemplar ::
    "sval \<Rightarrow> f64 \<Rightarrow> histogram_state with_exemplar \<Rightarrow> histogram_state with_exemplar \<times> event list" where
  "observe_with_exemplar label_set v w =
     (let exemplar = exemplar_new label_set v None
      in case observe_and_bucket v (we_inner w) of
           (None, inner) \<Rightarrow> (w\<lparr>we_inner := inner\<rparr>, [])
         | (Some bucket, inner) \<Rightarrow>
             (case we_exemplars w of
                NoExemplars \<Rightarrow>
                  (\<lparr>we_inner = inner, we_exemplars = PerBucket ((\<lambda>_. None)(bucket \<mapsto> exemplar))\<rparr>, [])
              | PerBucket es \<Rightarrow> (\<lparr>we_inner = inner, we_exemplars = PerBucket (es(bucket \<mapsto> exemplar))\<rparr>, [])
              | Single e \<Rightarrow> (w\<lparr>we_inner := inner\<rparr>,
                              [Panic ''classic histogram uses per-bucket exemplar storage''])))"

fun attach_exemplars :: "externals \<Rightarrow> (nat \<times> f64 exemplar_of) list \<Rightarrow> bucket list \<Rightarrow> bucket list" where
  "attach_exemplars ext [] buckets = buckets"
| "attach_exemplars ext ((index, e) # es) buckets =
     attach_exemplars ext es
       (if index < length buckets
        then buckets[index := (buckets ! index)\<lparr>b_exemplar :=
               finish_exemplar (Some (exemplar_encode ext (\<lambda>v. v) e))\<rparr>]
        else buckets)"

definition set_bucket_exemplars ::
    "externals \<Rightarrow> (nat \<times> f64 exemplar_of) list \<Rightarrow> metric_family list \<Rightarrow> metric_family list \<times> event list" where
  "set_bucket_exemplars ext es fs =
     (case fs of
        f # rest \<Rightarrow>
          (case f_metric f of
             m # ms \<Rightarrow>
               (case m_histogram m of
                  Some h \<Rightarrow>
                    (f\<lparr>f_metric := m\<lparr>m_histogram :=
                        Some (h\<lparr>h_bucket := attach_exemplars ext es (h_bucket h)\<rparr>)\<rparr> # ms\<rparr> # rest, [])
                | None \<Rightarrow> (fs, [Panic ''histogram encoder always creates a histogram value'']))
           | [] \<Rightarrow> (fs, [Panic ''index out of bounds'']))
      | [] \<Rightarrow> (fs, [Panic ''index out of bounds'']))"

text \<open>\<open>es\<close> is the iteration order of the per-bucket map.\<close>

definition histogram_with_exemplar_encode ::
    "externals \<Rightarrow> (nat \<times> f64 exemplar_of) list \<Rightarrow> histogram_state with_exemplar \<Rightarrow>
     metric_family list \<times> event list" where
  "histogram_with_exemplar_encode ext es w =
     (case we_exemplars w of
        Single e \<Rightarrow> ([], [Panic ''classic histogram uses per-bucket exemplar storage''])
      | NoExemplars \<Rightarrow> set_bucket_exemplars ext [] (encode_snapshot (snapshot (we_inner w)))
      | PerBucket m \<Rightarrow> set_bucket_exemplars ext es (encode_snapshot (snapshot (we_inner w))))"

definition builder_with_exemplar :: "histogram_builder \<Rightarrow> histogram_state with_exemplar" where
  "builder_with_exemplar b = with_exemplar_new (builder_new_metric b)"

section \<open>Runs of a counter with exemplars\<close>

datatype labelled_inc = PlainInc u64 | LabelledInc sval u64 | ClearInc

fun labelled_inc_step :: "labelled_inc \<Rightarrow> u64 with_exemplar \<Rightarrow> u64 with_exemplar \<times> event list" where
  "labelled_inc_step (PlainInc v) w = (w\<lparr>we_inner := snd (counter_u64_inc_by v (we_inner w))\<rparr>, [])"
| "labelled_inc_step (LabelledInc ls v) w =
     snd (inc_by_with_exemplar counter_u64_inc_by StoredU64 ls v w)"
| "labelled_inc_step ClearInc w = (clear_exemplars w, [])"

fun labelled_inc_run ::
    "labelled_inc list \<Rightarrow> u64 with_exemplar \<Rightarrow> u64 with_exemplar \<times> event list" where
  "labelled_inc_run [] w = (w, [])"
| "labelled_inc_run (op # ops) w =
     (case labelled_inc_step op w of (w', l) \<Rightarrow>
      case labelled_inc_run ops w' of (w'', ls) \<Rightarrow> (w'', l @ ls))"

fun inc_amount :: "labelled_inc \<Rightarrow> u64" where
  "inc_amount (PlainInc v) = v"
| "inc_amount (LabelledInc ls v) = v"
| "inc_amount ClearInc = 0"

text \<open>The labelled increment whose exemplar is in force.\<close>

fun current_exemplar :: "(sval \<times> u64) option \<Rightarrow> labelled_inc list \<Rightarrow> (sval \<times> u64) option" where
  "current_exemplar e [] = e"
| "current_exemplar e (PlainInc v # ops) = current_exemplar e ops"
| "current_exemplar e (LabelledInc ls v # ops) = current_exemplar (Some (ls, v)) ops"
| "current_exemplar e (ClearInc # ops) = current_exemplar None ops"

definition single_of :: "exemplar_storage \<Rightarrow> stored_exemplar option" where
  "single_of st = (case st of Single e \<Rightarrow> e | _ \<Rightarrow> None)"

definition no_buckets :: "exemplar_storage \<Rightarrow> bool" where
  "no_buckets st = (case st of PerBucket m \<Rightarrow> False | _ \<Rightarrow> True)"

definition stored_inc :: "sval \<times> u64 \<Rightarrow> stored_exemplar" where
  "stored_inc p = StoredU64 (exemplar_new (fst p) (snd p) None)"

lemma labelled_inc_run_result:
  "no_buckets (we_exemplars w) \<Longrightarrow> single_of (we_exemplars w) = map_option stored_inc e \<Longrightarrow>
     labelled_inc_run ops w = (w', evs) \<Longrightarrow>
     evs = [] \<and> no_buckets (we_exemplars w') \<and>
     single_of (we_exemplars w') = map_option stored_inc (current_exemplar e ops) \<and>
     we_inner w' = we_inner w + sum_list (map inc_amount ops)"
proof (induction ops arbitrary: w e evs)
  case (Cons op ops)
  show ?case
  proof (cases op)
    case (PlainInc v)
    then show ?thesis
      using Cons.prems Cons.IH [of "fst (labelled_inc_step op w)" e]
      by (auto simp: counter_u64_inc_by_def fetch_add_def ac_simps split: prod.splits)
  next
    case (LabelledInc ls v)
    have "labelled_inc_step op w =
        (\<lparr>we_inner = we_inner w + v, we_exemplars = Single (Some (stored_inc (ls, v)))\<rparr>, [])"
      using Cons.prems(1)
      by (simp add: LabelledInc inc_by_with_exemplar_def counter_u64_inc_by_def fetch_add_def Let_def
          no_buckets_def stored_inc_def split: exemplar_storage.splits)
    then show ?thesis
      using Cons.prems(3) LabelledInc
        Cons.IH [of "\<lparr>we_inner = we_inner w + v, we_exemplars = Single (Some (stored_inc (ls, v)))\<rparr>"
          "Some (ls, v)"]
      by (auto simp: no_buckets_def single_of_def ac_simps split: prod.splits)
  next
    case ClearInc
    have "no_buckets (storage_clear (we_exemplars w))" "single_of (storage_clear (we_exemplars w)) = None"
      using Cons.prems(1) by (cases "we_exemplars w"; simp add: no_buckets_def single_of_def)+
    then show ?thesis
      using Cons.prems(3) ClearInc Cons.IH [of "clear_exemplars w" None]
      by (auto simp: clear_exemplars_def split: prod.splits)
  qed
qed (auto)

section \<open>Runs of a histogram with exemplars\<close>

datatype labelled_obs = PlainObs f64 | LabelledObs sval f64 | ClearObs

fun labelled_obs_step ::
    "labelled_obs \<Rightarrow> histogram_state with_exemplar \<Rightarrow> histogram_state with_exemplar \<times> event list" where
  "labelled_obs_step (PlainObs v) w = (w\<lparr>we_inner := observe v (we_inner w)\<rparr>, [])"
| "labelled_obs_step (LabelledObs ls v) w = observe_with_exemplar ls v w"
| "labelled_obs_step ClearObs w = (clear_exemplars w, [])"

fun labelled_obs_run ::
    "labelled_obs list \<Rightarrow> histogram_state with_exemplar \<Rightarrow> histogram_state with_exemplar \<times> event list" where
  "labelled_obs_run [] w = (w, [])"
| "labelled_obs_run (op # ops) w =
     (case labelled_obs_step op w of (w', l) \<Rightarrow>
      case labelled_obs_run ops w' of (w'', ls) \<Rightarrow> (w'', l @ ls))"

text \<open>The labelled observation whose exemplar bucket \<open>i\<close> holds.\<close>

fun bucket_exemplar ::
    "f64 list \<Rightarrow> nat \<Rightarrow> (sval \<times> f64) option \<Rightarrow> labelled_obs list \<Rightarrow> (sval \<times> f64) option" where
  "bucket_exemplar bs i e [] = e"
| "bucket_exemplar bs i e (PlainObs v # ops) = bucket_exemplar bs i e ops"
| "bucket_exemplar bs i e (LabelledObs ls v # ops) =
     bucket_exemplar bs i (if lands_in bs i v \<and> i < length bs then Some (ls, v) else e) ops"
| "bucket_exemplar bs i e (ClearObs # ops) = bucket_exemplar bs i None ops"

definition bucket_map :: "exemplar_storage \<Rightarrow> nat \<rightharpoonup> f64 exemplar_of" where
  "bucket_map st = (case st of PerBucket m \<Rightarrow> m | _ \<Rightarrow> (\<lambda>_. None))"

definition no_single :: "exemplar_storage \<Rightarrow> bool" where
  "no_single st = (case st of Single e \<Rightarrow> False | _ \<Rightarrow> True)"

definition stored_obs :: "sval \<times> f64 \<Rightarrow> f64 exemplar_of" where
  "stored_obs p = exemplar_new (fst p) (snd p) None"

lemma observe_and_bucket_index:
  "good_bounds (bounds_of (hs_buckets s)) \<Longrightarrow>
     fst (observe_and_bucket v s) =
       (if \<not> is_nan v \<and> bucket_of (bounds_of (hs_buckets s)) v < length (bounds_of (hs_buckets s))
        then Some (bucket_of (bounds_of (hs_buckets s)) v) else None)"
  using partition_point_bounds [of "hs_buckets s" v]
  by (simp add: observe_and_bucket_def Let_def bounds_of_length)

lemma labelled_obs_step_effect:
  assumes "good_bounds (bounds_of (hs_buckets (we_inner w)))" "no_single (we_exemplars w)"
    and "labelled_obs_step op w = (w', l)"
  shows "l = [] \<and> no_single (we_exemplars w') \<and>
    bounds_of (hs_buckets (we_inner w')) = bounds_of (hs_buckets (we_inner w)) \<and>
    bucket_map (we_exemplars w') i =
      (case op of
         PlainObs v \<Rightarrow> bucket_map (we_exemplars w) i
       | LabelledObs ls v \<Rightarrow>
           if lands_in (bounds_of (hs_buckets (we_inner w))) i v \<and> i < length (bounds_of (hs_buckets (we_inner w)))
           then Some (stored_obs (ls, v)) else bucket_map (we_exemplars w) i
       | ClearObs \<Rightarrow> None)"
proof (cases op)
  case (PlainObs v)
  then show ?thesis
    using assms observe_effect(3) [OF assms(1), of v] by auto
next
  case (LabelledObs ls v)
  obtain r inner where o: "observe_and_bucket v (we_inner w) = (r, inner)"
    by (rule prod.exhaust)
  have inner: "bounds_of (hs_buckets inner) = bounds_of (hs_buckets (we_inner w))"
    using observe_effect(3) [OF assms(1), of v] by (simp add: observe_def o)
  have r: "r = (if \<not> is_nan v \<and> bucket_of (bounds_of (hs_buckets (we_inner w))) v < length (bounds_of (hs_buckets (we_inner w)))
        then Some (bucket_of (bounds_of (hs_buckets (we_inner w))) v) else None)"
    using observe_and_bucket_index [OF assms(1), of v] by (simp add: o)
  show ?thesis
    using assms(2,3) inner r
    by (auto simp: LabelledObs observe_with_exemplar_def o Let_def no_single_def bucket_map_def
        lands_in_def stored_obs_def split: option.splits exemplar_storage.splits if_splits)
next
  case ClearObs
  then show ?thesis
    using assms(2,3) by (cases "we_exemplars w") (auto simp: clear_exemplars_def no_single_def bucket_map_def)
qed

lemma labelled_obs_run_result:
  "good_bounds (bounds_of (hs_buckets (we_inner w))) \<Longrightarrow> no_single (we_exemplars w) \<Longrightarrow>
   bucket_map (we_exemplars w) i = map_option stored_obs e \<Longrightarrow> labelled_obs_run ops w = (w', evs) \<Longrightarrow>
     evs = [] \<and> no_single (we_exemplars w') \<and>
     bounds_of (hs_buckets (we_inner w')) = bounds_of (hs_buckets (we_inner w)) \<and>
     bucket_map (we_exemplars w') i =
       map_option stored_obs (bucket_exemplar (bounds_of (hs_buckets (we_inner w))) i e ops)"
proof (induction ops arbitrary: w e evs)
  case (Cons op ops)
  obtain w1 l where st: "labelled_obs_step op w = (w1, l)"
    by (rule prod.exhaust)
  obtain l' where run: "labelled_obs_run ops w1 = (w', l')" "evs = l @ l'"
    using Cons.prems(4) by (auto simp: st split: prod.splits)
  note eff = labelled_obs_step_effect [OF Cons.prems(1,2) st, of i]
  define e1 where "e1 = (case op of PlainObs v \<Rightarrow> e
     | LabelledObs ls v \<Rightarrow>
         if lands_in (bounds_of (hs_buckets (we_inner w))) i v \<and> i < length (bounds_of (hs_buckets (we_inner w)))
         then Some (ls, v) else e
     | ClearObs \<Rightarrow> None)"
  have "bucket_map (we_exemplars w1) i = map_option stored_obs e1"
    using eff Cons.prems(3) by (cases op) (simp_all add: e1_def)
  moreover have "bucket_exemplar bs i e (op # ops) = bucket_exemplar bs i e1 ops"
    if "bs = bounds_of (hs_buckets (we_inner w))" for bs
    using that by (cases op) (simp_all add: e1_def)
  ultimately show ?case
    using eff Cons.prems(1) run Cons.IH [of w1 e1 l'] by simp
qed auto

lemma bucket_exemplar_lands:
  "bucket_exemplar bs i e ops = Some (ls, v) \<Longrightarrow>
     e = Some (ls, v) \<or> (lands_in bs i v \<and> i < length bs)"
  by (induction bs i e ops rule: bucket_exemplar.induct) (auto split: if_splits)

section \<open>Encoding with exemplars\<close>

lemma attach_exemplars_length [simp]: "length (attach_exemplars ext es bs) = length bs"
  by (induction ext es bs rule: attach_exemplars.induct) simp_all

lemma attach_exemplars_nth:
  "distinct (map fst es) \<Longrightarrow> i < length bs \<Longrightarrow> attach_exemplars ext es bs ! i =
     (case map_of es i of
        None \<Rightarrow> bs ! i
      | Some e \<Rightarrow> (bs ! i)\<lparr>b_exemplar := finish_exemplar (Some (exemplar_encode ext (\<lambda>v. v) e))\<rparr>)"
proof (induction ext es bs rule: attach_exemplars.induct)
  case (2 ext index e es buckets)
  then show ?case
    by (cases "index = i") (auto simp: map_of_eq_None_iff [THEN iffD2] nth_list_update split: option.split)
qed simp

lemma set_counter_exemplar_encode:
  "set_counter_exemplar e (encode_counter v) =
     ([\<lparr>f_name = Some [], f_help = None, f_type = Some (metric_type_to_i32 Counter),
        f_metric = [metric_default\<lparr>m_counter := Some (counter_default\<lparr>c_value := Some v, c_exemplar := e\<rparr>)\<rparr>],
        f_unit = None\<rparr>], [])"
  by (simp add: set_counter_exemplar_def encode_counter_def)

section \<open>Properties\<close>

text \<open>A counter with exemplars keeps the exemplar of its last labelled increment: after any
  sequence of plain increments, labelled increments and clears of a fresh counter, encoding
  gives the total of all increments with the exemplar of the last labelled one since the last
  clear (its labels and its own amount), or none; plain increments leave it in place, and no
  \<open>unreachable!\<close> or \<open>expect\<close> is reached by any update or by the encoding.\<close>

theorem counter_keeps_last_exemplar:
  "case labelled_inc_run ops (with_exemplar_new 0) of (w, evs) \<Rightarrow>
     evs = [] \<and>
     counter_with_exemplar_encode ext (\<lambda>a. f64_of_u64 (counter_u64_get a)) w =
       ([\<lparr>f_name = Some [], f_help = None, f_type = Some (metric_type_to_i32 Counter),
          f_metric = [metric_default\<lparr>m_counter := Some (counter_default\<lparr>
            c_value := Some (f64_of_u64 (sum_list (map inc_amount ops))),
            c_exemplar :=
              (case current_exemplar None ops of
                 None \<Rightarrow> None
               | Some (ls, v) \<Rightarrow> finish_exemplar (Some (exemplar_encode ext f64_of_u64 (exemplar_new ls v None))))\<rparr>)\<rparr>],
          f_unit = None\<rparr>], [])"
proof -
  obtain w evs where run: "labelled_inc_run ops (with_exemplar_new 0) = (w, evs)"
    by (rule prod.exhaust)
  have r: "evs = []" "no_buckets (we_exemplars w)"
    "single_of (we_exemplars w) = map_option stored_inc (current_exemplar None ops)"
    "we_inner w = sum_list (map inc_amount ops)"
    using labelled_inc_run_result [OF _ _ run, of None]
    by (simp_all add: with_exemplar_new_def no_buckets_def single_of_def)
  then show ?thesis
    by (cases "we_exemplars w"; cases "current_exemplar None ops")
      (auto simp: run counter_with_exemplar_encode_def no_buckets_def single_of_def
        set_counter_exemplar_encode counter_u64_get_def stored_inc_def finish_exemplar_def)
qed

lemma bucket_exemplar_within:
  assumes "bucket_exemplar bs i None ops = Some (ls, v)" "good_bounds bs" "i < length bs"
  shows "f64_ge (bs ! i) v \<and> (\<forall>j<i. f64_lt (bs ! j) v)"
proof -
  have l: "\<not> is_nan v" "bucket_of bs v = i"
    using bucket_exemplar_lands [OF assms(1)] by (simp_all add: lands_in_def)
  have "f64_lt (bs ! j) v" if "j < i" for j
  proof -
    have "j < length (takeWhile (\<lambda>b. f64_lt b v) bs)"
      using that l by (simp add: bucket_of_def)
    then show ?thesis
      by (metis nth_mem set_takeWhileD takeWhile_nth)
  qed
  then show ?thesis
    using bucket_of_le_iff [OF assms(2,3) l(1)] l(2) by simp
qed

text \<open>A histogram with exemplars exports in each bucket the exemplar of the last labelled
  observation that landed there since the last clear, whatever plain observations came between
  and in whatever order the storage is iterated; so an exported exemplar's value lies within its
  bucket: not above its bound and above the previous bound. No \<open>unreachable!\<close> or \<open>expect\<close> is
  reached.\<close>

theorem histogram_exemplars_in_bucket:
  assumes "\<forall>b\<in>set bs. \<not> is_nan b"
    and "labelled_obs_run ops (with_exemplar_new (histogram_new bs)) = (w, evs)"
    and "iteration_of (bucket_map (we_exemplars w)) es"
    and "histogram_with_exemplar_encode ext es w = (fs, evs')"
    and "i < length (sort (bs @ [f64_max]))"
  shows "evs = [] \<and> evs' = [] \<and>
    b_exemplar (h_bucket (the (m_histogram (f_metric (fs ! 0) ! 0))) ! i) =
      (case bucket_exemplar (sort (bs @ [f64_max])) i None ops of
         None \<Rightarrow> None
       | Some (ls, v) \<Rightarrow> finish_exemplar (Some (exemplar_encode ext (\<lambda>v. v) (exemplar_new ls v None)))) \<and>
    (\<forall>ls v. bucket_exemplar (sort (bs @ [f64_max])) i None ops = Some (ls, v) \<longrightarrow>
       f64_ge (sort (bs @ [f64_max]) ! i) v \<and>
       (\<forall>j<i. f64_lt (sort (bs @ [f64_max]) ! j) v))"
proof -
  let ?bs = "sort (bs @ [f64_max])"
  have good: "good_bounds ?bs"
    by (rule sorted_bounds_good [OF assms(1)])
  have new: "bounds_of (hs_buckets (we_inner (with_exemplar_new (histogram_new bs)))) = ?bs"
    by (simp add: with_exemplar_new_def new_bounds)
  have r: "evs = []" "no_single (we_exemplars w)" "bounds_of (hs_buckets (we_inner w)) = ?bs"
    "bucket_map (we_exemplars w) i = map_option stored_obs (bucket_exemplar ?bs i None ops)" for i
    using labelled_obs_run_result [OF _ _ _ assms(2), of i None] new good
    by (simp_all add: with_exemplar_new_def no_single_def bucket_map_def)
  have len: "length (hs_buckets (we_inner w)) = length ?bs"
    using r(3) by (metis bounds_of_length)
  have es: "distinct (map fst es)" "map_of es = bucket_map (we_exemplars w)"
    using assms(3) by (simp_all add: iteration_of_def)
  have "histogram_with_exemplar_encode ext es w = set_bucket_exemplars ext es (encode_snapshot (snapshot (we_inner w)))"
    using r(2) es by (cases "we_exemplars w")
      (auto simp: histogram_with_exemplar_encode_def no_single_def bucket_map_def)
  then have fs: "evs' = []" "h_bucket (the (m_histogram (f_metric (fs ! 0) ! 0))) =
      attach_exemplars ext es (encode_buckets 0 (hs_buckets (we_inner w)))"
    using assms(4) by (auto simp: set_bucket_exemplars_def encode_snapshot_def snapshot_def
        histogram_default_def metric_default_def)
  have "b_exemplar (encode_buckets 0 (hs_buckets (we_inner w)) ! i) = None"
    using assms(5) len by (simp add: encode_buckets_nth bucket_default_def)
  then have ex: "b_exemplar (h_bucket (the (m_histogram (f_metric (fs ! 0) ! 0))) ! i) =
      (case bucket_exemplar ?bs i None ops of
         None \<Rightarrow> None
       | Some (ls, v) \<Rightarrow> finish_exemplar (Some (exemplar_encode ext (\<lambda>v. v) (exemplar_new ls v None))))"
    using assms(5) len attach_exemplars_nth [OF es(1), of i "encode_buckets 0 (hs_buckets (we_inner w))" ext]
    by (simp add: fs(2) es(2) r(4) stored_obs_def split: option.split)
  with r(1) fs(1) bucket_exemplar_within [OF _ good assms(5)] show ?thesis by blast
qed

definition sample_obs :: "labelled_obs list" where
  "sample_obs = [LabelledObs (SStruct ''T'' [(''id'', SStr ''a'')]) f64_zero, PlainObs f64_one,
     LabelledObs (SStruct ''T'' [(''id'', SStr ''b'')]) f64_one]"

lemma sample_bounds: "sort [f64_one, f64_max] = [f64_one, f64_max]"
  by (simp add: less_eq_f64_def total_key_def)

lemma sample_bucket_exemplar:
  "bucket_exemplar [f64_one, f64_max] i None sample_obs =
     (if i = 0 then Some (SStruct ''T'' [(''id'', SStr ''b'')], f64_one) else None)"
  by (auto simp: sample_obs_def lands_in_def bucket_of_def f64_lt_def f64_ord_def)

theorem histogram_exemplars_in_bucket_witness:
  "b_exemplar (h_bucket (the (m_histogram (f_metric (fst (histogram_with_exemplar_encode constant_externals
      [(0, exemplar_new (SStruct ''T'' [(''id'', SStr ''b'')]) f64_one None)]
      (fst (labelled_obs_run sample_obs (with_exemplar_new (histogram_new [f64_one]))))) ! 0) ! 0))) ! 0) =
   Some \<lparr>ex_label = [\<lparr>lp_name = Some ''id'', lp_value = Some ''b''\<rparr>], ex_value = Some f64_one,
     ex_timestamp = None\<rparr>"
proof -
  let ?e = "exemplar_new (SStruct ''T'' [(''id'', SStr ''b'')]) f64_one None"
  let ?new = "with_exemplar_new (histogram_new [f64_one])"
  let ?w = "fst (labelled_obs_run sample_obs ?new)"
  have run: "labelled_obs_run sample_obs ?new = (?w, snd (labelled_obs_run sample_obs ?new))"
    by (rule prod.collapse [symmetric])
  have new: "bounds_of (hs_buckets (we_inner ?new)) = [f64_one, f64_max]"
    by (simp add: with_exemplar_new_def new_bounds) (simp add: less_eq_f64_def total_key_def)
  have good: "good_bounds (bounds_of (hs_buckets (we_inner ?new)))"
    using sorted_bounds_good [of "[f64_one]"] by (simp add: with_exemplar_new_def new_bounds)
  have start: "no_single (we_exemplars ?new)" "bucket_map (we_exemplars ?new) i = map_option stored_obs None" for i
    by (simp_all add: with_exemplar_new_def no_single_def bucket_map_def)
  have "bucket_map (we_exemplars ?w) i = map_option stored_obs (bucket_exemplar [f64_one, f64_max] i None sample_obs)" for i
    using labelled_obs_run_result [OF good start run, of i] unfolding new by blast
  then have "bucket_map (we_exemplars ?w) i = (if i = 0 then Some ?e else None)" for i
    by (simp only: sample_bucket_exemplar) (simp add: stored_obs_def)
  then have it: "iteration_of (bucket_map (we_exemplars ?w)) [(0, ?e)]"
    by (auto simp: iteration_of_def fun_eq_iff)
  have srt: "sort ([f64_one] @ [f64_max]) = [f64_one, f64_max]"
    using sample_bounds by simp
  show ?thesis
    using histogram_exemplars_in_bucket [OF _ run it prod.collapse [symmetric], of 0 constant_externals]
    unfolding srt sample_bucket_exemplar
    by (simp add: finish_exemplar_def exemplar_encode_def exemplar_new_def to_label_pairs_def
        validate_label_name_def is_valid_name_def)
qed

text \<open>A label set that does not serialize costs its exemplar, not its row: the counter row is
  encoded with the reserved marker label, and validation in any context keeps the row and its
  value, drops the exemplar and reports the serialization error.\<close>

theorem exemplar_error_is_deferred:
  assumes "to_label_pairs ext ls = Inl err"
  shows "sanitize_row (Some Counter) family ctx
      (metric_default\<lparr>m_counter := Some (counter_default\<lparr>c_value := Some x,
         c_exemplar := finish_exemplar (Some (exemplar_encode ext f64_of_u64 (exemplar_new ls v ts)))\<rparr>)\<rparr>) =
    (True, metric_default\<lparr>m_counter := Some (counter_default\<lparr>c_value := Some x\<rparr>)\<rparr>,
     [Report (ExemplarSerialization ctx CounterExemplar family err)])"
  using assms
  by (simp add: sanitize_row_def find_label_issue_def reserved_row_label_def sanitize_exemplars_def
      on_option_def sanitize_counter_exemplar_def sanitize_exemplar_slot_def finish_exemplar_def
      exemplar_encode_def exemplar_new_def find_exemplar_issue_def proto_defaults)

theorem exemplar_error_is_deferred_witness:
  "sanitize_row (Some Counter) ''m'' Collection
      (metric_default\<lparr>m_counter := Some (counter_default\<lparr>c_value := Some f64_one,
         c_exemplar := finish_exemplar (Some (exemplar_encode constant_externals f64_of_u64
           (exemplar_new (SBool True) 1 None)))\<rparr>)\<rparr>) =
    (True, metric_default\<lparr>m_counter := Some (counter_default\<lparr>c_value := Some f64_one\<rparr>)\<rparr>,
     [Report (ExemplarSerialization Collection CounterExemplar ''m'' invalid_label_set)])"
  by (rule exemplar_error_is_deferred) (simp add: to_label_pairs_def)

end
