(* ===== verification/NativeHistograms.thy ===== *)
theory NativeHistograms
  imports Exemplars
begin

text \<open>
  Native histograms, \<open>foundations-metrics/src/metrics/native_histogram.rs\<close>: the checked
  configuration, the conversion of the wrapped crate's protobuf model, and exemplars. The
  wrapped crate \<open>prometheus-client\<close> is not in the repository: its histogram is the type
  \<open>'h\<close>, its constructor, \<open>observe\<close> and protobuf encoder are the record \<open>prometheus_client\<close>,
  and of its messages the records below hold the fields the conversion reads.
\<close>

section \<open>The wrapped crate\<close>

record prom_label =
  pl_name :: string
  pl_value :: string

record prom_bucket =
  pb_cumulative_count :: u64
  pb_cumulative_count_float :: f64
  pb_upper_bound :: f64

record prom_span =
  ps_offset :: i32
  ps_length :: u32

record prom_histogram =
  ph_sample_count :: u64
  ph_sample_count_float :: f64
  ph_sample_sum :: f64
  ph_bucket :: "prom_bucket list"
  ph_start_timestamp :: "timestamp option"
  ph_schema :: i32
  ph_zero_threshold :: f64
  ph_zero_count :: u64
  ph_zero_count_float :: f64
  ph_negative_span :: "prom_span list"
  ph_negative_delta :: "i64 list"
  ph_negative_count :: "f64 list"
  ph_positive_span :: "prom_span list"
  ph_positive_delta :: "i64 list"
  ph_positive_count :: "f64 list"

record prom_metric =
  pm_label :: "prom_label list"
  pm_histogram :: "prom_histogram option"
  pm_timestamp_ms :: i64

record prom_family =
  pf_metric :: "prom_metric list"
  pf_unit :: string

text \<open>\<open>new_native\<close> of a configuration (factor, zero threshold, maximal bucket count),
  \<open>observe\<close>, and \<open>encode\<close> of a registry that holds the one histogram.\<close>

record 'h prometheus_client =
  pc_new_native :: "f64 \<Rightarrow> f64 \<Rightarrow> nat \<Rightarrow> 'h"
  pc_observe :: "f64 \<Rightarrow> 'h \<Rightarrow> 'h"
  pc_encode :: "'h \<Rightarrow> string + prom_family list"

section \<open>Configuration\<close>

record native_builder =
  nb_bucket_factor :: f64
  nb_zero_threshold :: f64
  nb_max_buckets :: nat

definition native_builder_new :: "f64 \<Rightarrow> native_builder" where
  "native_builder_new factor =
     \<lparr>nb_bucket_factor = factor, nb_zero_threshold = f64_zero, nb_max_buckets = 0\<rparr>"

definition with_zero_threshold :: "f64 \<Rightarrow> native_builder \<Rightarrow> native_builder" where
  "with_zero_threshold t b = b\<lparr>nb_zero_threshold := t\<rparr>"

definition with_max_buckets :: "nat \<Rightarrow> native_builder \<Rightarrow> native_builder" where
  "with_max_buckets n b = b\<lparr>nb_max_buckets := n\<rparr>"

datatype native_panic = FactorTooSmall f64 | ThresholdNotFinite f64

text \<open>\<open>config\<close>: the two assertions, then the wrapped crate's configuration.\<close>

definition native_config :: "native_builder \<Rightarrow> native_panic + (f64 \<times> f64 \<times> nat)" where
  "native_config b =
     (if \<not> f64_gt (nb_bucket_factor b) f64_one then Inl (FactorTooSmall (nb_bucket_factor b))
      else if \<not> is_finite (nb_zero_threshold b) then Inl (ThresholdNotFinite (nb_zero_threshold b))
      else Inr (nb_bucket_factor b, nb_zero_threshold b, nb_max_buckets b))"

definition native_new_metric :: "'h prometheus_client \<Rightarrow> native_builder \<Rightarrow> native_panic + 'h" where
  "native_new_metric pc b =
     bind_result (native_config b) (\<lambda>(factor, threshold, n). Inr (pc_new_native pc factor threshold n))"

definition native_new :: "'h prometheus_client \<Rightarrow> f64 \<Rightarrow> native_panic + 'h" where
  "native_new pc factor = native_new_metric pc (native_builder_new factor)"

definition native_new_with_exemplar ::
    "'h prometheus_client \<Rightarrow> native_builder \<Rightarrow> native_panic + 'h with_exemplar" where
  "native_new_with_exemplar pc b =
     bind_result (native_new_metric pc b) (\<lambda>h. Inr (with_exemplar_new h))"

definition native_observe :: "'h prometheus_client \<Rightarrow> f64 \<Rightarrow> 'h \<Rightarrow> 'h" where
  "native_observe pc v h = pc_observe pc v h"

section \<open>Conversion\<close>

definition then_some :: "bool \<Rightarrow> 'a \<Rightarrow> 'a option" where
  "then_some b x = (if b then Some x else None)"

definition convert_native_span :: "prom_span \<Rightarrow> bucket_span" where
  "convert_native_span s = \<lparr>bs_offset = Some (ps_offset s), bs_length = Some (ps_length s)\<rparr>"

definition convert_native_bucket :: "prom_bucket \<Rightarrow> bucket" where
  "convert_native_bucket b = bucket_default\<lparr>
     b_cumulative_count := Some (pb_cumulative_count b),
     b_cumulative_count_float :=
       then_some (f64_gt (pb_cumulative_count_float b) f64_zero) (pb_cumulative_count_float b),
     b_upper_bound := Some (pb_upper_bound b)\<rparr>"

definition convert_native_histogram :: "prom_histogram \<Rightarrow> histogram_msg" where
  "convert_native_histogram h = histogram_default\<lparr>
     h_sample_count := Some (ph_sample_count h),
     h_sample_count_float :=
       then_some (f64_gt (ph_sample_count_float h) f64_zero) (ph_sample_count_float h),
     h_sample_sum := Some (ph_sample_sum h),
     h_bucket := map convert_native_bucket (ph_bucket h),
     h_created_timestamp := ph_start_timestamp h,
     h_schema := Some (ph_schema h),
     h_zero_threshold := Some (ph_zero_threshold h),
     h_zero_count := Some (ph_zero_count h),
     h_zero_count_float :=
       then_some (f64_gt (ph_zero_count_float h) f64_zero) (ph_zero_count_float h),
     h_negative_span := map convert_native_span (ph_negative_span h),
     h_negative_delta := ph_negative_delta h,
     h_negative_count := ph_negative_count h,
     h_positive_span := map convert_native_span (ph_positive_span h),
     h_positive_delta := ph_positive_delta h,
     h_positive_count := ph_positive_count h\<rparr>"

definition convert_native_metric :: "prom_metric \<Rightarrow> metric" where
  "convert_native_metric m = metric_default\<lparr>
     m_label := map (\<lambda>l. \<lparr>lp_name = Some (pl_name l), lp_value = Some (pl_value l)\<rparr>) (pm_label m),
     m_histogram := map_option convert_native_histogram (pm_histogram m),
     m_timestamp_ms := then_some (pm_timestamp_ms m \<noteq> 0) (pm_timestamp_ms m)\<rparr>"

definition convert_native_family :: "prom_family \<Rightarrow> metric_family" where
  "convert_native_family f =
     \<lparr>f_name = Some [], f_help = None, f_type = Some (metric_type_to_i32 Histogram),
      f_metric = map convert_native_metric (pf_metric f),
      f_unit = then_some (pf_unit f \<noteq> []) (pf_unit f)\<rparr>"

definition try_encode_metric_value :: "'h prometheus_client \<Rightarrow> 'h \<Rightarrow> string + metric_family list" where
  "try_encode_metric_value pc h =
     bind_result (pc_encode pc h) (\<lambda>fs. Inr (map convert_native_family fs))"

definition native_encode_metric_value ::
    "'h prometheus_client \<Rightarrow> 'h \<Rightarrow> metric_family list \<times> event list" where
  "native_encode_metric_value pc h =
     (case try_encode_metric_value pc h of
        Inr fs \<Rightarrow> (fs, [])
      | Inl err \<Rightarrow> ([], [Report (NativeEncodingFailed err)]))"

section \<open>Exemplars\<close>

text \<open>\<open>now\<close> is \<open>SystemTime::now().into()\<close>.\<close>

definition native_observe_with_exemplar ::
    "'h prometheus_client \<Rightarrow> timestamp \<Rightarrow> sval \<Rightarrow> f64 \<Rightarrow> 'h with_exemplar \<Rightarrow>
     'h with_exemplar \<times> event list" where
  "native_observe_with_exemplar pc now label_set v w =
     (let exemplar = exemplar_new label_set v None;
          inner = pc_observe pc v (we_inner w);
          exemplar = StoredF64 (exemplar\<lparr>xe_timestamp := Some now\<rparr>)
      in case we_exemplars w of
           NoExemplars \<Rightarrow> (\<lparr>we_inner = inner, we_exemplars = Single (Some exemplar)\<rparr>, [])
         | Single stored \<Rightarrow> (\<lparr>we_inner = inner, we_exemplars = Single (Some exemplar)\<rparr>, [])
         | PerBucket es \<Rightarrow> (w\<lparr>we_inner := inner\<rparr>,
                            [Panic ''native histogram uses single exemplar storage'']))"

definition push_exemplar :: "exemplar \<Rightarrow> metric_family \<Rightarrow> metric_family" where
  "push_exemplar e f = f\<lparr>f_metric := map (\<lambda>m. m\<lparr>m_histogram :=
     map_option (\<lambda>h. h\<lparr>h_exemplars := h_exemplars h @ [e]\<rparr>) (m_histogram m)\<rparr>) (f_metric f)\<rparr>"

definition native_with_exemplar_encode ::
    "externals \<Rightarrow> 'h prometheus_client \<Rightarrow> 'h with_exemplar \<Rightarrow> metric_family list \<times> event list" where
  "native_with_exemplar_encode ext pc w =
     (case we_exemplars w of
        PerBucket es \<Rightarrow> ([], [Panic ''native histogram uses single exemplar storage''])
      | st \<Rightarrow>
          (case try_encode_metric_value pc (we_inner w) of
             Inl err \<Rightarrow> ([], [Report (NativeEncodingFailed err)])
           | Inr fs \<Rightarrow>
               (case finish_exemplar (map_option (stored_encode ext)
                       (case st of Single e \<Rightarrow> e | _ \<Rightarrow> None)) of
                  Some e \<Rightarrow> (map (push_exemplar e) fs, [])
                | None \<Rightarrow> (fs, []))))"

section \<open>What the conversion gives\<close>

lemma convert_native_family_relative: "relative_name (convert_native_family f)"
  by (simp add: convert_native_family_def relative_name_def)

interpretation native_value: metric_value "native_encode_metric_value pc" for pc
  by unfold_locales
    (auto simp: native_encode_metric_value_def try_encode_metric_value_def
      convert_native_family_relative bind_result_Inr_iff split: sum.splits)

text \<open>A row converted from the wrapped crate has no exemplars of its own.\<close>

lemma convert_native_exemplars:
  "exemplars_are_valid (convert_native_metric m)"
  "m_histogram (convert_native_metric m) = Some h \<Longrightarrow> h_exemplars h = []"
  by (auto simp: exemplars_are_valid_def convert_native_metric_def convert_native_histogram_def
      convert_native_bucket_def metric_default_def histogram_default_def bucket_default_def is_none_or_def
      split: option.split)

definition label_names_distinct :: "prom_metric \<Rightarrow> bool" where
  "label_names_distinct m \<longleftrightarrow> distinct (map pl_name (pm_label m)) \<and>
     (\<forall>l\<in>set (pm_label m). is_valid_name (pl_name l) \<and> pl_name l \<noteq> ''le'')"

lemma convert_native_labels:
  "label_names_distinct m \<Longrightarrow> labels_ok (m_label (convert_native_metric m)) (Some ''le'')"
  by (auto simp: labels_ok_def convert_native_metric_def label_names_distinct_def o_def distinct_map
      inj_on_def)

section \<open>Properties\<close>

text \<open>A native histogram is only ever built from a growth factor greater than one and a finite
  zero threshold: the constructor panics for every other configuration (a NaN factor included),
  and otherwise hands exactly the given configuration to the wrapped crate.\<close>

theorem native_config_checked:
  "native_new_metric pc b =
     (if f64_gt (nb_bucket_factor b) f64_one \<and> is_finite (nb_zero_threshold b)
      then Inr (pc_new_native pc (nb_bucket_factor b) (nb_zero_threshold b) (nb_max_buckets b))
      else Inl (if f64_gt (nb_bucket_factor b) f64_one then ThresholdNotFinite (nb_zero_threshold b)
                else FactorTooSmall (nb_bucket_factor b))) \<and>
   (is_nan (nb_bucket_factor b) \<longrightarrow> native_new_metric pc b = Inl (FactorTooSmall (nb_bucket_factor b)))"
  by (simp add: native_new_metric_def native_config_def f64_gt_def f64_lt_def)

text \<open>The exemplar of a labelled observation of a native histogram reaches the output: it is
  attached to every histogram row with the observation's value and time, and validation in any
  context keeps it (native exemplars need a timestamp, which the observation sets) when its
  labels serialize to distinct names, the rows' own labels being valid.\<close>

theorem native_exemplar_survives_validation:
  assumes "native_observe_with_exemplar pc now ls v w = (w', [])"
    and "to_label_pairs ext ls = Inr pairs" "distinct (map lp_name pairs)"
    and "pc_encode pc (we_inner w') = Inr fs"
    and "\<forall>f\<in>set fs. \<forall>m\<in>set (pf_metric f). label_names_distinct m"
    and "f \<in> set (fst (native_with_exemplar_encode ext pc w'))"
    and "is_valid_name name"
  shows "sanitize_metric_family (f\<lparr>f_name := Some name\<rparr>) ctx = (True, f\<lparr>f_name := Some name\<rparr>, []) \<and>
    (\<forall>m\<in>set (f_metric f). \<forall>h. m_histogram m = Some h \<longrightarrow>
       h_exemplars h = [\<lparr>ex_label = pairs, ex_value = Some v, ex_timestamp = Some now\<rparr>])"
proof -
  let ?e = "\<lparr>ex_label = pairs, ex_value = Some v, ex_timestamp = Some now\<rparr>"
  have w': "we_exemplars w' = Single (Some (StoredF64 \<lparr>xe_label_set = ls, xe_value = v, xe_timestamp = Some now\<rparr>))"
    using assms(1) by (auto simp: native_observe_with_exemplar_def Let_def exemplar_new_def
        split: exemplar_storage.splits)
  obtain g where g: "g \<in> set fs" "f = push_exemplar ?e (convert_native_family g)"
    using assms(2,4,6)
    by (auto simp: native_with_exemplar_encode_def w' try_encode_metric_value_def finish_exemplar_def
        exemplar_encode_def)
  have "\<forall>l\<in>set pairs. pair_well_formed l"
    using assms(2) ser_label_set_wf(1) by (simp add: to_label_pairs_def)
  then have e: "native_exemplar_is_valid ?e"
    using assms(3) by (simp add: native_exemplar_is_valid_def exemplar_is_valid_def find_exemplar_issue_None
        labels_ok_def pair_well_formed_def)
  have rows: "row_ok (Some Histogram) m \<and> exemplars_are_valid m \<and>
      (\<forall>h. m_histogram m = Some h \<longrightarrow> h_exemplars h = [?e])" if m: "m \<in> set (f_metric f)" for m
  proof -
    obtain m0 where m0: "m0 \<in> set (pf_metric g)"
      "m = (convert_native_metric m0)\<lparr>m_histogram := map_option (\<lambda>h. h\<lparr>h_exemplars := h_exemplars h @ [?e]\<rparr>)
         (m_histogram (convert_native_metric m0))\<rparr>"
      using m by (auto simp: g(2) push_exemplar_def convert_native_family_def)
    have "labels_ok (m_label (convert_native_metric m0)) (Some ''le'')"
      using assms(5) g(1) m0(1) convert_native_labels by blast
    then have "row_ok (Some Histogram) m"
      by (simp add: m0(2) row_ok_iff reserved_row_label_def)
    moreover have "exemplars_are_valid m"
      using convert_native_exemplars [of m0] e
      by (cases "m_histogram (convert_native_metric m0)") (auto simp: m0(2) exemplars_are_valid_def)
    moreover have "\<forall>h. m_histogram m = Some h \<longrightarrow> h_exemplars h = [?e]"
      using convert_native_exemplars(2) [of m0] by (auto simp: m0(2))
    ultimately show ?thesis by blast
  qed
  have "family_type (f\<lparr>f_name := Some name\<rparr>) = Some Histogram"
    by (simp add: g(2) push_exemplar_def convert_native_family_def family_type_def metric_type_try_from_def)
  moreover have "\<forall>m\<in>set (f_metric f). row_ok (Some Histogram) m \<and> exemplars_are_valid m"
    using rows by blast
  ultimately have "family_valid (f\<lparr>f_name := Some name\<rparr>)"
    using assms(7) by (simp add: family_valid_def rows_are_valid_alt)
  then show ?thesis
    using rows sanitize_family_valid by blast
qed

definition sample_client :: "unit prometheus_client" where
  "sample_client = \<lparr>pc_new_native = (\<lambda>_ _ _. ()), pc_observe = (\<lambda>_ h. h),
     pc_encode = (\<lambda>_. Inr [\<lparr>pf_metric = [\<lparr>pm_label = [],
       pm_histogram = Some \<lparr>ph_sample_count = 1, ph_sample_count_float = f64_zero, ph_sample_sum = f64_one,
         ph_bucket = [], ph_start_timestamp = None, ph_schema = 3, ph_zero_threshold = f64_zero,
         ph_zero_count = 0, ph_zero_count_float = f64_zero, ph_negative_span = [], ph_negative_delta = [],
         ph_negative_count = [], ph_positive_span = [\<lparr>ps_offset = 0, ps_length = 1\<rparr>],
         ph_positive_delta = [1], ph_positive_count = []\<rparr>, pm_timestamp_ms = 0\<rparr>], pf_unit = []\<rparr>])\<rparr>"

theorem native_exemplar_survives_validation_witness:
  "let w' = fst (native_observe_with_exemplar sample_client \<lparr>ts_seconds = 9, ts_nanos = 0\<rparr>
        (SStruct ''T'' [(''id'', SStr ''b'')]) f64_one (with_exemplar_new ()));
       f = fst (native_with_exemplar_encode constant_externals sample_client w') ! 0
   in sanitize_metric_family (f\<lparr>f_name := Some ''n''\<rparr>) Collection = (True, f\<lparr>f_name := Some ''n''\<rparr>, [])"
proof -
  let ?ls = "SStruct ''T'' [(''id'', SStr ''b'')]" and ?now = "\<lparr>ts_seconds = 9, ts_nanos = 0\<rparr>"
  let ?o = "native_observe_with_exemplar sample_client ?now ?ls f64_one (with_exemplar_new ())"
  let ?f = "fst (native_with_exemplar_encode constant_externals sample_client (fst ?o)) ! 0"
  have o: "?o = (fst ?o, [])"
    by (simp add: native_observe_with_exemplar_def with_exemplar_new_def Let_def)
  have l: "to_label_pairs constant_externals ?ls = Inr [\<lparr>lp_name = Some ''id'', lp_value = Some ''b''\<rparr>]"
    by (simp add: to_label_pairs_def validate_label_name_def is_valid_name_def)
  have f: "?f \<in> set (fst (native_with_exemplar_encode constant_externals sample_client (fst ?o)))"
    using l by (simp add: native_with_exemplar_encode_def native_observe_with_exemplar_def
        with_exemplar_new_def Let_def try_encode_metric_value_def sample_client_def finish_exemplar_def
        exemplar_encode_def exemplar_new_def)
  obtain fs where fs: "pc_encode sample_client (we_inner (fst ?o)) = Inr fs"
    "\<forall>f\<in>set fs. \<forall>m\<in>set (pf_metric f). label_names_distinct m"
    by (simp add: sample_client_def label_names_distinct_def)
  have "sanitize_metric_family (?f\<lparr>f_name := Some ''n''\<rparr>) Collection = (True, ?f\<lparr>f_name := Some ''n''\<rparr>, [])"
    using native_exemplar_survives_validation [OF o l _ fs f, of "''n''" Collection]
    by (simp add: is_valid_name_def)
  then show ?thesis
    by (simp only: Let_def)
qed

theorem native_config_checked_witness:
  "native_new_metric sample_client (native_builder_new f64_nan) = Inl (FactorTooSmall f64_nan)"
  using native_config_checked [of sample_client "native_builder_new f64_nan"]
  by (simp add: native_builder_new_def f64_gt_def f64_lt_def)

end
