(* ===== verification/Infos.thy ===== *)
theory Infos
  imports MetricValue Labels
begin

text \<open>
  Info metrics, \<open>foundations-metrics/src/info.rs\<close>: gauges of value \<open>1\<close> whose data is their
  label set, kept per Rust type and exposed by one collector, which the first successful
  report registers. \<open>TypeId\<close> is the type parameter \<open>'k\<close>; the collector is a value
  \<open>collector\<close> of the registry's metric type.
\<close>

record 'k info_metric =
  im_type :: 'k
  im_NAME :: string
  im_HELP :: string
  im_value :: sval

record info_entry =
  ie_name :: string
  ie_help :: string
  ie_labels :: "label_pair list"

text \<open>\<open>INFO_METRICS\<close> and \<open>REGISTRY\<close>.\<close>

record ('k, 'm) info_state =
  is_store :: "('k \<rightharpoonup> info_entry) option"
  is_registry :: "'m registry"

text \<open>\<open>info_metrics()\<close>: \<open>get_or_init\<close> with the registration in its initialiser.\<close>

definition info_metrics :: "'m \<Rightarrow> ('k, 'm) info_state \<Rightarrow> ('k, 'm) info_state" where
  "info_metrics collector s =
     (case is_store s of
        Some m \<Rightarrow> s
      | None \<Rightarrow>
          s\<lparr>is_store := Some (\<lambda>_. None),
            is_registry := register (is_registry s) (BoxedMetric collector)
              (set_unlabeled (set_unprefixed registration_metadata_default True) True)\<rparr>)"

definition report_info ::
    "externals \<Rightarrow> 'm \<Rightarrow> 'k info_metric \<Rightarrow> ('k, 'm) info_state \<Rightarrow> ('k, 'm) info_state \<times> event list"
where
  "report_info ext collector im s =
     (case to_label_pairs ext (im_value im) of
        Inr labels \<Rightarrow>
          (let s' = info_metrics collector s;
               entry = \<lparr>ie_name = im_NAME im, ie_help = im_HELP im, ie_labels = labels\<rparr>
           in (s'\<lparr>is_store := map_option (\<lambda>m. m(im_type im \<mapsto> entry)) (is_store s')\<rparr>, []))
      | Inl err \<Rightarrow> (s, [Report (InfoLabelsFailed (im_NAME im) err)]))"

definition info_family :: "info_entry \<Rightarrow> metric_family" where
  "info_family e =
     \<lparr>f_name = Some (ie_name e), f_help = Some (ie_help e),
      f_type = Some (metric_type_to_i32 Gauge),
      f_metric = [metric_default\<lparr>m_label := ie_labels e, m_gauge := Some \<lparr>g_value = Some f64_one\<rparr>\<rparr>],
      f_unit = None\<rparr>"

text \<open>\<open>InfoCollector::encode\<close>; \<open>es\<close> is the iteration order of the stored map.\<close>

definition info_encode :: "('k, 'm) info_state \<Rightarrow> ('k \<times> info_entry) list \<Rightarrow> metric_family list" where
  "info_encode s es =
     (case is_store s of None \<Rightarrow> [] | Some m \<Rightarrow> map (\<lambda>(ty, entry). info_family entry) es)"

section \<open>A run of reports\<close>

fun report_infos ::
    "externals \<Rightarrow> 'm \<Rightarrow> 'k info_metric list \<Rightarrow> ('k, 'm) info_state \<Rightarrow> ('k, 'm) info_state" where
  "report_infos ext collector [] s = s"
| "report_infos ext collector (im # ims) s =
     report_infos ext collector ims (fst (report_info ext collector im s))"

definition serializable :: "externals \<Rightarrow> 'k info_metric \<Rightarrow> bool" where
  "serializable ext im \<longleftrightarrow> (case to_label_pairs ext (im_value im) of Inr ls \<Rightarrow> True | Inl e \<Rightarrow> False)"

definition entry_of :: "externals \<Rightarrow> 'k info_metric \<Rightarrow> info_entry" where
  "entry_of ext im =
     \<lparr>ie_name = im_NAME im, ie_help = im_HELP im,
      ie_labels = (case to_label_pairs ext (im_value im) of Inr ls \<Rightarrow> ls | Inl e \<Rightarrow> [])\<rparr>"

text \<open>The last serializable report of a type.\<close>

definition last_report :: "externals \<Rightarrow> 'k info_metric list \<Rightarrow> 'k \<Rightarrow> 'k info_metric option" where
  "last_report ext ims ty =
     List.find (\<lambda>im. serializable ext im \<and> im_type im = ty) (rev ims)"

definition store_map :: "('k, 'm) info_state \<Rightarrow> 'k \<rightharpoonup> info_entry" where
  "store_map s = (case is_store s of None \<Rightarrow> (\<lambda>_. None) | Some m \<Rightarrow> m)"

lemma store_map_unused [simp]: "store_map \<lparr>is_store = None, is_registry = r\<rparr> = (\<lambda>_. None)"
  by (simp add: store_map_def)

definition collector_entry :: "'m \<Rightarrow> 'm reg_entry" where
  "collector_entry collector =
     \<lparr>re_metadata = \<lparr>md_optional = False, md_unprefixed = True, md_unlabeled = True\<rparr>,
      re_metric = collector\<rparr>"

lemma report_info_store:
  "store_map (fst (report_info ext collector im s)) =
     (if serializable ext im then (store_map s)(im_type im \<mapsto> entry_of ext im) else store_map s)"
  by (auto simp: report_info_def serializable_def entry_of_def store_map_def info_metrics_def Let_def
      split: sum.split option.split)

lemma report_info_registry:
  "registry_get (is_registry (fst (report_info ext collector im s))) =
     (if serializable ext im \<and> is_store s = None
      then registry_get (is_registry s) @ [collector_entry collector]
      else registry_get (is_registry s))"
  "is_store (fst (report_info ext collector im s)) = None \<longleftrightarrow>
     is_store s = None \<and> \<not> serializable ext im"
  by (auto simp: report_info_def serializable_def info_metrics_def Let_def collector_entry_def
      registry_get_register set_unlabeled_def set_unprefixed_def registration_metadata_default_def
      split: sum.split option.split)

lemma report_infos_snoc:
  "report_infos ext collector (ims @ [im]) s =
     fst (report_info ext collector im (report_infos ext collector ims s))"
  by (induction ims arbitrary: s) simp_all

lemma report_infos_store:
  "store_map (report_infos ext collector ims s) =
     (\<lambda>ty. case last_report ext ims ty of Some im \<Rightarrow> Some (entry_of ext im) | None \<Rightarrow> store_map s ty)"
  by (induction ims rule: rev_induct)
    (auto simp: report_infos_snoc report_info_store last_report_def fun_eq_iff)

lemma report_infos_registry:
  "is_store (report_infos ext collector ims s) = None \<longleftrightarrow>
     is_store s = None \<and> \<not> (\<exists>im\<in>set ims. serializable ext im)"
  "registry_get (is_registry (report_infos ext collector ims s)) =
     registry_get (is_registry s) @
       (if is_store s = None \<and> (\<exists>im\<in>set ims. serializable ext im) then [collector_entry collector] else [])"
  by (induction ims rule: rev_induct)
    (auto simp: report_infos_snoc report_info_registry)

section \<open>Properties\<close>

text \<open>Starting from an unused store, after any sequence of \<open>report_info\<close> calls the collector
  encodes exactly one family per reported type, built from the last report of that type whose
  labels serialize, whatever the order of iteration; a report that fails to serialize leaves the
  earlier value in place. The collector itself is in the registry once if some report
  succeeded and not at all otherwise, opted out of the service prefix and label.\<close>

theorem info_last_report_wins:
  assumes "is_store s = None"
    and "s' = report_infos ext collector ims s"
    and "iteration_of (store_map s') es"
  shows "distinct (map fst es) \<and>
    (\<forall>ty. ty \<in> fst ` set es \<longleftrightarrow> last_report ext ims ty \<noteq> None) \<and>
    info_encode s' es =
      map (\<lambda>ty. info_family (entry_of ext (the (last_report ext ims ty)))) (map fst es) \<and>
    registry_get (is_registry s') = registry_get (is_registry s) @
      (if \<exists>im\<in>set ims. serializable ext im
       then [\<lparr>re_metadata = \<lparr>md_optional = False, md_unprefixed = True, md_unlabeled = True\<rparr>,
              re_metric = collector\<rparr>] else [])"
proof -
  have store: "store_map s' =
      (\<lambda>ty. case last_report ext ims ty of Some im \<Rightarrow> Some (entry_of ext im) | None \<Rightarrow> None)"
  proof -
    have "store_map s = (\<lambda>_. None)"
      using assms(1) by (simp add: store_map_def)
    then show ?thesis
      by (auto simp: assms(2) report_infos_store split: option.split)
  qed
  have mem: "(ty, e) \<in> set es \<longleftrightarrow> (\<exists>im. last_report ext ims ty = Some im \<and> e = entry_of ext im)" for ty e
    using iteration_of_mem [OF assms(3), of ty e] by (auto simp: store split: option.splits)
  have keys: "ty \<in> fst ` set es \<longleftrightarrow> last_report ext ims ty \<noteq> None" for ty
    using mem [of ty] by (force simp: image_iff)
  have "info_encode s' es = map (\<lambda>(ty, entry). info_family entry) es"
  proof (cases "is_store s'")
    case None
    then have "store_map s' = (\<lambda>_. None)" by (simp add: store_map_def)
    with assms(3) have "es = []" by (cases es) (auto simp: iteration_of_def fun_eq_iff split: if_splits)
    with None show ?thesis by (simp add: info_encode_def)
  qed (simp add: info_encode_def)
  also have "\<dots> = map (\<lambda>ty. info_family (entry_of ext (the (last_report ext ims ty)))) (map fst es)"
    using mem by auto
  finally show ?thesis
    using keys assms by (simp add: iteration_of_def report_infos_registry collector_entry_def)
qed

definition build_info :: "string \<Rightarrow> int info_metric" where
  "build_info version = \<lparr>im_type = 0, im_NAME = ''build_info'', im_HELP = ''Build.'',
     im_value = SStruct ''BuildInfo'' [(''version'', SStr version)]\<rparr>"

definition unserializable_info :: "int info_metric" where
  "unserializable_info = \<lparr>im_type = 0, im_NAME = ''build_info'', im_HELP = ''Build.'',
     im_value = SBool True\<rparr>"

theorem info_last_report_wins_witness:
  "map fst [(0 :: int, entry_of constant_externals (build_info ''2''))] = [0] \<and>
   last_report constant_externals [build_info ''1'', build_info ''2'', unserializable_info] 0 =
     Some (build_info ''2'') \<and>
   info_encode (report_infos constant_externals () [build_info ''1'', build_info ''2'', unserializable_info]
      \<lparr>is_store = None, is_registry = None\<rparr>) [(0, entry_of constant_externals (build_info ''2''))] =
     [info_family (entry_of constant_externals (build_info ''2''))]"
proof -
  let ?ims = "[build_info ''1'', build_info ''2'', unserializable_info]"
  let ?s = "\<lparr>is_store = None, is_registry = None\<rparr> :: (int, unit) info_state"
  have ser: "serializable constant_externals (build_info v)"
    "\<not> serializable constant_externals unserializable_info" for v
    by (simp_all add: serializable_def build_info_def unserializable_info_def to_label_pairs_def
        validate_label_name_def is_valid_name_def)
  have last: "last_report constant_externals ?ims ty = (if ty = 0 then Some (build_info ''2'') else None)" for ty
    by (simp add: last_report_def ser) (simp add: build_info_def)
  have "iteration_of (store_map (report_infos constant_externals () ?ims ?s))
      [(0, entry_of constant_externals (build_info ''2''))]"
    by (auto simp: iteration_of_def report_infos_store last fun_eq_iff
        simp del: report_infos.simps)
  from info_last_report_wins [OF _ refl this] show ?thesis
    by (simp add: last)
qed

end
