(* ===== verification/MetricsCollect.thy ===== *)
theory MetricsCollect
  imports Prelude
begin

text \<open>
  Text collection in the \<open>foundations\<close> crate, \<open>telemetry/metrics/rewind.rs\<close> and
  \<open>Registries::collect\<close> of \<open>telemetry/metrics/internal.rs\<close>. A metric that fails while it is
  encoded has already written part of a line; the wrapper \<open>RewindErrorEncode\<close> asks the
  rewindable writer to go back to the last newline, which happens at the writer's next
  operation. What \<open>prometheus_client::encode\<close> does with a registry is a parameter: the bytes it
  writes itself and the metrics it calls, in order. The lemmas show that a failing metric costs
  at most its own unfinished line, whatever else is in the registries.
\<close>

section \<open>The rewindable writer\<close>

datatype rewind_target = NoRewind | LastNewline

text \<open>\<open>RewindState\<close> and the \<open>RewindableWriter\<close> over a buffer.\<close>

record rewind_state =
  rs_active :: bool
  rs_rewind_to :: rewind_target

definition rewind_state_new :: rewind_state where
  "rewind_state_new = \<lparr>rs_active = False, rs_rewind_to = NoRewind\<rparr>"

text \<open>\<open>activate\<close>; \<^const>\<open>None\<close> is the failing assertion.\<close>

definition activate :: "rewind_state \<Rightarrow> rewind_state option" where
  "activate st =
     (if rs_active st then None else Some \<lparr>rs_active = True, rs_rewind_to = NoRewind\<rparr>)"

definition rewind_to :: "rewind_target \<Rightarrow> rewind_state \<Rightarrow> rewind_state" where
  "rewind_to target st = st\<lparr>rs_rewind_to := target\<rparr>"

definition rewind_reset :: "rewind_state \<Rightarrow> rewind_state" where
  "rewind_reset st = \<lparr>rs_active = False, rs_rewind_to = NoRewind\<rparr>"

text \<open>\<open>Iterator::rposition\<close>.\<close>

definition rposition :: "('a \<Rightarrow> bool) \<Rightarrow> 'a list \<Rightarrow> nat option" where
  "rposition P xs =
     (let ys = dropWhile (\<lambda>x. \<not> P x) (rev xs)
      in if ys = [] then None else Some (length ys - 1))"

abbreviation newline :: char where
  "newline \<equiv> CHR 0x0A"

definition apply_rewind :: "string \<times> rewind_state \<Rightarrow> string \<times> rewind_state" where
  "apply_rewind w =
     (case w of (out, st) \<Rightarrow>
      case rs_rewind_to st of
        NoRewind \<Rightarrow> (out, st\<lparr>rs_rewind_to := NoRewind\<rparr>)
      | LastNewline \<Rightarrow>
          (case rposition (\<lambda>v. v = newline) out of
             Some newline_idx \<Rightarrow> (take (newline_idx + 1) out, st\<lparr>rs_rewind_to := NoRewind\<rparr>)
           | None \<Rightarrow> (out, st\<lparr>rs_rewind_to := NoRewind\<rparr>)))"

text \<open>The methods of \<open>io::Write\<close>; writing to a vector takes all bytes and never fails.\<close>

definition writer_write :: "string \<Rightarrow> string \<times> rewind_state \<Rightarrow> nat \<times> string \<times> rewind_state" where
  "writer_write buf w =
     (case apply_rewind w of (out, st) \<Rightarrow> (length buf, out @ buf, st))"

definition writer_write_vectored ::
  "string list \<Rightarrow> string \<times> rewind_state \<Rightarrow> nat \<times> string \<times> rewind_state" where
  "writer_write_vectored bufs w =
     (case apply_rewind w of (out, st) \<Rightarrow> (length (concat bufs), out @ concat bufs, st))"

definition writer_write_all :: "string \<Rightarrow> string \<times> rewind_state \<Rightarrow> string \<times> rewind_state" where
  "writer_write_all buf w = (case apply_rewind w of (out, st) \<Rightarrow> (out @ buf, st))"

definition writer_flush :: "string \<times> rewind_state \<Rightarrow> string \<times> rewind_state" where
  "writer_flush w = apply_rewind w"

definition writer_drop :: "string \<times> rewind_state \<Rightarrow> string \<times> rewind_state" where
  "writer_drop w = (case apply_rewind w of (out, st) \<Rightarrow> (out, rewind_reset st))"

section \<open>Encoding a registry\<close>

text \<open>One encoding of a metric: the buffers it writes, and its error if it fails.\<close>

record metric_run =
  mr_writes :: "string list"
  mr_error :: "string option"

text \<open>\<open>RewindErrorEncode::encode\<close>: the result, the writer, and the reported errors.\<close>

definition rewind_error_encode ::
  "metric_run \<Rightarrow> string \<times> rewind_state \<Rightarrow>
   string option \<times> (string \<times> rewind_state) \<times> string list" where
  "rewind_error_encode m w =
     (case fold writer_write_all (mr_writes m) w of (out, st) \<Rightarrow>
      case mr_error m of
        None \<Rightarrow> (None, (out, st), [])
      | Some err \<Rightarrow>
          if rs_active st
          then (None, (out, rewind_to LastNewline st), [''encoding metric or family: '' @ err])
          else (Some err, (out, st), []))"

text \<open>What \<open>prometheus_client\<close>'s \<open>encode\<close> does: write bytes of its own, such as the descriptor
  lines and the final marker, and encode metrics, until one fails.\<close>

datatype encode_step = Put string | EncodeMetric metric_run

fun encode_steps ::
  "encode_step list \<Rightarrow> string \<times> rewind_state \<Rightarrow>
   string option \<times> (string \<times> rewind_state) \<times> string list" where
  "encode_steps [] w = (None, w, [])"
| "encode_steps (Put s # steps) w = encode_steps steps (writer_write_all s w)"
| "encode_steps (EncodeMetric m # steps) w =
     (case rewind_error_encode m w of
        (Some err, w', reports) \<Rightarrow> (Some err, w', reports)
      | (None, w', reports) \<Rightarrow>
          (case encode_steps steps w' of (res, w'', reports') \<Rightarrow> (res, w'', reports @ reports')))"

definition EOF_MARKER :: string where
  "EOF_MARKER = ''# EOF'' @ [newline]"

definition ends_with :: "string \<Rightarrow> string \<Rightarrow> bool" where
  "ends_with s suffix \<longleftrightarrow>
     length suffix \<le> length s \<and> drop (length s - length suffix) s = suffix"

definition truncate_eof :: "string \<Rightarrow> string" where
  "truncate_eof buffer =
     (if ends_with buffer EOF_MARKER then take (length buffer - length EOF_MARKER) buffer
      else buffer)"

text \<open>\<open>encode_registry\<close>, on the thread's rewind state; the outer \<^const>\<open>None\<close> is the panic of a
  second writer, the error is the one passed on with \<open>?\<close>.\<close>

definition encode_registry ::
  "encode_step list \<Rightarrow> string \<Rightarrow> rewind_state \<Rightarrow>
   (string option \<times> string \<times> rewind_state \<times> string list) option" where
  "encode_registry steps buffer st =
     (case activate st of
        None \<Rightarrow> None
      | Some st1 \<Rightarrow>
          (case encode_steps steps (buffer, st1) of (res, w, reports) \<Rightarrow>
           case writer_drop w of (out, st2) \<Rightarrow>
           case res of
             Some err \<Rightarrow> Some (Some err, out, st2, reports)
           | None \<Rightarrow> Some (None, truncate_eof out, st2, reports)))"

section \<open>The registries\<close>

text \<open>\<open>Registries\<close>: the registry built from the info metrics, the main and the optional one as
  their encodings, and the extra producers as the bytes each appends.\<close>

record registries =
  rg_info :: "encode_step list"
  rg_main :: "encode_step list"
  rg_opt :: "encode_step list"
  rg_extra_producers :: "string list"

fun produce_all :: "string list \<Rightarrow> string \<Rightarrow> string" where
  "produce_all [] buffer = buffer"
| "produce_all (p # ps) buffer = produce_all ps (truncate_eof (buffer @ p))"

text \<open>\<open>Registries::collect\<close>.\<close>

definition registries_collect ::
  "registries \<Rightarrow> bool \<Rightarrow> string \<Rightarrow> rewind_state \<Rightarrow>
   (string option \<times> string \<times> rewind_state \<times> string list) option" where
  "registries_collect regs collect_optional buffer st =
     (case encode_registry (rg_info regs) buffer st of
        None \<Rightarrow> None
      | Some (Some err, b1, st1, r1) \<Rightarrow> Some (Some err, b1, st1, r1)
      | Some (None, b1, st1, r1) \<Rightarrow>
     (case encode_registry (rg_main regs) b1 st1 of
        None \<Rightarrow> None
      | Some (Some err, b2, st2, r2) \<Rightarrow> Some (Some err, b2, st2, r1 @ r2)
      | Some (None, b2, st2, r2) \<Rightarrow>
          if collect_optional then
            (case encode_registry (rg_opt regs) b2 st2 of
               None \<Rightarrow> None
             | Some (Some err, b3, st3, r3) \<Rightarrow> Some (Some err, b3, st3, r1 @ r2 @ r3)
             | Some (None, b3, st3, r3) \<Rightarrow>
                 Some (None, produce_all (rg_extra_producers regs) b3, st3, r1 @ r2 @ r3))
          else Some (None, produce_all (rg_extra_producers regs) b2, st2, r1 @ r2)))"

text \<open>\<open>MetricsServiceName\<close> and the prefix \<open>get_subsystem\<close> gives a sub-registry.\<close>

datatype metrics_service_name = ServicePrefix string | ServiceLabel string string

datatype service_name_format = MetricPrefix | LabelWithName string

fun metrics_service_name_new :: "string \<Rightarrow> service_name_format \<Rightarrow> metrics_service_name" where
  "metrics_service_name_new name MetricPrefix = ServicePrefix name"
| "metrics_service_name_new name (LabelWithName label) = ServiceLabel label name"

definition subsystem_prefix :: "metrics_service_name \<Rightarrow> string \<Rightarrow> bool \<Rightarrow> string" where
  "subsystem_prefix service_name subsystem with_service_prefix =
     (case service_name of
        ServicePrefix service \<Rightarrow>
          if with_service_prefix then service @ ''_'' @ subsystem else subsystem
      | ServiceLabel _ _ \<Rightarrow> subsystem)"

section \<open>Complete lines\<close>

definition complete_lines :: "string \<Rightarrow> string" where
  "complete_lines s = rev (dropWhile (\<lambda>v. v \<noteq> newline) (rev s))"

definition at_line_start :: "string \<Rightarrow> bool" where
  "at_line_start s \<longleftrightarrow> s \<noteq> [] \<and> List.last s = newline"

lemma complete_lines_append:
  "at_line_start s \<Longrightarrow> complete_lines (s @ t) = s @ complete_lines t"
proof -
  assume s: "at_line_start s"
  then obtain u where u: "s = u @ [newline]"
    by (metis at_line_start_def append_butlast_last_id)
  show ?thesis
  proof (cases "newline \<in> set t")
    case True
    then show ?thesis
      by (simp add: complete_lines_def dropWhile_append1)
  next
    case False
    then have "dropWhile (\<lambda>v. v \<noteq> newline) (rev t) = []"
      by (simp add: dropWhile_eq_Nil_conv) blast
    moreover have "dropWhile (\<lambda>v. v \<noteq> newline) (rev t @ rev s) = dropWhile (\<lambda>v. v \<noteq> newline) (rev s)"
      using False by (intro dropWhile_append2) auto
    ultimately show ?thesis
      by (simp add: complete_lines_def u)
  qed
qed

lemma complete_lines_start [simp]: "at_line_start s \<Longrightarrow> complete_lines s = s"
  using complete_lines_append [of s "[]"] by (simp add: complete_lines_def)

lemma complete_lines_at_line_start:
  "newline \<in> set s \<Longrightarrow> at_line_start (complete_lines s)"
proof -
  assume "newline \<in> set s"
  then have "dropWhile (\<lambda>v. v \<noteq> newline) (rev s) \<noteq> []"
    by (simp add: dropWhile_eq_Nil_conv)
  then show ?thesis
    using hd_dropWhile [of "\<lambda>v. v \<noteq> newline" "rev s"]
    by (simp add: at_line_start_def complete_lines_def last_rev)
qed

lemma at_line_start_mem: "at_line_start s \<Longrightarrow> newline \<in> set s"
  by (auto simp: at_line_start_def dest: last_in_set)

lemma apply_rewind_conv:
  "apply_rewind (out, st) =
     (if rs_rewind_to st = LastNewline \<and> newline \<in> set out then complete_lines out else out,
      st\<lparr>rs_rewind_to := NoRewind\<rparr>)"
proof (cases "rs_rewind_to st")
  case NoRewind
  then show ?thesis by (simp add: apply_rewind_def)
next
  case LastNewline
  let ?ys = "dropWhile (\<lambda>v. v \<noteq> newline) (rev out)"
  have "take (length ?ys) out = rev ?ys"
  proof -
    have "rev out = takeWhile (\<lambda>v. v \<noteq> newline) (rev out) @ ?ys" by simp
    then have "out = rev ?ys @ rev (takeWhile (\<lambda>v. v \<noteq> newline) (rev out))"
      by (metis rev_append rev_rev_ident)
    then show ?thesis
      by (metis append_eq_conv_conj length_rev)
  qed
  moreover have "?ys = [] \<longleftrightarrow> newline \<notin> set out"
    by (auto simp: dropWhile_eq_Nil_conv)
  ultimately show ?thesis
    using LastNewline
    by (auto simp: apply_rewind_def rposition_def complete_lines_def Let_def)
qed

text \<open>The text in the buffer once a requested rewind is applied.\<close>

definition settled :: "string \<times> rewind_state \<Rightarrow> string" where
  "settled w = fst (apply_rewind w)"

lemma settled_write_all: "settled (writer_write_all s w) = settled w @ s"
  by (cases w) (simp add: settled_def writer_write_all_def apply_rewind_conv)

lemma write_all_state:
  "rs_active (snd (writer_write_all s w)) = rs_active (snd w)"
  "rs_rewind_to (snd (writer_write_all s w)) = NoRewind"
  by (cases w; simp add: writer_write_all_def apply_rewind_conv)+

lemma settled_fold_write:
  "settled (fold writer_write_all ss w) = settled w @ concat ss \<and>
   rs_active (snd (fold writer_write_all ss w)) = rs_active (snd w)"
  by (induction ss arbitrary: w) (simp_all add: settled_write_all write_all_state)

lemma settled_rewind:
  "newline \<in> set (settled w) \<Longrightarrow>
   settled (fst w, rewind_to LastNewline (snd w)) = complete_lines (settled w)"
proof (cases w)
  case (Pair out st)
  assume "newline \<in> set (settled w)"
  then show ?thesis
    using complete_lines_start [OF complete_lines_at_line_start, of out]
    by (auto simp: Pair settled_def apply_rewind_conv rewind_to_def split: if_splits)
qed

section \<open>What a registry contributes\<close>

text \<open>The text that stays of a step: of a failing metric its complete lines.\<close>

fun kept_text :: "encode_step \<Rightarrow> string" where
  "kept_text (Put s) = s"
| "kept_text (EncodeMetric m) =
     (if mr_error m = None then concat (mr_writes m) else complete_lines (concat (mr_writes m)))"

fun step_reports :: "encode_step \<Rightarrow> string list" where
  "step_reports (Put s) = []"
| "step_reports (EncodeMetric m) =
     (case mr_error m of None \<Rightarrow> [] | Some err \<Rightarrow> [''encoding metric or family: '' @ err])"

text \<open>What is relied on of \<open>prometheus_client\<close>: a metric that fails starts on a line of its own,
  since the encoder writes the descriptor lines of its family first. The flag says whether the
  text so far ends in a newline.\<close>

fun ends_line :: "bool \<Rightarrow> string \<Rightarrow> bool" where
  "ends_line b s \<longleftrightarrow> (if s = [] then b else List.last s = newline)"

fun fresh_lines :: "bool \<Rightarrow> encode_step list \<Rightarrow> bool" where
  "fresh_lines b [] \<longleftrightarrow> True"
| "fresh_lines b (Put s # steps) \<longleftrightarrow> fresh_lines (ends_line b s) steps"
| "fresh_lines b (EncodeMetric m # steps) \<longleftrightarrow>
     (mr_error m = None \<and> fresh_lines (ends_line b (concat (mr_writes m))) steps) \<or>
     (mr_error m \<noteq> None \<and> b \<and> fresh_lines True steps)"

lemma fresh_lines_mono: "fresh_lines b steps \<Longrightarrow> b \<longrightarrow> b' \<Longrightarrow> fresh_lines b' steps"
proof (induction steps arbitrary: b b')
  case Nil
  then show ?case by simp
next
  case (Cons s steps)
  have *: "ends_line b t \<longrightarrow> ends_line b' t" for t
    using Cons.prems(2) by simp
  show ?case
  proof (cases s)
    case (Put t)
    with Cons.prems(1) show ?thesis
      using Cons.IH [OF _ *] by (simp del: ends_line.simps)
  next
    case (EncodeMetric m)
    with Cons.prems show ?thesis
      using Cons.IH [OF _ *, of "concat (mr_writes m)"] by (auto simp del: ends_line.simps)
  qed
qed

lemma ends_line_append: "at_line_start (s @ t) = ends_line (at_line_start s) t"
  by (simp add: at_line_start_def)

lemma encode_metric_kept:
  assumes "rs_active (snd w)" "mr_error m = None \<or> at_line_start (settled w)"
  shows "\<exists>w'. rewind_error_encode m w = (None, w', step_reports (EncodeMetric m)) \<and>
    rs_active (snd w') \<and> settled w' = settled w @ kept_text (EncodeMetric m)"
proof -
  obtain out st where fold: "fold writer_write_all (mr_writes m) w = (out, st)" by fastforce
  with settled_fold_write [of "mr_writes m" w] assms(1)
  have eff: "settled (out, st) = settled w @ concat (mr_writes m)" "rs_active st" by simp_all
  show ?thesis
  proof (cases "mr_error m")
    case None
    with fold eff show ?thesis by (simp add: rewind_error_encode_def)
  next
    case (Some err)
    with assms(2) have start: "at_line_start (settled w)" by simp
    then have "newline \<in> set (settled (out, st))"
      using at_line_start_mem eff(1) by simp
    from settled_rewind [OF this] have "settled (out, rewind_to LastNewline st) =
        settled w @ complete_lines (concat (mr_writes m))"
      using eff(1) complete_lines_append [OF start] by simp
    with Some fold eff(2) show ?thesis
      by (simp add: rewind_error_encode_def rewind_to_def)
  qed
qed

lemma encode_steps_kept:
  "rs_active (snd w) \<Longrightarrow> fresh_lines (at_line_start (settled w)) steps \<Longrightarrow>
   \<exists>w'. encode_steps steps w = (None, w', concat (map step_reports steps)) \<and>
     settled w' = settled w @ concat (map kept_text steps)"
proof (induction steps arbitrary: w)
  case Nil
  then show ?case by simp
next
  case (Cons s steps)
  show ?case
  proof (cases s)
    case (Put t)
    then show ?thesis
      using Cons.IH [of "writer_write_all t w"] Cons.prems
      by (simp add: settled_write_all write_all_state ends_line_append del: ends_line.simps)
  next
    case (EncodeMetric m)
    with Cons.prems(2) have "mr_error m = None \<or> at_line_start (settled w)" by auto
    from encode_metric_kept [OF Cons.prems(1) this] obtain w1 where
      w1: "rewind_error_encode m w = (None, w1, step_reports s)" "rs_active (snd w1)"
        "settled w1 = settled w @ kept_text s"
      unfolding EncodeMetric by blast
    have "fresh_lines (at_line_start (settled w1)) steps"
    proof (cases "mr_error m")
      case None
      then show ?thesis
        using Cons.prems(2) w1(3) by (simp add: EncodeMetric ends_line_append del: ends_line.simps)
    next
      case (Some err)
      with Cons.prems(2) have start: "at_line_start (settled w)" and rest: "fresh_lines True steps"
        by (simp_all add: EncodeMetric)
      have "settled w1 = complete_lines (settled w @ concat (mr_writes m))"
        using w1(3) Some complete_lines_append [OF start] by (simp add: EncodeMetric)
      then have "at_line_start (settled w1)"
        using at_line_start_mem [OF start] by (simp add: complete_lines_at_line_start)
      with rest show ?thesis by simp
    qed
    from Cons.IH [OF w1(2) this] obtain w2 where
      "encode_steps steps w1 = (None, w2, concat (map step_reports steps))"
      "settled w2 = settled w1 @ concat (map kept_text steps)"
      by blast
    with w1 show ?thesis by (simp add: EncodeMetric)
  qed
qed

lemma truncate_eof_append [simp]: "truncate_eof (s @ EOF_MARKER) = s"
  by (simp add: truncate_eof_def ends_with_def)

lemma encode_registry_kept:
  assumes "fresh_lines False body" "\<not> rs_active st"
  shows "encode_registry (body @ [Put EOF_MARKER]) buffer st =
    Some (None, buffer @ concat (map kept_text body), rewind_state_new,
      concat (map step_reports body))"
proof -
  let ?w = "(buffer, \<lparr>rs_active = True, rs_rewind_to = NoRewind\<rparr>)"
  have start: "settled ?w = buffer"
    by (simp add: settled_def apply_rewind_conv)
  have "fresh_lines b (body @ [Put EOF_MARKER]) = fresh_lines b body" for b
    by (induction b body rule: fresh_lines.induct) simp_all
  then have "fresh_lines (at_line_start (settled ?w)) (body @ [Put EOF_MARKER])"
    using fresh_lines_mono [OF assms(1)] by simp
  from encode_steps_kept [OF _ this] obtain w where
    "encode_steps (body @ [Put EOF_MARKER]) ?w = (None, w, concat (map step_reports body))"
    "settled w = (buffer @ concat (map kept_text body)) @ EOF_MARKER"
    by (auto simp: start)
  moreover from this(2) have "writer_drop w =
      ((buffer @ concat (map kept_text body)) @ EOF_MARKER, rewind_state_new)"
    by (simp add: writer_drop_def settled_def rewind_reset_def rewind_state_new_def case_prod_beta)
  ultimately show ?thesis
    using assms(2) truncate_eof_append [of "buffer @ concat (map kept_text body)"]
    by (simp add: encode_registry_def activate_def)
qed

section \<open>Properties\<close>

text \<open>C36: A failing metric never spoils a collection. \<open>Registries::collect\<close> returns \<open>Ok\<close> and leaves
  in the buffer, after what was there, the complete output of every metric that encodes and of
  every failing one its complete lines only, registry by registry, without the end markers, and
  then the output of the extra producers; each failure is reported once, in order, and the thread's
  rewind state is as new, so that the next collection can activate it.\<close>

theorem collect_keeps_complete_lines:
  assumes "fresh_lines False info" "fresh_lines False main" "fresh_lines False opt"
    and "\<not> rs_active st"
  defines "text_of \<equiv> \<lambda>body. concat (map kept_text body)"
    and "reports_of \<equiv> \<lambda>body. concat (map step_reports body)"
  shows "registries_collect
      \<lparr>rg_info = info @ [Put EOF_MARKER], rg_main = main @ [Put EOF_MARKER],
       rg_opt = opt @ [Put EOF_MARKER], rg_extra_producers = producers\<rparr>
      collect_optional buffer st =
    Some (None,
      produce_all producers
        (buffer @ text_of info @ text_of main @ (if collect_optional then text_of opt else [])),
      rewind_state_new,
      reports_of info @ reports_of main @ (if collect_optional then reports_of opt else []))"
  using assms(4)
  by (simp add: registries_collect_def encode_registry_kept [OF assms(1)]
      encode_registry_kept [OF assms(2)] encode_registry_kept [OF assms(3)] rewind_state_new_def
      text_of_def reports_of_def)

definition failing_family :: "encode_step list" where
  "failing_family =
     [Put (''# TYPE a gauge'' @ [newline]),
      EncodeMetric \<lparr>mr_writes = [''a 1'' @ [newline], ''a{l=''], mr_error = Some ''bad label''\<rparr>,
      Put (''# TYPE b gauge'' @ [newline]),
      EncodeMetric \<lparr>mr_writes = [''b 2'', [newline]], mr_error = None\<rparr>]"

theorem collect_keeps_complete_lines_witness:
  "registries_collect
     \<lparr>rg_info = [Put EOF_MARKER], rg_main = failing_family @ [Put EOF_MARKER],
      rg_opt = [Put EOF_MARKER], rg_extra_producers = [''c 3'' @ [newline] @ EOF_MARKER]\<rparr>
     False [] rewind_state_new =
   Some (None, ''# TYPE a gauge'' @ [newline] @ ''a 1'' @ [newline] @ ''# TYPE b gauge'' @ [newline]
       @ ''b 2'' @ [newline] @ ''c 3'' @ [newline],
     rewind_state_new, [''encoding metric or family: bad label''])"
proof -
  have main: "fresh_lines False failing_family"
    by (simp add: failing_family_def)
  have kept: "concat (map kept_text failing_family) =
      ''# TYPE a gauge'' @ [newline] @ ''a 1'' @ [newline] @ ''# TYPE b gauge'' @ [newline]
       @ ''b 2'' @ [newline]"
    by code_simp
  have reports: "concat (map step_reports failing_family) =
      [''encoding metric or family: bad label'']"
    by code_simp
  have producers: "produce_all [''c 3'' @ [newline] @ EOF_MARKER] b = b @ ''c 3'' @ [newline]" for b
    using truncate_eof_append [of "b @ ''c 3'' @ [newline]"] by simp
  show ?thesis
    using collect_keeps_complete_lines [of "[]" failing_family "[]" rewind_state_new
        "[''c 3'' @ [newline] @ EOF_MARKER]" False "[]"] main
    unfolding kept reports producers by (simp add: rewind_state_new_def)
qed

end
