(* ===== verification/TextSyntax.thy ===== *)
theory TextSyntax
  imports Validation Externals F64_Arith
begin

text \<open>
  The writers of OpenMetrics text, \<open>foundations-metrics/src/encoding/text.rs\<close>, below the level
  of a family: names, escaped strings, floats, labels and sample lines. A writer returns the
  text it appends to the output. Beside them stands a reader for the series part of a sample
  line (\<open>name{l="v"}\<close> or \<open>{"name",l="v"}\<close>), as a scraper would parse it; the lemmas show
  that it recovers what was written and that no written datum contains a line break.
\<close>

section \<open>Names\<close>

definition is_metric_name_char :: "char \<Rightarrow> bool" where
  "is_metric_name_char c \<longleftrightarrow> is_ascii_alphanumeric c \<or> c = CHR ''_'' \<or> c = CHR '':''"

definition is_label_name_char :: "char \<Rightarrow> bool" where
  "is_label_name_char c \<longleftrightarrow> is_ascii_alphanumeric c \<or> c = CHR ''_''"

definition is_legacy_metric_name :: "string \<Rightarrow> bool" where
  "is_legacy_metric_name name =
     (case name of
        [] \<Rightarrow> False
      | c # cs \<Rightarrow> (is_ascii_alphabetic c \<or> c = CHR ''_'' \<or> c = CHR '':'') \<and>
                 (\<forall>d\<in>set cs. is_metric_name_char d))"

definition is_legacy_label_name :: "string \<Rightarrow> bool" where
  "is_legacy_label_name name =
     (case name of
        [] \<Rightarrow> False
      | c # cs \<Rightarrow> (is_ascii_alphabetic c \<or> c = CHR ''_'') \<and> (\<forall>d\<in>set cs. is_label_name_char d))"

section \<open>Escaping\<close>

text \<open>The double quote, the backslash and the line feed.\<close>

definition quote_char :: char where
  "quote_char = CHR 0x22"

definition backslash :: char where
  "backslash = CHR 0x5C"

definition newline :: char where
  "newline = CHR 0x0A"

definition escape_char :: "char \<Rightarrow> string" where
  "escape_char c =
     (if c = backslash then [backslash, backslash]
      else if c = newline then [backslash, CHR ''n'']
      else if c = quote_char then [backslash, quote_char]
      else [c])"

definition write_escaped :: "string \<Rightarrow> string" where
  "write_escaped v = concat (map escape_char v)"

definition write_quoted :: "string \<Rightarrow> string" where
  "write_quoted v = [quote_char] @ write_escaped v @ [quote_char]"

definition write_metadata_name :: "string \<Rightarrow> string" where
  "write_metadata_name name = (if is_legacy_metric_name name then name else write_quoted name)"

definition write_label_name :: "string \<Rightarrow> string" where
  "write_label_name name = (if is_legacy_label_name name then name else write_quoted name)"

section \<open>Floats\<close>

definition strip_suffix :: "string \<Rightarrow> string \<Rightarrow> string option" where
  "strip_suffix s suffix =
     (if length suffix \<le> length s \<and> drop (length s - length suffix) s = suffix
      then Some (take (length s - length suffix) s) else None)"

definition write_float_impl :: "externals \<Rightarrow> f64 \<Rightarrow> bool \<Rightarrow> string" where
  "write_float_impl ext v preserve =
     (if is_nan v then ''NaN''
      else if f64_eq v f64_infinity then ''+Inf''
      else if f64_eq v f64_neg_infinity then ''-Inf''
      else let formatted = ryu_f64 ext v;
               formatted = (if preserve then formatted
                            else (case strip_suffix formatted ''.0'' of Some s \<Rightarrow> s | None \<Rightarrow> formatted))
           in formatted @
              (if preserve \<and> \<not> (\<exists>c\<in>set formatted. c \<in> set ''.eE'') then ''.0'' else []))"

definition write_float :: "externals \<Rightarrow> f64 \<Rightarrow> string" where
  "write_float ext v = write_float_impl ext v True"

definition write_legacy_compatible_float :: "externals \<Rightarrow> f64 \<Rightarrow> string" where
  "write_legacy_compatible_float ext v = write_float_impl ext v False"

section \<open>Labels\<close>

definition or_empty :: "string option \<Rightarrow> string" where
  "or_empty s = (case s of None \<Rightarrow> [] | Some t \<Rightarrow> t)"

definition write_label :: "label_pair \<Rightarrow> string" where
  "write_label l = write_label_name (or_empty (lp_name l)) @ [CHR ''='', quote_char] @
     write_escaped (or_empty (lp_value l)) @ [quote_char]"

definition write_additional :: "externals \<Rightarrow> string \<times> f64 \<Rightarrow> string" where
  "write_additional ext a = write_label_name (fst a) @ [CHR ''='', quote_char] @
     write_float ext (snd a) @ [quote_char]"

text \<open>The label loop of \<open>write_labels\<close>, which carries the separator.\<close>

fun write_label_loop :: "string \<Rightarrow> label_pair list \<Rightarrow> string \<times> string" where
  "write_label_loop separator [] = ([], separator)"
| "write_label_loop separator (l # ls) =
     (case write_label_loop '','' ls of (s, separator') \<Rightarrow> (separator @ write_label l @ s, separator'))"

definition write_labels :: "externals \<Rightarrow> label_pair list \<Rightarrow> (string \<times> f64) option \<Rightarrow> string" where
  "write_labels ext labels additional =
     (if labels = [] \<and> additional = None then []
      else case write_label_loop [] labels of (s, separator) \<Rightarrow>
        ''{'' @ s @
        (case additional of None \<Rightarrow> [] | Some a \<Rightarrow> separator @ write_additional ext a) @ ''}'')"

definition write_sample_name_and_labels ::
    "externals \<Rightarrow> string \<Rightarrow> string \<Rightarrow> label_pair list \<Rightarrow> (string \<times> f64) option \<Rightarrow> string" where
  "write_sample_name_and_labels ext name suffix labels additional =
     (if is_legacy_metric_name name then name @ suffix @ write_labels ext labels additional
      else ''{'' @ [quote_char] @ write_escaped name @ suffix @ [quote_char] @
           concat (map (\<lambda>l. '','' @ write_label l) labels) @
           (case additional of None \<Rightarrow> [] | Some a \<Rightarrow> '','' @ write_additional ext a) @ ''}'')"

section \<open>Samples\<close>

datatype sample_value = Float f64 | LegacyCompatibleFloat f64 | Unsigned u64

fun write_sample_value :: "externals \<Rightarrow> sample_value \<Rightarrow> string" where
  "write_sample_value ext (Float v) = write_float ext v"
| "write_sample_value ext (LegacyCompatibleFloat v) = write_legacy_compatible_float ext v"
| "write_sample_value ext (Unsigned n) = show_u64 n"

text \<open>The doubles \<open>1_000.0\<close> and \<open>1e-9\<close>.\<close>

definition f64_thousand :: f64 where
  "f64_thousand = F64 0x408F400000000000"

definition f64_nano :: f64 where
  "f64_nano = F64 0x3E112E0BE826D695"

definition or_zero :: "f64 option \<Rightarrow> f64" where
  "or_zero v = (case v of None \<Rightarrow> f64_zero | Some x \<Rightarrow> x)"

definition write_exemplar :: "externals \<Rightarrow> exemplar \<Rightarrow> string" where
  "write_exemplar ext e =
     '' # '' @ (if ex_label e = [] then ''{}'' else write_labels ext (ex_label e) None) @
     '' '' @ write_float ext (or_zero (ex_value e)) @
     (case ex_timestamp e of
        None \<Rightarrow> []
      | Some ts \<Rightarrow> '' '' @ write_float ext
          (f64_add (f64_of_i64 (ts_seconds ts)) (f64_mul (f64_of_i32 (ts_nanos ts)) f64_nano)))"

definition write_sample ::
    "externals \<Rightarrow> string \<Rightarrow> string \<Rightarrow> metric \<Rightarrow> (string \<times> f64) option \<Rightarrow> sample_value \<Rightarrow>
     exemplar option \<Rightarrow> string" where
  "write_sample ext name suffix m additional v e =
     write_sample_name_and_labels ext name suffix (m_label m) additional @
     '' '' @ write_sample_value ext v @
     (case m_timestamp_ms m of
        None \<Rightarrow> []
      | Some ms \<Rightarrow> '' '' @ write_float ext (f64_div (f64_of_i64 ms) f64_thousand)) @
     (case e of None \<Rightarrow> [] | Some ex \<Rightarrow> write_exemplar ext ex) @
     [newline]"

definition write_plain_sample ::
    "externals \<Rightarrow> string \<Rightarrow> string \<Rightarrow> metric \<Rightarrow> sample_value \<Rightarrow> string" where
  "write_plain_sample ext name suffix m v = write_sample ext name suffix m None v None"

section \<open>Reading a series back\<close>

text \<open>A quoted string after its opening quote: the unescaped text and the rest.\<close>

fun read_quoted :: "string \<Rightarrow> (string \<times> string) option" where
  "read_quoted [] = None"
| "read_quoted [c] = (if c = quote_char then Some ([], []) else None)"
| "read_quoted (c # d # cs) =
     (if c = quote_char then Some ([], d # cs)
      else if c = backslash
      then map_option (\<lambda>(s, rest). ((if d = CHR ''n'' then newline else d) # s, rest)) (read_quoted cs)
      else map_option (\<lambda>(s, rest). (c # s, rest)) (read_quoted (d # cs)))"

definition read_label_name :: "string \<Rightarrow> (string \<times> string) option" where
  "read_label_name s =
     (case s of
        [] \<Rightarrow> None
      | c # cs \<Rightarrow> if c = quote_char then read_quoted cs
                 else Some (takeWhile is_label_name_char s, dropWhile is_label_name_char s))"

definition read_label :: "string \<Rightarrow> ((string \<times> string) \<times> string) option" where
  "read_label s =
     Option.bind (read_label_name s) (\<lambda>(n, r).
       case r of
         c # d # r' \<Rightarrow> if c = CHR ''='' \<and> d = quote_char
                       then map_option (\<lambda>(v, rest). ((n, v), rest)) (read_quoted r') else None
       | _ \<Rightarrow> None)"

text \<open>Labels separated by commas up to the closing brace; \<open>n\<close> bounds their number.\<close>

fun read_labels :: "nat \<Rightarrow> string \<Rightarrow> ((string \<times> string) list \<times> string) option" where
  "read_labels 0 s = None"
| "read_labels (Suc n) s =
     Option.bind (read_label s) (\<lambda>(l, r).
       case r of
         c # r' \<Rightarrow> if c = CHR '','' then map_option (\<lambda>(ls, rest). (l # ls, rest)) (read_labels n r')
                   else if c = CHR ''}'' then Some ([l], r') else None
       | [] \<Rightarrow> None)"

text \<open>A series that starts with a bare name, and one that starts with a brace.\<close>

definition read_plain_series :: "string \<Rightarrow> (string \<times> (string \<times> string) list \<times> string) option" where
  "read_plain_series s =
     (case dropWhile is_metric_name_char s of
        [] \<Rightarrow> Some (takeWhile is_metric_name_char s, [], [])
      | e # r \<Rightarrow> if e = CHR ''{''
                 then map_option (\<lambda>(ls, rest). (takeWhile is_metric_name_char s, ls, rest)) (read_labels (length r) r)
                 else Some (takeWhile is_metric_name_char s, [], e # r))"

definition read_quoted_series :: "string \<Rightarrow> (string \<times> (string \<times> string) list \<times> string) option" where
  "read_quoted_series s =
     Option.bind (read_quoted s) (\<lambda>(name, r).
       case r of
         e # r' \<Rightarrow> if e = CHR ''}'' then Some (name, [], r')
                   else if e = CHR '',''
                   then map_option (\<lambda>(ls, rest). (name, ls, rest)) (read_labels (length r') r')
                   else None
       | [] \<Rightarrow> None)"

definition read_series :: "string \<Rightarrow> (string \<times> (string \<times> string) list \<times> string) option" where
  "read_series s =
     (if take 2 s = [CHR ''{'', quote_char] then read_quoted_series (drop 2 s) else read_plain_series s)"

section \<open>Characters\<close>

lemmas char_defs = quote_char_def backslash_def newline_def

lemma name_chars:
  "is_metric_name_char c \<Longrightarrow> c \<notin> {quote_char, backslash, newline, CHR ''{'', CHR ''}'', CHR '','', CHR ''='', CHR '' ''}"
  by (auto simp: is_metric_name_char_def is_ascii_alphanumeric_def is_ascii_alphabetic_def
      is_ascii_digit_def Let_def char_defs)

lemma label_char_is_metric_char: "is_label_name_char c \<Longrightarrow> is_metric_name_char c"
  by (auto simp: is_label_name_char_def is_metric_name_char_def)

lemma legacy_metric_name_chars:
  "is_legacy_metric_name n \<Longrightarrow> n \<noteq> [] \<and> (\<forall>c\<in>set n. is_metric_name_char c)"
  by (auto simp: is_legacy_metric_name_def is_metric_name_char_def is_ascii_alphanumeric_def
      split: list.splits)

lemma legacy_label_name_chars:
  "is_legacy_label_name n \<Longrightarrow> n \<noteq> [] \<and> (\<forall>c\<in>set n. is_label_name_char c)"
  by (auto simp: is_legacy_label_name_def is_label_name_char_def is_ascii_alphanumeric_def
      split: list.splits)

definition plain_char :: "char \<Rightarrow> bool" where
  "plain_char c \<longleftrightarrow> c \<noteq> quote_char \<and> c \<noteq> backslash \<and> c \<noteq> newline"

lemma write_escaped_plain: "\<forall>c\<in>set s. plain_char c \<Longrightarrow> write_escaped s = s"
  by (induction s) (auto simp: write_escaped_def escape_char_def plain_char_def)

lemma metric_char_plain: "is_metric_name_char c \<Longrightarrow> plain_char c"
  using name_chars [of c] by (simp add: plain_char_def)

lemma ryu_char_plain: "is_ryu_char c \<Longrightarrow> plain_char c"
  by (auto simp: is_ryu_char_def plain_char_def is_ascii_digit_def char_defs)

lemma strip_suffix_chars: "strip_suffix s suf = Some t \<Longrightarrow> set t \<subseteq> set s"
  by (auto simp: strip_suffix_def dest: in_set_takeD split: if_splits)

lemma finite_unless_special:
  "\<not> is_nan v \<Longrightarrow> \<not> f64_eq v f64_infinity \<Longrightarrow> \<not> f64_eq v f64_neg_infinity \<Longrightarrow> is_finite v"
  using f64_cases [of v] by (auto simp: f64_eq_def)

lemma write_float_plain:
  assumes "ryu_text ext"
  shows "\<forall>c\<in>set (write_float_impl ext v preserve). plain_char c"
proof (cases "is_nan v \<or> f64_eq v f64_infinity \<or> f64_eq v f64_neg_infinity")
  case True
  then show ?thesis
    by (auto simp: write_float_impl_def plain_char_def char_defs)
next
  case False
  then have "\<forall>c\<in>set (ryu_f64 ext v). plain_char c"
    using assms finite_unless_special ryu_char_plain by (auto simp: ryu_text_def)
  moreover from this have "\<forall>c\<in>set (case strip_suffix (ryu_f64 ext v) ''.0'' of Some s \<Rightarrow> s | None \<Rightarrow> ryu_f64 ext v).
      plain_char c"
    by (auto split: option.splits dest: strip_suffix_chars)
  ultimately show ?thesis
    using False by (auto simp: write_float_impl_def Let_def plain_char_def char_defs)
qed

section \<open>The reader recovers what was written\<close>

lemma read_quoted_plain:
  "c \<noteq> quote_char \<Longrightarrow> c \<noteq> backslash \<Longrightarrow> t \<noteq> [] \<Longrightarrow>
     read_quoted (c # t) = map_option (\<lambda>(s, rest). (c # s, rest)) (read_quoted t)"
  by (cases t) auto

lemma char_distinct [simp]:
  "quote_char \<noteq> backslash" "backslash \<noteq> quote_char" "newline \<noteq> backslash" "backslash \<noteq> newline"
  "newline \<noteq> quote_char" "quote_char \<noteq> newline" "backslash \<noteq> CHR ''n''" "quote_char \<noteq> CHR ''n''"
  "newline \<noteq> CHR ''n''"
  by (simp_all add: char_defs)

lemma read_quoted_write: "read_quoted (write_escaped s @ quote_char # rest) = Some (s, rest)"
proof (induction s)
  case Nil
  then show ?case by (cases rest) (simp_all add: write_escaped_def)
next
  case (Cons c s)
  have esc: "write_escaped (c # s) = escape_char c @ write_escaped s"
    by (simp add: write_escaped_def)
  show ?case
  proof (cases "c = backslash \<or> c = newline \<or> c = quote_char")
    case True
    then show ?thesis
      using Cons by (auto simp: esc escape_char_def)
  next
    case False
    then show ?thesis
      using Cons by (simp add: esc escape_char_def read_quoted_plain)
  qed
qed

lemma takeWhile_stop:
  "\<forall>c\<in>set xs. P c \<Longrightarrow> \<not> P y \<Longrightarrow> takeWhile P (xs @ y # ys) = xs \<and> dropWhile P (xs @ y # ys) = y # ys"
  by (induction xs) auto

lemma stop_chars [simp]:
  "\<not> is_label_name_char (CHR ''='')" "\<not> is_metric_name_char (CHR ''{'')" "\<not> is_metric_name_char (CHR '' '')"
  "\<not> is_metric_name_char quote_char" "\<not> is_label_name_char quote_char"
  using name_chars label_char_is_metric_char by (auto simp: char_defs)

lemma read_label_name_write:
  "read_label_name (write_label_name n @ CHR ''='' # r) = Some (n, CHR ''='' # r)"
proof (cases "is_legacy_label_name n")
  case True
  then obtain c cs where n: "n = c # cs" "\<forall>d\<in>set n. is_label_name_char d"
    using legacy_label_name_chars [of n] by (cases n) auto
  then have "c \<noteq> quote_char"
    by auto
  moreover have "takeWhile is_label_name_char (n @ CHR ''='' # r) = n \<and>
      dropWhile is_label_name_char (n @ CHR ''='' # r) = CHR ''='' # r"
    using n(2) by (intro takeWhile_stop) simp_all
  ultimately show ?thesis
    using True n(1) by (simp add: read_label_name_def write_label_name_def)
next
  case False
  then show ?thesis
    using read_quoted_write [of n "CHR ''='' # r"]
    by (simp add: read_label_name_def write_label_name_def write_quoted_def)
qed

definition pair_of :: "label_pair \<Rightarrow> string \<times> string" where
  "pair_of l = (or_empty (lp_name l), or_empty (lp_value l))"

lemma read_label_write: "read_label (write_label l @ r) = Some (pair_of l, r)"
  using read_label_name_write [of "or_empty (lp_name l)"
      "quote_char # write_escaped (or_empty (lp_value l)) @ quote_char # r"]
  by (simp add: read_label_def write_label_def pair_of_def read_quoted_write)

lemma read_additional_write:
  assumes "ryu_text ext"
  shows "read_label (write_additional ext a @ r) = Some ((fst a, write_float ext (snd a)), r)"
proof -
  have "write_escaped (write_float ext (snd a)) = write_float ext (snd a)"
    unfolding write_float_def using assms by (intro write_escaped_plain write_float_plain)
  then have "read_quoted (write_float ext (snd a) @ quote_char # r) = Some (write_float ext (snd a), r)"
    using read_quoted_write [of "write_float ext (snd a)" r] by simp
  then show ?thesis
    using read_label_name_write [of "fst a" "quote_char # write_float ext (snd a) @ quote_char # r"]
    by (simp add: read_label_def write_additional_def)
qed

text \<open>Items: the written text of a label with what it reads as.\<close>

definition reads_as :: "string \<times> string \<times> string \<Rightarrow> bool" where
  "reads_as i \<longleftrightarrow> (\<forall>r. read_label (fst i @ r) = Some (snd i, r))"

lemma read_labels_items:
  "reads_as i \<Longrightarrow> \<forall>j\<in>set items. reads_as j \<Longrightarrow> length items < n \<Longrightarrow>
     read_labels n (fst i @ concat (map (\<lambda>j. '','' @ fst j) items) @ CHR ''}'' # r) =
       Some (snd i # map snd items, r)"
proof (induction items arbitrary: i n)
  case Nil
  then show ?case by (cases n) (simp_all add: reads_as_def)
next
  case (Cons j js)
  obtain m where n: "n = Suc m" "length js < m"
    using Cons.prems(3) by (cases n) auto
  show ?case
    using Cons.IH [of j m] Cons.prems n by (simp add: reads_as_def)
qed

definition items_of :: "externals \<Rightarrow> label_pair list \<Rightarrow> (string \<times> f64) option \<Rightarrow> (string \<times> string \<times> string) list" where
  "items_of ext labels additional =
     map (\<lambda>l. (write_label l, pair_of l)) labels @
     (case additional of None \<Rightarrow> [] | Some a \<Rightarrow> [(write_additional ext a, (fst a, write_float ext (snd a)))])"

lemma items_read:
  "additional = None \<or> ryu_text ext \<Longrightarrow> j \<in> set (items_of ext labels additional) \<Longrightarrow> reads_as j"
  by (auto simp: items_of_def reads_as_def read_label_write read_additional_write split: option.splits)

lemma write_label_loop_result:
  "write_label_loop sep [] = ([], sep)"
  "write_label_loop sep (l # ls) = (sep @ write_label l @ concat (map (\<lambda>l. '','' @ write_label l) ls), '','')"
proof -
  show "write_label_loop sep (l # ls) = (sep @ write_label l @ concat (map (\<lambda>l. '','' @ write_label l) ls), '','')"
  proof (induction ls arbitrary: sep l)
    case (Cons a ls)
    from Cons [of "'',''" a] show ?case
      by (simp only: write_label_loop.simps(2) [of sep l]) simp
  qed simp
qed simp

lemma write_labels_items:
  "write_labels ext labels additional =
     (case items_of ext labels additional of
        [] \<Rightarrow> []
      | i # items \<Rightarrow> ''{'' @ fst i @ concat (map (\<lambda>j. '','' @ fst j) items) @ ''}'')"
  by (cases labels; cases additional)
    (simp_all add: write_labels_def items_of_def write_label_loop_result o_def
      del: write_label_loop.simps)

lemma length_items: "length items \<le> length (fst i @ concat (map (\<lambda>j. '','' @ fst j) items) @ r)"
  by (induction items) simp_all

lemma read_labels_write:
  assumes "additional = None \<or> ryu_text ext" "items_of ext labels additional = i # items"
    and "text = fst i @ concat (map (\<lambda>j. '','' @ fst j) items) @ CHR ''}'' # r"
  shows "read_labels (length text) text = Some (snd i # map snd items, r)"
proof -
  have "reads_as i" "\<forall>j\<in>set items. reads_as j"
    using items_read [OF assms(1)] assms(2) by (metis list.set_intros)+
  moreover have "length items < length text"
    unfolding assms(3) using length_items [of items i "[]"] by simp
  ultimately show ?thesis
    unfolding assms(3) by (rule read_labels_items)
qed

lemma series_legacy:
  assumes "is_legacy_metric_name name" "\<forall>c\<in>set suffix. is_metric_name_char c"
    and "additional = None \<or> ryu_text ext"
  shows "read_series (write_sample_name_and_labels ext name suffix labels additional @ CHR '' '' # rest) =
    Some (name @ suffix, map snd (items_of ext labels additional), CHR '' '' # rest)"
proof -
  obtain c cs where c: "name = c # cs" "is_metric_name_char c"
    using legacy_metric_name_chars [OF assms(1)] by (cases name) auto
  have chars: "\<forall>c\<in>set (name @ suffix). is_metric_name_char c"
    using legacy_metric_name_chars [OF assms(1)] assms(2) by auto
  have ne: "c \<noteq> CHR ''{''"
    using c(2) name_chars by auto
  have start: "read_series ((name @ suffix) @ t) = read_plain_series ((name @ suffix) @ t)" for t
    using ne by (simp add: read_series_def c(1) numeral_2_eq_2)
  show ?thesis
  proof (cases "items_of ext labels additional")
    case Nil
    then have "write_sample_name_and_labels ext name suffix labels additional = name @ suffix"
      using assms(1) by (simp add: write_sample_name_and_labels_def write_labels_items)
    then show ?thesis
      using start [of "CHR '' '' # rest"] takeWhile_stop [OF chars, of "CHR '' ''" rest] Nil
      by (simp add: read_plain_series_def)
  next
    case (Cons i items)
    then have w: "write_sample_name_and_labels ext name suffix labels additional =
        (name @ suffix) @ CHR ''{'' # fst i @ concat (map (\<lambda>j. '','' @ fst j) items) @ ''}''"
      using assms(1) by (simp add: write_sample_name_and_labels_def write_labels_items)
    show ?thesis
      unfolding w
      using start [of "CHR ''{'' # fst i @ concat (map (\<lambda>j. '','' @ fst j) items) @ CHR ''}'' # CHR '' '' # rest"]
        takeWhile_stop [OF chars, of "CHR ''{''"]
        read_labels_write [OF assms(3) Cons refl, where r = "CHR '' '' # rest"] Cons
      by (simp add: read_plain_series_def del: read_labels.simps)
  qed
qed

lemma quoted_items:
  "concat (map (\<lambda>l. '','' @ write_label l) labels) @
     (case additional of None \<Rightarrow> [] | Some a \<Rightarrow> '','' @ write_additional ext a) =
   concat (map (\<lambda>j. '','' @ fst j) (items_of ext labels additional))"
  by (simp add: items_of_def o_def split: option.split)

lemma series_quoted:
  assumes "\<not> is_legacy_metric_name name" "\<forall>c\<in>set suffix. is_metric_name_char c"
    and "additional = None \<or> ryu_text ext"
  shows "read_series (write_sample_name_and_labels ext name suffix labels additional @ CHR '' '' # rest) =
    Some (name @ suffix, map snd (items_of ext labels additional), CHR '' '' # rest)"
proof -
  have "write_escaped suffix = suffix"
    using assms(2) metric_char_plain by (intro write_escaped_plain) auto
  then have esc: "write_escaped name @ suffix = write_escaped (name @ suffix)"
    by (simp add: write_escaped_def)
  let ?items = "concat (map (\<lambda>j. '','' @ fst j) (items_of ext labels additional))"
  have w: "write_sample_name_and_labels ext name suffix labels additional @ CHR '' '' # rest =
      CHR ''{'' # quote_char # write_escaped (name @ suffix) @ quote_char # ?items @ CHR ''}'' # CHR '' '' # rest"
    unfolding quoted_items [symmetric] esc [symmetric]
    using assms(1) by (simp add: write_sample_name_and_labels_def)
  show ?thesis
  proof (cases "items_of ext labels additional")
    case Nil
    then show ?thesis
      unfolding w by (simp add: read_series_def read_quoted_series_def read_quoted_write)
  next
    case (Cons i items)
    then show ?thesis
      unfolding w using read_labels_write [OF assms(3) Cons refl, where r = "CHR '' '' # rest"]
      by (simp add: read_series_def read_quoted_series_def read_quoted_write del: read_labels.simps)
  qed
qed

lemma escaped_one_line: "newline \<notin> set (write_escaped s)"
  by (induction s) (auto simp: write_escaped_def escape_char_def char_defs)

lemma read_series_write:
  assumes "\<forall>c\<in>set suffix. is_metric_name_char c" and "additional = None \<or> ryu_text ext"
  shows "read_series (write_sample_name_and_labels ext name suffix labels additional @ CHR '' '' # rest) =
    Some (name @ suffix,
          map (\<lambda>l. (or_empty (lp_name l), or_empty (lp_value l))) labels @
          (case additional of None \<Rightarrow> [] | Some (n, v) \<Rightarrow> [(n, write_float ext v)]),
          CHR '' '' # rest)"
proof -
  have "map snd (items_of ext labels additional) =
      map (\<lambda>l. (or_empty (lp_name l), or_empty (lp_value l))) labels @
      (case additional of None \<Rightarrow> [] | Some (n, v) \<Rightarrow> [(n, write_float ext v)])"
    by (auto simp: items_of_def pair_of_def split: option.split)
  then show ?thesis
    using series_legacy [OF _ assms] series_quoted [OF _ assms]
    by (cases "is_legacy_metric_name name") simp_all
qed

section \<open>Properties\<close>

text \<open>Escaping is reversible and confines its data: an escaped string between double quotes,
  followed by anything, is read back exactly, whatever backslashes, quotes and line feeds it
  holds, and the escaped text itself has no line feed.\<close>

theorem escape_round_trip:
  "read_quoted (write_escaped s @ quote_char # rest) = Some (s, rest) \<and> newline \<notin> set (write_escaped s)"
proof
  show "newline \<notin> set (write_escaped s)"
    by (rule escaped_one_line)
qed (rule read_quoted_write)

text \<open>Series identity survives the text format: from the name and labels of any sample line,
  legacy or quoted, with or without an additional \<open>le\<close> or \<open>quantile\<close> label, a scraper
  reads back exactly the family name with its suffix and the label pairs in order, so two samples
  with different names or labels never print the same series, whatever characters the data
  contain.\<close>

theorem series_round_trip:
  assumes "\<forall>c\<in>set suffix. is_metric_name_char c" and "additional = None \<or> ryu_text ext"
  shows "read_series (write_sample_name_and_labels ext name suffix labels additional @ CHR '' '' # rest) =
    Some (name @ suffix,
          map (\<lambda>l. (or_empty (lp_name l), or_empty (lp_value l))) labels @
          (case additional of None \<Rightarrow> [] | Some (n, v) \<Rightarrow> [(n, write_float ext v)]),
          CHR '' '' # rest)"
  using assms by (rule read_series_write)

theorem series_round_trip_witness:
  "read_series (write_sample_name_and_labels constant_externals ''a b'' ''_bucket''
      [\<lparr>lp_name = Some ''k'', lp_value = Some [CHR ''x'', quote_char, newline]\<rparr>]
      (Some (''le'', f64_infinity)) @ '' 1'') =
   Some (''a b_bucket'', [(''k'', [CHR ''x'', quote_char, newline]), (''le'', ''+Inf'')], '' 1'')"
proof -
  have "\<forall>c\<in>set ''_bucket''. is_metric_name_char c"
    by (simp add: is_metric_name_char_def is_ascii_alphanumeric_def is_ascii_alphabetic_def Let_def)
  from series_round_trip [OF this, of "Some (''le'', f64_infinity)" constant_externals "''a b''"
      "[\<lparr>lp_name = Some ''k'', lp_value = Some [CHR ''x'', quote_char, newline]\<rparr>]" "''1''"]
  show ?thesis
    by (simp add: ryu_text_constant or_empty_def write_float_def write_float_impl_def f64_eq_def)
qed

end
