(* ===== verification/TextEncoding.thy ===== *)
theory TextEncoding
  imports TextSyntax
begin

text \<open>
  The encoders, \<open>foundations-metrics/src/encoding/text.rs\<close> from \<open>encode_to_text\<close> down to the
  sample lines, and \<open>encode_to_protobuf\<close> of \<open>encoding/mod.rs\<close>. An encoder returns the text it
  appends and the events it reports. The specification side is a reader of whole expositions
  (\<open>scrape\<close>) and the list of samples that a family stands for (\<open>family_samples\<close>); the
  lemmas show that scraping the output gives those samples. The message encoding of the
  \<open>prost\<close> crate is a parameter of the protobuf encoder.
\<close>

section \<open>Histograms\<close>

text \<open>Consecutive writes to the output, with the events of each.\<close>

definition in_sequence :: "(string \<times> event list) list \<Rightarrow> string \<times> event list" where
  "in_sequence ws = (concat (map fst ws), concat (map snd ws))"

definition has_native_buckets :: "histogram_msg \<Rightarrow> bool" where
  "has_native_buckets h \<longleftrightarrow>
     h_schema h \<noteq> None \<or> h_zero_threshold h \<noteq> None \<or> h_zero_count h \<noteq> None \<or>
     h_zero_count_float h \<noteq> None \<or> h_negative_span h \<noteq> [] \<or> h_negative_delta h \<noteq> [] \<or>
     h_negative_count h \<noteq> [] \<or> h_positive_span h \<noteq> [] \<or> h_positive_delta h \<noteq> [] \<or>
     h_positive_count h \<noteq> []"

definition is_some_and :: "('a \<Rightarrow> bool) \<Rightarrow> 'a option \<Rightarrow> bool" where
  "is_some_and P v = (case v of None \<Rightarrow> False | Some x \<Rightarrow> P x)"

definition count_or_zero :: "u64 option \<Rightarrow> u64" where
  "count_or_zero v = (case v of None \<Rightarrow> 0 | Some n \<Rightarrow> n)"

text \<open>The bucket loop of \<open>encode_histogram\<close>, which carries \<open>infinity_bucket_seen\<close>.\<close>

fun encode_bucket_lines ::
    "externals \<Rightarrow> string \<Rightarrow> metric \<Rightarrow> bool \<Rightarrow> bucket list \<Rightarrow> string \<times> bool" where
  "encode_bucket_lines ext name m seen [] = ([], seen)"
| "encode_bucket_lines ext name m seen (b # bs) =
     (let upper_bound = or_zero (b_upper_bound b);
          upper_bound = (if f64_eq upper_bound f64_max then f64_infinity else upper_bound);
          line = write_sample ext name ''_bucket'' m (Some (''le'', upper_bound))
            (Unsigned (count_or_zero (b_cumulative_count b))) (b_exemplar b)
      in (case encode_bucket_lines ext name m (seen \<or> f64_eq upper_bound f64_infinity) bs of
            (s, seen') \<Rightarrow> (line @ s, seen')))"

definition encode_histogram ::
    "externals \<Rightarrow> string \<Rightarrow> metric_type \<Rightarrow> metric \<Rightarrow> histogram_msg \<Rightarrow> string \<times> event list" where
  "encode_histogram ext name t m h =
     (if h_bucket h = [] \<and> has_native_buckets h then ([], [Report (NativeHistogramInText name)])
      else if is_some_and (\<lambda>c. f64_gt c f64_zero) (h_sample_count_float h) \<or>
              (\<exists>b\<in>set (h_bucket h). is_some_and (\<lambda>c. f64_gt c f64_zero) (b_cumulative_count_float b))
      then ([], [Report (FloatHistogramInText name)])
      else let suffixes = (if t = GaugeHistogram then (''_gsum'', ''_gcount'') else (''_sum'', ''_count''));
               sample_count = count_or_zero (h_sample_count h)
           in (case encode_bucket_lines ext name m False (h_bucket h) of (buckets, infinity_bucket_seen) \<Rightarrow>
             (write_plain_sample ext name (fst suffixes) m (Float (or_zero (h_sample_sum h))) @
              write_plain_sample ext name (snd suffixes) m (Unsigned sample_count) @
              buckets @
              (if infinity_bucket_seen then []
               else write_sample ext name ''_bucket'' m (Some (''le'', f64_infinity))
                      (Unsigned sample_count) None),
              [])))"

section \<open>Metrics and families\<close>

definition report_missing_value :: "string \<Rightarrow> string \<Rightarrow> event" where
  "report_missing_value name expected = Report (MissingValue name expected)"

definition encode_metric :: "externals \<Rightarrow> string \<Rightarrow> metric_type \<Rightarrow> metric \<Rightarrow> string \<times> event list" where
  "encode_metric ext name t m =
     (case t of
        Counter \<Rightarrow> (case m_counter m of
          None \<Rightarrow> ([], [report_missing_value name ''counter''])
        | Some c \<Rightarrow> (write_sample ext name [] m None (LegacyCompatibleFloat (or_zero (c_value c))) (c_exemplar c), []))
      | Gauge \<Rightarrow> (case m_gauge m of
          None \<Rightarrow> ([], [report_missing_value name ''gauge''])
        | Some g \<Rightarrow> (write_plain_sample ext name [] m (LegacyCompatibleFloat (or_zero (g_value g))), []))
      | Summary \<Rightarrow> (case m_summary m of
          None \<Rightarrow> ([], [report_missing_value name ''summary''])
        | Some s \<Rightarrow>
            (concat (map (\<lambda>q. write_sample ext name [] m (Some (''quantile'', or_zero (q_quantile q)))
                                (Float (or_zero (q_value q))) None) (s_quantile s)) @
             write_plain_sample ext name ''_sum'' m (Float (or_zero (s_sample_sum s))) @
             write_plain_sample ext name ''_count'' m (Unsigned (count_or_zero (s_sample_count s))), []))
      | Untyped \<Rightarrow> (case m_untyped m of
          None \<Rightarrow> ([], [report_missing_value name ''untyped value''])
        | Some u \<Rightarrow> (write_plain_sample ext name [] m (Float (or_zero (u_value u))), []))
      | _ \<Rightarrow> (case m_histogram m of
          None \<Rightarrow> ([], [report_missing_value name ''histogram''])
        | Some h \<Rightarrow> encode_histogram ext name t m h))"

fun metric_type_name :: "metric_type \<Rightarrow> string" where
  "metric_type_name Counter = ''counter''"
| "metric_type_name Gauge = ''gauge''"
| "metric_type_name Summary = ''summary''"
| "metric_type_name Untyped = ''unknown''"
| "metric_type_name Histogram = ''histogram''"
| "metric_type_name GaugeHistogram = ''gaugehistogram''"

definition encode_family :: "externals \<Rightarrow> metric_family \<Rightarrow> string \<times> event list" where
  "encode_family ext f =
     (case f_name f of
        None \<Rightarrow> ([], [Panic ''metric family names are validated before text encoding''])
      | Some name \<Rightarrow> (case family_type f of
          None \<Rightarrow> ([], [Report (UnknownFamilyType name)])
        | Some t \<Rightarrow>
            (let help = (if is_some_and (\<lambda>h. h \<noteq> []) (f_help f)
                         then ''# HELP '' @ write_metadata_name name @ '' '' @
                              write_escaped (or_empty (f_help f)) @ [newline]
                         else []);
                 type_line = ''# TYPE '' @ write_metadata_name name @ '' '' @ metric_type_name t @ [newline];
                 unit_line = (case f_unit f of
                     None \<Rightarrow> []
                   | Some u \<Rightarrow> ''# UNIT '' @ write_metadata_name name @ '' '' @ write_escaped u @ [newline])
             in (case in_sequence (map (encode_metric ext name t) (f_metric f)) of
                   (rows, evs) \<Rightarrow> (help @ type_line @ unit_line @ rows, evs)))))"

definition encode_to_text :: "externals \<Rightarrow> metric_family list \<Rightarrow> string \<times> event list" where
  "encode_to_text ext families =
     (case in_sequence (map (\<lambda>f.
        case sanitized_metric_family f TextEncoding of
          (None, evs) \<Rightarrow> ([], evs)
        | (Some f', evs) \<Rightarrow> (case encode_family ext f' of (s, evs') \<Rightarrow> (s, evs @ evs'))) families) of
      (output, evs) \<Rightarrow> (output @ ''# EOF'' @ [newline], evs))"

text \<open>\<open>encode_to_protobuf\<close>. The parameter is \<open>MetricFamily::encode_length_delimited\<close> of \<open>prost\<close>:
  the bytes it appends, or \<open>None\<close> for an \<open>EncodeError\<close>.\<close>

definition encode_to_protobuf ::
    "(metric_family \<Rightarrow> string option) \<Rightarrow> metric_family list \<Rightarrow> string \<times> event list" where
  "encode_to_protobuf encode_delimited families =
     in_sequence (map (\<lambda>f.
        case sanitized_metric_family f ProtobufEncoding of
          (None, evs) \<Rightarrow> ([], evs)
        | (Some f', evs) \<Rightarrow> (case encode_delimited f' of
            None \<Rightarrow> ([], evs @ [Panic ''encoding a protobuf message to a Vec cannot fail''])
          | Some bytes \<Rightarrow> (bytes, evs))) families)"

section \<open>The samples a family stands for\<close>

text \<open>A row of the exposition: suffix, additional label, value, exemplar.\<close>

type_synonym row = "string \<times> (string \<times> f64) option \<times> sample_value \<times> exemplar option"

text \<open>The bound a bucket is shown with: \<open>f64::MAX\<close> is the largest finite bound and stands for
  positive infinity.\<close>

definition shown_bound :: "bucket \<Rightarrow> f64" where
  "shown_bound b =
     (if f64_eq (or_zero (b_upper_bound b)) f64_max then f64_infinity else or_zero (b_upper_bound b))"

definition text_representable :: "histogram_msg \<Rightarrow> bool" where
  "text_representable h \<longleftrightarrow>
     (h_bucket h = [] \<longrightarrow> \<not> has_native_buckets h) \<and>
     \<not> is_some_and (\<lambda>c. f64_gt c f64_zero) (h_sample_count_float h) \<and>
     (\<forall>b\<in>set (h_bucket h). \<not> is_some_and (\<lambda>c. f64_gt c f64_zero) (b_cumulative_count_float b))"

definition histogram_rows :: "metric_type \<Rightarrow> histogram_msg \<Rightarrow> row list" where
  "histogram_rows t h =
     [(if t = GaugeHistogram then ''_gsum'' else ''_sum'', None, Float (or_zero (h_sample_sum h)), None),
      (if t = GaugeHistogram then ''_gcount'' else ''_count'', None, Unsigned (count_or_zero (h_sample_count h)), None)] @
     map (\<lambda>b. (''_bucket'', Some (''le'', shown_bound b), Unsigned (count_or_zero (b_cumulative_count b)), b_exemplar b))
       (h_bucket h) @
     (if \<exists>b\<in>set (h_bucket h). f64_eq (shown_bound b) f64_infinity then []
      else [(''_bucket'', Some (''le'', f64_infinity), Unsigned (count_or_zero (h_sample_count h)), None)])"

definition summary_rows :: "summary \<Rightarrow> row list" where
  "summary_rows s =
     map (\<lambda>q. ([], Some (''quantile'', or_zero (q_quantile q)), Float (or_zero (q_value q)), None)) (s_quantile s) @
     [(''_sum'', None, Float (or_zero (s_sample_sum s)), None),
      (''_count'', None, Unsigned (count_or_zero (s_sample_count s)), None)]"

definition list_of :: "('a \<Rightarrow> 'b list) \<Rightarrow> 'a option \<Rightarrow> 'b list" where
  "list_of f v = (case v of None \<Rightarrow> [] | Some x \<Rightarrow> f x)"

fun metric_rows :: "metric_type \<Rightarrow> metric \<Rightarrow> row list" where
  "metric_rows Counter m =
     list_of (\<lambda>c. [([], None, LegacyCompatibleFloat (or_zero (c_value c)), c_exemplar c)]) (m_counter m)"
| "metric_rows Gauge m =
     list_of (\<lambda>g. [([], None, LegacyCompatibleFloat (or_zero (g_value g)), None)]) (m_gauge m)"
| "metric_rows Summary m = list_of summary_rows (m_summary m)"
| "metric_rows Untyped m = list_of (\<lambda>u. [([], None, Float (or_zero (u_value u)), None)]) (m_untyped m)"
| "metric_rows t m = list_of (\<lambda>h. if text_representable h then histogram_rows t h else []) (m_histogram m)"

text \<open>A sample as a scraper sees it: metric name, label pairs, printed value.\<close>

type_synonym sample = "string \<times> (string \<times> string) list \<times> string"

definition row_sample :: "externals \<Rightarrow> string \<Rightarrow> metric \<Rightarrow> row \<Rightarrow> sample" where
  "row_sample ext name m r =
     (case r of (suffix, additional, v, e) \<Rightarrow>
       (name @ suffix,
        map (\<lambda>l. (or_empty (lp_name l), or_empty (lp_value l))) (m_label m) @
          (case additional of None \<Rightarrow> [] | Some (n, x) \<Rightarrow> [(n, write_float ext x)]),
        write_sample_value ext v))"

definition family_samples :: "externals \<Rightarrow> metric_family \<Rightarrow> sample list" where
  "family_samples ext f =
     (case (f_name f, family_type f) of
        (Some name, Some t) \<Rightarrow>
          concat (map (\<lambda>m. map (row_sample ext name m) (metric_rows t m)) (f_metric f))
      | _ \<Rightarrow> [])"

text \<open>The families that an encoder keeps, as it sanitizes them.\<close>

definition sanitized_families :: "validation_context \<Rightarrow> metric_family list \<Rightarrow> metric_family list" where
  "sanitized_families ctx families =
     concat (map (\<lambda>f. list_of (\<lambda>f'. [f']) (fst (sanitized_metric_family f ctx))) families)"

section \<open>Scraping an exposition\<close>

fun text_lines :: "string \<Rightarrow> string list" where
  "text_lines [] = []"
| "text_lines (c # cs) =
     (if c = newline then [] # text_lines cs
      else (case text_lines cs of [] \<Rightarrow> [[c]] | l # ls \<Rightarrow> (c # l) # ls))"

definition read_sample :: "string \<Rightarrow> sample option" where
  "read_sample line =
     Option.bind (read_series line) (\<lambda>(name, labels, r).
       case r of
         [] \<Rightarrow> None
       | c # r' \<Rightarrow> if c = CHR '' '' then Some (name, labels, takeWhile (\<lambda>d. d \<noteq> CHR '' '') r') else None)"

definition is_comment :: "string \<Rightarrow> bool" where
  "is_comment line \<longleftrightarrow> take 1 line = ''#''"

text \<open>Every line is a comment or a sample; the end marker is the last line and only there.\<close>

definition scrape :: "string \<Rightarrow> sample list option" where
  "scrape text =
     (let ls = text_lines text in
      if ls \<noteq> [] \<and> last ls = ''# EOF'' \<and> ''# EOF'' \<notin> set (butlast ls)
      then those (map read_sample (filter (\<lambda>l. \<not> is_comment l) ls)) else None)"

section \<open>Decoding a protobuf stream\<close>

text \<open>A scraper decodes one delimited message after another until the bytes end.\<close>

fun decode_families ::
    "(string \<Rightarrow> (metric_family \<times> string) option) \<Rightarrow> nat \<Rightarrow> string \<Rightarrow> metric_family list option" where
  "decode_families decode n [] = Some []"
| "decode_families decode 0 (c # cs) = None"
| "decode_families decode (Suc n) (c # cs) =
     Option.bind (decode (c # cs)) (\<lambda>(f, rest). map_option (\<lambda>fs. f # fs) (decode_families decode n rest))"

section \<open>The encoders write the rows\<close>

definition write_row :: "externals \<Rightarrow> string \<Rightarrow> metric \<Rightarrow> row \<Rightarrow> string" where
  "write_row ext name m r =
     (case r of (suffix, additional, v, e) \<Rightarrow> write_sample ext name suffix m additional v e)"

lemma encode_bucket_lines_rows:
  "encode_bucket_lines ext name m seen bs =
     (concat (map (write_row ext name m)
        (map (\<lambda>b. (''_bucket'', Some (''le'', shown_bound b), Unsigned (count_or_zero (b_cumulative_count b)), b_exemplar b)) bs)),
      seen \<or> (\<exists>b\<in>set bs. f64_eq (shown_bound b) f64_infinity))"
  by (induction bs arbitrary: seen) (auto simp: Let_def write_row_def shown_bound_def)

lemma encode_histogram_rows:
  "fst (encode_histogram ext name t m h) =
     concat (map (write_row ext name m) (if text_representable h then histogram_rows t h else []))"
  by (auto simp: encode_histogram_def text_representable_def encode_bucket_lines_rows histogram_rows_def
      write_row_def write_plain_sample_def Let_def)

lemma encode_metric_rows:
  "fst (encode_metric ext name t m) = concat (map (write_row ext name m) (metric_rows t m))"
  by (cases t)
    (simp_all add: encode_metric_def list_of_def summary_rows_def write_row_def write_plain_sample_def
      encode_histogram_rows o_def split: option.split)

lemma encode_metric_panic_free: "panic_free (snd (encode_metric ext name t m))"
  by (cases t)
    (auto simp: encode_metric_def encode_histogram_def report_missing_value_def Let_def
      split: option.split prod.split)

section \<open>Lines\<close>

definition unlines :: "string list \<Rightarrow> string" where
  "unlines ls = concat (map (\<lambda>l. l @ [newline]) ls)"

lemma unlines_append: "unlines (ls @ ms) = unlines ls @ unlines ms"
  by (simp add: unlines_def)

lemma text_lines_line: "newline \<notin> set l \<Longrightarrow> text_lines (l @ newline # r) = l # text_lines r"
  by (induction l) auto

lemma text_lines_unlines: "\<forall>l\<in>set ls. newline \<notin> set l \<Longrightarrow> text_lines (unlines ls) = ls"
  by (induction ls) (simp_all add: unlines_def text_lines_line)

definition sample_line :: "externals \<Rightarrow> string \<Rightarrow> metric \<Rightarrow> row \<Rightarrow> string" where
  "sample_line ext name m r =
     (case r of (suffix, additional, v, e) \<Rightarrow>
       write_sample_name_and_labels ext name suffix (m_label m) additional @
       '' '' @ write_sample_value ext v @
       (case m_timestamp_ms m of
          None \<Rightarrow> []
        | Some ms \<Rightarrow> '' '' @ write_float ext (f64_div (f64_of_i64 ms) f64_thousand)) @
       (case e of None \<Rightarrow> [] | Some ex \<Rightarrow> write_exemplar ext ex))"

lemma write_row_line: "write_row ext name m r = sample_line ext name m r @ [newline]"
  by (simp add: write_row_def sample_line_def write_sample_def split: prod.split)

definition comment_lines :: "string \<Rightarrow> metric_type \<Rightarrow> metric_family \<Rightarrow> string list" where
  "comment_lines name t f =
     (if is_some_and (\<lambda>h. h \<noteq> []) (f_help f)
      then [''# HELP '' @ write_metadata_name name @ '' '' @ write_escaped (or_empty (f_help f))] else []) @
     [''# TYPE '' @ write_metadata_name name @ '' '' @ metric_type_name t] @
     list_of (\<lambda>u. [''# UNIT '' @ write_metadata_name name @ '' '' @ write_escaped u]) (f_unit f)"

definition family_lines :: "externals \<Rightarrow> metric_family \<Rightarrow> string list" where
  "family_lines ext f =
     (case (f_name f, family_type f) of
        (Some name, Some t) \<Rightarrow>
          comment_lines name t f @
          concat (map (\<lambda>m. map (sample_line ext name m) (metric_rows t m)) (f_metric f))
      | _ \<Rightarrow> [])"

lemma write_rows_lines:
  "concat (map (write_row ext name m) rs) = unlines (map (sample_line ext name m) rs)"
  by (induction rs) (simp_all add: unlines_def write_row_line)

lemma unlines_concat: "unlines (concat lss) = concat (map unlines lss)"
  by (induction lss) (simp_all add: unlines_append, simp add: unlines_def)

lemma family_rows_lines:
  "fst (in_sequence (map (encode_metric ext name t) ms)) =
     unlines (concat (map (\<lambda>m. map (sample_line ext name m) (metric_rows t m)) ms))"
  by (induction ms) (simp_all add: in_sequence_def encode_metric_rows write_rows_lines unlines_append, simp add: unlines_def)

lemma unlines_simps [simp]: "unlines [] = []" "unlines (l # ls) = l @ newline # unlines ls"
  by (simp_all add: unlines_def)

lemma encode_family_lines: "fst (encode_family ext f) = unlines (family_lines ext f)"
proof (cases "f_name f"; cases "family_type f")
  fix name t
  assume "f_name f = Some name" "family_type f = Some t"
  then show ?thesis
    by (simp add: encode_family_def family_lines_def comment_lines_def Let_def unlines_append
        case_prod_unfold family_rows_lines list_of_def split: option.split)
qed (simp_all add: encode_family_def family_lines_def)

lemma encode_family_panic_free: "f_name f \<noteq> None \<Longrightarrow> panic_free (snd (encode_family ext f))"
  using encode_metric_panic_free
  by (auto simp: encode_family_def in_sequence_def panic_free_concat Let_def split: option.split)

section \<open>No datum breaks a line\<close>

lemma char_literals [simp]:
  "newline \<noteq> CHR ''{''" "newline \<noteq> CHR ''}''" "newline \<noteq> CHR '',''" "newline \<noteq> CHR '' ''"
  "newline \<noteq> CHR ''=''" "newline \<noteq> CHR ''#''" "CHR '' '' \<noteq> newline"
  by (simp_all add: newline_def)

lemma name_one_line: "is_legacy_metric_name n \<Longrightarrow> newline \<notin> set n"
  using legacy_metric_name_chars name_chars by blast

lemma label_name_one_line: "newline \<notin> set (write_label_name n)"
  using legacy_label_name_chars [of n] name_chars label_char_is_metric_char
  by (auto simp: write_label_name_def write_quoted_def escaped_one_line)

lemma metadata_name_one_line: "newline \<notin> set (write_metadata_name n)"
  by (auto simp: write_metadata_name_def write_quoted_def escaped_one_line name_one_line)

lemma float_one_line: "ryu_text ext \<Longrightarrow> newline \<notin> set (write_float_impl ext v b)"
  using write_float_plain [of ext v b] by (auto simp: plain_char_def)

lemma label_one_line: "newline \<notin> set (write_label l)"
  by (simp add: write_label_def escaped_one_line label_name_one_line)

lemma additional_one_line: "ryu_text ext \<Longrightarrow> newline \<notin> set (write_additional ext a)"
  by (simp add: write_additional_def write_float_def float_one_line label_name_one_line)

lemma items_one_line: "ryu_text ext \<Longrightarrow> i \<in> set (items_of ext ls a) \<Longrightarrow> newline \<notin> set (fst i)"
  by (auto simp: items_of_def label_one_line additional_one_line split: option.splits)

lemma labels_one_line:
  assumes "ryu_text ext"
  shows "newline \<notin> set (write_labels ext ls a)"
proof -
  have "newline \<notin> set (fst i)" if "i \<in> set (items_of ext ls a)" for i
    using items_one_line assms that by blast
  then show ?thesis
    by (cases "items_of ext ls a") (auto simp: write_labels_items)
qed

lemma series_one_line:
  "ryu_text ext \<Longrightarrow> newline \<notin> set suffix \<Longrightarrow>
     newline \<notin> set (write_sample_name_and_labels ext name suffix ls a)"
  by (auto simp: write_sample_name_and_labels_def name_one_line labels_one_line escaped_one_line
      label_one_line additional_one_line split: option.split)

lemma u64_digits: "c \<in> set (show_u64 n) \<Longrightarrow> c \<noteq> newline \<and> c \<noteq> CHR '' ''"
  using show_u64_digits [of n] by (auto simp: is_ascii_digit_def newline_def)

lemma value_one_line: "ryu_text ext \<Longrightarrow> newline \<notin> set (write_sample_value ext v)"
  using u64_digits
  by (cases v) (auto simp: write_float_def write_legacy_compatible_float_def float_one_line)

lemma exemplar_one_line: "ryu_text ext \<Longrightarrow> newline \<notin> set (write_exemplar ext e)"
  by (auto simp: write_exemplar_def labels_one_line write_float_def float_one_line split: option.split)

lemma sample_line_one_line:
  "ryu_text ext \<Longrightarrow> newline \<notin> set (fst r) \<Longrightarrow> newline \<notin> set (sample_line ext name m r)"
  by (auto simp: sample_line_def series_one_line value_one_line exemplar_one_line write_float_def
      float_one_line split: option.split prod.split)

lemma suffix_chars:
  "\<forall>c\<in>set ''_sum''. is_metric_name_char c" "\<forall>c\<in>set ''_count''. is_metric_name_char c"
  "\<forall>c\<in>set ''_gsum''. is_metric_name_char c" "\<forall>c\<in>set ''_gcount''. is_metric_name_char c"
  "\<forall>c\<in>set ''_bucket''. is_metric_name_char c"
  by (simp_all add: is_metric_name_char_def is_ascii_alphanumeric_def is_ascii_alphabetic_def Let_def)

lemma histogram_rows_suffix:
  "r \<in> set (histogram_rows t h) \<Longrightarrow> fst r \<in> {''_sum'', ''_count'', ''_gsum'', ''_gcount'', ''_bucket''}"
  unfolding histogram_rows_def by (auto simp only: set_append set_map set_simps fst_conv split: if_splits)

lemma summary_rows_suffix: "r \<in> set (summary_rows s) \<Longrightarrow> fst r \<in> {[], ''_sum'', ''_count''}"
  unfolding summary_rows_def by (auto simp only: set_append set_map set_simps fst_conv)

lemma list_of_member: "r \<in> set (list_of g v) \<longleftrightarrow> (\<exists>x. v = Some x \<and> r \<in> set (g x))"
  by (cases v) (simp_all add: list_of_def)

lemma metric_rows_suffix_cases:
  "r \<in> set (metric_rows t m) \<Longrightarrow>
     fst r \<in> {[], ''_sum'', ''_count'', ''_gsum'', ''_gcount'', ''_bucket''}"
proof (cases t)
  case Summary
  then show "r \<in> set (metric_rows t m) \<Longrightarrow> ?thesis"
    using summary_rows_suffix [of r] by (auto simp only: metric_rows.simps list_of_member)
next
  case Histogram
  then show "r \<in> set (metric_rows t m) \<Longrightarrow> ?thesis"
    using histogram_rows_suffix [of r] by (auto simp only: metric_rows.simps list_of_member set_simps split: if_splits)
next
  case GaugeHistogram
  then show "r \<in> set (metric_rows t m) \<Longrightarrow> ?thesis"
    using histogram_rows_suffix [of r] by (auto simp only: metric_rows.simps list_of_member set_simps split: if_splits)
qed (auto simp only: metric_rows.simps list_of_member set_simps fst_conv)

lemma metric_rows_suffix:
  "r \<in> set (metric_rows t m) \<Longrightarrow> \<forall>c\<in>set (fst r). is_metric_name_char c"
  apply (drule metric_rows_suffix_cases)
  using suffix_chars
  apply (elim insertE)
  apply (simp_all only: list.set ball_simps empty_iff)
  done

lemma comment_one_line: "l \<in> set (comment_lines name t f) \<Longrightarrow> newline \<notin> set l"
  unfolding newline_def
  by (cases t) (auto simp: comment_lines_def list_of_def metadata_name_one_line [unfolded newline_def]
      escaped_one_line [unfolded newline_def] split: if_splits option.splits)

lemma family_one_line:
  assumes "ryu_text ext" "l \<in> set (family_lines ext f)"
  shows "newline \<notin> set l"
proof -
  have "newline \<notin> set (sample_line ext name m r)" if "r \<in> set (metric_rows t m)" for name t m r
    using metric_rows_suffix [OF that] name_chars by (intro sample_line_one_line assms) blast
  then show ?thesis
    using assms(2) comment_one_line by (auto simp: family_lines_def split: option.splits)
qed

section \<open>Reading the lines back\<close>

lemma char_literals_space [simp]: "CHR '' '' \<noteq> newline" "\<not> is_ascii_digit (CHR '' '')"
  by (simp_all add: newline_def is_ascii_digit_def)

lemma float_no_space:
  assumes "ryu_text ext"
  shows "CHR '' '' \<notin> set (write_float_impl ext v b)"
proof (cases "is_nan v \<or> f64_eq v f64_infinity \<or> f64_eq v f64_neg_infinity")
  case True
  then show ?thesis
    by (auto simp: write_float_impl_def)
next
  case False
  have "\<not> is_ryu_char (CHR '' '')"
    by (simp add: is_ryu_char_def)
  then have "CHR '' '' \<notin> set (ryu_f64 ext v)"
    using assms False finite_unless_special by (auto simp: ryu_text_def)
  moreover from this have "CHR '' '' \<notin> set (case strip_suffix (ryu_f64 ext v) ''.0'' of Some s \<Rightarrow> s | None \<Rightarrow> ryu_f64 ext v)"
    using strip_suffix_chars by (auto split: option.splits)
  ultimately show ?thesis
    using False by (auto simp: write_float_impl_def Let_def)
qed

lemma value_no_space: "ryu_text ext \<Longrightarrow> CHR '' '' \<notin> set (write_sample_value ext v)"
  using u64_digits
  by (cases v) (auto simp: write_float_def write_legacy_compatible_float_def float_no_space)

lemma value_token:
  assumes "ryu_text ext" "rest = [] \<or> (\<exists>r. rest = CHR '' '' # r)"
  shows "takeWhile (\<lambda>d. d \<noteq> CHR '' '') (write_sample_value ext v @ rest) = write_sample_value ext v"
proof -
  have "\<forall>d\<in>set (write_sample_value ext v). d \<noteq> CHR '' ''"
    using value_no_space [OF assms(1)] by metis
  then have "takeWhile (\<lambda>d. d \<noteq> CHR '' '') (write_sample_value ext v @ rest) =
      write_sample_value ext v @ takeWhile (\<lambda>d. d \<noteq> CHR '' '') rest"
    by (intro takeWhile_append2) blast
  then show ?thesis
    using assms(2) by auto
qed

lemma read_sample_line:
  assumes "ryu_text ext" "\<forall>c\<in>set (fst r). is_metric_name_char c"
  shows "read_sample (sample_line ext name m r) = Some (row_sample ext name m r)"
proof -
  obtain suffix additional v e where r: "r = (suffix, additional, v, e)"
    by (cases r)
  define tail where "tail =
     (case m_timestamp_ms m of
        None \<Rightarrow> []
      | Some ms \<Rightarrow> '' '' @ write_float ext (f64_div (f64_of_i64 ms) f64_thousand)) @
     (case e of None \<Rightarrow> [] | Some ex \<Rightarrow> write_exemplar ext ex)"
  have tail: "tail = [] \<or> (\<exists>x. tail = CHR '' '' # x)"
    by (auto simp: tail_def write_exemplar_def split: option.split)
  have line: "sample_line ext name m r =
      write_sample_name_and_labels ext name suffix (m_label m) additional @
      CHR '' '' # write_sample_value ext v @ tail"
    by (simp add: sample_line_def r tail_def)
  have "read_series (sample_line ext name m r) = Some (name @ suffix,
      map (\<lambda>l. (or_empty (lp_name l), or_empty (lp_value l))) (m_label m) @
        (case additional of None \<Rightarrow> [] | Some (n, v) \<Rightarrow> [(n, write_float ext v)]),
      CHR '' '' # write_sample_value ext v @ tail)"
    unfolding line using assms r by (intro read_series_write) auto
  then show ?thesis
    using value_token [OF assms(1) tail, of v] by (simp add: read_sample_def row_sample_def r)
qed

lemma sample_line_not_comment: "\<not> is_comment (sample_line ext name m r)"
proof (cases "is_legacy_metric_name name")
  case True
  have "\<not> is_metric_name_char (CHR ''#'')"
    by (simp add: is_metric_name_char_def is_ascii_alphanumeric_def is_ascii_alphabetic_def
        is_ascii_digit_def Let_def)
  then obtain c cs where "name = c # cs" "c \<noteq> CHR ''#''"
    using legacy_metric_name_chars [OF True] by (cases name) auto
  then show ?thesis
    using True by (simp add: is_comment_def sample_line_def write_sample_name_and_labels_def split: prod.split)
next
  case False
  then show ?thesis
    by (simp add: is_comment_def sample_line_def write_sample_name_and_labels_def split: prod.split)
qed

lemma comment_lines_comment:
  "l \<in> set (comment_lines name t f) \<Longrightarrow> is_comment l \<and> l \<noteq> ''# EOF''"
  by (auto simp: comment_lines_def list_of_def is_comment_def split: if_splits option.splits)

lemma family_lines_no_end: "''# EOF'' \<notin> set (family_lines ext f)"
proof -
  have "sample_line ext name m r \<noteq> ''# EOF''" for name m r
    using sample_line_not_comment [of ext name m r] by (auto simp: is_comment_def)
  then show ?thesis
    using comment_lines_comment by (fastforce simp: family_lines_def split: option.split)
qed

lemma those_map: "\<forall>x\<in>set xs. f x = Some (g x) \<Longrightarrow> those (map f xs) = Some (map g xs)"
  by (induction xs) simp_all

lemma family_sample_lines:
  "filter (\<lambda>l. \<not> is_comment l) (family_lines ext f) =
     (case (f_name f, family_type f) of
        (Some name, Some t) \<Rightarrow> concat (map (\<lambda>m. map (sample_line ext name m) (metric_rows t m)) (f_metric f))
      | _ \<Rightarrow> [])"
proof -
  have "filter (\<lambda>l. \<not> is_comment l) (comment_lines name t f) = []" for name t
    using comment_lines_comment by (auto simp: filter_empty_conv)
  moreover have "filter (\<lambda>l. \<not> is_comment l) (concat (map (\<lambda>m. map (sample_line ext name m) (metric_rows t m)) ms)) =
      concat (map (\<lambda>m. map (sample_line ext name m) (metric_rows t m)) ms)" for name t ms
    using sample_line_not_comment by (auto simp: filter_id_conv)
  ultimately show ?thesis
    by (simp add: family_lines_def split: option.split)
qed

section \<open>Whole expositions\<close>

lemma in_sequence_Cons:
  "in_sequence (w # ws) = (fst w @ fst (in_sequence ws), snd w @ snd (in_sequence ws))"
  by (simp add: in_sequence_def)

lemma sanitized_families_Cons:
  "sanitized_families ctx (f # fs) =
     list_of (\<lambda>f'. [f']) (fst (sanitized_metric_family f ctx)) @ sanitized_families ctx fs"
  by (simp add: sanitized_families_def)

lemma sanitized_keeps_name:
  "fst (sanitized_metric_family f ctx) = Some f' \<Longrightarrow> f_name f' \<noteq> None"
  by (auto simp: sanitized_metric_family_def split: option.splits if_splits prod.splits)

lemma sanitized_panic_free: "panic_free (snd (sanitized_metric_family f ctx))"
  using sanitize_rows_panic_free
  by (auto simp: sanitized_metric_family_def case_prod_unfold split: option.split)

definition text_step :: "externals \<Rightarrow> metric_family \<Rightarrow> string \<times> event list" where
  "text_step ext f =
     (case sanitized_metric_family f TextEncoding of
        (None, evs) \<Rightarrow> ([], evs)
      | (Some f', evs) \<Rightarrow> (case encode_family ext f' of (s, evs') \<Rightarrow> (s, evs @ evs')))"

lemma encode_to_text_steps:
  "encode_to_text ext fs =
     (fst (in_sequence (map (text_step ext) fs)) @ ''# EOF'' @ [newline],
      snd (in_sequence (map (text_step ext) fs)))"
  by (simp add: encode_to_text_def text_step_def [abs_def] case_prod_unfold)

lemma text_step_lines:
  "fst (text_step ext f) =
     unlines (concat (map (family_lines ext) (list_of (\<lambda>f'. [f']) (fst (sanitized_metric_family f TextEncoding)))))"
  by (auto simp: text_step_def list_of_def encode_family_lines case_prod_unfold split: option.split)

lemma text_step_panic_free: "panic_free (snd (text_step ext f))"
  using sanitized_panic_free [of f TextEncoding] encode_family_panic_free sanitized_keeps_name [of f TextEncoding]
  by (auto simp: text_step_def case_prod_unfold split: option.split)

lemma text_steps_lines:
  "fst (in_sequence (map (text_step ext) fs)) =
     unlines (concat (map (family_lines ext) (sanitized_families TextEncoding fs)))"
  by (induction fs) (simp_all add: in_sequence_Cons sanitized_families_Cons unlines_append text_step_lines,
      simp add: in_sequence_def sanitized_families_def)

lemma family_sample_reads:
  assumes "ryu_text ext" "f_name f = Some name" "family_type f = Some t"
  shows "map read_sample (concat (map (\<lambda>m. map (sample_line ext name m) (metric_rows t m)) (f_metric f))) =
    map Some (family_samples ext f)"
proof -
  have "read_sample (sample_line ext name m r) = Some (row_sample ext name m r)"
    if "r \<in> set (metric_rows t m)" for m r
    using assms(1) metric_rows_suffix [OF that] by (rule read_sample_line)
  then have "map (read_sample \<circ> sample_line ext name m) (metric_rows t m) =
      map Some (map (row_sample ext name m) (metric_rows t m))" for m
    by simp
  then show ?thesis
    using assms(2,3) by (simp add: family_samples_def map_concat o_def cong: map_cong)
qed

lemma those_map_Some: "those (map Some xs) = Some xs"
  by (induction xs) simp_all

lemma read_sample_lines:
  assumes "ryu_text ext"
  shows "those (map read_sample (filter (\<lambda>l. \<not> is_comment l) (concat (map (family_lines ext) fs)))) =
    Some (concat (map (family_samples ext) fs))"
proof -
  have "map read_sample (filter (\<lambda>l. \<not> is_comment l) (family_lines ext f)) = map Some (family_samples ext f)" for f
    unfolding family_sample_lines using family_sample_reads [OF assms, of f]
    by (auto simp: family_samples_def split: option.split)
  then have "map read_sample (filter (\<lambda>l. \<not> is_comment l) (concat (map (family_lines ext) fs))) =
      map Some (concat (map (family_samples ext) fs))"
    by (simp add: filter_concat map_concat o_def)
  then show ?thesis
    by (simp only: those_map_Some)
qed

lemma histogram_lines_read:
  assumes "ryu_text ext" "fst (encode_histogram ext name t m h) \<noteq> []"
  shows "those (map read_sample (text_lines (fst (encode_histogram ext name t m h)))) =
    Some (map (row_sample ext name m) (histogram_rows t h))"
proof -
  have written: "fst (encode_histogram ext name t m h) = unlines (map (sample_line ext name m) (histogram_rows t h))"
    using assms(2) by (auto simp: encode_histogram_rows write_rows_lines split: if_splits)
  have chars: "\<forall>c\<in>set (fst r). is_metric_name_char c" if "r \<in> set (histogram_rows t h)" for r
    using histogram_rows_suffix [OF that] suffix_chars
    by (elim insertE) (simp_all only: ball_simps empty_iff)
  have "newline \<notin> set (sample_line ext name m r)" if "r \<in> set (histogram_rows t h)" for r
    using chars [OF that] name_chars by (intro sample_line_one_line [OF assms(1)]) blast
  then have "text_lines (fst (encode_histogram ext name t m h)) = map (sample_line ext name m) (histogram_rows t h)"
    unfolding written by (intro text_lines_unlines) auto
  moreover have "map (read_sample \<circ> sample_line ext name m) (histogram_rows t h) =
      map Some (map (row_sample ext name m) (histogram_rows t h))"
    using read_sample_line [OF assms(1) chars] by simp
  ultimately show ?thesis
    using those_map_Some by (simp del: map_map add: map_map [symmetric])
qed

lemma write_float_infinity: "f64_eq x f64_infinity \<Longrightarrow> write_float ext x = ''+Inf''"
  by (auto simp: write_float_def write_float_impl_def f64_eq_def)

lemma histogram_rows_infinity:
  "\<exists>v. (name @ ''_bucket'',
     map (\<lambda>l. (or_empty (lp_name l), or_empty (lp_value l))) (m_label m) @ [(''le'', ''+Inf'')], v)
       \<in> set (map (row_sample ext name m) (histogram_rows t h)) \<and>
    ((\<forall>b\<in>set (h_bucket h). \<not> f64_eq (or_zero (b_upper_bound b)) f64_max \<and>
        \<not> f64_eq (or_zero (b_upper_bound b)) f64_infinity) \<longrightarrow>
     last (map (row_sample ext name m) (histogram_rows t h)) = (name @ ''_bucket'',
       map (\<lambda>l. (or_empty (lp_name l), or_empty (lp_value l))) (m_label m) @ [(''le'', ''+Inf'')],
       show_u64 (count_or_zero (h_sample_count h))))"
proof (cases "\<exists>b\<in>set (h_bucket h). f64_eq (shown_bound b) f64_infinity")
  case True
  then obtain b where b: "b \<in> set (h_bucket h)" "f64_eq (shown_bound b) f64_infinity"
    by blast
  let ?r = "(''_bucket'', Some (''le'', shown_bound b), Unsigned (count_or_zero (b_cumulative_count b)), b_exemplar b)"
  have "?r \<in> set (histogram_rows t h)"
    using b(1) by (auto simp: histogram_rows_def)
  then have "row_sample ext name m ?r \<in> set (map (row_sample ext name m) (histogram_rows t h))"
    unfolding set_map by (rule imageI)
  then have "\<exists>v. (name @ ''_bucket'',
      map (\<lambda>l. (or_empty (lp_name l), or_empty (lp_value l))) (m_label m) @ [(''le'', ''+Inf'')], v)
        \<in> set (map (row_sample ext name m) (histogram_rows t h))"
    using write_float_infinity [OF b(2), of ext] by (auto simp: row_sample_def simp del: set_map)
  moreover have "\<not> (\<forall>b\<in>set (h_bucket h). \<not> f64_eq (or_zero (b_upper_bound b)) f64_max \<and>
      \<not> f64_eq (or_zero (b_upper_bound b)) f64_infinity)"
    using b by (auto simp: shown_bound_def split: if_splits)
  ultimately show ?thesis
    by blast
next
  case False
  let ?r = "(''_bucket'', Some (''le'', f64_infinity), Unsigned (count_or_zero (h_sample_count h)), None)"
  obtain rs where "histogram_rows t h = rs @ [?r]"
    using False by (simp add: histogram_rows_def)
  moreover have "row_sample ext name m ?r = (name @ ''_bucket'',
      map (\<lambda>l. (or_empty (lp_name l), or_empty (lp_value l))) (m_label m) @ [(''le'', ''+Inf'')],
      show_u64 (count_or_zero (h_sample_count h)))"
    using write_float_infinity [of f64_infinity ext] by (simp add: row_sample_def f64_eq_def)
  ultimately show ?thesis
    by auto
qed

section \<open>The protobuf stream\<close>

lemma decode_families_stream:
  assumes "\<forall>f\<in>set fs. \<exists>c bytes. encode f = Some (c # bytes) \<and> (\<forall>rest. decode (c # bytes @ rest) = Some (f, rest))"
    and "length (concat (map (\<lambda>f. the (encode f)) fs)) \<le> n"
  shows "decode_families decode n (concat (map (\<lambda>f. the (encode f)) fs)) = Some fs"
  using assms
proof (induction fs arbitrary: n)
  case (Cons f fs)
  then obtain c bytes where f: "encode f = Some (c # bytes)" "\<forall>rest. decode (c # bytes @ rest) = Some (f, rest)"
    by auto
  moreover obtain m where "n = Suc m"
    using Cons.prems(2) f(1) by (cases n) auto
  ultimately show ?case
    using Cons.IH [of m] Cons.prems by simp
qed simp

definition protobuf_step :: "(metric_family \<Rightarrow> string option) \<Rightarrow> metric_family \<Rightarrow> string \<times> event list" where
  "protobuf_step encode f =
     (case sanitized_metric_family f ProtobufEncoding of
        (None, evs) \<Rightarrow> ([], evs)
      | (Some f', evs) \<Rightarrow> (case encode f' of
          None \<Rightarrow> ([], evs @ [Panic ''encoding a protobuf message to a Vec cannot fail''])
        | Some bytes \<Rightarrow> (bytes, evs)))"

lemma protobuf_step_result:
  "\<forall>f'\<in>set (sanitized_families ProtobufEncoding [f]). encode f' \<noteq> None \<Longrightarrow>
     fst (protobuf_step encode f) =
       concat (map (\<lambda>f. the (encode f)) (sanitized_families ProtobufEncoding [f])) \<and>
     panic_free (snd (protobuf_step encode f))"
  using sanitized_panic_free [of f ProtobufEncoding]
  by (auto simp: protobuf_step_def sanitized_families_def list_of_def case_prod_unfold split: option.splits)

lemma protobuf_steps:
  assumes "\<forall>f\<in>set (sanitized_families ProtobufEncoding families). encode f \<noteq> None"
  shows "fst (encode_to_protobuf encode families) =
      concat (map (\<lambda>f. the (encode f)) (sanitized_families ProtobufEncoding families)) \<and>
    panic_free (snd (encode_to_protobuf encode families))"
  using assms
proof (induction families)
  case Nil
  then show ?case by (simp add: encode_to_protobuf_def in_sequence_def sanitized_families_def)
next
  case (Cons f fs)
  have steps: "encode_to_protobuf encode fs = in_sequence (map (protobuf_step encode) fs)" for fs
    by (simp add: encode_to_protobuf_def protobuf_step_def [abs_def])
  have "sanitized_families ProtobufEncoding (f # fs) =
      sanitized_families ProtobufEncoding [f] @ sanitized_families ProtobufEncoding fs"
    by (simp add: sanitized_families_def)
  then show ?case
    using Cons protobuf_step_result [of f encode] by (simp add: steps in_sequence_Cons)
qed

lemma scrape_written:
  assumes "ryu_text ext"
  shows "scrape (fst (encode_to_text ext families)) =
    Some (concat (map (family_samples ext) (sanitized_families TextEncoding families)))"
proof -
  let ?fs = "sanitized_families TextEncoding families"
  let ?ls = "concat (map (family_lines ext) ?fs)"
  have "fst (encode_to_text ext families) = unlines (?ls @ [''# EOF''])"
    by (simp add: encode_to_text_steps text_steps_lines unlines_append)
  moreover have "\<forall>l\<in>set (?ls @ [''# EOF'']). newline \<notin> set l"
    using family_one_line [OF assms] by (auto simp: newline_def)
  ultimately have lines: "text_lines (fst (encode_to_text ext families)) = ?ls @ [''# EOF'']"
    using text_lines_unlines by simp
  have "''# EOF'' \<notin> set ?ls"
    using family_lines_no_end by auto
  moreover have "those (map read_sample (filter (\<lambda>l. \<not> is_comment l) ?ls)) =
      Some (concat (map (family_samples ext) ?fs))"
    by (rule read_sample_lines [OF assms])
  ultimately show ?thesis
    by (simp add: scrape_def lines is_comment_def)
qed

section \<open>Properties\<close>

text \<open>C2: A scrape of the OpenMetrics output recovers exactly the samples of the sanitized
  families: the output is lines, the last one and only the last one is the end marker, every
  other line is a comment or one sample, and reading the samples gives, family by family and row
  by row, the name with its suffix, all label pairs and the printed value, whatever quotes,
  backslashes or line feeds the names, labels, help and unit texts hold.\<close>

theorem scrape_recovers_samples:
  assumes "ryu_text ext"
  shows "scrape (fst (encode_to_text ext families)) =
    Some (concat (map (family_samples ext) (sanitized_families TextEncoding families)))"
  using assms by (rule scrape_written)

text \<open>A family with a quote and a line feed in its help text and a counter row with a label.\<close>

definition sample_family :: metric_family where
  "sample_family = \<lparr>f_name = Some ''x'', f_help = Some [quote_char, newline], f_type = Some 0,
     f_metric = [metric_default
       \<lparr>m_label := [\<lparr>lp_name = Some ''k'', lp_value = Some [newline]\<rparr>],
        m_counter := Some \<lparr>c_value = Some f64_one, c_exemplar = None, c_created_timestamp = None\<rparr>\<rparr>],
     f_unit = None\<rparr>"

lemma sanitized_sample_family: "fst (sanitized_metric_family sample_family ctx) = Some sample_family"
  by (simp add: sample_family_def sanitized_metric_family_def is_valid_name_def rows_are_valid_def
      find_label_issue_def family_type_def metric_type_try_from_def reserved_row_label_def
      metric_default_def exemplars_are_valid_def)

lemma f64_one_ordinary: "\<not> is_nan f64_one" "\<not> f64_eq f64_one f64_infinity" "\<not> f64_eq f64_one f64_neg_infinity"
  by (simp_all add: f64_eq_def f64_ord_def)

theorem scrape_recovers_samples_witness:
  "scrape (fst (encode_to_text constant_externals [sample_family])) =
     Some [(''x'', [(''k'', [newline])], ''1'')]"
  using scrape_recovers_samples [OF ryu_text_constant, of "[sample_family]"]
  by (simp add: sanitized_families_def sanitized_sample_family list_of_def family_samples_def)
    (simp add: sample_family_def family_type_def metric_type_try_from_def metric_default_def
      list_of_def row_sample_def or_empty_def or_zero_def write_legacy_compatible_float_def
      write_float_impl_def constant_externals_def f64_one_ordinary strip_suffix_def)

text \<open>Encoding to text never panics, for any list of families: the \<open>expect\<close> on the family
  name cannot fail, since a family without a name is dropped when it is sanitized.\<close>

theorem encode_to_text_never_panics: "panic_free (snd (encode_to_text ext families))"
  using text_step_panic_free by (auto simp: encode_to_text_steps in_sequence_def panic_free_concat)

text \<open>Every histogram row that is written has an \<open>le="+Inf"\<close> bucket line, as OpenMetrics
  demands: reading its lines back gives a sample of the \<open>_bucket\<close> series with the row's labels
  and that bound, and when no bucket of the message has an infinite or \<open>f64::MAX\<close> bound it is
  the last line, with the sample count as its value.\<close>

theorem histogram_text_has_infinity_bucket:
  assumes "ryu_text ext" and "fst (encode_histogram ext name t m h) \<noteq> []"
  shows "\<exists>samples v.
    those (map read_sample (text_lines (fst (encode_histogram ext name t m h)))) = Some samples \<and>
    (name @ ''_bucket'',
     map (\<lambda>l. (or_empty (lp_name l), or_empty (lp_value l))) (m_label m) @ [(''le'', ''+Inf'')], v) \<in> set samples \<and>
    ((\<forall>b\<in>set (h_bucket h). \<not> f64_eq (or_zero (b_upper_bound b)) f64_max \<and>
        \<not> f64_eq (or_zero (b_upper_bound b)) f64_infinity) \<longrightarrow>
     last samples = (name @ ''_bucket'',
       map (\<lambda>l. (or_empty (lp_name l), or_empty (lp_value l))) (m_label m) @ [(''le'', ''+Inf'')],
       show_u64 (count_or_zero (h_sample_count h))))"
  using histogram_lines_read [OF assms] histogram_rows_infinity [of name m ext t h] by blast

lemma is_nan_inf [simp]: "f64_eq f64_infinity f64_infinity"
  by (simp add: f64_eq_def)

theorem histogram_text_has_infinity_bucket_witness:
  "\<exists>samples v.
    those (map read_sample (text_lines (fst (encode_histogram constant_externals ''h'' Histogram metric_default
      (histogram_default\<lparr>h_sample_count := Some 7\<rparr>))))) = Some samples \<and>
    (''h_bucket'', [(''le'', ''+Inf'')], v) \<in> set samples \<and>
    last samples = (''h_bucket'', [(''le'', ''+Inf'')], show_u64 7)"
proof -
  let ?h = "histogram_default\<lparr>h_sample_count := Some 7\<rparr>"
  have "text_representable ?h"
    by (simp add: text_representable_def has_native_buckets_def histogram_default_def is_some_and_def)
  then have "fst (encode_histogram constant_externals ''h'' Histogram metric_default ?h) \<noteq> []"
    by (simp add: encode_histogram_rows histogram_rows_def write_row_line)
  from histogram_text_has_infinity_bucket [OF ryu_text_constant this]
  show ?thesis
    by (simp add: histogram_default_def metric_default_def count_or_zero_def)
qed

text \<open>The protobuf stream is complete and in order: when each sanitized family has an encoding
  that its decoder reads off any stream it starts, \<open>encode_to_protobuf\<close> does not panic and
  decoding its output message after message gives exactly the sanitized families.\<close>

theorem protobuf_stream_round_trip:
  assumes "\<forall>f\<in>set (sanitized_families ProtobufEncoding families). \<exists>c bytes.
    encode_delimited f = Some (c # bytes) \<and> (\<forall>rest. decode (c # bytes @ rest) = Some (f, rest))"
  shows "panic_free (snd (encode_to_protobuf encode_delimited families)) \<and>
    decode_families decode (length (fst (encode_to_protobuf encode_delimited families)))
      (fst (encode_to_protobuf encode_delimited families)) =
    Some (sanitized_families ProtobufEncoding families)"
proof -
  let ?fs = "sanitized_families ProtobufEncoding families"
  have written: "fst (encode_to_protobuf encode_delimited families) = concat (map (\<lambda>f. the (encode_delimited f)) ?fs)"
    and safe: "panic_free (snd (encode_to_protobuf encode_delimited families))"
    using protobuf_steps [of families encode_delimited] assms by (metis option.distinct(1))+
  have "decode_families decode (length (concat (map (\<lambda>f. the (encode_delimited f)) ?fs)))
      (concat (map (\<lambda>f. the (encode_delimited f)) ?fs)) = Some ?fs"
    using assms by (intro decode_families_stream) auto
  then show ?thesis
    by (simp add: written safe)
qed

text \<open>An instance: a one-byte encoding of one family.\<close>

theorem protobuf_stream_round_trip_witness:
  "decode_families (\<lambda>s. if take 1 s = ''F'' then Some (sample_family, tl s) else None) 2
     (fst (encode_to_protobuf (\<lambda>_. Some ''F'') [sample_family, sample_family])) =
   Some [sample_family, sample_family]"
proof -
  have fams: "sanitized_families ProtobufEncoding [sample_family, sample_family] = [sample_family, sample_family]"
    by (simp add: sanitized_families_def sanitized_sample_family list_of_def)
  have "fst (encode_to_protobuf (\<lambda>_. Some ''F'') [sample_family, sample_family]) = ''FF''"
    using sanitized_sample_family [of ProtobufEncoding]
    by (simp add: encode_to_protobuf_def in_sequence_def case_prod_unfold)
  then show ?thesis
    using protobuf_stream_round_trip [of "[sample_family, sample_family]" "\<lambda>_. Some ''F''"
        "\<lambda>s. if take 1 s = ''F'' then Some (sample_family, tl s) else None"]
    by (simp add: fams numeral_2_eq_2)
qed

end
