(* ===== verification/Exposition.thy ===== *)
theory Exposition
  imports TextEncoding Counters Histograms
begin

text \<open>
  The path of a metric from its registration to a scrape: \<open>register\<close>, \<open>collect\<close>,
  \<open>NamedMetric::encode\<close>, the metric's own encoding, \<open>encode_to_text\<close> and a reader of the text.
  The lemma of the locale holds for every metric type with valid rows; the properties are its
  instances for counters and histograms.
\<close>

section \<open>Valid families pass the encoder unchanged\<close>

lemma sanitized_valid: "family_valid f \<Longrightarrow> sanitized_metric_family f ctx = (Some f, [])"
  by (cases "f_name f") (simp_all add: family_valid_def sanitized_metric_family_def)

lemma sanitized_families_valid: "\<forall>f\<in>set fs. family_valid f \<Longrightarrow> sanitized_families ctx fs = fs"
  by (induction fs) (simp_all add: sanitized_families_def sanitized_valid list_of_def)

lemma service_label_valid:
  "\<forall>n. co_service_name_format opts = LabelWithName n \<longrightarrow> is_valid_name n \<Longrightarrow>
     collect enc opts cell = collect_loop enc opts (registry_get cell)"
  by (auto simp: collect_def iter_collect_entries registry_iter_def
      split: option.splits service_name_format.splits)

lemma service_name_fits_named [simp]:
  "service_name_fits opts (complete_family nm f) = service_name_fits opts f"
  by (simp add: service_name_fits_def split: option.split service_name_format.split)

context valid_metric_value begin

lemma registered_scrape:
  assumes "ryu_text ext" "is_valid_name (nm_name nm)"
    and "md_optional md \<longrightarrow> co_include_optional opts"
    and "\<forall>n. co_service_name_format opts = LabelWithName n \<longrightarrow> is_valid_name n"
    and "\<forall>f\<in>set (fst (encv (nm_metric nm))). service_name_fits opts f"
  shows "scrape (fst (encode_to_text ext (fst (collect (named_encode encv) opts
      (register None (BoxedMetric nm) md))))) =
    Some (concat (map (\<lambda>f. family_samples ext (with_service_name opts md (complete_family nm f)))
      (fst (encv (nm_metric nm)))))"
proof -
  let ?e = "\<lparr>re_metadata = md, re_metric = nm\<rparr>"
  let ?fs = "map (with_service_name opts md) (fst (named_encode encv nm))"
  have fits: "family_valid f \<and> service_name_fits opts f" if "f \<in> set (fst (named_encode encv nm))" for f
    using named_valid [OF that assms(2)] that assms(5)
    by (auto simp: named_encode_def split: prod.splits)
  have "registry_get (register None (BoxedMetric nm) md) = [?e]"
    by (simp add: register_def registry_get_def)
  then have "collect (named_encode encv) opts (register None (BoxedMetric nm) md) =
      collect_loop (named_encode encv) opts [?e]"
    by (simp only: service_label_valid [OF assms(4)])
  also have "\<dots> = (?fs, snd (named_encode encv nm))"
    using assms(3) fits by (subst collect_loop_valid) simp_all
  finally have "fst (collect (named_encode encv) opts (register None (BoxedMetric nm) md)) = ?fs"
    by simp
  moreover have "sanitized_families TextEncoding ?fs = ?fs"
    using fits with_service_name_valid by (intro sanitized_families_valid) auto
  ultimately show ?thesis
    using scrape_written [OF assms(1), of ?fs]
    by (simp add: named_encode_def o_def split: prod.splits)
qed

end

section \<open>The samples of a histogram\<close>

definition observed_family :: "f64 list \<Rightarrow> f64 list \<Rightarrow> metric_family" where
  "observed_family bs vs =
     \<lparr>f_name = Some [], f_help = None, f_type = Some (metric_type_to_i32 Histogram),
      f_metric = [metric_default\<lparr>m_histogram := Some (histogram_default\<lparr>
        h_sample_count := Some (word_of_nat (length vs)),
        h_sample_sum := Some (foldl f64_add f64_zero vs),
        h_bucket := map (\<lambda>b. bucket_default\<lparr>
            b_cumulative_count := Some (word_of_nat (length (filter (\<lambda>v. f64_ge b v) vs))),
            b_upper_bound := Some b\<rparr>) (sort (bs @ [f64_max]))\<rparr>)\<rparr>],
      f_unit = None\<rparr>"

lemma finite_below_max: "\<not> is_nan v \<Longrightarrow> v \<noteq> f64_infinity \<Longrightarrow> f64_ge f64_max v"
  using max_not_lt [of v] by (auto simp: f64_ge_def f64_lt_def)

lemma finite_not_infinity: "is_finite v \<Longrightarrow> v \<noteq> f64_infinity"
  by auto

lemma observed_family_samples:
  assumes "\<forall>b\<in>set bs. \<not> is_nan b" "\<forall>v\<in>set vs. \<not> is_nan v \<and> v \<noteq> f64_infinity"
  shows "(name @ ''_count'', [], show_u64 (word_of_nat (length vs)))
      \<in> set (family_samples ext (complete_family (named_metric_new name help s) (observed_family bs vs))) \<and>
    (name @ ''_bucket'', [(''le'', ''+Inf'')], show_u64 (word_of_nat (length vs)))
      \<in> set (family_samples ext (complete_family (named_metric_new name help s) (observed_family bs vs)))"
proof -
  define m where "m = hd (f_metric (observed_family bs vs))"
  define h where "h = the (m_histogram m)"
  have h: "h_sample_count h = Some (word_of_nat (length vs))" "h_sample_count_float h = None"
      "h_bucket h = map (\<lambda>b. bucket_default\<lparr>
          b_cumulative_count := Some (word_of_nat (length (filter (\<lambda>v. f64_ge b v) vs))),
          b_upper_bound := Some b\<rparr>) (sort (bs @ [f64_max]))"
    by (simp_all add: h_def m_def observed_family_def histogram_default_def)
  have "sort (bs @ [f64_max]) \<noteq> []"
    by (simp only: length_0_conv [symmetric] length_sort) simp
  then have "text_representable h"
    by (auto simp: text_representable_def h is_some_and_def bucket_default_def)
  then have samples: "family_samples ext (complete_family (named_metric_new name help s) (observed_family bs vs)) =
      map (row_sample ext name m) (histogram_rows Histogram h)"
    by (simp add: family_samples_def complete_family_def Let_def named_metric_new_def list_of_def h_def m_def)
      (simp add: observed_family_def family_type_def metric_type_try_from_def list_of_def)
  have label: "m_label m = []"
    by (simp add: m_def observed_family_def metric_default_def)
  let ?n = "Unsigned (word_of_nat (length vs))"
  have count: "(''_count'', None, ?n, None) \<in> set (histogram_rows Histogram h)"
    by (simp add: histogram_rows_def h count_or_zero_def)
  have "filter (\<lambda>v. f64_ge f64_max v) vs = vs"
    using assms(2) finite_below_max by (simp add: filter_id_conv)
  then have "(''_bucket'', Some (''le'', f64_infinity), ?n, None) \<in> set (histogram_rows Histogram h)"
    by (auto simp: histogram_rows_def h count_or_zero_def shown_bound_def or_zero_def f64_eq_def
        bucket_default_def image_iff)
  with count have "row_sample ext name m ` {(''_count'', None, ?n, None), (''_bucket'', Some (''le'', f64_infinity), ?n, None)}
      \<subseteq> set (map (row_sample ext name m) (histogram_rows Histogram h))"
    by auto
  then show ?thesis
    unfolding samples by (simp add: row_sample_def label write_float_infinity)
qed

section \<open>Properties\<close>

text \<open>From increments to a scrape: a counter registered under a valid name, incremented by
  any interleaving of calls on it, its clones and other counters, then collected with the
  service name as a label and encoded to text, is scraped as exactly one sample: its name, the
  service label, and the printed form of a double that denotes the sum of its increments, as
  long as that sum is below \<open>2^53\<close>.\<close>

theorem registered_counter_scrape:
  assumes "ryu_text ext" "is_valid_name name" "is_valid_name label"
    and "co_service_name opts = Some svc" "co_service_name_format opts = LabelWithName label"
    and "(c, st) = counter_handle_default st0"
    and "\<forall>op\<in>set ops. counter_op_target op < length st"
    and "(\<Sum>v\<leftarrow>amounts_on (cn_val c) ops. uint v) < 2 ^ 53"
  shows "\<exists>x. f64_denotes x (\<Sum>v\<leftarrow>amounts_on (cn_val c) ops. uint v) \<and>
    scrape (fst (encode_to_text ext (fst (collect (named_encode counter_encode_metric_value) opts
      (register None (BoxedMetric (named_metric_new name help (c, snd (counter_run ops st))))
        registration_metadata_default))))) =
    Some [(name, [(label, svc)], write_legacy_compatible_float ext x)]"
proof -
  obtain x where x: "counter_encode_metric_value (c, snd (counter_run ops st)) = (encode_counter x, [])"
      "f64_denotes x (\<Sum>v\<leftarrow>amounts_on (cn_val c) ops. uint v)"
    using counter_exports [OF assms(6-8)] by blast
  let ?nm = "named_metric_new name help (c, snd (counter_run ops st))"
  have "concat (map (\<lambda>f. family_samples ext (with_service_name opts registration_metadata_default
      (complete_family ?nm f))) (encode_counter x)) =
      [(name, [(label, svc)], write_legacy_compatible_float ext x)]"
    by (simp add: encode_counter_def with_service_name_def assms(4,5) registration_metadata_default_def
        family_samples_def family_type_def complete_family_def named_metric_new_def Let_def list_of_def
        metric_default_def counter_default_def row_sample_def or_empty_def or_zero_def
        metric_type_try_from_def)
  moreover have "service_name_fits opts f" if "f \<in> set (encode_counter x)" for f
    using that assms(3) by (simp add: encode_counter_def service_name_fits_def assms(4,5)
        reserved_row_label_def family_type_def metric_type_try_from_def metric_default_def)
  ultimately show ?thesis
    using counter_value.registered_scrape [OF assms(1), of ?nm registration_metadata_default opts] x assms(2,3,5)
    by (intro exI [of _ x]) (simp add: registration_metadata_default_def named_metric_new_def)
qed

theorem registered_counter_scrape_witness:
  "\<exists>x. f64_denotes x 6 \<and>
    scrape (fst (encode_to_text constant_externals (fst (collect (named_encode counter_encode_metric_value)
      \<lparr>co_include_optional = False, co_service_name = Some ''api'', co_service_name_format = LabelWithName ''svc''\<rparr>
      (register None (BoxedMetric (named_metric_new ''requests'' ''Requests.''
        (\<lparr>cn_val = 1\<rparr>, snd (counter_run [IncBy \<lparr>cn_val = 1\<rparr> 5, Inc \<lparr>cn_val = 0\<rparr>, Inc \<lparr>cn_val = 1\<rparr>] [9, 0]))))
        registration_metadata_default))))) =
    Some [(''requests'', [(''svc'', ''api'')], write_legacy_compatible_float constant_externals x)]"
  using registered_counter_scrape [OF ryu_text_constant, of "''requests''" "''svc''"
      "\<lparr>co_include_optional = False, co_service_name = Some ''api'', co_service_name_format = LabelWithName ''svc''\<rparr>"
      "''api''" "\<lparr>cn_val = 1\<rparr>" "[9, 0]" "[9]"
      "[IncBy \<lparr>cn_val = 1\<rparr> 5, Inc \<lparr>cn_val = 0\<rparr>, Inc \<lparr>cn_val = 1\<rparr>]" "''Requests.''"]
  by (simp add: counter_handle_default_def amounts_on_def is_valid_name_def)

text \<open>C3: The count of a scraped histogram agrees with its \<open>le="+Inf"\<close> bucket: a histogram with
  any bounds, none of which is NaN, registered under a valid name without a service name and fed any observations that
  are neither NaN nor positive infinity, is scraped with a \<open>_count\<close> sample and an infinity bucket
  that both print the number of observations.\<close>

theorem registered_histogram_scrape:
  assumes "ryu_text ext" "is_valid_name name" "co_service_name opts = None"
    and "\<forall>n. co_service_name_format opts = LabelWithName n \<longrightarrow> is_valid_name n"
    and "\<forall>b\<in>set bs. \<not> is_nan b" "\<forall>v\<in>set vs. \<not> is_nan v \<and> v \<noteq> f64_infinity"
  shows "\<exists>samples. scrape (fst (encode_to_text ext (fst (collect (named_encode histogram_encode_metric_value) opts
      (register None (BoxedMetric (named_metric_new name help (observe_all vs (histogram_new bs))))
        registration_metadata_default))))) = Some samples \<and>
    (name @ ''_count'', [], show_u64 (word_of_nat (length vs))) \<in> set samples \<and>
    (name @ ''_bucket'', [(''le'', ''+Inf'')], show_u64 (word_of_nat (length vs))) \<in> set samples"
proof -
  let ?f = "observed_family bs vs"
  let ?nm = "named_metric_new name help (observe_all vs (histogram_new bs))"
  have "histogram_encode_metric_value (observe_all vs (histogram_new bs)) = ([?f], [])"
    unfolding observed_family_def by (rule histogram_exports [OF assms(5)])
  then have "scrape (fst (encode_to_text ext (fst (collect (named_encode histogram_encode_metric_value) opts
      (register None (BoxedMetric ?nm) registration_metadata_default))))) =
      Some (family_samples ext (complete_family ?nm ?f))"
    using histogram_value.registered_scrape [OF assms(1), of ?nm registration_metadata_default opts] assms(2-4)
    by (simp add: registration_metadata_default_def named_metric_new_def service_name_fits_def with_service_name_def)
  then show ?thesis
    using observed_family_samples [OF assms(5,6), of name ext "help" "observe_all vs (histogram_new bs)"]
    by (intro exI [of _ "family_samples ext (complete_family ?nm ?f)"] conjI) (simp_all only:)
qed

theorem registered_histogram_scrape_witness:
  "\<exists>samples. scrape (fst (encode_to_text constant_externals (fst (collect (named_encode histogram_encode_metric_value)
      \<lparr>co_include_optional = False, co_service_name = None, co_service_name_format = MetricPrefix\<rparr>
      (register None (BoxedMetric (named_metric_new ''h'' ''H.''
        (observe_all [f64_one, f64_zero, f64_max] (histogram_new [f64_one])))) registration_metadata_default))))) =
      Some samples \<and>
    (''h_count'', [], show_u64 3) \<in> set samples \<and> (''h_bucket'', [(''le'', ''+Inf'')], show_u64 3) \<in> set samples"
  using registered_histogram_scrape [OF ryu_text_constant, of "''h''"
      "\<lparr>co_include_optional = False, co_service_name = None, co_service_name_format = MetricPrefix\<rparr>"
      "[f64_one]" "[f64_one, f64_zero, f64_max]" "''H.''"]
  by (simp add: is_valid_name_def finite_not_infinity)

end
