(* ===== verification/Families.thy ===== *)
theory Families
  imports Labels Gauges TimeHistograms
begin

text \<open>
  Metric families, \<open>foundations-metrics/src/metrics/family.rs\<close>: a map from label sets to
  metrics behind a read-write lock, and its encoding, which serializes each label set,
  prepends it to the rows of its metric (moving it into the last row, cloning it for the
  others) and groups the rows by relative name. Label sets are a type \<open>'k\<close> with their serde
  value \<open>ser\<close>; \<open>encv\<close> is the metric's \<open>encode_metric_value\<close>. The lemmas replace the loops by
  their meaning: rows with the labels in front, one group per name in order of first
  occurrence, and one report per kind of failure.
\<close>

section \<open>The store\<close>

type_synonym ('k, 'm) family = "'k \<rightharpoonup> 'm"

definition family_new :: "('k, 'm) family" where
  "family_new = (\<lambda>_. None)"

text \<open>The two critical sections of \<open>get_or_create\<close>: a read, and an insertion that keeps a metric
  another thread has inserted in between.\<close>

definition family_read :: "'k \<Rightarrow> ('k, 'm) family \<Rightarrow> 'm option" where
  "family_read k fam = fam k"

definition family_write :: "'m \<Rightarrow> 'k \<Rightarrow> ('k, 'm) family \<Rightarrow> 'm \<times> ('k, 'm) family" where
  "family_write new k fam =
     (let fam' = (case fam k of Some m \<Rightarrow> fam | None \<Rightarrow> fam(k \<mapsto> new))
      in (the (fam' k), fam'))"

definition get_or_create :: "'m \<Rightarrow> 'k \<Rightarrow> ('k, 'm) family \<Rightarrow> 'm \<times> ('k, 'm) family" where
  "get_or_create new k fam =
     (case family_read k fam of Some m \<Rightarrow> (m, fam) | None \<Rightarrow> family_write new k fam)"

definition family_remove :: "'k \<Rightarrow> ('k, 'm) family \<Rightarrow> bool \<times> ('k, 'm) family" where
  "family_remove k fam = (fam k \<noteq> None, fam(k := None))"

definition family_clear :: "('k, 'm) family \<Rightarrow> ('k, 'm) family" where
  "family_clear fam = (\<lambda>_. None)"

text \<open>What users of a family rely on.\<close>

locale metric_store =
  fixes lookup :: "'k \<Rightarrow> 's \<Rightarrow> 'm option"
    and create :: "'m \<Rightarrow> 'k \<Rightarrow> 's \<Rightarrow> 'm \<times> 's"
    and remove :: "'k \<Rightarrow> 's \<Rightarrow> bool \<times> 's"
  assumes create_returns: "fst (create new k s) = (case lookup k s of Some m \<Rightarrow> m | None \<Rightarrow> new)"
    and lookup_create: "lookup j (snd (create new k s)) =
      (if j = k then Some (fst (create new k s)) else lookup j s)"
    and remove_returns: "fst (remove k s) \<longleftrightarrow> lookup k s \<noteq> None"
    and lookup_remove: "lookup j (snd (remove k s)) = (if j = k then None else lookup j s)"
begin

lemma create_idempotent:
  "fst (create new' k (snd (create new k s))) = fst (create new k s)"
  by (simp add: create_returns lookup_create)

lemma create_after_remove: "fst (create new k (snd (remove k s))) = new"
  by (simp add: create_returns lookup_remove)

lemma create_all:
  "lookup k (fold (\<lambda>new s. snd (create new k s)) news s) =
     (case lookup k s of Some m \<Rightarrow> Some m | None \<Rightarrow> (case news of [] \<Rightarrow> None | new # _ \<Rightarrow> Some new))"
  by (induction news arbitrary: s)
    (auto simp: create_returns lookup_create split: option.splits list.splits)

end

interpretation family_store: metric_store family_read get_or_create family_remove
  by unfold_locales
    (auto simp: family_read_def get_or_create_def family_write_def family_remove_def Let_def
      split: option.splits)

section \<open>Encoding\<close>

text \<open>The loop over the rows of a family, with the counter of rows still to come and the labels
  not yet moved.\<close>

fun label_rows ::
    "label_pair list \<Rightarrow> nat \<Rightarrow> metric list \<Rightarrow> metric list \<times> label_pair list \<times> nat \<times> event list" where
  "label_rows labels remaining [] = ([], labels, remaining, [])"
| "label_rows labels remaining (row # rows) =
     (if remaining = 0
      then (row # rows, labels, remaining, [Panic ''attempt to subtract with overflow''])
      else let remaining = remaining - 1;
               row = row\<lparr>m_label := labels @ m_label row\<rparr>;
               labels = (if remaining = 0 then [] else labels)
           in case label_rows labels remaining rows of
                (rows', labels', remaining', l) \<Rightarrow> (row # rows', labels', remaining', l))"

record grouping =
  gr_grouped :: "metric_family list"
  gr_first_label_error :: "string option"
  gr_label_error_count :: int
  gr_first_metadata_error :: "string option option"
  gr_metadata_error_count :: int

definition same_metadata :: "metric_family \<Rightarrow> metric_family \<Rightarrow> bool" where
  "same_metadata f g \<longleftrightarrow> f_help f = f_help g \<and> f_type f = f_type g \<and> f_unit f = f_unit g"

text \<open>\<open>grouped.iter_mut().find(..)\<close> and the append.\<close>

fun append_to_group :: "metric_family \<Rightarrow> metric_family list \<Rightarrow> metric_family list" where
  "append_to_group f [] = []"
| "append_to_group f (g # gs) =
     (if f_name g = f_name f then g\<lparr>f_metric := f_metric g @ f_metric f\<rparr> # gs
      else g # append_to_group f gs)"

definition insert_group :: "metric_family \<Rightarrow> grouping \<Rightarrow> grouping" where
  "insert_group f s =
     (case List.find (\<lambda>g. f_name g = f_name f) (gr_grouped s) of
        Some existing \<Rightarrow>
          if \<not> same_metadata existing f
          then s\<lparr>gr_metadata_error_count := gr_metadata_error_count s + 1,
                 gr_first_metadata_error :=
                   (case gr_first_metadata_error s of None \<Rightarrow> Some (f_name f) | e \<Rightarrow> e)\<rparr>
          else s\<lparr>gr_grouped := append_to_group f (gr_grouped s)\<rparr>
      | None \<Rightarrow> s\<lparr>gr_grouped := gr_grouped s @ [f]\<rparr>)"

fun encode_labelled ::
    "label_pair list \<Rightarrow> nat \<Rightarrow> metric_family list \<Rightarrow> grouping \<Rightarrow> grouping \<times> event list" where
  "encode_labelled labels remaining [] s = (s, [])"
| "encode_labelled labels remaining (f # fs) s =
     (if f_metric f = [] then encode_labelled labels remaining fs s
      else case label_rows labels remaining (f_metric f) of (rows, labels, remaining, l) \<Rightarrow>
           case encode_labelled labels remaining fs (insert_group (f\<lparr>f_metric := rows\<rparr>) s) of
             (s', l') \<Rightarrow> (s', l @ l'))"

definition remaining_rows :: "metric_family list \<Rightarrow> nat" where
  "remaining_rows fs = sum_list (map (\<lambda>f. length (f_metric f)) (filter (\<lambda>f. f_metric f \<noteq> []) fs))"

fun encode_entries ::
    "externals \<Rightarrow> ('k \<Rightarrow> sval) \<Rightarrow> ('m \<Rightarrow> metric_family list \<times> event list) \<Rightarrow> ('k \<times> 'm) list \<Rightarrow>
     grouping \<Rightarrow> grouping \<times> event list" where
  "encode_entries ext ser encv [] s = (s, [])"
| "encode_entries ext ser encv ((label_set, m) # es) s =
     (case to_label_pairs ext (ser label_set) of
        Inl err \<Rightarrow>
          encode_entries ext ser encv es
            (s\<lparr>gr_label_error_count := gr_label_error_count s + 1,
               gr_first_label_error := (case gr_first_label_error s of None \<Rightarrow> Some err | e \<Rightarrow> e)\<rparr>)
      | Inr labels \<Rightarrow>
          (case encv m of (encoded, l1) \<Rightarrow>
           case encode_labelled labels (remaining_rows encoded) encoded s of (s', l2) \<Rightarrow>
           case encode_entries ext ser encv es s' of (s'', l3) \<Rightarrow> (s'', l1 @ l2 @ l3)))"

definition grouping_start :: grouping where
  "grouping_start = \<lparr>gr_grouped = [], gr_first_label_error = None, gr_label_error_count = 0,
     gr_first_metadata_error = None, gr_metadata_error_count = 0\<rparr>"

text \<open>\<open>es\<close> is the iteration order of the family's map.\<close>

definition family_encode_metric_value ::
    "externals \<Rightarrow> ('k \<Rightarrow> sval) \<Rightarrow> ('m \<Rightarrow> metric_family list \<times> event list) \<Rightarrow> ('k \<times> 'm) list \<Rightarrow>
     metric_family list \<times> event list" where
  "family_encode_metric_value ext ser encv es =
     (case encode_entries ext ser encv es grouping_start of (s, l) \<Rightarrow>
       (gr_grouped s,
        l @ (case gr_first_label_error s of
               Some err \<Rightarrow> [Report (LabelSetsSkipped (gr_label_error_count s) err)] | None \<Rightarrow> [])
          @ (case gr_first_metadata_error s of
               Some name \<Rightarrow> [Report (MetadataGroupsSkipped (gr_metadata_error_count s) name)] | None \<Rightarrow> [])))"

section \<open>Rows\<close>

definition prepend_labels :: "label_pair list \<Rightarrow> metric_family \<Rightarrow> metric_family" where
  "prepend_labels labels f =
     f\<lparr>f_metric := map (\<lambda>row. row\<lparr>m_label := labels @ m_label row\<rparr>) (f_metric f)\<rparr>"

lemma label_rows_result:
  "length rows \<le> remaining \<Longrightarrow>
     label_rows labels remaining rows =
       (map (\<lambda>row. row\<lparr>m_label := labels @ m_label row\<rparr>) rows,
        if rows \<noteq> [] \<and> remaining = length rows then [] else labels, remaining - length rows, [])"
proof (induction labels remaining rows rule: label_rows.induct)
  case (2 labels remaining row rows)
  then show ?case
    by (cases rows) (auto simp: Let_def)
qed simp

lemma encode_labelled_result:
  "remaining = remaining_rows fs \<Longrightarrow>
     encode_labelled labels remaining fs s =
       (fold insert_group (map (prepend_labels labels) (filter (\<lambda>f. f_metric f \<noteq> []) fs)) s, [])"
proof (induction fs arbitrary: labels remaining s)
  case (Cons f fs)
  show ?case
  proof (cases "f_metric f = []")
    case True
    then show ?thesis using Cons by (simp add: remaining_rows_def)
  next
    case False
    have r: "remaining = length (f_metric f) + remaining_rows fs"
      using Cons.prems False by (simp add: remaining_rows_def)
    show ?thesis
    proof (cases "remaining_rows fs = 0")
      case True
      then have "filter (\<lambda>f. f_metric f \<noteq> []) fs = []"
        by (auto simp: remaining_rows_def filter_empty_conv)
      then have "encode_labelled ls (remaining_rows fs) fs s' = (s', [])" for ls s'
        using Cons.IH [OF refl, of ls s'] by simp
      then show ?thesis
        using False r True \<open>filter (\<lambda>f. f_metric f \<noteq> []) fs = []\<close>
        by (simp add: label_rows_result prepend_labels_def)
    next
      case nz: False
      then show ?thesis
        using False r Cons.IH [OF refl]
        by (simp add: label_rows_result prepend_labels_def)
    qed
  qed
qed simp

section \<open>Groups\<close>

text \<open>The labelled families in the order they are encoded, and the serialization errors.\<close>

definition labelled_families ::
    "externals \<Rightarrow> ('k \<Rightarrow> sval) \<Rightarrow> ('m \<Rightarrow> metric_family list \<times> event list) \<Rightarrow> ('k \<times> 'm) list \<Rightarrow>
     metric_family list" where
  "labelled_families ext ser encv es =
     concat (map (\<lambda>(k, m). case to_label_pairs ext (ser k) of
        Inl err \<Rightarrow> []
      | Inr labels \<Rightarrow> map (prepend_labels labels) (filter (\<lambda>f. f_metric f \<noteq> []) (fst (encv m)))) es)"

definition label_errors :: "externals \<Rightarrow> ('k \<Rightarrow> sval) \<Rightarrow> ('k \<times> 'm) list \<Rightarrow> string list" where
  "label_errors ext ser es =
     concat (map (\<lambda>(k, m). case to_label_pairs ext (ser k) of Inl err \<Rightarrow> [err] | Inr ls \<Rightarrow> []) es)"

definition metric_events ::
    "externals \<Rightarrow> ('k \<Rightarrow> sval) \<Rightarrow> ('m \<Rightarrow> metric_family list \<times> event list) \<Rightarrow> ('k \<times> 'm) list \<Rightarrow>
     event list" where
  "metric_events ext ser encv es =
     concat (map (\<lambda>(k, m). case to_label_pairs ext (ser k) of Inl err \<Rightarrow> [] | Inr ls \<Rightarrow> snd (encv m)) es)"

text \<open>Names in order of first occurrence; the group of a name takes the metadata of its first
  family and the rows of all families that agree with it.\<close>

definition first_names :: "metric_family list \<Rightarrow> string option list" where
  "first_names fs = rev (remdups (rev (map f_name fs)))"

definition first_family :: "metric_family list \<Rightarrow> string option \<Rightarrow> metric_family" where
  "first_family fs n = the (List.find (\<lambda>f. f_name f = n) fs)"

definition group_of :: "metric_family list \<Rightarrow> string option \<Rightarrow> metric_family" where
  "group_of fs n = (first_family fs n)\<lparr>f_metric := concat (map f_metric
     (filter (\<lambda>f. f_name f = n \<and> same_metadata (first_family fs n) f) fs))\<rparr>"

definition metadata_conflicts :: "metric_family list \<Rightarrow> metric_family list" where
  "metadata_conflicts fs = filter (\<lambda>f. \<not> same_metadata (first_family fs (f_name f)) f) fs"

lemma first_names_snoc:
  "first_names (fs @ [f]) =
     (if f_name f \<in> f_name ` set fs then first_names fs else first_names fs @ [f_name f])"
  by (simp add: first_names_def)

lemma first_names_set [simp]: "set (first_names fs) = f_name ` set fs"
  by (simp add: first_names_def)

lemma first_names_distinct [simp]: "distinct (first_names fs)"
  by (simp add: first_names_def)

lemma find_name_None: "List.find (\<lambda>f. f_name f = n) fs = None \<longleftrightarrow> n \<notin> f_name ` set fs"
  by (auto simp: find_None_iff)

lemma first_family_append:
  "n \<in> f_name ` set fs \<Longrightarrow> first_family (fs @ gs) n = first_family fs n"
  using find_name_None [of n fs] by (auto simp: first_family_def find_append split: option.split)

lemma first_family_name: "n \<in> f_name ` set fs \<Longrightarrow> f_name (first_family fs n) = n"
proof -
  assume "n \<in> f_name ` set fs"
  then obtain f where "List.find (\<lambda>f. f_name f = n) fs = Some f"
    using find_name_None [of n fs] by auto
  then show ?thesis
    using find_Some_split by (fastforce simp: first_family_def)
qed

lemma first_family_new:
  "f_name f \<notin> f_name ` set fs \<Longrightarrow> first_family (fs @ [f]) (f_name f) = f"
  using find_name_None [of "f_name f" fs] by (simp add: first_family_def find_append)

lemma group_of_name [simp]: "n \<in> f_name ` set fs \<Longrightarrow> f_name (group_of fs n) = n"
  by (simp add: group_of_def first_family_name)

lemma same_metadata_update [simp]: "same_metadata (g\<lparr>f_metric := ms\<rparr>) f = same_metadata g f"
  by (simp add: same_metadata_def)

lemma group_of_same: "same_metadata (group_of fs n) f = same_metadata (first_family fs n) f"
  by (simp add: group_of_def)

lemma group_of_snoc:
  "n \<in> f_name ` set fs \<Longrightarrow> group_of (fs @ [f]) n =
     (if f_name f = n \<and> same_metadata (first_family fs n) f
      then (group_of fs n)\<lparr>f_metric := f_metric (group_of fs n) @ f_metric f\<rparr> else group_of fs n)"
  by (simp add: group_of_def first_family_append)

lemma group_of_new:
  assumes "f_name f \<notin> f_name ` set fs"
  shows "group_of (fs @ [f]) (f_name f) = f"
proof -
  have "filter (\<lambda>g. f_name g = f_name f \<and> same_metadata f g) fs = []"
    using assms by (auto simp: filter_empty_conv) (metis image_eqI)
  then show ?thesis
    using assms by (simp add: group_of_def first_family_new) (simp add: same_metadata_def)
qed

lemma append_to_group_map:
  "distinct ns \<Longrightarrow> \<forall>n\<in>set ns. f_name (g n) = n \<Longrightarrow>
     append_to_group f (map g ns) =
       map (\<lambda>n. if n = f_name f then (g n)\<lparr>f_metric := f_metric (g n) @ f_metric f\<rparr> else g n) ns"
proof (induction ns)
  case (Cons n ns)
  show ?case
  proof (cases "n = f_name f")
    case True
    then have "map g ns = map (\<lambda>n. if n = f_name f then (g n)\<lparr>f_metric := f_metric (g n) @ f_metric f\<rparr> else g n) ns"
      using Cons.prems(1) by auto
    then show ?thesis using True Cons.prems(2) by simp
  next
    case False
    then show ?thesis using Cons by simp
  qed
qed simp

lemma find_group:
  assumes "n \<in> f_name ` set fs"
  shows "List.find (\<lambda>g. f_name g = n) (map (group_of fs) (first_names fs)) = Some (group_of fs n)"
proof -
  have "List.find (\<lambda>g. f_name g = n) (map (group_of fs) ns) = Some (group_of fs n)"
    if "n \<in> set ns" "set ns \<subseteq> f_name ` set fs" for ns
    using that by (induction ns) auto
  then show ?thesis using assms by simp
qed

lemma find_group_None:
  assumes "n \<notin> f_name ` set fs"
  shows "List.find (\<lambda>g. f_name g = n) (map (group_of fs) (first_names fs)) = None"
  using assms by (auto simp: find_None_iff)

definition grouped_as :: "metric_family list \<Rightarrow> grouping \<Rightarrow> bool" where
  "grouped_as fs s \<longleftrightarrow>
     gr_grouped s = map (group_of fs) (first_names fs) \<and>
     gr_metadata_error_count s = int (length (metadata_conflicts fs)) \<and>
     gr_first_metadata_error s = (case metadata_conflicts fs of [] \<Rightarrow> None | f # _ \<Rightarrow> Some (f_name f))"

lemma metadata_conflicts_snoc:
  "metadata_conflicts (fs @ [f]) = metadata_conflicts fs @
     (if f_name f \<in> f_name ` set fs \<and> \<not> same_metadata (first_family fs (f_name f)) f then [f] else [])"
proof -
  have "filter (\<lambda>g. \<not> same_metadata (first_family (fs @ [f]) (f_name g)) g) fs = metadata_conflicts fs"
    unfolding metadata_conflicts_def by (rule filter_cong) (simp_all add: first_family_append)
  moreover have "same_metadata f f"
    by (simp add: same_metadata_def)
  ultimately show ?thesis
    using first_family_new [of f fs] first_family_append [of "f_name f" fs "[f]"]
    by (cases "f_name f \<in> f_name ` set fs") (simp_all add: metadata_conflicts_def)
qed

lemma insert_group_grouped:
  assumes "grouped_as fs s"
  shows "grouped_as (fs @ [f]) (insert_group f s)"
proof (cases "f_name f \<in> f_name ` set fs")
  case False
  have "map (group_of (fs @ [f])) (first_names fs) = map (group_of fs) (first_names fs)"
    using False by (auto simp: group_of_snoc)
  then show ?thesis
    using assms False find_group_None [OF False]
    by (simp add: grouped_as_def insert_group_def first_names_snoc group_of_new metadata_conflicts_snoc)
next
  case True
  note fg = find_group [OF True]
  have names: "first_names (fs @ [f]) = first_names fs"
    using True by (simp add: first_names_snoc)
  show ?thesis
  proof (cases "same_metadata (first_family fs (f_name f)) f")
    case same: True
    have "append_to_group f (map (group_of fs) (first_names fs)) = map (group_of (fs @ [f])) (first_names fs)"
      using same by (subst append_to_group_map) (auto simp: group_of_snoc)
    then show ?thesis
      using assms same by (simp add: grouped_as_def insert_group_def fg group_of_same names metadata_conflicts_snoc)
  next
    case diff: False
    have "map (group_of (fs @ [f])) (first_names fs) = map (group_of fs) (first_names fs)"
      using diff by (auto simp: group_of_snoc)
    then show ?thesis
      using assms diff True
      by (auto simp: grouped_as_def insert_group_def fg group_of_same names metadata_conflicts_snoc
          split: list.splits)
  qed
qed

lemma fold_insert_group: "grouped_as fs s \<Longrightarrow> grouped_as (fs @ gs) (fold insert_group gs s)"
proof (induction gs arbitrary: fs s)
  case (Cons g gs)
  then show ?case
    using Cons.IH [OF insert_group_grouped [OF Cons.prems, of g]] by simp
qed simp

lemma insert_group_label_fields [simp]:
  "gr_label_error_count (insert_group f s) = gr_label_error_count s"
  "gr_first_label_error (insert_group f s) = gr_first_label_error s"
  by (simp_all add: insert_group_def split: option.split)

lemma fold_insert_group_label_fields [simp]:
  "gr_label_error_count (fold insert_group fs s) = gr_label_error_count s"
  "gr_first_label_error (fold insert_group fs s) = gr_first_label_error s"
  by (induction fs arbitrary: s) simp_all

lemma grouped_as_label_fields [simp]:
  "grouped_as fs (s\<lparr>gr_label_error_count := c, gr_first_label_error := e\<rparr>) = grouped_as fs s"
  by (simp add: grouped_as_def)

lemma encode_entries_result:
  "grouped_as fs s \<Longrightarrow> encode_entries ext ser encv es s = (s', l) \<Longrightarrow>
     grouped_as (fs @ labelled_families ext ser encv es) s' \<and>
     gr_label_error_count s' = gr_label_error_count s + int (length (label_errors ext ser es)) \<and>
     gr_first_label_error s' = (case gr_first_label_error s of Some e \<Rightarrow> Some e
        | None \<Rightarrow> (case label_errors ext ser es of [] \<Rightarrow> None | e # _ \<Rightarrow> Some e)) \<and>
     l = metric_events ext ser encv es"
proof (induction es arbitrary: fs s s' l)
  case Nil
  then show ?case
    by (auto simp: labelled_families_def label_errors_def metric_events_def split: option.split)
next
  case (Cons e es)
  obtain k m where e: "e = (k, m)" by (rule prod.exhaust)
  show ?case
  proof (cases "to_label_pairs ext (ser k)")
    case (Inl err)
    define s1 where "s1 = s\<lparr>gr_label_error_count := gr_label_error_count s + 1,
        gr_first_label_error := (case gr_first_label_error s of None \<Rightarrow> Some err | e \<Rightarrow> e)\<rparr>"
    have "encode_entries ext ser encv es s1 = (s', l)" "grouped_as fs s1"
      using Cons.prems by (simp_all add: e Inl s1_def)
    from Cons.IH [OF this(2,1)] show ?thesis
      by (auto simp: e Inl s1_def labelled_families_def label_errors_def metric_events_def
          split: option.splits)
  next
    case (Inr labels)
    let ?fs = "map (prepend_labels labels) (filter (\<lambda>f. f_metric f \<noteq> []) (fst (encv m)))"
    obtain l' where r: "encode_entries ext ser encv es (fold insert_group ?fs s) = (s', l')"
        "l = snd (encv m) @ l'"
      using Cons.prems(2) by (auto simp: e Inr encode_labelled_result split: prod.splits)
    from Cons.IH [OF fold_insert_group [OF Cons.prems(1)] r(1)] show ?thesis
      using r(2) by (auto simp: e Inr labelled_families_def label_errors_def metric_events_def
          split: option.split)
  qed
qed

lemma grouping_start_fields [simp]:
  "gr_label_error_count grouping_start = 0" "gr_first_label_error grouping_start = None"
  by (simp_all add: grouping_start_def)

lemma family_encode_result:
  "family_encode_metric_value ext ser encv es =
     (map (group_of (labelled_families ext ser encv es)) (first_names (labelled_families ext ser encv es)),
      metric_events ext ser encv es @
      (case label_errors ext ser es of [] \<Rightarrow> []
       | err # _ \<Rightarrow> [Report (LabelSetsSkipped (int (length (label_errors ext ser es))) err)]) @
      (case metadata_conflicts (labelled_families ext ser encv es) of [] \<Rightarrow> []
       | f # _ \<Rightarrow> [Report (MetadataGroupsSkipped
             (int (length (metadata_conflicts (labelled_families ext ser encv es)))) (f_name f))]))"
proof -
  obtain s l where r: "encode_entries ext ser encv es grouping_start = (s, l)"
    by (rule prod.exhaust)
  have "grouped_as [] grouping_start"
    by (simp add: grouped_as_def grouping_start_def first_names_def metadata_conflicts_def)
  from encode_entries_result [OF this r] show ?thesis
    by (auto simp: family_encode_metric_value_def r grouped_as_def
        split: list.splits)
qed

text \<open>A family over a metric that meets the encoding contract meets it too.\<close>

lemma group_of_mem:
  "n \<in> f_name ` set fs \<Longrightarrow> relative_name (group_of fs n) \<longleftrightarrow> (case n of None \<Rightarrow> False | Some s \<Rightarrow> CHR 0x00 \<notin> set s)"
  by (simp add: relative_name_def)

lemma labelled_families_names:
  "f \<in> set (labelled_families ext ser encv es) \<Longrightarrow> \<exists>k m g. (k, m) \<in> set es \<and> g \<in> set (fst (encv m)) \<and> f_name f = f_name g"
  by (auto simp: labelled_families_def prepend_labels_def split: sum.splits) blast

context metric_value
begin

lemma family_contract: "metric_value (family_encode_metric_value ext ser encv)"
proof
  fix f es
  assume f: "f \<in> set (fst (family_encode_metric_value ext ser encv es))"
  let ?fs = "labelled_families ext ser encv es"
  obtain n where n: "n \<in> f_name ` set ?fs" "f = group_of ?fs n"
    using f by (auto simp: family_encode_result)
  then obtain g k m where "g \<in> set (fst (encv m))" "f_name g = n"
    using labelled_families_names by fastforce
  then show "relative_name f"
    using encoded_names [of g m] group_of_mem [OF n(1)] n(2) by (simp add: relative_name_def)
next
  fix es
  show "panic_free (snd (family_encode_metric_value ext ser encv es))"
    using encode_no_panic
    by (auto simp: family_encode_result metric_events_def panic_free_concat split: list.split sum.split)
qed

end

interpretation counter_family: metric_value
    "family_encode_metric_value ext ser counter_encode_metric_value" for ext ser
  by (rule counter_value.family_contract)

interpretation range_gauge_family: metric_value
    "family_encode_metric_value ext ser range_encode_metric_value" for ext ser
  by (rule range_value.family_contract)

interpretation histogram_family: metric_value
    "family_encode_metric_value ext ser histogram_encode_metric_value" for ext ser
  by (rule histogram_value.family_contract)

interpretation time_histogram_family: metric_value
    "family_encode_metric_value ext ser time_encode_metric_value" for ext ser
  by (rule time_histogram_value.family_contract)

section \<open>Properties\<close>

text \<open>Encoding a family, whatever its label sets, metrics and iteration order: the groups have
  pairwise distinct relative names in order of first occurrence; the group of a name holds the
  rows of every encoded family of that name and of the same help, type and unit as the first,
  in order, each row with its label set's pairs before its own labels; label sets that fail to
  serialize and families with conflicting metadata are skipped, counted exactly and reported
  once each with the first of them; and the row counter that decides when labels may be moved
  never underflows.\<close>

theorem family_encodes_groups:
  "family_encode_metric_value ext ser encv es =
     (map (group_of (labelled_families ext ser encv es)) (first_names (labelled_families ext ser encv es)),
      metric_events ext ser encv es @
      (case label_errors ext ser es of [] \<Rightarrow> []
       | err # _ \<Rightarrow> [Report (LabelSetsSkipped (int (length (label_errors ext ser es))) err)]) @
      (case metadata_conflicts (labelled_families ext ser encv es) of [] \<Rightarrow> []
       | f # _ \<Rightarrow> [Report (MetadataGroupsSkipped
             (int (length (metadata_conflicts (labelled_families ext ser encv es)))) (f_name f))])) \<and>
   distinct (map f_name (fst (family_encode_metric_value ext ser encv es)))"
proof -
  have "map f_name (map (group_of fs) (first_names fs)) = first_names fs" for fs
    unfolding map_map by (rule map_idI) simp
  then show ?thesis
    by (simp add: family_encode_result)
qed

text \<open>A family of counters exports one counter family with exactly one row per label set: the
  label set's pairs in order and the counter's value, and nothing is reported, when the label
  sets serialize.\<close>

theorem counter_family_rows:
  assumes "es \<noteq> []" and "\<forall>(k, m)\<in>set es. to_label_pairs ext (ser k) = Inr (pairs k)"
  shows "family_encode_metric_value ext ser counter_encode_metric_value es =
    ([\<lparr>f_name = Some [], f_help = None, f_type = Some (metric_type_to_i32 Counter),
       f_metric = map (\<lambda>(k, (c, st)). metric_default\<lparr>m_label := pairs k,
         m_counter := Some (counter_default\<lparr>c_value := Some (f64_of_u64 (counter_get c st))\<rparr>)\<rparr>) es,
       f_unit = None\<rparr>], [])"
proof -
  let ?row = "\<lambda>(k, (c, st)). metric_default\<lparr>m_label := pairs k,
         m_counter := Some (counter_default\<lparr>c_value := Some (f64_of_u64 (counter_get c st))\<rparr>)\<rparr>"
  let ?fam = "\<lambda>rows. \<lparr>f_name = Some [], f_help = None, f_type = Some (metric_type_to_i32 Counter),
       f_metric = rows, f_unit = None\<rparr>"
  have flat: "labelled_families ext ser counter_encode_metric_value es = map (\<lambda>e. ?fam [?row e]) es"
    using assms(2) by (induction es)
      (auto simp: labelled_families_def prepend_labels_def counter_encode_metric_value_def
        encode_counter_def metric_default_def)
  have errs: "label_errors ext ser es = []" "metric_events ext ser counter_encode_metric_value es = []"
    using assms(2) by (induction es)
      (auto simp: label_errors_def metric_events_def counter_encode_metric_value_def)
  obtain e es' where es: "es = e # es'"
    using assms(1) by (cases es) auto
  have names: "first_names (map (\<lambda>e. ?fam [?row e]) es) = [Some []]"
  proof -
    have "remdups (replicate n x) = (if n = 0 then [] else [x])" for n and x :: "string option"
      by (induction n) auto
    moreover have "map f_name (map (\<lambda>e. ?fam [?row e]) es) = replicate (length es) (Some [])"
      by (simp add: o_def map_replicate_const)
    ultimately show ?thesis
      using assms(1) by (simp only: first_names_def rev_replicate) simp
  qed
  have first: "first_family (map (\<lambda>e. ?fam [?row e]) es) (Some []) = ?fam [?row e]"
    by (simp add: first_family_def es)
  have same: "same_metadata (?fam r) (?fam r')" for r r'
    by (simp add: same_metadata_def)
  have grp: "group_of (map (\<lambda>e. ?fam [?row e]) es) (Some []) = ?fam (map ?row es)"
  proof -
    have "filter (\<lambda>f. f_name f = Some [] \<and> same_metadata (?fam [?row e]) f) (map (\<lambda>e. ?fam [?row e]) es) =
        map (\<lambda>e. ?fam [?row e]) es"
      by (rule filter_True) (use same in auto)
    moreover have "concat (map f_metric (map (\<lambda>e. ?fam [?row e]) xs)) = map ?row xs" for xs
      by (induction xs) simp_all
    ultimately show ?thesis
      unfolding group_of_def first by (simp only:) simp
  qed
  have conf: "metadata_conflicts (map (\<lambda>e. ?fam [?row e]) es) = []"
    unfolding metadata_conflicts_def
  proof (rule filter_False, rule ballI)
    fix f assume "f \<in> set (map (\<lambda>e. ?fam [?row e]) es)"
    then obtain r where f: "f = ?fam r" by auto
    show "\<not> \<not> same_metadata (first_family (map (\<lambda>e. ?fam [?row e]) es) (f_name f)) f"
      unfolding f by (simp only: metric_family.select_convs first same simp_thms)
  qed
  show ?thesis
    unfolding family_encode_result flat errs names conf list.map grp by simp
qed

theorem counter_family_rows_witness:
  "family_encode_metric_value constant_externals (\<lambda>n. SStruct ''L'' [(''code'', SInt U16 n)])
     counter_encode_metric_value [(7, (\<lparr>cn_val = 0\<rparr>, [3])), (8, (\<lparr>cn_val = 0\<rparr>, [4]))] =
   ([\<lparr>f_name = Some [], f_help = None, f_type = Some (metric_type_to_i32 Counter),
      f_metric =
        [metric_default\<lparr>m_label := [\<lparr>lp_name = Some ''code'', lp_value = Some (show_int 7)\<rparr>],
           m_counter := Some (counter_default\<lparr>c_value := Some (f64_of_u64 3)\<rparr>)\<rparr>,
         metric_default\<lparr>m_label := [\<lparr>lp_name = Some ''code'', lp_value = Some (show_int 8)\<rparr>],
           m_counter := Some (counter_default\<lparr>c_value := Some (f64_of_u64 4)\<rparr>)\<rparr>],
      f_unit = None\<rparr>], [])"
proof -
  have "to_label_pairs constant_externals (SStruct ''L'' [(''code'', SInt U16 n)]) =
      Inr [\<lparr>lp_name = Some ''code'', lp_value = Some (show_int n)\<rparr>]" for n
    by (simp add: to_label_pairs_def validate_label_name_def is_valid_name_def)
  then have "\<forall>(k, m)\<in>set [(7, (\<lparr>cn_val = 0\<rparr>, [3])), (8, (\<lparr>cn_val = 0\<rparr>, [4 :: u64]))].
      to_label_pairs constant_externals (SStruct ''L'' [(''code'', SInt U16 k)]) =
        Inr [\<lparr>lp_name = Some ''code'', lp_value = Some (show_int k)\<rparr>]"
    by simp
  from counter_family_rows [OF _ this] show ?thesis
    by (simp only: list.map prod.case list.distinct simp_thms)
      (simp only: counter_get_def counter_u64_get_def counter.simps nth_Cons_0)
qed

end
