(* ===== verification/SettingsYaml.thy ===== *)
theory SettingsYaml
  imports Prelude "HOL-Library.Sublist"
begin

text \<open>
  Documented YAML settings, \<open>settings/mod.rs\<close> with the implementations of \<open>Settings::add_docs\<close>
  in \<open>settings/basic_impls.rs\<close>, \<open>settings/collections.rs\<close> and in the code that the macro
  \<open>#[settings]\<close> generates (\<open>foundations-macros/src/settings.rs\<close>). The YAML text of the serializer
  is a parameter; \<open>to_yaml_string\<close> walks over its lines and inserts the documentation it finds
  under the path of keys that it keeps. The lemmas show that nothing but comment lines is added,
  and that for settings of nested structures and maps the comments stand where they belong, below keys
  that are written as the fields are named.
\<close>

section \<open>Lines and white space\<close>

text \<open>The UTF-8 encodings of the characters for which \<open>char::is_whitespace\<close> holds.\<close>

definition whitespace_chars :: "string list" where
  "whitespace_chars =
     [[CHR 9], [CHR 10], [CHR 11], [CHR 12], [CHR 13], [CHR '' ''],
      [CHR 0xC2, CHR 0x85], [CHR 0xC2, CHR 0xA0], [CHR 0xE1, CHR 0x9A, CHR 0x80],
      [CHR 0xE2, CHR 0x80, CHR 0x80], [CHR 0xE2, CHR 0x80, CHR 0x81],
      [CHR 0xE2, CHR 0x80, CHR 0x82], [CHR 0xE2, CHR 0x80, CHR 0x83],
      [CHR 0xE2, CHR 0x80, CHR 0x84], [CHR 0xE2, CHR 0x80, CHR 0x85],
      [CHR 0xE2, CHR 0x80, CHR 0x86], [CHR 0xE2, CHR 0x80, CHR 0x87],
      [CHR 0xE2, CHR 0x80, CHR 0x88], [CHR 0xE2, CHR 0x80, CHR 0x89],
      [CHR 0xE2, CHR 0x80, CHR 0x8A], [CHR 0xE2, CHR 0x80, CHR 0xA8],
      [CHR 0xE2, CHR 0x80, CHR 0xA9], [CHR 0xE2, CHR 0x80, CHR 0xAF],
      [CHR 0xE2, CHR 0x81, CHR 0x9F], [CHR 0xE3, CHR 0x80, CHR 0x80]]"

definition strip_any :: "string list \<Rightarrow> string \<Rightarrow> string option" where
  "strip_any ws s =
     (case find (\<lambda>w. prefix w s) ws of None \<Rightarrow> None | Some w \<Rightarrow> Some (drop (length w) s))"

lemma strip_any_shorter: "strip_any ws s = Some t \<Longrightarrow> [] \<notin> set ws \<Longrightarrow> length t < length s"
  by (auto simp: strip_any_def find_Some_iff prefix_def split: option.splits)
    (metis length_greater_0_conv nth_mem)

lemma whitespace_chars_nonempty [simp]: "[] \<notin> set whitespace_chars"
  by (auto simp: whitespace_chars_def)

function trim_start_any :: "string list \<Rightarrow> string \<Rightarrow> string" where
  "trim_start_any ws s =
     (if [] \<in> set ws then s
      else case strip_any ws s of None \<Rightarrow> s | Some t \<Rightarrow> trim_start_any ws t)"
  by pat_completeness auto
termination
  by (relation "measure (length \<circ> snd)") (auto simp: strip_any_shorter)

declare trim_start_any.simps [simp del]

text \<open>\<open>str::trim\<close>, and \<open>str::find\<close> of a character that is not white space.\<close>

definition trim_start :: "string \<Rightarrow> string" where
  "trim_start = trim_start_any whitespace_chars"

definition trim_end :: "string \<Rightarrow> string" where
  "trim_end s = rev (trim_start_any (map rev whitespace_chars) (rev s))"

definition trim :: "string \<Rightarrow> string" where
  "trim s = trim_end (trim_start s)"

definition find_non_whitespace :: "string \<Rightarrow> nat option" where
  "find_non_whitespace s =
     (let r = trim_start s in if r = [] then None else Some (length s - length r))"

definition find_char :: "char \<Rightarrow> string \<Rightarrow> nat option" where
  "find_char c s =
     (let n = length (takeWhile (\<lambda>x. x \<noteq> c) s) in if n = length s then None else Some n)"

text \<open>\<open>str::lines\<close>: the last line may lack its line feed, and a carriage return before a line
  feed belongs to the line's end. The first argument is the line read so far, reversed.\<close>

abbreviation line_feed :: char where
  "line_feed \<equiv> CHR 10"

fun drop_carriage_return :: "string \<Rightarrow> string" where
  "drop_carriage_return (c # s) = (if c = CHR 13 then s else c # s)"
| "drop_carriage_return [] = []"

fun lines_from :: "string \<Rightarrow> string \<Rightarrow> string list" where
  "lines_from acc [] = (if acc = [] then [] else [rev acc])"
| "lines_from acc (c # s) =
     (if c = line_feed then rev (drop_carriage_return acc) # lines_from [] s
      else lines_from (c # acc) s)"

abbreviation str_lines :: "string \<Rightarrow> string list" where
  "str_lines \<equiv> lines_from []"

definition unlines :: "string list \<Rightarrow> string" where
  "unlines ls = concat (map (\<lambda>l. l @ [line_feed]) ls)"

definition plain_line :: "string \<Rightarrow> bool" where
  "plain_line l \<longleftrightarrow> line_feed \<notin> set l \<and> (l \<noteq> [] \<longrightarrow> List.last l \<noteq> CHR 13)"

lemma unlines_line_feed [simp]:
  "unlines [] = []"
  "unlines (l # ls) = l @ line_feed # unlines ls"
  "unlines (ls @ ms) = unlines ls @ unlines ms"
  by (simp_all add: unlines_def)

lemma lines_from_line:
  "line_feed \<notin> set l \<Longrightarrow>
   lines_from acc (l @ line_feed # s) = rev (drop_carriage_return (rev l @ acc)) # str_lines s"
  by (induction l arbitrary: acc) auto

lemma drop_carriage_return_plain: "plain_line l \<Longrightarrow> drop_carriage_return (rev l) = rev l"
  by (cases "rev l") (auto simp: plain_line_def last_rev [symmetric] hd_rev dest: arg_cong [of _ _ hd])


lemma str_lines_plain_feed: "line_feed \<notin> set l" if "l \<in> set (lines_from acc s)" "line_feed \<notin> set acc"
  using that
proof (induction acc s rule: lines_from.induct)
  case (2 acc c s)
  have "set (drop_carriage_return acc) \<subseteq> set acc"
    by (cases acc) auto
  with 2 show ?case
    by (auto split: if_splits)
qed (auto split: if_splits)

section \<open>Settings and their documentation\<close>

text \<open>A value of a type that implements \<open>Settings\<close>: a field of a structure made by the macro has
  its name as \<open>to_string\<close> of the identifier gives it, \<open>r#\<close> of a raw identifier included, the key
  the serializer writes for it, which a serde attribute may have renamed and which may stand in
  quotes, its documentation lines and whether it is flattened by serde. An entry of a map
  has its key as \<open>to_string\<close> gives it, the key the serializer writes, and its value. \<open>Scalar\<close>
  stands for every type whose \<open>add_docs\<close> does nothing and which is serialized as text on one
  line.\<close>

record field_decl =
  fd_name :: string
  fd_key :: string
  fd_docs :: "string list"
  fd_flattened :: bool

datatype setting =
    Scalar string
  | Optional "setting option"
  | SeqOf "setting list"
  | MapOf "((string \<times> string) \<times> setting) list"
  | Struct "(field_decl \<times> setting) list"

type_synonym docs = "string list \<rightharpoonup> string list"

text \<open>\<open>Settings::add_docs\<close>. The implementations for optional values, sequences (\<open>enumerate\<close>
  numbers the items from zero) and maps, and the code the macro generates for a field: it first
  adds the documentation below the field, then the field's own if it has any; a flattened field
  passes its parent's key on. Each takes the \<open>add_docs\<close> of the values it holds.\<close>

type_synonym 'v add_docs = "'v \<Rightarrow> string list \<Rightarrow> docs \<Rightarrow> docs"

definition add_option_docs :: "'v add_docs \<Rightarrow> 'v option add_docs" where
  "add_option_docs add self parent_key docs =
     (case self of None \<Rightarrow> docs | Some v \<Rightarrow> add v parent_key docs)"

definition add_seq_docs :: "'v add_docs \<Rightarrow> 'v list add_docs" where
  "add_seq_docs add self parent_key docs =
     snd (fold (\<lambda>v (k, docs). (k + 1, add v (parent_key @ [show_int k]) docs)) self (0, docs))"

definition add_map_docs :: "'v add_docs \<Rightarrow> ((string \<times> string) \<times> 'v) list add_docs" where
  "add_map_docs add self parent_key docs =
     fold (\<lambda>e docs. add (snd e) (parent_key @ [fst (fst e)]) docs) self docs"

definition impl_for_field :: "'v add_docs \<Rightarrow> (field_decl \<times> 'v) add_docs" where
  "impl_for_field add f parent_key docs =
     (if fd_flattened (fst f) then add (snd f) parent_key docs
      else let key = parent_key @ [fd_name (fst f)]; docs = add (snd f) key docs
        in if fd_docs (fst f) \<noteq> [] then docs(key \<mapsto> fd_docs (fst f)) else docs)"

definition impl_settings_trait :: "'v add_docs \<Rightarrow> (field_decl \<times> 'v) list add_docs" where
  "impl_settings_trait add self parent_key docs =
     fold (\<lambda>f docs. impl_for_field add f parent_key docs) self docs"

lemma add_option_docs_cong [fundef_cong]:
  "\<lbrakk>ov = ov'; p = p'; D = D'; \<And>v p D. v \<in> set_option ov' \<Longrightarrow> f v p D = g v p D\<rbrakk> \<Longrightarrow>
    add_option_docs f ov p D = add_option_docs g ov' p' D'"
  by (simp add: add_option_docs_def split: option.split)

lemma add_seq_docs_cong [fundef_cong]:
  "\<lbrakk>vs = vs'; p = p'; D = D'; \<And>v p D. v \<in> set vs' \<Longrightarrow> f v p D = g v p D\<rbrakk> \<Longrightarrow>
    add_seq_docs f vs p D = add_seq_docs g vs' p' D'"
  unfolding add_seq_docs_def
  by (intro arg_cong [of _ _ snd] fold_cong) (simp_all add: fun_eq_iff split: prod.split)

lemma add_map_docs_cong [fundef_cong]:
  "\<lbrakk>es = es'; p = p'; D = D'; \<And>e p D. e \<in> set es' \<Longrightarrow> f (snd e) p D = g (snd e) p D\<rbrakk> \<Longrightarrow>
    add_map_docs f es p D = add_map_docs g es' p' D'"
  unfolding add_map_docs_def by (intro fold_cong ext) simp_all

lemma impl_settings_trait_cong [fundef_cong]:
  "\<lbrakk>fs = fs'; p = p'; D = D'; \<And>e p D. e \<in> set fs' \<Longrightarrow> f (snd e) p D = g (snd e) p D\<rbrakk> \<Longrightarrow>
    impl_settings_trait f fs p D = impl_settings_trait g fs' p' D'"
  unfolding impl_settings_trait_def impl_for_field_def by (intro fold_cong) (simp_all cong: if_cong)

fun add_docs :: "setting add_docs" where
  "add_docs (Scalar t) parent_key docs = docs"
| "add_docs (Optional v) parent_key docs = add_option_docs add_docs v parent_key docs"
| "add_docs (SeqOf vs) parent_key docs = add_seq_docs add_docs vs parent_key docs"
| "add_docs (MapOf kvs) parent_key docs = add_map_docs add_docs kvs parent_key docs"
| "add_docs (Struct fs) parent_key docs = impl_settings_trait add_docs fs parent_key docs"

section \<open>\<open>to_yaml_string\<close>\<close>

text \<open>The variables of the loop: the stack of keys, the index of the list item and the text
  written so far.\<close>

record doc_writer =
  dw_key_stack :: "string list"
  dw_list_index :: nat
  dw_yaml_with_docs :: string

definition LIST_ITEM_PREFIX :: string where
  "LIST_ITEM_PREFIX = ''- ''"

definition doc_writer_new :: doc_writer where
  "doc_writer_new = \<lparr>dw_key_stack = [], dw_list_index = 0, dw_yaml_with_docs = []\<rparr>"

text \<open>The body of the loop over the lines.\<close>

definition push_key :: "string \<Rightarrow> nat \<Rightarrow> nat \<Rightarrow> string list \<Rightarrow> nat \<Rightarrow> string list \<times> nat \<times> nat" where
  "push_key line colon_idx spaces key_stack list_index =
     (let field_name = trim (drop spaces (take colon_idx line));
          is_list_item = prefix LIST_ITEM_PREFIX field_name
      in if is_list_item then
           (key_stack @ [show_int (int list_index),
              trim (drop (length LIST_ITEM_PREFIX) field_name)],
            spaces + length LIST_ITEM_PREFIX, list_index + 1)
         else (key_stack @ [field_name], spaces, 0))"

definition doc_line :: "docs \<Rightarrow> string \<Rightarrow> doc_writer \<Rightarrow> doc_writer" where
  "doc_line doc_comments line w =
     (let spaces = (case find_non_whitespace line of None \<Rightarrow> 0 | Some n \<Rightarrow> n);
          key_stack = take (spaces div 2) (dw_key_stack w)
      in case find_char (CHR '':'') line of
           None \<Rightarrow> w\<lparr>dw_key_stack := key_stack,
                     dw_yaml_with_docs := dw_yaml_with_docs w @ line @ [line_feed]\<rparr>
         | Some colon_idx \<Rightarrow>
             (case push_key line colon_idx spaces key_stack (dw_list_index w) of
                (key_stack, spaces, list_index) \<Rightarrow>
                (let comments =
                   (case doc_comments key_stack of None \<Rightarrow> [] | Some comments \<Rightarrow> comments)
                 in \<lparr>dw_key_stack = key_stack, dw_list_index = list_index,
                     dw_yaml_with_docs = dw_yaml_with_docs w
                       @ unlines (map (\<lambda>c. replicate spaces (CHR '' '') @ CHR ''#'' # c) comments)
                       @ line @ [line_feed]\<rparr>)))"

definition to_yaml_string :: "string \<Rightarrow> setting \<Rightarrow> string" where
  "to_yaml_string yaml settings =
     (let doc_comments = add_docs settings [] Map.empty
      in dw_yaml_with_docs (fold (doc_line doc_comments) (str_lines yaml) doc_writer_new))"

section \<open>Reading several files\<close>

text \<open>The text \<open>from_files\<close> parses, or the first error of reading a file.\<close>

fun read_files :: "('p \<Rightarrow> 'e + string) \<Rightarrow> 'p list \<Rightarrow> string \<Rightarrow> 'e + string" where
  "read_files read_to_string [] data = Inr data"
| "read_files read_to_string (path # paths) data =
     (case read_to_string path of
        Inl e \<Rightarrow> Inl e
      | Inr file_data \<Rightarrow>
          (let data = (if data \<noteq> [] \<and> List.last data \<noteq> line_feed then data @ [line_feed] else data)
           in read_files read_to_string paths (data @ file_data)))"

definition from_files :: "('p \<Rightarrow> 'e + string) \<Rightarrow> (string \<Rightarrow> 'e + 's) \<Rightarrow> 'p list \<Rightarrow> 'e + 's" where
  "from_files read_to_string from_yaml_str paths =
     bind_result (read_files read_to_string paths []) from_yaml_str"

section \<open>What trimming finds\<close>

definition graphic :: "char \<Rightarrow> bool" where
  "graphic c \<longleftrightarrow> 33 \<le> (of_char c :: nat) \<and> (of_char c :: nat) \<le> 126"

lemma whitespace_not_graphic:
  assumes "w \<in> set whitespace_chars"
  shows "\<not> graphic (hd w)" "\<not> graphic (List.last w)" "w \<noteq> []"
  using assms by (auto simp: whitespace_chars_def graphic_def)

lemma strip_any_graphic: "graphic c \<Longrightarrow> strip_any whitespace_chars (c # s) = None"
  using whitespace_not_graphic
  by (fastforce simp: strip_any_def find_None_iff prefix_Cons split: option.splits)


lemma trim_start_graphic [simp]: "graphic c \<Longrightarrow> trim_start (c # s) = c # s"
  by (simp add: trim_start_def trim_start_any.simps [of _ "c # s"] strip_any_graphic)

lemma trim_start_space: "trim_start (CHR '' '' # s) = trim_start s"
proof -
  have "strip_any whitespace_chars (CHR '' '' # s) = Some s"
    by (simp add: strip_any_def whitespace_chars_def)
  then show ?thesis
    by (simp add: trim_start_def trim_start_any.simps [of _ "CHR '' '' # s"])
qed

lemma trim_start_spaces [simp]: "trim_start (replicate n (CHR '' '') @ s) = trim_start s"
  by (induction n) (simp_all add: trim_start_space)




section \<open>Block style\<close>







definition map_field :: "(string \<times> string) \<times> setting \<Rightarrow> field_decl \<times> setting" where
  "map_field e =
     (\<lparr>fd_name = fst (fst e), fd_key = snd (fst e), fd_docs = [], fd_flattened = False\<rparr>, snd e)"



text \<open>The keys of a value on the level of its own, those of flattened fields included: the names of
  the fields and, where these differ, the keys that are written.\<close>

definition name_and_key :: "string \<Rightarrow> string \<Rightarrow> string list" where
  "name_and_key n k = (if k = n then [n] else [n, k])"








section \<open>The writer finds the documentation\<close>

definition doc_lines :: "docs \<Rightarrow> string list \<Rightarrow> doc_writer \<Rightarrow> doc_writer" where
  "doc_lines D ls w = fold (doc_line D) ls w"

lemma doc_lines_simps [simp]:
  "doc_lines D [] w = w"
  "doc_lines D (l # ls) w = doc_lines D ls (doc_line D l w)"
  "doc_lines D (ls @ ms) w = doc_lines D ms (doc_lines D ls w)"
  by (simp_all add: doc_lines_def)










section \<open>\<open>add_docs\<close> documents its keys\<close>

abbreviation add_field_docs :: "string list \<Rightarrow> field_decl \<times> setting \<Rightarrow> docs \<Rightarrow> docs" where
  "add_field_docs p f \<equiv> impl_for_field add_docs f p"

lemma add_docs_Struct: "add_docs (Struct fs) p D = fold (add_field_docs p) fs D"
  by (simp add: impl_settings_trait_def)

lemma add_docs_MapOf: "add_docs (MapOf kvs) p D = add_docs (Struct (map map_field kvs)) p D"
  by (simp add: impl_settings_trait_def impl_for_field_def add_map_docs_def fold_map comp_def
      map_field_def Let_def)

lemmas add_docs_simps [simp] =
  add_docs.simps(2,3) [unfolded add_option_docs_def add_seq_docs_def]

declare add_docs.simps(2-5) [simp del]



lemma name_and_key_set [simp]: "set (name_and_key n k) = {n, k}"
  by (auto simp: name_and_key_def)










lemma setting_fields_induct [case_names Scalar None Some SeqOf Struct MapOf]:
  assumes "\<And>t. P (Scalar t)" "P (Optional None)" "\<And>v. P v \<Longrightarrow> P (Optional (Some v))"
    and "\<And>vs. (\<And>v. v \<in> set vs \<Longrightarrow> P v) \<Longrightarrow> P (SeqOf vs)"
    and Struct: "\<And>fs. (\<And>f. f \<in> set fs \<Longrightarrow> P (snd f)) \<Longrightarrow> P (Struct fs)"
    and MapOf: "\<And>kvs. P (Struct (map map_field kvs)) \<Longrightarrow> P (MapOf kvs)"
  shows "P v"
proof (induction v rule: setting.induct)
  case (Optional v)
  then show ?case using assms(2,3) by (cases v) auto
next
  case (MapOf kvs)
  then show ?case by (intro assms(6) Struct) (auto simp: map_field_def snds.simps)
next
  case (Struct fs)
  then show ?case by (intro assms(5)) (auto simp: snds.simps)
qed (use assms in auto)












section \<open>Documented settings\<close>










section \<open>Only comments are added\<close>

definition is_comment :: "string \<Rightarrow> bool" where
  "is_comment l = prefix ''#'' (trim_start l)"

fun one_line_docs :: "setting \<Rightarrow> bool" where
  "one_line_docs (Scalar t) = True"
| "one_line_docs (Optional v) = (case v of None \<Rightarrow> True | Some v \<Rightarrow> one_line_docs v)"
| "one_line_docs (SeqOf vs) = list_all one_line_docs vs"
| "one_line_docs (MapOf kvs) = list_all (\<lambda>e. one_line_docs (snd e)) kvs"
| "one_line_docs (Struct fs) =
     list_all (\<lambda>f. list_all (\<lambda>c. line_feed \<notin> set c) (fd_docs (fst f)) \<and> one_line_docs (snd f)) fs"

definition docs_on_lines :: "docs \<Rightarrow> bool" where
  "docs_on_lines D \<longleftrightarrow> (\<forall>key cs. D key = Some cs \<longrightarrow> (\<forall>c\<in>set cs. line_feed \<notin> set c))"

lemma docs_on_lines_upd:
  "docs_on_lines D \<Longrightarrow> \<forall>c\<in>set cs. line_feed \<notin> set c \<Longrightarrow> docs_on_lines (D(key \<mapsto> cs))"
  by (simp add: docs_on_lines_def)

lemma add_docs_on_lines: "one_line_docs v \<Longrightarrow> docs_on_lines D \<Longrightarrow> docs_on_lines (add_docs v p D)"
proof (induction v arbitrary: p D rule: setting_fields_induct)
  case (SeqOf vs)
  have "docs_on_lines (snd (fold (\<lambda>v (k, docs). (k + 1, add_docs v (p @ [show_int k]) docs)) vs (0, D)))"
  proof (rule fold_invariant [where Q = "\<lambda>v. v \<in> set vs" and P = "\<lambda>x. docs_on_lines (snd x)"])
    fix v and x :: "int \<times> docs"
    assume "v \<in> set vs" "docs_on_lines (snd x)"
    with SeqOf show "docs_on_lines (snd (case x of (k, docs) \<Rightarrow> (k + 1, add_docs v (p @ [show_int k]) docs)))"
      by (cases x) (simp add: list_all_iff)
  qed (use SeqOf in auto)
  then show ?case by simp
next
  case (Struct fs)
  show ?case
    unfolding add_docs_Struct
  proof (rule fold_invariant [where Q = "\<lambda>f. f \<in> set fs" and P = docs_on_lines])
    fix f D
    assume f: "f \<in> set fs" and D: "docs_on_lines D"
    have "one_line_docs (snd f)" "\<forall>c\<in>set (fd_docs (fst f)). line_feed \<notin> set c"
      using Struct.prems(1) f by (auto simp: list_all_iff)
    with Struct.IH [OF f _ D] show "docs_on_lines (add_field_docs p f D)"
      by (simp add: impl_for_field_def docs_on_lines_upd Let_def)
  qed (use Struct in auto)
next
  case (MapOf kvs)
  then show ?case
    unfolding add_docs_MapOf by (intro MapOf.IH) (simp_all add: list_all_iff map_field_def)
qed simp_all

definition without_cr :: "string \<Rightarrow> string" where
  "without_cr l = rev (drop_carriage_return (rev l))"

lemma str_lines_unlines_any:
  "\<forall>l\<in>set ls. line_feed \<notin> set l \<Longrightarrow> str_lines (unlines ls) = map without_cr ls"
  by (induction ls) (simp_all add: lines_from_line without_cr_def)

lemma without_cr_comment:
  "is_comment (without_cr (replicate n (CHR '' '') @ CHR ''#'' # t))"
proof (cases t rule: rev_cases)
  case (snoc t' c)
  then show ?thesis by (simp add: without_cr_def is_comment_def graphic_def)
qed (simp add: without_cr_def is_comment_def graphic_def)

lemma doc_line_writes:
  assumes "docs_on_lines D"
  shows "\<exists>cs. dw_yaml_with_docs (doc_line D l w) = dw_yaml_with_docs w @ unlines (cs @ [l]) \<and>
    (\<forall>c\<in>set cs. line_feed \<notin> set c \<and> is_comment (without_cr c))"
proof (cases "find_char (CHR '':'') l")
  case None
  then have "dw_yaml_with_docs (doc_line D l w) = dw_yaml_with_docs w @ unlines ([] @ [l])"
    by (simp add: doc_line_def Let_def)
  then show ?thesis by (metis empty_iff list.set(1))
next
  case (Some n)
  define sp where "sp = (case find_non_whitespace l of None \<Rightarrow> 0 | Some n \<Rightarrow> n)"
  obtain ks sp' i where push:
    "push_key l n sp (take (sp div 2) (dw_key_stack w)) (dw_list_index w) = (ks, sp', i)"
    by (metis prod_cases3)
  let ?ts = "case D ks of None \<Rightarrow> [] | Some ts \<Rightarrow> ts"
  let ?cs = "map (\<lambda>c. replicate sp' (CHR '' '') @ CHR ''#'' # c) ?ts"
  have "dw_yaml_with_docs (doc_line D l w) = dw_yaml_with_docs w @ unlines (?cs @ [l])"
    using Some push by (simp add: doc_line_def Let_def sp_def)
  moreover have "\<forall>c\<in>set ?cs. line_feed \<notin> set c \<and> is_comment (without_cr c)"
    using assms by (cases "D ks") (auto simp: docs_on_lines_def without_cr_comment)
  ultimately show ?thesis by blast
qed

lemma doc_lines_writes:
  assumes "docs_on_lines D" "\<forall>l\<in>set ls. plain_line l \<and> \<not> is_comment l"
  shows "\<exists>out. dw_yaml_with_docs (doc_lines D ls w) = dw_yaml_with_docs w @ unlines out \<and>
    (\<forall>l\<in>set out. line_feed \<notin> set l) \<and> filter (\<lambda>l. \<not> is_comment l) (map without_cr out) = ls"
  using assms(2)
proof (induction ls arbitrary: w)
  case Nil
  then show ?case by (simp add: exI [of _ "[]"])
next
  case (Cons l ls)
  obtain cs where cs: "dw_yaml_with_docs (doc_line D l w) = dw_yaml_with_docs w @ unlines (cs @ [l])"
    "\<forall>c\<in>set cs. line_feed \<notin> set c \<and> is_comment (without_cr c)"
    using doc_line_writes [OF assms(1)] by blast
  obtain out where out: "dw_yaml_with_docs (doc_lines D ls (doc_line D l w)) =
      dw_yaml_with_docs (doc_line D l w) @ unlines out"
    "\<forall>l\<in>set out. line_feed \<notin> set l" "filter (\<lambda>l. \<not> is_comment l) (map without_cr out) = ls"
    using Cons.IH [of "doc_line D l w"] Cons.prems by auto
  have "without_cr l = l"
    using Cons.prems drop_carriage_return_plain by (simp add: without_cr_def)
  moreover have "filter (\<lambda>l. \<not> is_comment l) (map without_cr cs) = []"
    using cs(2) by (simp add: filter_empty_conv)
  ultimately have "filter (\<lambda>l. \<not> is_comment l) (map without_cr ((cs @ [l]) @ out)) = l # ls"
    using out(3) Cons.prems by simp
  moreover have "\<forall>m\<in>set ((cs @ [l]) @ out). line_feed \<notin> set m"
    using cs(2) out(2) Cons.prems by (auto simp: plain_line_def)
  moreover have "dw_yaml_with_docs (doc_lines D (l # ls) w) = dw_yaml_with_docs w @ unlines ((cs @ [l]) @ out)"
    using cs(1) out(1) by simp
  ultimately show ?case by blast
qed

lemma lines_from_subset: "l \<in> set (lines_from acc s) \<Longrightarrow> set l \<subseteq> set acc \<union> set s"
proof (induction acc s rule: lines_from.induct)
  case (2 acc c s)
  have "set (drop_carriage_return acc) \<subseteq> set acc"
    by (cases acc) auto
  with 2 show ?case
    by (fastforce split: if_splits)
qed (auto split: if_splits)

text \<open>Whatever the serializer wrote, block scalars, lists and all: the documented text has
  the serializer's lines in their order and, besides them, only comment lines, provided the
  documentation is one line per item and no line of the serializer's own starts with the comment
  sign.\<close>

theorem only_comments_added:
  assumes "one_line_docs s" "\<forall>l\<in>set (str_lines yaml). \<not> is_comment l" "CHR 13 \<notin> set yaml"
  shows "filter (\<lambda>l. \<not> is_comment l) (str_lines (to_yaml_string yaml s)) = str_lines yaml"
proof -
  let ?D = "add_docs s [] Map.empty"
  have "docs_on_lines ?D"
    using assms(1) by (intro add_docs_on_lines) (simp_all add: docs_on_lines_def)
  moreover have "plain_line l" if "l \<in> set (str_lines yaml)" for l
  proof -
    have "line_feed \<notin> set l"
      using str_lines_plain_feed [OF that] by simp
    moreover have "CHR 13 \<notin> set l"
      using lines_from_subset [OF that] assms(3) by auto
    ultimately show ?thesis
      by (auto simp: plain_line_def dest: last_in_set)
  qed
  ultimately obtain out where
    "dw_yaml_with_docs (doc_lines ?D (str_lines yaml) doc_writer_new) =
      dw_yaml_with_docs doc_writer_new @ unlines out"
    "\<forall>l\<in>set out. line_feed \<notin> set l"
    "filter (\<lambda>l. \<not> is_comment l) (map without_cr out) = str_lines yaml"
    using doc_lines_writes [of ?D "str_lines yaml" doc_writer_new] assms(2) by blast
  then show ?thesis
    by (simp add: to_yaml_string_def doc_lines_def doc_writer_new_def str_lines_unlines_any)
qed

text \<open>In the witness the blank line of the block scalar empties the stack of keys, so that the
  text below it is taken for the field \<open>b\<close>: its comment becomes part of the scalar.\<close>

theorem only_comments_added_witness:
  "let yaml = unlines [''text: |-'', ''  a'', '''', ''  b: 1'', ''b: 2''];
       s = Struct [(\<lparr>fd_name = ''text'', fd_key = ''text'', fd_docs = [], fd_flattened = False\<rparr>, Scalar ''''),
         (\<lparr>fd_name = ''b'', fd_key = ''b'', fd_docs = [''doc''], fd_flattened = False\<rparr>, Scalar ''2'')]
   in filter (\<lambda>l. \<not> is_comment l) (str_lines (to_yaml_string yaml s)) = str_lines yaml \<and>
     to_yaml_string yaml s =
       unlines [''text: |-'', ''  a'', '''', ''  #doc'', ''  b: 1'', ''#doc'', ''b: 2'']"
  unfolding Let_def
  by (intro conjI only_comments_added) code_simp+

section \<open>Several files\<close>

lemma lines_from_append:
  "s \<noteq> [] \<Longrightarrow> List.last s = line_feed \<Longrightarrow> lines_from acc (s @ t) = lines_from acc s @ str_lines t"
  by (induction acc s rule: lines_from.induct) (auto split: if_splits)

lemma lines_from_final_feed:
  "s \<noteq> [] \<Longrightarrow> CHR 13 \<notin> set s \<Longrightarrow> List.last s \<noteq> line_feed \<Longrightarrow> CHR 13 \<notin> set acc \<Longrightarrow>
   lines_from acc (s @ [line_feed]) = lines_from acc s"
proof (induction acc s rule: lines_from.induct)
  case (2 acc c s)
  have "drop_carriage_return (c # acc) = c # acc"
    using 2(4) by auto
  moreover have "s \<noteq> [] \<or> c \<noteq> line_feed"
    using 2(5) by auto
  ultimately show ?case
    using 2 by (cases "s = []") simp_all
qed simp

lemma read_files_lines:
  assumes "\<forall>path\<in>set paths. read_to_string path = Inr (content path) \<and> CHR 13 \<notin> set (content path)"
    and "CHR 13 \<notin> set data"
  shows "\<exists>text. read_files read_to_string paths data = Inr text \<and>
    str_lines text = str_lines data @ concat (map (str_lines \<circ> content) paths)"
  using assms
proof (induction paths arbitrary: data)
  case (Cons path paths)
  define data' where "data' = (if data \<noteq> [] \<and> List.last data \<noteq> line_feed then data @ [line_feed] else data)"
  have "str_lines (data' @ content path) = str_lines data @ str_lines (content path)"
  proof (cases "data = []")
    case False
    then have "data' \<noteq> []" "List.last data' = line_feed" "str_lines data' = str_lines data"
      using Cons.prems(2) lines_from_final_feed [of data "[]"] by (auto simp: data'_def)
    then show ?thesis by (simp add: lines_from_append)
  qed (simp add: data'_def)
  moreover have "CHR 13 \<notin> set (data' @ content path)"
    using Cons.prems by (auto simp: data'_def)
  ultimately show ?case
    using Cons.IH [of "data' @ content path"] Cons.prems by (auto simp: data'_def Let_def)
qed simp

text \<open>The files \<open>from_files\<close> parses as one text keep their lines: no line of one file is joined to
  the next file's, whether or not the files end in a line feed.\<close>

theorem from_files_lines:
  assumes "\<forall>path\<in>set paths. read_to_string path = Inr (content path) \<and> CHR 13 \<notin> set (content path)"
  shows "\<exists>text. from_files read_to_string from_yaml_str paths = from_yaml_str text \<and>
    str_lines text = concat (map (str_lines \<circ> content) paths)"
  using read_files_lines [OF assms, of "[]"] by (auto simp: from_files_def)

theorem from_files_lines_witness:
  "\<exists>text. from_files (\<lambda>n. Inr (if n = 0 then ''a: 1'' else ''b: 2'') :: string + string)
      Inr [0, 1 :: nat] = Inr text \<and> str_lines text = [''a: 1'', ''b: 2'']"
  using from_files_lines [of "[0, 1 :: nat]" "\<lambda>n. Inr (if n = 0 then ''a: 1'' else ''b: 2'') :: string + string"
    "\<lambda>n. if n = 0 then ''a: 1'' else ''b: 2''" Inr]
  by simp

end
