(* ===== verification/MetricsMacro.thy ===== *)
theory MetricsMacro
  imports Families Histograms SettingsYaml
begin

text \<open>
  The macro \<open>#[metrics]\<close>, \<open>foundations-macros/src/metrics/\<close>, with the registration glue of
  \<open>foundations/src/telemetry/metrics/internal_backend.rs\<close>: the attributes and argument types it
  accepts, the check of histogram buckets, and the code it generates for a module, as what that
  code does when it runs. The syntax tree comes from \<open>syn\<close>, with the values its parsers and
  \<open>darling\<close> give. The lemmas show that a module registers each of its metrics once, whatever is
  called first, that its functions hand out one metric per label set, and what the check of the
  buckets is worth at run time.
\<close>

section \<open>Attributes of functions\<close>

text \<open>Expressions as far as the macro looks into them; a float literal with what \<open>base10_parse\<close>
  makes of it.\<close>

datatype expr =
    ExprReference expr
  | ExprArray "expr list"
  | ExprFloat "string + f64"
  | ExprOther

datatype member = Named string | Unnamed nat

record expr_struct =
  es_path :: "string list"
  es_fields :: "(member \<times> expr) list"

text \<open>An attribute by its path, with its parsed value where the macro parses it.\<close>

datatype fn_attr =
    CfgAttr string
  | DocAttr "string + string"
  | CtorAttr "string + expr_struct"
  | OptionalAttr "string + bool"
  | WithRemovalAttr "string + bool"
  | OtherAttr

record fn_attrs =
  fa_cfg :: "string list"
  fa_doc :: string
  fa_ctor :: "expr_struct option"
  fa_optional :: bool
  fa_with_removal :: bool

record attrs_state =
  ts_cfg :: "string list"
  ts_doc :: string
  ts_ctor :: "expr_struct option"
  ts_optional :: "bool option"
  ts_with_removal :: "bool option"

fun from_attr :: "fn_attr \<Rightarrow> attrs_state \<Rightarrow> string + attrs_state" where
  "from_attr (CfgAttr attr) s = Inr (s\<lparr>ts_cfg := ts_cfg s @ [attr]\<rparr>)"
| "from_attr (DocAttr d) s = bind_result d (\<lambda>d. Inr (s\<lparr>ts_doc := ts_doc s @ d\<rparr>))"
| "from_attr (CtorAttr c) s =
     (if ts_ctor s \<noteq> None then Inl ''Duplicate `#[ctor]` attribute''
      else bind_result c (\<lambda>c. Inr (s\<lparr>ts_ctor := Some c\<rparr>)))"
| "from_attr (OptionalAttr b) s =
     (if ts_optional s \<noteq> None then Inl ''Duplicate `#[optional]` attribute''
      else Inr (s\<lparr>ts_optional := Some (case b of Inl _ \<Rightarrow> True | Inr b \<Rightarrow> b)\<rparr>))"
| "from_attr (WithRemovalAttr b) s =
     (if ts_with_removal s \<noteq> None then Inl ''Duplicate `#[with_removal]` attribute''
      else bind_result b (\<lambda>b. Inr (s\<lparr>ts_with_removal := Some b\<rparr>)))"
| "from_attr OtherAttr s =
     Inl ''Only `#[cfg]`, `#[doc]`, `#[ctor]`, `#[optional]`, and `#[with_removal]` are allowed on functions''"

fun from_attr_list :: "fn_attr list \<Rightarrow> attrs_state \<Rightarrow> string + attrs_state" where
  "from_attr_list [] s = Inr s"
| "from_attr_list (attr # attrs) s = bind_result (from_attr attr s) (from_attr_list attrs)"

definition from_attrs :: "fn_attr list \<Rightarrow> string + fn_attrs" where
  "from_attrs attrs =
     bind_result
       (from_attr_list attrs
         \<lparr>ts_cfg = [], ts_doc = [], ts_ctor = None, ts_optional = None, ts_with_removal = None\<rparr>)
       (\<lambda>s. Inr \<lparr>fa_cfg = ts_cfg s, fa_doc = ts_doc s, fa_ctor = ts_ctor s,
          fa_optional = (case ts_optional s of None \<Rightarrow> False | Some b \<Rightarrow> b),
          fa_with_removal = (case ts_with_removal s of None \<Rightarrow> False | Some b \<Rightarrow> b)\<rparr>)"

section \<open>Arguments\<close>

datatype ty =
    TyReference "string option" ty
  | TyImplTrait "bound list"
  | TyOther string
and bound =
    TraitBound bool bool bool "(string \<times> path_arguments) list"
  | OtherBound
and path_arguments =
    AngleBracketed bool "generic_argument list"
  | OtherArguments
and generic_argument =
    GenericType ty
  | OtherGeneric

datatype arg_mode = ByValue ty | CloneArg ty | IntoArg ty

definition IMPL_TRAIT_ERROR :: string where
  "IMPL_TRAIT_ERROR = ''Only `impl Into<T>` is allowed''"

text \<open>A trait bound has a modifier or not, higher-ranked lifetimes or not and a leading \<open>::\<close> or not;
  angle-bracketed arguments a leading \<open>::\<close> or not.\<close>

definition as_into_target :: "bound list \<Rightarrow> string + ty" where
  "as_into_target bounds =
     (if length bounds \<noteq> 1 then Inl IMPL_TRAIT_ERROR
      else case hd bounds of
        OtherBound \<Rightarrow> Inl IMPL_TRAIT_ERROR
      | TraitBound modifier lifetimes leading_colon segments \<Rightarrow>
          if modifier \<or> lifetimes \<or> leading_colon \<or> length segments \<noteq> 1 then Inl IMPL_TRAIT_ERROR
          else case hd segments of (ident, arguments) \<Rightarrow>
            if ident \<noteq> ''Into'' then Inl IMPL_TRAIT_ERROR
            else case arguments of
              OtherArguments \<Rightarrow> Inl IMPL_TRAIT_ERROR
            | AngleBracketed colon2 args \<Rightarrow>
                if colon2 \<or> length args \<noteq> 1 then Inl IMPL_TRAIT_ERROR
                else case hd args of GenericType t \<Rightarrow> Inr t | OtherGeneric \<Rightarrow> Inl IMPL_TRAIT_ERROR)"

fun arg_mode_of :: "ty \<Rightarrow> string + arg_mode" where
  "arg_mode_of (TyReference None elem) = Inr (CloneArg elem)"
| "arg_mode_of (TyImplTrait bounds) = bind_result (as_into_target bounds) (\<lambda>t. Inr (IntoArg t))"
| "arg_mode_of t = Inr (ByValue t)"

text \<open>The attributes of an argument, which go to the field of the label set.\<close>

datatype arg_attr = SerdeAttr string | SerdeAsAttr string | OtherArgAttr

record arg_attrs =
  aa_serde :: "string option"
  aa_serde_as :: "string option"

fun parse_arg_attrs :: "arg_attr list \<Rightarrow> arg_attrs \<Rightarrow> string + arg_attrs" where
  "parse_arg_attrs [] attrs = Inr attrs"
| "parse_arg_attrs (SerdeAttr a # raw_attrs) attrs =
     (if aa_serde attrs \<noteq> None then Inl ''Duplicate `#[serde]` attribute''
      else parse_arg_attrs raw_attrs (attrs\<lparr>aa_serde := Some a\<rparr>))"
| "parse_arg_attrs (SerdeAsAttr a # raw_attrs) attrs =
     (if aa_serde_as attrs \<noteq> None then Inl ''Duplicate `#[serde_as]` attribute''
      else parse_arg_attrs raw_attrs (attrs\<lparr>aa_serde_as := Some a\<rparr>))"
| "parse_arg_attrs (OtherArgAttr # raw_attrs) attrs =
     Inl ''Only `#[serde]` and `#[serde_as]` are allowed on function arguments''"

record fn_arg =
  ar_attrs :: arg_attrs
  ar_ident :: string
  ar_mode :: arg_mode

record item_fn =
  if_attrs :: fn_attrs
  if_ident :: string
  if_args :: "fn_arg list"

definition parse_fn_arg :: "arg_attr list \<Rightarrow> string \<Rightarrow> ty \<Rightarrow> string + fn_arg" where
  "parse_fn_arg raw_attrs ident t =
     bind_result (parse_arg_attrs raw_attrs \<lparr>aa_serde = None, aa_serde_as = None\<rparr>) (\<lambda>attrs.
     bind_result (arg_mode_of t) (\<lambda>mode.
       Inr \<lparr>ar_attrs = attrs, ar_ident = ident, ar_mode = mode\<rparr>))"

fun parse_args :: "(arg_attr list \<times> string \<times> ty) list \<Rightarrow> string + fn_arg list" where
  "parse_args [] = Inr []"
| "parse_args ((raw_attrs, ident, t) # args) =
     bind_result (parse_fn_arg raw_attrs ident t) (\<lambda>arg.
       bind_result (parse_args args) (\<lambda>rest. Inr (arg # rest)))"

text \<open>\<open>ItemFn::parse\<close>, from the attributes, the name and the arguments.\<close>

definition parse_item_fn ::
  "fn_attr list \<Rightarrow> string \<Rightarrow> (arg_attr list \<times> string \<times> ty) list \<Rightarrow> string + item_fn" where
  "parse_item_fn attrs ident args =
     bind_result (from_attrs attrs) (\<lambda>attrs.
     bind_result (parse_args args) (\<lambda>args.
       if fa_with_removal attrs \<and> args = []
       then Inl ''`#[with_removal]` can only be used on functions with arguments''
       else Inr \<lparr>if_attrs = attrs, if_ident = ident, if_args = args\<rparr>))"

section \<open>Histogram buckets\<close>

text \<open>The float literals of an array, if it has nothing else.\<close>

fun float_values :: "expr list \<Rightarrow> string + f64 list option" where
  "float_values [] = Inr (Some [])"
| "float_values (ExprFloat lit # elems) =
     bind_result lit (\<lambda>value. map_sum id (map_option (\<lambda>values. value # values)) (float_values elems))"
| "float_values (_ # elems) = Inr None"

fun check_increasing ::
  "(nat \<Rightarrow> f64 \<Rightarrow> f64 \<Rightarrow> string) \<Rightarrow> nat \<Rightarrow> f64 \<Rightarrow> f64 list \<Rightarrow> string + unit" where
  "check_increasing message i prev_value [] = Inr ()"
| "check_increasing message i prev_value (value # values) =
     (if f64_ge prev_value value then Inl (message i value prev_value)
      else check_increasing message (Suc i) value values)"

definition validate_histogram_buckets ::
  "(nat \<Rightarrow> f64 \<Rightarrow> f64 \<Rightarrow> string) \<Rightarrow> expr_struct \<Rightarrow> string + unit" where
  "validate_histogram_buckets message expr =
     (case find (\<lambda>(m, e). m = Named ''buckets'') (es_fields expr) of
        None \<Rightarrow> Inl ''HistogramBuilder must have a 'buckets' field''
      | Some (_, ExprReference (ExprArray elems)) \<Rightarrow>
          bind_result (float_values elems) (\<lambda>values.
            case values of
              None \<Rightarrow> Inr ()
            | Some [] \<Rightarrow> Inr ()
            | Some (v # vs) \<Rightarrow> check_increasing message 1 v vs)
      | Some _ \<Rightarrow> Inr ())"

section \<open>The generated module\<close>

text \<open>How a field of the metrics struct is made, and what is registered of it.\<close>

datatype metric_new = DefaultNew | ConstructorNew expr_struct | FamilyWithConstructor expr_struct

record metric_code =
  mc_cfg :: "string list"
  mc_labels :: "(string \<times> arg_mode) list"
  mc_new :: metric_new
  mc_full_name :: string
  mc_help :: string
  mc_optional :: bool
  mc_with_service_prefix :: bool
  mc_with_removal :: bool

definition metric_init ::
  "(nat \<Rightarrow> f64 \<Rightarrow> f64 \<Rightarrow> string) \<Rightarrow> string \<Rightarrow> bool \<Rightarrow> item_fn \<Rightarrow> string + metric_code" where
  "metric_init message mod_name with_service_prefix fn =
     (let attrs = if_attrs fn;
          code = \<lparr>mc_cfg = fa_cfg attrs,
            mc_labels = map (\<lambda>a. (ar_ident a, ar_mode a)) (if_args fn),
            mc_new = (case fa_ctor attrs of
                None \<Rightarrow> DefaultNew
              | Some ctor \<Rightarrow> if if_args fn = [] then ConstructorNew ctor else FamilyWithConstructor ctor),
            mc_full_name = mod_name @ ''_'' @ if_ident fn,
            mc_help = trim (fa_doc attrs),
            mc_optional = fa_optional attrs,
            mc_with_service_prefix = with_service_prefix,
            mc_with_removal = fa_with_removal attrs\<rparr>
      in case fa_ctor attrs of
           Some ctor \<Rightarrow>
             if es_path ctor = [''HistogramBuilder'']
             then bind_result (validate_histogram_buckets message ctor) (\<lambda>_. Inr code)
             else Inr code
         | None \<Rightarrow> Inr code)"

text \<open>\<open>expand_from_parsed\<close>: the first compile error, or the fields, of which the compiler keeps those
  with a \<open>cfg\<close> that holds.\<close>

fun metric_inits ::
  "(nat \<Rightarrow> f64 \<Rightarrow> f64 \<Rightarrow> string) \<Rightarrow> string \<Rightarrow> bool \<Rightarrow> item_fn list \<Rightarrow> string + metric_code list" where
  "metric_inits message mod_name with_service_prefix [] = Inr []"
| "metric_inits message mod_name with_service_prefix (fn # fns) =
     bind_result (metric_init message mod_name with_service_prefix fn) (\<lambda>code.
     bind_result (metric_inits message mod_name with_service_prefix fns) (\<lambda>codes. Inr (code # codes)))"

definition expand_from_parsed ::
  "(nat \<Rightarrow> f64 \<Rightarrow> f64 \<Rightarrow> string) \<Rightarrow> (string \<Rightarrow> bool) \<Rightarrow> bool \<Rightarrow> string \<Rightarrow> item_fn list \<Rightarrow> string + metric_code list"
where
  "expand_from_parsed message cfg unprefixed mod_name fns =
     map_sum id (filter (\<lambda>c. \<forall>a\<in>set (mc_cfg c). cfg a)) (metric_inits message mod_name (\<not> unprefixed) fns)"

section \<open>The generated module at run time\<close>

text \<open>A metric is a number no other metric has. A field is a metric or a family of them; what is
  registered is a clone of the field, here its index in the struct, which shares the metrics.
  \<open>mw_static\<close> is the \<open>LazyLock\<close>.\<close>

datatype 'k metric_field = MetricField nat | FamilyField "('k, nat) family"

record 'k module_world =
  mw_static :: "'k metric_field list option"
  mw_registry :: "nat named_metric registry"
  mw_next :: nat

definition register_metric ::
  "string \<Rightarrow> string \<Rightarrow> 'm \<Rightarrow> bool \<Rightarrow> bool \<Rightarrow> 'm named_metric registry \<Rightarrow> 'm named_metric registry" where
  "register_metric full_name help metric optional with_service_prefix reg =
     register reg (BoxedMetric (named_metric_new full_name help metric))
       (set_unprefixed (set_optional registration_metadata_default optional) (\<not> with_service_prefix))"

fun init_fields ::
  "nat \<Rightarrow> metric_code list \<Rightarrow> 'k module_world \<Rightarrow> 'k metric_field list \<times> 'k module_world" where
  "init_fields i [] w = ([], w)"
| "init_fields i (c # codes) w =
     (let (field, w) =
            (if mc_labels c = [] then (MetricField (mw_next w), w\<lparr>mw_next := mw_next w + 1\<rparr>)
             else (FamilyField family_new, w));
          w = w\<lparr>mw_registry := register_metric (mc_full_name c) (mc_help c) i (mc_optional c)
                 (mc_with_service_prefix c) (mw_registry w)\<rparr>
      in case init_fields (Suc i) codes w of (fs, w) \<Rightarrow> (field # fs, w))"

definition force_static :: "metric_code list \<Rightarrow> 'k module_world \<Rightarrow> 'k metric_field list \<times> 'k module_world"
where
  "force_static codes w =
     (case mw_static w of
        Some fs \<Rightarrow> (fs, w)
      | None \<Rightarrow> (case init_fields 0 codes w of (fs, w) \<Rightarrow> (fs, w\<lparr>mw_static := Some fs\<rparr>)))"

text \<open>The functions of the module: the metric of the labels given, and \<open>_remove\<close> and \<open>_clear\<close> where
  they are generated, which takes the unstable features.\<close>

definition metric_fn ::
  "metric_code list \<Rightarrow> nat \<Rightarrow> 'k \<Rightarrow> 'k module_world \<Rightarrow> nat \<times> 'k module_world" where
  "metric_fn codes i labels w =
     (case force_static codes w of (fs, w) \<Rightarrow>
        (case fs ! i of
           MetricField m \<Rightarrow> (m, w)
         | FamilyField fam \<Rightarrow>
             (let (m, fam') = get_or_create (mw_next w) labels fam
              in (m, w\<lparr>mw_static := Some (fs[i := FamilyField fam']), mw_next := mw_next w + 1\<rparr>))))"

definition metric_remove_fn ::
  "metric_code list \<Rightarrow> nat \<Rightarrow> 'k \<Rightarrow> 'k module_world \<Rightarrow> bool \<times> 'k module_world" where
  "metric_remove_fn codes i labels w =
     (case force_static codes w of (fs, w) \<Rightarrow>
        (case fs ! i of
           MetricField m \<Rightarrow> (False, w)
         | FamilyField fam \<Rightarrow>
             (let (r, fam') = family_remove labels fam
              in (r, w\<lparr>mw_static := Some (fs[i := FamilyField fam'])\<rparr>))))"

definition metric_clear_fn :: "metric_code list \<Rightarrow> nat \<Rightarrow> 'k module_world \<Rightarrow> 'k module_world" where
  "metric_clear_fn codes i w =
     (case force_static codes w of (fs, w) \<Rightarrow>
        (case fs ! i of
           MetricField m \<Rightarrow> w
         | FamilyField fam \<Rightarrow> w\<lparr>mw_static := Some (fs[i := FamilyField (family_clear fam)])\<rparr>))"

datatype 'k module_op = CallMetric nat 'k | CallRemove nat 'k | CallClear nat

fun op_generated :: "metric_code list \<Rightarrow> 'k module_op \<Rightarrow> bool" where
  "op_generated codes (CallMetric i k) \<longleftrightarrow> i < length codes"
| "op_generated codes (CallRemove i k) \<longleftrightarrow>
     i < length codes \<and> mc_with_removal (codes ! i) \<and> mc_labels (codes ! i) \<noteq> []"
| "op_generated codes (CallClear i) \<longleftrightarrow>
     i < length codes \<and> mc_with_removal (codes ! i) \<and> mc_labels (codes ! i) \<noteq> []"

fun module_step :: "metric_code list \<Rightarrow> 'k module_op \<Rightarrow> 'k module_world \<Rightarrow> 'k module_world" where
  "module_step codes (CallMetric i k) w = snd (metric_fn codes i k w)"
| "module_step codes (CallRemove i k) w = snd (metric_remove_fn codes i k w)"
| "module_step codes (CallClear i) w = metric_clear_fn codes i w"

definition module_run :: "metric_code list \<Rightarrow> 'k module_op list \<Rightarrow> 'k module_world \<Rightarrow> 'k module_world" where
  "module_run codes ops w = fold (module_step codes) ops w"

section \<open>What is registered\<close>

definition code_entry :: "nat \<Rightarrow> metric_code \<Rightarrow> nat named_metric reg_entry" where
  "code_entry i c =
     \<lparr>re_metadata = \<lparr>md_optional = mc_optional c, md_unprefixed = \<not> mc_with_service_prefix c,
        md_unlabeled = False\<rparr>,
      re_metric = \<lparr>nm_name = mc_full_name c, nm_help = mc_help c, nm_metric = i\<rparr>\<rparr>"

definition code_entries :: "nat \<Rightarrow> metric_code list \<Rightarrow> nat named_metric reg_entry list" where
  "code_entries i codes = map (\<lambda>(j, c). code_entry j c) (enumerate i codes)"

lemma code_entries_Cons [simp]: "code_entries i (c # cs) = code_entry i c # code_entries (Suc i) cs"
  by (simp add: code_entries_def)

lemma code_entries_Nil [simp]: "code_entries i [] = []"
  by (simp add: code_entries_def)

text \<open>What the fields start as, and what \<open>init_fields\<close> does to the registry.\<close>

fun initial_fields :: "nat \<Rightarrow> metric_code list \<Rightarrow> 'k metric_field list" where
  "initial_fields n [] = []"
| "initial_fields n (c # codes) =
     (if mc_labels c = [] then MetricField n # initial_fields (Suc n) codes
      else FamilyField family_new # initial_fields n codes)"

lemma register_metric_entry:
  "registry_get (register_metric (mc_full_name c) (mc_help c) i (mc_optional c) (mc_with_service_prefix c) reg) =
     registry_get reg @ [code_entry i c]"
  by (simp add: register_metric_def registry_get_register code_entry_def named_metric_new_def
      set_unprefixed_def set_optional_def registration_metadata_default_def)

lemma init_fields_result:
  "\<exists>w'. init_fields i codes w = (initial_fields (mw_next w) codes, w') \<and>
     registry_get (mw_registry w') = registry_get (mw_registry w) @ code_entries i codes \<and>
     mw_next w' = mw_next w + length (filter (\<lambda>c. mc_labels c = []) codes)"
proof (induction codes arbitrary: i w)
  case (Cons c codes)
  let ?w = "(if mc_labels c = [] then w\<lparr>mw_next := mw_next w + 1\<rparr> else w)
    \<lparr>mw_registry := register_metric (mc_full_name c) (mc_help c) i (mc_optional c)
       (mc_with_service_prefix c) (mw_registry w)\<rparr>"
  from Cons.IH [of "Suc i" ?w] show ?case
    by (auto simp: Let_def register_metric_entry)
qed simp

lemma length_initial_fields [simp]: "length (initial_fields n codes) = length codes"
  by (induction n codes rule: initial_fields.induct) simp_all

section \<open>Which metric a call returns\<close>

definition field_lookup :: "'k metric_field \<Rightarrow> 'k \<Rightarrow> nat option" where
  "field_lookup f k = (case f of MetricField m \<Rightarrow> Some m | FamilyField fam \<Rightarrow> family_read k fam)"

text \<open>The fields agree with the code, the metrics they hold are below the next number, and none is
  held twice but by the one key of a field without labels.\<close>

definition held :: "'k metric_field list \<Rightarrow> nat \<Rightarrow> 'k \<Rightarrow> nat option" where
  "held fs i k = (if i < length fs then field_lookup (fs ! i) k else None)"

definition fields_ok :: "metric_code list \<Rightarrow> 'k metric_field list \<Rightarrow> nat \<Rightarrow> bool" where
  "fields_ok codes fs n \<longleftrightarrow> length fs = length codes \<and>
     (\<forall>i<length fs. mc_labels (codes ! i) = [] \<longleftrightarrow> (\<exists>m. fs ! i = MetricField m)) \<and>
     (\<forall>i k m. held fs i k = Some m \<longrightarrow> m < n) \<and>
     (\<forall>i k j l m. held fs i k = Some m \<longrightarrow> held fs j l = Some m \<longrightarrow>
        i = j \<and> (mc_labels (codes ! i) = [] \<or> k = l))"

lemma initial_fields_kind:
  "i < length codes \<Longrightarrow>
     mc_labels (codes ! i) = [] \<longleftrightarrow> (\<exists>m. (initial_fields n codes :: 'k metric_field list) ! i = MetricField m)"
  by (induction n codes arbitrary: i rule: initial_fields.induct) (auto simp: nth_Cons split: nat.splits)

lemma initial_fields_held:
  "held (initial_fields n codes) i k = Some m \<Longrightarrow>
     n \<le> m \<and> m < n + length (filter (\<lambda>c. mc_labels c = []) codes) \<and> mc_labels (codes ! i) = []"
  by (induction n codes arbitrary: i rule: initial_fields.induct)
    (fastforce simp: held_def field_lookup_def family_new_def family_read_def nth_Cons
      split: nat.splits if_splits)+

lemma initial_fields_distinct:
  "held (initial_fields n codes) i k = Some m \<Longrightarrow> held (initial_fields n codes) j l = Some m \<Longrightarrow> i = j"
proof (induction n codes arbitrary: i j rule: initial_fields.induct)
  case (2 n c codes)
  show ?case
  proof (cases i; cases j)
    fix i' j' assume "i = Suc i'" "j = Suc j'"
    with 2 show ?thesis by (auto simp: held_def split: if_splits)
  next
    fix j' assume "i = 0" "j = Suc j'"
    with 2 initial_fields_held [of "Suc n" codes j' l m] show ?thesis
      by (auto simp: held_def field_lookup_def family_new_def family_read_def split: if_splits)
  next
    fix i' assume "i = Suc i'" "j = 0"
    with 2 initial_fields_held [of "Suc n" codes i' k m] show ?thesis
      by (auto simp: held_def field_lookup_def family_new_def family_read_def split: if_splits)
  qed simp
qed (simp add: held_def)

lemma initial_fields_ok:
  "fields_ok codes (initial_fields n codes) (n + length (filter (\<lambda>c. mc_labels c = []) codes))"
  unfolding fields_ok_def
proof (intro conjI allI impI)
  let ?fs = "initial_fields n codes :: 'k metric_field list"
  show "length ?fs = length codes" by simp
  show "mc_labels (codes ! i) = [] \<longleftrightarrow> (\<exists>m. ?fs ! i = MetricField m)" if "i < length ?fs" for i
    using that initial_fields_kind [of i codes n] by simp
  show "m < n + length (filter (\<lambda>c. mc_labels c = []) codes)" if "held ?fs i k = Some m" for i k m
    using initial_fields_held [OF that] by simp
  show "i = j" if "held ?fs i k = Some m" "held ?fs j l = Some m" for i k j l m
    using initial_fields_distinct [OF that] .
  show "mc_labels (codes ! i) = [] \<or> k = l" if "held ?fs i k = Some m" "held ?fs j l = Some m" for i k j l m
    using initial_fields_held [OF that(1)] by simp
qed

text \<open>The state of the module, started or not.\<close>

definition static_of :: "metric_code list \<Rightarrow> 'k module_world \<Rightarrow> 'k metric_field list" where
  "static_of codes w =
     (case mw_static w of Some fs \<Rightarrow> fs | None \<Rightarrow> initial_fields (mw_next w) codes)"

definition world_ok :: "metric_code list \<Rightarrow> 'k module_world \<Rightarrow> bool" where
  "world_ok codes w \<longleftrightarrow> (case mw_static w of None \<Rightarrow> True | Some fs \<Rightarrow> fields_ok codes fs (mw_next w))"

lemma force_static_result:
  assumes "world_ok codes w"
  shows "\<exists>w'. force_static codes w = (static_of codes w, w') \<and> mw_static w' = Some (static_of codes w) \<and>
    fields_ok codes (static_of codes w) (mw_next w') \<and>
    registry_get (mw_registry w') =
      registry_get (mw_registry w) @ (if mw_static w = None then code_entries 0 codes else [])"
proof (cases "mw_static w")
  case None
  obtain w' where "init_fields 0 codes w = (initial_fields (mw_next w) codes, w')"
    "registry_get (mw_registry w') = registry_get (mw_registry w) @ code_entries 0 codes"
    "mw_next w' = mw_next w + length (filter (\<lambda>c. mc_labels c = []) codes)"
    using init_fields_result by blast
  with None show ?thesis
    using initial_fields_ok [of codes "mw_next w"] by (simp add: force_static_def static_of_def)
next
  case (Some fs)
  with assms show ?thesis
    by (simp add: force_static_def static_of_def world_ok_def)
qed

lemma held_update:
  "i < length fs \<Longrightarrow>
     held (fs[i := FamilyField fam]) j l = (if j = i then fam l else held fs j l)"
  by (simp add: held_def field_lookup_def family_read_def nth_list_update)

lemma held_family: "i < length fs \<Longrightarrow> fs ! i = FamilyField fam \<Longrightarrow> held fs i k = fam k"
  by (simp add: held_def field_lookup_def family_read_def)

lemma fields_ok_shrink:
  assumes "fields_ok codes fs n" "i < length codes" "fs ! i = FamilyField fam" "\<And>l m. fam' l = Some m \<Longrightarrow> fam l = Some m"
  shows "fields_ok codes (fs[i := FamilyField fam']) n"
proof -
  have len: "i < length fs" using assms(1,2) by (simp add: fields_ok_def)
  have sub: "held (fs[i := FamilyField fam']) j l = Some m \<Longrightarrow> held fs j l = Some m" for j l m
    using assms(3,4) len by (auto simp: held_update held_family split: if_splits)
  have kind: "(\<exists>m. fs[i := FamilyField fam'] ! j = MetricField m) \<longleftrightarrow> (\<exists>m. fs ! j = MetricField m)" for j
    using assms(3) len by (auto simp: nth_list_update)
  show ?thesis
    using assms(1) sub unfolding fields_ok_def kind length_list_update by blast
qed

lemma fields_ok_create:
  assumes "fields_ok codes fs n" "i < length codes" "fs ! i = FamilyField fam" "get_or_create n k fam = (m, fam')"
  shows "fields_ok codes (fs[i := FamilyField fam']) (n + 1) \<and>
    held (fs[i := FamilyField fam']) i k = Some m \<and>
    (\<forall>j l m'. held fs j l = Some m' \<longrightarrow> held (fs[i := FamilyField fam']) j l = Some m')"
proof (cases "fam k")
  case (Some m0)
  then have m: "m = m0" "fs[i := FamilyField fam'] = fs"
    using assms(3,4) by (auto simp: get_or_create_def family_read_def) (metis list_update_id)
  have "i < length fs" using assms(1,2) by (simp add: fields_ok_def)
  with assms(1) Some held_family [OF _ assms(3)] show ?thesis
    unfolding m fields_ok_def by (auto intro: less_SucI)
next
  case None
  have len: "i < length fs" using assms(1,2) by (simp add: fields_ok_def)
  have m: "m = n" "fam' = fam(k \<mapsto> n)"
    using assms(4) None by (auto simp: get_or_create_def family_read_def family_write_def)
  have h: "held (fs[i := FamilyField fam']) j l = (if j = i \<and> l = k then Some n else held fs j l)" for j l
    using len assms(3) by (simp add: held_update held_family m)
  have kind: "(\<exists>m. fs[i := FamilyField fam'] ! j = MetricField m) \<longleftrightarrow> (\<exists>m. fs ! j = MetricField m)" for j
    using assms(3) len by (auto simp: nth_list_update)
  have lt: "held fs j l = Some m' \<Longrightarrow> m' < n" for j l m'
    using assms(1) unfolding fields_ok_def by blast
  have "fields_ok codes (fs[i := FamilyField fam']) (n + 1)"
    using assms(1) unfolding fields_ok_def kind length_list_update h
    by (auto split: if_splits dest: lt)
  moreover have "held fs i k = None"
    using None len assms(3) by (simp add: held_family)
  ultimately show ?thesis
    by (auto simp: h m(1))
qed

text \<open>One call: the registration happens in the first, and every metric that is handed out stays in
  place until it is removed.\<close>

fun removes :: "nat \<Rightarrow> 'k \<Rightarrow> 'k module_op \<Rightarrow> bool" where
  "removes i k (CallMetric j l) \<longleftrightarrow> False"
| "removes i k (CallRemove j l) \<longleftrightarrow> j = i \<and> l = k"
| "removes i k (CallClear j) \<longleftrightarrow> j = i"

definition handle :: "metric_code list \<Rightarrow> 'k module_world \<Rightarrow> nat \<Rightarrow> 'k \<Rightarrow> nat option" where
  "handle codes w i k = held (static_of codes w) i k"

lemma metric_fn_result:
  assumes "world_ok codes w" "i < length codes" "metric_fn codes i k w = (m, w')"
  shows "world_ok codes w' \<and> mw_static w' \<noteq> None \<and> handle codes w' i k = Some m \<and>
    (\<forall>j l m'. handle codes w j l = Some m' \<longrightarrow> handle codes w' j l = Some m') \<and>
    registry_get (mw_registry w') =
      registry_get (mw_registry w) @ (if mw_static w = None then code_entries 0 codes else [])"
proof -
  let ?fs = "static_of codes w"
  obtain w1 where f: "force_static codes w = (?fs, w1)" "mw_static w1 = Some ?fs"
    "fields_ok codes ?fs (mw_next w1)"
    "registry_get (mw_registry w1) =
      registry_get (mw_registry w) @ (if mw_static w = None then code_entries 0 codes else [])"
    using force_static_result [OF assms(1)] by blast
  have len: "i < length ?fs" using f(3) assms(2) by (simp add: fields_ok_def)
  show ?thesis
  proof (cases "?fs ! i")
    case (MetricField m0)
    with assms(3) f len show ?thesis
      by (auto simp: metric_fn_def world_ok_def handle_def static_of_def held_def field_lookup_def)
  next
    case (FamilyField fam)
    obtain fam' where g: "get_or_create (mw_next w1) k fam = (m, fam')"
      "w' = w1\<lparr>mw_static := Some (?fs[i := FamilyField fam']), mw_next := mw_next w1 + 1\<rparr>"
      using assms(3) f(1) FamilyField by (auto simp: metric_fn_def split: prod.splits)
    have s: "static_of codes w' = ?fs[i := FamilyField fam']"
      unfolding g(2) static_of_def by simp
    from fields_ok_create [OF f(3) assms(2) FamilyField g(1)] show ?thesis
      unfolding handle_def s using g(2) f(4) by (simp add: world_ok_def)
  qed
qed

lemma module_step_result:
  assumes "world_ok codes w" "op_generated codes op"
  shows "world_ok codes (module_step codes op w) \<and> mw_static (module_step codes op w) \<noteq> None \<and>
    (\<forall>i k m. handle codes w i k = Some m \<longrightarrow> \<not> removes i k op \<longrightarrow> handle codes (module_step codes op w) i k = Some m) \<and>
    registry_get (mw_registry (module_step codes op w)) =
      registry_get (mw_registry w) @ (if mw_static w = None then code_entries 0 codes else [])"
proof -
  let ?fs = "static_of codes w"
  obtain w1 where f: "force_static codes w = (?fs, w1)" "mw_static w1 = Some ?fs"
    "fields_ok codes ?fs (mw_next w1)"
    "registry_get (mw_registry w1) =
      registry_get (mw_registry w) @ (if mw_static w = None then code_entries 0 codes else [])"
    using force_static_result [OF assms(1)] by blast
  have shrunk: ?thesis
    if i: "i < length codes" "?fs ! i = FamilyField fam" "\<And>l m. fam' l = Some m \<Longrightarrow> fam l = Some m"
      and w': "module_step codes op w = w1\<lparr>mw_static := Some (?fs[i := FamilyField fam'])\<rparr>"
      and kept: "\<And>l m. fam l = Some m \<Longrightarrow> \<not> removes i l op \<Longrightarrow> fam' l = Some m" for i fam fam'
  proof -
    have len: "i < length ?fs" using f(3) i(1) by (simp add: fields_ok_def)
    have s: "static_of codes (module_step codes op w) = ?fs[i := FamilyField fam']"
      unfolding w' static_of_def by simp
    have "held (?fs[i := FamilyField fam']) j l = Some m"
      if "held ?fs j l = Some m" "\<not> removes j l op" for j l m
      using that kept i(2) len by (auto simp: held_update held_family)
    with fields_ok_shrink [OF f(3) i] show ?thesis
      unfolding handle_def s using f(4) by (simp add: w' world_ok_def)
  qed
  show ?thesis
  proof (cases op)
    case (CallMetric i k)
    then show ?thesis
      using metric_fn_result [OF assms(1), of i k] assms(2) by (cases "metric_fn codes i k w") auto
  next
    case (CallRemove i k)
    then have i: "i < length codes" "mc_labels (codes ! i) \<noteq> []" using assms(2) by simp_all
    then obtain fam where fam: "?fs ! i = FamilyField fam"
      using f(3) unfolding fields_ok_def by (cases "?fs ! i") auto
    show ?thesis
      by (rule shrunk [OF i(1) fam, of "snd (family_remove k fam)"])
        (auto simp: CallRemove metric_remove_fn_def f(1) fam family_remove_def split: if_splits)
  next
    case (CallClear i)
    then have i: "i < length codes" "mc_labels (codes ! i) \<noteq> []" using assms(2) by simp_all
    then obtain fam where fam: "?fs ! i = FamilyField fam"
      using f(3) unfolding fields_ok_def by (cases "?fs ! i") auto
    show ?thesis
      by (rule shrunk [OF i(1) fam, of "family_clear fam"])
        (auto simp: CallClear metric_clear_fn_def f(1) fam family_clear_def)
  qed
qed

lemma module_run_result:
  assumes "world_ok codes w" "\<forall>op\<in>set ops. op_generated codes op"
  shows "world_ok codes (module_run codes ops w) \<and>
    (\<forall>i k m. handle codes w i k = Some m \<longrightarrow> (\<forall>op\<in>set ops. \<not> removes i k op) \<longrightarrow>
       handle codes (module_run codes ops w) i k = Some m) \<and>
    (mw_static (module_run codes ops w) = None \<longleftrightarrow> mw_static w = None \<and> ops = []) \<and>
    registry_get (mw_registry (module_run codes ops w)) =
      registry_get (mw_registry w) @ (if mw_static w = None \<and> ops \<noteq> [] then code_entries 0 codes else [])"
  using assms
proof (induction ops arbitrary: w)
  case (Cons op ops)
  let ?w = "module_step codes op w"
  have s: "world_ok codes ?w" "mw_static ?w \<noteq> None"
    "\<forall>i k m. handle codes w i k = Some m \<longrightarrow> \<not> removes i k op \<longrightarrow> handle codes ?w i k = Some m"
    "registry_get (mw_registry ?w) =
      registry_get (mw_registry w) @ (if mw_static w = None then code_entries 0 codes else [])"
    using module_step_result [OF Cons.prems(1), of op] Cons.prems(2) by simp_all
  from Cons.IH [OF s(1)] s Cons.prems(2) show ?case
    by (simp add: module_run_def)
qed (simp add: module_run_def)

section \<open>Properties of the module\<close>

definition declared_entry :: "string \<Rightarrow> bool \<Rightarrow> nat \<Rightarrow> item_fn \<Rightarrow> nat named_metric reg_entry" where
  "declared_entry mod_name unprefixed i f =
     \<lparr>re_metadata = \<lparr>md_optional = fa_optional (if_attrs f), md_unprefixed = unprefixed, md_unlabeled = False\<rparr>,
      re_metric = \<lparr>nm_name = mod_name @ ''_'' @ if_ident f, nm_help = trim (fa_doc (if_attrs f)), nm_metric = i\<rparr>\<rparr>"

lemma metric_init_code:
  assumes "metric_init message mod_name with_service_prefix f = Inr c"
  shows "mc_cfg c = fa_cfg (if_attrs f)" "code_entry i c = declared_entry mod_name (\<not> with_service_prefix) i f"
  using assms by (auto simp: metric_init_def Let_def code_entry_def declared_entry_def bind_result_def
      split: option.splits if_splits sum.splits)

lemma metric_inits_codes:
  "metric_inits message mod_name with_service_prefix fns = Inr codes \<Longrightarrow>
     code_entries i (filter (\<lambda>c. \<forall>a\<in>set (mc_cfg c). cfg a) codes) =
       map (\<lambda>(j, f). declared_entry mod_name (\<not> with_service_prefix) j f)
         (enumerate i (filter (\<lambda>f. \<forall>a\<in>set (fa_cfg (if_attrs f)). cfg a) fns))"
  by (induction fns arbitrary: codes i)
    (auto simp: bind_result_def metric_init_code split: sum.splits)

lemma module_registry:
  assumes "expand_from_parsed message cfg unprefixed mod_name fns = Inr codes"
    and "mw_static w = None" and "\<forall>op\<in>set ops. op_generated codes op"
  shows "registry_get (mw_registry (module_run codes ops w)) =
    registry_get (mw_registry w) @
      (if ops = [] then []
       else map (\<lambda>(i, f). declared_entry mod_name unprefixed i f)
         (enumerate 0 (filter (\<lambda>f. \<forall>a\<in>set (fa_cfg (if_attrs f)). cfg a) fns)))"
proof -
  obtain cs where m: "metric_inits message mod_name (\<not> unprefixed) fns = Inr cs"
    and c: "codes = filter (\<lambda>c. \<forall>a\<in>set (mc_cfg c). cfg a) cs"
    using assms(1) by (cases "metric_inits message mod_name (\<not> unprefixed) fns") (auto simp: expand_from_parsed_def)
  have "world_ok codes w" using assms(2) by (simp add: world_ok_def)
  from module_run_result [OF this assms(3)] assms(2) show ?thesis
    unfolding c using metric_inits_codes [OF m, of 0 cfg] by simp
qed

text \<open>C29: the first call of any function of a module registers every metric of the module that is not
  disabled by a \<open>cfg\<close>, in the order of their declarations and under the name of the module, an
  underscore and the name of the function, with the trimmed documentation, whether it is optional,
  and without the service prefix if the module is declared so; later calls register nothing, and
  without a call nothing is registered.\<close>

theorem metrics_module_registers_once:
  assumes "expand_from_parsed message cfg unprefixed mod_name fns = Inr codes"
    and "mw_static w = None" and "\<forall>op\<in>set ops. op_generated codes op"
  shows "registry_get (mw_registry (module_run codes ops w)) =
    registry_get (mw_registry w) @
      (if ops = [] then []
       else map (\<lambda>(i, f). declared_entry mod_name unprefixed i f)
         (enumerate 0 (filter (\<lambda>f. \<forall>a\<in>set (fa_cfg (if_attrs f)). cfg a) fns)))"
  by (rule module_registry [OF assms])

text \<open>two calls return the same metric exactly if they are calls of the same function with the same
  labels, whatever else is called in between, unless that removes the metric.\<close>

theorem one_metric_per_label_set:
  assumes "mw_static w = None" and "\<forall>op\<in>set ops. op_generated codes op"
    and "i < length codes" "j < length codes"
    and "metric_fn codes i k (module_run codes ops w) = (m, w1)"
    and "\<forall>op\<in>set ops'. op_generated codes op \<and> \<not> removes i k op"
    and "metric_fn codes j l (module_run codes ops' w1) = (m', w2)"
  shows "m' = m \<longleftrightarrow> i = j \<and> (mc_labels (codes ! i) = [] \<or> k = l)"
proof -
  have "world_ok codes w" using assms(1) by (simp add: world_ok_def)
  then have "world_ok codes (module_run codes ops w)"
    using module_run_result assms(2) by blast
  from metric_fn_result [OF this assms(3,5)] have w1: "world_ok codes w1" "handle codes w1 i k = Some m"
    by simp_all
  let ?w = "module_run codes ops' w1"
  from module_run_result [OF w1(1), of ops'] assms(6) w1(2)
  have w: "world_ok codes ?w" "handle codes ?w i k = Some m" by blast+
  from metric_fn_result [OF w(1) assms(4,7)] w(2)
  have w2: "world_ok codes w2" "mw_static w2 \<noteq> None" "handle codes w2 j l = Some m'" "handle codes w2 i k = Some m"
    by blast+
  then have ok: "fields_ok codes (static_of codes w2) (mw_next w2)"
    by (auto simp: world_ok_def static_of_def)
  show ?thesis
  proof
    assume "m' = m"
    with ok w2 show "i = j \<and> (mc_labels (codes ! i) = [] \<or> k = l)"
      unfolding fields_ok_def handle_def by blast
  next
    assume a: "i = j \<and> (mc_labels (codes ! i) = [] \<or> k = l)"
    have "i < length (static_of codes w2)"
      using ok assms(3) by (simp add: fields_ok_def)
    with a ok w2(3,4) show "m' = m"
      by (auto simp: fields_ok_def handle_def held_def field_lookup_def)
  qed
qed

text \<open>A module with a plain metric, one that is left out and an optional one with a label.\<close>

definition sample_attrs :: fn_attrs where
  "sample_attrs = \<lparr>fa_cfg = [], fa_doc = '' Help '', fa_ctor = None, fa_optional = False, fa_with_removal = False\<rparr>"

definition sample_fns :: "item_fn list" where
  "sample_fns =
     [\<lparr>if_attrs = sample_attrs, if_ident = ''hits'', if_args = []\<rparr>,
      \<lparr>if_attrs = sample_attrs\<lparr>fa_cfg := [''test'']\<rparr>, if_ident = ''left_out'', if_args = []\<rparr>,
      \<lparr>if_attrs = sample_attrs\<lparr>fa_optional := True, fa_with_removal := True\<rparr>, if_ident = ''errors'',
       if_args = [\<lparr>ar_attrs = \<lparr>aa_serde = None, aa_serde_as = None\<rparr>, ar_ident = ''kind'', ar_mode = ByValue (TyOther ''Kind'')\<rparr>]\<rparr>]"

definition sample_codes :: "metric_code list" where
  "sample_codes =
     (case expand_from_parsed (\<lambda>i v p. []) (\<lambda>a. False) False ''cache'' sample_fns of Inl e \<Rightarrow> [] | Inr cs \<Rightarrow> cs)"

definition sample_world :: "bool module_world" where
  "sample_world = \<lparr>mw_static = None, mw_registry = None, mw_next = 0\<rparr>"

lemma sample_expanded:
  "expand_from_parsed (\<lambda>i v p. []) (\<lambda>a. False) False ''cache'' sample_fns = Inr sample_codes"
  by (simp add: sample_codes_def expand_from_parsed_def sample_fns_def sample_attrs_def metric_init_def Let_def)

lemma sample_length: "length sample_codes = 2"
  by (simp add: sample_codes_def expand_from_parsed_def sample_fns_def sample_attrs_def metric_init_def Let_def)

theorem metrics_module_registers_once_witness:
  "map (\<lambda>e. (nm_name (re_metric e), nm_help (re_metric e), md_optional (re_metadata e), md_unprefixed (re_metadata e)))
     (registry_get (mw_registry (module_run sample_codes [CallMetric 1 True, CallMetric 0 True] sample_world))) =
   [(''cache_hits'', ''Help'', False, False), (''cache_errors'', ''Help'', True, False)]"
proof -
  have "trim '' Help '' = ''Help''" by code_simp
  then show ?thesis
    using metrics_module_registers_once [OF sample_expanded, of sample_world "[CallMetric 1 True, CallMetric 0 True]"]
    by (simp add: sample_world_def sample_length registry_get_def sample_fns_def sample_attrs_def
        declared_entry_def)
qed

theorem one_metric_per_label_set_witness:
  "let (m, w1) = metric_fn sample_codes 1 True (module_run sample_codes [CallMetric 0 True] sample_world);
       (m', w2) = metric_fn sample_codes 1 True (module_run sample_codes [CallRemove 1 False] w1)
   in m' = m"
proof -
  obtain m w1 where a: "metric_fn sample_codes 1 True (module_run sample_codes [CallMetric 0 True] sample_world) = (m, w1)"
    by fastforce
  obtain m' w2 where b: "metric_fn sample_codes 1 True (module_run sample_codes [CallRemove 1 False] w1) = (m', w2)"
    by fastforce
  have r: "mc_with_removal (sample_codes ! Suc 0)" "mc_labels (sample_codes ! Suc 0) \<noteq> []"
    by (simp_all add: sample_codes_def expand_from_parsed_def sample_fns_def sample_attrs_def metric_init_def Let_def)
  from one_metric_per_label_set [OF _ _ _ _ a _ b] have "m' = m"
    by (simp add: sample_world_def sample_length r)
  with a b show ?thesis by simp
qed

section \<open>Properties of the buckets\<close>

lemma float_values_literals: "float_values (map (\<lambda>b. ExprFloat (Inr b)) bs) = Inr (Some bs)"
  by (induction bs) simp_all

lemma f64_lt_trans: "f64_lt x y \<Longrightarrow> f64_lt y z \<Longrightarrow> f64_lt x z"
  by (auto simp: f64_lt_def)

lemma check_increasing_iff:
  "\<forall>v\<in>set (p # vs). \<not> is_nan v \<Longrightarrow>
     check_increasing message i p vs = Inr () \<longleftrightarrow> sorted_wrt f64_lt (p # vs)"
proof (induction vs arbitrary: i p)
  case (Cons v vs)
  have "transp f64_lt" by (auto simp: transp_def intro: f64_lt_trans)
  moreover have "\<not> f64_ge p v \<longleftrightarrow> f64_lt p v"
    using Cons.prems by (auto simp: f64_ge_def f64_lt_def)
  ultimately show ?case
    using Cons.IH [of v "Suc i"] Cons.prems by (auto simp: sorted_wrt2 simp del: sorted_wrt.simps)
qed simp

lemma increasing_sorted: "sorted_wrt f64_lt bs \<Longrightarrow> sorted bs"
proof (erule sorted_wrt_mono_rel [rotated])
  fix x y :: f64 assume "f64_lt x y"
  then show "x \<le> y" using total_le_not_lt [of y x] by (meson linorder_le_cases)
qed

text \<open>a histogram declared with bucket bounds that are literals compiles exactly if they are strictly
  increasing; if they are also less than the largest double, the histogram that is made at run time
  has exactly these buckets in this order, and the one that is always added after them.\<close>

theorem increasing_buckets_kept:
  assumes "fa_ctor (if_attrs f) = Some \<lparr>es_path = [''HistogramBuilder''],
      es_fields = [(Named ''buckets'', ExprReference (ExprArray (map (\<lambda>b. ExprFloat (Inr b)) bs)))]\<rparr>"
    and "\<forall>b\<in>set bs. \<not> is_nan b"
  shows "((\<exists>code. metric_init message mod_name p f = Inr code) \<longleftrightarrow> sorted_wrt f64_lt bs) \<and>
    (sorted_wrt f64_lt bs \<and> (\<forall>b\<in>set bs. f64_lt b f64_max) \<longrightarrow>
      bounds_of (hs_buckets (builder_new_metric \<lparr>hb_buckets = bs\<rparr>)) = bs @ [f64_max])"
proof (intro conjI impI)
  have "(\<exists>code. metric_init message mod_name p f = Inr code) \<longleftrightarrow>
      (case bs of [] \<Rightarrow> Inr () | v # vs \<Rightarrow> check_increasing message 1 v vs) = Inr ()"
    by (auto simp: metric_init_def assms(1) Let_def validate_histogram_buckets_def float_values_literals
        bind_result_def split: list.splits sum.splits)
  also have "\<dots> \<longleftrightarrow> sorted_wrt f64_lt bs"
  proof (cases bs)
    case (Cons v vs)
    with assms(2) check_increasing_iff [of v vs message 1] show ?thesis by simp
  qed simp
  finally show "(\<exists>code. metric_init message mod_name p f = Inr code) \<longleftrightarrow> sorted_wrt f64_lt bs" .
next
  assume a: "sorted_wrt f64_lt bs \<and> (\<forall>b\<in>set bs. f64_lt b f64_max)"
  then have "sorted_wrt f64_lt (bs @ [f64_max])"
    by (simp add: sorted_wrt_append)
  then have "sort (bs @ [f64_max]) = bs @ [f64_max]"
    using increasing_sorted by (simp add: sorted_sort_id)
  then show "bounds_of (hs_buckets (builder_new_metric \<lparr>hb_buckets = bs\<rparr>)) = bs @ [f64_max]"
    by (simp add: builder_new_metric_def new_bounds)
qed

theorem increasing_buckets_kept_witness:
  "bounds_of (hs_buckets (builder_new_metric \<lparr>hb_buckets = [f64_zero, f64_one]\<rparr>)) = [f64_zero, f64_one, f64_max]"
proof -
  let ?f = "\<lparr>if_attrs = sample_attrs\<lparr>fa_ctor := Some \<lparr>es_path = [''HistogramBuilder''],
      es_fields = [(Named ''buckets'', ExprReference (ExprArray (map (\<lambda>b. ExprFloat (Inr b)) [f64_zero, f64_one])))]\<rparr>\<rparr>,
    if_ident = ''sizes'', if_args = []\<rparr>"
  have "sorted_wrt f64_lt [f64_zero, f64_one]" "\<forall>b\<in>set [f64_zero, f64_one]. f64_lt b f64_max"
    by (simp_all add: f64_lt_def f64_ord_def)
  then show ?thesis
    using increasing_buckets_kept [of ?f "[f64_zero, f64_one]"] by simp
qed

section \<open>Which attributes are accepted\<close>

fun attr_allowed :: "fn_attr \<Rightarrow> bool" where
  "attr_allowed (DocAttr (Inl e)) \<longleftrightarrow> False"
| "attr_allowed (CtorAttr (Inl e)) \<longleftrightarrow> False"
| "attr_allowed (WithRemovalAttr (Inl e)) \<longleftrightarrow> False"
| "attr_allowed OtherAttr \<longleftrightarrow> False"
| "attr_allowed a \<longleftrightarrow> True"

fun ctors_of :: "fn_attr list \<Rightarrow> expr_struct list" where
  "ctors_of [] = []"
| "ctors_of (CtorAttr (Inr c) # attrs) = c # ctors_of attrs"
| "ctors_of (_ # attrs) = ctors_of attrs"

fun docs_of :: "fn_attr list \<Rightarrow> string list" where
  "docs_of [] = []"
| "docs_of (DocAttr (Inr d) # attrs) = d # docs_of attrs"
| "docs_of (_ # attrs) = docs_of attrs"

fun optionals_of :: "fn_attr list \<Rightarrow> bool list" where
  "optionals_of [] = []"
| "optionals_of (OptionalAttr b # attrs) = (case b of Inl _ \<Rightarrow> True | Inr b \<Rightarrow> b) # optionals_of attrs"
| "optionals_of (_ # attrs) = optionals_of attrs"

fun removals_of :: "fn_attr list \<Rightarrow> bool list" where
  "removals_of [] = []"
| "removals_of (WithRemovalAttr (Inr b) # attrs) = b # removals_of attrs"
| "removals_of (_ # attrs) = removals_of attrs"

fun cfgs_of :: "fn_attr list \<Rightarrow> string list" where
  "cfgs_of [] = []"
| "cfgs_of (CfgAttr c # attrs) = c # cfgs_of attrs"
| "cfgs_of (_ # attrs) = cfgs_of attrs"

definition present :: "'a option \<Rightarrow> nat" where
  "present x = (case x of None \<Rightarrow> 0 | Some _ \<Rightarrow> 1)"

lemma present_simps [simp]: "present None = 0" "present (Some x) = 1"
  by (simp_all add: present_def)

definition or_first :: "'a list \<Rightarrow> 'a option \<Rightarrow> 'a option" where
  "or_first xs d = (case xs of [] \<Rightarrow> d | x # _ \<Rightarrow> Some x)"

lemma or_first_simps [simp]: "or_first [] d = d" "or_first (x # xs) d = Some x"
  by (simp_all add: or_first_def)

lemma from_attr_list_result:
  "from_attr_list attrs s = Inr s' \<longleftrightarrow>
     (\<forall>a\<in>set attrs. attr_allowed a) \<and>
     length (ctors_of attrs) + present (ts_ctor s) \<le> 1 \<and>
     length (optionals_of attrs) + present (ts_optional s) \<le> 1 \<and>
     length (removals_of attrs) + present (ts_with_removal s) \<le> 1 \<and>
     s' = s\<lparr>ts_cfg := ts_cfg s @ cfgs_of attrs, ts_doc := ts_doc s @ concat (docs_of attrs),
       ts_ctor := or_first (ctors_of attrs) (ts_ctor s),
       ts_optional := or_first (optionals_of attrs) (ts_optional s),
       ts_with_removal := or_first (removals_of attrs) (ts_with_removal s)\<rparr>"
proof (induction attrs arbitrary: s)
  case Nil
  have "present x \<le> 1" for x :: "'a option" by (cases x) simp_all
  then show ?case by (auto simp: present_def split: option.split)
next
  case (Cons a attrs)
  show ?case
  proof (cases a)
    case (CfgAttr c)
    then show ?thesis by (simp add: Cons.IH)
  next
    case (DocAttr d)
    then show ?thesis by (cases d) (simp_all add: Cons.IH)
  next
    case (CtorAttr c)
    then show ?thesis
      by (cases c; cases "ts_ctor s") (auto simp: Cons.IH or_first_def split: list.splits)
  next
    case (OptionalAttr b)
    then show ?thesis
      by (cases "ts_optional s") (auto simp: Cons.IH or_first_def split: list.splits)
  next
    case (WithRemovalAttr b)
    then show ?thesis
      by (cases b; cases "ts_with_removal s") (auto simp: Cons.IH or_first_def split: list.splits)
  qed simp
qed

text \<open>The attributes of a function are accepted exactly if there are none but those of the five kinds,
  each with a value that parses, and at most one of each of the last three; what is taken from
  them does not depend on their order except in the documentation.\<close>

lemma from_attrs_accepted:
  "from_attrs attrs = Inr fa \<longleftrightarrow>
     (\<forall>a\<in>set attrs. attr_allowed a) \<and> length (ctors_of attrs) \<le> 1 \<and>
     length (optionals_of attrs) \<le> 1 \<and> length (removals_of attrs) \<le> 1 \<and>
     fa = \<lparr>fa_cfg = cfgs_of attrs, fa_doc = concat (docs_of attrs), fa_ctor = or_first (ctors_of attrs) None,
       fa_optional = (True \<in> set (optionals_of attrs)), fa_with_removal = (True \<in> set (removals_of attrs))\<rparr>"
proof -
  let ?s = "\<lparr>ts_cfg = [], ts_doc = [], ts_ctor = None, ts_optional = None, ts_with_removal = None\<rparr>"
  have one: "length xs \<le> 1 \<Longrightarrow> (case or_first xs None of None \<Rightarrow> False | Some b \<Rightarrow> b) = (True \<in> set xs)" for xs
    by (cases xs) auto
  show ?thesis
  proof (cases "from_attr_list attrs ?s")
    case (Inl e)
    then have "\<nexists>s'. from_attr_list attrs ?s = Inr s'" by simp
    with Inl show ?thesis
      unfolding from_attr_list_result by (auto simp: from_attrs_def)
  next
    case (Inr s')
    then show ?thesis
      using from_attr_list_result [of attrs ?s s'] by (auto simp: from_attrs_def one)
  qed
qed

end
