(* ===== verification/InfoMacro.thy ===== *)
theory InfoMacro
  imports Infos SettingsYaml
begin

text \<open>
  The macro \<open>#[info_metric]\<close>, \<open>foundations-macros/src/info_metric/\<close>: the attributes it accepts on a
  structure and its fields, and the implementation of \<open>InfoMetric\<close> that it generates, as the value that
  \<open>report_info\<close> gets. The syntax tree comes from \<open>syn\<close>. Identifiers are ASCII: of other characters
  \<open>char::is_uppercase\<close> may hold too, and the model does not have it. The lemmas show that the name that
  is made of a structure's name determines it, and what is exposed of the values that are reported.
\<close>

section \<open>Attributes\<close>

text \<open>An attribute by its path; \<open>doc\<close> with its parsed value.\<close>

datatype struct_attr = StructCfg string | StructDoc "string + string" | StructOther string

datatype field_attr = FieldSerde string | FieldSerdeAs string | FieldOther string

record struct_attrs =
  sa_cfg :: "string list"
  sa_doc :: string

record field_attrs =
  fda_serde :: "string option"
  fda_serde_as :: "string option"

fun parse_struct_attrs_from :: "struct_attr list \<Rightarrow> struct_attrs \<Rightarrow> string + struct_attrs" where
  "parse_struct_attrs_from [] s = Inr s"
| "parse_struct_attrs_from (StructCfg attr # attrs) s =
     parse_struct_attrs_from attrs (s\<lparr>sa_cfg := sa_cfg s @ [attr]\<rparr>)"
| "parse_struct_attrs_from (StructDoc d # attrs) s =
     bind_result d (\<lambda>d. parse_struct_attrs_from attrs (s\<lparr>sa_doc := sa_doc s @ d\<rparr>))"
| "parse_struct_attrs_from (StructOther p # attrs) s = Inl ''Only `#[cfg]` and `#[doc]` are allowed on structs''"

definition parse_struct_attrs :: "struct_attr list \<Rightarrow> string + struct_attrs" where
  "parse_struct_attrs attrs = parse_struct_attrs_from attrs \<lparr>sa_cfg = [], sa_doc = []\<rparr>"

fun parse_field_attrs_from :: "field_attr list \<Rightarrow> field_attrs \<Rightarrow> string + field_attrs" where
  "parse_field_attrs_from [] s = Inr s"
| "parse_field_attrs_from (FieldSerde attr # attrs) s =
     (if fda_serde s \<noteq> None then Inl ''Duplicate `#[serde]` attribute''
      else parse_field_attrs_from attrs (s\<lparr>fda_serde := Some attr\<rparr>))"
| "parse_field_attrs_from (FieldSerdeAs attr # attrs) s =
     (if fda_serde_as s \<noteq> None then Inl ''Duplicate `#[serde_as]` attribute''
      else parse_field_attrs_from attrs (s\<lparr>fda_serde_as := Some attr\<rparr>))"
| "parse_field_attrs_from (FieldOther p # attrs) s =
     Inl ''Only `#[serde]` and `#[serde_as]` are allowed on struct fields''"

definition parse_field_attrs :: "field_attr list \<Rightarrow> string + field_attrs" where
  "parse_field_attrs attrs = parse_field_attrs_from attrs \<lparr>fda_serde = None, fda_serde_as = None\<rparr>"

section \<open>Structures\<close>

text \<open>The name and type of a field and the visibility of both are repeated as they are.\<close>

record 'r info_field =
  inf_attrs :: field_attrs
  inf_rest :: 'r

record 'r info_struct =
  ins_attrs :: struct_attrs
  ins_ident :: string
  ins_fields :: "'r info_field list"

fun parse_fields :: "(field_attr list \<times> 'r) list \<Rightarrow> string + 'r info_field list" where
  "parse_fields [] = Inr []"
| "parse_fields ((attrs, rest) # fs) =
     bind_result (parse_field_attrs attrs) (\<lambda>a.
       bind_result (parse_fields fs) (\<lambda>fs. Inr (\<lparr>inf_attrs = a, inf_rest = rest\<rparr> # fs)))"

definition parse_struct ::
  "struct_attr list \<Rightarrow> string \<Rightarrow> (field_attr list \<times> 'r) list \<Rightarrow> string + 'r info_struct" where
  "parse_struct attrs ident fs =
     bind_result (parse_struct_attrs attrs) (\<lambda>a.
       bind_result (parse_fields fs) (\<lambda>fs.
         Inr \<lparr>ins_attrs = a, ins_ident = ident, ins_fields = fs\<rparr>))"

section \<open>Expansion\<close>

text \<open>\<open>char::is_uppercase\<close> on ASCII characters.\<close>

definition is_uppercase :: "char \<Rightarrow> bool" where
  "is_uppercase ch \<longleftrightarrow> 65 \<le> (of_char ch :: nat) \<and> (of_char ch :: nat) \<le> 90"

definition to_ascii_lowercase :: "char \<Rightarrow> char" where
  "to_ascii_lowercase ch = (if is_uppercase ch then char_of (of_char ch + (32 :: nat)) else ch)"

definition to_snake_case :: "string \<Rightarrow> string" where
  "to_snake_case input =
     concat (map (\<lambda>(i, ch). (if 0 < i \<and> is_uppercase ch then ''_'' else []) @ [to_ascii_lowercase ch])
       (enumerate 0 input))"

record info_macro_args =
  ima_crate_path :: "string list"
  ima_name :: "string option"

definition info_macro_args_default :: info_macro_args where
  "info_macro_args_default = \<lparr>ima_crate_path = [''foundations''], ima_name = None\<rparr>"

text \<open>The generated structure, whether it is marked with \<open>serde_as\<close>, and the two constants.\<close>

record 'r info_expansion =
  iex_cfg :: "string list"
  iex_doc :: string
  iex_serde_as :: bool
  iex_ident :: string
  iex_fields :: "'r info_field list"
  iex_NAME :: string
  iex_HELP :: string

definition expand_info_metric :: "info_macro_args \<Rightarrow> 'r info_struct \<Rightarrow> 'r info_expansion" where
  "expand_info_metric args struct =
     \<lparr>iex_cfg = sa_cfg (ins_attrs struct),
      iex_doc = sa_doc (ins_attrs struct),
      iex_serde_as = (\<exists>f\<in>set (ins_fields struct). fda_serde_as (inf_attrs f) \<noteq> None),
      iex_ident = ins_ident struct,
      iex_fields = ins_fields struct,
      iex_NAME = (case ima_name args of Some name \<Rightarrow> name | None \<Rightarrow> to_snake_case (ins_ident struct)),
      iex_HELP = trim (sa_doc (ins_attrs struct))\<rparr>"

text \<open>A value of the structure as \<open>report_info\<close> gets it; its \<open>TypeId\<close> is a parameter.\<close>

definition info_value :: "'k \<Rightarrow> 'r info_expansion \<Rightarrow> sval \<Rightarrow> 'k info_metric" where
  "info_value ty ex v = \<lparr>im_type = ty, im_NAME = iex_NAME ex, im_HELP = iex_HELP ex, im_value = v\<rparr>"

section \<open>Names\<close>

text \<open>The way back: a letter after an underscore, and the first, is a capital.\<close>

definition to_ascii_uppercase :: "char \<Rightarrow> char" where
  "to_ascii_uppercase ch =
     (if 97 \<le> (of_char ch :: nat) \<and> (of_char ch :: nat) \<le> 122 then char_of (of_char ch - (32 :: nat)) else ch)"

fun to_camel :: "string \<Rightarrow> string" where
  "to_camel [] = []"
| "to_camel [ch] = [ch]"
| "to_camel (ch # ch' # s) =
     (if ch = CHR ''_'' then to_ascii_uppercase ch' # to_camel s else ch # to_camel (ch' # s))"

definition to_upper_camel :: "string \<Rightarrow> string" where
  "to_upper_camel s = (case s of [] \<Rightarrow> [] | ch # s \<Rightarrow> to_ascii_uppercase ch # to_camel s)"

text \<open>The names that Rust's conventions ask for, in ASCII.\<close>

definition upper_camel :: "string \<Rightarrow> bool" where
  "upper_camel s \<longleftrightarrow>
     (case s of [] \<Rightarrow> False | ch # cs \<Rightarrow> is_uppercase ch \<and>
        (\<forall>c\<in>set s. c \<noteq> CHR ''_'' \<and> c \<noteq> CHR 0x00 \<and> (of_char c :: nat) < 128))"

definition snake_tail :: "string \<Rightarrow> string" where
  "snake_tail s = concat (map (\<lambda>ch. (if is_uppercase ch then ''_'' else []) @ [to_ascii_lowercase ch]) s)"

lemma snake_tail_simps [simp]:
  "snake_tail [] = []"
  "snake_tail (ch # s) = (if is_uppercase ch then [CHR ''_''] else []) @ to_ascii_lowercase ch # snake_tail s"
  by (simp_all add: snake_tail_def)

lemma to_snake_case_Cons: "to_snake_case (ch # s) = to_ascii_lowercase ch # snake_tail s"
proof -
  have "concat (map (\<lambda>(i, ch). (if 0 < i \<and> is_uppercase ch then ''_'' else []) @ [to_ascii_lowercase ch])
      (enumerate (Suc n) s)) = snake_tail s" for n
    by (induction s arbitrary: n) simp_all
  from this [of 0] show ?thesis by (simp add: to_snake_case_def)
qed

lemma code_lower:
  "(of_char (to_ascii_lowercase ch) :: nat) = (if is_uppercase ch then of_char ch + 32 else of_char ch)"
  by (simp add: to_ascii_lowercase_def is_uppercase_def)

lemma upper_lower:
  assumes "is_uppercase ch"
  shows "to_ascii_uppercase (to_ascii_lowercase ch) = ch"
proof -
  have "65 \<le> (of_char ch :: nat)" "(of_char ch :: nat) \<le> 90"
    using assms by (simp_all add: is_uppercase_def)
  then show ?thesis
    using assms by (simp add: to_ascii_uppercase_def code_lower)
qed

lemma lower_not_underscore:
  assumes "ch \<noteq> CHR ''_''"
  shows "to_ascii_lowercase ch \<noteq> CHR ''_''"
proof
  assume lower: "to_ascii_lowercase ch = CHR ''_''"
  show False
  proof (cases "is_uppercase ch")
    case True
    have "(of_char (to_ascii_lowercase ch) :: nat) = 95" unfolding lower by simp
    with True show False by (simp add: code_lower is_uppercase_def)
  next
    case False
    with lower assms show False by (simp add: to_ascii_lowercase_def)
  qed
qed

lemma to_camel_other: "ch \<noteq> CHR ''_'' \<Longrightarrow> to_camel (ch # s) = ch # to_camel s"
  by (cases s) simp_all

lemma to_camel_snake_tail:
  "\<forall>c\<in>set s. c \<noteq> CHR ''_'' \<Longrightarrow> to_camel (snake_tail s) = s"
proof (induction s)
  case (Cons ch s)
  then have IH: "to_camel (snake_tail s) = s" and ch: "ch \<noteq> CHR ''_''" by simp_all
  show ?case
  proof (cases "is_uppercase ch")
    case True
    then show ?thesis using IH upper_lower [OF True] by simp
  next
    case False
    then have "to_ascii_lowercase ch = ch" by (simp add: to_ascii_lowercase_def)
    with False show ?thesis using IH ch to_camel_other [OF ch, of "snake_tail s"] by simp
  qed
qed simp

lemma to_upper_camel_snake_case: "upper_camel s \<Longrightarrow> to_upper_camel (to_snake_case s) = s"
  by (cases s) (auto simp: upper_camel_def to_snake_case_Cons to_upper_camel_def upper_lower to_camel_snake_tail)

lemma lower_not_upper: "\<not> is_uppercase (to_ascii_lowercase ch)"
proof
  assume "is_uppercase (to_ascii_lowercase ch)"
  then show False
    unfolding is_uppercase_def [of "to_ascii_lowercase ch"] code_lower
    by (auto simp: is_uppercase_def split: if_splits)
qed

lemma lower_zero:
  assumes "to_ascii_lowercase ch = CHR 0x00"
  shows "ch = CHR 0x00"
proof -
  have "(of_char (to_ascii_lowercase ch) :: nat) = 0" unfolding assms by simp
  then have "\<not> is_uppercase ch" by (simp add: code_lower split: if_splits)
  with assms show ?thesis by (simp add: to_ascii_lowercase_def)
qed

lemma snake_tail_set:
  "c \<in> set (snake_tail s) \<Longrightarrow> c = CHR ''_'' \<or> (\<exists>ch\<in>set s. c = to_ascii_lowercase ch)"
  by (auto simp: snake_tail_def split: if_splits)

lemma snake_case_set:
  "c \<in> set (to_snake_case s) \<Longrightarrow> c = CHR ''_'' \<or> (\<exists>ch\<in>set s. c = to_ascii_lowercase ch)"
  by (cases s) (auto simp: to_snake_case_Cons dest: snake_tail_set, simp add: to_snake_case_def)

lemma snake_case_chars:
  assumes "upper_camel s"
  shows "is_valid_name (to_snake_case s)" "\<forall>c\<in>set (to_snake_case s). \<not> is_uppercase c"
proof -
  have "CHR 0x00 \<notin> set s" "s \<noteq> []"
    using assms by (auto simp: upper_camel_def split: list.splits)
  moreover have "to_snake_case s \<noteq> []" using \<open>s \<noteq> []\<close> by (cases s) (auto simp: to_snake_case_Cons)
  ultimately show "is_valid_name (to_snake_case s)"
    using snake_case_set [of "CHR 0x00" s] lower_zero
    by (fastforce simp: is_valid_name_def)
  have "\<not> is_uppercase (CHR ''_'')" by (simp add: is_uppercase_def)
  then show "\<forall>c\<in>set (to_snake_case s). \<not> is_uppercase c"
    using snake_case_set lower_not_upper by fastforce
qed

section \<open>Properties\<close>

text \<open>A field is accepted exactly if it has only \<open>serde\<close> and \<open>serde_as\<close> attributes, each at most once.\<close>

fun serde_attrs :: "field_attr list \<Rightarrow> string list" where
  "serde_attrs [] = []"
| "serde_attrs (FieldSerde a # attrs) = a # serde_attrs attrs"
| "serde_attrs (_ # attrs) = serde_attrs attrs"

fun serde_as_attrs :: "field_attr list \<Rightarrow> string list" where
  "serde_as_attrs [] = []"
| "serde_as_attrs (FieldSerdeAs a # attrs) = a # serde_as_attrs attrs"
| "serde_as_attrs (_ # attrs) = serde_as_attrs attrs"

definition at_most_one :: "'a option \<Rightarrow> 'a list \<Rightarrow> 'a option \<Rightarrow> bool" where
  "at_most_one x xs y \<longleftrightarrow> (xs = [] \<and> y = x) \<or> (x = None \<and> (\<exists>z. xs = [z] \<and> y = Some z))"

lemma parse_field_attrs_from_Inr:
  "parse_field_attrs_from attrs s = Inr a \<longleftrightarrow>
    (\<forall>p. FieldOther p \<notin> set attrs) \<and>
    at_most_one (fda_serde s) (serde_attrs attrs) (fda_serde a) \<and>
    at_most_one (fda_serde_as s) (serde_as_attrs attrs) (fda_serde_as a)"
proof (induction attrs arbitrary: s)
  case Nil
  then show ?case by (cases s; cases a) (auto simp: at_most_one_def)
next
  case (Cons attr attrs)
  then show ?case by (cases attr) (auto simp: at_most_one_def)
qed

lemma parse_field_attrs_Inr:
  "parse_field_attrs attrs = Inr a \<longleftrightarrow>
    (\<forall>p. FieldOther p \<notin> set attrs) \<and>
    at_most_one None (serde_attrs attrs) (fda_serde a) \<and> at_most_one None (serde_as_attrs attrs) (fda_serde_as a)"
  by (simp add: parse_field_attrs_def parse_field_attrs_from_Inr)

lemma snake_case_inj:
  "upper_camel s \<Longrightarrow> upper_camel t \<Longrightarrow> to_snake_case s = to_snake_case t \<longleftrightarrow> s = t"
  using to_upper_camel_snake_case by metis

lemma last_report_of:
  assumes "last_report ext ims ty = Some im"
  shows "im \<in> set ims" "serializable ext im" "im_type im = ty"
  using assms by (auto simp: last_report_def find_Some_iff rev_nth)

lemma last_report_None:
  "last_report ext ims ty = None \<longleftrightarrow> \<not> (\<exists>im\<in>set ims. serializable ext im \<and> im_type im = ty)"
  by (auto simp: last_report_def find_None_iff)

text \<open>A value that was reported is one of its type's structure, which has no name of its own and is named
  in upper camel case.\<close>

definition reported_struct ::
  "('k \<Rightarrow> info_macro_args) \<Rightarrow> ('k \<Rightarrow> 'r info_struct) \<Rightarrow> 'k info_metric \<Rightarrow> bool" where
  "reported_struct args struct im \<longleftrightarrow>
     (let ty = im_type im
      in im = info_value ty (expand_info_metric (args ty) (struct ty)) (im_value im) \<and>
        ima_name (args ty) = None \<and> upper_camel (ins_ident (struct ty)))"

text \<open>What must be exposed for a type: its name and help, and one gauge with the labels of the last value
  that has labels.\<close>

definition exposes_struct ::
  "externals \<Rightarrow> 'k info_metric list \<Rightarrow> ('k \<Rightarrow> 'r info_struct) \<Rightarrow> 'k \<Rightarrow> metric_family \<Rightarrow> bool" where
  "exposes_struct ext ims struct ty f \<longleftrightarrow>
     f_name f = Some (to_snake_case (ins_ident (struct ty))) \<and>
     f_help f = Some (trim (sa_doc (ins_attrs (struct ty)))) \<and>
     f_type f = Some (metric_type_to_i32 Gauge) \<and>
     (\<exists>im ls. last_report ext ims ty = Some im \<and> to_label_pairs ext (im_value im) = Inr ls \<and>
        f_metric f = [metric_default\<lparr>m_label := ls, m_gauge := Some \<lparr>g_value = Some f64_one\<rparr>\<rparr>])"

lemma reported_family:
  assumes "last_report ext ims ty = Some im" "reported_struct args struct im"
  shows "exposes_struct ext ims struct ty (info_family (entry_of ext im))"
proof -
  note im = last_report_of [OF assms(1)]
  obtain ls where ls: "to_label_pairs ext (im_value im) = Inr ls"
    using im(2) by (auto simp: serializable_def split: sum.splits)
  have "im = info_value ty (expand_info_metric (args ty) (struct ty)) (im_value im)" "ima_name (args ty) = None"
    using assms(2) im(3) by (simp_all add: reported_struct_def Let_def)
  from arg_cong [OF this(1), of im_NAME] arg_cong [OF this(1), of im_HELP] this(2)
  have "im_NAME im = to_snake_case (ins_ident (struct ty))" "im_HELP im = trim (sa_doc (ins_attrs (struct ty)))"
    by (simp_all add: info_value_def expand_info_metric_def)
  with assms(1) ls show ?thesis
    by (auto simp: exposes_struct_def info_family_def entry_of_def)
qed

text \<open>C33: let values of structures with \<open>#[info_metric]\<close> be reported in any order, any number of them for
  each structure, where the structures have ASCII names in upper camel case and no metric name of their
  own. The collector exposes exactly one family for each structure of which a value had labels, whatever
  the order it finds them in: its name is the snake case of the structure's, is valid and has no capitals,
  its help is the trimmed documentation, and its one sample has the labels of the last such value. The
  names of the families differ exactly if those of the structures do.\<close>

theorem info_metric_names_distinct:
  assumes "\<forall>im\<in>set ims. reported_struct args struct im"
    and "is_store s = None" "s' = report_infos ext collector ims s"
    and "iteration_of (store_map s') es"
  shows "distinct (map fst es) \<and>
    fst ` set es = {im_type im |im. im \<in> set ims \<and> serializable ext im} \<and>
    list_all2 (exposes_struct ext ims struct) (map fst es) (info_encode s' es) \<and>
    (\<forall>f\<in>set (info_encode s' es). \<exists>n. f_name f = Some n \<and> is_valid_name n \<and> (\<forall>c\<in>set n. \<not> is_uppercase c)) \<and>
    (distinct (map f_name (info_encode s' es)) \<longleftrightarrow> inj_on (\<lambda>ty. ins_ident (struct ty)) (fst ` set es))"
proof -
  note wins = info_last_report_wins [OF assms(2-4)]
  let ?family = "\<lambda>ty. info_family (entry_of ext (the (last_report ext ims ty)))"
  have dist: "distinct (map fst es)"
    and reported: "ty \<in> fst ` set es \<longleftrightarrow> last_report ext ims ty \<noteq> None"
    and encode: "info_encode s' es = map ?family (map fst es)" for ty
    using wins by simp_all
  have types: "fst ` set es = {im_type im |im. im \<in> set ims \<and> serializable ext im}"
    by (auto simp only: reported last_report_None set_eq_iff mem_Collect_eq)
  have family: "exposes_struct ext ims struct ty (?family ty)" "upper_camel (ins_ident (struct ty))"
    if ty: "ty \<in> fst ` set es" for ty
  proof -
    obtain im where im: "last_report ext ims ty = Some im"
      using reported [of ty] ty by blast
    have struct: "reported_struct args struct im"
      using assms(1) last_report_of(1) [OF im] by blast
    show "exposes_struct ext ims struct ty (?family ty)"
      using reported_family [OF im struct] im by simp
    show "upper_camel (ins_ident (struct ty))"
      using struct last_report_of(3) [OF im] by (auto simp: reported_struct_def Let_def)
  qed
  have each: "list_all2 (exposes_struct ext ims struct) (map fst es) (info_encode s' es)"
    unfolding encode list_all2_conv_all_nth using family(1) by simp
  have name: "f_name (?family ty) = Some (to_snake_case (ins_ident (struct ty)))" if "ty \<in> fst ` set es" for ty
    using family(1) [OF that] by (simp add: exposes_struct_def)
  have valid: "\<forall>f\<in>set (info_encode s' es).
      \<exists>n. f_name f = Some n \<and> is_valid_name n \<and> (\<forall>c\<in>set n. \<not> is_uppercase c)"
  proof
    fix f
    assume "f \<in> set (info_encode s' es)"
    then obtain ty where "ty \<in> fst ` set es" "f = ?family ty"
      unfolding encode by auto
    with name family(2) [of ty] snake_case_chars [of "ins_ident (struct ty)"]
    show "\<exists>n. f_name f = Some n \<and> is_valid_name n \<and> (\<forall>c\<in>set n. \<not> is_uppercase c)"
      by blast
  qed
  have "inj_on (\<lambda>ty. f_name (?family ty)) (fst ` set es) \<longleftrightarrow> inj_on (\<lambda>ty. ins_ident (struct ty)) (fst ` set es)"
    using name snake_case_inj [OF family(2) family(2)] by (simp add: inj_on_def)
  moreover have "map f_name (info_encode s' es) = map (\<lambda>ty. f_name (?family ty)) (map fst es)"
    unfolding encode by simp
  ultimately have "distinct (map f_name (info_encode s' es)) \<longleftrightarrow>
      inj_on (\<lambda>ty. ins_ident (struct ty)) (fst ` set es)"
    using dist distinct_map [of "\<lambda>ty. f_name (?family ty)" "map fst es"] by simp
  with dist types each valid show ?thesis by blast
qed

definition sample_structs :: "nat \<Rightarrow> unit info_struct" where
  "sample_structs ty = \<lparr>ins_attrs = \<lparr>sa_cfg = [], sa_doc = '' Build information''\<rparr>,
     ins_ident = (if ty = 0 then ''BuildInformation'' else ''RuntimeInfo''), ins_fields = []\<rparr>"

definition sample_report :: "nat \<Rightarrow> sval \<Rightarrow> nat info_metric" where
  "sample_report ty v = info_value ty (expand_info_metric info_macro_args_default (sample_structs ty)) v"

definition sample_reports :: "nat info_metric list" where
  "sample_reports =
     [sample_report 0 (SStruct ''BuildInformation'' [(''version'', SStr ''1'')]),
      sample_report 1 (SStruct ''RuntimeInfo'' [(''pid'', SStr ''7'')]),
      sample_report 0 (SStruct ''BuildInformation'' [(''version'', SStr ''2'')])]"

theorem info_metric_names_distinct_witness:
  "let es = [(1, entry_of constant_externals (sample_reports ! 1)), (0, entry_of constant_externals (sample_reports ! 2))];
       s = report_infos constant_externals () sample_reports \<lparr>is_store = None, is_registry = None\<rparr>
   in distinct (map f_name (info_encode s es)) \<and>
      list_all2 (exposes_struct constant_externals sample_reports sample_structs) [1, 0] (info_encode s es)"
proof -
  let ?s = "\<lparr>is_store = None, is_registry = None\<rparr> :: (nat, unit) info_state"
  let ?es = "[(1, entry_of constant_externals (sample_reports ! 1)), (0, entry_of constant_externals (sample_reports ! 2))]"
  have camel: "upper_camel (ins_ident (sample_structs ty))" for ty
    by (simp add: sample_structs_def upper_camel_def is_uppercase_def)
  have all: "\<forall>im\<in>set sample_reports.
      reported_struct (\<lambda>_. info_macro_args_default) sample_structs im"
    using camel by (simp add: sample_reports_def sample_report_def reported_struct_def info_value_def
        info_macro_args_default_def Let_def)
  have ser: "\<forall>im\<in>set sample_reports. serializable constant_externals im"
    by (simp add: sample_reports_def sample_report_def info_value_def serializable_def to_label_pairs_def
        validate_label_name_def is_valid_name_def)
  have last: "last_report constant_externals sample_reports ty =
      (if ty = 0 then Some (sample_reports ! 2) else if ty = 1 then Some (sample_reports ! 1) else None)" for ty
    using ser unfolding last_report_def
    by (simp add: sample_reports_def) (simp add: sample_report_def info_value_def)
  have "iteration_of (store_map (report_infos constant_externals () sample_reports ?s)) ?es"
    by (auto simp: iteration_of_def report_infos_store last fun_eq_iff simp del: report_infos.simps)
  note distinct = info_metric_names_distinct [OF all _ refl this, simplified info_state.select_convs, OF refl]
  from distinct have "list_all2 (exposes_struct constant_externals sample_reports sample_structs) (map fst ?es)
      (info_encode (report_infos constant_externals () sample_reports ?s) ?es)"
    "distinct (map f_name (info_encode (report_infos constant_externals () sample_reports ?s) ?es)) \<longleftrightarrow>
      inj_on (\<lambda>ty. ins_ident (sample_structs ty)) (fst ` set ?es)"
    by blast+
  moreover have "inj_on (\<lambda>ty. ins_ident (sample_structs ty)) (fst ` set ?es)"
    by (simp add: sample_structs_def)
  ultimately show ?thesis by (simp add: Let_def)
qed

lemma snake_case_example: "to_snake_case ''BuildInformation'' = ''build_information''"
  by code_simp

text \<open>Other names can meet.\<close>

lemma snake_case_meets: "to_snake_case ''Build_info'' = to_snake_case ''BuildInfo''"
  by code_simp

end
