(* ===== verification/Utf8.thy ===== *)
theory Utf8
  imports Prelude
begin

text \<open>
  What the standard library gives the code that handles text as bytes: the check of
  \<open>std::str::from_utf8\<close>, \<open>str::splitn\<close> with a character, \<open>u8::from_str_radix\<close> with
  radix 16, and the \<open>{:x}\<close> formatting of unsigned integers with a zero-filled width.
\<close>

section \<open>UTF-8 validity\<close>

definition utf8_cont :: "char \<Rightarrow> bool" where
  "utf8_cont c \<longleftrightarrow> 128 \<le> (of_char c :: nat) \<and> (of_char c :: nat) \<le> 191"

definition byte_in :: "nat \<Rightarrow> nat \<Rightarrow> char \<Rightarrow> bool" where
  "byte_in l h c \<longleftrightarrow> l \<le> (of_char c :: nat) \<and> (of_char c :: nat) \<le> h"

text \<open>The second byte that may follow a given first byte of a three- or four-byte sequence:
  overlong forms, surrogates and code points past \<open>U+10FFFF\<close> are excluded.\<close>

definition utf8_second :: "char \<Rightarrow> char \<Rightarrow> bool" where
  "utf8_second b c \<longleftrightarrow>
     (if of_char b = (224 :: nat) then byte_in 160 191 c
      else if of_char b = (237 :: nat) then byte_in 128 159 c
      else if of_char b = (240 :: nat) then byte_in 144 191 c
      else if of_char b = (244 :: nat) then byte_in 128 143 c
      else utf8_cont c)"

fun utf8_valid :: "string \<Rightarrow> bool" where
  "utf8_valid [] \<longleftrightarrow> True"
| "utf8_valid (b # bs) \<longleftrightarrow>
     (if byte_in 0 127 b then utf8_valid bs
      else if byte_in 194 223 b then
        (case bs of c # cs \<Rightarrow> utf8_cont c \<and> utf8_valid cs | _ \<Rightarrow> False)
      else if byte_in 224 239 b then
        (case bs of c # d # ds \<Rightarrow> utf8_second b c \<and> utf8_cont d \<and> utf8_valid ds | _ \<Rightarrow> False)
      else if byte_in 240 244 b then
        (case bs of c # d # e # es \<Rightarrow>
           utf8_second b c \<and> utf8_cont d \<and> utf8_cont e \<and> utf8_valid es
         | _ \<Rightarrow> False)
      else False)"

lemma utf8_valid_ascii: "\<forall>c\<in>set s. byte_in 0 127 c \<Longrightarrow> utf8_valid s"
  by (induction s) simp_all

section \<open>Splitting\<close>

text \<open>\<open>s.splitn(n, c)\<close>: at most \<open>n\<close> pieces, the last of which holds the remainder.\<close>

fun splitn :: "nat \<Rightarrow> char \<Rightarrow> string \<Rightarrow> string list" where
  "splitn 0 c s = []"
| "splitn (Suc 0) c s = [s]"
| "splitn (Suc (Suc n)) c s =
     (if c \<in> set s
      then takeWhile (\<lambda>d. d \<noteq> c) s # splitn (Suc n) c (tl (dropWhile (\<lambda>d. d \<noteq> c) s))
      else [s])"

lemma splitn_Suc_Suc_append [simp]:
  "c \<notin> set u \<Longrightarrow> splitn (Suc (Suc n)) c (u @ c # v) = u # splitn (Suc n) c v"
proof -
  assume u: "c \<notin> set u"
  then have *: "\<And>d. d \<in> set u \<Longrightarrow> d \<noteq> c" by blast
  have "takeWhile (\<lambda>d. d \<noteq> c) (u @ c # v) = u" "dropWhile (\<lambda>d. d \<noteq> c) (u @ c # v) = c # v"
    using * by (simp_all add: takeWhile_append2 dropWhile_append2)
  then show ?thesis by simp
qed

lemma split_at_first: "c \<in> set s \<Longrightarrow> \<exists>u v. s = u @ c # v \<and> c \<notin> set u"
  by (rule split_list_first)

lemma splitn_Suc_Suc_none: "c \<notin> set s \<Longrightarrow> splitn (Suc (Suc n)) c s = [s]"
  by simp

declare splitn.simps(3) [simp del]

lemma splitn_Suc_Suc_cases:
  assumes "splitn (Suc (Suc n)) c s = u # w # ws"
  shows "\<exists>v. s = u @ c # v \<and> c \<notin> set u \<and> splitn (Suc n) c v = w # ws"
proof (cases "c \<in> set s")
  case True
  from split_at_first [OF True] obtain u' v' where s: "s = u' @ c # v'" "c \<notin> set u'"
    by (elim exE conjE)
  have "splitn (Suc (Suc n)) c s = u' # splitn (Suc n) c v'"
    unfolding s(1) by (rule splitn_Suc_Suc_append [OF s(2)])
  then have "u' # splitn (Suc n) c v' = u # w # ws"
    using assms by (simp only:)
  then have "u' = u" "splitn (Suc n) c v' = w # ws" by simp_all
  with s show ?thesis by (intro exI [of _ v']) simp
next
  case False
  with assms show ?thesis by (simp add: splitn_Suc_Suc_none)
qed

lemma splitn_4:
  "splitn 4 c s = [v, t, p, f] \<longleftrightarrow>
     s = v @ c # t @ c # p @ c # f \<and> c \<notin> set v \<and> c \<notin> set t \<and> c \<notin> set p"
proof
  assume "splitn 4 c s = [v, t, p, f]"
  then have *: "splitn (Suc (Suc (Suc (Suc 0)))) c s = [v, t, p, f]"
    by (simp only: numeral_eq_Suc pred_numeral_simps BitM.simps)
  from splitn_Suc_Suc_cases [OF *]
  obtain s1 where s: "s = v @ c # s1" "c \<notin> set v" and 1: "splitn (Suc (Suc (Suc 0))) c s1 = [t, p, f]"
    by blast
  from splitn_Suc_Suc_cases [OF 1]
  obtain s2 where s1: "s1 = t @ c # s2" "c \<notin> set t" and 2: "splitn (Suc (Suc 0)) c s2 = [p, f]"
    by blast
  from splitn_Suc_Suc_cases [OF 2]
  obtain s3 where s2: "s2 = p @ c # s3" "c \<notin> set p" and 3: "splitn (Suc 0) c s3 = [f]"
    by blast
  from 3 have "s3 = f" by simp
  with s s1 s2 show "s = v @ c # t @ c # p @ c # f \<and> c \<notin> set v \<and> c \<notin> set t \<and> c \<notin> set p"
    by simp
next
  assume "s = v @ c # t @ c # p @ c # f \<and> c \<notin> set v \<and> c \<notin> set t \<and> c \<notin> set p"
  then show "splitn 4 c s = [v, t, p, f]"
    by (simp only: numeral_eq_Suc pred_numeral_simps BitM.simps splitn_Suc_Suc_append
        splitn.simps(2) simp_thms)
qed

section \<open>Hexadecimal digits\<close>

text \<open>\<open>char::to_digit(16)\<close>.\<close>

definition hex_value :: "char \<Rightarrow> nat option" where
  "hex_value c =
     (let n = (of_char c :: nat) in
      if 48 \<le> n \<and> n \<le> 57 then Some (n - 48)
      else if 97 \<le> n \<and> n \<le> 102 then Some (n - 87)
      else if 65 \<le> n \<and> n \<le> 70 then Some (n - 55)
      else None)"

definition hex_digit :: "nat \<Rightarrow> char" where
  "hex_digit d = char_of (if d < 10 then 48 + d else 87 + d)"

lemma hex_value_lt: "hex_value c = Some n \<Longrightarrow> n < 16"
  by (auto simp: hex_value_def Let_def split: if_splits)

lemma hex_value_digit [simp]: "d < 16 \<Longrightarrow> hex_value (hex_digit d) = Some d"
  by (auto simp: hex_value_def hex_digit_def Let_def)

lemma hex_value_ascii: "hex_value c = Some n \<Longrightarrow> byte_in 0 127 c"
  by (auto simp: hex_value_def byte_in_def Let_def split: if_splits)

lemma hex_value_signs [simp]:
  "hex_value (CHR ''-'') = None" "hex_value (CHR ''+'') = None"
  by (simp_all add: hex_value_def)

lemma hex_digit_not_dash [simp]: "d < 16 \<Longrightarrow> hex_digit d \<noteq> CHR ''-''"
  using hex_value_digit [of d] by fastforce

text \<open>The digits of \<open>u8::from_str_radix\<close>, each step with the overflow check of \<open>checked_mul\<close>
  and \<open>checked_add\<close>.\<close>

fun u8_radix16_digits :: "nat \<Rightarrow> string \<Rightarrow> u8 option" where
  "u8_radix16_digits acc [] = Some (of_nat acc)"
| "u8_radix16_digits acc (c # cs) =
     (case hex_value c of
        None \<Rightarrow> None
      | Some d \<Rightarrow> if 16 * acc + d < 256 then u8_radix16_digits (16 * acc + d) cs else None)"

text \<open>An empty string and a lone sign are errors, a leading \<open>+\<close> is skipped, and \<open>-\<close> is no
  digit for an unsigned type.\<close>

definition u8_from_str_radix16 :: "string \<Rightarrow> u8 option" where
  "u8_from_str_radix16 s =
     (case s of
        [] \<Rightarrow> None
      | c # cs \<Rightarrow>
          if cs = [] \<and> (c = CHR ''+'' \<or> c = CHR ''-'') then None
          else if c = CHR ''+'' then u8_radix16_digits 0 cs
          else u8_radix16_digits 0 s)"

section \<open>Formatting in base 16\<close>

text \<open>\<open>format!("{:x}", n)\<close>, and \<open>format!("{:0>wx}", n)\<close>, which fills up to width \<open>w\<close>
  with the character \<open>0\<close> on the left.\<close>

function show_hex :: "nat \<Rightarrow> string" where
  "show_hex n =
     (if n < 16 then [hex_digit n] else show_hex (n div 16) @ [hex_digit (n mod 16)])"
  by pat_completeness auto
termination
  by (relation "measure id") auto

declare show_hex.simps [simp del]

definition pad_left :: "nat \<Rightarrow> char \<Rightarrow> string \<Rightarrow> string" where
  "pad_left w c s = replicate (w - length s) c @ s"

text \<open>Fixed-width digits, most significant first.\<close>

fun hex_digits :: "nat \<Rightarrow> nat \<Rightarrow> string" where
  "hex_digits 0 n = []"
| "hex_digits (Suc w) n = hex_digits w (n div 16) @ [hex_digit (n mod 16)]"

lemma length_hex_digits [simp]: "length (hex_digits w n) = w"
  by (induction w arbitrary: n) simp_all

lemma hex_digits_0: "hex_digits w 0 = replicate w (CHR ''0'')"
  proof (induction w)
  case (Suc w)
  have "hex_digit 0 = CHR ''0''" by code_simp
  with Suc show ?case by (simp add: replicate_append_same)
qed simp

lemma pad_left_snoc: "pad_left (Suc w) c (s @ [d]) = pad_left w c s @ [d]"
  by (simp add: pad_left_def)

lemma pad_left_show_hex:
  "n < 16 ^ w \<Longrightarrow> 0 < w \<Longrightarrow> pad_left w (CHR ''0'') (show_hex n) = hex_digits w n"
proof (induction w arbitrary: n)
  case 0
  then show ?case by simp
next
  case (Suc w)
  show ?case
  proof (cases "n < 16")
    case True
    then show ?thesis
      by (simp add: show_hex.simps pad_left_def hex_digits_0)
  next
    case False
    with Suc.prems have "0 < w" by (cases w) auto
    moreover have "n div 16 < 16 ^ w"
      using Suc.prems(1) by (simp add: less_mult_imp_div_less mult.commute)
    ultimately have "pad_left w (CHR ''0'') (show_hex (n div 16)) = hex_digits w (n div 16)"
      by (intro Suc.IH)
    with False show ?thesis
      by (subst show_hex.simps) (simp add: pad_left_snoc)
  qed
qed

lemma hex_digits_hex: "c \<in> set (hex_digits w n) \<Longrightarrow> \<exists>d<16. c = hex_digit d"
  by (induction w arbitrary: n) (auto intro: exI [of _ "_ mod 16"])

end
