(* ===== verification/MetricsEndpoint.thy ===== *)
theory MetricsEndpoint
  imports MetricsCollect Exposition MetricsMacro InfoMacro Utf8
begin

text \<open>
  The text of the metrics endpoint with the \<open>foundations-metrics\<close> backend: \<open>metrics::collect\<close>,
  \<open>add_extra_producer\<close> and \<open>truncate_eof\<close> of \<open>foundations/src/telemetry/metrics/mod.rs\<close>, and the
  service name and the info metrics of \<open>metrics/init.rs\<close>. An extra producer is a parameter, by the bytes it appends. The
  lemmas show what of the producers' text is kept and join the theories of the metrics system: from
  the declaration of a metric with \<open>#[metrics]\<close> over its updates to the samples a scraper reads.
\<close>

section \<open>The service name and the producers\<close>

text \<open>\<open>SERVICE_NAME\<close> and \<open>EXTRA_PRODUCERS\<close>.\<close>

record metrics_cells =
  me_service_name :: "string option"
  me_extra_producers :: "string list option"

definition metrics_cells_new :: metrics_cells where
  "metrics_cells_new = \<lparr>me_service_name = None, me_extra_producers = None\<rparr>"

definition UNINITIALISED_SERVICE_NAME :: string where
  "UNINITIALISED_SERVICE_NAME = ''undefined''"

definition service_name :: "metrics_cells \<Rightarrow> string" where
  "service_name s =
     (case me_service_name s of None \<Rightarrow> UNINITIALISED_SERVICE_NAME | Some name \<Rightarrow> name)"

definition set_service_name :: "string \<Rightarrow> metrics_cells \<Rightarrow> bool \<times> metrics_cells" where
  "set_service_name name s =
     (case me_service_name s of
        Some _ \<Rightarrow> (False, s)
      | None \<Rightarrow> (True, s\<lparr>me_service_name := Some name\<rparr>))"

definition add_extra_producer :: "string \<Rightarrow> metrics_cells \<Rightarrow> metrics_cells" where
  "add_extra_producer p s =
     s\<lparr>me_extra_producers :=
       Some ((case me_extra_producers s of None \<Rightarrow> [] | Some ps \<Rightarrow> ps) @ [p])\<rparr>"

datatype metrics_cells_op = InitMetrics string | AddProducer string

fun metrics_cells_step :: "metrics_cells_op \<Rightarrow> metrics_cells \<Rightarrow> metrics_cells" where
  "metrics_cells_step (InitMetrics name) s = snd (set_service_name name s)"
| "metrics_cells_step (AddProducer p) s = add_extra_producer p s"

fun inits_of :: "metrics_cells_op list \<Rightarrow> string list" where
  "inits_of [] = []"
| "inits_of (InitMetrics name # ops) = name # inits_of ops"
| "inits_of (AddProducer p # ops) = inits_of ops"

fun producers_of :: "metrics_cells_op list \<Rightarrow> string list" where
  "producers_of [] = []"
| "producers_of (InitMetrics name # ops) = producers_of ops"
| "producers_of (AddProducer p # ops) = p # producers_of ops"

section \<open>Collecting\<close>

datatype settings_service_name_format = SettingsMetricPrefix | SettingsLabelWithName string

record metrics_settings =
  mt_report_optional :: bool
  mt_service_name_format :: settings_service_name_format

fun backend_format :: "settings_service_name_format \<Rightarrow> Collect.service_name_format" where
  "backend_format SettingsMetricPrefix = Collect.MetricPrefix"
| "backend_format (SettingsLabelWithName label_name) = Collect.LabelWithName label_name"

text \<open>The result with whether the bytes were valid UTF-8; otherwise that is reported and
  \<open>from_utf8_lossy\<close> gives the text.\<close>

definition endpoint_buffer ::
  "externals \<Rightarrow> ('m \<Rightarrow> metric_family list \<times> event list) \<Rightarrow> metrics_settings \<Rightarrow> 'm registry \<Rightarrow>
   metrics_cells \<Rightarrow> string" where
  "endpoint_buffer ext enc settings reg s =
     (let families = fst (collect enc
            \<lparr>co_include_optional = mt_report_optional settings, co_service_name = Some (service_name s),
             co_service_name_format = backend_format (mt_service_name_format settings)\<rparr> reg);
          buffer = truncate_eof (fst (encode_to_text ext families));
          buffer = (case me_extra_producers s of None \<Rightarrow> buffer | Some ps \<Rightarrow> produce_all ps buffer)
      in buffer @ EOF_MARKER)"

definition endpoint_collect ::
  "externals \<Rightarrow> (string \<Rightarrow> string) \<Rightarrow> ('m \<Rightarrow> metric_family list \<times> event list) \<Rightarrow> metrics_settings \<Rightarrow>
   'm registry \<Rightarrow> metrics_cells \<Rightarrow> bool \<times> string" where
  "endpoint_collect ext from_utf8_lossy enc settings reg s =
     (let buffer = endpoint_buffer ext enc settings reg s
      in if utf8_valid buffer then (True, buffer) else (False, from_utf8_lossy buffer))"

section \<open>What is kept of the producers' text\<close>

definition line_end :: "string \<Rightarrow> bool" where
  "line_end s \<longleftrightarrow> s = [] \<or> List.last s = CHR 0x0A"

text \<open>A producer appends whole lines, with or without an end marker after them.\<close>

definition whole_lines :: "string \<Rightarrow> bool" where
  "whole_lines p \<longleftrightarrow> p \<noteq> [] \<and> line_end (truncate_eof p)"

lemma cells_reached:
  "me_service_name (fold metrics_cells_step ops s) =
     (case me_service_name s of
        Some n \<Rightarrow> Some n
      | None \<Rightarrow> (case inits_of ops of [] \<Rightarrow> None | n # _ \<Rightarrow> Some n)) \<and>
   (case me_extra_producers (fold metrics_cells_step ops s) of None \<Rightarrow> [] | Some ps \<Rightarrow> ps) =
     (case me_extra_producers s of None \<Rightarrow> [] | Some ps \<Rightarrow> ps) @ producers_of ops"
proof (induction ops arbitrary: s)
  case (Cons op ops)
  then show ?case
    by (cases op) (auto simp: set_service_name_def add_extra_producer_def split: option.splits)
qed (simp split: option.split)

lemma ends_with_iff: "ends_with s t \<longleftrightarrow> (\<exists>u. s = u @ t)"
proof
  assume "ends_with s t"
  then have "s = take (length s - length t) s @ t"
    unfolding ends_with_def by (metis append_take_drop_id)
  then show "\<exists>u. s = u @ t" by blast
qed (auto simp: ends_with_def)

lemma truncate_eof_lines:
  assumes "line_end b" "p \<noteq> []"
  shows "truncate_eof (b @ p) = b @ truncate_eof p"
proof (cases "ends_with p EOF_MARKER")
  case True
  then obtain u where "p = u @ EOF_MARKER" by (auto simp: ends_with_iff)
  then show ?thesis by (metis append.assoc truncate_eof_append)
next
  case False
  have "\<not> ends_with (b @ p) EOF_MARKER"
  proof
    assume "ends_with (b @ p) EOF_MARKER"
    then obtain u where "b @ p = u @ EOF_MARKER" by (auto simp: ends_with_iff)
    then consider v where "p = v @ EOF_MARKER" | v where "EOF_MARKER = v @ p" "b = u @ v" "v \<noteq> []"
      unfolding append_eq_append_conv2 by (metis append_Nil)
    then show False
    proof cases
      case 1
      with False show ?thesis by (auto simp: ends_with_iff)
    next
      case 2
      then have "List.last v = CHR 0x0A" using assms(1) by (simp add: line_end_def)
      with 2 obtain v' where "EOF_MARKER = v' @ CHR 0x0A # p" by (metis append_butlast_last_id append.assoc append_Cons append_Nil)
      then have "butlast EOF_MARKER = v' @ butlast (CHR 0x0A # p)"
        using butlast_append [of v' "CHR 0x0A # p"] by simp
      then have "butlast EOF_MARKER = v' @ CHR 0x0A # butlast p"
        using assms(2) by simp
      then have "CHR 0x0A \<in> set (butlast EOF_MARKER)" by simp
      then show ?thesis by (simp add: EOF_MARKER_def)
    qed
  qed
  with False show ?thesis by (simp add: truncate_eof_def)
qed

lemma produce_all_lines:
  "line_end b \<Longrightarrow> \<forall>p\<in>set ps. whole_lines p \<Longrightarrow>
     produce_all ps b = b @ concat (map truncate_eof ps)"
proof (induction ps arbitrary: b)
  case (Cons p ps)
  then have "truncate_eof (b @ p) = b @ truncate_eof p" "line_end (b @ truncate_eof p)"
    by (auto simp: truncate_eof_lines whole_lines_def line_end_def last_append)
  with Cons show ?case by simp
qed simp

lemma encode_to_text_body:
  "\<exists>body. fst (encode_to_text ext fs) = body @ EOF_MARKER \<and> line_end body"
proof -
  have "fst (encode_to_text ext fs) =
      TextEncoding.unlines (concat (map (family_lines ext) (sanitized_families TextEncoding fs))) @ EOF_MARKER"
    by (simp add: encode_to_text_steps text_steps_lines EOF_MARKER_def newline_def)
  moreover have "line_end (TextEncoding.unlines ls)" for ls
    by (induction ls) (auto simp: TextEncoding.unlines_def line_end_def newline_def)
  ultimately show ?thesis by blast
qed

section \<open>Registries whose metrics are handles\<close>

definition map_entry :: "('a \<Rightarrow> 'b) \<Rightarrow> 'a reg_entry \<Rightarrow> 'b reg_entry" where
  "map_entry f e = \<lparr>re_metadata = re_metadata e, re_metric = f (re_metric e)\<rparr>"

lemma map_entry_fields [simp]:
  "re_metadata (map_entry f e) = re_metadata e" "re_metric (map_entry f e) = f (re_metric e)"
  by (simp_all add: map_entry_def)

lemma collect_metric_map:
  "collect_metric (\<lambda>m. enc (f m)) opts e = collect_metric enc opts (map_entry f e)"
  unfolding collect_metric_def map_entry_fields ..

lemma collect_loop_map:
  "collect_loop (\<lambda>m. enc (f m)) opts es = collect_loop enc opts (map (map_entry f) es)"
  by (induction es) (simp_all add: collect_metric_map)

lemma collect_map:
  "registry_get reg' = map (map_entry f) (registry_get reg) \<Longrightarrow>
     collect (\<lambda>m. enc (f m)) opts reg = collect enc opts reg'"
  by (simp add: collect_def iter_collect_entries registry_iter_def collect_loop_map
      split: option.split service_name_format.split)

definition resolve :: "(nat \<Rightarrow> 'm) \<Rightarrow> nat named_metric \<Rightarrow> 'm named_metric" where
  "resolve g nm = \<lparr>nm_name = nm_name nm, nm_help = nm_help nm, nm_metric = g (nm_metric nm)\<rparr>"

lemma named_encode_resolve:
  "named_encode (\<lambda>i. encv (g i)) nm = named_encode encv (resolve g nm)"
  by (simp add: named_encode_def resolve_def complete_family_def [abs_def] Let_def split: prod.split)

section \<open>Properties\<close>

lemma endpoint_buffer_composed:
  assumes "\<forall>p\<in>set (producers_of ops). whole_lines p"
  shows "\<exists>body. fst (encode_to_text ext (fst (collect enc
        \<lparr>co_include_optional = mt_report_optional settings,
         co_service_name = Some (case inits_of ops of [] \<Rightarrow> ''undefined'' | name # _ \<Rightarrow> name),
         co_service_name_format = backend_format (mt_service_name_format settings)\<rparr> reg))) = body @ EOF_MARKER \<and>
    endpoint_buffer ext enc settings reg (fold metrics_cells_step ops metrics_cells_new) =
      body @ concat (map truncate_eof (producers_of ops)) @ EOF_MARKER"
proof -
  let ?s = "fold metrics_cells_step ops metrics_cells_new"
  have r: "me_service_name ?s = (case inits_of ops of [] \<Rightarrow> None | n # _ \<Rightarrow> Some n)"
    "(case me_extra_producers ?s of None \<Rightarrow> [] | Some ps \<Rightarrow> ps) = producers_of ops"
    using cells_reached [of ops metrics_cells_new] by (simp_all add: metrics_cells_new_def)
  have n: "service_name ?s = (case inits_of ops of [] \<Rightarrow> ''undefined'' | name # _ \<Rightarrow> name)"
    by (simp add: service_name_def r(1) UNINITIALISED_SERVICE_NAME_def split: list.split)
  obtain body where b: "fst (encode_to_text ext (fst (collect enc
        \<lparr>co_include_optional = mt_report_optional settings, co_service_name = Some (service_name ?s),
         co_service_name_format = backend_format (mt_service_name_format settings)\<rparr> reg))) = body @ EOF_MARKER"
    "line_end body"
    using encode_to_text_body by blast
  have "(case me_extra_producers ?s of None \<Rightarrow> body | Some ps \<Rightarrow> produce_all ps body) =
      body @ concat (map truncate_eof (producers_of ops))"
    using produce_all_lines [OF b(2) assms] r(2) by (cases "me_extra_producers ?s") auto
  then have "endpoint_buffer ext enc settings reg ?s = body @ concat (map truncate_eof (producers_of ops)) @ EOF_MARKER"
    unfolding endpoint_buffer_def Let_def b(1) truncate_eof_append by simp
  with b(1) [unfolded n] show ?thesis by blast
qed

text \<open>the text of the endpoint is the exposition of the registered metrics under the name of the first
  initialization, or \<open>undefined\<close> before it, without its end marker, then what the extra producers
  wrote in the order in which they were added, each without its own end marker, and one end
  marker.\<close>

theorem endpoint_text_composed:
  assumes "\<forall>p\<in>set (producers_of ops). whole_lines p"
  shows "\<exists>body. fst (encode_to_text ext (fst (collect enc
        \<lparr>co_include_optional = mt_report_optional settings,
         co_service_name = Some (case inits_of ops of [] \<Rightarrow> ''undefined'' | name # _ \<Rightarrow> name),
         co_service_name_format = backend_format (mt_service_name_format settings)\<rparr> reg))) = body @ EOF_MARKER \<and>
    endpoint_buffer ext enc settings reg (fold metrics_cells_step ops metrics_cells_new) =
      body @ concat (map truncate_eof (producers_of ops)) @ EOF_MARKER"
  by (rule endpoint_buffer_composed [OF assms])

theorem endpoint_text_composed_witness:
  "endpoint_buffer constant_externals (\<lambda>m. ([], [])) \<lparr>mt_report_optional = False, mt_service_name_format = SettingsMetricPrefix\<rparr>
     (None :: nat registry)
     (fold metrics_cells_step [AddProducer (''a 1'' @ [CHR 0x0A] @ EOF_MARKER), InitMetrics ''api'', AddProducer (''b 2'' @ [CHR 0x0A])]
       metrics_cells_new) =
   ''a 1'' @ [CHR 0x0A] @ ''b 2'' @ [CHR 0x0A] @ EOF_MARKER"
proof -
  let ?ops = "[AddProducer (''a 1'' @ [CHR 0x0A] @ EOF_MARKER), InitMetrics ''api'', AddProducer (''b 2'' @ [CHR 0x0A])]"
  let ?settings = "\<lparr>mt_report_optional = False, mt_service_name_format = SettingsMetricPrefix\<rparr>"
  have t: "truncate_eof (''a 1'' @ [CHR 0x0A] @ EOF_MARKER) = ''a 1'' @ [CHR 0x0A]"
    "truncate_eof (''b 2'' @ [CHR 0x0A]) = ''b 2'' @ [CHR 0x0A]"
    by code_simp+
  have "fst (encode_to_text constant_externals (fst (collect (\<lambda>m. ([], []))
      \<lparr>co_include_optional = False, co_service_name = Some ''api'', co_service_name_format = Collect.MetricPrefix\<rparr>
      (None :: nat registry)))) = EOF_MARKER"
    by code_simp
  with endpoint_text_composed [of ?ops constant_externals "\<lambda>m. ([], [])" ?settings "None :: nat registry"] t show ?thesis
    by (auto simp: whole_lines_def line_end_def)
qed

section \<open>A process with metrics\<close>

text \<open>What the registry of the process holds: the metrics that the code of \<open>#[metrics]\<close> registers, by
  number, and the collector of the info metrics. \<open>BuildInfo\<close> and \<open>RuntimeInfo\<close> are the structures that
  \<open>metrics/init.rs\<close> declares with \<open>#[info_metric]\<close>.\<close>

datatype endpoint_metric = Declared "nat named_metric" | InfoCollector

datatype info_type = BuildInfo | RuntimeInfo

fun info_struct_of :: "info_type \<Rightarrow> unit info_struct" where
  "info_struct_of BuildInfo =
     \<lparr>ins_attrs = \<lparr>sa_cfg = [], sa_doc = '' Build and version information''\<rparr>, ins_ident = ''BuildInfo'',
      ins_fields = [\<lparr>inf_attrs = \<lparr>fda_serde = None, fda_serde_as = None\<rparr>, inf_rest = ()\<rparr>]\<rparr>"
| "info_struct_of RuntimeInfo =
     \<lparr>ins_attrs = \<lparr>sa_cfg = [], sa_doc = '' Information about the process runtime''\<rparr>,
      ins_ident = ''RuntimeInfo'',
      ins_fields = [\<lparr>inf_attrs = \<lparr>fda_serde = None, fda_serde_as = None\<rparr>, inf_rest = ()\<rparr>]\<rparr>"

definition init_info :: "info_type \<Rightarrow> sval \<Rightarrow> info_type info_metric" where
  "init_info ty v =
     info_value ty (expand_info_metric \<lparr>ima_crate_path = [''crate''], ima_name = None\<rparr> (info_struct_of ty)) v"

definition build_info_value :: "string \<Rightarrow> sval" where
  "build_info_value version = SStruct ''BuildInfo'' [(''version'', SStr version)]"

definition runtime_info_value :: "int \<Rightarrow> sval" where
  "runtime_info_value pid = SStruct ''RuntimeInfo'' [(''pid'', SInt U32 pid)]"

text \<open>The process: the cells, the info metrics with the registry of the process, and a module that was
  declared with \<open>#[metrics]\<close>.\<close>

record 'k metrics_process =
  mp_cells :: metrics_cells
  mp_infos :: "(info_type, endpoint_metric) info_state"
  mp_module :: "'k module_world"

definition metrics_process_new :: "'k module_world \<Rightarrow> 'k metrics_process" where
  "metrics_process_new w =
     \<lparr>mp_cells = metrics_cells_new, mp_infos = \<lparr>is_store = None, is_registry = None\<rparr>, mp_module = w\<rparr>"

text \<open>\<open>metrics::init\<close>, apart from the hook for errors during collection, which is in \<open>Diagnostics\<close>.\<close>

definition metrics_init ::
  "externals \<Rightarrow> string \<Rightarrow> string \<Rightarrow> int \<Rightarrow> 'k metrics_process \<Rightarrow> 'k metrics_process" where
  "metrics_init ext name_in_metrics version pid p =
     (case set_service_name name_in_metrics (mp_cells p) of (first_install, cells) \<Rightarrow>
        (let p = p\<lparr>mp_cells := cells\<rparr> in
         if first_install then
           let infos = fst (report_info ext InfoCollector (init_info BuildInfo (build_info_value version)) (mp_infos p));
               infos = fst (report_info ext InfoCollector (init_info RuntimeInfo (runtime_info_value pid)) infos)
           in p\<lparr>mp_infos := infos\<rparr>
         else p))"

text \<open>A call of a function of the module: what it registers goes to the registry of the process.\<close>

definition register_declared ::
  "nat named_metric registry \<Rightarrow> endpoint_metric registry \<Rightarrow> endpoint_metric registry" where
  "register_declared new reg =
     (case new of None \<Rightarrow> reg | Some es \<Rightarrow> Some (registry_get reg @ map (map_entry Declared) es))"

definition call_module :: "metric_code list \<Rightarrow> 'k module_op \<Rightarrow> 'k metrics_process \<Rightarrow> 'k metrics_process" where
  "call_module codes op p =
     (let w = module_step codes op ((mp_module p)\<lparr>mw_registry := None\<rparr>)
      in p\<lparr>mp_module := w,
           mp_infos := (mp_infos p)\<lparr>is_registry := register_declared (mw_registry w) (is_registry (mp_infos p))\<rparr>\<rparr>)"

datatype 'k process_op = Init string string int | AddExtra string | InModule "'k module_op"

fun process_step ::
  "externals \<Rightarrow> metric_code list \<Rightarrow> 'k process_op \<Rightarrow> 'k metrics_process \<Rightarrow> 'k metrics_process" where
  "process_step ext codes (Init name version pid) p = metrics_init ext name version pid p"
| "process_step ext codes (AddExtra b) p = p\<lparr>mp_cells := add_extra_producer b (mp_cells p)\<rparr>"
| "process_step ext codes (InModule op) p = call_module codes op p"

definition process_run ::
  "externals \<Rightarrow> metric_code list \<Rightarrow> 'k process_op list \<Rightarrow> 'k metrics_process \<Rightarrow> 'k metrics_process" where
  "process_run ext codes ops p = fold (process_step ext codes) ops p"

text \<open>\<open>EncodeMetric::encode\<close> of what the registry holds; the order \<open>es\<close> is that of the map of infos.\<close>

fun endpoint_encode ::
  "(nat \<Rightarrow> metric_family list \<times> event list) \<Rightarrow> (info_type, endpoint_metric) info_state \<Rightarrow>
   (info_type \<times> info_entry) list \<Rightarrow> endpoint_metric \<Rightarrow> metric_family list \<times> event list" where
  "endpoint_encode encv infos es (Declared nm) = named_encode encv nm"
| "endpoint_encode encv infos es InfoCollector = (info_encode infos es, [])"

section \<open>What the process registers\<close>

fun cells_ops :: "'k process_op list \<Rightarrow> metrics_cells_op list" where
  "cells_ops [] = []"
| "cells_ops (Init name version pid # ops) = InitMetrics name # cells_ops ops"
| "cells_ops (AddExtra b # ops) = AddProducer b # cells_ops ops"
| "cells_ops (InModule op # ops) = cells_ops ops"

fun process_inits :: "'k process_op list \<Rightarrow> (string \<times> string \<times> int) list" where
  "process_inits [] = []"
| "process_inits (Init name version pid # ops) = (name, version, pid) # process_inits ops"
| "process_inits (_ # ops) = process_inits ops"

fun module_ops :: "'k process_op list \<Rightarrow> 'k module_op list" where
  "module_ops [] = []"
| "module_ops (InModule op # ops) = op # module_ops ops"
| "module_ops (_ # ops) = module_ops ops"

lemma inits_of_cells_ops: "inits_of (cells_ops ops) = map fst (process_inits ops)"
  by (induction ops rule: cells_ops.induct) simp_all

definition info_store :: "externals \<Rightarrow> string \<Rightarrow> int \<Rightarrow> info_type \<rightharpoonup> info_entry" where
  "info_store ext version pid =
     [BuildInfo \<mapsto> entry_of ext (init_info BuildInfo (build_info_value version)),
      RuntimeInfo \<mapsto> entry_of ext (init_info RuntimeInfo (runtime_info_value pid))]"

lemma init_info_labels:
  "to_label_pairs ext (build_info_value version) = Inr [\<lparr>lp_name = Some ''version'', lp_value = Some version\<rparr>]"
  "to_label_pairs ext (runtime_info_value pid) = Inr [\<lparr>lp_name = Some ''pid'', lp_value = Some (show_int pid)\<rparr>]"
  by (simp_all add: to_label_pairs_def build_info_value_def runtime_info_value_def validate_label_name_def
      is_valid_name_def)

lemma init_info_serializable [simp]:
  "serializable ext (init_info BuildInfo (build_info_value version))"
  "serializable ext (init_info RuntimeInfo (runtime_info_value pid))"
  "im_type (init_info ty v) = ty"
  by (simp_all add: serializable_def init_info_def info_value_def init_info_labels)

text \<open>The invariant of a run: which entries the registry has, in whatever order.\<close>

definition process_ok :: "metric_code list \<Rightarrow> 'k metrics_process \<Rightarrow> bool" where
  "process_ok codes p \<longleftrightarrow>
     world_ok codes (mp_module p) \<and>
     mset (registry_get (is_registry (mp_infos p))) =
       (if mw_static (mp_module p) = None then {#} else mset (map (map_entry Declared) (code_entries 0 codes))) +
       (if is_store (mp_infos p) = None then {#} else {#collector_entry InfoCollector#}) \<and>
     (is_store (mp_infos p) = None \<longleftrightarrow> me_service_name (mp_cells p) = None)"

lemma registry_get_register_declared:
  "registry_get (register_declared new reg) = registry_get reg @ map (map_entry Declared) (registry_get new)"
  by (simp add: register_declared_def registry_get_def split: option.split)

lemma metrics_init_result:
  assumes "p' = metrics_init ext name version pid p"
  shows "mp_module p' = mp_module p"
    and "mp_cells p' = snd (set_service_name name (mp_cells p))"
    and "me_service_name (mp_cells p) \<noteq> None \<Longrightarrow> mp_infos p' = mp_infos p"
    and "me_service_name (mp_cells p) = None \<Longrightarrow> is_store (mp_infos p) = None \<Longrightarrow>
      is_store (mp_infos p') \<noteq> None \<and> store_map (mp_infos p') = info_store ext version pid \<and>
      registry_get (is_registry (mp_infos p')) =
        registry_get (is_registry (mp_infos p)) @ [collector_entry InfoCollector]"
  using assms
  by (auto simp: metrics_init_def Let_def set_service_name_def report_info_store report_info_registry
      info_store_def store_map_def [of "mp_infos p"] split: option.splits)

lemma call_module_result:
  assumes "world_ok codes (mp_module p)" "op_generated codes op" "p' = call_module codes op p"
  shows "world_ok codes (mp_module p')" "mw_static (mp_module p') \<noteq> None" "mp_cells p' = mp_cells p"
    and "is_store (mp_infos p') = is_store (mp_infos p)"
    and "registry_get (is_registry (mp_infos p')) = registry_get (is_registry (mp_infos p)) @
      (if mw_static (mp_module p) = None then map (map_entry Declared) (code_entries 0 codes) else [])"
proof -
  let ?w = "(mp_module p)\<lparr>mw_registry := None\<rparr>"
  have "world_ok codes ?w" "registry_get (mw_registry ?w) = []"
    using assms(1) by (simp_all add: world_ok_def registry_get_def split: option.splits)
  with module_step_result [of codes ?w op] assms(2)
  have w: "world_ok codes (module_step codes op ?w)" "mw_static (module_step codes op ?w) \<noteq> None"
    "registry_get (mw_registry (module_step codes op ?w)) =
      (if mw_static (mp_module p) = None then code_entries 0 codes else [])"
    by simp_all
  then show "world_ok codes (mp_module p')" "mw_static (mp_module p') \<noteq> None" "mp_cells p' = mp_cells p"
    "is_store (mp_infos p') = is_store (mp_infos p)"
    "registry_get (is_registry (mp_infos p')) = registry_get (is_registry (mp_infos p)) @
      (if mw_static (mp_module p) = None then map (map_entry Declared) (code_entries 0 codes) else [])"
    by (simp_all add: assms(3) call_module_def Let_def registry_get_register_declared)
qed

lemma process_step_result:
  assumes "process_ok codes p" "\<forall>o'. op = InModule o' \<longrightarrow> op_generated codes o'"
    and "p' = process_step ext codes op p"
  shows "process_ok codes p'"
    and "mp_cells p' = fold metrics_cells_step (cells_ops [op]) (mp_cells p)"
    and "mw_static (mp_module p') = None \<longleftrightarrow> mw_static (mp_module p) = None \<and> module_ops [op] = []"
    and "store_map (mp_infos p') =
      (case process_inits [op] of
         (name, version, pid) # _ \<Rightarrow>
           if me_service_name (mp_cells p) = None then info_store ext version pid else store_map (mp_infos p)
       | [] \<Rightarrow> store_map (mp_infos p))"
proof -
  have "process_ok codes p' \<and> mp_cells p' = fold metrics_cells_step (cells_ops [op]) (mp_cells p) \<and>
    (mw_static (mp_module p') = None \<longleftrightarrow> mw_static (mp_module p) = None \<and> module_ops [op] = []) \<and>
    store_map (mp_infos p') =
      (case process_inits [op] of
         (name, version, pid) # _ \<Rightarrow>
           if me_service_name (mp_cells p) = None then info_store ext version pid else store_map (mp_infos p)
       | [] \<Rightarrow> store_map (mp_infos p))"
  proof (cases op)
    case (Init name version pid)
    with assms(3) have p': "p' = metrics_init ext name version pid p" by simp
    note init = metrics_init_result [OF p']
    show ?thesis
    proof (cases "me_service_name (mp_cells p) = None")
      case True
      then have "is_store (mp_infos p) = None"
        using assms(1) by (simp add: process_ok_def)
      with True init assms(1) Init show ?thesis
        by (simp add: process_ok_def set_service_name_def)
    next
      case False
      with init(1-3) assms(1) Init show ?thesis
        by (auto simp: process_ok_def set_service_name_def)
    qed
  next
    case (AddExtra b)
    with assms show ?thesis
      by (simp add: process_ok_def add_extra_producer_def)
  next
    case (InModule o')
    with assms have p': "p' = call_module codes o' p" and o': "op_generated codes o'" and w: "world_ok codes (mp_module p)"
      by (simp_all add: process_ok_def)
    note call = call_module_result [OF w o' p']
    have "store_map (mp_infos p') = store_map (mp_infos p)"
      using call(4) by (simp add: store_map_def)
    with call assms(1) InModule show ?thesis
      by (cases "mw_static (mp_module p) = None") (auto simp: process_ok_def)
  qed
  then show "process_ok codes p'" "mp_cells p' = fold metrics_cells_step (cells_ops [op]) (mp_cells p)"
    "mw_static (mp_module p') = None \<longleftrightarrow> mw_static (mp_module p) = None \<and> module_ops [op] = []"
    "store_map (mp_infos p') =
      (case process_inits [op] of
         (name, version, pid) # _ \<Rightarrow>
           if me_service_name (mp_cells p) = None then info_store ext version pid else store_map (mp_infos p)
       | [] \<Rightarrow> store_map (mp_infos p))"
    by blast+
qed

lemma ops_split:
  "cells_ops (op # ops) = cells_ops [op] @ cells_ops ops"
  "process_inits (op # ops) = process_inits [op] @ process_inits ops"
  "module_ops (op # ops) = module_ops [op] @ module_ops ops"
  by (cases op; simp)+

lemma process_run_result:
  assumes "process_ok codes p" "\<forall>op\<in>set (module_ops ops). op_generated codes op"
    and "p' = process_run ext codes ops p"
  shows "process_ok codes p' \<and>
    mp_cells p' = fold metrics_cells_step (cells_ops ops) (mp_cells p) \<and>
    (mw_static (mp_module p') = None \<longleftrightarrow> mw_static (mp_module p) = None \<and> module_ops ops = []) \<and>
    store_map (mp_infos p') =
      (case process_inits ops of
         (name, version, pid) # _ \<Rightarrow>
           if me_service_name (mp_cells p) = None then info_store ext version pid else store_map (mp_infos p)
       | [] \<Rightarrow> store_map (mp_infos p))"
  using assms
proof (induction ops arbitrary: p)
  case Nil
  then show ?case by (simp add: process_run_def)
next
  case (Cons op ops)
  let ?p = "process_step ext codes op p"
  have op: "\<forall>o'. op = InModule o' \<longrightarrow> op_generated codes o'"
    and ops: "\<forall>op\<in>set (module_ops ops). op_generated codes op"
    using Cons.prems(2) ops_split(3) [of op ops] by auto
  note step = process_step_result [OF Cons.prems(1) op refl, of ext]
  have "p' = process_run ext codes ops ?p"
    using Cons.prems(3) by (simp add: process_run_def)
  note rest = Cons.IH [OF step(1) ops this]
  have cells: "mp_cells p' = fold metrics_cells_step (cells_ops (op # ops)) (mp_cells p)"
    using rest step(2) by (simp add: ops_split(1) [of op ops])
  have store: "store_map (mp_infos p') =
      (case process_inits (op # ops) of
         (name, version, pid) # _ \<Rightarrow>
           if me_service_name (mp_cells p) = None then info_store ext version pid else store_map (mp_infos p)
       | [] \<Rightarrow> store_map (mp_infos p))"
  proof (cases op)
    case (Init name version pid)
    then have "me_service_name (mp_cells ?p) \<noteq> None"
      using step(2) by (auto simp: set_service_name_def simp del: process_step.simps split: option.splits)
    with rest step(4) Init show ?thesis
      by (auto split: list.split simp del: process_step.simps)
  next
    case (AddExtra b)
    then have "me_service_name (mp_cells ?p) = me_service_name (mp_cells p)"
      by (simp add: add_extra_producer_def)
    with rest step(4) AddExtra show ?thesis
      by (auto split: list.split simp del: process_step.simps)
  next
    case (InModule o')
    then have "mp_cells ?p = mp_cells p"
      using step(2) by (simp del: process_step.simps)
    with rest step(4) InModule show ?thesis
      by (auto split: list.split simp del: process_step.simps)
  qed
  have static: "mw_static (mp_module p') = None \<longleftrightarrow> mw_static (mp_module p) = None \<and> module_ops (op # ops) = []"
    using rest step(3) by (simp add: ops_split(3) [of op ops])
  show ?case
    using rest cells store static by blast
qed

section \<open>What the collector gives\<close>

definition init_info_family :: "info_type \<Rightarrow> label_pair list \<Rightarrow> metric_family" where
  "init_info_family ty ls =
     \<lparr>f_name = Some (case ty of BuildInfo \<Rightarrow> ''build_info'' | RuntimeInfo \<Rightarrow> ''runtime_info''),
      f_help = Some (case ty of BuildInfo \<Rightarrow> ''Build and version information''
        | RuntimeInfo \<Rightarrow> ''Information about the process runtime''),
      f_type = Some (metric_type_to_i32 Gauge),
      f_metric = [metric_default\<lparr>m_label := ls, m_gauge := Some \<lparr>g_value = Some f64_one\<rparr>\<rparr>],
      f_unit = None\<rparr>"

lemma init_info_names:
  "to_snake_case ''BuildInfo'' = ''build_info''" "to_snake_case ''RuntimeInfo'' = ''runtime_info''"
  "trim '' Build and version information'' = ''Build and version information''"
  "trim '' Information about the process runtime'' = ''Information about the process runtime''"
  by code_simp+

lemma init_info_entry:
  "to_label_pairs ext v = Inr ls \<Longrightarrow> info_family (entry_of ext (init_info ty v)) = init_info_family ty ls"
  by (cases ty) (simp_all add: info_family_def entry_of_def init_info_def info_value_def expand_info_metric_def
      init_info_family_def init_info_names)

lemma init_info_encoded:
  assumes "store_map infos = info_store ext version pid" "iteration_of (store_map infos) es"
  shows "mset (info_encode infos es) =
    {#init_info_family BuildInfo [\<lparr>lp_name = Some ''version'', lp_value = Some version\<rparr>],
      init_info_family RuntimeInfo [\<lparr>lp_name = Some ''pid'', lp_value = Some (show_int pid)\<rparr>]#}"
proof -
  let ?b = "entry_of ext (init_info BuildInfo (build_info_value version))"
  let ?r = "entry_of ext (init_info RuntimeInfo (runtime_info_value pid))"
  have "e \<in> set es \<longleftrightarrow> e \<in> set [(BuildInfo, ?b), (RuntimeInfo, ?r)]" for e
    using iteration_of_mem [OF assms(2), of "fst e" "snd e"]
    by (cases e; cases "fst e") (auto simp: assms(1) info_store_def)
  then have "set es = set [(BuildInfo, ?b), (RuntimeInfo, ?r)]" by blast
  moreover have "distinct es"
    using assms(2) by (simp add: iteration_of_def distinct_map)
  ultimately have es: "mset es = {#(BuildInfo, ?b), (RuntimeInfo, ?r)#}"
    using set_eq_iff_mset_eq_distinct [of es "[(BuildInfo, ?b), (RuntimeInfo, ?r)]"] by simp
  have "is_store infos \<noteq> None"
    using arg_cong [OF assms(1), of "\<lambda>m. m BuildInfo"]
    by (cases "is_store infos") (simp_all add: store_map_def info_store_def)
  then have "mset (info_encode infos es) = image_mset (\<lambda>(ty, entry). info_family entry) (mset es)"
    by (auto simp: info_encode_def split: option.split)
  then show ?thesis
    by (simp add: es init_info_entry init_info_labels)
qed

lemma init_info_family_valid:
  assumes "find_label_issue ls None = None"
  shows "family_valid (init_info_family ty ls)"
  using assms
  by (cases ty) (simp_all add: family_valid_def init_info_family_def is_valid_name_def rows_are_valid_def
      family_type_def metric_type_try_from_def reserved_row_label_def metric_default_def exemplars_are_valid_def)

lemma init_info_family_samples:
  "family_samples ext (init_info_family ty ls) =
     [(case ty of BuildInfo \<Rightarrow> ''build_info'' | RuntimeInfo \<Rightarrow> ''runtime_info'',
       map (\<lambda>l. (or_empty (lp_name l), or_empty (lp_value l))) ls, write_legacy_compatible_float ext f64_one)]"
  by (simp add: family_samples_def init_info_family_def family_type_def metric_type_try_from_def row_sample_def
      metric_default_def list_of_def or_zero_def)

lemma code_entries_declared:
  assumes "expand_from_parsed message cfg False mod_name [f] = Inr codes" "fa_cfg (if_attrs f) = []"
    and "mw_static (w :: 'k module_world) = None" "op_generated codes (op :: 'k module_op)"
  shows "code_entries 0 codes = [declared_entry mod_name False 0 f]"
proof -
  let ?w = "w\<lparr>mw_registry := None\<rparr>"
  have "registry_get (mw_registry (module_run codes [op] ?w)) = [declared_entry mod_name False 0 f]"
    using module_registry [OF assms(1), of ?w "[op]"] assms(2-4) by (simp add: registry_get_def)
  moreover have "registry_get (mw_registry (module_run codes [op] ?w)) = code_entries 0 codes"
    using module_run_result [of codes ?w "[op]"] assms(3,4) by (simp add: world_ok_def registry_get_def)
  ultimately show ?thesis by simp
qed

lemma mset_concat_map: "mset (concat (map k xs)) = (\<Sum>x\<in>#mset xs. mset (k x))"
  by (induction xs) simp_all

lemma mset_concat_maps:
  "mset (concat (map k (concat (map (\<lambda>e. map (g e) (h e)) es)))) =
     (\<Sum>e\<in>#mset es. \<Sum>f\<in>#mset (h e). mset (k (g e f)))"
proof (induction es)
  case (Cons e es)
  have "mset (concat (map k (map (g e) (h e)))) = (\<Sum>f\<in>#mset (h e). mset (k (g e f)))"
    by (simp only: map_map comp_def mset_concat_map)
  with Cons show ?case by simp
qed simp

text \<open>What is scraped does not depend on the order in the registry or in the map of infos, up to the order
  of the samples.\<close>

lemma scrape_registry:
  assumes "ryu_text ext"
    and "\<forall>e\<in>set (registry_get reg). \<not> md_optional (re_metadata e)"
    and "\<forall>e\<in>set (registry_get reg). \<forall>f\<in>set (fst (enc (re_metric e))). family_valid f \<and> service_name_fits opts f"
    and "co_service_name_format opts = Collect.MetricPrefix"
  shows "\<exists>samples. scrape (fst (encode_to_text ext (fst (collect enc opts reg)))) = Some samples \<and>
    mset samples = (\<Sum>e\<in>#mset (registry_get reg).
      \<Sum>f\<in>#mset (fst (enc (re_metric e))). mset (family_samples ext (with_service_name opts (re_metadata e) f)))"
proof -
  let ?fs = "concat (map (\<lambda>e. map (with_service_name opts (re_metadata e)) (fst (enc (re_metric e)))) (registry_get reg))"
  have "included_entries opts reg = registry_get reg"
    using assms(2) by (simp add: included_entries_def filter_id_conv)
  then have "fst (collect enc opts reg) = ?fs"
    using collect_complete [of opts reg enc] assms(3,4) by simp
  moreover have "sanitized_families TextEncoding ?fs = ?fs"
    using assms(3) with_service_name_valid by (intro sanitized_families_valid) auto
  ultimately have "scrape (fst (encode_to_text ext (fst (collect enc opts reg)))) =
      Some (concat (map (family_samples ext) ?fs))"
    using scrape_written [OF assms(1), of ?fs] by simp
  moreover have "mset (concat (map (family_samples ext) ?fs)) = (\<Sum>e\<in>#mset (registry_get reg).
      \<Sum>f\<in>#mset (fst (enc (re_metric e))). mset (family_samples ext (with_service_name opts (re_metadata e) f)))"
    by (rule mset_concat_maps)
  ultimately show ?thesis by blast
qed

section \<open>Properties\<close>

text \<open>C4: from a declaration to a scrape. A module declares one counter with \<open>#[metrics]\<close>, without labels,
  constructor and \<open>cfg\<close> and not optional. The metric system is initialized and the module's function
  called, each at least once and in any order, other counters are updated in between, and nothing else
  registers a metric, reports an info metric or adds a producer. The endpoint then gives a text from
  which exactly three samples are read: the counter's, under the name of the service, of the module and
  of the function with underscores between them, with a double that denotes the sum of the increments,
  as long as that is below \<open>2^53\<close>; and, without the service's name, the two that the first initialization
  reports, the version of the service and the number of the process.\<close>

theorem declared_counter_scrape:
  assumes "ryu_text ext" and "is_valid_name (mod_name @ ''_'' @ if_ident f)"
    and "fa_cfg (if_attrs f) = []" "fa_ctor (if_attrs f) = None" "\<not> fa_optional (if_attrs f)" "if_args f = []"
    and "expand_from_parsed message cfg False mod_name [f] = Inr codes"
    and "mw_static (w :: 'k module_world) = None"
    and "module_ops pops \<noteq> []" "\<forall>op\<in>set (module_ops pops). op_generated codes op"
    and "process_inits pops = (svc, version, pid) # later" "CHR 0x00 \<notin> set svc" "producers_of (cells_ops pops) = []"
    and "p = process_run ext codes pops (metrics_process_new w)"
    and "iteration_of (store_map (mp_infos p)) es"
    and "(c, st) = counter_handle_default st0"
    and "\<forall>op\<in>set ops. counter_op_target op < length st"
    and "(\<Sum>v\<leftarrow>amounts_on (cn_val c) ops. uint v) < 2 ^ 53"
  shows "\<exists>x samples. f64_denotes x (\<Sum>v\<leftarrow>amounts_on (cn_val c) ops. uint v) \<and>
    scrape (endpoint_buffer ext
      (endpoint_encode (\<lambda>i. counter_encode_metric_value (c, snd (counter_run ops st))) (mp_infos p) es)
      \<lparr>mt_report_optional = rep, mt_service_name_format = SettingsMetricPrefix\<rparr>
      (is_registry (mp_infos p)) (mp_cells p)) = Some samples \<and>
    mset samples =
      {#(svc @ ''_'' @ mod_name @ ''_'' @ if_ident f, [], write_legacy_compatible_float ext x),
        (''build_info'', [(''version'', version)], write_legacy_compatible_float ext f64_one),
        (''runtime_info'', [(''pid'', show_int pid)], write_legacy_compatible_float ext f64_one)#}"
proof -
  let ?m = "(c, snd (counter_run ops st))"
  let ?name = "mod_name @ ''_'' @ if_ident f"
  let ?nm = "\<lparr>nm_name = ?name, nm_help = trim (fa_doc (if_attrs f)), nm_metric = 0 :: nat\<rparr>"
  let ?d = "map_entry Declared (declared_entry mod_name False 0 f)" and ?i = "collector_entry InfoCollector"
  let ?opts = "\<lparr>co_include_optional = rep, co_service_name = Some svc, co_service_name_format = Collect.MetricPrefix\<rparr>"
  let ?settings = "\<lparr>mt_report_optional = rep, mt_service_name_format = SettingsMetricPrefix\<rparr>"
  let ?infos = "info_encode (mp_infos p) es" and ?reg = "is_registry (mp_infos p)"
  let ?encv = "\<lambda>i :: nat. counter_encode_metric_value ?m"
  let ?enc = "endpoint_encode ?encv (mp_infos p) es"
  let ?build = "init_info_family BuildInfo [\<lparr>lp_name = Some ''version'', lp_value = Some version\<rparr>]"
  let ?runtime = "init_info_family RuntimeInfo [\<lparr>lp_name = Some ''pid'', lp_value = Some (show_int pid)\<rparr>]"
  have "process_ok codes (metrics_process_new w)"
    using assms(8) by (simp add: process_ok_def metrics_process_new_def world_ok_def registry_get_def metrics_cells_new_def)
  note run = process_run_result [OF this assms(10,14)]
  have cells: "mp_cells p = fold metrics_cells_step (cells_ops pops) metrics_cells_new"
    and store: "store_map (mp_infos p) = info_store ext version pid"
    using run assms(11) by (simp_all add: metrics_process_new_def metrics_cells_new_def)
  obtain op where "op_generated codes (op :: 'k module_op)"
    using assms(9,10) by (cases "module_ops pops") auto
  then have entries: "code_entries 0 codes = [declared_entry mod_name False 0 f]"
    by (rule code_entries_declared [OF assms(7,3,8)])
  have "is_store (mp_infos p) \<noteq> None"
    using arg_cong [OF store, of "\<lambda>m. m BuildInfo"]
    by (cases "is_store (mp_infos p)") (simp_all add: store_map_def info_store_def)
  moreover have "mw_static (mp_module p) \<noteq> None" and ok: "process_ok codes p"
    using run assms(9) by blast+
  ultimately have reg: "mset (registry_get ?reg) = {#?d, ?i#}"
    using ok entries by (auto simp: process_ok_def)
  note infos = init_info_encoded [OF store assms(15)]
  obtain x where x: "counter_encode_metric_value ?m = (encode_counter x, [])"
      "f64_denotes x (\<Sum>v\<leftarrow>amounts_on (cn_val c) ops. uint v)"
    using counter_exports [OF assms(16-18)] by blast
  have fd: "fst (?enc (re_metric ?d)) = map (complete_family ?nm) (encode_counter x)"
    by (simp add: declared_entry_def named_encode_def x)
  have fi: "fst (?enc (re_metric ?i)) = ?infos"
    by (simp add: collector_entry_def)
  have es: "set (registry_get ?reg) = {?d, ?i}"
    using arg_cong [OF reg, of set_mset] by simp
  have optional: "\<forall>e\<in>set (registry_get ?reg). \<not> md_optional (re_metadata e)"
    using assms(5) by (simp add: es declared_entry_def collector_entry_def)
  let ?nm' = "\<lparr>nm_name = ?name, nm_help = trim (fa_doc (if_attrs f)), nm_metric = ?m\<rparr>"
  have "complete_family ?nm g = complete_family ?nm' g" for g
    by (simp add: complete_family_def Let_def)
  then have "family_valid g" if "g \<in> set (map (complete_family ?nm) (encode_counter x))" for g
    using counter_value.named_valid [of g ?nm'] that assms(2) by (simp add: named_encode_def x(1))
  moreover have "set ?infos = {?build, ?runtime}"
    using arg_cong [OF infos, of set_mset] by simp
  then have "family_valid g" if "g \<in> set ?infos" for g
    using that by (auto simp: init_info_family_valid find_label_issue_def is_valid_name_def)
  moreover have "service_name_fits ?opts g" for g
    using assms(12) by (simp add: service_name_fits_def)
  ultimately have valid: "\<forall>e\<in>set (registry_get ?reg). \<forall>f\<in>set (fst (?enc (re_metric e))).
      family_valid f \<and> service_name_fits ?opts f"
    unfolding es ball_simps fd fi by simp
  obtain samples where samples: "scrape (fst (encode_to_text ext (fst (collect ?enc ?opts ?reg)))) = Some samples"
    "mset samples = (\<Sum>e\<in>#mset (registry_get ?reg).
      \<Sum>f\<in>#mset (fst (?enc (re_metric e))). mset (family_samples ext (with_service_name ?opts (re_metadata e) f)))"
    using scrape_registry [OF assms(1) optional valid] by auto
  have buffer: "endpoint_buffer ext ?enc ?settings ?reg (mp_cells p) =
      fst (encode_to_text ext (fst (collect ?enc ?opts ?reg)))"
    unfolding cells using endpoint_buffer_composed [of "cells_ops pops" ext ?enc ?settings ?reg] assms(11,13)
    by (auto simp: inits_of_cells_ops)
  obtain g where g: "encode_counter x = [g]"
    by (simp add: encode_counter_def)
  then have declared: "family_samples ext (with_service_name ?opts (re_metadata ?d) (complete_family ?nm g)) =
      [(svc @ ''_'' @ ?name, [], write_legacy_compatible_float ext x)]"
    by (auto simp: declared_entry_def encode_counter_def with_service_name_def prefix_family_name_def
        family_samples_def family_type_def complete_family_def Let_def list_of_def
        metric_default_def counter_default_def row_sample_def or_empty_def or_zero_def
        metric_type_try_from_def assms(5))
  have unchanged: "with_service_name ?opts (re_metadata ?i) g = g" for g
    by (simp add: with_service_name_def collector_entry_def)
  have d: "(\<Sum>f\<in>#mset (fst (?enc (re_metric ?d))).
        mset (family_samples ext (with_service_name ?opts (re_metadata ?d) f))) =
      {#(svc @ ''_'' @ ?name, [], write_legacy_compatible_float ext x)#}"
    unfolding fd g using declared by (simp del: map_entry_fields)
  have "(\<Sum>f\<in>#mset (fst (?enc (re_metric ?i))).
        mset (family_samples ext (with_service_name ?opts (re_metadata ?i) f))) =
      {#(''build_info'', [(''version'', version)], write_legacy_compatible_float ext f64_one),
        (''runtime_info'', [(''pid'', show_int pid)], write_legacy_compatible_float ext f64_one)#}"
    unfolding fi infos unchanged by (simp add: init_info_family_samples or_empty_def)
  with d have "mset samples =
      {#(svc @ ''_'' @ ?name, [], write_legacy_compatible_float ext x),
        (''build_info'', [(''version'', version)], write_legacy_compatible_float ext f64_one),
        (''runtime_info'', [(''pid'', show_int pid)], write_legacy_compatible_float ext f64_one)#}"
    unfolding samples(2) reg image_mset_add_mset sum_mset.add_mset by simp
  with samples(1) x(2) show ?thesis
    unfolding buffer by blast
qed

definition sample_process_ops :: "bool process_op list" where
  "sample_process_ops =
     [InModule (CallMetric 0 True), Init ''api'' ''1.2'' 7, Init ''late'' ''0'' 8, InModule (CallMetric 0 True)]"

lemma info_store_iteration:
  assumes "store_map infos = info_store ext version pid"
  shows "iteration_of (store_map infos)
    [(RuntimeInfo, entry_of ext (init_info RuntimeInfo (runtime_info_value pid))),
     (BuildInfo, entry_of ext (init_info BuildInfo (build_info_value version)))]"
  by (auto simp: assms iteration_of_def info_store_def)

theorem declared_counter_scrape_witness:
  "let f = \<lparr>if_attrs = sample_attrs, if_ident = ''hits'', if_args = []\<rparr>;
       ext = constant_externals
   in \<exists>codes x es samples. expand_from_parsed (\<lambda>i v p. []) (\<lambda>a. False) False ''cache'' [f] = Inr codes \<and>
     f64_denotes x 3 \<and>
     (let p = process_run ext codes sample_process_ops (metrics_process_new sample_world) in
      scrape (endpoint_buffer ext
         (endpoint_encode (\<lambda>i. counter_encode_metric_value (\<lparr>cn_val = 1\<rparr>, snd (counter_run [IncBy \<lparr>cn_val = 1\<rparr> 3] [9, 0])))
           (mp_infos p) es)
         \<lparr>mt_report_optional = False, mt_service_name_format = SettingsMetricPrefix\<rparr>
         (is_registry (mp_infos p)) (mp_cells p)) = Some samples) \<and>
     mset samples =
       {#(''api_cache_hits'', [], write_legacy_compatible_float ext x),
         (''build_info'', [(''version'', ''1.2'')], write_legacy_compatible_float ext f64_one),
         (''runtime_info'', [(''pid'', ''7'')], write_legacy_compatible_float ext f64_one)#}"
proof -
  let ?f = "\<lparr>if_attrs = sample_attrs, if_ident = ''hits'', if_args = []\<rparr>" and ?ext = constant_externals
  obtain codes where c: "expand_from_parsed (\<lambda>i v p. []) (\<lambda>a. False) False ''cache'' [?f] = Inr codes" "length codes = 1"
    by (simp add: expand_from_parsed_def sample_attrs_def metric_init_def Let_def)
  let ?p = "process_run ?ext codes sample_process_ops (metrics_process_new sample_world)"
  have w: "mw_static sample_world = None"
    by (simp add: sample_world_def)
  have ops: "module_ops sample_process_ops \<noteq> []" "\<forall>op\<in>set (module_ops sample_process_ops). op_generated codes op"
    "process_inits sample_process_ops = (''api'', ''1.2'', 7) # [(''late'', ''0'', 8)]"
    "producers_of (cells_ops sample_process_ops) = []"
    using c(2) by (simp_all add: sample_process_ops_def)
  have "process_ok codes (metrics_process_new sample_world)"
    using w by (simp add: process_ok_def metrics_process_new_def world_ok_def registry_get_def metrics_cells_new_def)
  from process_run_result [OF this ops(2) refl, of ?ext]
  have "store_map (mp_infos ?p) = info_store ?ext ''1.2'' 7"
    by (simp add: ops(3) metrics_process_new_def metrics_cells_new_def)
  note es = info_store_iteration [OF this]
  have "show_int 7 = ''7''" by code_simp
  with declared_counter_scrape [OF ryu_text_constant _ _ _ _ _ c(1) w ops(1-3) _ ops(4) refl es,
      of "\<lparr>cn_val = 1\<rparr>" "[9, 0]" "[9]" "[IncBy \<lparr>cn_val = 1\<rparr> 3]" False] c(1)
  show ?thesis
    by (simp add: counter_handle_default_def amounts_on_def is_valid_name_def sample_attrs_def Let_def) blast
qed

end
