(* ===== verification/RuntimeMetrics.thy ===== *)
theory RuntimeMetrics
  imports Prelude
begin

text \<open>
  The monitor of tokio runtimes, \<open>foundations/src/telemetry/tokio_runtime_metrics/\<close>: runtimes are
  registered in a slab under keys, and a sample stores what tokio reports of each of them in
  metric families labelled with the runtime's name and id and the worker. tokio's readings are a
  parameter; the key of a new entry is the slab's choice. A family is a map from labels to values,
  and all calls hold the lock of the monitor. The lemmas show that no two runtimes write to the
  same series.
\<close>

section \<open>Readings\<close>

text \<open>The methods of \<open>RuntimeMetrics\<close>, those of workers with the index; durations in microseconds.\<close>

datatype reading =
    NumWorkers | NumBlockingThreads | NumAliveTasks | NumIdleBlockingThreads
  | RemoteScheduleCount | BudgetForcedYieldCount | IoDriverFdRegisteredCount
  | IoDriverFdDeregisteredCount | IoDriverReadyCount | GlobalQueueDepth | BlockingQueueDepth
  | WorkerParkCount nat | WorkerNoopCount nat | WorkerStealCount nat | WorkerStealOperations nat
  | WorkerPollCount nat | WorkerTotalBusyDuration nat | WorkerLocalScheduleCount nat
  | WorkerOverflowCount nat | WorkerLocalQueueDepth nat | WorkerMeanPollTime nat

type_synonym readings = "nat \<Rightarrow> reading \<Rightarrow> nat"

record runtime_handle =
  rt_name :: "string option"
  rt_id :: "nat option"
  rt_handle :: nat

text \<open>A series: the module and the function that declare the metric, the name and the id of the
  runtime and the index of the worker.\<close>

type_synonym series = "(string \<times> string) \<times> string option \<times> nat option \<times> nat option"

type_synonym store = "series \<rightharpoonup> u64"

definition global_metrics :: "((string \<times> string) \<times> reading) list" where
  "global_metrics =
     map (\<lambda>(f, r). ((''tokio_runtime_core'', f), r))
       [(''workers'', NumWorkers),
        (''blocking_threads'', NumBlockingThreads),
        (''num_alive_tasks'', NumAliveTasks),
        (''idle_blocking_threads'', NumIdleBlockingThreads),
        (''remote_schedules_total'', RemoteScheduleCount),
        (''budget_forced_yields_total'', BudgetForcedYieldCount),
        (''io_driver_fd_registrations_total'', IoDriverFdRegisteredCount),
        (''io_driver_fd_deregistrations_total'', IoDriverFdDeregisteredCount),
        (''io_driver_fd_readies_total'', IoDriverReadyCount),
        (''global_queue_depth'', GlobalQueueDepth),
        (''blocking_queue_depth'', BlockingQueueDepth)]"

definition worker_metrics :: "((string \<times> string) \<times> (nat \<Rightarrow> reading)) list" where
  "worker_metrics =
     map (\<lambda>(f, r). ((''tokio_runtime_worker'', f), r))
       [(''parks_total'', WorkerParkCount),
        (''noops_total'', WorkerNoopCount),
        (''task_steals_total'', WorkerStealCount),
        (''steal_operations_total'', WorkerStealOperations),
        (''polls_total'', WorkerPollCount),
        (''busy_duration_micros_total'', WorkerTotalBusyDuration),
        (''local_schedules_total'', WorkerLocalScheduleCount),
        (''overflows_total'', WorkerOverflowCount),
        (''local_queue_depth'', WorkerLocalQueueDepth),
        (''mean_poll_time_micros'', WorkerMeanPollTime)]"

definition set_series :: "series \<times> u64 \<Rightarrow> store \<Rightarrow> store" where
  "set_series s st = st(fst s \<mapsto> snd s)"

text \<open>The assignments in the order of the code; \<open>as u64\<close> keeps the low bits.\<close>

definition record_global_metrics :: "readings \<Rightarrow> runtime_handle \<Rightarrow> (series \<times> u64) list" where
  "record_global_metrics metrics h =
     map (\<lambda>(m, r). ((m, rt_name h, rt_id h, None), word_of_nat (metrics (rt_handle h) r))) global_metrics"

definition record_worker_metrics :: "readings \<Rightarrow> runtime_handle \<Rightarrow> nat \<Rightarrow> (series \<times> u64) list" where
  "record_worker_metrics metrics h worker_idx =
     map (\<lambda>(m, r). ((m, rt_name h, rt_id h, Some worker_idx),
       word_of_nat (metrics (rt_handle h) (r worker_idx)))) worker_metrics"

definition record_sample :: "readings \<Rightarrow> runtime_handle \<Rightarrow> (series \<times> u64) list" where
  "record_sample metrics h =
     record_global_metrics metrics h @
     concat (map (record_worker_metrics metrics h) [0..<metrics (rt_handle h) NumWorkers])"

section \<open>The monitor\<close>

text \<open>The slab by its keys; a vacant entry is \<open>None\<close>.\<close>

type_synonym monitor = "runtime_handle option list"

definition slab_insert :: "nat \<Rightarrow> runtime_handle \<Rightarrow> monitor \<Rightarrow> monitor" where
  "slab_insert key h m = (if key < length m then m[key := Some h] else m @ [Some h])"

definition occupied :: "monitor \<Rightarrow> runtime_handle list" where
  "occupied m = concat (map (\<lambda>e. case e of None \<Rightarrow> [] | Some h \<Rightarrow> [h]) m)"

text \<open>\<open>None\<close> is the failed assertion.\<close>

definition register_runtime ::
  "(monitor \<Rightarrow> nat) \<Rightarrow> string option \<Rightarrow> nat option \<Rightarrow> nat \<Rightarrow> monitor \<Rightarrow> (nat \<times> monitor) option" where
  "register_runtime vacant_key name rid handle m =
     (if \<forall>h\<in>set (occupied m). (rt_name h, rt_id h) \<noteq> (name, rid)
      then Some (vacant_key m, slab_insert (vacant_key m) \<lparr>rt_name = name, rt_id = rid, rt_handle = handle\<rparr> m)
      else None)"

definition deregister_runtime :: "nat \<Rightarrow> monitor \<Rightarrow> bool \<times> monitor" where
  "deregister_runtime key m =
     (if key < length m \<and> m ! key \<noteq> None then (True, m[key := None]) else (False, m))"

definition record_runtime_metrics_sample :: "readings \<Rightarrow> monitor \<Rightarrow> store \<Rightarrow> store" where
  "record_runtime_metrics_sample metrics m st =
     fold set_series (concat (map (record_sample metrics) (occupied m))) st"

datatype monitor_op =
    RegisterRuntime "string option" "nat option" nat
  | DeregisterRuntime nat
  | RecordSample readings

text \<open>A failed assertion leaves the monitor as it was; the lock does not poison.\<close>

fun monitor_step :: "(monitor \<Rightarrow> nat) \<Rightarrow> monitor_op \<Rightarrow> monitor \<times> store \<Rightarrow> monitor \<times> store" where
  "monitor_step vacant_key (RegisterRuntime name rid handle) (m, st) =
     (case register_runtime vacant_key name rid handle m of None \<Rightarrow> (m, st) | Some (key, m) \<Rightarrow> (m, st))"
| "monitor_step vacant_key (DeregisterRuntime key) (m, st) = (snd (deregister_runtime key m), st)"
| "monitor_step vacant_key (RecordSample metrics) (m, st) = (m, record_runtime_metrics_sample metrics m st)"

definition slab_vacant :: "(monitor \<Rightarrow> nat) \<Rightarrow> bool" where
  "slab_vacant vacant_key \<longleftrightarrow> (\<forall>m. vacant_key m \<le> length m \<and> (vacant_key m < length m \<longrightarrow> m ! vacant_key m = None))"

section \<open>Runtimes keep apart\<close>

definition identity :: "runtime_handle \<Rightarrow> string option \<times> nat option" where
  "identity h = (rt_name h, rt_id h)"

definition monitor_ok :: "monitor \<Rightarrow> bool" where
  "monitor_ok m \<longleftrightarrow> distinct (map identity (occupied m))"

lemma occupied_split:
  "k < length m \<Longrightarrow>
     occupied (m[k := e]) = occupied (take k m) @ (case e of None \<Rightarrow> [] | Some h \<Rightarrow> [h]) @ occupied (drop (Suc k) m)"
  "k < length m \<Longrightarrow>
     occupied m = occupied (take k m) @ (case m ! k of None \<Rightarrow> [] | Some h \<Rightarrow> [h]) @ occupied (drop (Suc k) m)"
proof -
  assume k: "k < length m"
  show "occupied (m[k := e]) = occupied (take k m) @ (case e of None \<Rightarrow> [] | Some h \<Rightarrow> [h]) @ occupied (drop (Suc k) m)"
    using k by (simp add: upd_conv_take_nth_drop occupied_def)
  show "occupied m = occupied (take k m) @ (case m ! k of None \<Rightarrow> [] | Some h \<Rightarrow> [h]) @ occupied (drop (Suc k) m)"
    by (subst id_take_nth_drop [OF k]) (simp add: occupied_def)
qed

lemma register_ok:
  assumes "slab_vacant vacant_key" "monitor_ok m" "register_runtime vacant_key name rid handle m = Some (key, m')"
  shows "monitor_ok m'"
proof -
  let ?h = "\<lparr>rt_name = name, rt_id = rid, rt_handle = handle\<rparr>"
  have new: "\<forall>h\<in>set (occupied m). identity h \<noteq> identity ?h"
    and m': "m' = slab_insert (vacant_key m) ?h m"
    using assms(3) by (auto simp: register_runtime_def identity_def split: if_splits)
  show ?thesis
  proof (cases "vacant_key m < length m")
    case True
    then have "m ! vacant_key m = None" using assms(1) by (simp add: slab_vacant_def)
    with occupied_split [OF True] have "occupied m = occupied (take (vacant_key m) m) @ occupied (drop (Suc (vacant_key m)) m)"
      by simp
    with True new assms(2) show ?thesis
      by (auto simp: m' monitor_ok_def slab_insert_def occupied_split)
  next
    case False
    with new assms(2) show ?thesis
      by (auto simp: m' monitor_ok_def slab_insert_def occupied_def)
  qed
qed

lemma deregister_ok:
  assumes "monitor_ok m"
  shows "monitor_ok (snd (deregister_runtime key m))"
proof (cases "key < length m \<and> m ! key \<noteq> None")
  case True
  let ?a = "map identity (occupied (take key m))" and ?b = "map identity (occupied (drop (Suc key) m))"
  let ?x = "map identity (case m ! key of None \<Rightarrow> [] | Some h \<Rightarrow> [h])"
  from True have k: "key < length m" by simp
  have "distinct (?a @ ?x @ ?b)"
    using assms unfolding monitor_ok_def occupied_split(2) [OF k] map_append .
  then have "distinct (?a @ ?b)" by auto
  moreover have "snd (deregister_runtime key m) = m[key := None]"
    using True by (simp add: deregister_runtime_def)
  ultimately show ?thesis
    unfolding monitor_ok_def by (simp only: occupied_split(1) [OF k] option.case append_Nil map_append)
next
  case False
  then have "snd (deregister_runtime key m) = m" by (auto simp: deregister_runtime_def)
  with assms show ?thesis by simp
qed

lemma monitor_run_ok:
  "slab_vacant vacant_key \<Longrightarrow> monitor_ok (fst s) \<Longrightarrow> monitor_ok (fst (fold (monitor_step vacant_key) ops s))"
proof (induction ops arbitrary: s)
  case (Cons op ops)
  have "monitor_ok (fst (monitor_step vacant_key op s))"
    using Cons.prems register_ok [OF Cons.prems(1)] deregister_ok
    by (cases op; cases s) (auto split: option.split)
  with Cons show ?case by simp
qed simp

lemma key_of_concat: "k \<in> fst ` set (concat (map f hs)) \<Longrightarrow> \<exists>h\<in>set hs. k \<in> fst ` set (f h)"
  by (induction hs) auto

lemma fold_set_series: "fold set_series us st = st ++ map_of (rev us)"
  by (induction us arbitrary: st) (simp_all add: set_series_def)

text \<open>The series of a sample.\<close>

lemma global_names: "distinct (map fst global_metrics)"
  by (simp add: global_metrics_def)

lemma worker_names: "distinct (map fst worker_metrics)"
  by (simp add: worker_metrics_def)

lemma global_keys:
  "map fst (record_global_metrics metrics h) = map (\<lambda>m. (m, rt_name h, rt_id h, None)) (map fst global_metrics)"
  by (simp add: record_global_metrics_def case_prod_unfold)

lemma worker_keys:
  "map fst (record_worker_metrics metrics h i) = map (\<lambda>m. (m, rt_name h, rt_id h, Some i)) (map fst worker_metrics)"
  by (simp add: record_worker_metrics_def case_prod_unfold)

lemma record_sample_keys:
  "k \<in> fst ` set (record_sample metrics h) \<Longrightarrow> (fst (snd k), fst (snd (snd k))) = identity h"
  by (auto simp: record_sample_def record_global_metrics_def record_worker_metrics_def identity_def)

lemma record_workers_distinct: "distinct (map fst (concat (map (record_worker_metrics metrics h) [0..<n])))"
proof (induction n)
  case (Suc n)
  have "distinct (map fst (record_worker_metrics metrics h n))"
    unfolding worker_keys using worker_names by (auto simp: distinct_map inj_on_def)
  with Suc show ?case
    by (auto simp: record_worker_metrics_def)
qed simp

lemma record_sample_distinct: "distinct (map fst (record_sample metrics h))"
proof -
  have "distinct (map fst (record_global_metrics metrics h))"
    unfolding global_keys using global_names by (auto simp: distinct_map inj_on_def)
  with record_workers_distinct show ?thesis
    by (auto simp: record_sample_def record_global_metrics_def record_worker_metrics_def)
qed

lemma samples_distinct:
  "distinct (map identity hs) \<Longrightarrow> distinct (map fst (concat (map (record_sample metrics) hs)))"
proof (induction hs)
  case (Cons h hs)
  have "fst ` set (record_sample metrics h) \<inter> fst ` set (concat (map (record_sample metrics) hs)) = {}"
  proof (rule ccontr)
    assume "\<not> ?thesis"
    then obtain k where k: "k \<in> fst ` set (record_sample metrics h)"
      "k \<in> fst ` set (concat (map (record_sample metrics) hs))" by blast
    from key_of_concat [OF k(2)] obtain h' where "h' \<in> set hs" "k \<in> fst ` set (record_sample metrics h')" by blast
    with k(1) have "identity h' = identity h" "h' \<in> set hs"
      using record_sample_keys [of k metrics h] record_sample_keys [of k metrics h'] by simp_all
    with Cons.prems show False by (metis distinct.simps(2) image_eqI list.set_map list.simps(9))
  qed
  with Cons record_sample_distinct show ?case by simp
qed simp

lemma sampled:
  assumes "monitor_ok m"
  shows "record_runtime_metrics_sample metrics m st =
    st ++ map_of (concat (map (record_sample metrics) (occupied m)))"
proof -
  let ?us = "concat (map (record_sample metrics) (occupied m))"
  have "distinct (map fst ?us)" using assms by (intro samples_distinct) (simp add: monitor_ok_def)
  then have "map_of (rev ?us) = map_of ?us"
    by (subst map_of_inject_set) (simp_all add: rev_map [symmetric])
  then show ?thesis by (simp add: record_runtime_metrics_sample_def fold_set_series)
qed

section \<open>Property\<close>

text \<open>C34: after any registrations, failed ones included, removals and samples, a sample leaves in the
  series of every registered runtime what tokio reports of that runtime and of each of its workers,
  and changes no series that does not bear the name and the id of a registered runtime.\<close>

theorem runtimes_keep_apart:
  assumes "slab_vacant vacant_key" and "fold (monitor_step vacant_key) ops ([], Map.empty) = (m, st)"
    and "st' = record_runtime_metrics_sample metrics m st"
  shows "(\<forall>h\<in>set (occupied m).
      (\<forall>(f, r)\<in>set global_metrics. st' (f, rt_name h, rt_id h, None) = Some (word_of_nat (metrics (rt_handle h) r))) \<and>
      (\<forall>i<metrics (rt_handle h) NumWorkers. \<forall>(f, r)\<in>set worker_metrics.
        st' (f, rt_name h, rt_id h, Some i) = Some (word_of_nat (metrics (rt_handle h) (r i))))) \<and>
    (\<forall>f name rid w. (name, rid) \<notin> identity ` set (occupied m) \<longrightarrow> st' (f, name, rid, w) = st (f, name, rid, w))"
proof -
  let ?us = "concat (map (record_sample metrics) (occupied m))"
  have ok: "monitor_ok m"
    using monitor_run_ok [OF assms(1), of "([], Map.empty)" ops] assms(2) by (simp add: monitor_ok_def occupied_def)
  then have d: "distinct (map fst ?us)" by (intro samples_distinct) (simp add: monitor_ok_def)
  have in_us: "st' k = Some v" if "h \<in> set (occupied m)" "(k, v) \<in> set (record_sample metrics h)" for h k v
  proof -
    have "(k, v) \<in> set ?us" using that by auto
    with d have "map_of ?us k = Some v" by simp
    then show ?thesis by (simp add: assms(3) sampled [OF ok] map_add_def)
  qed
  show ?thesis
  proof (intro conjI ballI allI impI)
    fix h fr assume h: "h \<in> set (occupied m)" "fr \<in> set global_metrics"
    obtain f r where fr: "fr = (f, r)" by fastforce
    with h(2) have "((f, rt_name h, rt_id h, None), word_of_nat (metrics (rt_handle h) r)) \<in> set (record_sample metrics h)"
      by (force simp: record_sample_def record_global_metrics_def)
    from in_us [OF h(1) this] show "case fr of (f, r) \<Rightarrow> st' (f, rt_name h, rt_id h, None) = Some (word_of_nat (metrics (rt_handle h) r))"
      by (simp add: fr)
  next
    fix h i fr assume h: "h \<in> set (occupied m)" "i < metrics (rt_handle h) NumWorkers" "fr \<in> set worker_metrics"
    obtain f r where fr: "fr = (f, r)" by fastforce
    with h(2,3) have "((f, rt_name h, rt_id h, Some i), word_of_nat (metrics (rt_handle h) (r i))) \<in> set (record_sample metrics h)"
      by (force simp: record_sample_def record_worker_metrics_def)
    from in_us [OF h(1) this] show "case fr of (f, r) \<Rightarrow> st' (f, rt_name h, rt_id h, Some i) = Some (word_of_nat (metrics (rt_handle h) (r i)))"
      by (simp add: fr)
  next
    fix f name rid w assume "(name, rid) \<notin> identity ` set (occupied m)"
    then have "(f, name, rid, w) \<notin> fst ` set ?us"
    proof -
      assume n: "(name, rid) \<notin> identity ` set (occupied m)"
      show ?thesis
      proof
        assume "(f, name, rid, w) \<in> fst ` set ?us"
        from key_of_concat [OF this] obtain h
          where "h \<in> set (occupied m)" "(f, name, rid, w) \<in> fst ` set (record_sample metrics h)" by blast
        with record_sample_keys [of "(f, name, rid, w)" metrics h] n show False by force
      qed
    qed
    then have "map_of ?us (f, name, rid, w) = None" by (simp add: map_of_eq_None_iff)
    then show "st' (f, name, rid, w) = st (f, name, rid, w)"
      by (simp add: assms(3) sampled [OF ok] map_add_def)
  qed
qed

text \<open>Two runtimes of the same name, the second under an id, and one that is refused.\<close>

theorem runtimes_keep_apart_witness:
  "let m = [Some \<lparr>rt_name = Some ''io'', rt_id = None, rt_handle = 0\<rparr>, Some \<lparr>rt_name = Some ''io'', rt_id = Some 1, rt_handle = 1\<rparr>];
       metrics = (\<lambda>h r. if r = NumWorkers then 2 else if r = WorkerPollCount 1 then 7 else h)
   in fst (fold (monitor_step length)
       [RegisterRuntime (Some ''io'') None 0, RegisterRuntime (Some ''io'') (Some 1) 1, RegisterRuntime (Some ''io'') None 2]
       ([], Map.empty)) = m \<and>
     record_runtime_metrics_sample metrics m Map.empty
       ((''tokio_runtime_worker'', ''polls_total''), Some ''io'', Some 1, Some 1) = Some 7"
proof -
  let ?m = "[Some \<lparr>rt_name = Some ''io'', rt_id = None, rt_handle = 0\<rparr>, Some \<lparr>rt_name = Some ''io'', rt_id = Some 1, rt_handle = 1\<rparr>]"
  let ?metrics = "\<lambda>h r. if r = NumWorkers then 2 else if r = WorkerPollCount 1 then 7 else h"
  let ?ops = "[RegisterRuntime (Some ''io'') None 0, RegisterRuntime (Some ''io'') (Some 1) 1, RegisterRuntime (Some ''io'') None 2]"
  have run: "fold (monitor_step length) ?ops ([], Map.empty) = (?m, Map.empty)"
    by (simp add: register_runtime_def occupied_def slab_insert_def)
  have "slab_vacant length" by (simp add: slab_vacant_def)
  from runtimes_keep_apart [OF this run refl, of ?metrics]
  have "record_runtime_metrics_sample ?metrics ?m Map.empty
      ((''tokio_runtime_worker'', ''polls_total''), Some ''io'', Some 1, Some 1) = Some 7"
    by (simp add: occupied_def worker_metrics_def)
  with run show ?thesis by simp
qed

end
