(* ===== verification/Scopes.thy ===== *)
theory Scopes
  imports Prelude
begin

text \<open>
  Scope stacks and telemetry contexts, \<open>telemetry/scope.rs\<close>, \<open>telemetry/telemetry_context.rs\<close>
  and \<open>TelemetryScope\<close> of \<open>telemetry/mod.rs\<close>. A \<open>ScopeStack\<close> is a vector per thread whose last
  element is current; a scope handle pushes when it is created and pops when it is dropped, on
  the thread that created it, since handles are not \<open>Send\<close>. A context activates the log and,
  where it has them, the spans and test tracers; the five stacks of the harnesses are the state.
  Polling a wrapped future activates its context for the time of the poll. The abstract machine
  keeps one stack of contexts per thread; the lemmas show that the five stacks implement it
  under every interleaving of the threads.
\<close>

section \<open>Scope stacks\<close>

type_synonym thread = nat

type_synonym 'a scope_stack = "thread \<Rightarrow> 'a list"

text \<open>\<open>ScopeStack::current\<close>, \<open>Scope::new\<close> and the \<open>drop\<close> of a scope.\<close>

definition scope_current :: "thread \<Rightarrow> 'a scope_stack \<Rightarrow> 'a option" where
  "scope_current th s = (if s th = [] then None else Some (List.last (s th)))"

definition scope_new :: "thread \<Rightarrow> 'a \<Rightarrow> 'a scope_stack \<Rightarrow> 'a scope_stack" where
  "scope_new th item s = s(th := s th @ [item])"

definition scope_drop :: "thread \<Rightarrow> 'a scope_stack \<Rightarrow> 'a scope_stack" where
  "scope_drop th s = s(th := butlast (s th))"

text \<open>The same for a scope that may be absent: an \<open>Option\<close> of a scope handle.\<close>

definition scope_new_opt :: "thread \<Rightarrow> 'a option \<Rightarrow> 'a scope_stack \<Rightarrow> 'a scope_stack" where
  "scope_new_opt th x s = (case x of None \<Rightarrow> s | Some item \<Rightarrow> scope_new th item s)"

definition scope_drop_opt :: "thread \<Rightarrow> 'a option \<Rightarrow> 'a scope_stack \<Rightarrow> 'a scope_stack" where
  "scope_drop_opt th x s = (case x of None \<Rightarrow> s | Some _ \<Rightarrow> scope_drop th s)"

lemma scope_drop_new [simp]: "scope_drop th (scope_new th x s) = s"
  by (simp add: scope_drop_def scope_new_def)

lemma scope_current_new [simp]: "scope_current th (scope_new th x s) = Some x"
  by (simp add: scope_current_def scope_new_def)

lemma scope_drop_new_opt [simp]: "scope_drop_opt th x (scope_new_opt th x s) = s"
  by (simp add: scope_drop_opt_def scope_new_opt_def split: option.split)

section \<open>Telemetry contexts\<close>

record ('l, 's, 't) telemetry_context =
  tc_log :: 'l
  tc_span :: "'s option"
  tc_user_span :: "'s option"
  tc_test_tracer :: "'t option"
  tc_user_test_tracer :: "'t option"

text \<open>The scope stacks of the log harness and of the internal and the user tracing harness.\<close>

record ('l, 's, 't) scope_stacks =
  log_scopes :: "'l scope_stack"
  span_scopes :: "'s scope_stack"
  user_span_scopes :: "'s scope_stack"
  test_tracer_scopes :: "'t scope_stack"
  user_test_tracer_scopes :: "'t scope_stack"

definition no_scopes :: "('l, 's, 't) scope_stacks" where
  "no_scopes =
     \<lparr>log_scopes = (\<lambda>_. []), span_scopes = (\<lambda>_. []), user_span_scopes = (\<lambda>_. []),
      test_tracer_scopes = (\<lambda>_. []), user_test_tracer_scopes = (\<lambda>_. [])\<rparr>"

text \<open>\<open>current_log\<close> falls back to the root log of the harness.\<close>

definition current_log :: "'l \<Rightarrow> thread \<Rightarrow> 'l scope_stack \<Rightarrow> 'l" where
  "current_log root th s = (case scope_current th s of None \<Rightarrow> root | Some l \<Rightarrow> l)"

text \<open>\<open>TelemetryContext::current\<close>.\<close>

definition context_current ::
  "'l \<Rightarrow> thread \<Rightarrow> ('l, 's, 't) scope_stacks \<Rightarrow> ('l, 's, 't) telemetry_context" where
  "context_current root th ss =
     \<lparr>tc_log = current_log root th (log_scopes ss),
      tc_span = scope_current th (span_scopes ss),
      tc_user_span = scope_current th (user_span_scopes ss),
      tc_test_tracer = scope_current th (test_tracer_scopes ss),
      tc_user_test_tracer = scope_current th (user_test_tracer_scopes ss)\<rparr>"

text \<open>\<open>TelemetryContext::scope\<close>, and the drop of the \<open>TelemetryScope\<close> it returns.\<close>

definition context_scope ::
  "thread \<Rightarrow> ('l, 's, 't) telemetry_context \<Rightarrow> ('l, 's, 't) scope_stacks \<Rightarrow>
   ('l, 's, 't) scope_stacks" where
  "context_scope th c ss =
     \<lparr>log_scopes = scope_new th (tc_log c) (log_scopes ss),
      span_scopes = scope_new_opt th (tc_span c) (span_scopes ss),
      user_span_scopes = scope_new_opt th (tc_user_span c) (user_span_scopes ss),
      test_tracer_scopes = scope_new_opt th (tc_test_tracer c) (test_tracer_scopes ss),
      user_test_tracer_scopes =
        scope_new_opt th (tc_user_test_tracer c) (user_test_tracer_scopes ss)\<rparr>"

definition telemetry_scope_drop ::
  "thread \<Rightarrow> ('l, 's, 't) telemetry_context \<Rightarrow> ('l, 's, 't) scope_stacks \<Rightarrow>
   ('l, 's, 't) scope_stacks" where
  "telemetry_scope_drop th c ss =
     \<lparr>log_scopes = scope_drop th (log_scopes ss),
      span_scopes = scope_drop_opt th (tc_span c) (span_scopes ss),
      user_span_scopes = scope_drop_opt th (tc_user_span c) (user_span_scopes ss),
      test_tracer_scopes = scope_drop_opt th (tc_test_tracer c) (test_tracer_scopes ss),
      user_test_tracer_scopes =
        scope_drop_opt th (tc_user_test_tracer c) (user_test_tracer_scopes ss)\<rparr>"

lemma telemetry_scope_restores [simp]: "telemetry_scope_drop th c (context_scope th c ss) = ss"
  by (simp add: telemetry_scope_drop_def context_scope_def)

text \<open>\<open>WithTelemetryContext::poll\<close>: the context is active while the inner future, a function of
  the stacks, runs, and is dropped on its return; the \<open>Local\<close> and \<open>Generic\<close> variants differ in
  the boxing of the future only.\<close>

definition with_context_poll ::
  "thread \<Rightarrow> ('l, 's, 't) telemetry_context \<Rightarrow>
   (('l, 's, 't) scope_stacks \<Rightarrow> 'p \<times> ('l, 's, 't) scope_stacks) \<Rightarrow>
   ('l, 's, 't) scope_stacks \<Rightarrow> 'p \<times> ('l, 's, 't) scope_stacks" where
  "with_context_poll th c inner ss =
     (case inner (context_scope th c ss) of (poll, ss') \<Rightarrow> (poll, telemetry_scope_drop th c ss'))"

section \<open>Interleaved threads\<close>

text \<open>What the threads of a program do with contexts, one step at a time: enter the scope of a
  context, leave it, and look at the current context.\<close>

datatype ('l, 's, 't) scope_event =
    Enter "('l, 's, 't) telemetry_context"
  | Leave "('l, 's, 't) telemetry_context"
  | Look

fun scope_event_step ::
  "'l \<Rightarrow> thread \<Rightarrow> ('l, 's, 't) scope_event \<Rightarrow> ('l, 's, 't) scope_stacks \<Rightarrow>
   ('l, 's, 't) scope_stacks \<times> (thread \<times> ('l, 's, 't) telemetry_context) list" where
  "scope_event_step root th (Enter c) ss = (context_scope th c ss, [])"
| "scope_event_step root th (Leave c) ss = (telemetry_scope_drop th c ss, [])"
| "scope_event_step root th Look ss = (ss, [(th, context_current root th ss)])"

fun run_scope_events ::
  "'l \<Rightarrow> (thread \<times> ('l, 's, 't) scope_event) list \<Rightarrow> ('l, 's, 't) scope_stacks \<Rightarrow>
   ('l, 's, 't) scope_stacks \<times> (thread \<times> ('l, 's, 't) telemetry_context) list" where
  "run_scope_events root [] ss = (ss, [])"
| "run_scope_events root ((th, e) # evs) ss =
     (case scope_event_step root th e ss of (ss', obs) \<Rightarrow>
      case run_scope_events root evs ss' of (ss'', obs') \<Rightarrow> (ss'', obs @ obs'))"

text \<open>The abstract machine: a stack of whole contexts per thread, innermost first. A scope is left
  only when it is the innermost one, as Rust drops the handles of a thread; otherwise the run is
  \<^const>\<open>None\<close>. An absent span or tracer leaves the surrounding one visible.\<close>

definition context_over ::
  "('l, 's, 't) telemetry_context \<Rightarrow> ('l, 's, 't) telemetry_context \<Rightarrow>
   ('l, 's, 't) telemetry_context" where
  "context_over c outer =
     \<lparr>tc_log = tc_log c,
      tc_span = (case tc_span c of None \<Rightarrow> tc_span outer | Some x \<Rightarrow> Some x),
      tc_user_span = (case tc_user_span c of None \<Rightarrow> tc_user_span outer | Some x \<Rightarrow> Some x),
      tc_test_tracer = (case tc_test_tracer c of None \<Rightarrow> tc_test_tracer outer | Some x \<Rightarrow> Some x),
      tc_user_test_tracer =
        (case tc_user_test_tracer c of None \<Rightarrow> tc_user_test_tracer outer | Some x \<Rightarrow> Some x)\<rparr>"

definition root_context :: "'l \<Rightarrow> ('l, 's, 't) telemetry_context" where
  "root_context root =
     \<lparr>tc_log = root, tc_span = None, tc_user_span = None, tc_test_tracer = None,
      tc_user_test_tracer = None\<rparr>"

definition visible_context ::
  "'l \<Rightarrow> ('l, 's, 't) telemetry_context list \<Rightarrow> ('l, 's, 't) telemetry_context" where
  "visible_context root cs = foldr context_over cs (root_context root)"

type_synonym ('l, 's, 't) context_stacks = "thread \<Rightarrow> ('l, 's, 't) telemetry_context list"

fun abstract_scope_run ::
  "'l \<Rightarrow> (thread \<times> ('l, 's, 't) scope_event) list \<Rightarrow> ('l, 's, 't) context_stacks \<Rightarrow>
   (('l, 's, 't) context_stacks \<times> (thread \<times> ('l, 's, 't) telemetry_context) list) option" where
  "abstract_scope_run root [] cs = Some (cs, [])"
| "abstract_scope_run root ((th, Enter c) # evs) cs =
     abstract_scope_run root evs (cs(th := c # cs th))"
| "abstract_scope_run root ((th, Leave c) # evs) cs =
     (case cs th of [] \<Rightarrow> None
      | d # ds \<Rightarrow> if d = c then abstract_scope_run root evs (cs(th := ds)) else None)"
| "abstract_scope_run root ((th, Look) # evs) cs =
     map_option (\<lambda>(cs', obs). (cs', (th, visible_context root (cs th)) # obs))
       (abstract_scope_run root evs cs)"

definition some_values :: "('c \<Rightarrow> 'a option) \<Rightarrow> 'c list \<Rightarrow> 'a list" where
  "some_values sel cs = map (\<lambda>c. the (sel c)) (filter (\<lambda>c. sel c \<noteq> None) (rev cs))"

definition represented :: "('l, 's, 't) context_stacks \<Rightarrow> ('l, 's, 't) scope_stacks" where
  "represented cs =
     \<lparr>log_scopes = (\<lambda>th. map tc_log (rev (cs th))),
      span_scopes = (\<lambda>th. some_values tc_span (cs th)),
      user_span_scopes = (\<lambda>th. some_values tc_user_span (cs th)),
      test_tracer_scopes = (\<lambda>th. some_values tc_test_tracer (cs th)),
      user_test_tracer_scopes = (\<lambda>th. some_values tc_user_test_tracer (cs th))\<rparr>"

lemma some_values_Nil [simp]: "some_values sel [] = []"
  by (simp add: some_values_def)

lemma some_values_Cons:
  "some_values sel (c # cs) = some_values sel cs @ (case sel c of None \<Rightarrow> [] | Some x \<Rightarrow> [x])"
  by (simp add: some_values_def split: option.split)

lemma scope_new_opt_some_values:
  "scope_new_opt th (sel c) (\<lambda>t. some_values sel (cs t)) =
     (\<lambda>t. some_values sel ((cs(th := c # cs th)) t))"
  by (auto simp: scope_new_opt_def scope_new_def some_values_Cons fun_eq_iff split: option.split)

lemma represented_enter: "context_scope th c (represented cs) = represented (cs(th := c # cs th))"
  unfolding context_scope_def represented_def
  by (simp only: scope_stacks.simps scope_new_opt_some_values) (auto simp: scope_new_def fun_eq_iff)

lemma represented_leave:
  assumes "cs th = c # ds"
  shows "telemetry_scope_drop th c (represented cs) = represented (cs(th := ds))"
proof -
  have "cs = (cs(th := ds))(th := c # (cs(th := ds)) th)"
    using assms by auto
  then have "represented cs = context_scope th c (represented (cs(th := ds)))"
    unfolding represented_enter by simp
  then show ?thesis by simp
qed

lemma visible_context_fields:
  "tc_log (visible_context root cs) = (if cs = [] then root else tc_log (hd cs))"
  "tc_span (visible_context root cs) =
     (if some_values tc_span cs = [] then None else Some (List.last (some_values tc_span cs)))"
  "tc_user_span (visible_context root cs) =
     (if some_values tc_user_span cs = [] then None
      else Some (List.last (some_values tc_user_span cs)))"
  "tc_test_tracer (visible_context root cs) =
     (if some_values tc_test_tracer cs = [] then None
      else Some (List.last (some_values tc_test_tracer cs)))"
  "tc_user_test_tracer (visible_context root cs) =
     (if some_values tc_user_test_tracer cs = [] then None
      else Some (List.last (some_values tc_user_test_tracer cs)))"
  unfolding visible_context_def
  by (induction cs)
    (auto simp: root_context_def context_over_def some_values_Cons split: option.splits)

lemma represented_look: "context_current root th (represented cs) = visible_context root (cs th)"
  by (intro telemetry_context.equality)
    (simp_all add: context_current_def represented_def scope_current_def current_log_def
      visible_context_fields last_map last_rev)

lemma represented_run:
  "abstract_scope_run root evs cs = Some (cs', obs) \<Longrightarrow>
   run_scope_events root evs (represented cs) = (represented cs', obs)"
proof (induction root evs cs arbitrary: cs' obs rule: abstract_scope_run.induct)
  case (3 root th c evs cs)
  then show ?case
    by (auto simp: represented_leave fun_upd_def split: list.splits if_splits)
qed (auto simp: represented_enter represented_look)

lemma represented_empty: "represented (\<lambda>_. []) = no_scopes"
  by (simp add: represented_def no_scopes_def)

text \<open>Two states agree on a thread when its five stacks are the same in both.\<close>

definition same_on :: "thread \<Rightarrow> ('l, 's, 't) scope_stacks \<Rightarrow> ('l, 's, 't) scope_stacks \<Rightarrow> bool" where
  "same_on th ss ss' \<longleftrightarrow>
     log_scopes ss th = log_scopes ss' th \<and> span_scopes ss th = span_scopes ss' th \<and>
     user_span_scopes ss th = user_span_scopes ss' th \<and>
     test_tracer_scopes ss th = test_tracer_scopes ss' th \<and>
     user_test_tracer_scopes ss th = user_test_tracer_scopes ss' th"

lemmas scope_operations =
  context_scope_def telemetry_scope_drop_def scope_new_def scope_drop_def scope_new_opt_def
  scope_drop_opt_def

lemma same_on_step_same:
  "same_on th ss ss' \<Longrightarrow>
   same_on th (fst (scope_event_step root th e ss)) (fst (scope_event_step root th e ss')) \<and>
   snd (scope_event_step root th e ss) = snd (scope_event_step root th e ss')"
  by (cases e)
    (auto simp: same_on_def scope_operations context_current_def current_log_def
      scope_current_def split: option.split)

lemma same_on_step_other:
  "t \<noteq> th \<Longrightarrow> same_on th (fst (scope_event_step root t e ss)) ss"
  by (cases e) (auto simp: same_on_def scope_operations split: option.split)

lemma same_on_sym: "same_on th ss ss' \<Longrightarrow> same_on th ss' ss"
  by (simp add: same_on_def)

lemma same_on_trans: "same_on th ss ss' \<Longrightarrow> same_on th ss' ss'' \<Longrightarrow> same_on th ss ss''"
  by (simp add: same_on_def)

lemma scope_event_step_thread:
  "(t, c) \<in> set (snd (scope_event_step root th e ss)) \<Longrightarrow> t = th"
  by (cases e) simp_all

lemma isolated_run:
  "same_on th ss ss' \<Longrightarrow>
   filter (\<lambda>(t, _). t = th) (snd (run_scope_events root evs ss)) =
   snd (run_scope_events root (filter (\<lambda>(t, _). t = th) evs) ss') \<and>
   same_on th (fst (run_scope_events root evs ss))
     (fst (run_scope_events root (filter (\<lambda>(t, _). t = th) evs) ss'))"
proof (induction evs arbitrary: ss ss')
  case Nil
  then show ?case by simp
next
  case (Cons te evs)
  obtain t e where te: "te = (t, e)" by fastforce
  obtain s1 o1 where s1: "scope_event_step root t e ss = (s1, o1)" by fastforce
  obtain s2 o2 where s2: "scope_event_step root t e ss' = (s2, o2)" by fastforce
  have o1: "\<And>u c. (u, c) \<in> set o1 \<Longrightarrow> u = t"
    using scope_event_step_thread [of _ _ root t e ss] s1 by simp
  show ?case
  proof (cases "t = th")
    case True
    with same_on_step_same [OF Cons.prems, of root e] s1 s2
    have "same_on th s1 s2" "o1 = o2" by simp_all
    moreover have "filter (\<lambda>o'. fst o' = th) o1 = o1"
      using o1 True by (auto intro!: filter_True)
    ultimately show ?thesis
      using Cons.IH [of s1 s2] True
      by (simp add: te s1 [unfolded True] s2 [unfolded True] case_prod_beta)
  next
    case False
    then have "same_on th s1 ss'"
      using same_on_step_other [OF False, of root e ss] Cons.prems s1 same_on_trans by fastforce
    moreover have "filter (\<lambda>o'. fst o' = th) o1 = []"
      using o1 False by (auto simp: filter_empty_conv)
    ultimately show ?thesis
      using Cons.IH [of s1 ss'] False by (simp add: te s1 case_prod_beta)
  qed
qed

section \<open>Properties\<close>

text \<open>C6: The five thread-local scope stacks implement one stack of whole telemetry contexts per
  thread: for every interleaving of threads that leave their scopes innermost first, the stacks end
  up as the image of the abstract ones, and each \<open>TelemetryContext::current()\<close> returns the
  innermost entered context, completed where it has no span or tracer by the contexts around it
  and, outside every scope, the root log and no span.\<close>

theorem scopes_refine_contexts:
  assumes "abstract_scope_run root evs (\<lambda>_. []) = Some (cs, obs)"
  shows "run_scope_events root evs no_scopes = (represented cs, obs)"
  using represented_run [OF assms] unfolding represented_empty .

definition sample_context :: "(nat, nat, nat) telemetry_context" where
  "sample_context =
     \<lparr>tc_log = 7, tc_span = Some 8, tc_user_span = None, tc_test_tracer = None,
      tc_user_test_tracer = None\<rparr>"

definition spanless_context :: "(nat, nat, nat) telemetry_context" where
  "spanless_context =
     \<lparr>tc_log = 9, tc_span = None, tc_user_span = None, tc_test_tracer = None,
      tc_user_test_tracer = None\<rparr>"

theorem scopes_refine_contexts_witness:
  "run_scope_events (0 :: nat)
     [(1, Enter sample_context), (2, Look), (1, Enter spanless_context), (1, Look),
      (1, Leave spanless_context), (1, Leave sample_context)] no_scopes =
   (represented (\<lambda>_. []),
    [(2, root_context 0), (1, spanless_context \<lparr>tc_span := Some 8\<rparr>)])"
  by (rule scopes_refine_contexts)
    (simp add: fun_upd_idem visible_context_def context_over_def root_context_def
      sample_context_def spanless_context_def)

text \<open>Threads do not see each other's scopes: whatever the interleaving, and whether or not
  the scopes are properly nested, a thread observes exactly the contexts it would observe if its
  own steps ran alone.\<close>

theorem scopes_thread_isolation:
  "filter (\<lambda>(t, _). t = th) (snd (run_scope_events root evs ss)) =
   snd (run_scope_events root (filter (\<lambda>(t, _). t = th) evs) ss)"
  using isolated_run [of th ss ss root evs] by (simp add: same_on_def)

text \<open>Polling a future wrapped in a context, while other threads run, leaves the polling
  thread's stacks as they were before the poll, provided the future leaves the scopes it enters
  before it returns, and the future looking at the current context sees the wrapped context over
  the one the executor has active.\<close>

theorem poll_restores_context:
  assumes "abstract_scope_run root evs (cs(th := c # cs th)) = Some (cs', obs)"
    and "cs' th = c # cs th"
  shows "with_context_poll th c
      (\<lambda>ss. case run_scope_events root evs ss of (ss', seen) \<Rightarrow> (seen, ss')) (represented cs) =
      (obs, represented (cs'(th := cs th))) \<and>
    context_current root th (context_scope th c (represented cs)) =
      context_over c (context_current root th (represented cs))"
proof
  show "with_context_poll th c
      (\<lambda>ss. case run_scope_events root evs ss of (ss', seen) \<Rightarrow> (seen, ss')) (represented cs) =
    (obs, represented (cs'(th := cs th)))"
    using represented_run [OF assms(1)] represented_leave [of cs' th c "cs th", OF assms(2)]
    by (simp add: with_context_poll_def represented_enter)
  show "context_current root th (context_scope th c (represented cs)) =
      context_over c (context_current root th (represented cs))"
    by (simp add: represented_enter represented_look visible_context_def)
qed

theorem poll_restores_context_witness:
  "with_context_poll 1 sample_context
     (\<lambda>ss. case run_scope_events 0 [(1, Look)] ss of (ss', seen) \<Rightarrow> (seen, ss'))
     (represented (\<lambda>_. [])) = ([(1, sample_context)], represented (\<lambda>_. []))"
  using poll_restores_context
    [of 0 "[(1, Look)]" "\<lambda>_. []" 1 sample_context "(\<lambda>_. [])(1 := [sample_context])" "[(1, sample_context)]"]
  by (simp add: fun_upd_idem visible_context_def context_over_def root_context_def sample_context_def)

end
