(* ===== verification/LogDrains.thy ===== *)
theory LogDrains
  imports Counters
begin

text \<open>
  The drains between a logger and its output, \<open>telemetry/log/field_filtering.rs\<close>,
  \<open>field_dedup.rs\<close>, \<open>field_redact.rs\<close>, \<open>rate_limit.rs\<close>, \<open>log_volume.rs\<close>, and their
  composition in \<open>wrap_root_drain\<close> of \<open>log/init.rs\<close>. The key-values of a record are what they
  emit when they are serialized: a list of fields, or other key-values under a filter. A
  serializer is the state of its sink and the filters in front of it, outermost first; the
  eighteen \<open>emit_*\<close> methods, which all run the macro \<open>filter!\<close>, are one function on a value of
  any type. The lemmas show that what reaches the sink is the record with the redacted keys
  removed and only the first field of each key, and which records reach it.
\<close>

section \<open>Filters\<close>

text \<open>The states of the two implementations of \<open>Filter\<close>, and of \<open>FilterFactory\<close>.\<close>

datatype field_filter = FieldDedupFilter "string set" | FieldRedactFilter "string set"

datatype filter_factory = FieldDedupFilterFactory | FieldRedactFilterFactory "string set"

definition redact_factory_new :: "string list \<Rightarrow> filter_factory" where
  "redact_factory_new redacted_keys = FieldRedactFilterFactory (set redacted_keys)"

text \<open>\<open>Filter::filter\<close> of each: whether the field is kept, and the set of keys from then on;
  \<open>HashSet::insert\<close> answers whether the key is new.\<close>

definition dedup_filter :: "string set \<Rightarrow> string \<Rightarrow> bool \<times> string set" where
  "dedup_filter seen_keys key = (key \<notin> seen_keys, insert key seen_keys)"

definition redact_filter :: "string set \<Rightarrow> string \<Rightarrow> bool" where
  "redact_filter redacted_keys key \<longleftrightarrow> key \<notin> redacted_keys"

fun filter_field :: "field_filter \<Rightarrow> string \<Rightarrow> bool \<times> field_filter" where
  "filter_field (FieldDedupFilter seen_keys) key =
     (case dedup_filter seen_keys key of (keep, seen') \<Rightarrow> (keep, FieldDedupFilter seen'))"
| "filter_field (FieldRedactFilter redacted_keys) key =
     (redact_filter redacted_keys key, FieldRedactFilter redacted_keys)"

text \<open>\<open>create_filter\<close> and \<open>filter_active\<close>, which is true unless a factory overrides it.\<close>

fun create_filter :: "filter_factory \<Rightarrow> field_filter" where
  "create_filter FieldDedupFilterFactory = FieldDedupFilter {}"
| "create_filter (FieldRedactFilterFactory redacted_keys) = FieldRedactFilter redacted_keys"

definition redact_filter_active :: "string set \<Rightarrow> bool" where
  "redact_filter_active redacted_keys \<longleftrightarrow> redacted_keys \<noteq> {}"

fun filter_active :: "filter_factory \<Rightarrow> bool" where
  "filter_active FieldDedupFilterFactory \<longleftrightarrow> True"
| "filter_active (FieldRedactFilterFactory redacted_keys) \<longleftrightarrow> redact_filter_active redacted_keys"

lemmas filter_defs [simp] = dedup_filter_def redact_filter_def redact_filter_active_def

section \<open>Serialization\<close>

text \<open>\<open>KV\<close>: fields in their order of emission, or \<open>FieldFilteringKV\<close>.\<close>

datatype 'v kv = Fields "(string \<times> 'v) list" | FieldFilteringKV filter_factory "'v kv"

type_synonym ('v, 's, 'e) emit = "string \<Rightarrow> 'v \<Rightarrow> 's \<Rightarrow> 's \<times> 'e option"

text \<open>An \<open>emit_*\<close> call on the outermost \<open>FieldFilteringSerializer\<close>; no error is \<open>Ok(())\<close>.\<close>

fun emit_filtered ::
  "('v, 's, 'e) emit \<Rightarrow> string \<Rightarrow> 'v \<Rightarrow> field_filter list \<times> 's \<Rightarrow>
   (field_filter list \<times> 's) \<times> 'e option" where
  "emit_filtered emit key v ([], s) = (case emit key v s of (s', r) \<Rightarrow> (([], s'), r))"
| "emit_filtered emit key v (f # fs, s) =
     (case filter_field f key of (keep, f') \<Rightarrow>
        if \<not> keep then ((f' # fs, s), None)
        else case emit_filtered emit key v (fs, s) of ((fs', s'), r) \<Rightarrow> ((f' # fs', s'), r))"

text \<open>Fields are emitted until the serializer fails.\<close>

fun emit_fields ::
  "('v, 's, 'e) emit \<Rightarrow> (string \<times> 'v) list \<Rightarrow> 's \<Rightarrow> 's \<times> 'e option" where
  "emit_fields emit [] s = (s, None)"
| "emit_fields emit ((key, v) # es) s =
     (case emit key v s of (s', None) \<Rightarrow> emit_fields emit es s' | (s', Some e) \<Rightarrow> (s', Some e))"

text \<open>\<open>KV::serialize\<close>.\<close>

fun kv_serialize ::
  "('v, 's, 'e) emit \<Rightarrow> 'v kv \<Rightarrow> field_filter list \<times> 's \<Rightarrow>
   (field_filter list \<times> 's) \<times> 'e option" where
  "kv_serialize emit (Fields es) st = emit_fields (emit_filtered emit) es st"
| "kv_serialize emit (FieldFilteringKV factory inner) (fs, s) =
     (case kv_serialize emit inner (create_filter factory # fs, s) of
        ((fs', s'), r) \<Rightarrow> ((tl fs', s'), r))"

section \<open>Drains\<close>

datatype level = CriticalLevel | ErrorLevel | WarningLevel | InfoLevel | DebugLevel | TraceLevel

record 'v log_record =
  lr_location :: string
  lr_tag :: string
  lr_level :: level
  lr_msg :: string
  lr_kv :: "'v kv"

text \<open>\<open>FieldFilteringDrain::log\<close>: what the inner drain is called with.\<close>

definition field_filtering_log ::
  "filter_factory \<Rightarrow> ('v log_record \<Rightarrow> 'v kv \<Rightarrow> 'w \<Rightarrow> 'w \<times> 'e option) \<Rightarrow>
   'v log_record \<Rightarrow> 'v kv \<Rightarrow> 'w \<Rightarrow> 'w \<times> 'e option" where
  "field_filtering_log factory inner rec values w =
     (if \<not> filter_active factory then inner rec values w
      else inner
        \<lparr>lr_location = lr_location rec, lr_tag = lr_tag rec, lr_level = lr_level rec,
         lr_msg = lr_msg rec, lr_kv = FieldFilteringKV factory (lr_kv rec)\<rparr>
        (FieldFilteringKV factory values) w)"

text \<open>The state the drains share: the limiter of the \<open>governor\<close> crate, the counters
  \<open>log_record_count\<close> by level, and the output behind the drains. The limiter's \<open>check\<close>, the
  names of the levels and the output are parameters.\<close>

record ('l, 'w) log_world =
  lw_limiter :: 'l
  lw_record_count :: "string \<Rightarrow> u64"
  lw_output :: 'w

record ('l, 'v, 'w, 'e) log_env =
  limiter_check :: "'l \<Rightarrow> bool \<times> 'l"
  level_as_str :: "level \<Rightarrow> string"
  output_log :: "'v log_record \<Rightarrow> 'v kv \<Rightarrow> 'w \<Rightarrow> 'w \<times> 'e option"

text \<open>\<open>LogVolumeMetricsDrain::log\<close>: the inner drain first, then the counter.\<close>

definition log_volume_log ::
  "('l, 'v, 'w, 'e) log_env \<Rightarrow>
   ('v log_record \<Rightarrow> 'v kv \<Rightarrow> ('l, 'w) log_world \<Rightarrow> ('l, 'w) log_world \<times> 'e option) \<Rightarrow>
   'v log_record \<Rightarrow> 'v kv \<Rightarrow> ('l, 'w) log_world \<Rightarrow> ('l, 'w) log_world \<times> 'e option" where
  "log_volume_log env inner rec values w =
     (case inner rec values w of (w', res) \<Rightarrow>
      let name = level_as_str env (lr_level rec);
          count = snd (counter_u64_inc (lw_record_count w' name))
      in (w'\<lparr>lw_record_count := (lw_record_count w')(name := count)\<rparr>, res))"

text \<open>\<open>RateLimitingDrain::new\<close>: whether there is a limiter, and \<open>RateLimitingDrain::log\<close>.\<close>

record rate_limiting_settings =
  rl_enabled :: bool
  rl_max_events_per_second :: u32

definition rate_limiter_present :: "rate_limiting_settings \<Rightarrow> bool" where
  "rate_limiter_present settings \<longleftrightarrow>
     rl_enabled settings \<and> rl_max_events_per_second settings \<noteq> 0"

definition rate_limiting_log ::
  "bool \<Rightarrow> ('l, 'v, 'w, 'e) log_env \<Rightarrow>
   ('v log_record \<Rightarrow> 'v kv \<Rightarrow> ('l, 'w) log_world \<Rightarrow> ('l, 'w) log_world \<times> 'e option) \<Rightarrow>
   'v log_record \<Rightarrow> 'v kv \<Rightarrow> ('l, 'w) log_world \<Rightarrow> ('l, 'w) log_world \<times> 'e option" where
  "rate_limiting_log present env inner rec values w =
     (if present then
        case limiter_check env (lw_limiter w) of (allowed, limiter') \<Rightarrow>
          if \<not> allowed then (w\<lparr>lw_limiter := limiter'\<rparr>, None)
          else inner rec values (w\<lparr>lw_limiter := limiter'\<rparr>)
      else inner rec values w)"

record logging_settings =
  ls_redact_keys :: "string list"
  ls_rate_limit :: rate_limiting_settings
  ls_log_volume_metrics :: bool

definition output_drain_log ::
  "('l, 'v, 'w, 'e) log_env \<Rightarrow> 'v log_record \<Rightarrow> 'v kv \<Rightarrow> ('l, 'w) log_world \<Rightarrow>
   ('l, 'w) log_world \<times> 'e option" where
  "output_drain_log env rec values w =
     (case output_log env rec values (lw_output w) of (o', res) \<Rightarrow> (w\<lparr>lw_output := o'\<rparr>, res))"

text \<open>\<open>wrap_root_drain\<close>.\<close>

definition root_drain_log ::
  "('l, 'v, 'w, 'e) log_env \<Rightarrow> logging_settings \<Rightarrow> 'v log_record \<Rightarrow> 'v kv \<Rightarrow>
   ('l, 'w) log_world \<Rightarrow> ('l, 'w) log_world \<times> 'e option" where
  "root_drain_log env settings =
     (let drain =
        field_filtering_log (redact_factory_new (ls_redact_keys settings))
          (field_filtering_log FieldDedupFilterFactory (output_drain_log env))
      in if ls_log_volume_metrics settings
         then rate_limiting_log (rate_limiter_present (ls_rate_limit settings)) env
                (log_volume_log env drain)
         else rate_limiting_log (rate_limiter_present (ls_rate_limit settings)) env drain)"

section \<open>What a filtered serializer emits\<close>

text \<open>The reference: keep the fields whose key is not redacted and did not occur before.\<close>

fun first_fields :: "string set \<Rightarrow> (string \<times> 'v) list \<Rightarrow> (string \<times> 'v) list" where
  "first_fields seen [] = []"
| "first_fields seen ((k, v) # es) =
     (if k \<in> seen then first_fields seen es else (k, v) # first_fields (insert k seen) es)"

definition unredacted :: "string set \<Rightarrow> (string \<times> 'v) list \<Rightarrow> (string \<times> 'v) list" where
  "unredacted redacted es = filter (\<lambda>(k, _). k \<notin> redacted) es"

lemma first_fields_keys:
  "fst ` set (first_fields seen es) = fst ` set es - seen \<and> distinct (map fst (first_fields seen es))"
  by (induction seen es rule: first_fields.induct) auto

lemma first_fields_map_of:
  "k \<notin> seen \<Longrightarrow> map_of (first_fields seen es) k = map_of es k"
  by (induction seen es rule: first_fields.induct) auto

lemma unredacted_map_of:
  "map_of (unredacted redacted es) k = (if k \<in> redacted then None else map_of es k)"
  unfolding unredacted_def by (induction es) auto

lemma emit_fields_redact:
  "emit_fields (emit_filtered emit) es (FieldRedactFilter r # fs, s) =
   (case emit_fields (emit_filtered emit) (unredacted r es) (fs, s) of
      ((fs', s'), res) \<Rightarrow> ((FieldRedactFilter r # fs', s'), res))"
  unfolding unredacted_def
  by (induction es arbitrary: fs s) (auto split: prod.splits option.splits)

lemma emit_fields_dedup:
  "\<exists>seen'. emit_fields (emit_filtered emit) es (FieldDedupFilter seen # fs, s) =
   (case emit_fields (emit_filtered emit) (first_fields seen es) (fs, s) of
      ((fs', s'), res) \<Rightarrow> ((FieldDedupFilter seen' # fs', s'), res))"
proof (induction es arbitrary: seen fs s)
  case Nil
  then show ?case by simp
next
  case (Cons kv es)
  obtain k v where kv: "kv = (k, v)" by fastforce
  show ?case
  proof (cases "k \<in> seen")
    case True
    then show ?thesis
      using Cons.IH [of seen fs s] by (simp add: kv insert_absorb)
  next
    case False
    obtain fs' s' r where e: "emit_filtered emit k v (fs, s) = ((fs', s'), r)"
      by (metis prod.exhaust)
    show ?thesis
      using False Cons.IH [of "insert k seen" fs' s'] by (cases r) (auto simp: kv e)
  qed
qed

lemma emit_fields_unfiltered:
  "emit_fields (emit_filtered emit) es ([], s) =
   (case emit_fields emit es s of (s', res) \<Rightarrow> (([], s'), res))"
  by (induction es arbitrary: s) (auto split: prod.splits option.splits)

text \<open>The key-values the two filtering drains build around those of a record or a logger.\<close>

definition drained_kv :: "string list \<Rightarrow> 'v kv \<Rightarrow> 'v kv" where
  "drained_kv redact_keys kv =
     FieldFilteringKV FieldDedupFilterFactory
       (if redact_keys = [] then kv else FieldFilteringKV (redact_factory_new redact_keys) kv)"

lemma serialize_drained:
  "kv_serialize emit (drained_kv redact_keys (Fields es)) ([], s) =
   (case emit_fields emit (first_fields {} (unredacted (set redact_keys) es)) s of
      (s', res) \<Rightarrow> (([], s'), res))"
proof -
  obtain seen' where d: "emit_fields (emit_filtered emit) (unredacted (set redact_keys) es)
      ([FieldDedupFilter {}], s) =
    (case emit_fields (emit_filtered emit) (first_fields {} (unredacted (set redact_keys) es)) ([], s)
      of ((fs', s'), res) \<Rightarrow> ((FieldDedupFilter seen' # fs', s'), res))"
    using emit_fields_dedup [of emit _ "{}" "[]" s] by blast
  have none: "unredacted {} es = es"
    by (simp add: unredacted_def)
  show ?thesis
    using d none
    by (cases "redact_keys = []")
      (simp_all add: drained_kv_def redact_factory_new_def emit_fields_redact
        emit_fields_unfiltered split: prod.splits)
qed

lemma root_drain_filters:
  "field_filtering_log (redact_factory_new redact_keys)
     (field_filtering_log FieldDedupFilterFactory inner) rec values =
   inner (rec\<lparr>lr_kv := drained_kv redact_keys (lr_kv rec)\<rparr>) (drained_kv redact_keys values)"
  by (cases rec) (simp add: field_filtering_log_def drained_kv_def redact_factory_new_def fun_eq_iff)

lemma emit_fields_collect:
  "emit_fields (\<lambda>k v out. (out @ [(k, v)], None)) es out = (out @ es, None)"
  by (induction es arbitrary: out) auto

section \<open>Properties\<close>

text \<open>Whatever fields a record or a logger carries, the output serializes a filtered list: no
  key in \<open>redact_keys\<close>, no key twice, and every other key with the value it was emitted with
  first, which in slog's order is the most recently added one.\<close>

theorem drained_fields:
  "\<exists>out. kv_serialize (\<lambda>k v out. (out @ [(k, v)], None :: 'e option))
       (drained_kv redact_keys (Fields es)) ([], []) = (([], out), None) \<and>
     distinct (map fst out) \<and>
     map_of out = (\<lambda>k. if k \<in> set redact_keys then None else map_of es k)"
  by (intro exI [of _ "first_fields {} (unredacted (set redact_keys) es)"])
    (simp add: serialize_drained emit_fields_collect first_fields_keys fun_eq_iff
      first_fields_map_of unredacted_map_of)

text \<open>\<open>wrap_root_drain\<close> puts the rate limiter outermost: a record it refuses changes nothing
  but the limiter, and is reported as logged. Every other record reaches the output exactly once,
  with its own and the logger's key-values filtered, and is counted under its level when volume
  metrics are on, whether or not the output fails; the output's error is returned.\<close>

theorem root_drain_log_outcome:
  "root_drain_log env settings rec values w =
    (let present = rate_limiter_present (ls_rate_limit settings);
         (allowed, limiter') =
           (if present then limiter_check env (lw_limiter w) else (True, lw_limiter w));
         drained = drained_kv (ls_redact_keys settings);
         (out', res) = output_log env (rec\<lparr>lr_kv := drained (lr_kv rec)\<rparr>) (drained values)
           (lw_output w);
         name = level_as_str env (lr_level rec);
         count = lw_record_count w name + (if ls_log_volume_metrics settings then 1 else 0)
     in if \<not> allowed then (w\<lparr>lw_limiter := limiter'\<rparr>, None)
        else (\<lparr>lw_limiter = limiter', lw_record_count = (lw_record_count w)(name := count),
               lw_output = out'\<rparr>, res))"
  by (cases w)
    (simp add: root_drain_log_def rate_limiting_log_def log_volume_log_def root_drain_filters
      output_drain_log_def counter_u64_inc_def counter_u64_inc_by_def fetch_add_def Let_def
      split: prod.split)

end
