(* ===== verification/Logger.thy ===== *)
theory Logger
  imports Scopes LogDrains
begin

text \<open>
  Shared loggers, \<open>telemetry/log/internal.rs\<close> and \<open>set_verbosity\<close>, \<open>freeze\<close>, \<open>unfreeze\<close> of
  \<open>telemetry/log/mod.rs\<close>. A \<open>SharedLog\<close> is a reference into a store of loggers with their
  nesting level and frozen flag, so that a change through one reference is seen through every
  clone of it; the current one is the innermost log scope of the thread or the root log. Adding
  fields and setting the verbosity replace the logger by a child of itself unless it is frozen
  or nested too deeply. The lemmas bound the nesting, count the additions, and show that a
  forked log is independent of its parent.
\<close>

section \<open>Loggers\<close>

text \<open>The key-values of a slog logger: \<open>o!(..)\<close> at the root, \<open>Logger::new\<close> for a child, and
  \<open>Logger::root\<close> with another logger's whole list as its own key-values, as \<open>set_verbosity\<close>
  builds it.\<close>

datatype 'f kv_list = RootKv 'f | ChildKv 'f "'f kv_list" | RootOfList "'f kv_list"

fun kv_nesting :: "'f kv_list \<Rightarrow> nat" where
  "kv_nesting (RootKv f) = 0"
| "kv_nesting (ChildKv f l) = Suc (kv_nesting l)"
| "kv_nesting (RootOfList l) = Suc (kv_nesting l)"

fun kv_fields :: "'f kv_list \<Rightarrow> 'f list" where
  "kv_fields (RootKv f) = [f]"
| "kv_fields (ChildKv f l) = f # kv_fields l"
| "kv_fields (RootOfList l) = kv_fields l"

record 'f logger =
  lg_verbosity :: level
  lg_list :: "'f kv_list"

text \<open>\<open>LoggerWithKvNestingTracking\<close>.\<close>

record 'f tracked_logger =
  tl_inner :: "'f logger"
  tl_nesting_level :: u32
  tl_frozen :: bool

definition MAX_NESTING :: u32 where
  "MAX_NESTING = 1000"

definition tracked_logger_new :: "'f logger \<Rightarrow> 'f tracked_logger" where
  "tracked_logger_new logger =
     \<lparr>tl_inner = logger, tl_nesting_level = 0, tl_frozen = False\<rparr>"

text \<open>The features that turn the two errors into panics, and what the checks emit: an error
  record logged to the logger, or a panic once the lock is released.\<close>

record log_features =
  panic_on_frozen_logger :: bool
  panic_on_too_much_logger_nesting :: bool

datatype log_error = FrozenLoggerError | ExceededMaxNestingError

datatype log_event = LoggedError log_error | LogPanic log_error

text \<open>\<open>check_frozen\<close>: whether the caller may proceed.\<close>

definition check_frozen :: "log_features \<Rightarrow> 'f tracked_logger \<Rightarrow> bool \<times> log_event list" where
  "check_frozen feat log_lock =
     (if \<not> tl_frozen log_lock then (True, [])
      else if panic_on_frozen_logger feat then (False, [LogPanic FrozenLoggerError])
      else (False, [LoggedError FrozenLoggerError]))"

definition u32_saturating_add :: "u32 \<Rightarrow> u32 \<Rightarrow> u32" where
  "u32_saturating_add a b = (if uint a + uint b < 2 ^ 32 then a + b else - 1)"

text \<open>\<open>check_nesting_level\<close>: the logger with its level incremented, and whether to proceed.\<close>

definition check_nesting_level ::
  "log_features \<Rightarrow> 'f tracked_logger \<Rightarrow> 'f tracked_logger \<times> bool \<times> log_event list" where
  "check_nesting_level feat log_lock =
     (let lev = u32_saturating_add (tl_nesting_level log_lock) 1;
          log_lock' = log_lock\<lparr>tl_nesting_level := lev\<rparr>
      in if lev < MAX_NESTING then (log_lock', True, [])
         else if lev = MAX_NESTING then
           if panic_on_too_much_logger_nesting feat
           then (log_lock', False, [LogPanic ExceededMaxNestingError])
           else (log_lock', False, [LoggedError ExceededMaxNestingError])
         else (log_lock', False, []))"

text \<open>The bodies of \<open>add_log_fields\<close> and \<open>set_verbosity\<close> on the locked logger.\<close>

definition add_fields_locked ::
  "log_features \<Rightarrow> 'f \<Rightarrow> 'f tracked_logger \<Rightarrow> 'f tracked_logger \<times> log_event list" where
  "add_fields_locked feat kvs log_lock =
     (case check_frozen feat log_lock of
        (False, evs) \<Rightarrow> (log_lock, evs)
      | (True, evs) \<Rightarrow>
          (case check_nesting_level feat log_lock of
             (log_lock', False, evs') \<Rightarrow> (log_lock', evs @ evs')
           | (log_lock', True, evs') \<Rightarrow>
               (log_lock'\<lparr>tl_inner :=
                  (tl_inner log_lock')\<lparr>lg_list := ChildKv kvs (lg_list (tl_inner log_lock'))\<rparr>\<rparr>,
                evs @ evs')))"

definition set_verbosity_locked ::
  "log_features \<Rightarrow> level \<Rightarrow> 'f tracked_logger \<Rightarrow> 'f tracked_logger \<times> log_event list" where
  "set_verbosity_locked feat verbosity log_lock =
     (case check_frozen feat log_lock of
        (False, evs) \<Rightarrow> (log_lock, evs)
      | (True, evs) \<Rightarrow>
          (case check_nesting_level feat log_lock of
             (log_lock', False, evs') \<Rightarrow> (log_lock', evs @ evs')
           | (log_lock', True, evs') \<Rightarrow>
               (log_lock'\<lparr>tl_inner :=
                  \<lparr>lg_verbosity = verbosity, lg_list = RootOfList (lg_list (tl_inner log_lock'))\<rparr>\<rparr>,
                evs @ evs')))"

section \<open>The store of shared loggers\<close>

text \<open>References are positions in the store; the root log of the harness is position 0.\<close>

type_synonym log_ref = nat

type_synonym 'f log_store = "'f tracked_logger list"

definition add_log_fields ::
  "log_features \<Rightarrow> 'f \<Rightarrow> thread \<Rightarrow> log_ref scope_stack \<Rightarrow> 'f log_store \<Rightarrow>
   'f log_store \<times> log_event list" where
  "add_log_fields feat kvs th scopes st =
     (let r = current_log 0 th scopes in
      case add_fields_locked feat kvs (st ! r) of (l, evs) \<Rightarrow> (st[r := l], evs))"

definition set_verbosity ::
  "log_features \<Rightarrow> level \<Rightarrow> thread \<Rightarrow> log_ref scope_stack \<Rightarrow> 'f log_store \<Rightarrow>
   'f log_store \<times> log_event list" where
  "set_verbosity feat verbosity th scopes st =
     (let r = current_log 0 th scopes in
      case set_verbosity_locked feat verbosity (st ! r) of (l, evs) \<Rightarrow> (st[r := l], evs))"

definition log_freeze :: "thread \<Rightarrow> log_ref scope_stack \<Rightarrow> 'f log_store \<Rightarrow> 'f log_store" where
  "log_freeze th scopes st =
     (let r = current_log 0 th scopes in st[r := (st ! r)\<lparr>tl_frozen := True\<rparr>])"

definition log_unfreeze :: "thread \<Rightarrow> log_ref scope_stack \<Rightarrow> 'f log_store \<Rightarrow> 'f log_store" where
  "log_unfreeze th scopes st =
     (let r = current_log 0 th scopes in st[r := (st ! r)\<lparr>tl_frozen := False\<rparr>])"

definition log_is_frozen :: "thread \<Rightarrow> log_ref scope_stack \<Rightarrow> 'f log_store \<Rightarrow> bool" where
  "log_is_frozen th scopes st = tl_frozen (st ! current_log 0 th scopes)"

text \<open>\<open>fork_log\<close>: a new reference to an unfrozen copy.\<close>

definition fork_log ::
  "thread \<Rightarrow> log_ref scope_stack \<Rightarrow> 'f log_store \<Rightarrow> log_ref \<times> 'f log_store" where
  "fork_log th scopes st =
     (let parent = st ! current_log 0 th scopes in
      (length st, st @ [parent\<lparr>tl_frozen := False\<rparr>]))"

text \<open>\<open>TelemetryContext::with_forked_log\<close>.\<close>

definition with_forked_log ::
  "thread \<Rightarrow> (log_ref, 's, 't) telemetry_context \<Rightarrow> log_ref scope_stack \<Rightarrow> 'f log_store \<Rightarrow>
   (log_ref, 's, 't) telemetry_context \<times> 'f log_store" where
  "with_forked_log th c scopes st =
     (case fork_log th scopes st of (r, st') \<Rightarrow> (c\<lparr>tc_log := r\<rparr>, st'))"

text \<open>The operations of a program, on the thread that performs them.\<close>

datatype ('f, 's, 't) log_op =
    AddFields 'f
  | SetVerbosity level
  | Freeze
  | Unfreeze
  | Fork
  | EnterContext "(log_ref, 's, 't) telemetry_context"
  | LeaveContext "(log_ref, 's, 't) telemetry_context"

type_synonym ('f, 's, 't) log_state = "(log_ref, 's, 't) scope_stacks \<times> 'f log_store"

fun log_step ::
  "log_features \<Rightarrow> thread \<Rightarrow> ('f, 's, 't) log_op \<Rightarrow> ('f, 's, 't) log_state \<Rightarrow>
   ('f, 's, 't) log_state \<times> log_event list" where
  "log_step feat th (AddFields f) (ss, st) =
     (case add_log_fields feat f th (log_scopes ss) st of (st', evs) \<Rightarrow> ((ss, st'), evs))"
| "log_step feat th (SetVerbosity v) (ss, st) =
     (case set_verbosity feat v th (log_scopes ss) st of (st', evs) \<Rightarrow> ((ss, st'), evs))"
| "log_step feat th Freeze (ss, st) = ((ss, log_freeze th (log_scopes ss) st), [])"
| "log_step feat th Unfreeze (ss, st) = ((ss, log_unfreeze th (log_scopes ss) st), [])"
| "log_step feat th Fork (ss, st) = ((ss, snd (fork_log th (log_scopes ss) st)), [])"
| "log_step feat th (EnterContext c) (ss, st) = ((context_scope th c ss, st), [])"
| "log_step feat th (LeaveContext c) (ss, st) = ((telemetry_scope_drop th c ss, st), [])"

fun log_run ::
  "log_features \<Rightarrow> (thread \<times> ('f, 's, 't) log_op) list \<Rightarrow> ('f, 's, 't) log_state \<Rightarrow>
   ('f, 's, 't) log_state \<times> log_event list" where
  "log_run feat [] s = (s, [])"
| "log_run feat ((th, op) # ops) s =
     (case log_step feat th op s of (s', evs) \<Rightarrow>
      case log_run feat ops s' of (s'', evs') \<Rightarrow> (s'', evs @ evs'))"

section \<open>Nesting is bounded\<close>

definition nesting_ok :: "'f tracked_logger \<Rightarrow> bool" where
  "nesting_ok l \<longleftrightarrow>
     kv_nesting (lg_list (tl_inner l)) \<le> unat (tl_nesting_level l) \<and>
     kv_nesting (lg_list (tl_inner l)) < unat MAX_NESTING"

lemma u32_saturating_add_1:
  "u32_saturating_add n 1 = (if n = - 1 then - 1 else n + 1)"
  "n \<noteq> - 1 \<Longrightarrow> unat (n + 1) = Suc (unat n)"
proof -
  have max: "n = - 1 \<longleftrightarrow> \<not> uint n + 1 < 2 ^ 32"
  proof -
    have "uint n < 2 ^ 32" using uint_bounded [of n] by simp
    moreover have "uint (- 1 :: u32) = 2 ^ 32 - 1" by (simp add: unsigned_minus_1_eq_mask mask_eq_exp_minus_1)
    ultimately show ?thesis unfolding word_uint_eq_iff by linarith
  qed
  show "u32_saturating_add n 1 = (if n = - 1 then - 1 else n + 1)"
    unfolding u32_saturating_add_def max by simp
  assume "n \<noteq> - 1"
  then have "uint n + uint (1 :: u32) < 2 ^ LENGTH(32)"
    unfolding max by simp
  then have "uint (n + 1) = uint n + 1"
    unfolding uint_add_lem by simp
  then have "nat (uint (n + 1)) = Suc (nat (uint n))"
    using uint_nonnegative [of n] by linarith
  then show "unat (n + 1) = Suc (unat n)"
    unfolding unat_eq_nat_uint .
qed

lemma max_nesting_less: "MAX_NESTING < - 1" "unat MAX_NESTING = 1000"
  by (simp_all add: MAX_NESTING_def)

lemma check_nesting_level_cases:
  obtains (proceed) l where
    "check_nesting_level feat log_lock = (l, True, [])"
    "tl_inner l = tl_inner log_lock" "tl_frozen l = tl_frozen log_lock"
    "unat (tl_nesting_level l) = Suc (unat (tl_nesting_level log_lock))"
    "unat (tl_nesting_level l) < 1000"
  | (stop) l evs where
    "check_nesting_level feat log_lock = (l, False, evs)"
    "tl_inner l = tl_inner log_lock" "tl_frozen l = tl_frozen log_lock"
    "unat (tl_nesting_level log_lock) \<le> unat (tl_nesting_level l)"
    "1000 \<le> unat (tl_nesting_level l)"
proof -
  let ?n = "tl_nesting_level log_lock"
  define lev where "lev = u32_saturating_add ?n 1"
  have le: "unat ?n \<le> unat lev"
  proof (cases "?n = - 1")
    case True
    then show ?thesis by (simp add: lev_def u32_saturating_add_1(1))
  next
    case False
    then show ?thesis
      using u32_saturating_add_1(2) [of ?n] unfolding lev_def u32_saturating_add_1(1) by simp
  qed
  show ?thesis
  proof (cases "lev < MAX_NESTING")
    case True
    then have "lev \<noteq> - 1"
      using max_nesting_less(1) by (metis less_asym)
    then have "?n \<noteq> - 1" "lev = ?n + 1"
      unfolding lev_def u32_saturating_add_1(1) by (simp_all split: if_splits)
    then have "unat lev = Suc (unat ?n)"
      using u32_saturating_add_1(2) by simp
    moreover have "unat lev < 1000"
      using True max_nesting_less(2) by (simp add: word_less_nat_alt)
    ultimately show ?thesis
      using True by (intro proceed [of "log_lock\<lparr>tl_nesting_level := lev\<rparr>"])
        (simp_all add: check_nesting_level_def lev_def [symmetric] Let_def)
  next
    case False
    then have "1000 \<le> unat lev"
      using max_nesting_less(2) by (simp add: word_less_nat_alt)
    with False le show ?thesis
      by (intro stop [of "log_lock\<lparr>tl_nesting_level := lev\<rparr>"
            "snd (snd (check_nesting_level feat log_lock))"])
        (simp_all add: check_nesting_level_def lev_def [symmetric] Let_def)
  qed
qed

lemma nesting_ok_add_fields:
  "nesting_ok l \<Longrightarrow> nesting_ok (fst (add_fields_locked feat kvs l))"
  by (rule check_nesting_level_cases [of feat l])
    (auto simp: add_fields_locked_def nesting_ok_def max_nesting_less split: prod.split bool.split)

lemma nesting_ok_set_verbosity:
  "nesting_ok l \<Longrightarrow> nesting_ok (fst (set_verbosity_locked feat v l))"
  by (rule check_nesting_level_cases [of feat l])
    (auto simp: set_verbosity_locked_def nesting_ok_def max_nesting_less split: prod.split bool.split)

text \<open>The states of a program: the harness starts with the root log, and a context entered holds
  a reference that has been handed out. \<open>log_valid\<close> is the invariant.\<close>

fun op_valid :: "('f, 's, 't) log_op \<Rightarrow> ('f, 's, 't) log_state \<Rightarrow> bool" where
  "op_valid (EnterContext c) (ss, st) \<longleftrightarrow> tc_log c < length st"
| "op_valid _ _ \<longleftrightarrow> True"

inductive log_reach ::
  "log_features \<Rightarrow> level \<Rightarrow> 'f \<Rightarrow> ('f, 's, 't) log_state \<Rightarrow> bool"
  for feat verbosity root_kv where
  init: "log_reach feat verbosity root_kv
    (no_scopes, [tracked_logger_new \<lparr>lg_verbosity = verbosity, lg_list = RootKv root_kv\<rparr>])"
| step: "log_reach feat verbosity root_kv s \<Longrightarrow> op_valid op s \<Longrightarrow>
    log_reach feat verbosity root_kv (fst (log_step feat th op s))"

definition log_valid :: "('f, 's, 't) log_state \<Rightarrow> bool" where
  "log_valid s \<longleftrightarrow>
     0 < length (snd s) \<and> (\<forall>l\<in>set (snd s). nesting_ok l) \<and>
     (\<forall>th. \<forall>r\<in>set (log_scopes (fst s) th). r < length (snd s))"

lemma current_log_valid:
  "log_valid (ss, st) \<Longrightarrow> current_log 0 th (log_scopes ss) < length st"
  by (cases "log_scopes ss th = []")
    (auto simp: log_valid_def current_log_def scope_current_def intro: last_in_set)

lemma log_valid_update:
  "log_valid (ss, st) \<Longrightarrow> nesting_ok l \<Longrightarrow> log_valid (ss, st[r := l])"
  by (auto simp: log_valid_def dest!: set_update_subset_insert [THEN subsetD])

lemma log_valid_current:
  "log_valid (ss, st) \<Longrightarrow> nesting_ok (st ! current_log 0 th (log_scopes ss))"
  using current_log_valid [of ss st th] by (simp add: log_valid_def)

lemma nesting_ok_frozen [simp]: "nesting_ok (l\<lparr>tl_frozen := b\<rparr>) = nesting_ok l"
  by (simp add: nesting_ok_def)

lemma log_valid_step:
  assumes "log_valid s" "op_valid op s"
  shows "log_valid (fst (log_step feat th op s))"
proof -
  obtain ss st where s: "s = (ss, st)" by fastforce
  note valid = assms(1) [unfolded s] and cur = log_valid_current [OF assms(1) [unfolded s], of th]
  show ?thesis
  proof (cases op)
    case (AddFields f)
    then show ?thesis
      using log_valid_update [OF valid nesting_ok_add_fields [OF cur]]
      by (simp add: s add_log_fields_def Let_def split: prod.split)
        (metis fst_conv)
  next
    case (SetVerbosity v)
    then show ?thesis
      using log_valid_update [OF valid nesting_ok_set_verbosity [OF cur]]
      by (simp add: s set_verbosity_def Let_def split: prod.split)
        (metis fst_conv)
  next
    case Freeze
    then show ?thesis
      using valid cur by (simp add: s log_freeze_def Let_def log_valid_update)
  next
    case Unfreeze
    then show ?thesis
      using valid cur by (simp add: s log_unfreeze_def Let_def log_valid_update)
  next
    case Fork
    then show ?thesis
      using valid cur by (auto simp: s fork_log_def Let_def log_valid_def less_SucI)
  next
    case (EnterContext c)
    then show ?thesis
      using valid assms(2) by (auto simp: s log_valid_def context_scope_def scope_new_def)
  next
    case (LeaveContext c)
    then show ?thesis
      using valid
      by (auto simp: s log_valid_def telemetry_scope_drop_def scope_drop_def dest: in_set_butlastD)
  qed
qed

lemma log_reach_valid: "log_reach feat v kv s \<Longrightarrow> log_valid s"
proof (induction rule: log_reach.induct)
  case init
  show ?case
    by (simp add: log_valid_def no_scopes_def nesting_ok_def tracked_logger_new_def MAX_NESTING_def)
next
  case (step s op th)
  then show ?case by (intro log_valid_step)
qed

section \<open>Repeated additions\<close>

fun add_all ::
  "log_features \<Rightarrow> 'f list \<Rightarrow> 'f tracked_logger \<Rightarrow> 'f tracked_logger \<times> log_event list" where
  "add_all feat [] l = (l, [])"
| "add_all feat (f # fs) l =
     (case add_fields_locked feat f l of (l', evs) \<Rightarrow>
      case add_all feat fs l' of (l'', evs') \<Rightarrow> (l'', evs @ evs'))"

lemma add_all_snoc:
  "add_all feat (fs @ [f]) l =
    (case add_all feat fs l of (l', evs) \<Rightarrow>
     case add_fields_locked feat f l' of (l'', evs') \<Rightarrow> (l'', evs @ evs'))"
  by (induction fs arbitrary: l) (simp_all split: prod.split)

definition nesting_error :: "log_features \<Rightarrow> log_event" where
  "nesting_error feat =
     (if panic_on_too_much_logger_nesting feat then LogPanic ExceededMaxNestingError
      else LoggedError ExceededMaxNestingError)"

lemma add_fields_level:
  assumes "\<not> tl_frozen l" "unat (tl_nesting_level l) = min n (2 ^ 32 - 1)"
    and "add_fields_locked feat f l = (l', evs)"
  shows "\<not> tl_frozen l' \<and> unat (tl_nesting_level l') = min (Suc n) (2 ^ 32 - 1) \<and>
    lg_verbosity (tl_inner l') = lg_verbosity (tl_inner l) \<and>
    lg_list (tl_inner l') =
      (if n < 999 then ChildKv f (lg_list (tl_inner l)) else lg_list (tl_inner l)) \<and>
    evs = (if n = 999 then [nesting_error feat] else [])"
proof -
  let ?lev = "u32_saturating_add (tl_nesting_level l) 1"
  have max: "unat (- 1 :: u32) = 2 ^ 32 - 1"
    by (simp add: unsigned_minus_1_eq_mask mask_eq_exp_minus_1)
  have lev: "unat ?lev = min (Suc n) (2 ^ 32 - 1)"
  proof (cases "tl_nesting_level l = - 1")
    case True
    then show ?thesis using assms(2) max by (simp add: u32_saturating_add_1(1))
  next
    case False
    then have "unat (tl_nesting_level l) \<noteq> 2 ^ 32 - 1"
      using max by (metis word_unat_eq_iff)
    with False assms(2) show ?thesis
      by (simp add: u32_saturating_add_1(1) u32_saturating_add_1(2) min_def split: if_splits)
  qed
  have less: "?lev < MAX_NESTING \<longleftrightarrow> n < 999"
    unfolding word_less_nat_alt lev max_nesting_less(2) by auto
  have eq: "?lev = MAX_NESTING \<longleftrightarrow> n = 999"
    unfolding word_unat_eq_iff lev max_nesting_less(2) by auto
  show ?thesis
    using assms(1,3) less eq lev
    by (auto simp: add_fields_locked_def check_frozen_def check_nesting_level_def Let_def
        nesting_error_def split: if_splits)
qed

lemma add_all_from_new:
  "add_all feat fs (tracked_logger_new lg) = (l, evs) \<Longrightarrow>
   \<not> tl_frozen l \<and> unat (tl_nesting_level l) = min (length fs) (2 ^ 32 - 1) \<and>
   lg_verbosity (tl_inner l) = lg_verbosity lg \<and>
   kv_fields (lg_list (tl_inner l)) = rev (take 999 fs) @ kv_fields (lg_list lg) \<and>
   evs = (if 1000 \<le> length fs then [nesting_error feat] else [])"
proof (induction fs arbitrary: l evs rule: rev_induct)
  case Nil
  then show ?case by (auto simp: tracked_logger_new_def)
next
  case (snoc f fs)
  obtain l1 e1 where 1: "add_all feat fs (tracked_logger_new lg) = (l1, e1)" by fastforce
  obtain e2 where 2: "add_fields_locked feat f l1 = (l, e2)" and evs: "evs = e1 @ e2"
    using snoc.prems by (auto simp: add_all_snoc 1 split: prod.splits)
  note ih = snoc.IH [OF 1]
  note stp = add_fields_level [OF _ _ 2, of "length fs"]
  show ?case
    using ih stp by (auto simp: evs)
qed

lemma log_scoped_run:
  assumes "current_log 0 th (log_scopes ss) = r" "r < length st"
    and "set ops \<subseteq> {Freeze, Unfreeze} \<union> range AddFields \<union> range SetVerbosity"
  shows "\<exists>l evs. log_run feat (map (Pair th) ops) (ss, st) = ((ss, st[r := l]), evs)"
  using assms(2,3)
proof (induction ops arbitrary: st)
  case Nil
  then show ?case by (auto intro: exI [of _ "st ! r"])
next
  case (Cons op ops)
  have "\<exists>l evs. log_step feat th op (ss, st) = ((ss, st[r := l]), evs)"
    using Cons.prems(2) assms(1)
    by (auto simp: add_log_fields_def set_verbosity_def log_freeze_def log_unfreeze_def Let_def
        split: prod.split)
  then obtain l evs where "log_step feat th op (ss, st) = ((ss, st[r := l]), evs)" by blast
  with Cons.IH [of "st[r := l]"] Cons.prems show ?case
    by (fastforce split: prod.split)
qed

lemma log_run_snoc:
  "log_run feat (xs @ [(th, op)]) s =
     (case log_run feat xs s of (s', e) \<Rightarrow>
      case log_step feat th op s' of (s'', e') \<Rightarrow> (s'', e @ e'))"
  by (induction xs arbitrary: s) (auto split: prod.split)

lemma log_run_add_fields:
  assumes "current_log 0 th (log_scopes ss) = r" "r < length st"
  shows "log_run feat (map (\<lambda>f. (th, AddFields f)) fs) (ss, st) =
    (case add_all feat fs (st ! r) of (l, evs) \<Rightarrow> ((ss, st[r := l]), evs))"
  using assms(2)
proof (induction fs arbitrary: st)
  case Nil
  then show ?case by simp
next
  case (Cons f fs)
  then show ?case
    using assms(1) by (simp add: add_log_fields_def Let_def split: prod.split)
qed

section \<open>Properties\<close>

text \<open>C14: In every reachable state, whatever threads add fields, change the verbosity, fork,
  freeze and enter or leave contexts, no logger is nested 1000 levels deep, and the level a logger
  records is never less than its real nesting.\<close>

theorem logger_nesting_bounded:
  assumes "log_reach feat verbosity root_kv (ss, st)" "l \<in> set st"
  shows "kv_nesting (lg_list (tl_inner l)) < 1000 \<and>
    kv_nesting (lg_list (tl_inner l)) \<le> unat (tl_nesting_level l)"
  using log_reach_valid [OF assms(1)] assms(2) max_nesting_less(2)
  by (auto simp: log_valid_def nesting_ok_def)

theorem logger_nesting_bounded_witness:
  "kv_nesting (lg_list (tl_inner
     (tracked_logger_new \<lparr>lg_verbosity = InfoLevel, lg_list = RootKv (0 :: nat)\<rparr>))) < 1000"
  using logger_nesting_bounded [OF log_reach.init [of feat InfoLevel "0 :: nat"]] by simp

text \<open>Adding fields any number of times, one call after the other, to the fresh root log keeps
  the first 999 additions, newest first in front of the root's fields, ignores all later ones,
  reports the exceeded nesting exactly once, at the thousandth, and never overflows the 32-bit
  level, which stops at its maximum.\<close>

theorem log_fields_saturate:
  "case log_run feat (map (\<lambda>f. (th, AddFields f)) fs)
       (no_scopes, [tracked_logger_new \<lparr>lg_verbosity = verbosity, lg_list = RootKv root_kv\<rparr>]) of
     ((ss, st), evs) \<Rightarrow>
       ss = no_scopes \<and> length st = 1 \<and>
       kv_fields (lg_list (tl_inner (st ! 0))) = rev (take 999 fs) @ [root_kv] \<and>
       evs = (if 1000 \<le> length fs then [nesting_error feat] else []) \<and>
       unat (tl_nesting_level (st ! 0)) = min (length fs) (2 ^ 32 - 1)"
proof -
  let ?lg = "\<lparr>lg_verbosity = verbosity, lg_list = RootKv root_kv\<rparr>"
  have "current_log 0 th (log_scopes no_scopes) = 0"
    by (simp add: current_log_def scope_current_def no_scopes_def)
  from log_run_add_fields [OF this, of "[tracked_logger_new ?lg]" feat fs]
  have run: "log_run feat (map (\<lambda>f. (th, AddFields f)) fs) (no_scopes, [tracked_logger_new ?lg]) =
      (case add_all feat fs (tracked_logger_new ?lg) of (l, evs) \<Rightarrow> ((no_scopes, [l]), evs))"
    by simp
  obtain l evs where all: "add_all feat fs (tracked_logger_new ?lg) = (l, evs)" by fastforce
  show ?thesis
    using add_all_from_new [OF all] unfolding run all by simp
qed

text \<open>A frozen logger rejects every change: adding fields or setting the verbosity through it
  leaves all loggers as they are and reports the frozen logger once per attempt, by a panic or by
  an error record.\<close>

theorem frozen_log_rejects:
  assumes "log_is_frozen th (log_scopes ss) st" "current_log 0 th (log_scopes ss) < length st"
    and "set ops \<subseteq> range AddFields \<union> range SetVerbosity"
  shows "log_run feat (map (Pair th) ops) (ss, st) =
    ((ss, st), replicate (length ops)
       (if panic_on_frozen_logger feat then LogPanic FrozenLoggerError
        else LoggedError FrozenLoggerError))"
  using assms(3)
proof (induction ops)
  case Nil
  then show ?case by simp
next
  case (Cons op ops)
  let ?r = "current_log 0 th (log_scopes ss)"
  have "tl_frozen (st ! ?r)"
    using assms(1) by (simp add: log_is_frozen_def)
  then have "log_step feat th op (ss, st) =
    ((ss, st), [if panic_on_frozen_logger feat then LogPanic FrozenLoggerError
                else LoggedError FrozenLoggerError])"
    using Cons.prems
    by (auto simp: add_log_fields_def set_verbosity_def add_fields_locked_def
        set_verbosity_locked_def check_frozen_def Let_def)
  with Cons show ?case by simp
qed

theorem frozen_log_rejects_witness:
  "log_run \<lparr>panic_on_frozen_logger = False, panic_on_too_much_logger_nesting = False\<rparr>
     (map (Pair 1) [AddFields (5 :: nat), SetVerbosity InfoLevel])
     (no_scopes, [\<lparr>tl_inner = \<lparr>lg_verbosity = InfoLevel, lg_list = RootKv 0\<rparr>,
        tl_nesting_level = 0, tl_frozen = True\<rparr>]) =
   ((no_scopes, [\<lparr>tl_inner = \<lparr>lg_verbosity = InfoLevel, lg_list = RootKv 0\<rparr>,
        tl_nesting_level = 0, tl_frozen = True\<rparr>]),
    [LoggedError FrozenLoggerError, LoggedError FrozenLoggerError])"
  by (subst frozen_log_rejects)
    (simp_all add: log_is_frozen_def current_log_def scope_current_def no_scopes_def)

text \<open>C35: A context with a forked log is isolated: from any reachable state, adding fields, setting
  the verbosity, freezing and unfreezing within its scope changes the forked logger only. The
  forked logger starts as an unfrozen copy of the current one, every logger that existed before the
  fork is as it was after the scope, and so are the scopes.\<close>

theorem forked_log_isolated:
  assumes "log_reach feat verbosity root_kv (ss, st)"
    and "with_forked_log th c (log_scopes ss) st = (c', st')"
    and "set ops \<subseteq> {Freeze, Unfreeze} \<union> range AddFields \<union> range SetVerbosity"
  shows "st' ! tc_log c' = (st ! current_log 0 th (log_scopes ss))\<lparr>tl_frozen := False\<rparr> \<and>
    (\<exists>l. fst (log_run feat (map (Pair th) (EnterContext c' # ops @ [LeaveContext c'])) (ss, st')) =
       (ss, st @ [l]))"
proof
  let ?r = "current_log 0 th (log_scopes ss)"
  let ?l = "(st ! ?r)\<lparr>tl_frozen := False\<rparr>"
  have c': "tc_log c' = length st" and st': "st' = st @ [?l]"
    using assms(2) by (auto simp: with_forked_log_def fork_log_def Let_def)
  then show "st' ! tc_log c' = ?l" by simp
  have "current_log 0 th (log_scopes (context_scope th c' ss)) = length st"
    by (simp add: current_log_def context_scope_def c')
  from log_scoped_run [OF this _ assms(3), of "st @ [?l]" feat]
  obtain l evs where "log_run feat (map (Pair th) ops) (context_scope th c' ss, st @ [?l]) =
      ((context_scope th c' ss, (st @ [?l])[length st := l]), evs)"
    by auto
  then show "\<exists>l. fst (log_run feat
      (map (Pair th) (EnterContext c' # ops @ [LeaveContext c'])) (ss, st')) = (ss, st @ [l])"
    by (auto simp: st' log_run_snoc split: prod.split)
qed

definition sample_logger :: "nat tracked_logger" where
  "sample_logger = tracked_logger_new \<lparr>lg_verbosity = InfoLevel, lg_list = RootKv 0\<rparr>"

definition sample_features :: log_features where
  "sample_features =
     \<lparr>panic_on_frozen_logger = False, panic_on_too_much_logger_nesting = False\<rparr>"

theorem forked_log_isolated_witness:
  "\<exists>l. fst (log_run sample_features (map (Pair 1)
      (EnterContext (sample_context\<lparr>tc_log := 1\<rparr>) # [AddFields 5, Freeze] @
       [LeaveContext (sample_context\<lparr>tc_log := 1\<rparr>)])) (no_scopes, [sample_logger, sample_logger])) =
    (no_scopes, [sample_logger] @ [l])"
proof -
  have "with_forked_log 1 sample_context (log_scopes no_scopes) [sample_logger] =
      (sample_context\<lparr>tc_log := 1\<rparr>, [sample_logger, sample_logger])"
    by (simp add: with_forked_log_def fork_log_def current_log_def scope_current_def
        no_scopes_def Let_def sample_logger_def tracked_logger_new_def)
  from forked_log_isolated [OF log_reach.init [of sample_features InfoLevel "0 :: nat", folded sample_logger_def]
      this, of "[AddFields 5, Freeze]"]
  show ?thesis by simp
qed

end
