(* ===== verification/RetryWriter.thy ===== *)
theory RetryWriter
  imports Prelude
begin

text \<open>
  The writer behind file outputs, \<open>telemetry/log/retry_writer.rs\<close>: a write that fails with a
  broken pipe reopens the path and tries again. The file system is a parameter, the results of
  its calls those of any \<open>io::Result\<close>; the calls made and their results are returned as a
  trace. The lemmas show every course a write can take.
\<close>

text \<open>\<open>io::Error\<close>, by kind as far as the code distinguishes it.\<close>

datatype io_error = BrokenPipe | OtherKind string

record ('f, 'w) file_system =
  fs_create :: "string \<Rightarrow> 'w \<Rightarrow> (io_error + 'f) \<times> 'w"
  fs_write :: "'f \<Rightarrow> string \<Rightarrow> 'w \<Rightarrow> (io_error + nat) \<times> 'w"

text \<open>\<open>RetryPipeWriter\<close>.\<close>

record 'f retry_pipe_writer =
  rw_path :: string
  rw_pipe_file :: 'f
  rw_max_attempts :: int

datatype file_call = Wrote "io_error + nat" | Created "io_error option"

definition retry_writer_new ::
  "('f, 'w) file_system \<Rightarrow> string \<Rightarrow> 'w \<Rightarrow> (io_error + 'f retry_pipe_writer) \<times> 'w" where
  "retry_writer_new fs path w =
     (case fs_create fs path w of
        (Inl e, w1) \<Rightarrow> (Inl e, w1)
      | (Inr file, w1) \<Rightarrow>
          (Inr \<lparr>rw_path = path, rw_pipe_file = file, rw_max_attempts = 10\<rparr>, w1))"

definition reopen_file ::
  "('f, 'w) file_system \<Rightarrow> 'f retry_pipe_writer \<Rightarrow> 'w \<Rightarrow>
   io_error option \<times> 'f retry_pipe_writer \<times> 'w" where
  "reopen_file fs rw w =
     (case fs_create fs (rw_path rw) w of
        (Inl e, w1) \<Rightarrow> (Some e, rw, w1)
      | (Inr file, w1) \<Rightarrow> (None, rw\<lparr>rw_pipe_file := file\<rparr>, w1))"

lemma reopen_file_attempts:
  "reopen_file fs rw w = (e, rw1, w1) \<Longrightarrow> rw_max_attempts rw1 = rw_max_attempts rw"
  by (auto simp: reopen_file_def split: prod.splits sum.splits)

text \<open>The loop of \<open>write\<close>, from a value of \<open>attempts\<close>.\<close>

function retry_write_from ::
  "('f, 'w) file_system \<Rightarrow> string \<Rightarrow> int \<Rightarrow> 'f retry_pipe_writer \<Rightarrow> 'w \<Rightarrow>
   (io_error + nat) \<times> 'f retry_pipe_writer \<times> 'w \<times> file_call list" where
  "retry_write_from fs buf attempts rw w =
     (if attempts \<le> rw_max_attempts rw then
        case fs_write fs (rw_pipe_file rw) buf w of
          (Inr n, w1) \<Rightarrow> (Inr n, rw, w1, [Wrote (Inr n)])
        | (Inl (OtherKind k), w1) \<Rightarrow>
            (Inl (OtherKind k), rw, w1, [Wrote (Inl (OtherKind k))])
        | (Inl BrokenPipe, w1) \<Rightarrow>
            (case reopen_file fs rw w1 of
               (Some e, rw1, w2) \<Rightarrow> (Inl e, rw1, w2, [Wrote (Inl BrokenPipe), Created (Some e)])
             | (None, rw1, w2) \<Rightarrow>
                 (case retry_write_from fs buf (attempts + 1) rw1 w2 of
                    (r, rw2, w3, calls) \<Rightarrow>
                      (r, rw2, w3, Wrote (Inl BrokenPipe) # Created None # calls)))
      else (Inl (OtherKind ''retry attempts exhausted''), rw, w, []))"
  by pat_completeness auto
termination
  by (relation "measure (\<lambda>(_, _, attempts, rw, _). nat (rw_max_attempts rw + 1 - attempts))")
    (auto dest!: reopen_file_attempts [OF sym])

declare retry_write_from.simps [simp del]

definition retry_write ::
  "('f, 'w) file_system \<Rightarrow> string \<Rightarrow> 'f retry_pipe_writer \<Rightarrow> 'w \<Rightarrow>
   (io_error + nat) \<times> 'f retry_pipe_writer \<times> 'w \<times> file_call list" where
  "retry_write fs buf rw w = retry_write_from fs buf 0 rw w"

section \<open>The courses of a write\<close>

text \<open>\<open>k\<close> broken writes, each followed by a successful reopening.\<close>

definition broken_rounds :: "nat \<Rightarrow> file_call list" where
  "broken_rounds k = concat (replicate k [Wrote (Inl BrokenPipe), Created None])"

lemma broken_rounds_simps [simp]:
  "broken_rounds 0 = []"
  "broken_rounds (Suc k) = Wrote (Inl BrokenPipe) # Created None # broken_rounds k"
  by (simp_all add: broken_rounds_def)

text \<open>How a write with \<open>m\<close> rounds left ends, and the calls it makes.\<close>

inductive write_course :: "nat \<Rightarrow> io_error + nat \<Rightarrow> file_call list \<Rightarrow> bool" where
  written: "k < m \<Longrightarrow> write_course m (Inr n) (broken_rounds k @ [Wrote (Inr n)])"
| failed: "k < m \<Longrightarrow>
    write_course m (Inl (OtherKind e)) (broken_rounds k @ [Wrote (Inl (OtherKind e))])"
| not_reopened: "k < m \<Longrightarrow>
    write_course m (Inl e) (broken_rounds k @ [Wrote (Inl BrokenPipe), Created (Some e)])"
| exhausted: "write_course m (Inl (OtherKind ''retry attempts exhausted'')) (broken_rounds m)"

lemma write_course_Suc:
  "write_course m r calls \<Longrightarrow>
   write_course (Suc m) r (Wrote (Inl BrokenPipe) # Created None # calls)"
proof (induction rule: write_course.induct)
  case (written k m n)
  then show ?case using write_course.written [of "Suc k" "Suc m" n] by simp
next
  case (failed k m e)
  then show ?case using write_course.failed [of "Suc k" "Suc m" e] by simp
next
  case (not_reopened k m e)
  then show ?case using write_course.not_reopened [of "Suc k" "Suc m" e] by simp
next
  case (exhausted m)
  then show ?case using write_course.exhausted [of "Suc m"] by simp
qed

lemma retry_write_from_course:
  "retry_write_from fs buf attempts rw w = (r, rw1, w1, calls) \<Longrightarrow>
   nat (rw_max_attempts rw + 1 - attempts) = m \<Longrightarrow> write_course m r calls"
proof (induction m arbitrary: attempts rw w r rw1 w1 calls)
  case 0
  then show ?case
    using write_course.exhausted [of 0] by (simp add: retry_write_from.simps)
next
  case (Suc m)
  then have le: "attempts \<le> rw_max_attempts rw" by simp
  obtain res w2 where w2: "fs_write fs (rw_pipe_file rw) buf w = (res, w2)" by fastforce
  consider (ok) n where "res = Inr n" | (other) e where "res = Inl (OtherKind e)"
    | (broken) "res = Inl BrokenPipe"
    by (metis io_error.exhaust sum.exhaust)
  then show ?case
  proof cases
    case ok
    then show ?thesis
      using Suc.prems le w2 write_course.written [of 0 "Suc m" n]
      by (auto simp: retry_write_from.simps)
  next
    case other
    then show ?thesis
      using Suc.prems le w2 write_course.failed [of 0 "Suc m" e]
      by (auto simp: retry_write_from.simps)
  next
    case broken
    obtain eo rw3 w3 where w3: "reopen_file fs rw w2 = (eo, rw3, w3)"
      by (metis prod.exhaust)
    obtain r4 rw4 w4 c4 where
      rest: "retry_write_from fs buf (attempts + 1) rw3 w3 = (r4, rw4, w4, c4)"
      by (metis prod.exhaust)
    have "nat (rw_max_attempts rw3 + 1 - (attempts + 1)) = m"
      using reopen_file_attempts [OF w3] Suc.prems(2) by simp
    from write_course_Suc [OF Suc.IH [OF rest this]] show ?thesis
      using Suc.prems(1) le w2 broken w3 rest write_course.not_reopened [of 0 "Suc m"]
      by (cases eo) (auto simp: retry_write_from.simps [of fs buf attempts])
  qed
qed

text \<open>A write through the writer \<open>RetryPipeWriter::new\<close> makes returns whatever the file system
  does: it makes at most eleven calls to the file's \<open>write\<close>, each but the last a broken pipe
  followed by a successful reopening of the same path, and returns the last call's count or error,
  or that the attempts are exhausted after eleven broken pipes.\<close>

theorem retry_write_courses:
  assumes "retry_writer_new fs path w0 = (Inr rw, w1)"
    and "retry_write fs buf rw w = (r, rw', w', calls)"
  shows "write_course 11 r calls"
proof -
  have "rw_max_attempts rw = 10"
    using assms(1) by (auto simp: retry_writer_new_def split: prod.splits sum.splits)
  with assms(2) show ?thesis
    using retry_write_from_course [of fs buf 0 rw w r rw' w' calls 11]
    by (simp add: retry_write_def)
qed

definition broken_fs :: "(nat, nat) file_system" where
  "broken_fs = \<lparr>fs_create = (\<lambda>_ w. (Inr w, w)), fs_write = (\<lambda>_ _ w. (Inl BrokenPipe, Suc w))\<rparr>"

theorem retry_write_courses_witness:
  "case retry_write broken_fs ''x'' \<lparr>rw_path = ''p'', rw_pipe_file = 0, rw_max_attempts = 10\<rparr> 0 of
     (r, _, _, calls) \<Rightarrow> write_course 11 r calls"
  using retry_write_courses [of broken_fs "''p''" 0
      "\<lparr>rw_path = ''p'', rw_pipe_file = 0, rw_max_attempts = 10\<rparr>" 0 "''x''" 0]
  by (simp add: retry_writer_new_def broken_fs_def split: prod.split)

end
