(* ===== verification/SpanChannel.thy ===== *)
theory SpanChannel
  imports Prelude "HOL-Library.Sublist"
begin

text \<open>
  The channel finished spans go through, \<open>telemetry/tracing/channel.rs\<close>. Tokio's \<open>mpsc\<close> channel,
  bounded or not, is a parameter; what is used of it is its documentation: a channel holds a
  queue, \<open>try_send\<close> appends to it unless the channel is closed or full, and receiving takes
  from its front. The state has the channel and the three metrics the code keeps. The lemmas
  show that no span is lost, duplicated or reordered without being counted as dropped.
\<close>

record ('a, 'c) mpsc =
  mpsc_try_send :: "'a \<Rightarrow> 'c \<Rightarrow> bool \<times> 'c"
  mpsc_recv_many :: "nat \<Rightarrow> 'c \<Rightarrow> 'a list \<times> 'c"
  mpsc_len :: "'c \<Rightarrow> nat"
  mpsc_queue :: "'c \<Rightarrow> 'a list"
  mpsc_closed :: "'c \<Rightarrow> bool"

text \<open>The documented behaviour; the capacity is \<^const>\<open>None\<close> for an unbounded channel.\<close>

definition mpsc_documented :: "nat option \<Rightarrow> ('a, 'c) mpsc \<Rightarrow> bool" where
  "mpsc_documented cap ch \<longleftrightarrow>
     (\<forall>c. mpsc_len ch c = length (mpsc_queue ch c)) \<and>
     (\<forall>x c. let (ok, c') = mpsc_try_send ch x c in
        (ok \<longleftrightarrow> \<not> mpsc_closed ch c \<and> (\<forall>n. cap = Some n \<longrightarrow> length (mpsc_queue ch c) < n)) \<and>
        mpsc_queue ch c' = mpsc_queue ch c @ (if ok then [x] else [])) \<and>
     (\<forall>n c. let (xs, c') = mpsc_recv_many ch n c in
        xs = take n (mpsc_queue ch c) \<and> mpsc_queue ch c' = drop n (mpsc_queue ch c))"

text \<open>A channel that is its queue, for evaluating the definitions.\<close>

definition queue_channel :: "nat option \<Rightarrow> ('a, 'a list) mpsc" where
  "queue_channel cap =
     \<lparr>mpsc_try_send = (\<lambda>x c. let ok = (case cap of None \<Rightarrow> True | Some n \<Rightarrow> length c < n)
                             in (ok, if ok then c @ [x] else c)),
      mpsc_recv_many = (\<lambda>n c. (take n c, drop n c)), mpsc_len = length,
      mpsc_queue = (\<lambda>c. c), mpsc_closed = (\<lambda>_. False)\<rparr>"

lemma mpsc_documented_queue: "mpsc_documented cap (queue_channel cap)"
  by (auto simp: mpsc_documented_def queue_channel_def Let_def split: option.split)

section \<open>Senders and receivers\<close>

record 'c span_channel =
  sc_inner :: 'c
  sc_spans_total :: u64
  sc_spans_dropped :: u64
  sc_queue_size :: u64

text \<open>\<open>channel\<close> and \<open>unbounded_channel\<close>, from the channel tokio makes.\<close>

definition span_channel_new :: "'c \<Rightarrow> 'c span_channel" where
  "span_channel_new c =
     \<lparr>sc_inner = c, sc_spans_total = 0, sc_spans_dropped = 0, sc_queue_size = 0\<rparr>"

text \<open>\<open>SpanSender::consume_span\<close>.\<close>

definition consume_span :: "('a, 'c) mpsc \<Rightarrow> 'a \<Rightarrow> 'c span_channel \<Rightarrow> 'c span_channel" where
  "consume_span ch span s =
     (case mpsc_try_send ch span (sc_inner s) of (ok, c') \<Rightarrow>
        s\<lparr>sc_inner := c', sc_spans_total := sc_spans_total s + 1,
          sc_spans_dropped := (if ok then sc_spans_dropped s else sc_spans_dropped s + 1)\<rparr>)"

definition set_queue_size :: "('a, 'c) mpsc \<Rightarrow> 'c span_channel \<Rightarrow> 'c span_channel" where
  "set_queue_size ch s = s\<lparr>sc_queue_size := of_nat (mpsc_len ch (sc_inner s))\<rparr>"

text \<open>\<open>SharedSpanReceiver::recv_many\<close>: a poll that is pending sets the gauge only; the one that is
  ready receives and sets it again. The lock makes the holder the only receiver.\<close>

definition recv_many_pending :: "('a, 'c) mpsc \<Rightarrow> 'c span_channel \<Rightarrow> 'c span_channel" where
  "recv_many_pending ch s = set_queue_size ch s"

definition recv_many_ready ::
  "('a, 'c) mpsc \<Rightarrow> nat \<Rightarrow> 'c span_channel \<Rightarrow> 'a list \<times> 'c span_channel" where
  "recv_many_ready ch limit s =
     (let s1 = set_queue_size ch s in
      case mpsc_recv_many ch limit (sc_inner s1) of (spans, c') \<Rightarrow>
        (spans, set_queue_size ch (s1\<lparr>sc_inner := c'\<rparr>)))"

text \<open>\<open>try_unique_recv\<close>: \<open>Arc::get_mut\<close> succeeds for the only receiver.\<close>

definition try_unique_recv ::
  "('a, 'c) mpsc \<Rightarrow> bool \<Rightarrow> 'c span_channel \<Rightarrow> 'a option \<times> 'c span_channel" where
  "try_unique_recv ch unique s =
     (if \<not> unique then (None, s)
      else case mpsc_recv_many ch 1 (sc_inner s) of (spans, c') \<Rightarrow>
        (case spans of [] \<Rightarrow> None | span # _ \<Rightarrow> Some span,
         set_queue_size ch (s\<lparr>sc_inner := c'\<rparr>)))"

text \<open>The operations of senders and receivers, in the order in which they take effect.\<close>

datatype 'a span_op = Consume 'a | PollPending | PollReady nat | TryUnique bool

fun span_step :: "('a, 'c) mpsc \<Rightarrow> 'a span_op \<Rightarrow> 'c span_channel \<Rightarrow> 'a list \<times> 'c span_channel" where
  "span_step ch (Consume x) s = ([], consume_span ch x s)"
| "span_step ch PollPending s = ([], recv_many_pending ch s)"
| "span_step ch (PollReady limit) s = recv_many_ready ch limit s"
| "span_step ch (TryUnique unique) s =
     (case try_unique_recv ch unique s of (r, s') \<Rightarrow> (case r of None \<Rightarrow> [] | Some x \<Rightarrow> [x], s'))"

fun span_run ::
  "('a, 'c) mpsc \<Rightarrow> 'a span_op list \<Rightarrow> 'c span_channel \<Rightarrow> 'a list \<times> 'c span_channel" where
  "span_run ch [] s = ([], s)"
| "span_run ch (op # ops) s =
     (case span_step ch op s of (xs, s') \<Rightarrow>
      case span_run ch ops s' of (ys, s'') \<Rightarrow> (xs @ ys, s''))"

fun consumed :: "'a span_op list \<Rightarrow> 'a list" where
  "consumed [] = []"
| "consumed (Consume x # ops) = x # consumed ops"
| "consumed (op # ops) = consumed ops"

section \<open>Conservation\<close>

lemma mpsc_laws:
  assumes "mpsc_documented cap ch"
  shows "mpsc_len ch c = length (mpsc_queue ch c)"
    and "mpsc_try_send ch x c = (ok, c') \<Longrightarrow>
      mpsc_queue ch c' = mpsc_queue ch c @ (if ok then [x] else [])"
    and "mpsc_try_send ch x c = (ok, c') \<Longrightarrow> ok \<Longrightarrow> cap = Some n \<Longrightarrow> length (mpsc_queue ch c) < n"
    and "mpsc_recv_many ch m c = (xs, c') \<Longrightarrow>
      xs = take m (mpsc_queue ch c) \<and> mpsc_queue ch c' = drop m (mpsc_queue ch c)"
proof -
  note doc = assms [unfolded mpsc_documented_def]
  show "mpsc_len ch c = length (mpsc_queue ch c)"
    using doc by blast
  { assume "mpsc_try_send ch x c = (ok, c')"
    with doc [THEN conjunct2, THEN conjunct1, rule_format, of x c]
    have "(ok \<longleftrightarrow> \<not> mpsc_closed ch c \<and> (\<forall>n. cap = Some n \<longrightarrow> length (mpsc_queue ch c) < n)) \<and>
        mpsc_queue ch c' = mpsc_queue ch c @ (if ok then [x] else [])"
      by simp }
  note send = this
  show "mpsc_try_send ch x c = (ok, c') \<Longrightarrow>
      mpsc_queue ch c' = mpsc_queue ch c @ (if ok then [x] else [])"
    using send by blast
  show "mpsc_try_send ch x c = (ok, c') \<Longrightarrow> ok \<Longrightarrow> cap = Some n \<Longrightarrow> length (mpsc_queue ch c) < n"
    using send by blast
  show "mpsc_recv_many ch m c = (xs, c') \<Longrightarrow>
      xs = take m (mpsc_queue ch c) \<and> mpsc_queue ch c' = drop m (mpsc_queue ch c)"
    using doc [THEN conjunct2, THEN conjunct2, rule_format, of m c] by simp
qed

lemma span_step_received:
  assumes "mpsc_documented cap ch" "\<forall>x. op \<noteq> Consume x" "span_step ch op s = (xs, s')"
  shows "xs @ mpsc_queue ch (sc_inner s') = mpsc_queue ch (sc_inner s) \<and>
    sc_spans_total s' = sc_spans_total s \<and> sc_spans_dropped s' = sc_spans_dropped s"
  using assms(2,3)
proof (cases op)
  case (PollReady limit)
  obtain ys c' where r: "mpsc_recv_many ch limit (sc_inner s) = (ys, c')" by fastforce
  with mpsc_laws(4) [OF assms(1) r] assms(3) PollReady show ?thesis
    by (auto simp: recv_many_ready_def set_queue_size_def Let_def)
next
  case (TryUnique unique)
  obtain ys c' where r: "mpsc_recv_many ch 1 (sc_inner s) = (ys, c')" by fastforce
  with mpsc_laws(4) [OF assms(1) r] assms(3) TryUnique show ?thesis
    by (cases "mpsc_queue ch (sc_inner s)")
      (auto simp: try_unique_recv_def set_queue_size_def split: if_splits)
qed (auto simp: recv_many_pending_def set_queue_size_def)

lemma span_run_conserves:
  assumes "mpsc_documented cap ch"
  shows "span_run ch ops s = (received, s') \<Longrightarrow>
    (\<forall>n. cap = Some n \<longrightarrow> length (mpsc_queue ch (sc_inner s)) \<le> n) \<Longrightarrow>
    \<exists>accepted. subseq accepted (consumed ops) \<and>
      received @ mpsc_queue ch (sc_inner s') = mpsc_queue ch (sc_inner s) @ accepted \<and>
      sc_spans_total s' = sc_spans_total s + of_nat (length (consumed ops)) \<and>
      sc_spans_dropped s' = sc_spans_dropped s + of_nat (length (consumed ops) - length accepted) \<and>
      (\<forall>n. cap = Some n \<longrightarrow> length (mpsc_queue ch (sc_inner s')) \<le> n)"
proof (induction ops arbitrary: s received)
  case Nil
  then show ?case by auto
next
  case (Cons op ops)
  obtain xs s1 where s1: "span_step ch op s = (xs, s1)" by fastforce
  obtain ys where s': "span_run ch ops s1 = (ys, s')" and rec: "received = xs @ ys"
    using Cons.prems(1) s1 by (auto split: prod.splits)
  show ?case
  proof (cases "\<exists>x. op = Consume x")
    case True
    then obtain x where op: "op = Consume x" by blast
    obtain ok c' where send: "mpsc_try_send ch x (sc_inner s) = (ok, c')" by fastforce
    have s1': "s1 = s\<lparr>sc_inner := c', sc_spans_total := sc_spans_total s + 1,
          sc_spans_dropped := (if ok then sc_spans_dropped s else sc_spans_dropped s + 1)\<rparr>"
      and xs: "xs = []"
      using s1 by (auto simp: op consume_span_def send)
    have q: "mpsc_queue ch c' = mpsc_queue ch (sc_inner s) @ (if ok then [x] else [])"
      using mpsc_laws(2) [OF assms send] .
    have "\<forall>n. cap = Some n \<longrightarrow> length (mpsc_queue ch (sc_inner s1)) \<le> n"
      using mpsc_laws(3) [OF assms send] Cons.prems(2) by (auto simp: s1' q Suc_le_eq)
    from Cons.IH [OF s' this] obtain accepted where a: "subseq accepted (consumed ops)"
      "ys @ mpsc_queue ch (sc_inner s') = mpsc_queue ch c' @ accepted"
      "sc_spans_total s' = sc_spans_total s + 1 + of_nat (length (consumed ops))"
      "sc_spans_dropped s' = (if ok then sc_spans_dropped s else sc_spans_dropped s + 1)
         + of_nat (length (consumed ops) - length accepted)"
      "\<forall>n. cap = Some n \<longrightarrow> length (mpsc_queue ch (sc_inner s')) \<le> n"
      by (auto simp: s1')
    have le: "length accepted \<le> length (consumed ops)"
      using a(1) by (rule list_emb_length)
    have "subseq accepted (x # consumed ops)"
      using a(1) by (rule list_emb_Cons)
    then show ?thesis
      using a le by (intro exI [of _ "(if ok then [x] else []) @ accepted"])
        (simp add: op rec xs q Suc_diff_le)
  next
    case False
    then have con: "consumed (op # ops) = consumed ops"
      by (cases op) auto
    from span_step_received [OF assms _ s1] False
    have st: "xs @ mpsc_queue ch (sc_inner s1) = mpsc_queue ch (sc_inner s)"
      "sc_spans_total s1 = sc_spans_total s" "sc_spans_dropped s1 = sc_spans_dropped s"
      by auto
    have "length (mpsc_queue ch (sc_inner s1)) \<le> length (mpsc_queue ch (sc_inner s))"
      using arg_cong [OF st(1), of length] by simp
    then have "\<forall>n. cap = Some n \<longrightarrow> length (mpsc_queue ch (sc_inner s1)) \<le> n"
      using Cons.prems(2) le_trans by auto
    from Cons.IH [OF s' this] show ?thesis
      using st unfolding con rec by (metis append.assoc)
  qed
qed

lemma queue_size_after_ready:
  assumes "mpsc_documented cap ch" "recv_many_ready ch limit s = (xs, s')"
  shows "sc_queue_size s' = of_nat (length (mpsc_queue ch (sc_inner s')))"
  using assms(2) mpsc_laws(1) [OF assms(1)]
  by (auto simp: recv_many_ready_def set_queue_size_def Let_def split: prod.splits)

section \<open>Properties\<close>

text \<open>C37: Starting from an empty channel, whatever the senders and receivers do and in whatever
  order, the spans received followed by those still queued are exactly the accepted ones in the
  order in which they were consumed; \<open>spans_total\<close> counts all consumed spans, \<open>spans_dropped\<close> the
  ones not accepted, so that every span is received, queued or counted as dropped; a bounded
  channel never holds more than its capacity.\<close>

theorem span_channel_conserves:
  assumes "mpsc_documented cap ch" "mpsc_queue ch c = []"
    and "span_run ch ops (span_channel_new c) = (received, s)"
  shows "\<exists>accepted. subseq accepted (consumed ops) \<and>
    received @ mpsc_queue ch (sc_inner s) = accepted \<and>
    sc_spans_total s = of_nat (length (consumed ops)) \<and>
    sc_spans_dropped s = of_nat (length (consumed ops) - length accepted) \<and>
    (\<forall>n. cap = Some n \<longrightarrow> length (mpsc_queue ch (sc_inner s)) \<le> n)"
  using span_run_conserves [OF assms(1,3)] assms(2) by (simp add: span_channel_new_def)

theorem span_channel_conserves_witness:
  "case span_run (queue_channel (Some 2)) [Consume 1, Consume 2, Consume 3, PollReady 1]
       (span_channel_new []) of
     (received, s) \<Rightarrow> \<exists>accepted. subseq accepted [1, 2, 3 :: nat] \<and>
       received @ mpsc_queue (queue_channel (Some 2)) (sc_inner s) = accepted"
  using span_channel_conserves [OF mpsc_documented_queue [of "Some 2"], of "[]"
      "[Consume 1, Consume 2, Consume 3, PollReady 1]"]
  by (fastforce simp: queue_channel_def split: prod.split)

end
