(* ===== verification/LiveReferences.thy ===== *)
theory LiveReferences
  imports Prelude
begin

text \<open>
  Live tracking of spans, \<open>telemetry/tracing/live/live_reference_set.rs\<close>, \<open>ActiveRoots::track\<close>
  of \<open>live/mod.rs\<close>, and the span handles of \<open>telemetry/tracing/internal.rs\<close>. A tracked object is
  an \<open>Arc\<close> whose weak reference sits in a slab under the object's slot; dropping the last strong
  reference removes the slot. Reference counts are part of the state and the drop of the last
  reference is two steps, since other threads can run between the count reaching zero and the
  removal. The slab's choice of a key is a parameter of which only its documented property is
  used, that the key is vacant. The lemmas show that removal always hits the object's own entry
  and that the set reported is the set of live objects.
\<close>

section \<open>Handles\<close>

text \<open>The life of a \<open>LiveReferenceHandle\<close>: inserted into the slab by \<open>Arc::new_cyclic\<close> before
  it exists, alive, and dropped but still in the slab.\<close>

datatype phase = Building | Alive | Dropping | Dead

record 'v live_handle =
  lh_value :: 'v
  lh_slot :: nat
  lh_strong :: nat
  lh_phase :: phase

text \<open>\<open>LiveReferenceSet\<close>: the slab of weak references, and the objects by their allocation.\<close>

record 'v live_set =
  lv_active_set :: "nat \<rightharpoonup> nat"
  lv_handles :: "'v live_handle list"

definition live_set_default :: "'v live_set" where
  "live_set_default = \<lparr>lv_active_set = (\<lambda>_. None), lv_handles = []\<rparr>"

text \<open>\<open>track\<close>, first the closure of \<open>new_cyclic\<close>, which inserts a weak reference that cannot be
  upgraded yet, then the reference it returns.\<close>

definition track_begin :: "((nat \<rightharpoonup> nat) \<Rightarrow> nat) \<Rightarrow> 'v \<Rightarrow> 'v live_set \<Rightarrow> 'v live_set" where
  "track_begin vacant_key value s =
     (let slot = vacant_key (lv_active_set s); h = length (lv_handles s)
      in \<lparr>lv_active_set = (lv_active_set s)(slot \<mapsto> h),
          lv_handles = lv_handles s @
            [\<lparr>lh_value = value, lh_slot = slot, lh_strong = 0, lh_phase = Building\<rparr>]\<rparr>)"

definition update_handle ::
  "nat \<Rightarrow> ('v live_handle \<Rightarrow> 'v live_handle) \<Rightarrow> 'v live_set \<Rightarrow> 'v live_set" where
  "update_handle h f s = s\<lparr>lv_handles := (lv_handles s)[h := f (lv_handles s ! h)]\<rparr>"

definition track_end :: "nat \<Rightarrow> 'v live_set \<Rightarrow> 'v live_set" where
  "track_end h s = update_handle h (\<lambda>lh. lh\<lparr>lh_strong := 1, lh_phase := Alive\<rparr>) s"

definition arc_clone :: "nat \<Rightarrow> 'v live_set \<Rightarrow> 'v live_set" where
  "arc_clone h s = update_handle h (\<lambda>lh. lh\<lparr>lh_strong := lh_strong lh + 1\<rparr>) s"

text \<open>Dropping a strong reference, and \<open>LiveReferenceHandle::drop\<close>, which removes the slot;
  \<^const>\<open>None\<close> is the panic of \<open>Slab::remove\<close> on a vacant one.\<close>

definition arc_drop :: "nat \<Rightarrow> 'v live_set \<Rightarrow> 'v live_set" where
  "arc_drop h s =
     update_handle h
       (\<lambda>lh. lh\<lparr>lh_strong := lh_strong lh - 1,
               lh_phase := (if lh_strong lh = 1 then Dropping else lh_phase lh)\<rparr>) s"

definition handle_drop :: "nat \<Rightarrow> 'v live_set \<Rightarrow> 'v live_set option" where
  "handle_drop h s =
     (let slot = lh_slot (lv_handles s ! h) in
      case lv_active_set s slot of
        None \<Rightarrow> None
      | Some _ \<Rightarrow>
          Some (update_handle h (\<lambda>lh. lh\<lparr>lh_phase := Dead\<rparr>)
            (s\<lparr>lv_active_set := (lv_active_set s)(slot := None)\<rparr>)))"

text \<open>\<open>get_live_references\<close>: the entries of the slab in the order of their keys, those that can
  be upgraded; each upgrade is a new strong reference.\<close>

definition live_references :: "'v live_set \<Rightarrow> nat list" where
  "live_references s =
     filter (\<lambda>h. lh_strong (lv_handles s ! h) \<noteq> 0)
       (map (\<lambda>slot. the (lv_active_set s slot)) (sorted_list_of_set (dom (lv_active_set s))))"

definition get_live_references :: "'v live_set \<Rightarrow> nat list \<times> 'v live_set" where
  "get_live_references s = (live_references s, fold arc_clone (live_references s) s)"

section \<open>Interleavings\<close>

datatype 'v live_op =
    TrackBegin 'v
  | TrackEnd nat
  | CloneRef nat
  | DropRef nat
  | FinishDrop nat
  | GetLive

text \<open>What Rust's ownership allows: only who holds a strong reference clones or drops it, and each
  construction and each drop is finished once.\<close>

fun live_op_valid :: "'v live_op \<Rightarrow> 'v live_set \<Rightarrow> bool" where
  "live_op_valid (TrackBegin v) s \<longleftrightarrow> True"
| "live_op_valid (TrackEnd h) s \<longleftrightarrow>
     h < length (lv_handles s) \<and> lh_phase (lv_handles s ! h) = Building"
| "live_op_valid (CloneRef h) s \<longleftrightarrow> h < length (lv_handles s) \<and> 0 < lh_strong (lv_handles s ! h)"
| "live_op_valid (DropRef h) s \<longleftrightarrow> h < length (lv_handles s) \<and> 0 < lh_strong (lv_handles s ! h)"
| "live_op_valid (FinishDrop h) s \<longleftrightarrow>
     h < length (lv_handles s) \<and> lh_phase (lv_handles s ! h) = Dropping"
| "live_op_valid GetLive s \<longleftrightarrow> True"

fun live_step ::
  "((nat \<rightharpoonup> nat) \<Rightarrow> nat) \<Rightarrow> 'v live_op \<Rightarrow> 'v live_set \<Rightarrow> 'v live_set option" where
  "live_step vacant_key (TrackBegin v) s = Some (track_begin vacant_key v s)"
| "live_step vacant_key (TrackEnd h) s = Some (track_end h s)"
| "live_step vacant_key (CloneRef h) s = Some (arc_clone h s)"
| "live_step vacant_key (DropRef h) s = Some (arc_drop h s)"
| "live_step vacant_key (FinishDrop h) s = handle_drop h s"
| "live_step vacant_key GetLive s = Some (snd (get_live_references s))"

inductive live_reach :: "((nat \<rightharpoonup> nat) \<Rightarrow> nat) \<Rightarrow> 'v live_set \<Rightarrow> bool" for vacant_key where
  init: "live_reach vacant_key live_set_default"
| step: "live_reach vacant_key s \<Longrightarrow> live_op_valid op s \<Longrightarrow>
    live_step vacant_key op s = Some s' \<Longrightarrow> live_reach vacant_key s'"

definition slab_documented :: "((nat \<rightharpoonup> nat) \<Rightarrow> nat) \<Rightarrow> bool" where
  "slab_documented vacant_key \<longleftrightarrow> (\<forall>m. finite (dom m) \<longrightarrow> vacant_key m \<notin> dom m)"

definition next_key :: "(nat \<rightharpoonup> nat) \<Rightarrow> nat" where
  "next_key m = (if dom m = {} then 0 else Suc (Max (dom m)))"

lemma slab_documented_next_key: "slab_documented next_key"
  unfolding slab_documented_def next_key_def
  by (metis Max_ge empty_iff not_less_eq_eq order_refl)

text \<open>The invariant: an object that is not dead owns its slot, and every slot is owned.\<close>

definition live_valid :: "'v live_set \<Rightarrow> bool" where
  "live_valid s \<longleftrightarrow>
     finite (dom (lv_active_set s)) \<and>
     (\<forall>h < length (lv_handles s).
        (lh_phase (lv_handles s ! h) \<noteq> Dead \<longrightarrow>
           lv_active_set s (lh_slot (lv_handles s ! h)) = Some h) \<and>
        (0 < lh_strong (lv_handles s ! h) \<longleftrightarrow> lh_phase (lv_handles s ! h) = Alive)) \<and>
     (\<forall>slot h. lv_active_set s slot = Some h \<longrightarrow>
        h < length (lv_handles s) \<and> lh_slot (lv_handles s ! h) = slot \<and>
        lh_phase (lv_handles s ! h) \<noteq> Dead)"

lemma live_validI [intro?]:
  assumes "finite (dom (lv_active_set s))"
    and "\<And>h. h < length (lv_handles s) \<Longrightarrow> lh_phase (lv_handles s ! h) \<noteq> Dead \<Longrightarrow>
      lv_active_set s (lh_slot (lv_handles s ! h)) = Some h"
    and "\<And>h. h < length (lv_handles s) \<Longrightarrow>
      0 < lh_strong (lv_handles s ! h) \<longleftrightarrow> lh_phase (lv_handles s ! h) = Alive"
    and "\<And>slot h. lv_active_set s slot = Some h \<Longrightarrow>
      h < length (lv_handles s) \<and> lh_slot (lv_handles s ! h) = slot \<and>
      lh_phase (lv_handles s ! h) \<noteq> Dead"
  shows "live_valid s"
  using assms unfolding live_valid_def by blast

lemma live_validD:
  assumes "live_valid s"
  shows "finite (dom (lv_active_set s))"
    and "h < length (lv_handles s) \<Longrightarrow> lh_phase (lv_handles s ! h) \<noteq> Dead \<Longrightarrow>
      lv_active_set s (lh_slot (lv_handles s ! h)) = Some h"
    and "h < length (lv_handles s) \<Longrightarrow>
      0 < lh_strong (lv_handles s ! h) \<longleftrightarrow> lh_phase (lv_handles s ! h) = Alive"
    and "lv_active_set s slot = Some h \<Longrightarrow>
      h < length (lv_handles s) \<and> lh_slot (lv_handles s ! h) = slot \<and>
      lh_phase (lv_handles s ! h) \<noteq> Dead"
  using assms unfolding live_valid_def by blast+

text \<open>A change of one object that keeps its slot and does not kill or revive it.\<close>

lemma live_valid_update:
  assumes "live_valid s" "h < length (lv_handles s)"
    and "lh_slot (f (lv_handles s ! h)) = lh_slot (lv_handles s ! h)"
    and "lh_phase (lv_handles s ! h) \<noteq> Dead" "lh_phase (f (lv_handles s ! h)) \<noteq> Dead"
    and "0 < lh_strong (f (lv_handles s ! h)) \<longleftrightarrow> lh_phase (f (lv_handles s ! h)) = Alive"
  shows "live_valid (update_handle h f s)"
proof (rule live_validI)
  show "finite (dom (lv_active_set (update_handle h f s)))"
    using live_validD(1) [OF assms(1)] by (simp add: update_handle_def)
next
  fix k
  assume "k < length (lv_handles (update_handle h f s))"
    "lh_phase (lv_handles (update_handle h f s) ! k) \<noteq> Dead"
  then show "lv_active_set (update_handle h f s) (lh_slot (lv_handles (update_handle h f s) ! k)) =
      Some k"
    using live_validD(2) [OF assms(1)] assms(2-4)
    by (cases "k = h") (simp_all add: update_handle_def)
next
  fix k
  assume "k < length (lv_handles (update_handle h f s))"
  then show "0 < lh_strong (lv_handles (update_handle h f s) ! k) \<longleftrightarrow>
      lh_phase (lv_handles (update_handle h f s) ! k) = Alive"
    using live_validD(3) [OF assms(1)] assms(2,6)
    by (cases "k = h") (simp_all add: update_handle_def)
next
  fix slot k
  assume "lv_active_set (update_handle h f s) slot = Some k"
  then show "k < length (lv_handles (update_handle h f s)) \<and>
      lh_slot (lv_handles (update_handle h f s) ! k) = slot \<and>
      lh_phase (lv_handles (update_handle h f s) ! k) \<noteq> Dead"
    using live_validD(4) [OF assms(1), of slot k] assms(2,3,5)
    by (cases "k = h") (simp_all add: update_handle_def)
qed

lemma live_valid_track_begin:
  assumes "slab_documented vacant_key" "live_valid s"
  shows "live_valid (track_begin vacant_key v s)"
proof -
  let ?slot = "vacant_key (lv_active_set s)"
  have vacant: "lv_active_set s ?slot = None"
    using assms live_validD(1) unfolding slab_documented_def by blast
  show ?thesis
  proof (rule live_validI)
    show "finite (dom (lv_active_set (track_begin vacant_key v s)))"
      using live_validD(1) [OF assms(2)] by (simp add: track_begin_def Let_def)
  next
    fix h
    assume "h < length (lv_handles (track_begin vacant_key v s))"
      "lh_phase (lv_handles (track_begin vacant_key v s) ! h) \<noteq> Dead"
    then show "lv_active_set (track_begin vacant_key v s)
        (lh_slot (lv_handles (track_begin vacant_key v s) ! h)) = Some h"
      using live_validD(2) [OF assms(2), of h] vacant
      by (auto simp: track_begin_def Let_def nth_append less_Suc_eq)
  next
    fix h
    assume "h < length (lv_handles (track_begin vacant_key v s))"
    then show "0 < lh_strong (lv_handles (track_begin vacant_key v s) ! h) \<longleftrightarrow>
        lh_phase (lv_handles (track_begin vacant_key v s) ! h) = Alive"
      using live_validD(3) [OF assms(2), of h]
      by (auto simp: track_begin_def Let_def nth_append less_Suc_eq)
  next
    fix slot h
    assume "lv_active_set (track_begin vacant_key v s) slot = Some h"
    then show "h < length (lv_handles (track_begin vacant_key v s)) \<and>
        lh_slot (lv_handles (track_begin vacant_key v s) ! h) = slot \<and>
        lh_phase (lv_handles (track_begin vacant_key v s) ! h) \<noteq> Dead"
      using live_validD(4) [OF assms(2), of slot h]
      by (auto simp: track_begin_def Let_def nth_append split: if_splits)
  qed
qed

lemma live_valid_handle_drop:
  assumes "live_valid s" "h < length (lv_handles s)" "lh_phase (lv_handles s ! h) = Dropping"
  shows "\<exists>s'. handle_drop h s = Some s' \<and> live_valid s'"
proof -
  let ?slot = "lh_slot (lv_handles s ! h)"
  let ?s = "update_handle h (\<lambda>lh. lh\<lparr>lh_phase := Dead\<rparr>)
    (s\<lparr>lv_active_set := (lv_active_set s)(?slot := None)\<rparr>)"
  have slot: "lv_active_set s ?slot = Some h"
    using live_validD(2) [OF assms(1,2)] assms(3) by simp
  have zero: "lh_strong (lv_handles s ! h) = 0"
    using live_validD(3) [OF assms(1,2)] assms(3) by simp
  have "live_valid ?s"
  proof (rule live_validI)
    show "finite (dom (lv_active_set ?s))"
      using live_validD(1) [OF assms(1)] by (simp add: update_handle_def)
  next
    fix k
    assume "k < length (lv_handles ?s)" "lh_phase (lv_handles ?s ! k) \<noteq> Dead"
    then show "lv_active_set ?s (lh_slot (lv_handles ?s ! k)) = Some k"
      using live_validD(2) [OF assms(1), of k] slot assms(2)
      by (cases "k = h") (auto simp: update_handle_def)
  next
    fix k
    assume "k < length (lv_handles ?s)"
    then show "0 < lh_strong (lv_handles ?s ! k) \<longleftrightarrow> lh_phase (lv_handles ?s ! k) = Alive"
      using live_validD(3) [OF assms(1), of k] zero assms(2)
      by (cases "k = h") (simp_all add: update_handle_def)
  next
    fix slot k
    assume "lv_active_set ?s slot = Some k"
    then show "k < length (lv_handles ?s) \<and> lh_slot (lv_handles ?s ! k) = slot \<and>
        lh_phase (lv_handles ?s ! k) \<noteq> Dead"
      using live_validD(4) [OF assms(1), of slot k]
      by (cases "k = h") (auto simp: update_handle_def split: if_splits)
  qed
  then show ?thesis
    by (simp add: handle_drop_def slot Let_def)
qed

lemma live_valid_arc_clone:
  assumes "live_valid s" "h < length (lv_handles s)" "0 < lh_strong (lv_handles s ! h)"
  shows "live_valid (arc_clone h s)"
  using live_validD(3) [OF assms(1,2)] assms unfolding arc_clone_def
  by (intro live_valid_update) simp_all

lemma live_valid_fold_clone:
  "live_valid s \<Longrightarrow> \<forall>h\<in>set hs. h < length (lv_handles s) \<and> 0 < lh_strong (lv_handles s ! h) \<Longrightarrow>
   live_valid (fold arc_clone hs s)"
proof (induction hs arbitrary: s)
  case Nil
  then show ?case by simp
next
  case (Cons h hs)
  have "\<forall>k\<in>set hs. k < length (lv_handles (arc_clone h s)) \<and>
      0 < lh_strong (lv_handles (arc_clone h s) ! k)"
  proof
    fix k
    assume "k \<in> set hs"
    with Cons.prems(2) show "k < length (lv_handles (arc_clone h s)) \<and>
        0 < lh_strong (lv_handles (arc_clone h s) ! k)"
      by (cases "k = h") (simp_all add: arc_clone_def update_handle_def)
  qed
  with Cons show ?case
    by (simp add: live_valid_arc_clone)
qed

lemma live_references_iff:
  assumes "live_valid s"
  shows "h \<in> set (live_references s) \<longleftrightarrow>
    h < length (lv_handles s) \<and> 0 < lh_strong (lv_handles s ! h)"
proof
  assume "h \<in> set (live_references s)"
  then obtain slot where slot: "slot \<in> dom (lv_active_set s)" "h = the (lv_active_set s slot)"
    and pos: "0 < lh_strong (lv_handles s ! h)"
    using live_validD(1) [OF assms] by (auto simp: live_references_def)
  then have "lv_active_set s slot = Some h" by auto
  with live_validD(4) [OF assms] pos show "h < length (lv_handles s) \<and> 0 < lh_strong (lv_handles s ! h)"
    by blast
next
  assume h: "h < length (lv_handles s) \<and> 0 < lh_strong (lv_handles s ! h)"
  then have "lh_phase (lv_handles s ! h) \<noteq> Dead"
    using live_validD(3) [OF assms, of h] by simp
  then have slot: "lv_active_set s (lh_slot (lv_handles s ! h)) = Some h"
    using live_validD(2) [OF assms] h by blast
  then have "lh_slot (lv_handles s ! h) \<in> dom (lv_active_set s)" by blast
  then have "h \<in> (\<lambda>slot. the (lv_active_set s slot)) ` dom (lv_active_set s)"
    using slot by (metis image_eqI option.sel)
  with h show "h \<in> set (live_references s)"
    using live_validD(1) [OF assms] by (simp add: live_references_def)
qed

lemma live_references_distinct:
  assumes "live_valid s"
  shows "distinct (live_references s)"
proof -
  have "inj_on (\<lambda>slot. the (lv_active_set s slot)) (dom (lv_active_set s))"
  proof (rule inj_onI)
    fix x y
    assume "x \<in> dom (lv_active_set s)" "y \<in> dom (lv_active_set s)"
      and eq: "the (lv_active_set s x) = the (lv_active_set s y)"
    then obtain h k where "lv_active_set s x = Some h" "lv_active_set s y = Some k" by blast
    with eq live_validD(4) [OF assms, of x h] live_validD(4) [OF assms, of y k] show "x = y"
      by simp
  qed
  then show ?thesis
    using live_validD(1) [OF assms]
    by (simp add: live_references_def distinct_map)
qed

lemma live_step_valid:
  assumes "slab_documented vacant_key" "live_valid s" "live_op_valid op s"
  shows "\<exists>s'. live_step vacant_key op s = Some s' \<and> live_valid s'"
proof (cases op)
  case (TrackBegin v)
  then show ?thesis using live_valid_track_begin [OF assms(1,2)] by simp
next
  case (TrackEnd h)
  then show ?thesis
    using assms(2,3) by (auto simp: track_end_def intro!: live_valid_update)
next
  case (CloneRef h)
  then show ?thesis using assms(2,3) by (auto intro: live_valid_arc_clone)
next
  case (DropRef h)
  then have "lh_phase (lv_handles s ! h) = Alive"
    using live_validD(3) [OF assms(2), of h] assms(3) by simp
  with DropRef show ?thesis
    using assms(2,3) by (auto simp: arc_drop_def intro!: live_valid_update split: if_splits)
next
  case (FinishDrop h)
  then show ?thesis using live_valid_handle_drop [OF assms(2)] assms(3) by simp
next
  case GetLive
  then show ?thesis
    using live_valid_fold_clone [OF assms(2)] live_references_iff [OF assms(2)]
    by (simp add: get_live_references_def)
qed

lemma live_reach_valid:
  assumes "slab_documented vacant_key"
  shows "live_reach vacant_key s \<Longrightarrow> live_valid s"
proof (induction rule: live_reach.induct)
  case init
  show ?case by (rule live_validI) (simp_all add: live_set_default_def)
next
  case (step s op s')
  then show ?case using live_step_valid [OF assms] by fastforce
qed

section \<open>Span handles\<close>

text \<open>\<open>SharedSpanHandle\<close>, \<open>SharedSpan\<close> and \<open>ActiveRoots::track\<close>; the spans are positions.\<close>

datatype span_handle = Tracked nat | Untracked nat | Inactive

record shared_span =
  sh_inner :: span_handle
  sh_is_sampled :: bool

record liveness_settings =
  lt_enabled :: bool
  lt_track_all_spans :: bool

definition active_roots_track :: "liveness_settings \<Rightarrow> nat \<Rightarrow> bool \<Rightarrow> span_handle" where
  "active_roots_track settings span is_sampled =
     (if lt_enabled settings \<and> (lt_track_all_spans settings \<or> is_sampled) then Tracked span
      else if is_sampled then Untracked span
      else Inactive)"

definition shared_span_new :: "liveness_settings \<Rightarrow> nat \<Rightarrow> bool \<Rightarrow> shared_span" where
  "shared_span_new settings span is_sampled =
     \<lparr>sh_inner = active_roots_track settings span is_sampled, sh_is_sampled = is_sampled\<rparr>"

definition user_shared_span_new :: "nat \<Rightarrow> bool \<Rightarrow> shared_span" where
  "user_shared_span_new span is_sampled =
     \<lparr>sh_inner = (if is_sampled then Untracked span else Inactive), sh_is_sampled = is_sampled\<rparr>"

text \<open>\<open>write_current_span\<close> and \<open>write_current_user_span\<close>: which span is written, if any;
  \<^const>\<open>None\<close> is the panic of \<open>unreachable!\<close>.\<close>

definition write_current_span :: "shared_span option \<Rightarrow> nat option option" where
  "write_current_span cur =
     (case cur of
        None \<Rightarrow> Some None
      | Some span \<Rightarrow>
          if \<not> sh_is_sampled span then Some None
          else case sh_inner span of
            Tracked handle \<Rightarrow> Some (Some handle)
          | Untracked rw_lock \<Rightarrow> Some (Some rw_lock)
          | Inactive \<Rightarrow> None)"

section \<open>Properties\<close>

text \<open>However threads interleave tracking, cloning and dropping references, every step that
  ownership allows succeeds; in particular removing a dropped object from the slab never panics
  and never removes another object's entry, since an object keeps its slot until then.\<close>

theorem live_set_never_panics:
  assumes "slab_documented vacant_key" "live_reach vacant_key s" "live_op_valid op s"
  shows "live_step vacant_key op s \<noteq> None \<and>
    (\<forall>h. op = FinishDrop h \<longrightarrow> lv_active_set s (lh_slot (lv_handles s ! h)) = Some h)"
proof
  have valid: "live_valid s"
    using live_reach_valid [OF assms(1,2)] .
  show "live_step vacant_key op s \<noteq> None"
    using live_step_valid [OF assms(1) valid assms(3)] by auto
  show "\<forall>h. op = FinishDrop h \<longrightarrow> lv_active_set s (lh_slot (lv_handles s ! h)) = Some h"
    using live_validD(2) [OF valid] assms(3) by auto
qed

theorem live_set_never_panics_witness:
  "live_step next_key (TrackBegin (7 :: nat)) live_set_default \<noteq> None"
  using live_set_never_panics [OF slab_documented_next_key live_reach.init, of "TrackBegin 7"] by simp

text \<open>\<open>get_live_references\<close> returns every object that still has a strong reference, each once,
  and nothing else: no object under construction, none whose last reference is gone but which is
  not yet removed.\<close>

theorem live_references_are_the_live_ones:
  assumes "slab_documented vacant_key" "live_reach vacant_key s"
  shows "set (fst (get_live_references s)) =
      {h. h < length (lv_handles s) \<and> 0 < lh_strong (lv_handles s ! h)} \<and>
    distinct (fst (get_live_references s))"
  using live_references_iff [OF live_reach_valid [OF assms]]
    live_references_distinct [OF live_reach_valid [OF assms]]
  by (auto simp: get_live_references_def)

theorem live_references_are_the_live_ones_witness:
  "set (fst (get_live_references
     (track_end 0 (track_begin next_key (7 :: nat) live_set_default)))) = {0}"
proof -
  let ?s = "track_begin next_key (7 :: nat) live_set_default"
  have "live_reach next_key ?s"
    by (rule live_reach.step [OF live_reach.init, where op = "TrackBegin 7"]) simp_all
  moreover have "live_op_valid (TrackEnd 0) ?s"
    by (simp add: track_begin_def live_set_default_def Let_def)
  ultimately have "live_reach next_key (track_end 0 ?s)"
    by (rule live_reach.step) simp
  from live_references_are_the_live_ones [OF slab_documented_next_key this]
  have "set (fst (get_live_references (track_end 0 ?s))) =
      {h. h < length (lv_handles (track_end 0 ?s)) \<and> 0 < lh_strong (lv_handles (track_end 0 ?s) ! h)}"
    by (rule conjunct1)
  also have "lv_handles (track_end 0 ?s) =
      [\<lparr>lh_value = 7, lh_slot = 0, lh_strong = 1, lh_phase = Alive\<rparr>]"
  proof -
    have "next_key (\<lambda>_. None) = 0"
      by (simp add: next_key_def)
    then show ?thesis
      unfolding track_end_def track_begin_def update_handle_def live_set_default_def Let_def
      by simp
  qed
  also have "{h. h < length [\<lparr>lh_value = 7 :: nat, lh_slot = 0, lh_strong = 1, lh_phase = Alive\<rparr>] \<and>
      0 < lh_strong ([\<lparr>lh_value = 7 :: nat, lh_slot = 0, lh_strong = 1, lh_phase = Alive\<rparr>] ! h)} = {0}"
    by (rule set_eqI) (simp cong: conj_cong)
  finally show ?thesis .
qed

text \<open>Writing to the current span never reaches its \<open>unreachable!\<close>: a handle made by
  \<open>shared_span\<close> or \<open>user_shared_span\<close> of a sampled span is that span's, under any settings, and an
  unsampled span is left alone.\<close>

theorem sampled_span_is_written:
  "write_current_span (Some (shared_span_new settings span sampled)) =
     Some (if sampled then Some span else None) \<and>
   write_current_span (Some (user_shared_span_new span sampled)) =
     Some (if sampled then Some span else None)"
  by (simp add: write_current_span_def shared_span_new_def user_shared_span_new_def
      active_roots_track_def)

end
