(* ===== verification/Traceparent.thy ===== *)
theory Traceparent
  imports Utf8
begin

text \<open>
  W3C trace context, \<open>telemetry/tracing/traceparent.rs\<close>: parsing and printing of the
  \<open>traceparent\<close> header, the formatter \<open>w3c_traceparent\<close> of \<open>telemetry/tracing/mod.rs\<close>, and
  the span context \<open>start_user_trace\<close> of \<open>telemetry/tracing/internal.rs\<close> builds from an
  inbound header. The \<open>hex\<close> crate is the record \<open>hex_crate\<close>; what is used of it is its
  documentation: decoding takes digits of either case and fails on any other length or
  character, encoding prints lower-case digits and fails on a buffer of another size. The
  lemmas show that a printed header parses back, which byte strings are accepted, and that
  the identifiers a hop formats are the ones the next hop continues.
\<close>

section \<open>The hex crate\<close>

record hex_crate =
  hex_decode_to_slice :: "string \<Rightarrow> nat \<Rightarrow> u8 list option"
  hex_encode_to_slice :: "u8 list \<Rightarrow> nat \<Rightarrow> string option"

fun hex_read :: "string \<Rightarrow> u8 list option" where
  "hex_read [] = Some []"
| "hex_read [c] = None"
| "hex_read (c # d # cs) =
     (case (hex_value c, hex_value d, hex_read cs) of
        (Some h, Some l, Some bs) \<Rightarrow> Some (of_nat (16 * h + l) # bs)
      | _ \<Rightarrow> None)"

definition hex_byte :: "u8 \<Rightarrow> string" where
  "hex_byte b = [hex_digit (unat b div 16), hex_digit (unat b mod 16)]"

definition hex_print :: "u8 list \<Rightarrow> string" where
  "hex_print bs = concat (map hex_byte bs)"

definition hex_documented :: "hex_crate \<Rightarrow> bool" where
  "hex_documented hx \<longleftrightarrow>
     (\<forall>s n. hex_decode_to_slice hx s n = (if length s = 2 * n then hex_read s else None)) \<and>
     (\<forall>bs n. hex_encode_to_slice hx bs n =
               (if n = 2 * length bs then Some (hex_print bs) else None))"

definition hex_reference :: hex_crate where
  "hex_reference =
     \<lparr>hex_decode_to_slice = (\<lambda>s n. if length s = 2 * n then hex_read s else None),
      hex_encode_to_slice = (\<lambda>bs n. if n = 2 * length bs then Some (hex_print bs) else None)\<rparr>"

lemma hex_documented_reference: "hex_documented hex_reference"
  by (simp add: hex_documented_def hex_reference_def)

lemma hex_print_Nil [simp]: "hex_print [] = []"
  by (simp add: hex_print_def)

lemma hex_print_Cons: "hex_print (b # bs) = hex_byte b @ hex_print bs"
  by (simp add: hex_print_def)

lemma hex_print_append: "hex_print (as @ bs) = hex_print as @ hex_print bs"
  by (simp add: hex_print_def)

lemma length_hex_byte [simp]: "length (hex_byte b) = 2"
  by (simp add: hex_byte_def)

lemma length_hex_print [simp]: "length (hex_print bs) = 2 * length bs"
  by (induction bs) (simp_all add: hex_print_Cons)

lemma unat_u8_div [simp]: "unat (b :: u8) div 16 < 16"
proof -
  have "unat b < 2 ^ LENGTH(8)" by (rule unsigned_less)
  then show ?thesis by (simp add: less_mult_imp_div_less)
qed

lemma hex_read_print [simp]: "hex_read (hex_print bs) = Some bs"
  by (induction bs) (simp_all add: hex_print_Cons hex_byte_def)

lemma hex_read_value:
  "hex_read s = Some bs \<Longrightarrow> c \<in> set s \<Longrightarrow> \<exists>n. hex_value c = Some n"
  by (induction s arbitrary: bs rule: hex_read.induct) (auto split: option.splits)

lemma hex_read_length: "hex_read s = Some bs \<Longrightarrow> length s = 2 * length bs"
  by (induction s arbitrary: bs rule: hex_read.induct) (auto split: option.splits)

lemma hex_read_ascii: "hex_read s = Some bs \<Longrightarrow> \<forall>c\<in>set s. byte_in 0 127 c"
  using hex_read_value hex_value_ascii by blast

lemma hex_read_no_dash: "hex_read s = Some bs \<Longrightarrow> CHR ''-'' \<notin> set s"
  using hex_read_value [of s bs "CHR ''-''"] by auto

section \<open>Parsing and printing\<close>

text \<open>\<open>TraceparentContext\<close>.\<close>

record traceparent =
  tp_version :: u8
  tp_trace_id :: "u8 list"
  tp_parent_id :: "u8 list"
  tp_flags :: u8

text \<open>\<open>TraceparentContext::parse\<close>.\<close>

definition traceparent_parse :: "hex_crate \<Rightarrow> string \<Rightarrow> traceparent option" where
  "traceparent_parse hx value =
     (if \<not> utf8_valid value then None
      else case splitn 4 (CHR ''-'') value of
        [version_str, trace_id_str, parent_id_str, flags_str] \<Rightarrow>
          if length version_str \<noteq> 2 \<or> length trace_id_str \<noteq> 32
             \<or> length parent_id_str \<noteq> 16 \<or> length flags_str \<noteq> 2
          then None
          else case u8_from_str_radix16 version_str of None \<Rightarrow> None | Some version \<Rightarrow>
            if version \<noteq> 0 then None
            else case u8_from_str_radix16 flags_str of None \<Rightarrow> None | Some trace_flags \<Rightarrow>
              case hex_decode_to_slice hx trace_id_str 16 of None \<Rightarrow> None | Some trace_id \<Rightarrow>
                case hex_decode_to_slice hx parent_id_str 8 of None \<Rightarrow> None | Some parent_id \<Rightarrow>
                  if trace_id = replicate 16 0 \<or> parent_id = replicate 8 0 then None
                  else Some \<lparr>tp_version = version, tp_trace_id = trace_id,
                             tp_parent_id = parent_id, tp_flags = trace_flags\<rparr>
      | _ \<Rightarrow> None)"

text \<open>\<open>TraceparentContext::is_sampled\<close>.\<close>

definition tp_is_sampled :: "traceparent \<Rightarrow> bool" where
  "tp_is_sampled tp \<longleftrightarrow> tp_flags tp AND 1 \<noteq> 0"

text \<open>\<open>TraceparentContext::to_traceparent_string\<close>; \<^const>\<open>None\<close> is a failed \<open>expect\<close>.\<close>

definition to_traceparent_string :: "hex_crate \<Rightarrow> traceparent \<Rightarrow> string option" where
  "to_traceparent_string hx tp =
     (case hex_encode_to_slice hx [tp_version tp] 2 of None \<Rightarrow> None | Some v \<Rightarrow>
      case hex_encode_to_slice hx (tp_trace_id tp) 32 of None \<Rightarrow> None | Some t \<Rightarrow>
      case hex_encode_to_slice hx (tp_parent_id tp) 16 of None \<Rightarrow> None | Some p \<Rightarrow>
      case hex_encode_to_slice hx [tp_flags tp] 2 of None \<Rightarrow> None | Some f \<Rightarrow>
        let buf = v @ ''-'' @ t @ ''-'' @ p @ ''-'' @ f in
        if utf8_valid buf then Some buf else None)"

text \<open>The types \<open>[u8; 16]\<close> and \<open>[u8; 8]\<close> of the fields, and what \<open>parse\<close> promises of them.\<close>

definition traceparent_ok :: "traceparent \<Rightarrow> bool" where
  "traceparent_ok tp \<longleftrightarrow>
     tp_version tp = 0 \<and> length (tp_trace_id tp) = 16 \<and> length (tp_parent_id tp) = 8 \<and>
     tp_trace_id tp \<noteq> replicate 16 0 \<and> tp_parent_id tp \<noteq> replicate 8 0"

section \<open>Which headers are accepted\<close>

text \<open>The two-character fields read as a byte: two hexadecimal digits, or a sign and one.\<close>

definition hex_pair :: "string \<Rightarrow> u8 \<Rightarrow> bool" where
  "hex_pair s b \<longleftrightarrow>
     hex_read s = Some [b] \<or>
     (case s of [x, c] \<Rightarrow> x = CHR ''+'' \<and> map_option of_nat (hex_value c) = Some b | _ \<Rightarrow> False)"

lemma hex_pair_iff:
  "hex_pair s b \<longleftrightarrow> hex_read s = Some [b] \<or>
     (\<exists>c d. s = [CHR ''+'', c] \<and> hex_value c = Some d \<and> b = of_nat d)"
  by (auto simp: hex_pair_def split: list.splits)

lemma u8_radix16_two:
  "u8_radix16_digits 0 [c, d] =
     (case (hex_value c, hex_value d) of (Some h, Some l) \<Rightarrow> Some (of_nat (16 * h + l)) | _ \<Rightarrow> None)"
  using hex_value_lt [of c] hex_value_lt [of d] by (auto split: option.splits)

lemma length_2_iff: "length s = 2 \<longleftrightarrow> (\<exists>c d. s = [c, d])"
  by (auto simp: numeral_2_eq_2 length_Suc_conv)

lemma u8_from_str_radix16_pair:
  assumes "length s = 2"
  shows "u8_from_str_radix16 s = Some b \<longleftrightarrow> hex_pair s b"
proof -
  from assms obtain c d where s: "s = [c, d]"
    by (auto simp: length_2_iff)
  show ?thesis
  proof (cases "c = CHR ''+''")
    case True
    then show ?thesis
      using hex_value_lt [of d]
      by (auto simp: s u8_from_str_radix16_def hex_pair_iff split: option.splits)
  next
    case False
    then have "u8_from_str_radix16 s = u8_radix16_digits 0 [c, d]"
      by (simp add: s u8_from_str_radix16_def)
    also have "(\<dots> = Some b) = (hex_read s = Some [b])"
      unfolding u8_radix16_two by (auto simp: s split: option.splits)
    finally show ?thesis
      using False by (auto simp: s hex_pair_iff)
  qed
qed

lemma hex_pair_length: "hex_pair s b \<Longrightarrow> length s = 2"
  by (auto simp: hex_pair_iff dest: hex_read_length)

lemma hex_pair_ascii: "hex_pair s b \<Longrightarrow> \<forall>c\<in>set s. byte_in 0 127 c"
  unfolding hex_pair_iff
proof (elim disjE exE conjE)
  fix c d
  assume "s = [CHR ''+'', c]" "hex_value c = Some d"
  then show ?thesis
    using hex_value_ascii [of c d] by (simp add: byte_in_def)
qed (rule hex_read_ascii)

lemma hex_pair_no_dash: "hex_pair s b \<Longrightarrow> CHR ''-'' \<notin> set s"
  unfolding hex_pair_iff using hex_read_no_dash [of s "[b]"] by auto

lemma parse_fields:
  assumes "hex_documented hx" "traceparent_parse hx s = Some tp"
  shows "\<exists>v t p f. s = v @ ''-'' @ t @ ''-'' @ p @ ''-'' @ f \<and>
    hex_pair v 0 \<and> hex_read t = Some (tp_trace_id tp) \<and> length t = 32 \<and>
    hex_read p = Some (tp_parent_id tp) \<and> length p = 16 \<and> hex_pair f (tp_flags tp) \<and>
    traceparent_ok tp"
proof -
  from assms(2) obtain v t p f where split: "splitn 4 (CHR ''-'') s = [v, t, p, f]"
    by (auto simp: traceparent_parse_def split: if_splits list.splits)
  with assms(2) have len: "length v = 2" "length t = 32" "length p = 16" "length f = 2"
    by (auto simp: traceparent_parse_def split: if_splits)
  from assms(2) split len obtain ver fl tid pid where
    v: "u8_from_str_radix16 v = Some ver" "ver = 0" and f: "u8_from_str_radix16 f = Some fl" and
    t: "hex_decode_to_slice hx t 16 = Some tid" and p: "hex_decode_to_slice hx p 8 = Some pid" and
    z: "tid \<noteq> replicate 16 0" "pid \<noteq> replicate 8 0" and
    tp: "tp = \<lparr>tp_version = ver, tp_trace_id = tid, tp_parent_id = pid, tp_flags = fl\<rparr>"
    by (simp add: traceparent_parse_def split: if_splits option.splits)
  from t p assms(1) len have r: "hex_read t = Some tid" "hex_read p = Some pid"
    by (simp_all add: hex_documented_def)
  from hex_read_length [OF r(1)] hex_read_length [OF r(2)] len
  have l: "length tid = 16" "length pid = 8" by simp_all
  have ok: "traceparent_ok tp"
    using z l v(2) by (simp add: tp traceparent_ok_def)
  have s: "s = v @ ''-'' @ t @ ''-'' @ p @ ''-'' @ f"
    using split by (simp add: splitn_4)
  show ?thesis
    using s ok r len v f tp by (intro exI [of _ v] exI [of _ t] exI [of _ p] exI [of _ f])
      (simp add: u8_from_str_radix16_pair)
qed

lemma fields_parse:
  assumes "hex_documented hx" "s = v @ ''-'' @ t @ ''-'' @ p @ ''-'' @ f"
    and "hex_pair v 0" "hex_read t = Some (tp_trace_id tp)" "length t = 32"
    and "hex_read p = Some (tp_parent_id tp)" "length p = 16" "hex_pair f (tp_flags tp)"
    and "traceparent_ok tp"
  shows "traceparent_parse hx s = Some tp"
proof -
  have ascii: "utf8_valid s"
    using hex_pair_ascii [OF assms(3)] hex_pair_ascii [OF assms(8)]
      hex_read_ascii [OF assms(4)] hex_read_ascii [OF assms(6)]
    unfolding assms(2) by (intro utf8_valid_ascii) (auto simp: byte_in_def)
  have split: "splitn 4 (CHR ''-'') s = [v, t, p, f]"
    using hex_pair_no_dash [OF assms(3)] hex_read_no_dash [OF assms(4)]
      hex_read_no_dash [OF assms(6)] assms(2) by (simp add: splitn_4)
  have radix: "u8_from_str_radix16 v = Some 0" "u8_from_str_radix16 f = Some (tp_flags tp)"
    using assms(3,8) hex_pair_length u8_from_str_radix16_pair by blast+
  have dec: "hex_decode_to_slice hx t 16 = Some (tp_trace_id tp)"
    "hex_decode_to_slice hx p 8 = Some (tp_parent_id tp)"
    using assms(1,4-7) by (simp_all add: hex_documented_def)
  show ?thesis
    using assms(5,7,9) hex_pair_length [OF assms(3)] hex_pair_length [OF assms(8)]
    by (simp add: traceparent_parse_def ascii split radix dec traceparent_ok_def)
qed

section \<open>Formatting the current span\<close>

text \<open>The fields of a \<open>SpanContextState\<close> the code reads and sets. A span is modelled by its
  context, which an unsampled span does not have.\<close>

record span_state =
  ss_trace_high :: u64
  ss_trace_low :: u64
  ss_span_id :: u64
  ss_flags :: u8

type_synonym span_context = "span_state option"

definition w3c_format :: "span_state \<Rightarrow> string" where
  "w3c_format st =
     ''00-'' @ pad_left 16 (CHR ''0'') (show_hex (unat (ss_trace_high st)))
     @ pad_left 16 (CHR ''0'') (show_hex (unat (ss_trace_low st)))
     @ ''-'' @ pad_left 16 (CHR ''0'') (show_hex (unat (ss_span_id st)))
     @ ''-'' @ pad_left 2 (CHR ''0'') (show_hex (unat (ss_flags st)))"

text \<open>\<open>state_for_trace_stitching\<close> and \<open>w3c_traceparent\<close>, of the current internal span.\<close>

definition state_for_trace_stitching :: "span_context option \<Rightarrow> span_state option" where
  "state_for_trace_stitching cur =
     (case cur of None \<Rightarrow> None | Some context \<Rightarrow>
        (case context of None \<Rightarrow> None | Some state \<Rightarrow> Some state))"

definition w3c_traceparent :: "span_context option \<Rightarrow> string option" where
  "w3c_traceparent cur = map_option w3c_format (state_for_trace_stitching cur)"

text \<open>\<open>user_tracing::w3c_traceparent\<close>, of the current user span if there is one.\<close>

definition user_w3c_traceparent :: "span_context option \<Rightarrow> string option" where
  "user_w3c_traceparent cur =
     (case cur of None \<Rightarrow> None | Some context \<Rightarrow>
        (case context of None \<Rightarrow> None | Some state \<Rightarrow> Some (w3c_format state)))"

text \<open>\<open>u64::from_be_bytes\<close>.\<close>

definition u64_from_be_bytes :: "u8 list \<Rightarrow> u64" where
  "u64_from_be_bytes bs = of_nat (foldl (\<lambda>acc b. 256 * acc + unat b) 0 bs)"

text \<open>The parent state \<open>start_user_trace\<close> gives the span builder for an inbound header.\<close>

definition inbound_state :: "traceparent \<Rightarrow> span_state" where
  "inbound_state tp =
     \<lparr>ss_trace_high = u64_from_be_bytes (take 8 (tp_trace_id tp)),
      ss_trace_low = u64_from_be_bytes (drop 8 (tp_trace_id tp)),
      ss_span_id = u64_from_be_bytes (tp_parent_id tp),
      ss_flags = tp_flags tp\<rparr>"

fun be_bytes :: "nat \<Rightarrow> nat \<Rightarrow> u8 list" where
  "be_bytes 0 n = []"
| "be_bytes (Suc w) n = be_bytes w (n div 256) @ [of_nat (n mod 256)]"

lemma length_be_bytes [simp]: "length (be_bytes w n) = w"
  by (induction w arbitrary: n) simp_all

lemma unat_of_nat_mod_256 [simp]: "unat (of_nat (n mod 256) :: u8) = n mod 256"
  by (simp add: unat_of_nat)

lemma hex_digits_be_bytes: "hex_digits (2 * w) n = hex_print (be_bytes w n)"
proof (induction w arbitrary: n)
  case 0
  then show ?case by simp
next
  case (Suc w)
  have "hex_digits (2 * Suc w) n
      = hex_digits (2 * w) (n div 16 div 16) @ [hex_digit (n div 16 mod 16), hex_digit (n mod 16)]"
    by simp
  also have "n div 16 div 16 = n div 256"
    by (simp add: div_mult2_eq [symmetric])
  also have "n div 16 mod 16 = n mod 256 div 16"
    using mod_mult2_eq [of n 16 16] by simp
  also have "n mod 16 = n mod 256 mod 16"
    by (simp add: mod_mod_cancel)
  finally show ?case
    by (simp add: Suc.IH hex_print_append hex_print_Cons hex_byte_def)
qed

lemma foldl_be_bytes:
  "foldl (\<lambda>acc b. 256 * acc + unat b) 0 (be_bytes w n) = n mod 256 ^ w"
proof (induction w arbitrary: n)
  case 0
  then show ?case by simp
next
  case (Suc w)
  have "256 * (n div 256 mod 256 ^ w) + n mod 256 = n mod (256 * 256 ^ w)"
    by (simp add: mod_mult2_eq)
  then show ?case
    using Suc.IH [of "n div 256"] by simp
qed

lemma foldl_replicate_0:
  "foldl (\<lambda>acc b. 256 * acc + unat b) 0 (replicate w (0 :: u8)) = 0"
  by (induction w) simp_all

lemma be_bytes_eq_0: "n < 256 ^ w \<Longrightarrow> be_bytes w n = replicate w 0 \<longleftrightarrow> n = 0"
proof
  assume "n < 256 ^ w" "be_bytes w n = replicate w 0"
  then show "n = 0"
    using foldl_be_bytes [of w n] foldl_replicate_0 [of w] by simp
next
  assume "n = 0"
  moreover have "be_bytes w 0 = replicate w 0"
    by (induction w) (simp_all add: replicate_append_same)
  ultimately show "be_bytes w n = replicate w 0" by simp
qed

lemma unat_u64_lt: "unat (x :: u64) < 16 ^ 16" "unat (x :: u64) < 256 ^ 8"
proof -
  have "unat x < 2 ^ LENGTH(64)" by (rule unsigned_less)
  then show "unat (x :: u64) < 16 ^ 16" "unat (x :: u64) < 256 ^ 8" by simp_all
qed

lemma u64_from_to_be_bytes [simp]: "u64_from_be_bytes (be_bytes 8 (unat x)) = x"
  using unat_u64_lt(2) [of x] by (simp only: u64_from_be_bytes_def foldl_be_bytes) simp

lemma padded_u64: "pad_left 16 (CHR ''0'') (show_hex (unat (x :: u64))) = hex_print (be_bytes 8 (unat x))"
  using pad_left_show_hex [of "unat x" 16] unat_u64_lt(1) [of x] hex_digits_be_bytes [of 8 "unat x"]
  by simp

lemma padded_u8: "pad_left 2 (CHR ''0'') (show_hex (unat (x :: u8))) = hex_print [x]"
proof -
  have "unat x < 2 ^ LENGTH(8)" by (rule unsigned_less)
  then have "unat x < 16 ^ 2" by simp
  then have "pad_left 2 (CHR ''0'') (show_hex (unat x)) = hex_digits (2 * 1) (unat x)"
    using pad_left_show_hex [of "unat x" 2] by simp
  also have "\<dots> = hex_print [x]"
    using \<open>unat x < 2 ^ LENGTH(8)\<close> unfolding hex_digits_be_bytes by simp
  finally show ?thesis .
qed

definition outbound_traceparent :: "span_state \<Rightarrow> traceparent" where
  "outbound_traceparent st =
     \<lparr>tp_version = 0,
      tp_trace_id = be_bytes 8 (unat (ss_trace_high st)) @ be_bytes 8 (unat (ss_trace_low st)),
      tp_parent_id = be_bytes 8 (unat (ss_span_id st)), tp_flags = ss_flags st\<rparr>"

lemma inbound_outbound: "inbound_state (outbound_traceparent st) = st"
  by (simp add: inbound_state_def outbound_traceparent_def)

section \<open>Properties\<close>

text \<open>C10: \<open>TraceparentContext::parse\<close> accepts exactly the four dash-separated fields of widths 2,
  32, 16 and 2 whose identifiers are non-zero hexadecimal strings of either case and whose version
  and flags \<open>u8::from_str_radix\<close> reads as a byte, the version being zero, and returns the bytes
  they denote; every other byte string, UTF-8 or not, is rejected. The version and flags fields
  may be a plus sign and one digit.\<close>

theorem traceparent_accepted:
  assumes "hex_documented hx"
  shows "traceparent_parse hx s = Some tp \<longleftrightarrow>
    (\<exists>v t p f. s = v @ ''-'' @ t @ ''-'' @ p @ ''-'' @ f \<and>
       hex_pair v 0 \<and> hex_read t = Some (tp_trace_id tp) \<and> length t = 32 \<and>
       hex_read p = Some (tp_parent_id tp) \<and> length p = 16 \<and> hex_pair f (tp_flags tp) \<and>
       traceparent_ok tp)"
  using parse_fields [OF assms, of s tp] fields_parse [OF assms, of s _ _ _ _ tp]
  by (elim exE conjE iffI | intro iffI)+


definition sample_header :: string where
  "sample_header = ''00-11223344556677889900aabbccddeeff-a1b2c3d4e5f60718-01''"

definition sample_traceparent :: traceparent where
  "sample_traceparent =
     \<lparr>tp_version = 0,
      tp_trace_id = [0x11, 0x22, 0x33, 0x44, 0x55, 0x66, 0x77, 0x88, 0x99, 0, 0xaa, 0xbb, 0xcc,
                     0xdd, 0xee, 0xff],
      tp_parent_id = [0xa1, 0xb2, 0xc3, 0xd4, 0xe5, 0xf6, 7, 0x18], tp_flags = 1\<rparr>"

theorem traceparent_accepted_witness:
  "traceparent_parse hex_reference sample_header = Some sample_traceparent \<and>
   traceparent_parse hex_reference
     ''00-11223344556677889900aabbccddeeff-a1b2c3d4e5f60718-+1'' = Some sample_traceparent"
proof
  show "traceparent_parse hex_reference sample_header = Some sample_traceparent"
    unfolding traceparent_accepted [OF hex_documented_reference]
    by (intro exI [of _ "''00''"] exI [of _ "''11223344556677889900aabbccddeeff''"]
        exI [of _ "''a1b2c3d4e5f60718''"] exI [of _ "''01''"] conjI) code_simp+
next
  show "traceparent_parse hex_reference
     ''00-11223344556677889900aabbccddeeff-a1b2c3d4e5f60718-+1'' = Some sample_traceparent"
    unfolding traceparent_accepted [OF hex_documented_reference]
    by (intro exI [of _ "''00''"] exI [of _ "''11223344556677889900aabbccddeeff''"]
        exI [of _ "''a1b2c3d4e5f60718''"] exI [of _ "''+1''"] conjI) code_simp+
qed

lemma print_parse:
  assumes "hex_documented hx" "traceparent_ok tp"
  defines "s \<equiv> hex_print [0] @ ''-'' @ hex_print (tp_trace_id tp) @ ''-'' @
    hex_print (tp_parent_id tp) @ ''-'' @ hex_print [tp_flags tp]"
  shows "traceparent_parse hx s = Some tp"
  using assms(2) by (intro fields_parse [OF assms(1) s_def [THEN meta_eq_to_obj_eq]])
    (simp_all add: hex_pair_def traceparent_ok_def)

lemma print_rejected:
  assumes "hex_documented hx" "length (tp_trace_id tp) = 16" "length (tp_parent_id tp) = 8"
    and "tp_version tp = 0" "\<not> traceparent_ok tp"
  shows "traceparent_parse hx (hex_print [0] @ ''-'' @ hex_print (tp_trace_id tp) @ ''-'' @
    hex_print (tp_parent_id tp) @ ''-'' @ hex_print [tp_flags tp]) = None" (is "traceparent_parse hx ?s = _")
proof (rule ccontr)
  assume "\<not> ?thesis"
  then obtain tp' where "traceparent_parse hx ?s = Some tp'" by blast
  from parse_fields [OF assms(1) this] obtain v t p f where
    eq: "?s = v @ ''-'' @ t @ ''-'' @ p @ ''-'' @ f" and len: "length v = 2" "length t = 32" "length p = 16"
    and r: "hex_read t = Some (tp_trace_id tp')" "hex_read p = Some (tp_parent_id tp')"
    and ok: "traceparent_ok tp'"
    by (elim exE conjE) (blast dest: hex_pair_length)
  from eq len assms(2,3) have "t = hex_print (tp_trace_id tp)" "p = hex_print (tp_parent_id tp)"
    by simp_all
  with r have "tp_trace_id tp' = tp_trace_id tp" "tp_parent_id tp' = tp_parent_id tp"
    by simp_all
  with ok assms(4,5) show False
    by (simp add: traceparent_ok_def)
qed

lemma utf8_valid_parsed: "traceparent_parse hx s = Some tp \<Longrightarrow> utf8_valid s"
  by (simp add: traceparent_parse_def split: if_splits)

text \<open>Printing a \<open>TraceparentContext\<close> whose version is 0 and whose identifiers are non-zero
  never reaches a failing \<open>expect\<close>, gives the 55 bytes of a header, and parsing them gives the
  same context back.\<close>

theorem traceparent_round_trip:
  assumes "hex_documented hx" "traceparent_ok tp"
  shows "\<exists>s. to_traceparent_string hx tp = Some s \<and> length s = 55 \<and> traceparent_parse hx s = Some tp"
proof -
  let ?s = "hex_print [0] @ ''-'' @ hex_print (tp_trace_id tp) @ ''-'' @
    hex_print (tp_parent_id tp) @ ''-'' @ hex_print [tp_flags tp]"
  note parse = print_parse [OF assms]
  have "to_traceparent_string hx tp = Some ?s"
    using assms utf8_valid_parsed [OF parse]
    by (simp add: to_traceparent_string_def hex_documented_def traceparent_ok_def Let_def)
  with parse assms(2) show ?thesis
    by (simp add: traceparent_ok_def)
qed

theorem traceparent_round_trip_witness:
  "\<exists>s. to_traceparent_string hex_reference sample_traceparent = Some s \<and> length s = 55 \<and>
     traceparent_parse hex_reference s = Some sample_traceparent"
  by (intro traceparent_round_trip hex_documented_reference)
    code_simp

text \<open>C13: What a hop formats with \<open>w3c_traceparent\<close> the next hop continues: the header is parsed
  and \<open>start_user_trace\<close> rebuilds the very trace id, span id and flags that were formatted, for
  all 64-bit values, leading zeros included. It is rejected in just two cases, a trace id that is
  zero in both halves and a span id that is zero.\<close>

theorem traceparent_continues_trace:
  assumes "hex_documented hx"
  shows "map_option inbound_state (traceparent_parse hx (w3c_format st)) =
    (if ss_trace_high st = 0 \<and> ss_trace_low st = 0 \<or> ss_span_id st = 0 then None else Some st)"
proof -
  let ?tp = "outbound_traceparent st"
  let ?zero = "ss_trace_high st = 0 \<and> ss_trace_low st = 0 \<or> ss_span_id st = 0"
  have "hex_print [0] = ''00''"
    by code_simp
  then have s: "w3c_format st = hex_print [0] @ ''-'' @ hex_print (tp_trace_id ?tp) @ ''-'' @
    hex_print (tp_parent_id ?tp) @ ''-'' @ hex_print [tp_flags ?tp]"
    by (simp add: w3c_format_def padded_u64 padded_u8 outbound_traceparent_def hex_print_append)
  have "replicate 16 (0 :: u8) = replicate 8 0 @ replicate 8 0"
    by (simp flip: replicate_add)
  moreover have "be_bytes 8 (unat x) = replicate 8 0 \<longleftrightarrow> x = 0" for x :: u64
    using be_bytes_eq_0 [OF unat_u64_lt(2), of x] by (simp only: unat_eq_zero)
  ultimately have ok: "traceparent_ok ?tp \<longleftrightarrow> \<not> ?zero"
    unfolding traceparent_ok_def outbound_traceparent_def by (simp only: traceparent.simps) simp
  show ?thesis
  proof (cases ?zero)
    case True
    have "traceparent_parse hx (w3c_format st) = None"
      unfolding s using ok True by (intro print_rejected [OF assms]) (simp_all add: outbound_traceparent_def)
    with True show ?thesis by simp
  next
    case False
    with ok have "traceparent_parse hx (w3c_format st) = Some ?tp"
      unfolding s by (intro print_parse [OF assms]) simp
    with False show ?thesis by (simp add: inbound_outbound)
  qed
qed

theorem traceparent_continues_trace_witness:
  "map_option inbound_state (traceparent_parse hex_reference
     (w3c_format \<lparr>ss_trace_high = 0, ss_trace_low = 255, ss_span_id = 1, ss_flags = 1\<rparr>)) =
   Some \<lparr>ss_trace_high = 0, ss_trace_low = 255, ss_span_id = 1, ss_flags = 1\<rparr>"
  by (subst traceparent_continues_trace [OF hex_documented_reference]) simp

end
