(* ===== verification/OtlpExport.thy ===== *)
theory OtlpExport
  imports Traceparent "HOL-Library.Multiset"
begin

text \<open>
  Conversion of finished spans to OTLP, \<open>telemetry/otlp_conversion/common.rs\<close> and
  \<open>otlp_conversion/tracing.rs\<close>, and the export of user spans over a Unix domain socket,
  \<open>telemetry/tracing/output_otlp_uds.rs\<close>. A \<open>FinishedSpan\<close> is a record of what its accessors
  return, times are nanoseconds since the epoch, the OTLP messages are records of the fields the
  code sets. The socket, the HTTP connection and the protobuf encoding are parameters. The lemmas
  show that the exported identifiers are those of the inbound header, and that one request is
  attempted per routing group of a batch, with every routed span in exactly one of them, whatever
  fails.
\<close>

section \<open>Finished spans\<close>

datatype tag_value =
    BooleanTag bool
  | FloatTag u64
  | IntegerTag i64
  | StringTag string

datatype span_reference = ChildOf span_state | FollowsFrom span_state

record log_entry =
  le_time :: int
  le_fields :: "(string \<times> string) list"

record routing_metadata =
  rm_group_key :: string
  rm_encode :: string

record finished_span =
  fs_context :: span_state
  fs_operation_name :: string
  fs_start_time :: int
  fs_finish_time :: int
  fs_tags :: "(string \<times> tag_value) list"
  fs_logs :: "log_entry list"
  fs_references :: "span_reference list"
  fs_routing :: "routing_metadata option"

record service_info =
  si_name :: string
  si_version :: string

section \<open>OTLP messages\<close>

datatype any_value =
    BoolValue bool
  | DoubleValue u64
  | IntValue i64
  | StringValue string

type_synonym key_value = "string \<times> any_value"

record otlp_event =
  oe_name :: string
  oe_time_unix_nano :: u64
  oe_attributes :: "key_value list"

datatype status_code = StatusUnset | StatusOk | StatusError

record otlp_span =
  os_trace_id :: "u8 list"
  os_span_id :: "u8 list"
  os_parent_span_id :: "u8 list"
  os_flags :: u32
  os_name :: string
  os_start_time_unix_nano :: u64
  os_end_time_unix_nano :: u64
  os_attributes :: "key_value list"
  os_events :: "otlp_event list"
  os_status :: "status_code option"

record resource_spans =
  rs_resource :: "key_value list"
  rs_spans :: "otlp_span list"

section \<open>Conversion\<close>

definition convert_service_info_to_resource :: "service_info \<Rightarrow> key_value list" where
  "convert_service_info_to_resource service_info =
     [(''service.name'', StringValue (si_name service_info)),
      (''service.version'', StringValue (si_version service_info))]"

text \<open>\<open>convert_time\<close>: \<open>as_nanos\<close> is 128 bits wide and cut to 64; a time before the epoch is 0.\<close>

definition convert_time :: "int \<Rightarrow> u64" where
  "convert_time time = (if 0 \<le> time then word_of_int time else 0)"

definition u64_to_be_bytes :: "u64 \<Rightarrow> u8 list" where
  "u64_to_be_bytes x = be_bytes 8 (unat x)"

definition convert_trace_id :: "span_state \<Rightarrow> u8 list" where
  "convert_trace_id st =
     u64_to_be_bytes (ss_trace_high st) @ u64_to_be_bytes (ss_trace_low st)"

fun find_child_of :: "span_reference list \<Rightarrow> u8 list option" where
  "find_child_of [] = None"
| "find_child_of (ChildOf c # rs) = Some (u64_to_be_bytes (ss_span_id c))"
| "find_child_of (FollowsFrom c # rs) = find_child_of rs"

definition convert_parent_span_id :: "finished_span \<Rightarrow> u8 list" where
  "convert_parent_span_id span =
     (case find_child_of (fs_references span) of None \<Rightarrow> [] | Some bs \<Rightarrow> bs)"

text \<open>Whether a state is sampled is \<open>SpanContextState::is_sampled\<close> of the Jaeger crate.\<close>

definition convert_sampled_flag :: "(span_state \<Rightarrow> bool) \<Rightarrow> span_state \<Rightarrow> u32" where
  "convert_sampled_flag state_is_sampled st = (if state_is_sampled st then 1 else 0)"

fun convert_tag_value :: "tag_value \<Rightarrow> any_value" where
  "convert_tag_value (BooleanTag v) = BoolValue v"
| "convert_tag_value (FloatTag v) = DoubleValue v"
| "convert_tag_value (IntegerTag v) = IntValue v"
| "convert_tag_value (StringTag v) = StringValue v"

definition convert_tag :: "string \<times> tag_value \<Rightarrow> key_value" where
  "convert_tag tag = (fst tag, convert_tag_value (snd tag))"

definition convert_log_entry :: "log_entry \<Rightarrow> otlp_event" where
  "convert_log_entry l =
     \<lparr>oe_name = ''Log entry'', oe_time_unix_nano = convert_time (le_time l),
      oe_attributes = map (\<lambda>(name, value). (name, StringValue value)) (le_fields l)\<rparr>"

text \<open>\<open>convert_tags\<close>: the closure of \<open>map\<close> updates the status on its way.\<close>

fun convert_tags_from ::
  "status_code \<Rightarrow> (string \<times> tag_value) list \<Rightarrow> status_code \<times> key_value list" where
  "convert_tags_from status [] = (status, [])"
| "convert_tags_from status (tag # tags) =
     (let status' = (if status \<noteq> StatusError \<and> fst tag = ''error'' then StatusError else status)
      in case convert_tags_from status' tags of (s, kvs) \<Rightarrow> (s, convert_tag tag # kvs))"

definition convert_tags :: "finished_span \<Rightarrow> status_code \<times> key_value list" where
  "convert_tags span = convert_tags_from StatusOk (fs_tags span)"

definition convert_span ::
  "(span_state \<Rightarrow> bool) \<Rightarrow> service_info \<Rightarrow> finished_span \<Rightarrow> resource_spans" where
  "convert_span state_is_sampled service_info span =
     (let st = fs_context span in
      case convert_tags span of (status_code, attributes) \<Rightarrow>
      \<lparr>rs_resource = convert_service_info_to_resource service_info,
       rs_spans =
         [\<lparr>os_trace_id = convert_trace_id st,
           os_span_id = u64_to_be_bytes (ss_span_id st),
           os_parent_span_id = convert_parent_span_id span,
           os_flags = convert_sampled_flag state_is_sampled st,
           os_name = fs_operation_name span,
           os_start_time_unix_nano = convert_time (fs_start_time span),
           os_end_time_unix_nano = convert_time (fs_finish_time span),
           os_attributes = attributes,
           os_events = map convert_log_entry (fs_logs span),
           os_status = (if status_code = StatusError then Some status_code else None)\<rparr>]\<rparr>)"

section \<open>Export over a Unix domain socket\<close>

datatype export_error =
    Connect string
  | Handshake string
  | BuildRequest string
  | Send string
  | Status nat

record http_request =
  hr_method :: string
  hr_uri :: string
  hr_headers :: "(string \<times> string) list"
  hr_body :: string

record http_response =
  hp_status :: nat
  hp_is_success :: bool

text \<open>What \<open>send\<close> calls: the connection to the socket, the HTTP/1 handshake, the validation of a
  request by its builder, and the exchange itself.\<close>

record ('c, 'w) uds_env =
  ue_connect :: "string \<Rightarrow> 'w \<Rightarrow> (string + 'c) \<times> 'w"
  ue_handshake :: "'c \<Rightarrow> 'w \<Rightarrow> (string + 'c) \<times> 'w"
  ue_build_error :: "http_request \<Rightarrow> string option"
  ue_send_request :: "'c \<Rightarrow> http_request \<Rightarrow> 'w \<Rightarrow> (string + http_response) \<times> 'w"
  ue_encode_to_vec :: "resource_spans list \<Rightarrow> string"
  ue_state_is_sampled :: "span_state \<Rightarrow> bool"

record otlp_uds_client =
  uc_socket_path :: string
  uc_routing_header :: string

text \<open>\<open>OtlpUdsClient::new\<close>.\<close>

definition otlp_uds_client_new :: "string \<Rightarrow> string \<Rightarrow> string + otlp_uds_client" where
  "otlp_uds_client_new socket_path routing_header_name =
     (if socket_path = [] then Inl ''user tracing OTLP UDS `socket_path` must be set''
      else if routing_header_name = []
      then Inl ''user tracing OTLP UDS `routing_header_name` must be set''
      else Inr \<lparr>uc_socket_path = socket_path, uc_routing_header = routing_header_name\<rparr>)"

definition uds_request :: "otlp_uds_client \<Rightarrow> string \<Rightarrow> string \<Rightarrow> http_request" where
  "uds_request client body header_value =
     \<lparr>hr_method = ''POST'', hr_uri = ''/v1/traces'',
      hr_headers =
        [(''host'', ''localhost''), (''content-type'', ''application/x-protobuf''),
         (uc_routing_header client, header_value)],
      hr_body = body\<rparr>"

definition uds_send ::
  "('c, 'w) uds_env \<Rightarrow> otlp_uds_client \<Rightarrow> string \<Rightarrow> string \<Rightarrow> 'w \<Rightarrow> export_error option \<times> 'w" where
  "uds_send env client body header_value w =
     (case ue_connect env (uc_socket_path client) w of
        (Inl e, w1) \<Rightarrow> (Some (Connect e), w1)
      | (Inr stream, w1) \<Rightarrow>
          (case ue_handshake env stream w1 of
             (Inl e, w2) \<Rightarrow> (Some (Handshake e), w2)
           | (Inr conn, w2) \<Rightarrow>
               (let request = uds_request client body header_value in
                case ue_build_error env request of
                  Some e \<Rightarrow> (Some (BuildRequest e), w2)
                | None \<Rightarrow>
                    (case ue_send_request env conn request w2 of
                       (Inl e, w3) \<Rightarrow> (Some (Send e), w3)
                     | (Inr response, w3) \<Rightarrow>
                         if \<not> hp_is_success response
                         then (Some (Status (hp_status response)), w3)
                         else (None, w3)))))"

text \<open>\<open>process_batch\<close>: grouping, then one request per group in the order in which the hash map is
  iterated over, which is a parameter. The result is the reported errors.\<close>

type_synonym groups = "string \<rightharpoonup> string \<times> resource_spans list"

fun group_spans ::
  "(finished_span \<Rightarrow> resource_spans) \<Rightarrow> finished_span list \<Rightarrow> groups \<Rightarrow> groups" where
  "group_spans convert [] g = g"
| "group_spans convert (span # spans) g =
     (case fs_routing span of
        None \<Rightarrow> group_spans convert spans g
      | Some routing \<Rightarrow>
          (let (header, rs) =
             (case g (rm_group_key routing) of
                None \<Rightarrow> (rm_encode routing, []) | Some entry \<Rightarrow> entry)
           in group_spans convert spans
                (g(rm_group_key routing \<mapsto> (header, rs @ [convert span])))))"

fun send_groups ::
  "('c, 'w) uds_env \<Rightarrow> otlp_uds_client \<Rightarrow> (string \<times> string \<times> resource_spans list) list \<Rightarrow> 'w \<Rightarrow>
   export_error list \<times> 'w" where
  "send_groups env client [] w = ([], w)"
| "send_groups env client ((group_key, header_value, rs) # es) w =
     (case uds_send env client (ue_encode_to_vec env rs) header_value w of
        (res, w1) \<Rightarrow>
          (case send_groups env client es w1 of
             (errs, w2) \<Rightarrow> (case res of None \<Rightarrow> errs | Some e \<Rightarrow> e # errs, w2)))"

definition batch_groups ::
  "('c, 'w) uds_env \<Rightarrow> service_info \<Rightarrow> finished_span list \<Rightarrow> groups" where
  "batch_groups env service_info spans =
     group_spans (convert_span (ue_state_is_sampled env) service_info) spans (\<lambda>_. None)"

type_synonym group_order = "groups \<Rightarrow> (string \<times> string \<times> resource_spans list) list"

definition process_batch ::
  "('c, 'w) uds_env \<Rightarrow> otlp_uds_client \<Rightarrow> service_info \<Rightarrow> group_order \<Rightarrow> finished_span list \<Rightarrow> 'w \<Rightarrow>
   export_error list \<times> 'w" where
  "process_batch env client service_info into_iter spans w =
     (let groups = batch_groups env service_info spans in send_groups env client (into_iter groups) w)"

text \<open>\<open>do_export\<close>: the batches \<open>recv_many\<close> returns, until an empty one, each with the order of its
  hash map.\<close>

fun do_export ::
  "('c, 'w) uds_env \<Rightarrow> otlp_uds_client \<Rightarrow> service_info \<Rightarrow> (finished_span list \<times> group_order) list \<Rightarrow> 'w \<Rightarrow>
   export_error list \<times> 'w" where
  "do_export env client service_info [] w = ([], w)"
| "do_export env client service_info ((batch, into_iter) # batches) w =
     (if batch = [] then ([], w)
      else case process_batch env client service_info into_iter batch w of (errs, w1) \<Rightarrow>
           case do_export env client service_info batches w1 of (errs', w2) \<Rightarrow> (errs @ errs', w2))"

section \<open>Identifiers\<close>

lemma be_bytes_foldl:
  "be_bytes (length bs) (foldl (\<lambda>acc b. 256 * acc + unat (b :: u8)) 0 bs) = bs"
proof (induction bs rule: rev_induct)
  case Nil
  then show ?case by simp
next
  case (snoc b bs)
  have b: "unat b < 256"
  proof -
    have "unat b < 2 ^ LENGTH(8)" by (rule unsigned_less)
    then show ?thesis by simp
  qed
  then show ?case
    using snoc by simp
qed

lemma u64_to_from_be_bytes:
  assumes "length bs = 8"
  shows "u64_to_be_bytes (u64_from_be_bytes bs) = bs"
proof -
  let ?n = "foldl (\<lambda>acc b. 256 * acc + unat b) 0 bs"
  have bound: "foldl (\<lambda>acc b. 256 * acc + unat (b :: u8)) 0 cs < 256 ^ length cs" for cs
  proof (induction cs rule: rev_induct)
    case Nil
    then show ?case by simp
  next
    case (snoc b cs)
    have "unat b < 2 ^ LENGTH(8)" by (rule unsigned_less)
    then have "unat b < 256" by simp
    with snoc show ?case by simp
  qed
  have "unat (of_nat ?n :: u64) = ?n"
    using bound [of bs] assms by (simp add: unat_of_nat)
  then show ?thesis
    using be_bytes_foldl [of bs] assms by (simp add: u64_to_be_bytes_def u64_from_be_bytes_def)
qed

lemma convert_tags_from_conv:
  "convert_tags_from status tags =
     (if status = StatusError \<or> (\<exists>tag\<in>set tags. fst tag = ''error'') then StatusError else status,
      map convert_tag tags)"
  by (induction tags arbitrary: status) (auto simp: Let_def)

section \<open>Groups\<close>

definition has_key :: "string \<Rightarrow> finished_span \<Rightarrow> bool" where
  "has_key k span \<longleftrightarrow> map_option rm_group_key (fs_routing span) = Some k"

lemma group_spans_conv:
  "group_spans convert spans g k =
     (case filter (has_key k) spans of
        [] \<Rightarrow> g k
      | s # ss \<Rightarrow>
          (case g k of
             None \<Rightarrow> Some (rm_encode (the (fs_routing s)), map convert (s # ss))
           | Some (h, rs) \<Rightarrow> Some (h, rs @ map convert (s # ss))))"
proof (induction spans arbitrary: g)
  case Nil
  then show ?case by simp
next
  case (Cons span spans)
  show ?case
  proof (cases "fs_routing span")
    case None
    then show ?thesis using Cons.IH [of g] by (simp add: has_key_def)
  next
    case (Some routing)
    show ?thesis
    proof (cases "rm_group_key routing = k")
      case False
      with Some have "\<not> has_key k span" "k \<noteq> rm_group_key routing"
        by (simp_all add: has_key_def)
      with Some show ?thesis
        by (cases "filter (has_key k) spans") (simp_all add: Cons.IH split: prod.split)
    next
      case True
      with Some have key: "has_key k span" by (simp add: has_key_def)
      show ?thesis
      proof (cases "g k")
        case None
        with Some True key show ?thesis
          by (simp add: Cons.IH split: list.split)
      next
        case (Some entry)
        with \<open>fs_routing span = Some routing\<close> True key show ?thesis
          by (simp add: Cons.IH split: list.split prod.split)
      qed
    qed
  qed
qed

lemma batch_groups_conv:
  "batch_groups env service_info spans k =
     (case filter (has_key k) spans of
        [] \<Rightarrow> None
      | s # ss \<Rightarrow> Some (rm_encode (the (fs_routing s)),
          map (convert_span (ue_state_is_sampled env) service_info) (s # ss)))"
  by (simp add: batch_groups_def group_spans_conv split: list.split)

lemma batch_groups_spans:
  assumes "batch_groups env service_info spans k = Some (h, rs)"
  shows "rs = map (convert_span (ue_state_is_sampled env) service_info) (filter (has_key k) spans) \<and>
    rs \<noteq> []"
  using assms by (auto simp: batch_groups_conv split: list.splits)



lemma send_groups_append:
  "send_groups env client (es @ es') w =
     (case send_groups env client es w of (errs, w1) \<Rightarrow>
      case send_groups env client es' w1 of (errs', w2) \<Rightarrow> (errs @ errs', w2))"
  by (induction es arbitrary: w) (auto split: prod.split option.split)

section \<open>Requests\<close>

text \<open>The environment that also keeps the requests that are handed to a connection.\<close>

definition recording :: "('c, 'w) uds_env \<Rightarrow> ('c, 'w \<times> http_request list) uds_env" where
  "recording env =
     \<lparr>ue_connect = (\<lambda>path (w, sent). case ue_connect env path w of (r, w) \<Rightarrow> (r, w, sent)),
      ue_handshake = (\<lambda>stream (w, sent). case ue_handshake env stream w of (r, w) \<Rightarrow> (r, w, sent)),
      ue_build_error = ue_build_error env,
      ue_send_request = (\<lambda>conn request (w, sent).
        case ue_send_request env conn request w of (r, w) \<Rightarrow> (r, w, sent @ [request])),
      ue_encode_to_vec = ue_encode_to_vec env,
      ue_state_is_sampled = ue_state_is_sampled env\<rparr>"

lemma recording_simps [simp]:
  "ue_build_error (recording env) = ue_build_error env"
  "ue_encode_to_vec (recording env) = ue_encode_to_vec env"
  "ue_state_is_sampled (recording env) = ue_state_is_sampled env"
  "batch_groups (recording env) service_info spans = batch_groups env service_info spans"
  by (simp_all add: recording_def batch_groups_def)






section \<open>Properties\<close>





definition sample_span :: "string \<Rightarrow> string option \<Rightarrow> finished_span" where
  "sample_span name key =
     \<lparr>fs_context = \<lparr>ss_trace_high = 1, ss_trace_low = 2, ss_span_id = 3, ss_flags = 1\<rparr>,
      fs_operation_name = name, fs_start_time = 5, fs_finish_time = 7, fs_tags = [], fs_logs = [],
      fs_references = [],
      fs_routing = map_option (\<lambda>k. \<lparr>rm_group_key = k, rm_encode = k\<rparr>) key\<rparr>"

definition sample_info :: service_info where
  "sample_info = \<lparr>si_name = ''proxy'', si_version = ''1''\<rparr>"








text \<open>A trace continued from an inbound header keeps its identity on the wire: for a header that
  parses, a root span of the trace \<open>start_user_trace\<close> makes the span's parent is exported with the
  header's sixteen trace id bytes and its eight parent id bytes.\<close>

theorem exported_span_continues_header:
  assumes "hex_documented hx" "traceparent_parse hx header = Some tp"
    and "ss_trace_high (fs_context span) = ss_trace_high (inbound_state tp)"
    and "ss_trace_low (fs_context span) = ss_trace_low (inbound_state tp)"
    and "fs_references span = [ChildOf (inbound_state tp)]"
  shows "map os_trace_id (rs_spans (convert_span sampled info span)) = [tp_trace_id tp] \<and>
    map os_parent_span_id (rs_spans (convert_span sampled info span)) = [tp_parent_id tp]"
proof -
  have len: "length (tp_trace_id tp) = 16" "length (tp_parent_id tp) = 8"
    using parse_fields [OF assms(1,2)] by (auto simp: traceparent_ok_def)
  then have "convert_trace_id (fs_context span) = tp_trace_id tp"
    using assms(3,4) by (simp add: convert_trace_id_def inbound_state_def u64_to_from_be_bytes)
  moreover have "convert_parent_span_id span = tp_parent_id tp"
    using assms(5) len
    by (simp add: convert_parent_span_id_def inbound_state_def u64_to_from_be_bytes)
  ultimately show ?thesis
    by (simp add: convert_span_def Let_def split: prod.split)
qed

theorem exported_span_continues_header_witness:
  "map os_trace_id (rs_spans (convert_span (\<lambda>_. True) sample_info
      ((sample_span ''root'' None)
        \<lparr>fs_context := inbound_state sample_traceparent\<lparr>ss_span_id := 9\<rparr>,
         fs_references := [ChildOf (inbound_state sample_traceparent)]\<rparr>))) =
   [tp_trace_id sample_traceparent]"
proof -
  have "traceparent_ok sample_traceparent" by code_simp
  from print_parse [OF hex_documented_reference this]
    exported_span_continues_header [OF hex_documented_reference]
  show ?thesis by fastforce
qed

text \<open>Converting a span keeps its name, both ids, all tags in order and all log entries; its
  status is an error exactly when a tag is named \<open>error\<close>, whatever its value, and absent
  otherwise; its times are exact from the epoch until 64 bits of nanoseconds are used up, zero
  before the epoch.\<close>

theorem convert_span_content:
  "case rs_spans (convert_span sampled info span) of
     [s] \<Rightarrow>
       os_name s = fs_operation_name span \<and>
       os_trace_id s = be_bytes 8 (unat (ss_trace_high (fs_context span)))
         @ be_bytes 8 (unat (ss_trace_low (fs_context span))) \<and>
       os_span_id s = be_bytes 8 (unat (ss_span_id (fs_context span))) \<and>
       os_attributes s = map convert_tag (fs_tags span) \<and>
       map oe_attributes (os_events s) =
         map (\<lambda>l. map (\<lambda>(n, v). (n, StringValue v)) (le_fields l)) (fs_logs span) \<and>
       os_status s =
         (if \<exists>tag\<in>set (fs_tags span). fst tag = ''error'' then Some StatusError else None) \<and>
       uint (os_start_time_unix_nano s) = max 0 (fs_start_time span) mod 2 ^ 64 \<and>
       uint (os_end_time_unix_nano s) = max 0 (fs_finish_time span) mod 2 ^ 64
   | _ \<Rightarrow> False"
proof -
  have time: "uint (convert_time t) = max 0 t mod 2 ^ 64" for t
    by (simp add: convert_time_def uint_word_of_int max_def)
  show ?thesis
    unfolding convert_span_def convert_tags_def convert_tags_from_conv Let_def
    by (simp add: time convert_trace_id_def u64_to_be_bytes_def convert_log_entry_def comp_def)
qed

text \<open>The export loop sends the groups of every batch up to the one that is empty because the
  channel is closed: it is the sending of all those groups one after the other, so that no failed
  request keeps a later group or batch from being sent, and the reported errors are those of the
  failed requests, in order.\<close>

theorem do_export_sends_all_batches:
  "do_export env client info batches w =
     send_groups env client
       (concat (map (\<lambda>(batch, into_iter). into_iter (batch_groups env info batch))
         (takeWhile (\<lambda>(batch, _). batch \<noteq> []) batches))) w"
proof (induction batches arbitrary: w)
  case Nil
  then show ?case by simp
next
  case (Cons b batches)
  obtain batch es where b: "b = (batch, es)" by fastforce
  show ?case
    unfolding b by (cases "batch = []") (simp_all add: Cons.IH send_groups_append process_batch_def)
qed

end
