(* ===== verification/TraceSpans.thy ===== *)
theory TraceSpans
  imports Scopes LiveReferences OtlpExport F64
begin

text \<open>
  Creating spans, \<open>telemetry/tracing/internal.rs\<close> and \<open>telemetry/tracing/mod.rs\<close>: traces, child
  spans, forks of a trace and the links between a fork and where it left, user spans, the scopes of
  both pipelines and the contexts made of them. The spans of \<open>cf_rustracing\<close> are a parameter; what
  is used of them is their documentation, stated over what a span shows of itself. A span behind an
  \<open>Arc\<close> is a cell of the store of its pipeline with its number of references; when the last goes,
  the span is finished and the tracer's consumer receives it. A clone that a function drops before
  it returns is not counted. The lemmas show how a fork and the trace it left refer to each other.
\<close>

section \<open>Spans of \<open>cf_rustracing\<close>\<close>

text \<open>The builder \<open>Tracer::span\<close> returns, as the code fills it.\<close>

record start_options =
  so_name :: string
  so_child_of :: "span_state option"
  so_tags :: "(string \<times> tag_value) list"
  so_routing :: "routing_metadata option"

text \<open>What the macros of \<open>tracing/mod.rs\<close> write to a span.\<close>

datatype span_write =
    SetTags "(string \<times> tag_value) list"
  | LogFields "(string \<times> string) list"
  | SetStartTime int
  | SetFinishTime int

text \<open>The two tracers, the operations on a span, the display of a trace id and a random number of
  the unit interval. \<open>rt_view\<close> is what an active span shows of itself, \<^const>\<open>None\<close> for an
  inactive one, and \<open>rt_drop\<close> what the consumer receives. No span has a finish callback.\<close>

record ('sp, 'w) rustracing =
  rt_inactive :: 'sp
  rt_start :: "start_options \<Rightarrow> 'w \<Rightarrow> 'sp \<times> 'w"
  rt_user_start :: "start_options \<Rightarrow> 'w \<Rightarrow> 'sp \<times> 'w"
  rt_child :: "string \<Rightarrow> 'sp \<Rightarrow> 'w \<Rightarrow> 'sp \<times> 'w"
  rt_write :: "span_write \<Rightarrow> 'sp \<Rightarrow> 'sp"
  rt_view :: "'sp \<Rightarrow> finished_span option"
  rt_drop :: "'sp \<Rightarrow> 'w \<Rightarrow> finished_span option \<times> 'w"
  rt_show_trace_id :: "u64 \<Rightarrow> u64 \<Rightarrow> string"
  rt_random :: "'w \<Rightarrow> f64 \<times> 'w"

text \<open>\<open>Span::is_sampled\<close>, \<open>Span::context\<close> with its state, and \<open>span_trace_id\<close>.\<close>

definition is_sampled :: "('sp, 'w) rustracing \<Rightarrow> 'sp \<Rightarrow> bool" where
  "is_sampled rt s \<longleftrightarrow> rt_view rt s \<noteq> None"

definition span_context_state :: "('sp, 'w) rustracing \<Rightarrow> 'sp \<Rightarrow> span_state option" where
  "span_context_state rt s = map_option fs_context (rt_view rt s)"

definition span_trace_id :: "('sp, 'w) rustracing \<Rightarrow> 'sp \<Rightarrow> string option" where
  "span_trace_id rt s =
     map_option (\<lambda>st. rt_show_trace_id rt (ss_trace_high st) (ss_trace_low st))
       (span_context_state rt s)"

section \<open>Stores of spans\<close>

text \<open>\<open>PipelineType\<close>: the internal pipeline and that of user traces.\<close>

datatype pipeline = System | User

record 'sp span_store =
  st_cells :: "('sp \<times> nat) list"
  st_finished :: "finished_span list"

record ('l, 't, 'sp, 'w) trace_state =
  ts_stacks :: "('l, shared_span, 't) scope_stacks"
  ts_store :: "pipeline \<Rightarrow> 'sp span_store"
  ts_world :: 'w
  ts_panicked :: bool

definition stack_of :: "pipeline \<Rightarrow> ('l, 's, 't) scope_stacks \<Rightarrow> 's scope_stack" where
  "stack_of p ss = (case p of System \<Rightarrow> span_scopes ss | User \<Rightarrow> user_span_scopes ss)"

definition map_stack ::
  "pipeline \<Rightarrow> ('s scope_stack \<Rightarrow> 's scope_stack) \<Rightarrow> ('l, 's, 't) scope_stacks \<Rightarrow>
   ('l, 's, 't) scope_stacks" where
  "map_stack p f ss =
     (case p of
        System \<Rightarrow> ss\<lparr>span_scopes := f (span_scopes ss)\<rparr>
      | User \<Rightarrow> ss\<lparr>user_span_scopes := f (user_span_scopes ss)\<rparr>)"

definition current_handle ::
  "pipeline \<Rightarrow> thread \<Rightarrow> ('l, 't, 'sp, 'w) trace_state \<Rightarrow> shared_span option" where
  "current_handle p th st = scope_current th (stack_of p (ts_stacks st))"

text \<open>The end of a span, and the references to a cell: cloning and dropping a handle.\<close>

definition finish_span ::
  "('sp, 'w) rustracing \<Rightarrow> pipeline \<Rightarrow> 'sp \<Rightarrow> ('l, 't, 'sp, 'w) trace_state \<Rightarrow>
   ('l, 't, 'sp, 'w) trace_state" where
  "finish_span rt p s st =
     (case rt_drop rt s (ts_world st) of (r, w) \<Rightarrow>
        st\<lparr>ts_store := (ts_store st)(p := (ts_store st p)\<lparr>st_finished :=
             st_finished (ts_store st p) @ (case r of None \<Rightarrow> [] | Some f \<Rightarrow> [f])\<rparr>),
           ts_world := w\<rparr>)"

definition set_cell ::
  "pipeline \<Rightarrow> nat \<Rightarrow> 'sp \<times> nat \<Rightarrow> ('l, 't, 'sp, 'w) trace_state \<Rightarrow> ('l, 't, 'sp, 'w) trace_state" where
  "set_cell p i c st =
     st\<lparr>ts_store := (ts_store st)(p := (ts_store st p)\<lparr>st_cells := (st_cells (ts_store st p))[i := c]\<rparr>)\<rparr>"

definition handle_cell :: "shared_span \<Rightarrow> nat option" where
  "handle_cell h = (case sh_inner h of Tracked i \<Rightarrow> Some i | Untracked i \<Rightarrow> Some i | Inactive \<Rightarrow> None)"

definition handle_clone ::
  "pipeline \<Rightarrow> shared_span \<Rightarrow> ('l, 't, 'sp, 'w) trace_state \<Rightarrow> ('l, 't, 'sp, 'w) trace_state" where
  "handle_clone p h st =
     (case handle_cell h of
        None \<Rightarrow> st
      | Some i \<Rightarrow> (case st_cells (ts_store st p) ! i of (s, n) \<Rightarrow> set_cell p i (s, n + 1) st))"

definition handle_drop ::
  "('sp, 'w) rustracing \<Rightarrow> pipeline \<Rightarrow> shared_span \<Rightarrow> ('l, 't, 'sp, 'w) trace_state \<Rightarrow>
   ('l, 't, 'sp, 'w) trace_state" where
  "handle_drop rt p h st =
     (case handle_cell h of
        None \<Rightarrow> st
      | Some i \<Rightarrow> (case st_cells (ts_store st p) ! i of (s, n) \<Rightarrow>
          let st = set_cell p i (s, n - 1) st in if n = 1 then finish_span rt p s st else st))"

text \<open>\<open>write_current_span\<close> and \<open>write_current_user_span\<close>, with a write of the macros.\<close>

definition write_current ::
  "('sp, 'w) rustracing \<Rightarrow> pipeline \<Rightarrow> thread \<Rightarrow> span_write \<Rightarrow> ('l, 't, 'sp, 'w) trace_state \<Rightarrow>
   ('l, 't, 'sp, 'w) trace_state" where
  "write_current rt p th wr st =
     (case write_current_span (current_handle p th st) of
        None \<Rightarrow> st\<lparr>ts_panicked := True\<rparr>
      | Some None \<Rightarrow> st
      | Some (Some i) \<Rightarrow> (case st_cells (ts_store st p) ! i of (s, n) \<Rightarrow> set_cell p i (rt_write rt wr s, n) st))"

text \<open>\<open>SharedSpanHandle::with_read\<close>, and \<open>shared_span\<close> with \<open>user_shared_span\<close>: a span that is neither
  tracked nor sampled is dropped.\<close>

definition with_read ::
  "('sp, 'w) rustracing \<Rightarrow> pipeline \<Rightarrow> shared_span \<Rightarrow> ('l, 't, 'sp, 'w) trace_state \<Rightarrow> 'sp" where
  "with_read rt p h st =
     (case handle_cell h of None \<Rightarrow> rt_inactive rt | Some i \<Rightarrow> fst (st_cells (ts_store st p) ! i))"

definition shared_span ::
  "('sp, 'w) rustracing \<Rightarrow> liveness_settings \<Rightarrow> pipeline \<Rightarrow> 'sp \<Rightarrow> ('l, 't, 'sp, 'w) trace_state \<Rightarrow>
   shared_span \<times> ('l, 't, 'sp, 'w) trace_state" where
  "shared_span rt settings p s st =
     (let n = length (st_cells (ts_store st p));
          h = (case p of
              System \<Rightarrow> shared_span_new settings n (is_sampled rt s)
            | User \<Rightarrow> user_shared_span_new n (is_sampled rt s))
      in (h, case handle_cell h of
               None \<Rightarrow> finish_span rt p s st
             | Some _ \<Rightarrow> st\<lparr>ts_store := (ts_store st)(p := (ts_store st p)\<lparr>st_cells :=
                 st_cells (ts_store st p) @ [(s, 1)]\<rparr>)\<rparr>))"

section \<open>Starting and forking traces\<close>

record start_trace_options =
  sto_stitch_with_trace :: "span_state option"
  sto_override_sampling_ratio :: "f64 option"

definition start_trace_options_default :: start_trace_options where
  "start_trace_options_default =
     \<lparr>sto_stitch_with_trace = None, sto_override_sampling_ratio = None\<rparr>"

definition should_sample :: "('sp, 'w) rustracing \<Rightarrow> f64 \<Rightarrow> 'w \<Rightarrow> bool \<times> 'w" where
  "should_sample rt sampling_ratio w =
     (if f64_eq sampling_ratio f64_zero then (False, w)
      else if f64_eq sampling_ratio f64_one then (True, w)
      else case rt_random rt w of (r, w) \<Rightarrow> (f64_lt r sampling_ratio, w))"

definition create_fork_ref_span ::
  "('sp, 'w) rustracing \<Rightarrow> string \<Rightarrow> 'sp \<Rightarrow> 'w \<Rightarrow> 'sp \<times> 'w" where
  "create_fork_ref_span rt fork_name current_span w =
     rt_child rt (''['' @ fork_name @ '' ref]'') current_span w"

definition fork_note :: string where
  "fork_note = ''current trace was forked at this point, see the `trace_id` field to obtain the forked trace''"

definition set_tag :: "('sp, 'w) rustracing \<Rightarrow> string \<Rightarrow> string \<Rightarrow> 'sp \<Rightarrow> 'sp" where
  "set_tag rt name v s = rt_write rt (SetTags [(name, StringTag v)]) s"

text \<open>The reference span is dropped, and so finished, at the end. \<open>{:32x}\<close> pads with spaces.\<close>

definition link_new_trace_with_current ::
  "('sp, 'w) rustracing \<Rightarrow> shared_span \<Rightarrow> string \<Rightarrow> 'sp \<Rightarrow> ('l, 't, 'sp, 'w) trace_state \<Rightarrow>
   'sp \<times> ('l, 't, 'sp, 'w) trace_state" where
  "link_new_trace_with_current rt current_span root_span_name new_root st =
     (let s = with_read rt System current_span st;
          current_trace_id = span_trace_id rt s
      in case create_fork_ref_span rt root_span_name s (ts_world st) of (ref_span, w) \<Rightarrow>
        let ref_span = (case span_trace_id rt new_root of
                None \<Rightarrow> ref_span
              | Some trace_id \<Rightarrow>
                  set_tag rt ''trace_id'' trace_id (set_tag rt ''note'' fork_note ref_span));
            new_root = (case current_trace_id of
                None \<Rightarrow> new_root | Some trace_id \<Rightarrow> set_tag rt ''trace_id'' trace_id new_root);
            new_root = (case span_context_state rt ref_span of
                None \<Rightarrow> new_root
              | Some state \<Rightarrow> set_tag rt ''fork_of_span_id''
                  (pad_left 32 (CHR '' '') (show_hex (unat (ss_span_id state)))) new_root)
        in (new_root, finish_span rt System ref_span (st\<lparr>ts_world := w\<rparr>)))"

definition sampling_tags ::
  "('sp, 'w) rustracing \<Rightarrow> start_trace_options \<Rightarrow> 'w \<Rightarrow> (string \<times> tag_value) list \<times> 'w" where
  "sampling_tags rt options w =
     (case sto_override_sampling_ratio options of
        None \<Rightarrow> ([], w)
      | Some ratio \<Rightarrow> (case should_sample rt ratio w of (sampled, w) \<Rightarrow>
          ([(''sampling.priority'', IntegerTag (if sampled then 1 else 0))], w)))"

definition start_trace ::
  "('sp, 'w) rustracing \<Rightarrow> thread \<Rightarrow> string \<Rightarrow> start_trace_options \<Rightarrow>
   ('l, 't, 'sp, 'w) trace_state \<Rightarrow> 'sp \<times> ('l, 't, 'sp, 'w) trace_state" where
  "start_trace rt th root_span_name options st =
     (case sampling_tags rt options (ts_world st) of (tags, w) \<Rightarrow>
      case rt_start rt \<lparr>so_name = root_span_name, so_child_of = sto_stitch_with_trace options,
          so_tags = tags, so_routing = None\<rparr> w of (new_root, w) \<Rightarrow>
      let st = st\<lparr>ts_world := w\<rparr> in
      (case current_handle System th st of
         Some current_span \<Rightarrow>
           if sh_is_sampled current_span
           then link_new_trace_with_current rt current_span root_span_name new_root st
           else (new_root, st)
       | None \<Rightarrow> (new_root, st)))"

definition create_span ::
  "('sp, 'w) rustracing \<Rightarrow> liveness_settings \<Rightarrow> thread \<Rightarrow> string \<Rightarrow> ('l, 't, 'sp, 'w) trace_state \<Rightarrow>
   shared_span \<times> ('l, 't, 'sp, 'w) trace_state" where
  "create_span rt settings th name st =
     (case (case current_handle System th st of
              Some parent \<Rightarrow>
                (case rt_child rt name (with_read rt System parent st) (ts_world st) of (s, w) \<Rightarrow>
                  (s, st\<lparr>ts_world := w\<rparr>))
            | None \<Rightarrow> start_trace rt th name start_trace_options_default st) of (s, st) \<Rightarrow>
      shared_span rt settings System s st)"

definition fork_trace ::
  "('sp, 'w) rustracing \<Rightarrow> liveness_settings \<Rightarrow> thread \<Rightarrow> string \<Rightarrow> ('l, 't, 'sp, 'w) trace_state \<Rightarrow>
   shared_span \<times> ('l, 't, 'sp, 'w) trace_state" where
  "fork_trace rt settings th fork_name st =
     (if case_option False sh_is_sampled (current_handle System th st)
      then case start_trace rt th fork_name
          (start_trace_options_default\<lparr>sto_override_sampling_ratio := Some f64_one\<rparr>) st of (s, st) \<Rightarrow>
        shared_span rt settings System s st
      else shared_span rt settings System (rt_inactive rt) st)"

section \<open>User spans\<close>

definition create_user_span ::
  "('sp, 'w) rustracing \<Rightarrow> liveness_settings \<Rightarrow> thread \<Rightarrow> string \<Rightarrow> ('l, 't, 'sp, 'w) trace_state \<Rightarrow>
   shared_span \<times> ('l, 't, 'sp, 'w) trace_state" where
  "create_user_span rt settings th name st =
     (case (case current_handle User th st of
              Some parent \<Rightarrow>
                (case rt_child rt name (with_read rt User parent st) (ts_world st) of (s, w) \<Rightarrow>
                  (s, st\<lparr>ts_world := w\<rparr>))
            | None \<Rightarrow> (rt_inactive rt, st)) of (s, st) \<Rightarrow>
      shared_span rt settings User s st)"

definition start_user_trace ::
  "('sp, 'w) rustracing \<Rightarrow> string \<Rightarrow> routing_metadata \<Rightarrow> traceparent option \<Rightarrow> 'w \<Rightarrow> 'sp \<times> 'w" where
  "start_user_trace rt name routing inbound w =
     rt_user_start rt \<lparr>so_name = name, so_child_of = map_option inbound_state inbound,
       so_tags = [], so_routing = Some routing\<rparr> w"

section \<open>What is relied on\<close>

text \<open>A write changes what it says: the last of several tags of a name counts.\<close>

fun written :: "span_write \<Rightarrow> finished_span \<Rightarrow> finished_span \<Rightarrow> bool" where
  "written (SetTags tags) v v' \<longleftrightarrow>
     v' = v\<lparr>fs_tags := fs_tags v'\<rparr> \<and>
     map_of (fs_tags v') = fold (\<lambda>(k, x) m. m(k \<mapsto> x)) tags (map_of (fs_tags v))"
| "written (LogFields kvs) v v' \<longleftrightarrow>
     (\<exists>t. v' = v\<lparr>fs_logs := fs_logs v @ [\<lparr>le_time = t, le_fields = kvs\<rparr>]\<rparr>)"
| "written (SetStartTime t) v v' \<longleftrightarrow> v' = v\<lparr>fs_start_time := t\<rparr>"
| "written (SetFinishTime t) v v' \<longleftrightarrow> v' = v\<lparr>fs_finish_time := t\<rparr>"

definition same_trace :: "span_state \<Rightarrow> span_state \<Rightarrow> bool" where
  "same_trace a b \<longleftrightarrow> ss_trace_high a = ss_trace_high b \<and> ss_trace_low a = ss_trace_low b"

text \<open>A span starts as its builder says; the tag \<open>sampling.priority\<close> decides the sampling.\<close>

definition started :: "start_options \<Rightarrow> finished_span \<Rightarrow> bool" where
  "started opts v \<longleftrightarrow>
     fs_operation_name v = so_name opts \<and> fs_tags v = so_tags opts \<and> fs_logs v = [] \<and>
     fs_routing v = so_routing opts \<and>
     (case so_child_of opts of
        None \<Rightarrow> fs_references v = []
      | Some st \<Rightarrow> fs_references v = [ChildOf st] \<and> same_trace (fs_context v) st)"

definition child_of_span :: "string \<Rightarrow> finished_span \<Rightarrow> finished_span \<Rightarrow> bool" where
  "child_of_span name v v' \<longleftrightarrow>
     fs_operation_name v' = name \<and> fs_references v' = [ChildOf (fs_context v)] \<and>
     same_trace (fs_context v') (fs_context v) \<and> fs_tags v' = [] \<and> fs_logs v' = [] \<and>
     fs_routing v' = fs_routing v"

definition priority :: "start_options \<Rightarrow> tag_value option" where
  "priority opts = map_of (so_tags opts) ''sampling.priority''"

definition rustracing_documented :: "('sp, 'w) rustracing \<Rightarrow> bool" where
  "rustracing_documented rt \<longleftrightarrow>
     rt_view rt (rt_inactive rt) = None \<and>
     (\<forall>wr s. rt_view rt s = None \<longrightarrow> rt_view rt (rt_write rt wr s) = None) \<and>
     (\<forall>wr s v. rt_view rt s = Some v \<longrightarrow>
        (\<exists>v'. rt_view rt (rt_write rt wr s) = Some v' \<and> written wr v v')) \<and>
     (\<forall>name s w. rt_view rt s = None \<longrightarrow> rt_view rt (fst (rt_child rt name s w)) = None) \<and>
     (\<forall>name s w v. rt_view rt s = Some v \<longrightarrow>
        (\<exists>v'. rt_view rt (fst (rt_child rt name s w)) = Some v' \<and> child_of_span name v v')) \<and>
     (\<forall>opts w v. rt_view rt (fst (rt_start rt opts w)) = Some v \<longrightarrow> started opts v) \<and>
     (\<forall>opts w. priority opts = Some (IntegerTag 1) \<longrightarrow> rt_view rt (fst (rt_start rt opts w)) \<noteq> None) \<and>
     (\<forall>opts w. priority opts = Some (IntegerTag 0) \<longrightarrow> rt_view rt (fst (rt_start rt opts w)) = None) \<and>
     (\<forall>opts w. priority opts = None \<longrightarrow>
        (\<exists>v. rt_view rt (fst (rt_user_start rt opts w)) = Some v \<and> started opts v)) \<and>
     (\<forall>s w. rt_view rt s = None \<longrightarrow> rt_drop rt s w = (None, w)) \<and>
     (\<forall>s w v. rt_view rt s = Some v \<longrightarrow> (\<exists>t. fst (rt_drop rt s w) = Some (v\<lparr>fs_finish_time := t\<rparr>)))"

lemma rustracing_documentedD:
  assumes "rustracing_documented rt"
  shows "rt_view rt (rt_inactive rt) = None"
    and "rt_view rt s = None \<Longrightarrow> rt_view rt (rt_write rt wr s) = None"
    and "rt_view rt s = Some v \<Longrightarrow> \<exists>v'. rt_view rt (rt_write rt wr s) = Some v' \<and> written wr v v'"
    and "rt_view rt s = None \<Longrightarrow> rt_view rt (fst (rt_child rt name s w)) = None"
    and "rt_view rt s = Some v \<Longrightarrow>
      \<exists>v'. rt_view rt (fst (rt_child rt name s w)) = Some v' \<and> child_of_span name v v'"
    and "rt_view rt (fst (rt_start rt opts w)) = Some v \<Longrightarrow> started opts v"
    and "priority opts = Some (IntegerTag 1) \<Longrightarrow> rt_view rt (fst (rt_start rt opts w)) \<noteq> None"
    and "priority opts = Some (IntegerTag 0) \<Longrightarrow> rt_view rt (fst (rt_start rt opts w)) = None"
    and "priority opts = None \<Longrightarrow> \<exists>v. rt_view rt (fst (rt_user_start rt opts w)) = Some v \<and> started opts v"
    and "rt_view rt s = None \<Longrightarrow> rt_drop rt s w = (None, w)"
    and "rt_view rt s = Some v \<Longrightarrow> \<exists>t. fst (rt_drop rt s w) = Some (v\<lparr>fs_finish_time := t\<rparr>)"
  using assms unfolding rustracing_documented_def by auto

section \<open>The store\<close>

lemma finish_span_fields [simp]:
  "ts_stacks (finish_span rt p s st) = ts_stacks st"
  "st_cells (ts_store (finish_span rt p s st) q) = st_cells (ts_store st q)"
  "st_finished (ts_store (finish_span rt p s st) q) = st_finished (ts_store st q) @
     (if q = p then (case fst (rt_drop rt s (ts_world st)) of None \<Rightarrow> [] | Some f \<Rightarrow> [f]) else [])"
  "ts_world (finish_span rt p s st) = snd (rt_drop rt s (ts_world st))"
  "ts_panicked (finish_span rt p s st) = ts_panicked st"
  by (auto simp: finish_span_def split: prod.split)

lemma update_world [simp]:
  "with_read rt p h (st\<lparr>ts_world := w\<rparr>) = with_read rt p h st"
  "current_handle p th (st\<lparr>ts_world := w\<rparr>) = current_handle p th st"
  by (auto simp: with_read_def current_handle_def split: option.split)

lemma finish_inactive [simp]:
  assumes "rustracing_documented rt" "rt_view rt s = None"
  shows "finish_span rt p s st = st"
  using rustracing_documentedD(10) [OF assms]
  by (cases st) (auto simp: finish_span_def fun_eq_iff)

text \<open>What \<open>shared_span\<close> makes of a span: a handle with its flag, and a cell that shows the span,
  or none for a span that is neither tracked nor sampled.\<close>

lemma shared_span_result:
  assumes "rustracing_documented rt" "shared_span rt settings p s st = (h, st')"
  shows "sh_is_sampled h = is_sampled rt s" "ts_stacks st' = ts_stacks st" "ts_world st' = ts_world st"
    "ts_panicked st' = ts_panicked st"
    "\<And>q. st_finished (ts_store st' q) = st_finished (ts_store st q)"
    "\<And>q. st_cells (ts_store st' q) = st_cells (ts_store st q) @
      (if q = p \<and> handle_cell h \<noteq> None then [(s, 1)] else [])"
    "handle_cell h = None \<Longrightarrow> \<not> is_sampled rt s"
    "handle_cell h = Some i \<Longrightarrow> i = length (st_cells (ts_store st p))"
proof -
  let ?n = "length (st_cells (ts_store st p))"
  let ?h = "case p of System \<Rightarrow> shared_span_new settings ?n (is_sampled rt s)
    | User \<Rightarrow> user_shared_span_new ?n (is_sampled rt s)"
  have h: "h = ?h"
    using assms(2) by (simp add: shared_span_def Let_def)
  then show flag: "sh_is_sampled h = is_sampled rt s"
    by (auto simp: shared_span_new_def user_shared_span_new_def split: pipeline.split)
  show cell: "handle_cell h = None \<Longrightarrow> \<not> is_sampled rt s" "handle_cell h = Some i \<Longrightarrow> i = ?n"
    using h by (auto simp: handle_cell_def shared_span_new_def user_shared_span_new_def
        active_roots_track_def split: pipeline.splits if_splits)
  have st': "st' = (case handle_cell h of None \<Rightarrow> finish_span rt p s st
      | Some _ \<Rightarrow> st\<lparr>ts_store := (ts_store st)(p := (ts_store st p)\<lparr>st_cells :=
          st_cells (ts_store st p) @ [(s, 1)]\<rparr>)\<rparr>)"
    using assms(2) by (auto simp: shared_span_def Let_def)
  have "finish_span rt p s st = st" if "handle_cell h = None"
    using finish_inactive [OF assms(1)] cell(1) [OF that] by (simp add: is_sampled_def)
  with st' show "ts_stacks st' = ts_stacks st" "ts_world st' = ts_world st"
    "ts_panicked st' = ts_panicked st"
    "\<And>q. st_finished (ts_store st' q) = st_finished (ts_store st q)"
    "\<And>q. st_cells (ts_store st' q) = st_cells (ts_store st q) @
      (if q = p \<and> handle_cell h \<noteq> None then [(s, 1)] else [])"
    by (auto split: option.splits)
qed

lemma shared_span_read:
  assumes "rustracing_documented rt" "shared_span rt settings p s st = (h, st')" "is_sampled rt s"
  shows "with_read rt p h st' = s"
  using shared_span_result [OF assms(1,2)] assms(3)
  by (auto simp: with_read_def nth_append split: option.split)

section \<open>Forks and the trace they left\<close>

lemma set_tag_view:
  assumes "rustracing_documented rt" "rt_view rt s = Some v"
  shows "\<exists>v'. rt_view rt (set_tag rt n x s) = Some v' \<and> v' = v\<lparr>fs_tags := fs_tags v'\<rparr> \<and>
    map_of (fs_tags v') = (map_of (fs_tags v))(n \<mapsto> StringTag x)"
  using rustracing_documentedD(3) [OF assms, of "SetTags [(n, StringTag x)]"]
  by (auto simp: set_tag_def)

lemma set_tag_keeps:
  assumes "v' = v\<lparr>fs_tags := fs_tags v'\<rparr>"
  shows "fs_context v' = fs_context v" "fs_operation_name v' = fs_operation_name v"
    "fs_references v' = fs_references v" "fs_routing v' = fs_routing v"
  by (subst assms, simp)+

definition show_trace :: "('sp, 'w) rustracing \<Rightarrow> span_state \<Rightarrow> string" where
  "show_trace rt st = rt_show_trace_id rt (ss_trace_high st) (ss_trace_low st)"

lemma span_trace_id_view: "rt_view rt s = Some v \<Longrightarrow> span_trace_id rt s = Some (show_trace rt (fs_context v))"
  by (simp add: span_trace_id_def span_context_state_def show_trace_def)

text \<open>The links: the reference span becomes a finished child of the span that was current, and
  names the new trace; the new root names the old trace and the reference span.\<close>

definition linked ::
  "('sp, 'w) rustracing \<Rightarrow> string \<Rightarrow> finished_span \<Rightarrow> finished_span \<Rightarrow> finished_span \<Rightarrow> bool" where
  "linked rt name cur new_root ref \<longleftrightarrow>
     fs_operation_name ref = ''['' @ name @ '' ref]'' \<and>
     fs_references ref = [ChildOf (fs_context cur)] \<and> same_trace (fs_context ref) (fs_context cur) \<and>
     map_of (fs_tags ref) ''note'' = Some (StringTag fork_note) \<and>
     map_of (fs_tags ref) ''trace_id'' = Some (StringTag (show_trace rt (fs_context new_root))) \<and>
     map_of (fs_tags new_root) ''trace_id'' = Some (StringTag (show_trace rt (fs_context cur))) \<and>
     map_of (fs_tags new_root) ''fork_of_span_id'' =
       Some (StringTag (pad_left 32 (CHR '' '') (show_hex (unat (ss_span_id (fs_context ref))))))"

lemma link_result:
  assumes "rustracing_documented rt"
    and cur: "rt_view rt (with_read rt System cur st) = Some c" and "rt_view rt new_root = Some r"
  shows "\<exists>s st' r' ref. link_new_trace_with_current rt cur name new_root st = (s, st') \<and>
    rt_view rt s = Some r' \<and> r' = r\<lparr>fs_tags := fs_tags r'\<rparr> \<and> linked rt name c r' ref \<and>
    ts_stacks st' = ts_stacks st \<and> (\<forall>q. st_cells (ts_store st' q) = st_cells (ts_store st q)) \<and>
    st_finished (ts_store st' System) = st_finished (ts_store st System) @ [ref] \<and>
    st_finished (ts_store st' User) = st_finished (ts_store st User)"
proof -
  let ?s = "with_read rt System cur st"
  obtain ref0 w where ref0: "create_fork_ref_span rt name ?s (ts_world st) = (ref0, w)"
    by fastforce
  from rustracing_documentedD(5) [OF assms(1) cur, of "''['' @ name @ '' ref]''" "ts_world st"] ref0
  obtain f0 where f0: "rt_view rt ref0 = Some f0" "child_of_span (''['' @ name @ '' ref]'') c f0"
    by (auto simp: create_fork_ref_span_def)
  let ?tid = "show_trace rt (fs_context r)"
  let ?ref = "set_tag rt ''trace_id'' ?tid (set_tag rt ''note'' fork_note ref0)"
  from set_tag_view [OF assms(1) f0(1), of "''note''" fork_note] obtain f1 where
    f1: "rt_view rt (set_tag rt ''note'' fork_note ref0) = Some f1" "f1 = f0\<lparr>fs_tags := fs_tags f1\<rparr>"
      "map_of (fs_tags f1) = (map_of (fs_tags f0))(''note'' \<mapsto> StringTag fork_note)" by blast
  from set_tag_view [OF assms(1) f1(1), of "''trace_id''" ?tid] obtain f where
    f: "rt_view rt ?ref = Some f" "f = f1\<lparr>fs_tags := fs_tags f\<rparr>"
      "map_of (fs_tags f) = (map_of (fs_tags f1))(''trace_id'' \<mapsto> StringTag ?tid)" by blast
  let ?root1 = "set_tag rt ''trace_id'' (show_trace rt (fs_context c)) new_root"
  let ?id = "pad_left 32 (CHR '' '') (show_hex (unat (ss_span_id (fs_context f))))"
  from set_tag_view [OF assms(1,3), of "''trace_id''" "show_trace rt (fs_context c)"] obtain r1 where
    r1: "rt_view rt ?root1 = Some r1" "r1 = r\<lparr>fs_tags := fs_tags r1\<rparr>"
      "map_of (fs_tags r1) = (map_of (fs_tags r))(''trace_id'' \<mapsto> StringTag (show_trace rt (fs_context c)))"
    by blast
  from set_tag_view [OF assms(1) r1(1), of "''fork_of_span_id''" ?id] obtain r2 where
    r2: "rt_view rt (set_tag rt ''fork_of_span_id'' ?id ?root1) = Some r2" "r2 = r1\<lparr>fs_tags := fs_tags r2\<rparr>"
      "map_of (fs_tags r2) = (map_of (fs_tags r1))(''fork_of_span_id'' \<mapsto> StringTag ?id)" by blast
  from rustracing_documentedD(11) [OF assms(1) f(1), of w] obtain t where
    t: "fst (rt_drop rt ?ref w) = Some (f\<lparr>fs_finish_time := t\<rparr>)" by blast
  let ?st' = "finish_span rt System ?ref (st\<lparr>ts_world := w\<rparr>)"
  have "link_new_trace_with_current rt cur name new_root st =
      (set_tag rt ''fork_of_span_id'' ?id ?root1, ?st')"
    unfolding link_new_trace_with_current_def Let_def ref0
    using f(1) by (simp add: span_trace_id_view [OF cur] span_trace_id_view [OF assms(3)]
        span_context_state_def)
  moreover have "linked rt name c r2 (f\<lparr>fs_finish_time := t\<rparr>)"
    using f0(2) f1(3) f(3) r1(3) r2(3) set_tag_keeps [OF f1(2)] set_tag_keeps [OF f(2)]
      set_tag_keeps [OF r1(2)] set_tag_keeps [OF r2(2)]
    by (simp add: linked_def child_of_span_def)
  moreover have "r2 = r\<lparr>fs_tags := fs_tags r2\<rparr>"
    using r1(2) r2(2) by (metis finished_span.surjective finished_span.update_convs(5))
  ultimately show ?thesis
    using r2(1) t
    by (intro exI [of _ "set_tag rt ''fork_of_span_id'' ?id ?root1"] exI [of _ ?st'] exI [of _ r2]
        exI [of _ "f\<lparr>fs_finish_time := t\<rparr>"] conjI; simp)
qed

text \<open>C12: Forking with a sampled current span makes a sampled root of a trace of its own, whatever the
  sampler says, and exactly one span is finished by it, the reference span; the two and the
  current span's trace name each other. Without a sampled current span the fork is inactive and
  nothing is started or finished.\<close>

theorem fork_trace_links:
  assumes "rustracing_documented rt" "fork_trace rt settings th name st = (h, st')"
    and "\<forall>cur. current_handle System th st = Some cur \<longrightarrow>
      sh_is_sampled cur = is_sampled rt (with_read rt System cur st)"
  shows "case Option.bind (current_handle System th st) (\<lambda>cur. rt_view rt (with_read rt System cur st)) of
      Some c \<Rightarrow> sh_is_sampled h \<and>
        (\<exists>new_root ref. rt_view rt (with_read rt System h st') = Some new_root \<and>
          fs_operation_name new_root = name \<and> fs_references new_root = [] \<and>
          linked rt name c new_root ref \<and>
          st_finished (ts_store st' System) = st_finished (ts_store st System) @ [ref])
    | None \<Rightarrow> \<not> sh_is_sampled h \<and>
        st_finished (ts_store st' System) = st_finished (ts_store st System)"
proof (cases "case_option False sh_is_sampled (current_handle System th st)")
  case True
  then obtain cur c where cur: "current_handle System th st = Some cur" "sh_is_sampled cur"
    "rt_view rt (with_read rt System cur st) = Some c"
    using assms(3) by (auto simp: is_sampled_def split: option.splits)
  let ?opts = "\<lparr>so_name = name, so_child_of = None,
    so_tags = [(''sampling.priority'', IntegerTag 1)], so_routing = None\<rparr>"
  obtain s w where s: "rt_start rt ?opts (ts_world st) = (s, w)"
    by fastforce
  have "priority ?opts = Some (IntegerTag 1)"
    by (simp add: priority_def)
  with rustracing_documentedD(7) [OF assms(1), of ?opts "ts_world st"] s
  obtain r where r: "rt_view rt s = Some r" by auto
  with rustracing_documentedD(6) [OF assms(1), of ?opts "ts_world st"] s
  have started: "started ?opts r" by simp
  have cur': "rt_view rt (with_read rt System cur (st\<lparr>ts_world := w\<rparr>)) = Some c"
    using cur(3) by simp
  from link_result [OF assms(1) this r, of name] obtain s' st1 r' ref where link:
    "link_new_trace_with_current rt cur name s (st\<lparr>ts_world := w\<rparr>) = (s', st1)"
    "rt_view rt s' = Some r'" "r' = r\<lparr>fs_tags := fs_tags r'\<rparr>" "linked rt name c r' ref"
    "st_finished (ts_store st1 System) = st_finished (ts_store st System) @ [ref]"
    by auto
  have "f64_eq f64_one f64_one" "\<not> f64_eq f64_one f64_zero"
    by code_simp+
  then have "start_trace rt th name (start_trace_options_default\<lparr>sto_override_sampling_ratio := Some f64_one\<rparr>) st
      = (s', st1)"
    using s link(1) cur(1,2)
    by (simp add: start_trace_def start_trace_options_default_def sampling_tags_def should_sample_def
        Let_def)
  with assms(2) True have h: "shared_span rt settings System s' st1 = (h, st')"
    by (simp add: fork_trace_def)
  have "is_sampled rt s'"
    using link(2) by (simp add: is_sampled_def)
  with shared_span_result [OF assms(1) h] shared_span_read [OF assms(1) h] link set_tag_keeps [OF link(3)]
    started cur
  show ?thesis
    by (auto simp: started_def)
next
  case False
  have "shared_span rt settings System (rt_inactive rt) st = (h, st')"
    using assms(2) unfolding fork_trace_def if_not_P [OF False] .
  from shared_span_result [OF assms(1) this] rustracing_documentedD(1) [OF assms(1)]
  have "\<not> sh_is_sampled h" "st_finished (ts_store st' System) = st_finished (ts_store st System)"
    by (simp_all add: is_sampled_def)
  moreover have "Option.bind (current_handle System th st)
      (\<lambda>cur. rt_view rt (with_read rt System cur st)) = None"
    using False assms(3) by (cases "current_handle System th st") (auto simp: is_sampled_def)
  ultimately show ?thesis by simp
qed


section \<open>A concrete tracer\<close>

text \<open>A tracer that numbers its spans and samples every trace whose tags do not say otherwise.\<close>

definition sample_span :: "nat \<Rightarrow> start_options \<Rightarrow> finished_span" where
  "sample_span w opts =
     \<lparr>fs_context = (case so_child_of opts of
          None \<Rightarrow> \<lparr>ss_trace_high = 0, ss_trace_low = of_nat (w + 1), ss_span_id = of_nat (w + 1), ss_flags = 1\<rparr>
        | Some st \<Rightarrow> st\<lparr>ss_span_id := of_nat (w + 1)\<rparr>),
      fs_operation_name = so_name opts, fs_start_time = 0, fs_finish_time = 0, fs_tags = so_tags opts,
      fs_logs = [], fs_references = (case so_child_of opts of None \<Rightarrow> [] | Some st \<Rightarrow> [ChildOf st]),
      fs_routing = so_routing opts\<rparr>"

fun sample_write :: "span_write \<Rightarrow> finished_span \<Rightarrow> finished_span" where
  "sample_write (SetTags tags) v = v\<lparr>fs_tags := rev tags @ fs_tags v\<rparr>"
| "sample_write (LogFields kvs) v = v\<lparr>fs_logs := fs_logs v @ [\<lparr>le_time = 0, le_fields = kvs\<rparr>]\<rparr>"
| "sample_write (SetStartTime t) v = v\<lparr>fs_start_time := t\<rparr>"
| "sample_write (SetFinishTime t) v = v\<lparr>fs_finish_time := t\<rparr>"

definition sample_rustracing :: "(finished_span option, nat) rustracing" where
  "sample_rustracing =
     \<lparr>rt_inactive = None,
      rt_start = (\<lambda>opts w.
        (if priority opts = Some (IntegerTag 0) then None else Some (sample_span w opts), w + 1)),
      rt_user_start = (\<lambda>opts w. (Some (sample_span w opts), w + 1)),
      rt_child = (\<lambda>name s w. (map_option (\<lambda>v. sample_span w
        \<lparr>so_name = name, so_child_of = Some (fs_context v), so_tags = [], so_routing = fs_routing v\<rparr>) s, w + 1)),
      rt_write = (\<lambda>wr. map_option (sample_write wr)),
      rt_view = (\<lambda>s. s),
      rt_drop = (\<lambda>s w. (s, w)),
      rt_show_trace_id = (\<lambda>high low. show_hex (unat low)),
      rt_random = (\<lambda>w. (f64_zero, w))\<rparr>"

lemma fold_update_map: "fold (\<lambda>(k, x) m. m(k \<mapsto> x)) tags m = m ++ map_of (rev tags)"
  by (induction tags arbitrary: m) (auto simp: map_add_def fun_eq_iff split: option.split)

lemma sample_written: "written wr v (sample_write wr v)"
  by (cases wr) (auto simp: fold_update_map intro: exI [of _ 0])

lemma finish_time_same: "\<exists>t. v = v\<lparr>fs_finish_time := t\<rparr>"
  by (rule exI [of _ "fs_finish_time v"]) simp

lemma sample_documented: "rustracing_documented sample_rustracing"
  by (auto simp: rustracing_documented_def sample_rustracing_def sample_written started_def child_of_span_def
      same_trace_def sample_span_def split: option.splits intro: finish_time_same)

definition sample_parent :: finished_span where
  "sample_parent = sample_span 41
     \<lparr>so_name = ''request'', so_child_of = None, so_tags = [], so_routing = None\<rparr>"

definition sample_state :: "(unit, unit, finished_span option, nat) trace_state" where
  "sample_state =
     \<lparr>ts_stacks = no_scopes\<lparr>span_scopes := (\<lambda>_. [\<lparr>sh_inner = Untracked 0, sh_is_sampled = True\<rparr>])\<rparr>,
      ts_store = (\<lambda>_. \<lparr>st_cells = [(Some sample_parent, 1)], st_finished = []\<rparr>), ts_world = 42, ts_panicked = False\<rparr>"


theorem fork_trace_links_witness:
  "\<exists>h st'. fork_trace sample_rustracing \<lparr>lt_enabled = True, lt_track_all_spans = False\<rparr> 0 ''job'' sample_state = (h, st') \<and>
     sh_is_sampled h \<and>
     (\<exists>new_root ref. rt_view sample_rustracing (with_read sample_rustracing System h st') = Some new_root \<and>
        fs_operation_name new_root = ''job'' \<and> linked sample_rustracing ''job'' sample_parent new_root ref \<and>
        st_finished (ts_store st' System) = [ref])"
proof -
  obtain h st' where fork:
    "fork_trace sample_rustracing \<lparr>lt_enabled = True, lt_track_all_spans = False\<rparr> 0 ''job'' sample_state = (h, st')"
    by fastforce
  have cur: "current_handle System 0 sample_state = Some \<lparr>sh_inner = Untracked 0, sh_is_sampled = True\<rparr>"
    by (simp add: current_handle_def stack_of_def sample_state_def scope_current_def)
  have view: "rt_view sample_rustracing (with_read sample_rustracing System \<lparr>sh_inner = Untracked 0, sh_is_sampled = True\<rparr> sample_state)
      = Some sample_parent"
    by (simp add: with_read_def handle_cell_def sample_state_def sample_rustracing_def)
  have "\<forall>cur. current_handle System 0 sample_state = Some cur \<longrightarrow>
      sh_is_sampled cur = is_sampled sample_rustracing (with_read sample_rustracing System cur sample_state)"
    using cur view by (simp add: is_sampled_def)
  from fork_trace_links [OF sample_documented fork this] show ?thesis
    using fork unfolding cur by (auto simp: view) (simp add: sample_state_def)
qed

end
