(* ===== verification/SpanScopes.thy ===== *)
theory SpanScopes
  imports TraceSpans
begin

text \<open>
  Scopes of spans: \<open>SpanScope\<close>, \<open>UserSpanScope\<close> and \<open>DualSpanScope\<close> of \<open>tracing/mod.rs\<close>, the
  contexts made of them, and the scopes of contexts, on one thread. A program is what the blocks of
  a function do: open a span for the rest of a block, start or fork a trace, carry a span into a
  future, write to the current span. Running it moves references between the stacks of the thread
  and the cells of the store. The lexical semantics has no stacks, cells and counts: it passes the
  current spans to a block and finishes a span at the block's end. The lemmas show that the first
  implements the second.
\<close>

section \<open>Scopes\<close>

text \<open>\<open>SpanScope::new\<close> and \<open>UserSpanScope::new\<close> take a reference and put a clone of it on the stack;
  dropping a scope drops its span, then pops the stack and drops what it held.\<close>

definition span_scope_new ::
  "pipeline \<Rightarrow> thread \<Rightarrow> shared_span \<Rightarrow> ('l, 't, 'sp, 'w) trace_state \<Rightarrow> ('l, 't, 'sp, 'w) trace_state" where
  "span_scope_new p th h st =
     (let st = handle_clone p h st
      in st\<lparr>ts_stacks := map_stack p (scope_new th h) (ts_stacks st)\<rparr>)"

definition scope_pop ::
  "('sp, 'w) rustracing \<Rightarrow> pipeline \<Rightarrow> thread \<Rightarrow> ('l, 't, 'sp, 'w) trace_state \<Rightarrow>
   ('l, 't, 'sp, 'w) trace_state" where
  "scope_pop rt p th st =
     (let popped = current_handle p th st;
          st = st\<lparr>ts_stacks := map_stack p (scope_drop th) (ts_stacks st)\<rparr>
      in case popped of None \<Rightarrow> st | Some h \<Rightarrow> handle_drop rt p h st)"

definition span_scope_drop ::
  "('sp, 'w) rustracing \<Rightarrow> pipeline \<Rightarrow> thread \<Rightarrow> shared_span \<Rightarrow> ('l, 't, 'sp, 'w) trace_state \<Rightarrow>
   ('l, 't, 'sp, 'w) trace_state" where
  "span_scope_drop rt p th h st = scope_pop rt p th (handle_drop rt p h st)"

text \<open>The same of a span that may be absent.\<close>

definition opt_state :: "('a \<Rightarrow> 's \<Rightarrow> 's) \<Rightarrow> 'a option \<Rightarrow> 's \<Rightarrow> 's" where
  "opt_state f x st = (case x of None \<Rightarrow> st | Some a \<Rightarrow> f a st)"

text \<open>\<open>span\<close>, \<open>user_tracing::span\<close>, \<open>user_tracing::start_trace\<close>, \<open>start_trace\<close> and \<open>dual_span\<close>: the
  references they keep. A \<open>DualSpanScope\<close> drops the internal scope first.\<close>

definition tracing_span ::
  "('sp, 'w) rustracing \<Rightarrow> liveness_settings \<Rightarrow> thread \<Rightarrow> string \<Rightarrow> ('l, 't, 'sp, 'w) trace_state \<Rightarrow>
   shared_span \<times> ('l, 't, 'sp, 'w) trace_state" where
  "tracing_span rt settings th name st =
     (case create_span rt settings th name st of (h, st) \<Rightarrow> (h, span_scope_new System th h st))"

definition user_span ::
  "('sp, 'w) rustracing \<Rightarrow> liveness_settings \<Rightarrow> thread \<Rightarrow> string \<Rightarrow> ('l, 't, 'sp, 'w) trace_state \<Rightarrow>
   shared_span \<times> ('l, 't, 'sp, 'w) trace_state" where
  "user_span rt settings th name st =
     (case create_user_span rt settings th name st of (h, st) \<Rightarrow> (h, span_scope_new User th h st))"

definition start_trace_scope ::
  "('sp, 'w) rustracing \<Rightarrow> liveness_settings \<Rightarrow> thread \<Rightarrow> string \<Rightarrow> start_trace_options \<Rightarrow>
   ('l, 't, 'sp, 'w) trace_state \<Rightarrow> shared_span \<times> ('l, 't, 'sp, 'w) trace_state" where
  "start_trace_scope rt settings th name options st =
     (case start_trace rt th name options st of (s, st) \<Rightarrow>
      case shared_span rt settings System s st of (h, st) \<Rightarrow> (h, span_scope_new System th h st))"

definition user_start_trace ::
  "('sp, 'w) rustracing \<Rightarrow> liveness_settings \<Rightarrow> thread \<Rightarrow> string \<Rightarrow> routing_metadata \<Rightarrow>
   traceparent option \<Rightarrow> ('l, 't, 'sp, 'w) trace_state \<Rightarrow>
   shared_span \<times> ('l, 't, 'sp, 'w) trace_state" where
  "user_start_trace rt settings th name routing inbound st =
     (case start_user_trace rt name routing inbound (ts_world st) of (s, w) \<Rightarrow>
      case shared_span rt settings User s (st\<lparr>ts_world := w\<rparr>) of (h, st) \<Rightarrow>
        (h, span_scope_new User th h st))"

definition dual_span ::
  "('sp, 'w) rustracing \<Rightarrow> liveness_settings \<Rightarrow> thread \<Rightarrow> string \<Rightarrow> ('l, 't, 'sp, 'w) trace_state \<Rightarrow>
   (shared_span \<times> shared_span option) \<times> ('l, 't, 'sp, 'w) trace_state" where
  "dual_span rt settings th name st =
     (case tracing_span rt settings th name st of (inner, st) \<Rightarrow>
        if current_handle User th st \<noteq> None
        then case user_span rt settings th name st of (user, st) \<Rightarrow> ((inner, Some user), st)
        else ((inner, None), st))"

definition dual_scope_drop ::
  "('sp, 'w) rustracing \<Rightarrow> thread \<Rightarrow> shared_span \<times> shared_span option \<Rightarrow>
   ('l, 't, 'sp, 'w) trace_state \<Rightarrow> ('l, 't, 'sp, 'w) trace_state" where
  "dual_scope_drop rt th scopes st =
     opt_state (span_scope_drop rt User th) (snd scopes) (span_scope_drop rt System th (fst scopes) st)"

section \<open>Contexts\<close>

text \<open>The references a context holds: \<open>TelemetryContext::current\<close>, its clone and its drop.\<close>

type_synonym ('l, 't) trace_context = "('l, shared_span, 't) telemetry_context"

definition context_clone ::
  "('l, 't) trace_context \<Rightarrow> ('l, 't, 'sp, 'w) trace_state \<Rightarrow> ('l, 't, 'sp, 'w) trace_state" where
  "context_clone c st =
     opt_state (handle_clone User) (tc_user_span c) (opt_state (handle_clone System) (tc_span c) st)"

definition context_drop ::
  "('sp, 'w) rustracing \<Rightarrow> ('l, 't) trace_context \<Rightarrow> ('l, 't, 'sp, 'w) trace_state \<Rightarrow>
   ('l, 't, 'sp, 'w) trace_state" where
  "context_drop rt c st =
     opt_state (handle_drop rt User) (tc_user_span c) (opt_state (handle_drop rt System) (tc_span c) st)"

definition telemetry_context_current ::
  "'l \<Rightarrow> thread \<Rightarrow> ('l, 't, 'sp, 'w) trace_state \<Rightarrow>
   ('l, 't) trace_context \<times> ('l, 't, 'sp, 'w) trace_state" where
  "telemetry_context_current root_log th st =
     (let c = context_current root_log th (ts_stacks st) in (c, context_clone c st))"

text \<open>\<open>SpanScope::into_context\<close> and \<open>DualSpanScope::into_context\<close>: the context takes over the
  reference of the scope, whose stack entry goes.\<close>

definition into_context ::
  "('sp, 'w) rustracing \<Rightarrow> 'l \<Rightarrow> thread \<Rightarrow> shared_span \<Rightarrow> ('l, 't, 'sp, 'w) trace_state \<Rightarrow>
   ('l, 't) trace_context \<times> ('l, 't, 'sp, 'w) trace_state" where
  "into_context rt root_log th h st =
     (case telemetry_context_current root_log th st of (c, st) \<Rightarrow>
        (c\<lparr>tc_span := Some h\<rparr>, scope_pop rt System th (opt_state (handle_drop rt System) (tc_span c) st)))"

definition dual_into_context ::
  "('sp, 'w) rustracing \<Rightarrow> 'l \<Rightarrow> thread \<Rightarrow> shared_span \<times> shared_span option \<Rightarrow>
   ('l, 't, 'sp, 'w) trace_state \<Rightarrow> ('l, 't) trace_context \<times> ('l, 't, 'sp, 'w) trace_state" where
  "dual_into_context rt root_log th scopes st =
     (case into_context rt root_log th (fst scopes) st of (c, st) \<Rightarrow>
      case snd scopes of
        None \<Rightarrow> (c, st)
      | Some h \<Rightarrow> (c\<lparr>tc_user_span := Some h\<rparr>,
          scope_pop rt User th (opt_state (handle_drop rt User) (tc_user_span c) st)))"

text \<open>\<open>with_forked_trace\<close> on a context, which keeps its own references.\<close>

definition with_forked_trace ::
  "('sp, 'w) rustracing \<Rightarrow> liveness_settings \<Rightarrow> thread \<Rightarrow> string \<Rightarrow> ('l, 't) trace_context \<Rightarrow>
   ('l, 't, 'sp, 'w) trace_state \<Rightarrow> ('l, 't) trace_context \<times> ('l, 't, 'sp, 'w) trace_state" where
  "with_forked_trace rt settings th fork_name c st =
     (case fork_trace rt settings th fork_name st of (h, st) \<Rightarrow>
        (c\<lparr>tc_span := Some h\<rparr>, opt_state (handle_clone User) (tc_user_span c) st))"

text \<open>\<open>TelemetryContext::scope\<close> with the references of its scopes, and the drop of the
  \<open>TelemetryScope\<close>, in the order of its fields.\<close>

definition telemetry_scope_new ::
  "thread \<Rightarrow> ('l, 't) trace_context \<Rightarrow> ('l, 't, 'sp, 'w) trace_state \<Rightarrow> ('l, 't, 'sp, 'w) trace_state" where
  "telemetry_scope_new th c st =
     (let ss = ts_stacks st;
          st = st\<lparr>ts_stacks := ss\<lparr>log_scopes := scope_new th (tc_log c) (log_scopes ss)\<rparr>\<rparr>;
          st = opt_state (\<lambda>h st. span_scope_new System th h (handle_clone System h st)) (tc_span c) st;
          st = opt_state (\<lambda>h st. span_scope_new User th h (handle_clone User h st)) (tc_user_span c) st;
          ss = ts_stacks st
      in st\<lparr>ts_stacks := ss\<lparr>
           test_tracer_scopes := scope_new_opt th (tc_test_tracer c) (test_tracer_scopes ss),
           user_test_tracer_scopes :=
             scope_new_opt th (tc_user_test_tracer c) (user_test_tracer_scopes ss)\<rparr>\<rparr>)"

definition telemetry_scope_end ::
  "('sp, 'w) rustracing \<Rightarrow> thread \<Rightarrow> ('l, 't) trace_context \<Rightarrow> ('l, 't, 'sp, 'w) trace_state \<Rightarrow>
   ('l, 't, 'sp, 'w) trace_state" where
  "telemetry_scope_end rt th c st =
     (let ss = ts_stacks st;
          st = st\<lparr>ts_stacks := ss\<lparr>log_scopes := scope_drop th (log_scopes ss)\<rparr>\<rparr>;
          st = opt_state (span_scope_drop rt System th) (tc_span c) st;
          st = opt_state (span_scope_drop rt User th) (tc_user_span c) st;
          ss = ts_stacks st
      in st\<lparr>ts_stacks := ss\<lparr>
           test_tracer_scopes := scope_drop_opt th (tc_test_tracer c) (test_tracer_scopes ss),
           user_test_tracer_scopes :=
             scope_drop_opt th (tc_user_test_tracer c) (user_test_tracer_scopes ss)\<rparr>\<rparr>)"

section \<open>Programs\<close>

datatype scoped =
    InSpan string "scoped list"
  | InUserSpan string "scoped list"
  | InDualSpan string "scoped list"
  | InTrace string start_trace_options "scoped list"
  | InUserTrace string routing_metadata "traceparent option" "scoped list"
  | InFork string "scoped list"
  | InFuture string "scoped list list"
  | InDualFuture string "scoped list list"
  | WriteSpan pipeline span_write

text \<open>A block runs between the creation and the drop of its scope. \<open>InFork\<close> is the scope of the current
  context with a forked trace, whose temporaries are dropped when the scope is made; the futures
  are \<open>into_context().apply\<close>, which clones the context, polled once per block.\<close>

definition run_polls ::
  "('sp, 'w) rustracing \<Rightarrow> thread \<Rightarrow> ('l, 't) trace_context \<Rightarrow>
   ('b \<Rightarrow> ('l, 't, 'sp, 'w) trace_state \<Rightarrow> ('l, 't, 'sp, 'w) trace_state) \<Rightarrow> 'b list \<Rightarrow>
   ('l, 't, 'sp, 'w) trace_state \<Rightarrow> ('l, 't, 'sp, 'w) trace_state" where
  "run_polls rt th c run polls st =
     (let st = context_clone c st;
          st = fold (\<lambda>poll st. telemetry_scope_end rt th c (run poll (telemetry_scope_new th c st))) polls st
      in context_drop rt c (context_drop rt c st))"

lemma run_polls_cong [fundef_cong]:
  "\<lbrakk>polls = polls'; st = st'; \<And>poll st. poll \<in> set polls' \<Longrightarrow> run poll st = run' poll st\<rbrakk> \<Longrightarrow>
    run_polls rt th c run polls st = run_polls rt th c run' polls' st'"
  unfolding run_polls_def Let_def by (simp cong: fold_cong)

lemma size_nested_list:
  "x \<in> set xs \<Longrightarrow> xs \<in> set xss \<Longrightarrow> size x < Suc (size_list (size_list size) xss)"
  using size_list_estimation' [of x xs "size x" size]
    size_list_estimation' [of xs xss "size_list size xs" "size_list size"] by simp

function run_scoped ::
  "('sp, 'w) rustracing \<Rightarrow> liveness_settings \<Rightarrow> 'l \<Rightarrow> thread \<Rightarrow> scoped \<Rightarrow>
   ('l, 't, 'sp, 'w) trace_state \<Rightarrow> ('l, 't, 'sp, 'w) trace_state" where
  "run_scoped rt settings root_log th (InSpan name body) st =
     (case tracing_span rt settings th name st of (h, st) \<Rightarrow>
        span_scope_drop rt System th h (fold (run_scoped rt settings root_log th) body st))"
| "run_scoped rt settings root_log th (InUserSpan name body) st =
     (case user_span rt settings th name st of (h, st) \<Rightarrow>
        span_scope_drop rt User th h (fold (run_scoped rt settings root_log th) body st))"
| "run_scoped rt settings root_log th (InDualSpan name body) st =
     (case dual_span rt settings th name st of (hs, st) \<Rightarrow>
        dual_scope_drop rt th hs (fold (run_scoped rt settings root_log th) body st))"
| "run_scoped rt settings root_log th (InTrace name options body) st =
     (case start_trace_scope rt settings th name options st of (h, st) \<Rightarrow>
        span_scope_drop rt System th h (fold (run_scoped rt settings root_log th) body st))"
| "run_scoped rt settings root_log th (InUserTrace name routing inbound body) st =
     (case user_start_trace rt settings th name routing inbound st of (h, st) \<Rightarrow>
        span_scope_drop rt User th h (fold (run_scoped rt settings root_log th) body st))"
| "run_scoped rt settings root_log th (InFork name body) st =
     (case telemetry_context_current root_log th st of (current, st) \<Rightarrow>
      case with_forked_trace rt settings th name current st of (c, st) \<Rightarrow>
        let st = context_drop rt current (context_drop rt c (telemetry_scope_new th c st))
        in telemetry_scope_end rt th c (fold (run_scoped rt settings root_log th) body st))"
| "run_scoped rt settings root_log th (InFuture name polls) st =
     (case tracing_span rt settings th name st of (h, st) \<Rightarrow>
      case into_context rt root_log th h st of (c, st) \<Rightarrow>
        run_polls rt th c (\<lambda>poll st. fold (run_scoped rt settings root_log th) poll st) polls st)"
| "run_scoped rt settings root_log th (InDualFuture name polls) st =
     (case dual_span rt settings th name st of (hs, st) \<Rightarrow>
      case dual_into_context rt root_log th hs st of (c, st) \<Rightarrow>
        run_polls rt th c (\<lambda>poll st. fold (run_scoped rt settings root_log th) poll st) polls st)"
| "run_scoped rt settings root_log th (WriteSpan p wr) st = write_current rt p th wr st"
  by pat_completeness auto

termination
  by (relation "measure (\<lambda>(rt, settings, root_log, th, x, st). size x)")
    (auto simp: less_Suc_eq_le size_list_estimation' intro: size_nested_list)

definition trace_state_new :: "'w \<Rightarrow> ('l, 't, 'sp, 'w) trace_state" where
  "trace_state_new w =
     \<lparr>ts_stacks = no_scopes, ts_store = (\<lambda>_. \<lparr>st_cells = [], st_finished = []\<rparr>), ts_world = w,
      ts_panicked = False\<rparr>"

section \<open>Lexical semantics\<close>

text \<open>What of the state a program can observe: the current span of each pipeline, the finished spans
  and the world.\<close>

record ('sp, 'w) lex_state =
  lx_current :: "pipeline \<Rightarrow> 'sp option"
  lx_finished :: "pipeline \<Rightarrow> finished_span list"
  lx_world :: 'w

text \<open>The reference span of a link, the new root and the world.\<close>

definition linked_spans ::
  "('sp, 'w) rustracing \<Rightarrow> string \<Rightarrow> 'sp \<Rightarrow> 'sp \<Rightarrow> 'w \<Rightarrow> 'sp \<times> 'sp \<times> 'w" where
  "linked_spans rt name cur new_root w =
     (case create_fork_ref_span rt name cur w of (ref_span, w) \<Rightarrow>
        let ref_span = (case span_trace_id rt new_root of
                None \<Rightarrow> ref_span
              | Some trace_id \<Rightarrow>
                  set_tag rt ''trace_id'' trace_id (set_tag rt ''note'' fork_note ref_span));
            new_root = (case span_trace_id rt cur of
                None \<Rightarrow> new_root | Some trace_id \<Rightarrow> set_tag rt ''trace_id'' trace_id new_root);
            new_root = (case span_context_state rt ref_span of
                None \<Rightarrow> new_root
              | Some state \<Rightarrow> set_tag rt ''fork_of_span_id''
                  (pad_left 32 (CHR '' '') (show_hex (unat (ss_span_id state)))) new_root)
        in (ref_span, new_root, w))"

definition lex_finish ::
  "('sp, 'w) rustracing \<Rightarrow> pipeline \<Rightarrow> 'sp \<Rightarrow> ('sp, 'w) lex_state \<Rightarrow> ('sp, 'w) lex_state" where
  "lex_finish rt p s e =
     (case rt_drop rt s (lx_world e) of (r, w) \<Rightarrow>
        e\<lparr>lx_finished := (lx_finished e)(p := lx_finished e p @ (case r of None \<Rightarrow> [] | Some f \<Rightarrow> [f])),
          lx_world := w\<rparr>)"

definition lex_start_trace ::
  "('sp, 'w) rustracing \<Rightarrow> string \<Rightarrow> start_trace_options \<Rightarrow> ('sp, 'w) lex_state \<Rightarrow>
   'sp \<times> ('sp, 'w) lex_state" where
  "lex_start_trace rt name options e =
     (case sampling_tags rt options (lx_world e) of (tags, w) \<Rightarrow>
      case rt_start rt \<lparr>so_name = name, so_child_of = sto_stitch_with_trace options,
          so_tags = tags, so_routing = None\<rparr> w of (new_root, w) \<Rightarrow>
      (case lx_current e System of
         Some cur \<Rightarrow>
           if is_sampled rt cur
           then (case linked_spans rt name cur new_root w of (ref_span, new_root, w) \<Rightarrow>
             (new_root, lex_finish rt System ref_span (e\<lparr>lx_world := w\<rparr>)))
           else (new_root, e\<lparr>lx_world := w\<rparr>)
       | None \<Rightarrow> (new_root, e\<lparr>lx_world := w\<rparr>)))"

text \<open>A child of the current span of a pipeline; \<^term>\<open>orphan\<close> says what to do without one.\<close>

definition lex_child ::
  "('sp, 'w) rustracing \<Rightarrow> pipeline \<Rightarrow> string \<Rightarrow>
   (('sp, 'w) lex_state \<Rightarrow> 'sp \<times> ('sp, 'w) lex_state) \<Rightarrow> ('sp, 'w) lex_state \<Rightarrow>
   'sp \<times> ('sp, 'w) lex_state" where
  "lex_child rt p name orphan e =
     (case lx_current e p of
        None \<Rightarrow> orphan e
      | Some cur \<Rightarrow> (case rt_child rt name cur (lx_world e) of (s, w) \<Rightarrow> (s, e\<lparr>lx_world := w\<rparr>)))"

text \<open>The span is current for the time of the body and finished at its end.\<close>

definition kept :: "('sp, 'w) rustracing \<Rightarrow> liveness_settings \<Rightarrow> pipeline \<Rightarrow> 'sp \<Rightarrow> 'sp" where
  "kept rt settings p s =
     (if is_sampled rt s \<or> p = System \<and> lt_enabled settings \<and> lt_track_all_spans settings then s
      else rt_inactive rt)"

definition lex_enter ::
  "('sp, 'w) rustracing \<Rightarrow> liveness_settings \<Rightarrow> pipeline \<Rightarrow> 'sp \<times> ('sp, 'w) lex_state \<Rightarrow>
   ('sp, 'w) lex_state" where
  "lex_enter rt settings p se =
     (snd se)\<lparr>lx_current := (lx_current (snd se))(p := Some (kept rt settings p (fst se)))\<rparr>"

definition lex_leave ::
  "('sp, 'w) rustracing \<Rightarrow> pipeline \<Rightarrow> 'sp option \<Rightarrow> ('sp, 'w) lex_state \<Rightarrow> ('sp, 'w) lex_state" where
  "lex_leave rt p outer e =
     (case lx_current e p of
        None \<Rightarrow> e
      | Some s \<Rightarrow> (lex_finish rt p s e)\<lparr>lx_current := (lx_current e)(p := outer)\<rparr>)"

definition lex_orphan_span ::
  "('sp, 'w) rustracing \<Rightarrow> string \<Rightarrow> ('sp, 'w) lex_state \<Rightarrow> 'sp \<times> ('sp, 'w) lex_state" where
  "lex_orphan_span rt name = lex_start_trace rt name start_trace_options_default"

definition lex_span ::
  "('sp, 'w) rustracing \<Rightarrow> liveness_settings \<Rightarrow> string \<Rightarrow> (('sp, 'w) lex_state \<Rightarrow> ('sp, 'w) lex_state) \<Rightarrow>
   ('sp, 'w) lex_state \<Rightarrow> ('sp, 'w) lex_state" where
  "lex_span rt settings name body e =
     lex_leave rt System (lx_current e System)
       (body (lex_enter rt settings System (lex_child rt System name (lex_orphan_span rt name) e)))"

definition lex_dual_open ::
  "('sp, 'w) rustracing \<Rightarrow> liveness_settings \<Rightarrow> string \<Rightarrow> ('sp, 'w) lex_state \<Rightarrow> ('sp, 'w) lex_state" where
  "lex_dual_open rt settings name e =
     (let e' = lex_enter rt settings System (lex_child rt System name (lex_orphan_span rt name) e) in
      if lx_current e User = None then e'
      else lex_enter rt settings User (lex_child rt User name (Pair (rt_inactive rt)) e'))"

definition lex_dual ::
  "('sp, 'w) rustracing \<Rightarrow> liveness_settings \<Rightarrow> string \<Rightarrow> (('sp, 'w) lex_state \<Rightarrow> ('sp, 'w) lex_state) \<Rightarrow>
   ('sp, 'w) lex_state \<Rightarrow> ('sp, 'w) lex_state" where
  "lex_dual rt settings name body e =
     (let e' = lex_leave rt System (lx_current e System) (body (lex_dual_open rt settings name e)) in
      if lx_current e User = None then e' else lex_leave rt User (lx_current e User) e')"

definition lex_fork :: "('sp, 'w) rustracing \<Rightarrow> string \<Rightarrow> ('sp, 'w) lex_state \<Rightarrow> 'sp \<times> ('sp, 'w) lex_state" where
  "lex_fork rt name e =
     (if case_option False (is_sampled rt) (lx_current e System)
      then lex_start_trace rt name (start_trace_options_default\<lparr>sto_override_sampling_ratio := Some f64_one\<rparr>) e
      else (rt_inactive rt, e))"

lemma lex_body_cong [fundef_cong]:
  "\<lbrakk>e = e'; \<And>e. f e = g e\<rbrakk> \<Longrightarrow> lex_span rt settings name f e = lex_span rt settings name g e'"
  "\<lbrakk>e = e'; \<And>e. f e = g e\<rbrakk> \<Longrightarrow> lex_dual rt settings name f e = lex_dual rt settings name g e'"
  by (simp_all add: lex_span_def lex_dual_def Let_def)

function run_lex ::
  "('sp, 'w) rustracing \<Rightarrow> liveness_settings \<Rightarrow> scoped \<Rightarrow> ('sp, 'w) lex_state \<Rightarrow> ('sp, 'w) lex_state" where
  "run_lex rt settings (InSpan name body) e =
     lex_span rt settings name (\<lambda>e. fold (run_lex rt settings) body e) e"
| "run_lex rt settings (InUserSpan name body) e =
     lex_leave rt User (lx_current e User) (fold (run_lex rt settings) body
       (lex_enter rt settings User (lex_child rt User name (Pair (rt_inactive rt)) e)))"
| "run_lex rt settings (InDualSpan name body) e =
     lex_dual rt settings name (\<lambda>e. fold (run_lex rt settings) body e) e"
| "run_lex rt settings (InTrace name options body) e =
     lex_leave rt System (lx_current e System) (fold (run_lex rt settings) body
       (lex_enter rt settings System (lex_start_trace rt name options e)))"
| "run_lex rt settings (InUserTrace name routing inbound body) e =
     lex_leave rt User (lx_current e User) (fold (run_lex rt settings) body
       (lex_enter rt settings User
         (case start_user_trace rt name routing inbound (lx_world e) of (s, w) \<Rightarrow> (s, e\<lparr>lx_world := w\<rparr>))))"
| "run_lex rt settings (InFork name body) e =
     lex_leave rt System (lx_current e System) (fold (run_lex rt settings) body
       (lex_enter rt settings System (lex_fork rt name e)))"
| "run_lex rt settings (InFuture name polls) e =
     lex_span rt settings name (\<lambda>e. fold (run_lex rt settings) (concat polls) e) e"
| "run_lex rt settings (InDualFuture name polls) e =
     lex_dual rt settings name (\<lambda>e. fold (run_lex rt settings) (concat polls) e) e"
| "run_lex rt settings (WriteSpan p wr) e =
     (case lx_current e p of
        Some cur \<Rightarrow>
          if is_sampled rt cur then e\<lparr>lx_current := (lx_current e)(p \<mapsto> rt_write rt wr cur)\<rparr> else e
      | None \<Rightarrow> e)"
  by pat_completeness auto

termination
  by (relation "measure (\<lambda>(rt, settings, x, e). size x)")
    (auto simp: less_Suc_eq_le size_list_estimation' intro: size_nested_list)

end
