(* ===== verification/SpanReferences.thy ===== *)
theory SpanReferences
  imports SpanScopes
begin

text \<open>
  The references a program of scopes takes and drops, and what its blocks do to the stacks and the
  cells of the store: the relation between running a block and its lexical meaning, the creation of
  spans, and the blocks of one scope.
\<close>

section \<open>References\<close>

definition n_cells :: "pipeline \<Rightarrow> ('l, 't, 'sp, 'w) trace_state \<Rightarrow> nat" where
  "n_cells p st = length (st_cells (ts_store st p))"

definition cell_span :: "pipeline \<Rightarrow> nat \<Rightarrow> ('l, 't, 'sp, 'w) trace_state \<Rightarrow> 'sp" where
  "cell_span p i st = fst (st_cells (ts_store st p) ! i)"

definition cell_refs :: "pipeline \<Rightarrow> nat \<Rightarrow> ('l, 't, 'sp, 'w) trace_state \<Rightarrow> nat" where
  "cell_refs p i st = snd (st_cells (ts_store st p) ! i)"

abbreviation finished :: "pipeline \<Rightarrow> ('l, 't, 'sp, 'w) trace_state \<Rightarrow> finished_span list" where
  "finished p st \<equiv> st_finished (ts_store st p)"

text \<open>A change of the number of references of a handle's cell.\<close>

definition adjust ::
  "pipeline \<Rightarrow> shared_span \<Rightarrow> (nat \<Rightarrow> nat) \<Rightarrow> ('l, 't, 'sp, 'w) trace_state \<Rightarrow> ('l, 't, 'sp, 'w) trace_state" where
  "adjust p h f st =
     (case handle_cell h of
        None \<Rightarrow> st
      | Some i \<Rightarrow> set_cell p i (cell_span p i st, f (cell_refs p i st)) st)"

lemma set_cell_fields [simp]:
  "ts_stacks (set_cell p i c st) = ts_stacks st" "ts_world (set_cell p i c st) = ts_world st"
  "ts_panicked (set_cell p i c st) = ts_panicked st" "finished q (set_cell p i c st) = finished q st"
  "n_cells q (set_cell p i c st) = n_cells q st"
  "j < n_cells q st \<Longrightarrow> cell_span q j (set_cell p i c st) = (if q = p \<and> i = j then fst c else cell_span q j st)"
  "j < n_cells q st \<Longrightarrow> cell_refs q j (set_cell p i c st) = (if q = p \<and> i = j then snd c else cell_refs q j st)"
  by (auto simp: set_cell_def n_cells_def cell_span_def cell_refs_def nth_list_update)

lemma adjust_fields [simp]:
  "ts_stacks (adjust p h f st) = ts_stacks st" "ts_world (adjust p h f st) = ts_world st"
  "ts_panicked (adjust p h f st) = ts_panicked st" "finished q (adjust p h f st) = finished q st"
  "n_cells q (adjust p h f st) = n_cells q st"
  "j < n_cells q st \<Longrightarrow> cell_span q j (adjust p h f st) = cell_span q j st"
  "j < n_cells q st \<Longrightarrow> cell_refs q j (adjust p h f st) =
    (if q = p \<and> handle_cell h = Some j then f (cell_refs q j st) else cell_refs q j st)"
  by (auto simp: adjust_def split: option.split)

lemma finish_span_cells [simp]:
  "n_cells q (finish_span rt p s st) = n_cells q st"
  "cell_span q j (finish_span rt p s st) = cell_span q j st"
  "cell_refs q j (finish_span rt p s st) = cell_refs q j st"
  by (simp_all add: n_cells_def cell_span_def cell_refs_def)

lemma update_stacks [simp]:
  "n_cells q (st\<lparr>ts_stacks := ss\<rparr>) = n_cells q st"
  "cell_span q j (st\<lparr>ts_stacks := ss\<rparr>) = cell_span q j st"
  "cell_refs q j (st\<lparr>ts_stacks := ss\<rparr>) = cell_refs q j st"
  "n_cells q (st\<lparr>ts_world := w\<rparr>) = n_cells q st"
  "cell_span q j (st\<lparr>ts_world := w\<rparr>) = cell_span q j st"
  "cell_refs q j (st\<lparr>ts_world := w\<rparr>) = cell_refs q j st"
  by (simp_all add: n_cells_def cell_span_def cell_refs_def)

lemma with_read_cell: "with_read rt p h st = (case handle_cell h of None \<Rightarrow> rt_inactive rt | Some i \<Rightarrow> cell_span p i st)"
  by (simp add: with_read_def cell_span_def split: option.split)

lemma handle_clone_adjust: "handle_clone p h st = adjust p h Suc st"
  by (auto simp: handle_clone_def adjust_def cell_span_def cell_refs_def split: option.split prod.split)

lemma handle_drop_adjust:
  "(\<And>i. handle_cell h = Some i \<Longrightarrow> cell_refs p i st \<noteq> 1) \<Longrightarrow> handle_drop rt p h st = adjust p h (\<lambda>n. n - 1) st"
  by (auto simp: handle_drop_def adjust_def cell_span_def cell_refs_def Let_def split: option.split prod.split)

lemma handle_drop_last:
  assumes "rustracing_documented rt" "\<And>i. handle_cell h = Some i \<Longrightarrow> cell_refs p i st = 1"
  shows "handle_drop rt p h st = finish_span rt p (with_read rt p h st) (adjust p h (\<lambda>n. n - 1) st)"
  using assms rustracing_documentedD(1) [OF assms(1)]
  by (auto simp: handle_drop_def adjust_def with_read_cell cell_span_def cell_refs_def Let_def
      split: option.split prod.split)

section \<open>The stacks of a thread\<close>

lemma stack_of_map [simp]:
  "stack_of p (map_stack q f ss) = (if p = q then f (stack_of p ss) else stack_of p ss)"
  by (cases p; cases q) (simp_all add: stack_of_def map_stack_def)

lemma map_stack_map [simp]: "map_stack p f (map_stack p g ss) = map_stack p (\<lambda>s. f (g s)) ss"
  by (cases p) (simp_all add: map_stack_def)

lemma map_stack_order [simp]:
  "map_stack User f (map_stack System g ss) = map_stack System g (map_stack User f ss)"
  by (simp add: map_stack_def)

lemma map_stack_id [simp]: "map_stack p (\<lambda>s. s) ss = ss"
  by (cases p) (simp_all add: map_stack_def)

definition on_stack :: "pipeline \<Rightarrow> thread \<Rightarrow> shared_span \<Rightarrow> ('l, 't, 'sp, 'w) trace_state \<Rightarrow> bool" where
  "on_stack p th h st \<longleftrightarrow> h \<in> set (stack_of p (ts_stacks st) th)"

text \<open>A handle that is held: its cell exists, is referenced, and its flag is right.\<close>

definition handle_ok ::
  "('sp, 'w) rustracing \<Rightarrow> pipeline \<Rightarrow> shared_span \<Rightarrow> ('l, 't, 'sp, 'w) trace_state \<Rightarrow> bool" where
  "handle_ok rt p h st \<longleftrightarrow>
     (case handle_cell h of
        None \<Rightarrow> \<not> sh_is_sampled h
      | Some i \<Rightarrow> i < n_cells p st \<and> 0 < cell_refs p i st \<and>
          sh_is_sampled h = is_sampled rt (cell_span p i st))"

definition state_ok :: "('sp, 'w) rustracing \<Rightarrow> thread \<Rightarrow> ('l, 't, 'sp, 'w) trace_state \<Rightarrow> bool" where
  "state_ok rt th st \<longleftrightarrow>
     \<not> ts_panicked st \<and> (\<forall>p h. on_stack p th h st \<longrightarrow> handle_ok rt p h st)"

definition lex_of ::
  "('sp, 'w) rustracing \<Rightarrow> thread \<Rightarrow> ('l, 't, 'sp, 'w) trace_state \<Rightarrow> ('sp, 'w) lex_state" where
  "lex_of rt th st =
     \<lparr>lx_current = (\<lambda>p. map_option (\<lambda>h. with_read rt p h st) (current_handle p th st)),
      lx_finished = (\<lambda>p. finished p st), lx_world = ts_world st\<rparr>"

text \<open>The first cells of two states agree, but for the spans of some.\<close>

definition agree ::
  "('sp, 'w) rustracing \<Rightarrow> (pipeline \<Rightarrow> nat set) \<Rightarrow> (pipeline \<Rightarrow> nat) \<Rightarrow>
   ('l, 't, 'sp, 'w) trace_state \<Rightarrow> ('l, 't, 'sp, 'w) trace_state \<Rightarrow> bool" where
  "agree rt A N st st' \<longleftrightarrow>
     (\<forall>p. N p \<le> n_cells p st' \<and>
       (\<forall>i<N p. cell_refs p i st' = cell_refs p i st \<and>
          (i \<notin> A p \<longrightarrow> cell_span p i st' = cell_span p i st) \<and>
          is_sampled rt (cell_span p i st') = is_sampled rt (cell_span p i st)))"

definition top_cells :: "thread \<Rightarrow> ('l, 't, 'sp, 'w) trace_state \<Rightarrow> pipeline \<Rightarrow> nat set" where
  "top_cells th st p =
     (case current_handle p th st of None \<Rightarrow> {} | Some h \<Rightarrow> set_option (handle_cell h))"

text \<open>A block leaves the stacks as they are and changes no other cell of the thread than those of
  the current spans, and does what its lexical meaning does.\<close>

definition block_refines ::
  "('sp, 'w) rustracing \<Rightarrow> thread \<Rightarrow> (('l, 't, 'sp, 'w) trace_state \<Rightarrow> ('l, 't, 'sp, 'w) trace_state) \<Rightarrow>
   (('sp, 'w) lex_state \<Rightarrow> ('sp, 'w) lex_state) \<Rightarrow> bool" where
  "block_refines rt th run sem \<longleftrightarrow>
     (\<forall>st. state_ok rt th st \<longrightarrow>
        ts_stacks (run st) = ts_stacks st \<and> \<not> ts_panicked (run st) \<and>
        agree rt (top_cells th st) (\<lambda>p. n_cells p st) st (run st) \<and>
        lex_of rt th (run st) = sem (lex_of rt th st))"

lemma current_on_stack: "current_handle p th st = Some h \<Longrightarrow> on_stack p th h st"
  by (auto simp: current_handle_def scope_current_def on_stack_def split: if_splits)

lemma state_okD: "state_ok rt th st \<Longrightarrow> on_stack p th h st \<Longrightarrow> handle_ok rt p h st"
  by (simp add: state_ok_def)

lemma agree_mono:
  assumes "agree rt A N st st'" "\<And>p. N' p \<le> N p" "\<And>p i. i \<in> A p \<Longrightarrow> i < N' p \<Longrightarrow> i \<in> B p"
  shows "agree rt B N' st st'"
  using assms unfolding agree_def by (meson le_trans less_le_trans)

lemma agree_trans: "agree rt A N st st' \<Longrightarrow> agree rt A N st' st'' \<Longrightarrow> agree rt A N st st''"
  unfolding agree_def by metis

lemma agree_refl: "(\<And>p. N p \<le> n_cells p st) \<Longrightarrow> agree rt A N st st"
  by (simp add: agree_def)

lemma state_ok_agree:
  assumes "state_ok rt th st" "agree rt A (\<lambda>p. n_cells p st) st st'" "ts_stacks st' = ts_stacks st"
    "\<not> ts_panicked st'"
  shows "state_ok rt th st'"
  unfolding state_ok_def
proof (intro conjI allI impI)
  fix p h
  assume "on_stack p th h st'"
  then have "handle_ok rt p h st"
    using assms(1,3) by (simp add: state_ok_def on_stack_def)
  then show "handle_ok rt p h st'"
    using assms(2) by (auto simp: handle_ok_def agree_def split: option.splits dest: less_le_trans)
qed (use assms in simp)

lemma block_refines_id: "block_refines rt th (\<lambda>st. st) (\<lambda>e. e)"
  by (simp add: block_refines_def state_ok_def agree_refl)

lemma block_refines_comp:
  fixes run run' :: "('l, 't, 'sp, 'w) trace_state \<Rightarrow> ('l, 't, 'sp, 'w) trace_state"
  assumes "block_refines rt th run sem" "block_refines rt th run' sem'"
  shows "block_refines rt th (\<lambda>st. run' (run st)) (\<lambda>e. sem' (sem e))"
  unfolding block_refines_def
proof (intro allI impI)
  fix st :: "('l, 't, 'sp, 'w) trace_state"
  assume ok: "state_ok rt th st"
  from assms(1) ok have run: "ts_stacks (run st) = ts_stacks st" "\<not> ts_panicked (run st)"
    "agree rt (top_cells th st) (\<lambda>p. n_cells p st) st (run st)" "lex_of rt th (run st) = sem (lex_of rt th st)"
    unfolding block_refines_def by blast+
  with state_ok_agree [OF ok this(3,1,2)] assms(2) have run':
    "ts_stacks (run' (run st)) = ts_stacks st" "\<not> ts_panicked (run' (run st))"
    "agree rt (top_cells th (run st)) (\<lambda>p. n_cells p (run st)) (run st) (run' (run st))"
    "lex_of rt th (run' (run st)) = sem' (sem (lex_of rt th st))"
    unfolding block_refines_def by simp_all
  have "top_cells th (run st) = top_cells th st"
    using run(1) by (simp add: top_cells_def current_handle_def fun_eq_iff)
  then have "agree rt (top_cells th st) (\<lambda>p. n_cells p st) (run st) (run' (run st))"
    by (intro agree_mono [OF run'(3)]) (use run(3) in \<open>simp_all add: agree_def\<close>)
  with run(3) run' show "ts_stacks (run' (run st)) = ts_stacks st \<and> \<not> ts_panicked (run' (run st)) \<and>
      agree rt (top_cells th st) (\<lambda>p. n_cells p st) st (run' (run st)) \<and>
      lex_of rt th (run' (run st)) = sem' (sem (lex_of rt th st))"
    using agree_trans by blast
qed

lemma block_refines_fold:
  "(\<And>x. x \<in> set xs \<Longrightarrow> block_refines rt th (run x) (sem x)) \<Longrightarrow> block_refines rt th (fold run xs) (fold sem xs)"
proof (induction xs)
  case Nil
  then show ?case using block_refines_id by (simp add: id_def)
next
  case (Cons x xs)
  then have "block_refines rt th (run x) (sem x)" "block_refines rt th (fold run xs) (fold sem xs)"
    by simp_all
  from block_refines_comp [OF this] show ?case
    by (simp add: comp_def)
qed

section \<open>Opening and closing scopes\<close>

text \<open>From \<^term>\<open>st\<close> to the start of a body: new handles are current for some pipelines; on the
  others at most more references of the current one are held.\<close>

definition entered ::
  "('sp, 'w) rustracing \<Rightarrow> thread \<Rightarrow> (pipeline \<Rightarrow> shared_span option) \<Rightarrow>
   ('l, 't, 'sp, 'w) trace_state \<Rightarrow> ('l, 't, 'sp, 'w) trace_state \<Rightarrow> bool" where
  "entered rt th hs st st' \<longleftrightarrow>
     \<not> ts_panicked st' \<and>
     (\<forall>p. current_handle p th st' = (case hs p of None \<Rightarrow> current_handle p th st | Some h \<Rightarrow> Some h) \<and>
       (\<forall>h. on_stack p th h st' \<longrightarrow> on_stack p th h st \<or> hs p = Some h) \<and>
       n_cells p st \<le> n_cells p st' \<and>
       (\<forall>i<n_cells p st. cell_refs p i st \<le> cell_refs p i st' \<and> cell_span p i st' = cell_span p i st) \<and>
       (\<forall>h. hs p = Some h \<longrightarrow> handle_ok rt p h st' \<and>
         (\<forall>i. handle_cell h = Some i \<longrightarrow> n_cells p st \<le> i)))"

lemma enteredD:
  assumes "entered rt th hs st st'"
  shows "\<not> ts_panicked st'"
    and "current_handle p th st' = (case hs p of None \<Rightarrow> current_handle p th st | Some h \<Rightarrow> Some h)"
    and "on_stack p th h st' \<Longrightarrow> on_stack p th h st \<or> hs p = Some h"
    and "n_cells p st \<le> n_cells p st'"
    and "i < n_cells p st \<Longrightarrow> cell_refs p i st \<le> cell_refs p i st' \<and> cell_span p i st' = cell_span p i st"
    and "hs p = Some h \<Longrightarrow> handle_ok rt p h st'"
    and "hs p = Some h \<Longrightarrow> handle_cell h = Some i \<Longrightarrow> n_cells p st \<le> i"
  using assms unfolding entered_def by blast+

lemma entered_ok:
  assumes "state_ok rt th st" "entered rt th hs st st'"
  shows "state_ok rt th st'"
  unfolding state_ok_def
proof (intro conjI allI impI)
  fix p h
  assume "on_stack p th h st'"
  from enteredD(3) [OF assms(2) this] show "handle_ok rt p h st'"
  proof
    assume "on_stack p th h st"
    then have "handle_ok rt p h st"
      using assms(1) by (simp add: state_ok_def)
    then show ?thesis
      using enteredD(4,5) [OF assms(2), where p = p] by (fastforce simp: handle_ok_def split: option.splits)
  next
    assume "hs p = Some h"
    then show ?thesis by (rule enteredD(6) [OF assms(2)])
  qed
qed (use enteredD(1) [OF assms(2)] in simp)

lemma with_read_outer:
  assumes "state_ok rt th st" "current_handle p th st = Some h"
    and "\<And>i. i < n_cells p st \<Longrightarrow> handle_cell h = Some i \<Longrightarrow> cell_span p i st' = cell_span p i st"
  shows "with_read rt p h st' = with_read rt p h st"
proof -
  have "handle_ok rt p h st"
    using assms(1) current_on_stack [OF assms(2)] by (simp add: state_ok_def)
  then show ?thesis
    using assms(3) by (auto simp: handle_ok_def with_read_cell split: option.splits)
qed

text \<open>The spans a body sees: the new ones, and the current ones of the other pipelines.\<close>

definition in_scope ::
  "(pipeline \<Rightarrow> shared_span option) \<Rightarrow> thread \<Rightarrow> ('l, 't, 'sp, 'w) trace_state \<Rightarrow> pipeline \<Rightarrow> shared_span option" where
  "in_scope hs th st p = (case hs p of None \<Rightarrow> current_handle p th st | Some h \<Rightarrow> Some h)"

definition lex_at ::
  "('sp, 'w) rustracing \<Rightarrow> (pipeline \<Rightarrow> shared_span option) \<Rightarrow> ('l, 't, 'sp, 'w) trace_state \<Rightarrow> ('sp, 'w) lex_state" where
  "lex_at rt hs st =
     \<lparr>lx_current = (\<lambda>p. map_option (\<lambda>h. with_read rt p h st) (hs p)),
      lx_finished = (\<lambda>p. finished p st), lx_world = ts_world st\<rparr>"

definition cells_at :: "(pipeline \<Rightarrow> shared_span option) \<Rightarrow> pipeline \<Rightarrow> nat set" where
  "cells_at hs p = set_option (Option.bind (hs p) handle_cell)"

lemma lex_of_at: "(\<And>p. current_handle p th st = hs p) \<Longrightarrow> lex_of rt th st = lex_at rt hs st"
  by (simp add: lex_of_def lex_at_def)

lemma top_cells_at: "(\<And>p. current_handle p th st = hs p) \<Longrightarrow> top_cells th st = cells_at hs"
  by (auto simp: top_cells_def cells_at_def fun_eq_iff split: option.split)

text \<open>A body between opening and closing: the closing restores the stacks and the references of
  the old cells and changes no span.\<close>

lemma opened_block:
  assumes ok: "state_ok rt th st"
    and le: "\<And>p. n_cells p st \<le> n_cells p st2"
    and kept: "\<And>p i. i < n_cells p st \<Longrightarrow> cell_span p i st2 = cell_span p i st"
    and new: "\<And>p h i. hs p = Some h \<Longrightarrow> handle_cell h = Some i \<Longrightarrow> n_cells p st \<le> i"
    and body: "\<not> ts_panicked st3" "agree rt (cells_at (in_scope hs th st)) (\<lambda>p. n_cells p st2) st2 st3"
    and stacks: "ts_stacks st4 = ts_stacks st" and panicked: "ts_panicked st4 = ts_panicked st3"
    and cells: "\<And>p. n_cells p st4 = n_cells p st3"
    and refs: "\<And>p i. i < n_cells p st \<Longrightarrow> cell_refs p i st3 = cell_refs p i st2 \<Longrightarrow>
      cell_refs p i st4 = cell_refs p i st"
    and spans: "\<And>p i. i < n_cells p st4 \<Longrightarrow> cell_span p i st4 = cell_span p i st3"
  shows "ts_stacks st4 = ts_stacks st \<and> \<not> ts_panicked st4 \<and>
    agree rt (top_cells th st) (\<lambda>p. n_cells p st) st st4 \<and>
    lex_of rt th st4 = (lex_at rt (in_scope hs th st) st3)
      \<lparr>lx_current := (\<lambda>p. if hs p = None then lx_current (lex_at rt (in_scope hs th st) st3) p
         else lx_current (lex_of rt th st) p),
       lx_finished := (\<lambda>p. finished p st4), lx_world := ts_world st4\<rparr>"
proof -
  have le': "n_cells p st2 \<le> n_cells p st3" for p
    using body(2) by (simp add: agree_def)
  have old: "cell_refs p i st3 = cell_refs p i st2"
    "i \<notin> cells_at (in_scope hs th st) p \<Longrightarrow> cell_span p i st3 = cell_span p i st"
    "is_sampled rt (cell_span p i st3) = is_sampled rt (cell_span p i st)" if "i < n_cells p st" for p i
    using body(2) kept [OF that] le [of p] that by (simp_all add: agree_def)
  have top: "i \<in> cells_at (in_scope hs th st) p \<Longrightarrow> i \<in> top_cells th st p \<and> hs p = None"
    if "i < n_cells p st" for p i
    using new [of p _ i] that
    by (fastforce simp: top_cells_def cells_at_def in_scope_def split: option.splits)
  have old4: "cell_refs p i st4 = cell_refs p i st" "i \<notin> top_cells th st p \<or> hs p \<noteq> None \<Longrightarrow> cell_span p i st4 = cell_span p i st"
    "is_sampled rt (cell_span p i st4) = is_sampled rt (cell_span p i st)" if "i < n_cells p st" for p i
    using refs [OF that old(1) [OF that]] old(2,3) [OF that] top [OF that] spans [of i p] cells [of p] le [of p]
      le' [of p] that
    by (cases "i \<in> cells_at (in_scope hs th st) p"; auto)+
  have "agree rt (top_cells th st) (\<lambda>p. n_cells p st) st st4"
    using old4 cells le_trans [OF le le'] by (simp add: agree_def)
  moreover have "map_option (\<lambda>h. with_read rt p h st4) (current_handle p th st4) =
      (if hs p = None then lx_current (lex_at rt (in_scope hs th st) st3) p else lx_current (lex_of rt th st) p)" for p
  proof (cases "current_handle p th st")
    case None
    then show ?thesis
      using stacks by (simp add: lex_of_def lex_at_def in_scope_def current_handle_def)
  next
    case (Some h)
    then have h: "current_handle p th st4 = Some h"
      using stacks by (simp add: current_handle_def)
    show ?thesis
    proof (cases "hs p")
      case None
      have "handle_ok rt p h st"
        using ok current_on_stack [OF Some] by (simp add: state_ok_def)
      then have "with_read rt p h st4 = with_read rt p h st3"
        using spans [of _ p] cells [of p] le [of p] le' [of p]
        by (auto simp: handle_ok_def with_read_cell split: option.splits)
      then show ?thesis
        using h None Some by (simp add: lex_at_def in_scope_def)
    next
      case (Some g)
      then have "with_read rt p h st4 = with_read rt p h st"
        using old4(2) by (intro with_read_outer [OF ok \<open>current_handle p th st = Some h\<close>]) simp
      then show ?thesis
        using h \<open>current_handle p th st = Some h\<close> Some by (simp add: lex_of_def)
    qed
  qed
  ultimately show ?thesis
    using stacks panicked body(1) by (auto simp: lex_of_def lex_at_def fun_eq_iff)
qed

lemma scoped_block:
  assumes ok: "state_ok rt th st" and ent: "entered rt th hs st st2"
    and body: "block_refines rt th run sem"
    and stacks: "ts_stacks st4 = ts_stacks st" and panicked: "ts_panicked st4 = ts_panicked (run st2)"
    and cells: "\<And>p. n_cells p st4 = n_cells p (run st2)"
    and refs: "\<And>p i. i < n_cells p st \<Longrightarrow> cell_refs p i (run st2) = cell_refs p i st2 \<Longrightarrow>
      cell_refs p i st4 = cell_refs p i st"
    and spans: "\<And>p i. i < n_cells p st4 \<Longrightarrow> cell_span p i st4 = cell_span p i (run st2)"
  shows "ts_stacks st4 = ts_stacks st \<and> \<not> ts_panicked st4 \<and>
    agree rt (top_cells th st) (\<lambda>p. n_cells p st) st st4 \<and>
    lex_of rt th st4 = (sem (lex_of rt th st2))
      \<lparr>lx_current := (\<lambda>p. if hs p = None then lx_current (sem (lex_of rt th st2)) p
         else lx_current (lex_of rt th st) p),
       lx_finished := (\<lambda>p. finished p st4), lx_world := ts_world st4\<rparr>"
proof -
  let ?st3 = "run st2"
  have st3: "ts_stacks ?st3 = ts_stacks st2" "\<not> ts_panicked ?st3"
    "agree rt (top_cells th st2) (\<lambda>p. n_cells p st2) st2 ?st3" "lex_of rt th ?st3 = sem (lex_of rt th st2)"
    using body entered_ok [OF ok ent] unfolding block_refines_def by simp_all
  have cur: "current_handle p th st2 = in_scope hs th st p" for p
    by (simp add: in_scope_def enteredD(2) [OF ent])
  then have "current_handle p th ?st3 = in_scope hs th st p" for p
    using st3(1) by (simp add: current_handle_def)
  from lex_of_at [OF this] have lex3: "sem (lex_of rt th st2) = lex_at rt (in_scope hs th st) ?st3"
    using st3(4) by simp
  have agree3: "agree rt (cells_at (in_scope hs th st)) (\<lambda>p. n_cells p st2) st2 ?st3"
    using st3(3) by (simp add: top_cells_at [OF cur])
  have spans2: "cell_span p i st2 = cell_span p i st" if "i < n_cells p st" for p i
    using enteredD(5) [OF ent that] by simp
  show ?thesis
    unfolding lex3
    by (rule opened_block [OF ok enteredD(4) [OF ent] spans2 enteredD(7) [OF ent] st3(2) agree3
          stacks panicked cells refs spans])
qed

text \<open>The end of a span, seen from the handle of its last two references: the one of the scope and
  the one of the stack.\<close>

lemma current_update_stacks [simp]:
  "current_handle p th (st\<lparr>ts_stacks := ss\<rparr>) = scope_current th (stack_of p ss)"
  by (simp add: current_handle_def)

lemma with_read_adjust [simp]:
  assumes "\<And>i. handle_cell h = Some i \<Longrightarrow> i < n_cells p st"
  shows "with_read rt p h (adjust q g f st) = with_read rt p h st"
  using assms by (auto simp: with_read_cell split: option.split)

lemma with_read_update [simp]:
  "with_read rt p h (st\<lparr>ts_stacks := ss\<rparr>) = with_read rt p h st"
  "with_read rt p h (finish_span rt q s st) = with_read rt p h st"
  by (auto simp: with_read_cell split: option.split)

lemma adjust_stacks: "adjust p h f (st\<lparr>ts_stacks := ss\<rparr>) = (adjust p h f st)\<lparr>ts_stacks := ss\<rparr>"
  by (auto simp: adjust_def set_cell_def split: option.split)

lemma finish_span_stacks: "finish_span rt p s (st\<lparr>ts_stacks := ss\<rparr>) = (finish_span rt p s st)\<lparr>ts_stacks := ss\<rparr>"
  by (auto simp: finish_span_def split: prod.split)

lemma span_scope_drop_last:
  assumes "rustracing_documented rt" "current_handle p th st = Some h"
    and "\<And>i. handle_cell h = Some i \<Longrightarrow> i < n_cells p st \<and> cell_refs p i st = 2"
  shows "span_scope_drop rt p th h st =
    (finish_span rt p (with_read rt p h st) (adjust p h (\<lambda>n. n - 1) (adjust p h (\<lambda>n. n - 1) st)))
      \<lparr>ts_stacks := map_stack p (scope_drop th) (ts_stacks st)\<rparr>"
proof -
  have drop: "handle_drop rt p h st = adjust p h (\<lambda>n. n - 1) st"
    using assms(3) by (intro handle_drop_adjust) fastforce
  have "current_handle p th (adjust p h (\<lambda>n. n - 1) st) = Some h"
    using assms(2) by (simp add: current_handle_def)
  then show ?thesis
    unfolding span_scope_drop_def drop scope_pop_def Let_def
    using assms(3) by (simp add: handle_drop_last [OF assms(1)] adjust_stacks finish_span_stacks)
qed

lemma span_scope_drop_alias:
  assumes "current_handle p th st = Some h"
    and "\<And>i. handle_cell h = Some i \<Longrightarrow> i < n_cells p st \<and> 2 < cell_refs p i st"
  shows "span_scope_drop rt p th h st =
    (adjust p h (\<lambda>n. n - 1) (adjust p h (\<lambda>n. n - 1) st))
      \<lparr>ts_stacks := map_stack p (scope_drop th) (ts_stacks st)\<rparr>"
proof -
  have drop: "handle_drop rt p h st = adjust p h (\<lambda>n. n - 1) st"
    using assms(2) by (intro handle_drop_adjust) fastforce
  have "current_handle p th (adjust p h (\<lambda>n. n - 1) st) = Some h"
    using assms(1) by (simp add: current_handle_def)
  moreover have "handle_drop rt p h ((adjust p h (\<lambda>n. n - 1) st)\<lparr>ts_stacks := ss\<rparr>) =
      adjust p h (\<lambda>n. n - 1) ((adjust p h (\<lambda>n. n - 1) st)\<lparr>ts_stacks := ss\<rparr>)" for ss
    using assms(2) by (intro handle_drop_adjust) fastforce
  ultimately show ?thesis
    unfolding span_scope_drop_def drop scope_pop_def Let_def by (simp add: adjust_stacks)
qed

lemma lex_finish_of:
  "lx_finished (lex_finish rt p s (lex_of rt th st)) = (\<lambda>q. finished q (finish_span rt p s st))"
  "lx_world (lex_finish rt p s (lex_of rt th st)) = ts_world (finish_span rt p s st)"
  by (auto simp: lex_finish_def lex_of_def fun_eq_iff split: prod.split option.split)

lemma kept_read:
  assumes "rustracing_documented rt" "shared_span rt settings p s st = (h, st')"
  shows "with_read rt p h st' = kept rt settings p s"
proof -
  have "handle_cell h = None \<longleftrightarrow>
      \<not> (is_sampled rt s \<or> p = System \<and> lt_enabled settings \<and> lt_track_all_spans settings)"
    using assms(2) by (auto simp: shared_span_def Let_def handle_cell_def shared_span_new_def
        user_shared_span_new_def active_roots_track_def split: pipeline.splits if_splits)
  then show ?thesis
    using shared_span_result(6,8) [OF assms]
    by (auto simp: kept_def with_read_cell cell_span_def nth_append split: option.split)
qed

section \<open>Blocks\<close>

text \<open>A span is created: only the finished spans and the world change, as in the lexical
  semantics.\<close>

definition creates ::
  "('sp, 'w) rustracing \<Rightarrow> thread \<Rightarrow>
   (('l, 't, 'sp, 'w) trace_state \<Rightarrow> 'sp \<times> ('l, 't, 'sp, 'w) trace_state) \<Rightarrow>
   (('sp, 'w) lex_state \<Rightarrow> 'sp \<times> ('sp, 'w) lex_state) \<Rightarrow> bool" where
  "creates rt th create sem \<longleftrightarrow>
     (\<forall>st. state_ok rt th st \<longrightarrow>
        ts_stacks (snd (create st)) = ts_stacks st \<and> ts_panicked (snd (create st)) = ts_panicked st \<and>
        (\<forall>q. st_cells (ts_store (snd (create st)) q) = st_cells (ts_store st q)) \<and>
        fst (create st) = fst (sem (lex_of rt th st)) \<and>
        lex_of rt th (snd (create st)) = snd (sem (lex_of rt th st)))"

lemma same_cells:
  assumes "\<And>q. st_cells (ts_store st' q) = st_cells (ts_store st q)"
  shows "n_cells p st' = n_cells p st" "cell_span p i st' = cell_span p i st"
    "cell_refs p i st' = cell_refs p i st"
  using assms by (simp_all add: n_cells_def cell_span_def cell_refs_def)

lemma same_cells_ok:
  assumes "\<And>q. st_cells (ts_store st' q) = st_cells (ts_store st q)" "ts_stacks st' = ts_stacks st"
    "ts_panicked st' = ts_panicked st"
  shows "state_ok rt th st' = state_ok rt th st" "top_cells th st' = top_cells th st"
    "lx_current (lex_of rt th st') = lx_current (lex_of rt th st)"
  using same_cells [OF assms(1)] assms(2,3)
  by (simp_all add: state_ok_def handle_ok_def on_stack_def top_cells_def current_handle_def lex_of_def
      with_read_cell fun_eq_iff cong: option.case_cong)

text \<open>The cell \<open>shared_span\<close> makes.\<close>

lemma shared_cells:
  assumes "rustracing_documented rt" "shared_span rt settings p s st = (h, st1)"
  shows "ts_stacks st1 = ts_stacks st" "ts_panicked st1 = ts_panicked st" "ts_world st1 = ts_world st"
    "\<And>q. finished q st1 = finished q st"
    "\<And>q. n_cells q st1 = n_cells q st + (if q = p \<and> handle_cell h \<noteq> None then 1 else 0)"
    "\<And>q i. i < n_cells q st \<Longrightarrow> cell_span q i st1 = cell_span q i st \<and> cell_refs q i st1 = cell_refs q i st"
    "\<And>i. handle_cell h = Some i \<Longrightarrow> cell_span p i st1 = s \<and> cell_refs p i st1 = 1 \<and> i = n_cells p st"
    "handle_cell h = None \<Longrightarrow> \<not> sh_is_sampled h" "sh_is_sampled h = is_sampled rt s"
proof -
  note sh = shared_span_result [OF assms]
  show "ts_stacks st1 = ts_stacks st" "ts_panicked st1 = ts_panicked st" "ts_world st1 = ts_world st"
    "\<And>q. finished q st1 = finished q st" "sh_is_sampled h = is_sampled rt s"
    "handle_cell h = None \<Longrightarrow> \<not> sh_is_sampled h"
    using sh by simp_all
  show "n_cells q st1 = n_cells q st + (if q = p \<and> handle_cell h \<noteq> None then 1 else 0)" for q
    using sh(6) [of q] by (simp add: n_cells_def)
  show "cell_span q i st1 = cell_span q i st \<and> cell_refs q i st1 = cell_refs q i st" if "i < n_cells q st" for q i
    using sh(6) [of q] that by (simp add: cell_span_def cell_refs_def n_cells_def nth_append)
  show "cell_span p i st1 = s \<and> cell_refs p i st1 = 1 \<and> i = n_cells p st" if "handle_cell h = Some i" for i
    using sh(6) [of p] sh(8) [OF that] that
    by (simp add: cell_span_def cell_refs_def n_cells_def nth_append)
qed

lemma scope_entered:
  assumes doc: "rustracing_documented rt" and ok: "state_ok rt th st"
    and sh: "shared_span rt settings p s st = (h, st1)"
  shows "entered rt th (\<lambda>q. if q = p then Some h else None) st (span_scope_new p th h st1)"
    and "ts_stacks (span_scope_new p th h st1) = map_stack p (scope_new th h) (ts_stacks st)"
    and "\<And>i. handle_cell h = Some i \<Longrightarrow> i < n_cells p (span_scope_new p th h st1) \<and>
      cell_refs p i (span_scope_new p th h st1) = 2"
    and "\<And>q i. i < n_cells q st \<Longrightarrow> cell_refs q i (span_scope_new p th h st1) = cell_refs q i st"
    and "lex_of rt th (span_scope_new p th h st1) = lex_enter rt settings p (s, lex_of rt th st)"
proof -
  let ?st2 = "span_scope_new p th h st1"
  note sh1 = shared_cells [OF doc sh]
  have st2: "?st2 = (adjust p h Suc st1)\<lparr>ts_stacks := map_stack p (scope_new th h) (ts_stacks st)\<rparr>"
    by (simp add: span_scope_new_def Let_def handle_clone_adjust sh1(1))
  show stacks: "ts_stacks ?st2 = map_stack p (scope_new th h) (ts_stacks st)"
    by (simp add: st2)
  note n1 = sh1(5) and old = sh1(6) and new = sh1(7)
  have n: "n_cells q ?st2 = n_cells q st + (if q = p \<and> handle_cell h \<noteq> None then 1 else 0)" for q
    by (simp add: st2 n1)
  show two: "i < n_cells p ?st2 \<and> cell_refs p i ?st2 = 2" if "handle_cell h = Some i" for i
    using new [OF that] n1 [of p] that by (auto simp: st2)
  show refs: "cell_refs q i ?st2 = cell_refs q i st" if "i < n_cells q st" for q i
    using old [OF that] new n1 [of q] that by (auto simp: st2)
  have spans: "cell_span q i ?st2 = cell_span q i st" if "i < n_cells q st" for q i
    using old [OF that] n1 [of q] that by (simp add: st2)
  have handle: "handle_ok rt p h ?st2"
    using two new n1 [of p] sh1(8,9) by (auto simp: handle_ok_def st2 split: option.split)
  have cur: "current_handle q th ?st2 = (if q = p then Some h else current_handle q th st)" for q
    using stacks by (simp add: current_handle_def)
  show "entered rt th (\<lambda>q. if q = p then Some h else None) st ?st2"
    unfolding entered_def
    using cur n refs spans handle new stacks ok
    by (auto simp: on_stack_def scope_new_def st2 sh1(2) state_ok_def)
  have read: "with_read rt q g ?st2 = with_read rt q g st" if "current_handle q th st = Some g" for q g
    using spans by (intro with_read_outer [OF ok that]) auto
  have "with_read rt p h ?st2 = with_read rt p h st1"
    using new n1 [of p] unfolding st2 by (subst with_read_update(1), intro with_read_adjust) auto
  then have "map_option (\<lambda>h. with_read rt q h ?st2) (current_handle q th ?st2) =
      ((lx_current (lex_of rt th st))(p \<mapsto> kept rt settings p s)) q" for q
    using cur [of q] read [of q] kept_read [OF doc sh]
    by (cases "current_handle q th st") (auto simp: lex_of_def)
  then show "lex_of rt th ?st2 = lex_enter rt settings p (s, lex_of rt th st)"
    using sh1(3,4) by (simp add: lex_of_def lex_enter_def st2 fun_eq_iff)
qed

lemma entered_same_cells:
  assumes "entered rt th hs st0 st'"
    and "\<And>q. st_cells (ts_store st0 q) = st_cells (ts_store st q)" "ts_stacks st0 = ts_stacks st"
  shows "entered rt th hs st st'"
proof -
  have cur: "current_handle p th st0 = current_handle p th st" for p
    by (simp add: current_handle_def assms(3))
  show ?thesis
    using assms(1) unfolding entered_def cur same_cells [OF assms(2)] on_stack_def assms(3) .
qed

text \<open>A span created and put in scope.\<close>

lemma span_opened:
  assumes doc: "rustracing_documented rt" and create: "creates rt th create csem" and ok: "state_ok rt th st"
    and eqs: "create st = (s, st0)" "shared_span rt settings p s st0 = (h, st1)"
  shows "entered rt th (\<lambda>q. if q = p then Some h else None) st (span_scope_new p th h st1)"
    and "ts_stacks (span_scope_new p th h st1) = map_stack p (scope_new th h) (ts_stacks st)"
    and "\<And>i. handle_cell h = Some i \<Longrightarrow> i < n_cells p (span_scope_new p th h st1) \<and>
      cell_refs p i (span_scope_new p th h st1) = 2"
    and "\<And>q i. i < n_cells q st \<Longrightarrow> cell_refs q i (span_scope_new p th h st1) = cell_refs q i st"
    and "lex_of rt th (span_scope_new p th h st1) = lex_enter rt settings p (csem (lex_of rt th st))"
proof -
  have st0: "ts_stacks st0 = ts_stacks st" "ts_panicked st0 = ts_panicked st"
    "\<And>q. st_cells (ts_store st0 q) = st_cells (ts_store st q)"
    and e0: "csem (lex_of rt th st) = (s, lex_of rt th st0)"
    using create ok eqs(1) by (auto simp: creates_def prod_eq_iff)
  have ok0: "state_ok rt th st0"
    using ok same_cells_ok(1) [OF st0(3,1,2)] by simp
  note opened = scope_entered [OF doc ok0 eqs(2)]
  show "entered rt th (\<lambda>q. if q = p then Some h else None) st (span_scope_new p th h st1)"
    by (rule entered_same_cells [OF opened(1) st0(3,1)])
  show "ts_stacks (span_scope_new p th h st1) = map_stack p (scope_new th h) (ts_stacks st)"
    by (simp add: opened(2) st0(1))
  show "\<And>i. handle_cell h = Some i \<Longrightarrow> i < n_cells p (span_scope_new p th h st1) \<and>
      cell_refs p i (span_scope_new p th h st1) = 2"
    by (rule opened(3))
  show "\<And>q i. i < n_cells q st \<Longrightarrow> cell_refs q i (span_scope_new p th h st1) = cell_refs q i st"
    using opened(4) same_cells [OF st0(3)] by simp
  show "lex_of rt th (span_scope_new p th h st1) = lex_enter rt settings p (csem (lex_of rt th st))"
    by (simp add: opened(5) e0)
qed

lemma refs_kept:
  assumes "block_refines rt th run sem" "state_ok rt th st"
  shows "ts_stacks (run st) = ts_stacks st" "n_cells p st \<le> n_cells p (run st)"
    "i < n_cells p st \<Longrightarrow> cell_refs p i (run st) = cell_refs p i st"
    "lex_of rt th (run st) = sem (lex_of rt th st)"
  using assms by (simp_all add: block_refines_def agree_def)

lemma lex_leave_of:
  assumes "current_handle p th st = Some h"
  shows "lex_leave rt p outer (lex_of rt th st) =
    (lex_of rt th st)\<lparr>lx_current := (lx_current (lex_of rt th st))(p := outer),
      lx_finished := (\<lambda>q. finished q (finish_span rt p (with_read rt p h st) st)),
      lx_world := ts_world (finish_span rt p (with_read rt p h st) st)\<rparr>"
  using assms lex_finish_of [of rt p "with_read rt p h st" th st]
  by (intro lex_state.equality) (simp_all add: lex_leave_def lex_of_def)

lemma scope_block:
  fixes run :: "('l, 't, 'sp, 'w) trace_state \<Rightarrow> ('l, 't, 'sp, 'w) trace_state"
  assumes doc: "rustracing_documented rt" and create: "creates rt th create csem"
    and body: "block_refines rt th run sem"
  shows "block_refines rt th
    (\<lambda>st. case create st of (s, st) \<Rightarrow> case shared_span rt settings p s st of (h, st) \<Rightarrow>
       span_scope_drop rt p th h (run (span_scope_new p th h st)))
    (\<lambda>e. lex_leave rt p (lx_current e p) (sem (lex_enter rt settings p (csem e))))"
    (is "block_refines rt th ?run ?sem")
  unfolding block_refines_def
proof (intro allI impI)
  fix st :: "('l, 't, 'sp, 'w) trace_state"
  assume ok: "state_ok rt th st"
  obtain s st0 where cr: "create st = (s, st0)"
    by fastforce
  obtain h st1 where sh: "shared_span rt settings p s st0 = (h, st1)"
    by fastforce
  let ?st2 = "span_scope_new p th h st1"
  let ?st3 = "run ?st2"
  let ?st4 = "span_scope_drop rt p th h ?st3"
  note opened = span_opened [OF doc create ok cr sh]
  note st3 = refs_kept [OF body entered_ok [OF ok opened(1)]]
  have cur: "current_handle p th ?st3 = Some h"
    using st3(1) opened(2) by (simp add: current_handle_def)
  have two: "i < n_cells p ?st3 \<and> cell_refs p i ?st3 = 2" if "handle_cell h = Some i" for i
    using opened(3) [OF that] st3(3) [of i p] st3(2) [of p] by simp
  have st4: "?st4 = (finish_span rt p (with_read rt p h ?st3)
      (adjust p h (\<lambda>n. n - 1) (adjust p h (\<lambda>n. n - 1) ?st3)))
      \<lparr>ts_stacks := map_stack p (scope_drop th) (ts_stacks ?st3)\<rparr>"
    using span_scope_drop_last [OF doc cur] two by blast
  have c1: "ts_stacks ?st4 = ts_stacks st"
    unfolding st4 by (simp add: st3(1) opened(2))
  have c2: "ts_panicked ?st4 = ts_panicked ?st3" and c3: "n_cells q ?st4 = n_cells q ?st3" for q
    unfolding st4 by simp_all
  have c4: "cell_refs q i ?st4 = cell_refs q i st"
    if "i < n_cells q st" "cell_refs q i ?st3 = cell_refs q i ?st2" for q i
    using that enteredD(7) [OF opened(1), of p h i] opened(4) [OF that(1)] st3(2) [of q]
      enteredD(4) [OF opened(1), of q]
    unfolding st4 by auto
  have c5: "cell_span q i ?st4 = cell_span q i ?st3" if "i < n_cells q ?st4" for q i
    using that unfolding st4 by simp
  note res = scoped_block [OF ok opened(1) body c1 c2 c3 c4 c5]
  have "lex_leave rt p (lx_current (lex_of rt th st) p) (sem (lex_enter rt settings p (csem (lex_of rt th st)))) =
      lex_of rt th ?st4"
    using res lex_leave_of [OF cur, of rt "lx_current (lex_of rt th st) p"] st3(4)
    by (intro lex_state.equality) (simp_all add: opened(5) fun_eq_iff, simp_all add: st4)
  moreover have "?run st = ?st4"
    by (simp add: cr sh)
  ultimately show "ts_stacks (?run st) = ts_stacks st \<and> \<not> ts_panicked (?run st) \<and>
      agree rt (top_cells th st) (\<lambda>p. n_cells p st) st (?run st) \<and>
      lex_of rt th (?run st) = ?sem (lex_of rt th st)"
    using res by simp
qed

section \<open>Creating spans\<close>

lemma current_lex:
  assumes "rustracing_documented rt" "state_ok rt th st"
  shows "lx_current (lex_of rt th st) p = map_option (\<lambda>h. with_read rt p h st) (current_handle p th st)"
    and "current_handle p th st = Some h \<Longrightarrow> sh_is_sampled h = is_sampled rt (with_read rt p h st)"
proof -
  show "lx_current (lex_of rt th st) p = map_option (\<lambda>h. with_read rt p h st) (current_handle p th st)"
    by (simp add: lex_of_def)
  assume h: "current_handle p th st = Some h"
  then have "handle_ok rt p h st"
    using assms(2) current_on_stack [OF h] by (simp add: state_ok_def)
  then show "sh_is_sampled h = is_sampled rt (with_read rt p h st)"
    using rustracing_documentedD(1) [OF assms(1)]
    by (auto simp: handle_ok_def with_read_cell is_sampled_def split: option.splits)
qed

lemma lex_of_world [simp]: "lx_world (lex_of rt th st) = ts_world st"
  by (simp add: lex_of_def)

lemma lex_of_updates [simp]:
  "lex_of rt th (st\<lparr>ts_world := w\<rparr>) = (lex_of rt th st)\<lparr>lx_world := w\<rparr>"
  "lex_of rt th (finish_span rt p s st) = lex_finish rt p s (lex_of rt th st)"
proof -
  show "lex_of rt th (st\<lparr>ts_world := w\<rparr>) = (lex_of rt th st)\<lparr>lx_world := w\<rparr>"
    by (simp add: lex_of_def)
  have "current_handle q th (finish_span rt p s st) = current_handle q th st" for q
    by (simp add: current_handle_def)
  then have "lx_current (lex_of rt th (finish_span rt p s st)) = lx_current (lex_of rt th st)"
    by (simp add: lex_of_def)
  moreover have "lx_current (lex_finish rt p s e) = lx_current e" for e
    by (simp add: lex_finish_def split: prod.split)
  ultimately show "lex_of rt th (finish_span rt p s st) = lex_finish rt p s (lex_of rt th st)"
    using lex_finish_of [of rt p s th st] by (intro lex_state.equality) (simp_all add: lex_of_def)
qed

lemma link_linked_spans:
  "link_new_trace_with_current rt cur name new_root st =
     (case linked_spans rt name (with_read rt System cur st) new_root (ts_world st) of
        (ref_span, new_root, w) \<Rightarrow> (new_root, finish_span rt System ref_span (st\<lparr>ts_world := w\<rparr>)))"
  by (simp add: link_new_trace_with_current_def linked_spans_def Let_def split: prod.split)

lemma creates_start_trace:
  fixes rt :: "('sp, 'w) rustracing"
  assumes "rustracing_documented rt"
  shows "creates rt th (start_trace rt th name options) (lex_start_trace rt name options)"
  unfolding creates_def
proof (intro allI impI)
  fix st :: "('l, 't, 'sp, 'w) trace_state"
  assume "state_ok rt th st"
  note cur = current_lex [OF assms this, of System]
  show "ts_stacks (snd (start_trace rt th name options st)) = ts_stacks st \<and>
      ts_panicked (snd (start_trace rt th name options st)) = ts_panicked st \<and>
      (\<forall>q. st_cells (ts_store (snd (start_trace rt th name options st)) q) = st_cells (ts_store st q)) \<and>
      fst (start_trace rt th name options st) = fst (lex_start_trace rt name options (lex_of rt th st)) \<and>
      lex_of rt th (snd (start_trace rt th name options st)) =
        snd (lex_start_trace rt name options (lex_of rt th st))"
    unfolding start_trace_def lex_start_trace_def Let_def
    by (cases "current_handle System th st")
      (simp_all add: cur link_linked_spans split: prod.split)
qed

lemma creates_child:
  fixes rt :: "('sp, 'w) rustracing"
    and orphan :: "('l, 't, 'sp, 'w) trace_state \<Rightarrow> 'sp \<times> ('l, 't, 'sp, 'w) trace_state"
  assumes "rustracing_documented rt" "creates rt th orphan sem"
  shows "creates rt th
    (\<lambda>st. case current_handle p th st of
       Some parent \<Rightarrow> (case rt_child rt name (with_read rt p parent st) (ts_world st) of (s, w) \<Rightarrow>
         (s, st\<lparr>ts_world := w\<rparr>))
     | None \<Rightarrow> orphan st) (lex_child rt p name sem)"
  unfolding creates_def
proof (intro allI impI)
  fix st :: "('l, 't, 'sp, 'w) trace_state"
  assume ok: "state_ok rt th st"
  note cur = current_lex [OF assms(1) ok, of p]
  let ?create = "\<lambda>st. case current_handle p th st of
       Some parent \<Rightarrow> (case rt_child rt name (with_read rt p parent st) (ts_world st) of (s, w) \<Rightarrow>
         (s, st\<lparr>ts_world := w\<rparr>))
     | None \<Rightarrow> orphan st"
  show "ts_stacks (snd (?create st)) = ts_stacks st \<and> ts_panicked (snd (?create st)) = ts_panicked st \<and>
      (\<forall>q. st_cells (ts_store (snd (?create st)) q) = st_cells (ts_store st q)) \<and>
      fst (?create st) = fst (lex_child rt p name sem (lex_of rt th st)) \<and>
      lex_of rt th (snd (?create st)) = snd (lex_child rt p name sem (lex_of rt th st))"
    using assms(2) ok
    by (cases "current_handle p th st")
      (simp_all add: cur creates_def lex_child_def split: prod.split)
qed

lemma creates_inactive: "creates rt th (Pair (rt_inactive rt)) (Pair (rt_inactive rt))"
  by (simp add: creates_def)

lemma creates_user_trace:
  fixes rt :: "('sp, 'w) rustracing"
  shows "creates rt th
     (\<lambda>st. case start_user_trace rt name routing inbound (ts_world st) of (s, w) \<Rightarrow> (s, st\<lparr>ts_world := w\<rparr>))
     (\<lambda>e. case start_user_trace rt name routing inbound (lx_world e) of (s, w) \<Rightarrow> (s, e\<lparr>lx_world := w\<rparr>))"
  by (simp add: creates_def split: prod.split)

text \<open>The blocks that open one scope, each in the form of \<open>scope_block\<close>.\<close>

abbreviation create_child where
  "create_child rt p th name orphan st \<equiv>
     (case current_handle p th st of
        Some parent \<Rightarrow> (case rt_child rt name (with_read rt p parent st) (ts_world st) of (s, w) \<Rightarrow>
          (s, st\<lparr>ts_world := w\<rparr>))
      | None \<Rightarrow> orphan st)"

abbreviation create_or_start where
  "create_or_start rt th name \<equiv>
     create_child rt System th name (start_trace rt th name start_trace_options_default)"

lemma run_in_span:
  "run_scoped rt settings root_log th (InSpan name body) st =
     (case create_or_start rt th name st of (s, st) \<Rightarrow>
      case shared_span rt settings System s st of (h, st) \<Rightarrow>
        span_scope_drop rt System th h
          (fold (run_scoped rt settings root_log th) body (span_scope_new System th h st)))"
  "run_scoped rt settings root_log th (InUserSpan name body) st =
     (case create_child rt User th name (Pair (rt_inactive rt)) st of (s, st) \<Rightarrow>
      case shared_span rt settings User s st of (h, st) \<Rightarrow>
        span_scope_drop rt User th h
          (fold (run_scoped rt settings root_log th) body (span_scope_new User th h st)))"
  "run_scoped rt settings root_log th (InTrace name options body) st =
     (case start_trace rt th name options st of (s, st) \<Rightarrow>
      case shared_span rt settings System s st of (h, st) \<Rightarrow>
        span_scope_drop rt System th h
          (fold (run_scoped rt settings root_log th) body (span_scope_new System th h st)))"
  "run_scoped rt settings root_log th (InUserTrace name routing inbound body) st =
     (case (case start_user_trace rt name routing inbound (ts_world st) of (s, w) \<Rightarrow> (s, st\<lparr>ts_world := w\<rparr>))
        of (s, st) \<Rightarrow>
      case shared_span rt settings User s st of (h, st) \<Rightarrow>
        span_scope_drop rt User th h
          (fold (run_scoped rt settings root_log th) body (span_scope_new User th h st)))"
  by (simp_all add: tracing_span_def create_span_def user_span_def create_user_span_def
      start_trace_scope_def user_start_trace_def split: prod.split)

type_synonym ('l, 't, 'sp, 'w) block = "('l, 't, 'sp, 'w) trace_state \<Rightarrow> ('l, 't, 'sp, 'w) trace_state"

lemma refines_in_span:
  assumes "rustracing_documented rt"
    and "\<And>x. x \<in> set body \<Longrightarrow> block_refines rt th (run_scoped rt settings root_log th x :: ('l, 't, 'sp, 'w) block) (run_lex rt settings x)"
  shows "block_refines rt th (run_scoped rt settings root_log th (InSpan name body) :: ('l, 't, 'sp, 'w) block) (run_lex rt settings (InSpan name body))"
    and "block_refines rt th (run_scoped rt settings root_log th (InUserSpan name body) :: ('l, 't, 'sp, 'w) block) (run_lex rt settings (InUserSpan name body))"
    and "block_refines rt th (run_scoped rt settings root_log th (InTrace name options body) :: ('l, 't, 'sp, 'w) block) (run_lex rt settings (InTrace name options body))"
    and "block_refines rt th (run_scoped rt settings root_log th (InUserTrace name routing inbound body) :: ('l, 't, 'sp, 'w) block) (run_lex rt settings (InUserTrace name routing inbound body))"
proof -
  have body: "block_refines rt th (fold (run_scoped rt settings root_log th) body :: ('l, 't, 'sp, 'w) block) (fold (run_lex rt settings) body)"
    by (rule block_refines_fold) (rule assms(2))
  note block = scope_block [OF assms(1) _ body, where settings = settings]
  note start = creates_start_trace [OF assms(1)]
  show "block_refines rt th (run_scoped rt settings root_log th (InSpan name body) :: ('l, 't, 'sp, 'w) block) (run_lex rt settings (InSpan name body))"
    unfolding run_in_span [abs_def] run_lex.simps [abs_def] lex_span_def lex_orphan_span_def
    by (rule block [OF creates_child [OF assms(1) start]])
  show "block_refines rt th (run_scoped rt settings root_log th (InUserSpan name body) :: ('l, 't, 'sp, 'w) block) (run_lex rt settings (InUserSpan name body))"
    unfolding run_in_span [abs_def] run_lex.simps [abs_def]
    by (rule block [OF creates_child [OF assms(1) creates_inactive]])
  show "block_refines rt th (run_scoped rt settings root_log th (InTrace name options body) :: ('l, 't, 'sp, 'w) block) (run_lex rt settings (InTrace name options body))"
    unfolding run_in_span [abs_def] run_lex.simps [abs_def]
    by (rule block [OF start])
  show "block_refines rt th (run_scoped rt settings root_log th (InUserTrace name routing inbound body) :: ('l, 't, 'sp, 'w) block) (run_lex rt settings (InUserTrace name routing inbound body))"
    unfolding run_in_span [abs_def] run_lex.simps [abs_def]
    by (rule block [OF creates_user_trace])
qed

section \<open>Writes and dual spans\<close>

lemma write_keeps_sampling:
  assumes "rustracing_documented rt"
  shows "is_sampled rt (rt_write rt wr s) = is_sampled rt s"
  using rustracing_documentedD(2,3) [OF assms] by (fastforce simp: is_sampled_def)

lemma refines_write:
  fixes rt :: "('sp, 'w) rustracing"
  assumes doc: "rustracing_documented rt"
  shows "block_refines rt th (run_scoped rt settings root_log th (WriteSpan p wr) :: ('l, 't, 'sp, 'w) block)
    (run_lex rt settings (WriteSpan p wr))"
  unfolding block_refines_def run_scoped.simps
proof (intro allI impI)
  fix st :: "('l, 't, 'sp, 'w) trace_state"
  assume ok: "state_ok rt th st"
  then have np: "\<not> ts_panicked st"
    by (simp add: state_ok_def)
  let ?st' = "write_current rt p th wr st"
  note cur = current_lex [OF doc ok, of p]
  have "?st' = st \<and> run_lex rt settings (WriteSpan p wr) (lex_of rt th st) = lex_of rt th st \<or>
    (\<exists>h i. current_handle p th st = Some h \<and> handle_cell h = Some i \<and> i < n_cells p st \<and>
       is_sampled rt (cell_span p i st) \<and>
       ?st' = set_cell p i (rt_write rt wr (cell_span p i st), cell_refs p i st) st)"
  proof (cases "\<exists>h. current_handle p th st = Some h \<and> sh_is_sampled h")
    case True
    then obtain h where h: "current_handle p th st = Some h" "sh_is_sampled h" by blast
    then have "handle_ok rt p h st"
      using ok current_on_stack [OF h(1)] by (simp add: state_ok_def)
    then obtain i where i: "handle_cell h = Some i" "i < n_cells p st" "is_sampled rt (cell_span p i st)"
      using h(2) by (auto simp: handle_ok_def split: option.splits)
    then have "write_current_span (current_handle p th st) = Some (Some i)"
      using h by (auto simp: write_current_span_def handle_cell_def split: span_handle.splits)
    then show ?thesis
      using h i by (auto simp: write_current_def cell_span_def cell_refs_def split: prod.split)
  next
    case False
    then have "write_current_span (current_handle p th st) = Some None"
      by (auto simp: write_current_span_def split: option.split)
    then show ?thesis
      using False cur by (auto simp: write_current_def split: option.split)
  qed
  then show "ts_stacks ?st' = ts_stacks st \<and> \<not> ts_panicked ?st' \<and>
      agree rt (top_cells th st) (\<lambda>p. n_cells p st) st ?st' \<and>
      lex_of rt th ?st' = run_lex rt settings (WriteSpan p wr) (lex_of rt th st)"
  proof (elim disjE exE conjE)
    fix h i
    assume h: "current_handle p th st = Some h" "handle_cell h = Some i" "i < n_cells p st"
      "is_sampled rt (cell_span p i st)"
      and st': "?st' = set_cell p i (rt_write rt wr (cell_span p i st), cell_refs p i st) st"
    have "agree rt (top_cells th st) (\<lambda>p. n_cells p st) st ?st'"
      using h write_keeps_sampling [OF doc] by (auto simp: st' agree_def top_cells_def)
    moreover have "with_read rt q g ?st' = (if q = p \<and> handle_cell g = Some i
        then rt_write rt wr (cell_span p i st) else with_read rt q g st)"
      if "current_handle q th st = Some g" for q g
    proof -
      have "handle_ok rt q g st"
        using ok current_on_stack [OF that] by (simp add: state_ok_def)
      then show ?thesis
        by (auto simp: st' with_read_cell handle_ok_def split: option.splits)
    qed
    then have "lx_current (lex_of rt th ?st') = (lx_current (lex_of rt th st))(p \<mapsto> rt_write rt wr (cell_span p i st))"
      using h by (auto simp: lex_of_def current_handle_def st' fun_eq_iff intro: option.map_cong)
    then have "lex_of rt th ?st' = run_lex rt settings (WriteSpan p wr) (lex_of rt th st)"
      using h by (intro lex_state.equality) (simp_all add: cur with_read_cell, simp_all add: lex_of_def st')
    ultimately show ?thesis
      using np by (simp add: st')
  qed (use np in \<open>simp_all add: agree_refl\<close>)
qed

lemma entered_trans:
  assumes ent: "entered rt th hs st st'" "entered rt th hs' st' st''"
    and disjoint: "\<And>p. hs p = None \<or> hs' p = None"
  shows "entered rt th (\<lambda>p. case hs' p of None \<Rightarrow> hs p | Some h \<Rightarrow> Some h) st st''"
  unfolding entered_def
proof (intro conjI allI impI)
  show "\<not> ts_panicked st''"
    by (rule enteredD(1) [OF ent(2)])
next
  fix p
  show "current_handle p th st'' = (case case hs' p of None \<Rightarrow> hs p | Some h \<Rightarrow> Some h of
      None \<Rightarrow> current_handle p th st | Some h \<Rightarrow> Some h)"
    using enteredD(2) [OF ent(1), of p] enteredD(2) [OF ent(2), of p] by (cases "hs' p") simp_all
next
  fix p h
  assume "on_stack p th h st''"
  then show "on_stack p th h st \<or> (case hs' p of None \<Rightarrow> hs p | Some h \<Rightarrow> Some h) = Some h"
    using enteredD(3) [OF ent(1), of p h] enteredD(3) [OF ent(2), of p h] disjoint [of p]
    by (auto split: option.split)
next
  fix p
  show "n_cells p st \<le> n_cells p st''"
    using enteredD(4) [OF ent(1), of p] enteredD(4) [OF ent(2), of p] by simp
next
  fix p i
  assume "i < n_cells p st"
  with enteredD(4,5) [OF ent(1), where p = p] enteredD(5) [OF ent(2), where p = p]
  show "cell_refs p i st \<le> cell_refs p i st''" "cell_span p i st'' = cell_span p i st"
    by (metis le_trans less_le_trans)+
next
  fix p h
  assume h: "(case hs' p of None \<Rightarrow> hs p | Some h \<Rightarrow> Some h) = Some h"
  show "handle_ok rt p h st''"
  proof (cases "hs' p")
    case None
    with h enteredD(6) [OF ent(1)] have "handle_ok rt p h st'" by simp
    then show ?thesis
      using enteredD(4) [OF ent(2), of p] enteredD(5) [OF ent(2), where p = p]
      by (fastforce simp: handle_ok_def split: option.splits)
  qed (use h enteredD(6) [OF ent(2)] in simp)
  fix i
  assume "handle_cell h = Some i"
  with h enteredD(7) [OF ent(1)] enteredD(7) [OF ent(2), of p h i] enteredD(4) [OF ent(1), of p]
  show "n_cells p st \<le> i"
    by (cases "hs' p") (auto intro: le_trans)
qed

lemma lex_leave_fields:
  assumes "lx_current e p = Some s" "lx_finished e = (\<lambda>q. finished q st)" "lx_world e = ts_world st"
  shows "lex_leave rt p outer e =
    \<lparr>lx_current = (lx_current e)(p := outer), lx_finished = (\<lambda>q. finished q (finish_span rt p s st)),
     lx_world = ts_world (finish_span rt p s st)\<rparr>"
  using assms
  by (intro lex_state.equality)
    (auto simp: lex_leave_def lex_finish_def fun_eq_iff split: prod.split option.split)

end
