(* ===== verification/SpanRefinement.thy ===== *)
theory SpanRefinement
  imports SpanReferences
begin

text \<open>
  Contexts, dual spans, futures and forks implement their lexical meaning, and so does every
  program of scopes; what follows for the spans of user traces.
\<close>

section \<open>Contexts\<close>

text \<open>What the operations on contexts do to the references: a number is added to or taken from those
  of the cell of a handle that may be absent.\<close>

definition opt_adjust ::
  "pipeline \<Rightarrow> shared_span option \<Rightarrow> (nat \<Rightarrow> nat) \<Rightarrow> ('l, 't, 'sp, 'w) trace_state \<Rightarrow> ('l, 't, 'sp, 'w) trace_state" where
  "opt_adjust p ho f = opt_state (\<lambda>h. adjust p h f) ho"

lemma opt_adjust_fields [simp]:
  "ts_stacks (opt_adjust p ho f st) = ts_stacks st" "ts_world (opt_adjust p ho f st) = ts_world st"
  "ts_panicked (opt_adjust p ho f st) = ts_panicked st" "finished q (opt_adjust p ho f st) = finished q st"
  "n_cells q (opt_adjust p ho f st) = n_cells q st"
  "j < n_cells q st \<Longrightarrow> cell_span q j (opt_adjust p ho f st) = cell_span q j st"
  "j < n_cells q st \<Longrightarrow> cell_refs q j (opt_adjust p ho f st) =
    (if q = p \<and> Option.bind ho handle_cell = Some j then f (cell_refs q j st) else cell_refs q j st)"
  by (cases ho; simp add: opt_adjust_def opt_state_def)+

lemma adjust_adjust: "adjust p h f (adjust p h g st) = adjust p h (\<lambda>n. f (g n)) st"
proof (cases "handle_cell h")
  case (Some i)
  show ?thesis
  proof (cases "i < n_cells p st")
    case True
    with Some show ?thesis by (simp add: adjust_def) (simp add: set_cell_def)
  next
    case False
    then have "(ts_store st p)\<lparr>st_cells := (st_cells (ts_store st p))[i := c]\<rparr> = ts_store st p" for c
      by (cases "ts_store st p") (simp add: n_cells_def not_less list_update_beyond)
    then have "set_cell p i c st = st" for c
      by (simp add: set_cell_def)
    with Some show ?thesis by (simp add: adjust_def)
  qed
qed (simp add: adjust_def)

lemma opt_adjust_stacks: "opt_adjust p ho f (st\<lparr>ts_stacks := ss\<rparr>) = (opt_adjust p ho f st)\<lparr>ts_stacks := ss\<rparr>"
  by (simp add: opt_adjust_def opt_state_def adjust_stacks split: option.split)

lemma opt_clone: "opt_state (handle_clone p) ho st = opt_adjust p ho Suc st"
  by (simp add: opt_adjust_def opt_state_def handle_clone_adjust split: option.split)

lemma opt_drop:
  assumes "\<And>i. Option.bind ho handle_cell = Some i \<Longrightarrow> cell_refs p i st \<noteq> 1"
  shows "opt_state (handle_drop rt p) ho st = opt_adjust p ho (\<lambda>n. n - 1) st"
  using assms by (auto simp: opt_adjust_def opt_state_def handle_drop_adjust split: option.split)

text \<open>A context and its scope, over the pair of its spans.\<close>

definition context_spans :: "('l, 't) trace_context \<Rightarrow> pipeline \<Rightarrow> shared_span option" where
  "context_spans c p = (case p of System \<Rightarrow> tc_span c | User \<Rightarrow> tc_user_span c)"

definition adjust_spans ::
  "(pipeline \<Rightarrow> shared_span option) \<Rightarrow> (nat \<Rightarrow> nat) \<Rightarrow> ('l, 't, 'sp, 'w) trace_state \<Rightarrow> ('l, 't, 'sp, 'w) trace_state" where
  "adjust_spans hs f st = opt_adjust User (hs User) f (opt_adjust System (hs System) f st)"

lemma adjust_spans_fields [simp]:
  "ts_stacks (adjust_spans hs f st) = ts_stacks st" "ts_world (adjust_spans hs f st) = ts_world st"
  "ts_panicked (adjust_spans hs f st) = ts_panicked st" "finished q (adjust_spans hs f st) = finished q st"
  "n_cells q (adjust_spans hs f st) = n_cells q st"
  "j < n_cells q st \<Longrightarrow> cell_span q j (adjust_spans hs f st) = cell_span q j st"
  "j < n_cells q st \<Longrightarrow> cell_refs q j (adjust_spans hs f st) =
    (if Option.bind (hs q) handle_cell = Some j then f (cell_refs q j st) else cell_refs q j st)"
  by (cases q; simp add: adjust_spans_def)+

lemma context_clone_spans: "context_clone c st = adjust_spans (context_spans c) Suc st"
  by (simp add: context_clone_def adjust_spans_def opt_clone context_spans_def)

lemma context_drop_spans:
  assumes "\<And>p i. Option.bind (context_spans c p) handle_cell = Some i \<Longrightarrow> i < n_cells p st \<and> cell_refs p i st \<noteq> 1"
  shows "context_drop rt c st = adjust_spans (context_spans c) (\<lambda>n. n - 1) st"
proof -
  have sys: "opt_state (handle_drop rt System) (tc_span c) st = opt_adjust System (tc_span c) (\<lambda>n. n - 1) st"
    using assms [of System] by (intro opt_drop) (simp add: context_spans_def)
  show ?thesis
    unfolding context_drop_def sys
    using assms [of User] by (simp add: opt_drop adjust_spans_def context_spans_def)
qed

lemma telemetry_scope_new_spans:
  "telemetry_scope_new th c st =
     (adjust_spans (context_spans c) (\<lambda>n. n + 2) st)\<lparr>ts_stacks := context_scope th c (ts_stacks st)\<rparr>"
  by (cases "ts_stacks st"; cases "tc_span c"; cases "tc_user_span c")
    (simp_all add: telemetry_scope_new_def Let_def opt_state_def span_scope_new_def handle_clone_adjust
      adjust_adjust adjust_stacks adjust_spans_def opt_adjust_def context_spans_def context_scope_def
      map_stack_def scope_new_opt_def [of th None] scope_new_opt_def [of th "Some x" for x])

text \<open>Dropping the scope of a context whose cells are held elsewhere as well.\<close>

lemma opt_scope_drop_alias:
  assumes "\<And>h. ho = Some h \<Longrightarrow> current_handle p th st = Some h"
    and "\<And>i. Option.bind ho handle_cell = Some i \<Longrightarrow> i < n_cells p st \<and> 2 < cell_refs p i st"
  shows "opt_state (span_scope_drop rt p th) ho st =
    (opt_adjust p ho (\<lambda>n. n - 2) st)\<lparr>ts_stacks := map_stack p (scope_drop_opt th ho) (ts_stacks st)\<rparr>"
proof (cases ho)
  case None
  moreover have "scope_drop_opt th (None :: shared_span option) = (\<lambda>s. s)"
    by (simp add: scope_drop_opt_def fun_eq_iff)
  ultimately show ?thesis
    by (simp add: opt_adjust_def opt_state_def)
next
  case (Some h)
  have "scope_drop_opt th (Some h) = scope_drop th"
    by (simp add: scope_drop_opt_def fun_eq_iff)
  then show ?thesis
    using span_scope_drop_alias [OF assms(1), of h] assms(2) Some
    by (simp add: opt_adjust_def opt_state_def adjust_adjust numeral_2_eq_2)
qed

lemma telemetry_scope_end_alias:
  assumes cur: "\<And>p h. context_spans c p = Some h \<Longrightarrow> current_handle p th st = Some h"
    and refs: "\<And>p i. Option.bind (context_spans c p) handle_cell = Some i \<Longrightarrow> i < n_cells p st \<and> 2 < cell_refs p i st"
  shows "telemetry_scope_end rt th c st =
    (adjust_spans (context_spans c) (\<lambda>n. n - 2) st)\<lparr>ts_stacks := telemetry_scope_drop th c (ts_stacks st)\<rparr>"
proof -
  let ?st1 = "st\<lparr>ts_stacks := (ts_stacks st)\<lparr>log_scopes := scope_drop th (log_scopes (ts_stacks st))\<rparr>\<rparr>"
  let ?st2 = "(opt_adjust System (tc_span c) (\<lambda>n. n - 2) ?st1)
    \<lparr>ts_stacks := map_stack System (scope_drop_opt th (tc_span c)) (ts_stacks ?st1)\<rparr>"
  let ?st3 = "(opt_adjust User (tc_user_span c) (\<lambda>n. n - 2) ?st2)
    \<lparr>ts_stacks := map_stack User (scope_drop_opt th (tc_user_span c)) (ts_stacks ?st2)\<rparr>"
  have sys: "opt_state (span_scope_drop rt System th) (tc_span c) ?st1 = ?st2"
    using cur [of System] refs [of System]
    by (intro opt_scope_drop_alias) (simp_all add: context_spans_def current_handle_def stack_of_def)
  have user: "opt_state (span_scope_drop rt User th) (tc_user_span c) ?st2 = ?st3"
    using cur [of User] refs [of User]
    by (intro opt_scope_drop_alias) (simp_all add: context_spans_def current_handle_def stack_of_def map_stack_def)
  show ?thesis
    unfolding telemetry_scope_end_def Let_def sys user
    by (cases "ts_stacks st")
      (simp add: adjust_spans_def context_spans_def opt_adjust_stacks telemetry_scope_drop_def map_stack_def)
qed

section \<open>Futures\<close>

text \<open>A computation that runs with the spans of a context that are held elsewhere.\<close>

definition held ::
  "('sp, 'w) rustracing \<Rightarrow> thread \<Rightarrow> (pipeline \<Rightarrow> shared_span option) \<Rightarrow> ('l, 't, 'sp, 'w) trace_state \<Rightarrow> bool" where
  "held rt th hs st \<longleftrightarrow>
     (\<forall>p. case hs p of None \<Rightarrow> current_handle p th st = None | Some h \<Rightarrow> handle_ok rt p h st)"

definition context_refines ::
  "('sp, 'w) rustracing \<Rightarrow> thread \<Rightarrow> (pipeline \<Rightarrow> shared_span option) \<Rightarrow> ('l, 't, 'sp, 'w) block \<Rightarrow>
   (('sp, 'w) lex_state \<Rightarrow> ('sp, 'w) lex_state) \<Rightarrow> bool" where
  "context_refines rt th hs run sem \<longleftrightarrow>
     (\<forall>st. state_ok rt th st \<longrightarrow> held rt th hs st \<longrightarrow>
        ts_stacks (run st) = ts_stacks st \<and> \<not> ts_panicked (run st) \<and>
        agree rt (cells_at hs) (\<lambda>p. n_cells p st) st (run st) \<and>
        lex_at rt hs (run st) = sem (lex_at rt hs st))"

lemma context_refinesD:
  assumes "context_refines rt th hs run sem" "state_ok rt th st" "held rt th hs st"
  shows "ts_stacks (run st) = ts_stacks st" "\<not> ts_panicked (run st)"
    "agree rt (cells_at hs) (\<lambda>p. n_cells p st) st (run st)" "lex_at rt hs (run st) = sem (lex_at rt hs st)"
  using assms unfolding context_refines_def by blast+

lemma lex_at_spans:
  assumes "\<And>p h i. hs p = Some h \<Longrightarrow> handle_cell h = Some i \<Longrightarrow> cell_span p i st' = cell_span p i st"
    and "\<And>p. finished p st' = finished p st" "ts_world st' = ts_world st"
  shows "lex_at rt hs st' = lex_at rt hs st"
proof -
  have "map_option (\<lambda>h. with_read rt p h st') (hs p) = map_option (\<lambda>h. with_read rt p h st) (hs p)" for p
    using assms(1) [of p] by (cases "hs p") (auto simp: with_read_cell split: option.split)
  then show ?thesis
    using assms(2,3) by (simp add: lex_at_def)
qed

lemma heldD:
  assumes "held rt th hs st"
  shows "hs p = None \<Longrightarrow> current_handle p th st = None" "hs p = Some h \<Longrightarrow> handle_ok rt p h st"
  using assms unfolding held_def by (metis option.simps(4), metis option.simps(5))

lemma held_cell:
  assumes "held rt th hs st" "Option.bind (hs p) handle_cell = Some i"
  shows "i < n_cells p st" "0 < cell_refs p i st"
  using assms by (auto simp: held_def handle_ok_def bind_eq_Some_conv dest!: spec [of _ p] split: option.splits)

lemma context_scope_stacks:
  "current_handle p th (st\<lparr>ts_stacks := context_scope th c (ts_stacks st')\<rparr>) =
     (case context_spans c p of None \<Rightarrow> current_handle p th st' | Some h \<Rightarrow> Some h)"
  "on_stack p th h (st\<lparr>ts_stacks := context_scope th c (ts_stacks st')\<rparr>) \<Longrightarrow>
     on_stack p th h st' \<or> context_spans c p = Some h"
  by (cases p; auto simp: current_handle_def on_stack_def stack_of_def context_scope_def context_spans_def
      scope_new_opt_def scope_new_def scope_current_def split: option.splits)+

lemma handle_ok_more:
  assumes "handle_ok rt p h st" "n_cells p st \<le> n_cells p st'"
    and "\<And>i. i < n_cells p st \<Longrightarrow> cell_span p i st' = cell_span p i st \<and> cell_refs p i st \<le> cell_refs p i st'"
  shows "handle_ok rt p h st'"
  using assms by (fastforce simp: handle_ok_def split: option.splits)

lemma poll_refines:
  fixes run :: "('l, 't, 'sp, 'w) block"
  assumes body: "block_refines rt th run sem"
  shows "context_refines rt th (context_spans c)
    (\<lambda>st. telemetry_scope_end rt th c (run (telemetry_scope_new th c st))) sem"
  unfolding context_refines_def
proof (intro allI impI)
  fix st :: "('l, 't, 'sp, 'w) trace_state"
  assume ok: "state_ok rt th st" and held: "held rt th (context_spans c) st"
  let ?hs = "context_spans c"
  let ?st2 = "telemetry_scope_new th c st"
  let ?st3 = "run ?st2"
  let ?st4 = "(adjust_spans ?hs (\<lambda>n. n - 2) ?st3)\<lparr>ts_stacks := telemetry_scope_drop th c (ts_stacks ?st3)\<rparr>"
  note st2 = telemetry_scope_new_spans [of th c st]
  note cell = held_cell [OF held]
  have cur: "current_handle p th ?st2 = ?hs p" for p
    unfolding st2 context_scope_stacks(1) using heldD(1) [OF held] by (cases "?hs p") simp_all
  have "handle_ok rt p h ?st2" if "on_stack p th h ?st2" for p h
  proof (rule handle_ok_more [of _ _ _ st])
    show "handle_ok rt p h st"
      using context_scope_stacks(2) [OF that [unfolded st2]] ok held
      by (auto simp: state_ok_def dest: heldD(2))
  qed (simp_all add: st2)
  then have ok2: "state_ok rt th ?st2"
    using ok by (simp add: state_ok_def st2)
  have lex2: "lex_of rt th ?st2 = lex_at rt ?hs st"
    unfolding lex_of_at [OF cur] by (rule lex_at_spans) (use cell in \<open>simp_all add: st2\<close>)
  have st3: "ts_stacks ?st3 = ts_stacks ?st2" "\<not> ts_panicked ?st3"
    "agree rt (cells_at ?hs) (\<lambda>p. n_cells p ?st2) ?st2 ?st3" "lex_of rt th ?st3 = sem (lex_of rt th ?st2)"
    using body ok2 unfolding block_refines_def top_cells_at [OF cur, symmetric] by simp_all
  have le: "n_cells p st \<le> n_cells p ?st3" for p
    using st3(3) by (simp add: agree_def st2)
  have refs3: "cell_refs p i ?st3 = cell_refs p i st + (if Option.bind (?hs p) handle_cell = Some i then 2 else 0)"
    if "i < n_cells p st" for p i
    using st3(3) that by (simp add: agree_def st2)
  have cur3: "current_handle p th ?st3 = ?hs p" for p
    using cur st3(1) by (simp add: current_handle_def)
  have st4: "telemetry_scope_end rt th c ?st3 = ?st4"
    using cur3 refs3 cell le by (intro telemetry_scope_end_alias) (simp, fastforce intro: less_le_trans)
  have "agree rt (cells_at ?hs) (\<lambda>p. n_cells p st) st ?st4"
    using st3(3) refs3 less_le_trans [OF _ le] le by (simp add: agree_def st2)
  moreover have "lex_at rt ?hs ?st4 = lex_at rt ?hs ?st3"
    by (rule lex_at_spans) (use cell(1) less_le_trans [OF _ le] in \<open>simp_all add: bind_eq_Some_conv\<close>)
  then have "lex_at rt ?hs ?st4 = sem (lex_at rt ?hs st)"
    using st3(4) unfolding lex_of_at [OF cur3] lex2 by simp
  moreover have "ts_stacks ?st4 = ts_stacks st"
    by (simp add: st3(1)) (simp add: st2)
  ultimately show "ts_stacks (telemetry_scope_end rt th c ?st3) = ts_stacks st \<and>
      \<not> ts_panicked (telemetry_scope_end rt th c ?st3) \<and>
      agree rt (cells_at ?hs) (\<lambda>p. n_cells p st) st (telemetry_scope_end rt th c ?st3) \<and>
      lex_at rt ?hs (telemetry_scope_end rt th c ?st3) = sem (lex_at rt ?hs st)"
    unfolding st4 using st3(2) by simp
qed

lemma context_refines_fold:
  fixes run :: "'b \<Rightarrow> ('l, 't, 'sp, 'w) block"
  assumes "\<And>x. x \<in> set xs \<Longrightarrow> context_refines rt th hs (run x) (sem x)"
  shows "context_refines rt th hs (fold run xs) (fold sem xs)"
  using assms
proof (induction xs)
  case Nil
  then show ?case by (simp add: context_refines_def state_ok_def agree_refl)
next
  case (Cons x xs)
  show ?case
    unfolding context_refines_def
  proof (intro allI impI)
    fix st :: "('l, 't, 'sp, 'w) trace_state"
    assume ok: "state_ok rt th st" and held: "held rt th hs st"
    note x = context_refinesD [OF Cons.prems [OF list.set_intros(1)] ok held]
    note ok' = state_ok_agree [OF ok x(3,1,2)]
    have "handle_ok rt p h (run x st)" if "hs p = Some h" for p h
      using heldD(2) [OF held that] x(3) by (auto simp: handle_ok_def agree_def split: option.splits dest: less_le_trans)
    moreover have "current_handle p th (run x st) = current_handle p th st" for p
      using x(1) by (simp add: current_handle_def)
    ultimately have "held rt th hs (run x st)"
      using heldD(1) [OF held] by (simp add: held_def split: option.split)
    from context_refinesD [OF Cons.IH [OF Cons.prems] ok' this]
    have xs: "ts_stacks (fold run xs (run x st)) = ts_stacks st" "\<not> ts_panicked (fold run xs (run x st))"
      "agree rt (cells_at hs) (\<lambda>p. n_cells p (run x st)) (run x st) (fold run xs (run x st))"
      "lex_at rt hs (fold run xs (run x st)) = fold sem xs (sem x (lex_at rt hs st))"
      by (simp_all add: x(1,4))
    have "agree rt (cells_at hs) (\<lambda>p. n_cells p st) (run x st) (fold run xs (run x st))"
      by (rule agree_mono [OF xs(3)]) (use x(3) in \<open>simp_all add: agree_def\<close>)
    then show "ts_stacks (fold run (x # xs) st) = ts_stacks st \<and> \<not> ts_panicked (fold run (x # xs) st) \<and>
        agree rt (cells_at hs) (\<lambda>p. n_cells p st) st (fold run (x # xs) st) \<and>
        lex_at rt hs (fold run (x # xs) st) = fold sem (x # xs) (lex_at rt hs st)"
      using xs agree_trans [OF x(3)] by simp
  qed
qed

text \<open>The spans finished when the last references to some handles go, and what the lexical
  semantics makes of it.\<close>

definition closed ::
  "('sp, 'w) rustracing \<Rightarrow> (pipeline \<Rightarrow> shared_span option) \<Rightarrow> ('l, 't, 'sp, 'w) block" where
  "closed rt hs st =
     opt_state (\<lambda>h. finish_span rt User (with_read rt User h st)) (hs User)
       (opt_state (\<lambda>h. finish_span rt System (with_read rt System h st)) (hs System) st)"

lemma lex_closed:
  fixes rt :: "('sp, 'w) rustracing" and st :: "('l, 't, 'sp, 'w) trace_state"
  assumes "\<forall>p h. hs p = Some h \<longrightarrow> cs p = Some h"
  shows "opt_state (\<lambda>_. lex_leave rt User (outer User)) (hs User)
      (opt_state (\<lambda>_. lex_leave rt System (outer System)) (hs System) (lex_at rt cs st)) =
    (lex_at rt cs st)
      \<lparr>lx_current := (\<lambda>p. if hs p = None then lx_current (lex_at rt cs st) p else outer p),
       lx_finished := (\<lambda>q. finished q (closed rt hs st)), lx_world := ts_world (closed rt hs st)\<rparr>"
proof -
  have leave: "lex_leave rt p u \<lparr>lx_current = cur, lx_finished = (\<lambda>q. finished q st'), lx_world = ts_world st'\<rparr> =
      \<lparr>lx_current = cur(p := u), lx_finished = (\<lambda>q. finished q (finish_span rt p s st')),
       lx_world = ts_world (finish_span rt p s st')\<rparr>" if "cur p = Some s" for p s u cur and st' :: "('l, 't, 'sp, 'w) trace_state"
    using lex_leave_fields [of "\<lparr>lx_current = cur, lx_finished = (\<lambda>q. finished q st'), lx_world = ts_world st'\<rparr>" p s st'] that
    by simp
  have both: "(cur :: pipeline \<Rightarrow> 'sp option) = cur'" if "cur System = cur' System" "cur User = cur' User" for cur cur'
    unfolding fun_eq_iff by (intro allI, rename_tac q, case_tac q) (use that in simp_all)
  show ?thesis
    using assms [rule_format, of System] assms [rule_format, of User]
    by (cases "hs System"; cases "hs User")
      (auto simp: opt_state_def closed_def lex_at_def leave both simp del: finish_span_fields)
qed

text \<open>The drop of a context that holds the last reference to its spans of \<^term>\<open>hs\<close>, and not the
  last to the others.\<close>

lemma opt_drop_held:
  assumes doc: "rustracing_documented rt" and hs: "\<And>h. ho = Some h \<Longrightarrow> co = Some h"
    and refs: "\<And>i. Option.bind co handle_cell = Some i \<Longrightarrow> i < n_cells p st \<and> (cell_refs p i st = 1 \<longleftrightarrow> ho \<noteq> None)"
  shows "opt_state (handle_drop rt p) co st =
    opt_state (\<lambda>h. finish_span rt p (with_read rt p h st)) ho (opt_adjust p co (\<lambda>n. n - 1) st)"
proof (cases ho)
  case None
  then have "opt_state (handle_drop rt p) co st = opt_adjust p co (\<lambda>n. n - 1) st"
    using refs by (intro opt_drop) auto
  with None show ?thesis by (simp add: opt_state_def)
next
  case (Some h)
  then have "handle_drop rt p h st = finish_span rt p (with_read rt p h st) (adjust p h (\<lambda>n. n - 1) st)"
    using refs hs by (intro handle_drop_last [OF doc]) simp
  with Some hs [OF Some] show ?thesis
    by (simp add: opt_state_def opt_adjust_def)
qed

lemma opt_state_cells [simp]:
  "ts_stacks (opt_state (\<lambda>h. finish_span rt p (f h)) ho st) = ts_stacks st"
  "ts_panicked (opt_state (\<lambda>h. finish_span rt p (f h)) ho st) = ts_panicked st"
  "n_cells q (opt_state (\<lambda>h. finish_span rt p (f h)) ho st) = n_cells q st"
  "cell_span q j (opt_state (\<lambda>h. finish_span rt p (f h)) ho st) = cell_span q j st"
  "cell_refs q j (opt_state (\<lambda>h. finish_span rt p (f h)) ho st) = cell_refs q j st"
  by (simp_all add: opt_state_def split: option.split)

lemma context_drop_held:
  assumes doc: "rustracing_documented rt"
    and hs: "\<forall>p h. hs p = Some h \<longrightarrow> context_spans c p = Some h"
    and refs: "\<forall>p i. Option.bind (context_spans c p) handle_cell = Some i \<longrightarrow>
      i < n_cells p st \<and> (cell_refs p i st = 1 \<longleftrightarrow> hs p \<noteq> None)"
  shows "ts_stacks (context_drop rt c st) = ts_stacks st" "ts_panicked (context_drop rt c st) = ts_panicked st"
    "n_cells q (context_drop rt c st) = n_cells q st"
    "j < n_cells q st \<Longrightarrow> cell_span q j (context_drop rt c st) = cell_span q j st"
    "j < n_cells q st \<Longrightarrow> cell_refs q j (context_drop rt c st) =
      (if Option.bind (context_spans c q) handle_cell = Some j then cell_refs q j st - 1 else cell_refs q j st)"
    "finished q (context_drop rt c st) = finished q (closed rt hs st)"
    "ts_world (context_drop rt c st) = ts_world (closed rt hs st)"
proof -
  let ?st1 = "opt_state (\<lambda>h. finish_span rt System (with_read rt System h st)) (hs System)
    (opt_adjust System (tc_span c) (\<lambda>n. n - 1) st)"
  have sys: "opt_state (handle_drop rt System) (tc_span c) st = ?st1"
    using hs [rule_format, of System] refs [rule_format, of System] by (intro opt_drop_held [OF doc]) (simp_all add: context_spans_def)
  have "opt_state (handle_drop rt User) (tc_user_span c) ?st1 =
      opt_state (\<lambda>h. finish_span rt User (with_read rt User h ?st1)) (hs User)
        (opt_adjust User (tc_user_span c) (\<lambda>n. n - 1) ?st1)"
    using hs [rule_format, of User] refs [rule_format, of User]
    by (intro opt_drop_held [OF doc]) (simp_all add: context_spans_def)
  moreover have "with_read rt User h ?st1 = with_read rt User h st" if "hs User = Some h" for h
    using hs [rule_format, OF that] refs by (auto simp: with_read_cell context_spans_def split: option.split)
  ultimately have drop: "context_drop rt c st =
      opt_state (\<lambda>h. finish_span rt User (with_read rt User h st)) (hs User)
        (opt_adjust User (tc_user_span c) (\<lambda>n. n - 1) ?st1)"
    unfolding context_drop_def sys by (cases "hs User") (simp_all add: opt_state_def)
  show "ts_stacks (context_drop rt c st) = ts_stacks st" "ts_panicked (context_drop rt c st) = ts_panicked st"
    "n_cells q (context_drop rt c st) = n_cells q st"
    "j < n_cells q st \<Longrightarrow> cell_span q j (context_drop rt c st) = cell_span q j st"
    unfolding drop by simp_all
  show "j < n_cells q st \<Longrightarrow> cell_refs q j (context_drop rt c st) =
      (if Option.bind (context_spans c q) handle_cell = Some j then cell_refs q j st - 1 else cell_refs q j st)"
    unfolding drop by (cases q) (simp_all add: context_spans_def)
  show "finished q (context_drop rt c st) = finished q (closed rt hs st)"
    "ts_world (context_drop rt c st) = ts_world (closed rt hs st)"
    unfolding drop closed_def
    by (cases "hs User"; cases "hs System"; simp add: opt_state_def)+
qed

lemma closed_adjust:
  assumes "\<forall>p h i. hs p = Some h \<longrightarrow> handle_cell h = Some i \<longrightarrow> i < n_cells p st"
  shows "finished q (closed rt hs (adjust_spans cs f st)) = finished q (closed rt hs st)"
    and "ts_world (closed rt hs (adjust_spans cs f st)) = ts_world (closed rt hs st)"
proof -
  have "with_read rt p h (adjust_spans cs f st) = with_read rt p h st" if "hs p = Some h" for p h
    using assms that by (auto simp: with_read_cell split: option.split)
  then show "finished q (closed rt hs (adjust_spans cs f st)) = finished q (closed rt hs st)"
    "ts_world (closed rt hs (adjust_spans cs f st)) = ts_world (closed rt hs st)"
    unfolding closed_def by (cases "hs User"; cases "hs System"; simp add: opt_state_def)+
qed

text \<open>The polls of a future whose context is \<^term>\<open>c\<close>, from the state in which it was made.\<close>

lemma future_block:
  fixes run :: "'b \<Rightarrow> ('l, 't, 'sp, 'w) block"
  assumes doc: "rustracing_documented rt" and ok: "state_ok rt th st"
    and stacks: "ts_stacks stA = ts_stacks st" and np: "\<not> ts_panicked stA"
    and le: "\<And>p. n_cells p st \<le> n_cells p stA"
    and spans: "\<And>p i. i < n_cells p st \<Longrightarrow> cell_span p i stA = cell_span p i st"
    and refs: "\<And>p i. i < n_cells p st \<Longrightarrow> cell_refs p i stA =
      cell_refs p i st + (if Option.bind (context_spans c p) handle_cell = Some i then 1 else 0)"
    and cs: "context_spans c = in_scope hs th st"
    and new: "\<And>p h. hs p = Some h \<Longrightarrow> handle_ok rt p h stA"
      "\<And>p h i. hs p = Some h \<Longrightarrow> handle_cell h = Some i \<Longrightarrow> n_cells p st \<le> i"
      "\<And>p h i. hs p = Some h \<Longrightarrow> handle_cell h = Some i \<Longrightarrow> cell_refs p i stA = 1"
    and body: "\<And>poll. poll \<in> set polls \<Longrightarrow> block_refines rt th (run poll) (sem poll)"
  shows "ts_stacks (run_polls rt th c run polls stA) = ts_stacks st \<and>
    \<not> ts_panicked (run_polls rt th c run polls stA) \<and>
    agree rt (top_cells th st) (\<lambda>p. n_cells p st) st (run_polls rt th c run polls stA) \<and>
    lex_of rt th (run_polls rt th c run polls stA) =
      opt_state (\<lambda>_. lex_leave rt User (lx_current (lex_of rt th st) User)) (hs User)
        (opt_state (\<lambda>_. lex_leave rt System (lx_current (lex_of rt th st) System)) (hs System)
          (fold sem polls (lex_at rt (context_spans c) stA)))"
proof -
  let ?cs = "context_spans c"
  let ?stB = "adjust_spans ?cs Suc stA"
  let ?poll = "\<lambda>poll st. telemetry_scope_end rt th c (run poll (telemetry_scope_new th c st))"
  let ?stC = "fold ?poll polls ?stB"
  let ?stD = "adjust_spans ?cs (\<lambda>n. n - 1) ?stC"
  let ?st4 = "context_drop rt c ?stD"
  have old: "handle_ok rt p h ?stB" if "handle_ok rt p h st" for p h
    using that le [of p] spans refs
    by (intro handle_ok_more [OF that]) (auto dest: less_le_trans [OF _ le])
  have ok2: "state_ok rt th ?stB"
    using ok old np by (simp add: state_ok_def on_stack_def stacks)
  have cur: "current_handle p th ?stB = current_handle p th st" for p
    by (simp add: current_handle_def stacks)
  have "handle_ok rt p h ?stB" if "?cs p = Some h" for p h
  proof (cases "hs p")
    case None
    then have "handle_ok rt p h st"
      using that current_on_stack [of p th st h] ok by (simp add: cs in_scope_def state_ok_def)
    then show ?thesis by (rule old)
  next
    case (Some g)
    then show ?thesis
      using that by (intro handle_ok_more [OF new(1)]) (auto simp: cs in_scope_def)
  qed
  then have held: "held rt th ?cs ?stB"
    using cur by (auto simp: held_def cs in_scope_def split: option.splits)
  have "context_refines rt th ?cs (fold ?poll polls) (fold sem polls)"
    by (intro context_refines_fold poll_refines body)
  note stC = context_refinesD [OF this ok2 held]
  have lexB: "lex_at rt ?cs ?stB = lex_at rt ?cs stA"
    by (rule lex_at_spans) (use held_cell(1) [OF held] in \<open>simp_all add: bind_eq_Some_conv\<close>)
  have leC: "n_cells p stA \<le> n_cells p ?stC" for p
    using stC(3) by (simp add: agree_def)
  have refsC: "cell_refs p i ?stC = cell_refs p i stA + (if Option.bind (?cs p) handle_cell = Some i then 1 else 0)"
    if "i < n_cells p stA" for p i
    using stC(3) that by (simp add: agree_def)
  have cell: "i < n_cells p stA \<and> 0 < cell_refs p i stA \<and> (cell_refs p i stA = 1 \<longleftrightarrow> hs p \<noteq> None)"
    if i: "Option.bind (?cs p) handle_cell = Some i" for p i
  proof (cases "hs p")
    case None
    then obtain h where h: "current_handle p th st = Some h" "handle_cell h = Some i"
      using i by (auto simp: cs in_scope_def bind_eq_Some_conv)
    with current_on_stack [OF h(1)] ok have "i < n_cells p st" "0 < cell_refs p i st"
      by (auto simp: state_ok_def handle_ok_def split: option.splits)
    then show ?thesis
      using refs [of i p] i None le [of p] by simp
  next
    case (Some h)
    then show ?thesis
      using new(1,3) [OF Some] i by (simp add: cs in_scope_def handle_ok_def)
  qed
  have stD: "context_drop rt c ?stC = ?stD"
    using cell refsC leC by (intro context_drop_spans) (fastforce intro: less_le_trans)
  have refsD: "\<forall>p i. Option.bind (?cs p) handle_cell = Some i \<longrightarrow>
      i < n_cells p ?stD \<and> (cell_refs p i ?stD = 1 \<longleftrightarrow> hs p \<noteq> None)"
    using cell refsC less_le_trans [OF _ leC] by simp
  have "\<forall>p h. hs p = Some h \<longrightarrow> ?cs p = Some h"
    by (simp add: cs in_scope_def)
  note st4 = context_drop_held [OF doc this refsD]
  have c1: "ts_stacks ?st4 = ts_stacks st" "ts_panicked ?st4 = ts_panicked ?stC"
    using st4(1,2) stC(1) stacks by simp_all
  have c2: "n_cells p ?st4 = n_cells p ?stC" for p
    using st4(3) by simp
  have c3: "cell_refs p i ?st4 = cell_refs p i st" if "i < n_cells p st" "cell_refs p i ?stC = cell_refs p i ?stB" for p i
    using that st4(5) [where j = i and q = p] refs [OF that(1)] le [of p] leC [of p] by (auto split: if_splits)
  have c4: "cell_span p i ?st4 = cell_span p i ?stC" if "i < n_cells p ?st4" for p i
    using that st4(3,4) [where q = p] by simp
  have leB: "n_cells p st \<le> n_cells p ?stB" for p
    using le by simp
  have spansB: "cell_span p i ?stB = cell_span p i st" if "i < n_cells p st" for p i
    using spans [OF that] le [of p] that by simp
  have agree: "agree rt (cells_at (in_scope hs th st)) (\<lambda>p. n_cells p ?stB) ?stB ?stC"
    using stC(3) by (simp only: cs)
  have lexC: "fold sem polls (lex_at rt ?cs stA) = lex_at rt (in_scope hs th st) ?stC"
    using stC(4) unfolding lexB by (simp only: cs)
  have "\<forall>p h i. hs p = Some h \<longrightarrow> handle_cell h = Some i \<longrightarrow> i < n_cells p ?stC"
    using refsD by (simp add: cs in_scope_def)
  note fin = trans [OF st4(6) closed_adjust(1) [OF this]] trans [OF st4(7) closed_adjust(2) [OF this]]
  have "\<forall>p h. hs p = Some h \<longrightarrow> in_scope hs th st p = Some h"
    by (simp add: in_scope_def)
  note close = lex_closed [OF this, where outer = "lx_current (lex_of rt th st)"]
  show ?thesis
    unfolding run_polls_def Let_def context_clone_spans stD lexC close
    unfolding fin [symmetric]
    by (rule opened_block [OF ok leB spansB new(2) stC(2) agree c1 c2 c3 c4])
qed

text \<open>Scopes turned into a context: the references of the scopes are the context's own.\<close>

lemma scope_pop_drop:
  "scope_pop rt p th (opt_state (handle_drop rt p) (Some h) st) = span_scope_drop rt p th h st"
  by (simp add: span_scope_drop_def opt_state_def)

lemma context_spans_current [simp]:
  "context_spans (context_current root_log th (ts_stacks st)) = (\<lambda>p. current_handle p th st)"
  by (simp add: context_spans_def context_current_def current_handle_def stack_of_def fun_eq_iff split: pipeline.split)

lemma current_spans [simp]:
  "tc_span (context_current root_log th (ts_stacks st)) = current_handle System th st"
  "tc_user_span (context_current root_log th (ts_stacks st)) = current_handle User th st"
  by (simp_all add: context_current_def current_handle_def stack_of_def)

lemma into_context_current:
  assumes "current_handle System th st = Some h"
  shows "into_context rt root_log th h st =
    (context_current root_log th (ts_stacks st),
     span_scope_drop rt System th h (adjust_spans (\<lambda>p. current_handle p th st) Suc st))"
proof -
  let ?c = "context_current root_log th (ts_stacks st)"
  have "tc_span ?c = Some h"
    using assms by simp
  moreover from this have "?c\<lparr>tc_span := Some h\<rparr> = ?c"
    by (cases ?c) simp
  ultimately show ?thesis
    by (simp add: into_context_def telemetry_context_current_def Let_def context_clone_spans scope_pop_drop)
qed

lemma dual_into_context_current:
  assumes "current_handle System th st = Some h" "\<And>u. uo = Some u \<Longrightarrow> current_handle User th st = Some u"
  shows "dual_into_context rt root_log th (h, uo) st =
    (context_current root_log th (ts_stacks st), opt_state (span_scope_drop rt User th) uo
     (span_scope_drop rt System th h (adjust_spans (\<lambda>p. current_handle p th st) Suc st)))"
proof (cases uo)
  case (Some u)
  let ?c = "context_current root_log th (ts_stacks st)"
  have "tc_user_span ?c = Some u"
    using assms(2) [OF Some] by simp
  moreover from this have "?c\<lparr>tc_user_span := Some u\<rparr> = ?c"
    by (cases ?c) simp
  ultimately show ?thesis
    by (simp add: dual_into_context_def into_context_current [OF assms(1)] Some scope_pop_drop)
      (simp add: opt_state_def)
qed (simp add: dual_into_context_def into_context_current [OF assms(1)] opt_state_def)

lemma opened_future:
  fixes run :: "'b \<Rightarrow> ('l, 't, 'sp, 'w) block"
  assumes doc: "rustracing_documented rt" and ok: "state_ok rt th st" and ent: "entered rt th hs st st2"
    and h: "hs System = Some h"
    and stacks: "map_stack User (scope_drop_opt th (hs User)) (map_stack System (scope_drop th) (ts_stacks st2)) = ts_stacks st"
    and two: "\<And>p g i. hs p = Some g \<Longrightarrow> handle_cell g = Some i \<Longrightarrow> i < n_cells p st2 \<and> cell_refs p i st2 = 2"
    and old: "\<And>q i. i < n_cells q st \<Longrightarrow> cell_refs q i st2 = cell_refs q i st"
    and body: "\<And>poll. poll \<in> set polls \<Longrightarrow> block_refines rt th (run poll) (sem poll)"
    and st5: "st5 = (case dual_into_context rt root_log th (h, hs User) st2 of (c, st) \<Rightarrow> run_polls rt th c run polls st)"
  shows "ts_stacks st5 = ts_stacks st \<and> \<not> ts_panicked st5 \<and>
    agree rt (top_cells th st) (\<lambda>p. n_cells p st) st st5 \<and>
    lex_of rt th st5 =
      opt_state (\<lambda>_. lex_leave rt User (lx_current (lex_of rt th st) User)) (hs User)
        (lex_leave rt System (lx_current (lex_of rt th st) System) (fold sem polls (lex_of rt th st2)))"
proof -
  let ?c = "context_current root_log th (ts_stacks st2)"
  let ?cs = "\<lambda>p. current_handle p th st2"
  have cs: "?cs p = in_scope hs th st p" for p
    by (simp add: in_scope_def enteredD(2) [OF ent])
  have hs: "?cs p = Some g" if "hs p = Some g" for p g
    by (simp add: cs in_scope_def that)
  let ?st3 = "adjust_spans ?cs Suc st2"
  let ?st4 = "(adjust System h (\<lambda>n. n - 2) ?st3)\<lparr>ts_stacks := map_stack System (scope_drop th) (ts_stacks st2)\<rparr>"
  let ?stA = "(opt_adjust User (hs User) (\<lambda>n. n - 2) ?st4)
    \<lparr>ts_stacks := map_stack User (scope_drop_opt th (hs User)) (ts_stacks ?st4)\<rparr>"
  have cell: "i < n_cells p ?st3 \<and> cell_refs p i ?st3 = 3" if "hs p = Some g" "handle_cell g = Some i" for p g i
    using two [OF that] hs [OF that(1)] that(2) by simp
  have "current_handle System th ?st3 = Some h"
    using hs [OF h] by (simp only: current_handle_def adjust_spans_fields)
  from span_scope_drop_alias [OF this] cell [OF h] have "span_scope_drop rt System th h ?st3 =
      (adjust System h (\<lambda>n. n - 1) (adjust System h (\<lambda>n. n - 1) ?st3))
        \<lparr>ts_stacks := map_stack System (scope_drop th) (ts_stacks ?st3)\<rparr>"
    by fastforce
  then have "span_scope_drop rt System th h ?st3 = ?st4"
    by (simp add: adjust_adjust numeral_2_eq_2)
  moreover have cur4: "current_handle User th ?st4 = current_handle User th st2"
    by (simp add: current_handle_def)
  have "opt_state (span_scope_drop rt User th) (hs User) ?st4 = ?stA"
  proof (rule opt_scope_drop_alias)
    show "current_handle User th ?st4 = Some u" if "hs User = Some u" for u
      unfolding cur4 by (rule hs [OF that])
    fix i
    assume "Option.bind (hs User) handle_cell = Some i"
    then obtain u where u: "hs User = Some u" "handle_cell u = Some i"
      by (auto simp: bind_eq_Some_conv)
    show "i < n_cells User ?st4 \<and> 2 < cell_refs User i ?st4"
      using cell [OF u] hs [OF u(1)] u(2) by simp
  qed
  ultimately have into: "dual_into_context rt root_log th (h, hs User) st2 = (?c, ?stA)"
    using dual_into_context_current [OF hs [OF h] hs] by simp
  have refs: "cell_refs p i ?stA = cell_refs p i st + (if Option.bind (?cs p) handle_cell = Some i then 1 else 0)"
    if "i < n_cells p st" for p i
    using old [OF that] enteredD(4) [OF ent, of p] enteredD(7) [OF ent, of p _ i] that h
    by (cases p) (auto simp: bind_eq_Some_conv)
  have new: "cell_refs p i ?stA = 1" if "hs p = Some g" "handle_cell g = Some i" for p g i
    using cell [OF that] two [OF that] hs [OF that(1)] that h by (cases p) auto
  have new_ok: "handle_ok rt p g ?stA" if "hs p = Some g" for p g
    using enteredD(6) [OF ent that] new [OF that] by (auto simp: handle_ok_def split: option.splits)
  have "lex_at rt ?cs ?stA = lex_at rt ?cs st2"
  proof (rule lex_at_spans)
    fix p g i
    assume g: "current_handle p th st2 = Some g" "handle_cell g = Some i"
    then have "handle_ok rt p g st2"
      using entered_ok [OF ok ent] current_on_stack [OF g(1)] by (simp add: state_ok_def)
    with g(2) show "cell_span p i ?stA = cell_span p i st2"
      by (simp add: handle_ok_def)
  qed simp_all
  then have lex2: "lex_of rt th st2 = lex_at rt (context_spans ?c) ?stA"
    by (simp add: lex_of_at [OF refl])
  have facts: "ts_stacks ?stA = ts_stacks st" "\<not> ts_panicked ?stA"
    using stacks enteredD(1) [OF ent] by simp_all
  have le: "n_cells p st \<le> n_cells p ?stA" for p
    using enteredD(4) [OF ent, of p] by simp
  have spans: "cell_span p i ?stA = cell_span p i st" if "i < n_cells p st" for p i
    using enteredD(4) [OF ent, of p] enteredD(5) [OF ent that] that by simp
  have cs': "context_spans ?c = in_scope hs th st"
    by (simp add: cs fun_eq_iff)
  have polls: "st5 = run_polls rt th ?c run polls ?stA"
    unfolding st5 into by simp
  have refs': "cell_refs p i ?stA =
      cell_refs p i st + (if Option.bind (context_spans ?c p) handle_cell = Some i then 1 else 0)"
    if "i < n_cells p st" for p i
    using refs [OF that] by (simp only: context_spans_current)
  have leave: "lex_leave rt System u (fold sem polls (lex_of rt th st2)) =
      opt_state (\<lambda>_. lex_leave rt System u) (hs System) (fold sem polls (lex_at rt (context_spans ?c) ?stA))" for u
    unfolding lex2 h by (simp add: opt_state_def)
  show ?thesis
    unfolding polls leave
    by (rule future_block [OF doc ok facts le spans refs' cs' new_ok enteredD(7) [OF ent] new body])
qed

section \<open>Dual spans\<close>

lemma dual_scope_drop_last:
  assumes doc: "rustracing_documented rt" and h: "hs System = Some h"
    and curs: "\<forall>p g. hs p = Some g \<longrightarrow> current_handle p th st = Some g"
    and twos: "\<forall>p g i. hs p = Some g \<longrightarrow> handle_cell g = Some i \<longrightarrow> i < n_cells p st \<and> cell_refs p i st = 2"
    and st': "st' = dual_scope_drop rt th (h, hs User) st"
  shows "ts_stacks st' = map_stack User (scope_drop_opt th (hs User)) (map_stack System (scope_drop th) (ts_stacks st))"
    "ts_panicked st' = ts_panicked st" "n_cells q st' = n_cells q st"
    "j < n_cells q st \<Longrightarrow> cell_span q j st' = cell_span q j st"
    "j < n_cells q st \<Longrightarrow> Option.bind (hs q) handle_cell \<noteq> Some j \<Longrightarrow> cell_refs q j st' = cell_refs q j st"
    "finished q st' = finished q (closed rt hs st)" "ts_world st' = ts_world (closed rt hs st)"
proof -
  note cur = curs [rule_format] and two = twos [rule_format]
  let ?st1 = "(finish_span rt System (with_read rt System h st) (adjust System h (\<lambda>n. n - 1) (adjust System h (\<lambda>n. n - 1) st)))
    \<lparr>ts_stacks := map_stack System (scope_drop th) (ts_stacks st)\<rparr>"
  have sys: "span_scope_drop rt System th h st = ?st1"
    using two [OF h] by (intro span_scope_drop_last [OF doc cur [OF h]]) blast
  have "ts_stacks st' = map_stack User (scope_drop_opt th (hs User)) (map_stack System (scope_drop th) (ts_stacks st)) \<and>
    ts_panicked st' = ts_panicked st \<and> n_cells q st' = n_cells q st \<and>
    (j < n_cells q st \<longrightarrow> cell_span q j st' = cell_span q j st) \<and>
    (j < n_cells q st \<longrightarrow> Option.bind (hs q) handle_cell \<noteq> Some j \<longrightarrow> cell_refs q j st' = cell_refs q j st) \<and>
    finished q st' = finished q (closed rt hs st) \<and> ts_world st' = ts_world (closed rt hs st)"
  proof (cases "hs User")
    case None
    moreover have "scope_drop_opt th (None :: shared_span option) = (\<lambda>s. s)"
      by (simp add: scope_drop_opt_def fun_eq_iff)
    ultimately show ?thesis
      using h by (auto simp: st' dual_scope_drop_def sys opt_state_def closed_def)
  next
    case (Some u)
    have "current_handle User th ?st1 = Some u"
      using cur [OF Some] by (simp add: current_handle_def)
    moreover have "i < n_cells User ?st1 \<and> cell_refs User i ?st1 = 2" if "handle_cell u = Some i" for i
      using two [OF Some that] by simp
    ultimately have user: "span_scope_drop rt User th u ?st1 =
      (finish_span rt User (with_read rt User u ?st1) (adjust User u (\<lambda>n. n - 1) (adjust User u (\<lambda>n. n - 1) ?st1)))
        \<lparr>ts_stacks := map_stack User (scope_drop th) (ts_stacks ?st1)\<rparr>"
      by (intro span_scope_drop_last [OF doc]) blast+
    have read: "with_read rt User u ?st1 = with_read rt User u st"
      using two [OF Some] by (simp add: with_read_cell split: option.split)
    have drop: "scope_drop_opt th (Some u) = scope_drop th"
      by (simp add: scope_drop_opt_def fun_eq_iff)
    have "st' = (finish_span rt User (with_read rt User u st) (adjust User u (\<lambda>n. n - 1) (adjust User u (\<lambda>n. n - 1) ?st1)))
        \<lparr>ts_stacks := map_stack User (scope_drop th) (ts_stacks ?st1)\<rparr>"
      unfolding st' dual_scope_drop_def fst_conv snd_conv sys Some opt_state_def option.case user read ..
    then show ?thesis
      using h Some drop by (auto simp: opt_state_def closed_def)
  qed
  then show "ts_stacks st' = map_stack User (scope_drop_opt th (hs User)) (map_stack System (scope_drop th) (ts_stacks st))"
    "ts_panicked st' = ts_panicked st" "n_cells q st' = n_cells q st"
    "j < n_cells q st \<Longrightarrow> cell_span q j st' = cell_span q j st"
    "j < n_cells q st \<Longrightarrow> Option.bind (hs q) handle_cell \<noteq> Some j \<Longrightarrow> cell_refs q j st' = cell_refs q j st"
    "finished q st' = finished q (closed rt hs st)" "ts_world st' = ts_world (closed rt hs st)"
    by simp_all
qed

lemma dual_span_creates:
  "dual_span rt settings th name st =
     (case create_or_start rt th name st of (s, st) \<Rightarrow>
      case shared_span rt settings System s st of (h, st) \<Rightarrow>
        if current_handle User th (span_scope_new System th h st) = None
        then ((h, None), span_scope_new System th h st)
        else (case create_child rt User th name (Pair (rt_inactive rt)) (span_scope_new System th h st) of (s, st) \<Rightarrow>
          case shared_span rt settings User s st of (u, st) \<Rightarrow> ((h, Some u), span_scope_new User th u st)))"
  by (simp add: dual_span_def tracing_span_def create_span_def user_span_def create_user_span_def
      split: prod.split)

text \<open>The handles of a dual span, and the state it opens.\<close>

definition dual_handles :: "shared_span \<times> shared_span option \<Rightarrow> pipeline \<Rightarrow> shared_span option" where
  "dual_handles hs p = (case p of System \<Rightarrow> Some (fst hs) | User \<Rightarrow> snd hs)"

lemma dual_handles_simps [simp]: "dual_handles hs System = Some (fst hs)" "dual_handles hs User = snd hs"
  by (simp_all add: dual_handles_def)

lemma dual_handles_eq:
  "(\<lambda>q. if q = System then Some h else None) = dual_handles (h, None)"
  "(\<lambda>p. case if p = User then Some u else None of None \<Rightarrow> dual_handles (h, None) p | Some h \<Rightarrow> Some h) = dual_handles (h, Some u)"
  by (auto simp: dual_handles_def fun_eq_iff split: pipeline.split)

definition dual_opens ::
  "('sp, 'w) rustracing \<Rightarrow> thread \<Rightarrow> shared_span \<times> shared_span option \<Rightarrow> ('l, 't, 'sp, 'w) trace_state \<Rightarrow>
   ('l, 't, 'sp, 'w) trace_state \<Rightarrow> bool" where
  "dual_opens rt th hs st st2 \<longleftrightarrow>
     entered rt th (dual_handles hs) st st2 \<and>
     map_stack User (scope_drop_opt th (snd hs)) (map_stack System (scope_drop th) (ts_stacks st2)) = ts_stacks st \<and>
     (\<forall>p g i. dual_handles hs p = Some g \<longrightarrow> handle_cell g = Some i \<longrightarrow> i < n_cells p st2 \<and> cell_refs p i st2 = 2) \<and>
     (\<forall>q i. i < n_cells q st \<longrightarrow> cell_refs q i st2 = cell_refs q i st)"

lemma dual_opensD:
  assumes "dual_opens rt th hs st st2"
  shows "entered rt th (dual_handles hs) st st2"
    "map_stack User (scope_drop_opt th (dual_handles hs User)) (map_stack System (scope_drop th) (ts_stacks st2)) = ts_stacks st"
    "dual_handles hs p = Some g \<Longrightarrow> handle_cell g = Some i \<Longrightarrow> i < n_cells p st2 \<and> cell_refs p i st2 = 2"
    "i < n_cells q st \<Longrightarrow> cell_refs q i st2 = cell_refs q i st"
  using assms unfolding dual_opens_def by simp_all

lemma span_opens:
  assumes doc: "rustracing_documented rt" and create: "creates rt th create csem" and ok: "state_ok rt th st"
    and eqs: "create st = (s, st0)" "shared_span rt settings System s st0 = (h, st1)"
  shows "dual_opens rt th (h, None) st (span_scope_new System th h st1)"
proof -
  note opened = span_opened [OF doc create ok eqs]
  have drop: "scope_drop_opt th (None :: shared_span option) = (\<lambda>s. s)"
    by (simp add: scope_drop_opt_def fun_eq_iff)
  have "i < n_cells p (span_scope_new System th h st1) \<and> cell_refs p i (span_scope_new System th h st1) = 2"
    if "dual_handles (h, None) p = Some g" "handle_cell g = Some i" for p g i
    using opened(3) that by (cases p) simp_all
  then show ?thesis
    using opened(1,2,4) by (simp add: dual_opens_def dual_handles_eq(1) drop)
qed

lemma dual_span_opens:
  fixes st :: "('l, 't, 'sp, 'w) trace_state"
  assumes doc: "rustracing_documented rt" and ok: "state_ok rt th st"
    and dual: "dual_span rt settings th name st = (hs, st2)"
  shows "dual_opens rt th hs st st2" "snd hs = None \<longleftrightarrow> lx_current (lex_of rt th st) User = None"
    "lex_of rt th st2 = lex_dual_open rt settings name (lex_of rt th st)"
proof -
  note create = creates_child [OF doc creates_start_trace [OF doc, where name = name and options = start_trace_options_default],
    where p = System and name = name]
  note create_user = creates_child [OF doc creates_inactive, where p = User and name = name]
  obtain s st0 where cr: "create_or_start rt th name st = (s, st0)"
    by fastforce
  obtain h st1 where sh: "shared_span rt settings System s st0 = (h, st1)"
    by fastforce
  let ?st2 = "span_scope_new System th h st1"
  note opens = span_opens [OF doc create ok cr sh]
  note opened = span_opened [OF doc create ok cr sh]
  note ok2 = entered_ok [OF ok opened(1)]
  have user: "current_handle User th ?st2 = current_handle User th st"
    using opened(2) by (simp add: current_handle_def)
  have "dual_opens rt th hs st st2 \<and> (snd hs = None \<longleftrightarrow> current_handle User th st = None) \<and>
    lex_of rt th st2 = lex_dual_open rt settings name (lex_of rt th st)"
  proof (cases "current_handle User th st")
    case None
    then have "hs = (h, None)" "st2 = ?st2"
      using dual unfolding dual_span_creates cr by (simp_all add: sh user)
    moreover have "lx_current (lex_of rt th st) User = None"
      using None by (simp add: lex_of_def)
    ultimately show ?thesis
      using opens opened(5) None by (simp add: lex_dual_open_def lex_orphan_span_def)
  next
    case (Some g)
    then have ne: "current_handle User th ?st2 \<noteq> None"
      by (simp add: user)
    obtain s' st3 where cr': "create_child rt User th name (Pair (rt_inactive rt)) ?st2 = (s', st3)"
      by fastforce
    obtain u st4 where sh': "shared_span rt settings User s' st3 = (u, st4)"
      by fastforce
    let ?st5 = "span_scope_new User th u st4"
    note opened' = span_opened [OF doc create_user ok2 cr' sh']
    have st: "dual_span rt settings th name st = ((h, Some u), ?st5)"
      unfolding dual_span_creates cr prod.case sh if_not_P [OF ne] cr' sh' ..
    have "lx_current (lex_of rt th st) User \<noteq> None"
      using Some by (simp add: lex_of_def)
    then have lex: "lex_dual_open rt settings name (lex_of rt th st) = lex_of rt th ?st5"
      unfolding opened'(5) opened(5) lex_dual_open_def Let_def lex_orphan_span_def by (simp only: if_False)
    have ent: "entered rt th (dual_handles (h, Some u)) st ?st5"
      unfolding dual_handles_eq(2) [symmetric]
      by (rule entered_trans [OF dual_opensD(1) [OF opens] opened'(1)]) (simp add: dual_handles_def split: pipeline.split)
    have drop: "scope_drop_opt th (Some u) = scope_drop th"
      by (simp add: scope_drop_opt_def fun_eq_iff)
    have "i < n_cells p ?st5 \<and> cell_refs p i ?st5 = 2"
      if "dual_handles (h, Some u) p = Some g" "handle_cell g = Some i" for p g i
      using that opened'(3) opened(3) opened'(4) [of i System] enteredD(4) [OF opened'(1), of System]
      by (cases p) simp_all
    moreover have "cell_refs q i ?st5 = cell_refs q i st" if "i < n_cells q st" for q i
      using opened(4) [OF that] opened'(4) [of i q] enteredD(4) [OF opened(1), of q] that by simp
    ultimately have "dual_opens rt th (h, Some u) st ?st5"
      using ent unfolding dual_opens_def by (simp add: opened(2) opened'(2) drop)
    then show ?thesis
      using Some dual st lex by auto
  qed
  then show "dual_opens rt th hs st st2" "snd hs = None \<longleftrightarrow> lx_current (lex_of rt th st) User = None"
    "lex_of rt th st2 = lex_dual_open rt settings name (lex_of rt th st)"
    by (simp_all add: lex_of_def)
qed

text \<open>What a dual span leaves, given what was opened.\<close>

definition lex_dual_leave ::
  "('sp, 'w) rustracing \<Rightarrow> shared_span \<times> shared_span option \<Rightarrow> ('sp, 'w) lex_state \<Rightarrow> ('sp, 'w) lex_state \<Rightarrow>
   ('sp, 'w) lex_state" where
  "lex_dual_leave rt hs e e' =
     opt_state (\<lambda>_. lex_leave rt User (lx_current e User)) (snd hs) (lex_leave rt System (lx_current e System) e')"

lemma lex_dual_leave_closed:
  assumes "\<forall>p h. dual_handles hs p = Some h \<longrightarrow> cs p = Some h"
  shows "lex_dual_leave rt hs e (lex_at rt cs st) =
    (lex_at rt cs st)
      \<lparr>lx_current := (\<lambda>p. if dual_handles hs p = None then lx_current (lex_at rt cs st) p else lx_current e p),
       lx_finished := (\<lambda>q. finished q (closed rt (dual_handles hs) st)), lx_world := ts_world (closed rt (dual_handles hs) st)\<rparr>"
  using lex_closed [OF assms, where outer = "lx_current e" and rt = rt and st = st]
  by (simp add: lex_dual_leave_def opt_state_def)

lemma dual_block:
  fixes run :: "('l, 't, 'sp, 'w) block"
  assumes doc: "rustracing_documented rt" and ok: "state_ok rt th st" and opens: "dual_opens rt th hs st st2"
    and body: "block_refines rt th run sem" and st4: "st4 = dual_scope_drop rt th hs (run st2)"
  shows "ts_stacks st4 = ts_stacks st \<and> \<not> ts_panicked st4 \<and>
    agree rt (top_cells th st) (\<lambda>p. n_cells p st) st st4 \<and>
    lex_of rt th st4 = lex_dual_leave rt hs (lex_of rt th st) (sem (lex_of rt th st2))"
proof -
  let ?hs = "dual_handles hs"
  let ?st3 = "run st2"
  note ent = dual_opensD(1) [OF opens]
  note st3 = refs_kept [OF body entered_ok [OF ok ent]]
  have cur: "current_handle p th ?st3 = in_scope ?hs th st p" for p
    using st3(1) enteredD(2) [OF ent, of p] by (simp add: current_handle_def in_scope_def)
  have h: "\<forall>p g. ?hs p = Some g \<longrightarrow> current_handle p th ?st3 = Some g"
    by (simp add: cur in_scope_def)
  have "i < n_cells p ?st3 \<and> cell_refs p i ?st3 = 2" if "?hs p = Some g" "handle_cell g = Some i" for p g i
    using dual_opensD(3) [OF opens that] st3(2) [of p] st3(3) [of i p] by simp
  then have two: "\<forall>p g i. ?hs p = Some g \<longrightarrow> handle_cell g = Some i \<longrightarrow> i < n_cells p ?st3 \<and> cell_refs p i ?st3 = 2"
    by blast
  have st4': "st4 = dual_scope_drop rt th (fst hs, ?hs User) ?st3"
    by (simp add: st4)
  note drop = dual_scope_drop_last [where hs = ?hs, OF doc dual_handles_simps(1) h two st4']
  have c1: "ts_stacks st4 = ts_stacks st"
    using drop(1) dual_opensD(2) [OF opens] by (simp add: st3(1))
  have c4: "cell_refs q i st4 = cell_refs q i st"
    if "i < n_cells q st" "cell_refs q i ?st3 = cell_refs q i st2" for q i
    using drop(5) [where q = q and j = i] that dual_opensD(4) [OF opens that(1)] enteredD(7) [OF ent, of q _ i]
      st3(2) [of q] enteredD(4) [OF ent, of q]
    by (auto simp: bind_eq_Some_conv)
  have c5: "cell_span q i st4 = cell_span q i ?st3" if "i < n_cells q st4" for q i
    using that drop(3,4) [where q = q] by simp
  note res = scoped_block [OF ok ent body c1 drop(2) drop(3) c4 c5]
  have sem: "sem (lex_of rt th st2) = lex_at rt (in_scope ?hs th st) ?st3"
    using st3(4) lex_of_at [OF cur] by simp
  have "\<forall>p h. ?hs p = Some h \<longrightarrow> in_scope ?hs th st p = Some h"
    by (simp add: in_scope_def)
  note leave = lex_dual_leave_closed [OF this, of rt "lex_of rt th st" ?st3]
  have fin: "finished q (closed rt ?hs ?st3) = finished q st4" "ts_world (closed rt ?hs ?st3) = ts_world st4" for q
    using drop(6) [where q = q] drop(7) by simp_all
  show ?thesis
    using res unfolding sem leave fin .
qed

lemma lex_dual_is:
  assumes "snd hs = None \<longleftrightarrow> lx_current e User = None"
  shows "lex_dual rt settings name body e = lex_dual_leave rt hs e (body (lex_dual_open rt settings name e))"
  using assms by (cases "snd hs") (auto simp: lex_dual_def lex_dual_leave_def opt_state_def Let_def)

lemma refines_dual:
  fixes run :: "('l, 't, 'sp, 'w) block"
  assumes doc: "rustracing_documented rt" and body: "block_refines rt th run sem"
  shows "block_refines rt th
    (\<lambda>st. case dual_span rt settings th name st of (hs, st) \<Rightarrow> dual_scope_drop rt th hs (run st))
    (lex_dual rt settings name sem)"
  unfolding block_refines_def
proof (intro allI impI)
  fix st :: "('l, 't, 'sp, 'w) trace_state"
  assume ok: "state_ok rt th st"
  obtain hs st2 where dual: "dual_span rt settings th name st = (hs, st2)"
    by fastforce
  note opens = dual_span_opens [OF doc ok dual]
  show "ts_stacks (case dual_span rt settings th name st of (hs, st) \<Rightarrow> dual_scope_drop rt th hs (run st)) = ts_stacks st \<and>
      \<not> ts_panicked (case dual_span rt settings th name st of (hs, st) \<Rightarrow> dual_scope_drop rt th hs (run st)) \<and>
      agree rt (top_cells th st) (\<lambda>p. n_cells p st) st
        (case dual_span rt settings th name st of (hs, st) \<Rightarrow> dual_scope_drop rt th hs (run st)) \<and>
      lex_of rt th (case dual_span rt settings th name st of (hs, st) \<Rightarrow> dual_scope_drop rt th hs (run st)) =
        lex_dual rt settings name sem (lex_of rt th st)"
    unfolding dual prod.case lex_dual_is [OF opens(2)] opens(3) [symmetric]
    by (rule dual_block [OF doc ok opens(1) body refl])
qed

section \<open>Blocks in futures\<close>

lemma fold_concat: "fold (fold f) xss = fold f (concat xss)"
  by (induction xss) (simp_all add: fun_eq_iff)

lemma future_of_dual:
  fixes run :: "'b \<Rightarrow> ('l, 't, 'sp, 'w) block"
  assumes doc: "rustracing_documented rt" and ok: "state_ok rt th st" and opens: "dual_opens rt th hs st st2"
    and body: "\<And>poll. poll \<in> set polls \<Longrightarrow> block_refines rt th (run poll) (sem poll)"
    and st5: "st5 = (case dual_into_context rt root_log th hs st2 of (c, st) \<Rightarrow> run_polls rt th c run polls st)"
  shows "ts_stacks st5 = ts_stacks st \<and> \<not> ts_panicked st5 \<and>
    agree rt (top_cells th st) (\<lambda>p. n_cells p st) st st5 \<and>
    lex_of rt th st5 = lex_dual_leave rt hs (lex_of rt th st) (fold sem polls (lex_of rt th st2))"
proof -
  have "st5 = (case dual_into_context rt root_log th (fst hs, dual_handles hs User) st2 of (c, st) \<Rightarrow>
      run_polls rt th c run polls st)"
    by (simp add: st5)
  from opened_future [OF doc ok dual_opensD(1) [OF opens] dual_handles_simps(1) dual_opensD(2) [OF opens]
      dual_opensD(3) [OF opens] dual_opensD(4) [OF opens] body this]
  show ?thesis
    by (simp add: lex_dual_leave_def)
qed

lemma refines_dual_future:
  fixes run :: "'b \<Rightarrow> ('l, 't, 'sp, 'w) block"
  assumes doc: "rustracing_documented rt"
    and body: "\<And>poll. poll \<in> set polls \<Longrightarrow> block_refines rt th (run poll) (sem poll)"
  shows "block_refines rt th
    (\<lambda>st. case dual_span rt settings th name st of (hs, st) \<Rightarrow>
       case dual_into_context rt root_log th hs st of (c, st) \<Rightarrow> run_polls rt th c run polls st)
    (lex_dual rt settings name (fold sem polls))"
    (is "block_refines rt th ?run _")
  unfolding block_refines_def
proof (intro allI impI)
  fix st :: "('l, 't, 'sp, 'w) trace_state"
  assume ok: "state_ok rt th st"
  obtain hs st2 where dual: "dual_span rt settings th name st = (hs, st2)"
    by fastforce
  note opens = dual_span_opens [OF doc ok dual]
  show "ts_stacks (?run st) = ts_stacks st \<and> \<not> ts_panicked (?run st) \<and>
      agree rt (top_cells th st) (\<lambda>p. n_cells p st) st (?run st) \<and>
      lex_of rt th (?run st) = lex_dual rt settings name (fold sem polls) (lex_of rt th st)"
    unfolding dual prod.case lex_dual_is [OF opens(2)] opens(3) [symmetric]
    by (rule future_of_dual [OF doc ok opens(1) body refl])
qed

lemma refines_future:
  fixes run :: "'b \<Rightarrow> ('l, 't, 'sp, 'w) block"
  assumes doc: "rustracing_documented rt"
    and body: "\<And>poll. poll \<in> set polls \<Longrightarrow> block_refines rt th (run poll) (sem poll)"
  shows "block_refines rt th
    (\<lambda>st. case tracing_span rt settings th name st of (h, st) \<Rightarrow>
       case into_context rt root_log th h st of (c, st) \<Rightarrow> run_polls rt th c run polls st)
    (lex_span rt settings name (fold sem polls))"
    (is "block_refines rt th ?run _")
  unfolding block_refines_def
proof (intro allI impI)
  fix st :: "('l, 't, 'sp, 'w) trace_state"
  assume ok: "state_ok rt th st"
  note create = creates_child [OF doc creates_start_trace [OF doc, where name = name and options = start_trace_options_default],
    where p = System and name = name]
  obtain s st0 where cr: "create_or_start rt th name st = (s, st0)"
    by fastforce
  obtain h st1 where sh: "shared_span rt settings System s st0 = (h, st1)"
    by fastforce
  let ?st2 = "span_scope_new System th h st1"
  have "tracing_span rt settings th name st = (h, ?st2)"
    unfolding tracing_span_def create_span_def cr prod.case sh ..
  then have run: "?run st = (case dual_into_context rt root_log th (h, None) ?st2 of (c, st) \<Rightarrow> run_polls rt th c run polls st)"
    by (simp add: dual_into_context_def split: prod.split)
  have sem: "lex_span rt settings name (fold sem polls) (lex_of rt th st) =
      lex_dual_leave rt (h, None) (lex_of rt th st) (fold sem polls (lex_of rt th ?st2))"
    unfolding span_opened(5) [OF doc create ok cr sh] lex_span_def lex_orphan_span_def lex_dual_leave_def
    by (simp add: opt_state_def)
  show "ts_stacks (?run st) = ts_stacks st \<and> \<not> ts_panicked (?run st) \<and>
      agree rt (top_cells th st) (\<lambda>p. n_cells p st) st (?run st) \<and>
      lex_of rt th (?run st) = lex_span rt settings name (fold sem polls) (lex_of rt th st)"
    unfolding sem by (rule future_of_dual [OF doc ok span_opens [OF doc create ok cr sh] body run])
qed

section \<open>Forks\<close>

abbreviation fork_create where
  "fork_create rt th name st \<equiv>
     (if case_option False sh_is_sampled (current_handle System th st)
      then start_trace rt th name (start_trace_options_default\<lparr>sto_override_sampling_ratio := Some f64_one\<rparr>) st
      else (rt_inactive rt, st))"

lemma creates_fork:
  fixes rt :: "('sp, 'w) rustracing"
  assumes doc: "rustracing_documented rt"
  shows "creates rt th (fork_create rt th name) (lex_fork rt name)"
  unfolding creates_def
proof (intro allI impI)
  fix st :: "('l, 't, 'sp, 'w) trace_state"
  assume ok: "state_ok rt th st"
  note cur = current_lex [OF doc ok, of System]
  have cond: "(case_option False sh_is_sampled (current_handle System th st)) \<longleftrightarrow>
    (case_option False (is_sampled rt) (lx_current (lex_of rt th st) System))"
    using cur by (cases "current_handle System th st") auto
  show "ts_stacks (snd (fork_create rt th name st)) = ts_stacks st \<and>
      ts_panicked (snd (fork_create rt th name st)) = ts_panicked st \<and>
      (\<forall>q. st_cells (ts_store (snd (fork_create rt th name st)) q) = st_cells (ts_store st q)) \<and>
      fst (fork_create rt th name st) = fst (lex_fork rt name (lex_of rt th st)) \<and>
      lex_of rt th (snd (fork_create rt th name st)) = snd (lex_fork rt name (lex_of rt th st))"
  proof (cases "case_option False (is_sampled rt) (lx_current (lex_of rt th st) System)")
    case True
    show ?thesis
      unfolding lex_fork_def cond if_P [OF True]
      using creates_start_trace [OF doc, unfolded creates_def, rule_format, OF ok] by simp
  next
    case False
    show ?thesis
      unfolding lex_fork_def cond if_not_P [OF False] by simp
  qed
qed

lemma more_references:
  assumes "state_ok rt th st"
  shows "state_ok rt th (adjust_spans hs Suc st)" "lex_of rt th (adjust_spans hs Suc st) = lex_of rt th st"
proof -
  let ?st' = "adjust_spans hs Suc st"
  have cur: "current_handle p th ?st' = current_handle p th st" for p
    by (simp add: current_handle_def)
  have "handle_ok rt p h ?st'" if "on_stack p th h ?st'" for p h
  proof (rule handle_ok_more)
    show "handle_ok rt p h st"
      using assms that by (simp add: state_ok_def on_stack_def)
  qed simp_all
  then show "state_ok rt th ?st'"
    using assms by (simp add: state_ok_def)
  have "lex_at rt (\<lambda>p. current_handle p th st) ?st' = lex_at rt (\<lambda>p. current_handle p th st) st"
  proof (rule lex_at_spans)
    fix p g i
    assume g: "current_handle p th st = Some g" "handle_cell g = Some i"
    with state_okD [OF assms current_on_stack [OF g(1)]] show "cell_span p i ?st' = cell_span p i st"
      by (simp add: handle_ok_def)
  qed simp_all
  then show "lex_of rt th ?st' = lex_of rt th st"
    unfolding lex_of_at [of th _ "\<lambda>p. current_handle p th st", OF cur] lex_of_at [of th st, OF refl] .
qed

lemma current_cell:
  assumes "state_ok rt th st" "Option.bind (current_handle p th st) handle_cell = Some i"
  shows "i < n_cells p st \<and> 0 < cell_refs p i st"
proof -
  obtain h where "current_handle p th st = Some h" "handle_cell h = Some i"
    using assms(2) by (auto simp: bind_eq_Some_conv)
  with state_okD [OF assms(1) current_on_stack] show ?thesis
    by (fastforce simp: handle_ok_def)
qed

text \<open>The scope of the current context with a forked trace, after the temporaries are gone.\<close>

lemma fork_opened:
  assumes doc: "rustracing_documented rt" and ok: "state_ok rt th st"
    and eqs: "telemetry_context_current root_log th st = (current, stA)"
      "with_forked_trace rt settings th name current stA = (c, stW)"
      "st2 = context_drop rt current (context_drop rt c (telemetry_scope_new th c stW))"
  shows "\<exists>h. context_spans c = in_scope (dual_handles (h, None)) th st \<and>
    entered rt th (dual_handles (h, None)) st st2 \<and> ts_stacks st2 = context_scope th c (ts_stacks st) \<and>
    (\<forall>i. handle_cell h = Some i \<longrightarrow> i < n_cells System st2 \<and> cell_refs System i st2 = 2) \<and>
    (\<forall>q i. i < n_cells q st \<longrightarrow> cell_refs q i st2 = cell_refs q i st +
      (if q = User \<and> Option.bind (current_handle User th st) handle_cell = Some i then 2 else 0)) \<and>
    lex_of rt th st2 = lex_enter rt settings System (lex_fork rt name (lex_of rt th st))"
proof -
  let ?cur = "\<lambda>p. current_handle p th st"
  have current: "current = context_current root_log th (ts_stacks st)" "stA = adjust_spans ?cur Suc st"
    using eqs(1) by (auto simp: telemetry_context_current_def Let_def context_clone_spans)
  note okA = more_references(1) [OF ok, of ?cur, folded current(2)]
    and lexA = more_references(2) [OF ok, of ?cur, folded current(2)]
  obtain s st0 where cr: "fork_create rt th name stA = (s, st0)"
    by fastforce
  obtain h st1 where sh: "shared_span rt settings System s st0 = (h, st1)"
    by fastforce
  have "fork_trace rt settings th name stA = (h, st1)"
    using cr sh by (auto simp: fork_trace_def split: if_splits)
  then have c: "c = current\<lparr>tc_span := Some h\<rparr>" "stW = opt_adjust User (?cur User) Suc st1"
    using eqs(2) by (simp_all add: with_forked_trace_def opt_clone current(1))
  have cs: "context_spans c p = in_scope (dual_handles (h, None)) th st p" for p
    by (cases p) (simp_all add: context_spans_def in_scope_def c(1) current(1))
  note sh1 = shared_cells [OF doc sh]
  note cr' = creates_fork [OF doc, where name = name, unfolded creates_def, rule_format, OF okA, unfolded cr fst_conv snd_conv lexA]
  have nA: "n_cells p stA = n_cells p st" "i < n_cells p st \<Longrightarrow> cell_span p i stA = cell_span p i st" for p i
    by (simp_all add: current(2))
  have n0: "n_cells p st0 = n_cells p st" "i < n_cells p st \<Longrightarrow> cell_span p i st0 = cell_span p i st"
    "cell_refs p i st0 = cell_refs p i stA" for p i
    using same_cells [of st0 stA] cr' nA by auto
  let ?cs = "context_spans c"
  let ?stN = "(adjust_spans ?cs (\<lambda>n. n + 2) stW)\<lparr>ts_stacks := context_scope th c (ts_stacks st)\<rparr>"
  let ?stD = "adjust_spans ?cs (\<lambda>n. n - 1) ?stN"
  have new: "telemetry_scope_new th c stW = ?stN"
    using cr' sh1(1) by (simp add: telemetry_scope_new_spans c(2) current(2))
  have cur: "i < n_cells p st \<and> 0 < cell_refs p i st" if "Option.bind (?cur p) handle_cell = Some i" for p i
    using current_cell [OF ok that] .
  have n1: "n_cells p st \<le> n_cells p st1" for p
    using sh1(5) [of p] n0(1) [of p] by simp
  have old: "cell_refs p i st1 = cell_refs p i st + (if Option.bind (?cur p) handle_cell = Some i then 1 else 0)"
    "cell_span p i st1 = cell_span p i st" if "i < n_cells p st" for p i
    using sh1(6) [of i p] n0 that by (simp_all add: current(2))
  have h: "handle_cell h = Some i \<Longrightarrow> i = n_cells System st \<and> i < n_cells System st1 \<and> cell_refs System i st1 = 1" for i
    using sh1(5) [of System] sh1(7) [of i] n0(1) [of System] by auto
  have cs_cell: "i < n_cells p st1 \<and> 0 < cell_refs p i st1" if "Option.bind (?cs p) handle_cell = Some i" for p i
    using that cur [of p i] h [of i] n1 [of p] old [of i p]
    by (cases p) (auto simp: cs in_scope_def intro: less_le_trans)
  have drop1: "context_drop rt c ?stN = ?stD"
    using cs_cell by (intro context_drop_spans) (simp add: c(2))
  let ?st2 = "adjust_spans ?cur (\<lambda>n. n - 1) ?stD"
  have spans_current: "context_spans current = ?cur"
    by (simp add: current(1))
  have refsD: "cell_refs p i ?stD = cell_refs p i st + (if Option.bind (?cur p) handle_cell = Some i then
      (if p = User then 3 else 1) else 0)" if "i < n_cells p st" for p i
    using old(1) [OF that] n1 [of p] that h [of i]
    by (cases p) (auto simp: c(2) cs in_scope_def)
  have drop2: "context_drop rt current ?stD = ?st2"
    unfolding spans_current [symmetric]
  proof (rule context_drop_spans)
    fix p i
    assume "Option.bind (context_spans current p) handle_cell = Some i"
    then have i: "Option.bind (?cur p) handle_cell = Some i"
      by (simp add: spans_current)
    show "i < n_cells p ?stD \<and> cell_refs p i ?stD \<noteq> 1"
      using refsD [of i p] cur [OF i] n1 [of p] i by (simp add: c(2))
  qed
  have st2: "st2 = ?st2"
    unfolding eqs(3) new drop1 drop2 ..
  have n2: "n_cells p ?st2 = n_cells p st1" for p
    by (simp add: c(2))
  have refs2: "cell_refs p i ?st2 = cell_refs p i st +
      (if p = User \<and> Option.bind (?cur User) handle_cell = Some i then 2 else 0)" if "i < n_cells p st" for p i
    using refsD [OF that] n1 [of p] that cur [of p i] by (cases p) (simp_all add: c(2))
  have spans2: "cell_span p i ?st2 = cell_span p i st1" if "i < n_cells p st1" for p i
    using that by (simp add: c(2))
  have two: "i < n_cells System ?st2 \<and> cell_refs System i ?st2 = 2" if "handle_cell h = Some i" for i
    using h [OF that] cur [of System i] that by (auto simp: c(2) cs in_scope_def)
  have stacks2: "ts_stacks ?st2 = context_scope th c (ts_stacks st)"
    by simp
  have cur2: "current_handle p th ?st2 = in_scope (dual_handles (h, None)) th st p" for p
  proof -
    have "current_handle p th ?st2 = (case ?cs p of None \<Rightarrow> ?cur p | Some h \<Rightarrow> Some h)"
      using context_scope_stacks(1) [where p = p and th = th and c = c and st = st and st' = st] by (simp add: current_handle_def)
    then show ?thesis
      by (cases "dual_handles (h, None) p"; cases "?cur p") (simp_all add: cs in_scope_def)
  qed
  have on2: "on_stack p th g st \<or> dual_handles (h, None) p = Some g" if "on_stack p th g ?st2" for p g
  proof -
    have "on_stack p th g (st\<lparr>ts_stacks := context_scope th c (ts_stacks st)\<rparr>)"
      using that by (simp add: on_stack_def)
    from context_scope_stacks(2) [OF this] show ?thesis
      using current_on_stack [of p th st g] by (cases p) (auto simp: cs in_scope_def)
  qed
  have handle: "handle_ok rt System h ?st2"
  proof (cases "handle_cell h")
    case None
    then show ?thesis
      using sh1(8) by (simp add: handle_ok_def)
  next
    case (Some i)
    have "cell_span System i ?st2 = s"
      using spans2 [of i System] h [OF Some] sh1(7) [OF Some] by blast
    moreover note two [OF Some, THEN conjunct1] two [OF Some, THEN conjunct2]
    ultimately show ?thesis
      unfolding handle_ok_def Some option.case by (simp only: sh1(9)) simp
  qed
  have np: "\<not> ts_panicked ?st2"
    using cr' sh1(2) okA by (simp add: c(2) state_ok_def)
  have ent: "entered rt th (dual_handles (h, None)) st ?st2"
    unfolding entered_def
  proof (intro conjI allI impI)
    show "current_handle p th ?st2 = (case dual_handles (h, None) p of None \<Rightarrow> ?cur p | Some h \<Rightarrow> Some h)" for p
      using cur2 by (simp add: in_scope_def)
    show "n_cells p st \<le> n_cells p ?st2" for p
      using n1 n2 by simp
    show "cell_refs p i st \<le> cell_refs p i ?st2" "cell_span p i ?st2 = cell_span p i st" if "i < n_cells p st" for p i
      using refs2 [OF that] spans2 [of i p] old(2) [OF that] n1 [of p] that by simp_all
    show "handle_ok rt p g ?st2" if "dual_handles (h, None) p = Some g" for p g
      using that handle by (cases p) simp_all
    show "n_cells p st \<le> i" if "dual_handles (h, None) p = Some g" "handle_cell g = Some i" for p g i
      using that h by (cases p) auto
  qed (use np on2 in blast)+
  have same: "lx_current (lex_of rt th st0) = lx_current (lex_of rt th st)"
    using same_cells_ok(3) [of st0 stA rt th] cr' unfolding lexA by blast
  have read: "with_read rt p g ?st2 = with_read rt p g st" if "?cur p = Some g" for p g
    by (rule with_read_outer [OF ok that])
      (rule trans [OF spans2 [OF less_le_trans [OF _ n1]] old(2)])
  have "i < n_cells System st1" if "handle_cell h = Some i" for i
    using h [OF that] by blast
  then have "with_read rt System h ?st2 = with_read rt System h st1"
    using spans2 by (simp add: with_read_cell del: adjust_spans_fields split: option.split)
  then have "map_option (\<lambda>h. with_read rt p h ?st2) (current_handle p th ?st2) =
      ((lx_current (lex_of rt th st0))(System \<mapsto> kept rt settings System s)) p" for p
    using read [of p] kept_read [OF doc sh] unfolding cur2 same
    by (cases p; cases "?cur p") (simp_all add: in_scope_def lex_of_def)
  then have "lx_current (lex_of rt th ?st2) = (lx_current (lex_of rt th st0))(System \<mapsto> kept rt settings System s)"
    by (simp add: lex_of_def fun_eq_iff)
  moreover have "finished q ?st2 = finished q st0" "ts_world ?st2 = ts_world st0" for q
    using sh1(3,4) by (simp_all add: c(2))
  ultimately have "lex_of rt th ?st2 = lex_enter rt settings System (s, lex_of rt th st0)"
    by (intro lex_state.equality) (simp_all add: lex_enter_def, simp_all add: lex_of_def)
  moreover have "lex_fork rt name (lex_of rt th st) = (s, lex_of rt th st0)"
    using cr' by (simp add: prod_eq_iff)
  ultimately have lex: "lex_of rt th ?st2 = lex_enter rt settings System (lex_fork rt name (lex_of rt th st))"
    by simp
  have "?cs = in_scope (dual_handles (h, None)) th st"
    using cs by (simp add: fun_eq_iff)
  with ent stacks2 two refs2 lex show ?thesis
    unfolding st2 by blast
qed

lemma refines_fork:
  fixes run :: "('l, 't, 'sp, 'w) block"
  assumes doc: "rustracing_documented rt" and body: "block_refines rt th run sem"
  shows "block_refines rt th
    (\<lambda>st. case telemetry_context_current root_log th st of (current, st) \<Rightarrow>
       case with_forked_trace rt settings th name current st of (c, st) \<Rightarrow>
         let st = context_drop rt current (context_drop rt c (telemetry_scope_new th c st))
         in telemetry_scope_end rt th c (run st))
    (\<lambda>e. lex_leave rt System (lx_current e System) (sem (lex_enter rt settings System (lex_fork rt name e))))"
    (is "block_refines rt th ?run ?sem")
  unfolding block_refines_def
proof (intro allI impI)
  fix st :: "('l, 't, 'sp, 'w) trace_state"
  assume ok: "state_ok rt th st"
  obtain current stA where cur: "telemetry_context_current root_log th st = (current, stA)"
    by fastforce
  obtain c stW where c: "with_forked_trace rt settings th name current stA = (c, stW)"
    by fastforce
  define st2 where st2: "st2 = context_drop rt current (context_drop rt c (telemetry_scope_new th c stW))"
  obtain h where cs: "context_spans c = in_scope (dual_handles (h, None)) th st"
    and ent: "entered rt th (dual_handles (h, None)) st st2"
    and stacks: "ts_stacks st2 = context_scope th c (ts_stacks st)"
    and two: "\<forall>i. handle_cell h = Some i \<longrightarrow> i < n_cells System st2 \<and> cell_refs System i st2 = 2"
    and refs: "\<forall>q i. i < n_cells q st \<longrightarrow> cell_refs q i st2 = cell_refs q i st +
      (if q = User \<and> Option.bind (current_handle User th st) handle_cell = Some i then 2 else 0)"
    and lex: "lex_of rt th st2 = lex_enter rt settings System (lex_fork rt name (lex_of rt th st))"
    using fork_opened [OF doc ok cur c st2] by blast
  let ?st3 = "run st2"
  let ?st4 = "telemetry_scope_end rt th c ?st3"
  have run: "?run st = ?st4"
    by (simp add: cur c st2 Let_def)
  note st3 = refs_kept [OF body entered_ok [OF ok ent]]
  have spans: "tc_span c = Some h" "tc_user_span c = current_handle User th st"
    using fun_cong [OF cs, of System] fun_cong [OF cs, of User]
    by (simp_all add: context_spans_def in_scope_def)
  have cur3: "current_handle System th ?st3 = Some h" "current_handle User th ?st3 = tc_user_span c"
    using st3(1) enteredD(2) [OF ent, of System] enteredD(2) [OF ent, of User]
    by (simp_all add: current_handle_def spans)
  have h3: "i < n_cells System ?st3 \<and> cell_refs System i ?st3 = 2" if "handle_cell h = Some i" for i
    using two that st3(2) [of System] st3(3) [of i System] by auto
  have u3: "i < n_cells User ?st3 \<and> 2 < cell_refs User i ?st3"
    if "Option.bind (tc_user_span c) handle_cell = Some i" for i
    using current_cell [OF ok that [unfolded spans(2)]] refs that st3(2) [of User] st3(3) [of i User]
      enteredD(4) [OF ent, of User]
    by (simp add: spans)
  let ?l = "?st3\<lparr>ts_stacks := (ts_stacks ?st3)\<lparr>log_scopes := scope_drop th (log_scopes (ts_stacks ?st3))\<rparr>\<rparr>"
  let ?a = "(finish_span rt System (with_read rt System h ?l) (adjust System h (\<lambda>n. n - 1) (adjust System h (\<lambda>n. n - 1) ?l)))
    \<lparr>ts_stacks := map_stack System (scope_drop th) (ts_stacks ?l)\<rparr>"
  let ?b = "(opt_adjust User (tc_user_span c) (\<lambda>n. n - 2) ?a)
    \<lparr>ts_stacks := map_stack User (scope_drop_opt th (tc_user_span c)) (ts_stacks ?a)\<rparr>"
  have "current_handle System th ?l = Some h" "current_handle User th ?a = tc_user_span c"
    using cur3 by (simp_all add: current_handle_def stack_of_def map_stack_def)
  note curs = this
  have "span_scope_drop rt System th h ?l = ?a"
    using h3 by (intro span_scope_drop_last [OF doc curs(1)]) simp
  then have sys: "opt_state (span_scope_drop rt System th) (tc_span c) ?l = ?a"
    by (simp only: spans(1) opt_state_def option.case)
  have user: "opt_state (span_scope_drop rt User th) (tc_user_span c) ?a = ?b"
    using u3 curs(2) by (intro opt_scope_drop_alias) simp_all
  have st4: "?st4 = ?b\<lparr>ts_stacks := telemetry_scope_drop th c (ts_stacks ?st3)\<rparr>"
    unfolding telemetry_scope_end_def Let_def sys user
    by (cases "ts_stacks ?st3") (simp add: telemetry_scope_drop_def map_stack_def scope_drop_opt_def [of th "Some h"] spans(1)
      opt_adjust_stacks)
  have drop: "telemetry_scope_drop th c (ts_stacks ?st3) = ts_stacks st"
    by (simp add: st3(1) stacks)
  have c1: "ts_stacks ?st4 = ts_stacks st"
    unfolding st4 by (simp add: drop)
  have c2: "ts_panicked ?st4 = ts_panicked ?st3" and c3: "n_cells q ?st4 = n_cells q ?st3" for q
    unfolding st4 by simp_all
  have c4: "cell_refs q i ?st4 = cell_refs q i st"
    if i: "i < n_cells q st" "cell_refs q i ?st3 = cell_refs q i st2" for q i
    using refs i enteredD(4) [OF ent, of q] st3(2) [of q] enteredD(7) [OF ent, of q _ i]
    unfolding st4 by (cases q) (auto simp: spans)
  have c5: "cell_span q i ?st4 = cell_span q i ?st3" if "i < n_cells q ?st4" for q i
    using that unfolding st4 by simp
  have "with_read rt System h ?l = with_read rt System h ?st3"
    by simp
  then have fin: "finished q (closed rt (dual_handles (h, None)) ?st3) = finished q ?st4"
    "ts_world (closed rt (dual_handles (h, None)) ?st3) = ts_world ?st4" for q
    unfolding st4 by (simp_all add: closed_def opt_state_def)
  have cur4: "current_handle p th ?st3 = in_scope (dual_handles (h, None)) th st p" for p
    using cur3 by (cases p) (simp_all add: in_scope_def spans)
  have sem: "sem (lex_of rt th st2) = lex_at rt (in_scope (dual_handles (h, None)) th st) ?st3"
    using st3(4) lex_of_at [OF cur4] by simp
  have "\<forall>p g. dual_handles (h, None) p = Some g \<longrightarrow> in_scope (dual_handles (h, None)) th st p = Some g"
    by (simp add: in_scope_def)
  note leave = lex_dual_leave_closed [OF this, of rt "lex_of rt th st" ?st3]
  have close: "?sem (lex_of rt th st) = lex_dual_leave rt (h, None) (lex_of rt th st) (sem (lex_of rt th st2))"
    by (simp add: lex_dual_leave_def opt_state_def lex)
  show "ts_stacks (?run st) = ts_stacks st \<and> \<not> ts_panicked (?run st) \<and>
      agree rt (top_cells th st) (\<lambda>p. n_cells p st) st (?run st) \<and>
      lex_of rt th (?run st) = ?sem (lex_of rt th st)"
    unfolding run close sem leave fin
    by (rule scoped_block [OF ok ent body c1 c2 c3 c4 c5, unfolded sem])
qed

section \<open>Programs refine their lexical meaning\<close>

lemma refines_scoped:
  fixes rt :: "('sp, 'w) rustracing"
  assumes doc: "rustracing_documented rt"
  shows "block_refines rt th (run_scoped rt settings root_log th x :: ('l, 't, 'sp, 'w) block) (run_lex rt settings x)"
proof (induction x)
  case (InDualSpan name body)
  have "block_refines rt th (fold (run_scoped rt settings root_log th) body :: ('l, 't, 'sp, 'w) block) (fold (run_lex rt settings) body)"
    by (rule block_refines_fold) (rule InDualSpan)
  from refines_dual [OF doc this] show ?case
    unfolding run_scoped.simps [abs_def] run_lex.simps [abs_def] .
next
  case (InFork name body)
  have "block_refines rt th (fold (run_scoped rt settings root_log th) body :: ('l, 't, 'sp, 'w) block) (fold (run_lex rt settings) body)"
    by (rule block_refines_fold) (rule InFork)
  from refines_fork [OF doc this] show ?case
    unfolding run_scoped.simps [abs_def] run_lex.simps [abs_def] .
next
  case (InFuture name polls)
  show ?case
    unfolding run_scoped.simps [abs_def] run_lex.simps [abs_def] fold_concat [symmetric]
    by (rule refines_future [OF doc], rule block_refines_fold, rule InFuture)
next
  case (InDualFuture name polls)
  show ?case
    unfolding run_scoped.simps [abs_def] run_lex.simps [abs_def] fold_concat [symmetric]
    by (rule refines_dual_future [OF doc], rule block_refines_fold, rule InDualFuture)
qed (rule refines_in_span [OF doc], assumption | rule refines_write [OF doc])+


lemma block_refines_program:
  fixes rt :: "('sp, 'w) rustracing"
  assumes "rustracing_documented rt"
  shows "block_refines rt th (fold (run_scoped rt settings root_log th) program :: ('l, 't, 'sp, 'w) block)
    (fold (run_lex rt settings) program)"
  by (rule block_refines_fold) (rule refines_scoped [OF assms])

definition lex_state_new :: "'w \<Rightarrow> ('sp, 'w) lex_state" where
  "lex_state_new w = \<lparr>lx_current = (\<lambda>_. None), lx_finished = (\<lambda>_. []), lx_world = w\<rparr>"

lemma stack_of_new [simp]: "stack_of p no_scopes th = []"
  by (cases p) (simp_all add: stack_of_def no_scopes_def)

lemma trace_state_new_ok:
  "state_ok rt th (trace_state_new w)" "lex_of rt th (trace_state_new w) = lex_state_new w"
  by (simp_all add: state_ok_def on_stack_def trace_state_new_def lex_of_def lex_state_new_def
      current_handle_def scope_current_def)

lemma run_program:
  fixes rt :: "('sp, 'w) rustracing" and st :: "('l, 't, 'sp, 'w) trace_state"
  assumes doc: "rustracing_documented rt"
    and st: "st = fold (run_scoped rt settings root_log th) program (trace_state_new w)"
  shows "ts_stacks st = no_scopes" "\<not> ts_panicked st"
    "lex_of rt th st = fold (run_lex rt settings) program (lex_state_new w)"
proof -
  have "block_refines rt th (fold (run_scoped rt settings root_log th) program :: ('l, 't, 'sp, 'w) block)
      (fold (run_lex rt settings) program)"
    by (rule block_refines_program [OF doc])
  note run = this [unfolded block_refines_def, rule_format, OF trace_state_new_ok(1), of w,
      folded st, unfolded trace_state_new_ok(2)]
  then show "ts_stacks st = no_scopes" "\<not> ts_panicked st"
    "lex_of rt th st = fold (run_lex rt settings) program (lex_state_new w)"
    by (auto simp: trace_state_new_def)
qed

section \<open>The spans of user traces\<close>

text \<open>What the consumer of the user tracer receives for a block: names and routing metadata, in the
  order of the ends of the scopes, given the routing metadata of the active user span, if any.\<close>

fun user_spans ::
  "routing_metadata option option \<Rightarrow> scoped \<Rightarrow> (string \<times> routing_metadata option) list" where
  "user_spans r (InSpan name body) = concat (map (user_spans r) body)"
| "user_spans r (InUserSpan name body) =
     concat (map (user_spans r) body) @ (case r of None \<Rightarrow> [] | Some m \<Rightarrow> [(name, m)])"
| "user_spans r (InDualSpan name body) =
     concat (map (user_spans r) body) @ (case r of None \<Rightarrow> [] | Some m \<Rightarrow> [(name, m)])"
| "user_spans r (InTrace name options body) = concat (map (user_spans r) body)"
| "user_spans r (InUserTrace name routing inbound body) =
     concat (map (user_spans (Some (Some routing))) body) @ [(name, Some routing)]"
| "user_spans r (InFork name body) = concat (map (user_spans r) body)"
| "user_spans r (InFuture name polls) = concat (map (\<lambda>poll. concat (map (user_spans r) poll)) polls)"
| "user_spans r (InDualFuture name polls) =
     concat (map (\<lambda>poll. concat (map (user_spans r) poll)) polls) @ (case r of None \<Rightarrow> [] | Some m \<Rightarrow> [(name, m)])"
| "user_spans r (WriteSpan p wr) = []"

definition span_ident :: "finished_span \<Rightarrow> string \<times> routing_metadata option" where
  "span_ident v = (fs_operation_name v, fs_routing v)"

definition user_ident ::
  "('sp, 'w) rustracing \<Rightarrow> ('sp, 'w) lex_state \<Rightarrow> (string \<times> routing_metadata option) option" where
  "user_ident rt e = map_option span_ident (Option.bind (lx_current e User) (rt_view rt))"

definition user_finished :: "('sp, 'w) lex_state \<Rightarrow> (string \<times> routing_metadata option) list" where
  "user_finished e = map span_ident (lx_finished e User)"

definition user_does ::
  "('sp, 'w) rustracing \<Rightarrow> (('sp, 'w) lex_state \<Rightarrow> ('sp, 'w) lex_state) \<Rightarrow>
   (routing_metadata option option \<Rightarrow> (string \<times> routing_metadata option) list) \<Rightarrow> bool" where
  "user_does rt f out \<longleftrightarrow>
     (\<forall>e. user_ident rt (f e) = user_ident rt e \<and> (lx_current (f e) User = None \<longleftrightarrow> lx_current e User = None) \<and>
        user_finished (f e) = user_finished e @ out (map_option snd (user_ident rt e)))"

lemma user_does_fold:
  "(\<And>x. x \<in> set xs \<Longrightarrow> user_does rt (f x) (\<lambda>r. out r x)) \<Longrightarrow>
    user_does rt (fold f xs) (\<lambda>r. concat (map (out r) xs))"
  by (induction xs) (simp_all add: user_does_def)

text \<open>What leaves the user pipeline alone.\<close>

definition same_user :: "('sp, 'w) lex_state \<Rightarrow> ('sp, 'w) lex_state \<Rightarrow> bool" where
  "same_user e e' \<longleftrightarrow> lx_current e' User = lx_current e User \<and> lx_finished e' User = lx_finished e User"

lemma same_user_finish: "same_user e (lex_finish rt System s e)"
  by (simp add: same_user_def lex_finish_def split: prod.split)

lemma same_user_trans: "same_user e e' \<Longrightarrow> same_user e' e'' \<Longrightarrow> same_user e e''"
  by (simp add: same_user_def)

lemma same_user_start: "same_user e (snd (lex_start_trace rt name options e))"
  by (auto simp: lex_start_trace_def same_user_def lex_finish_def split: prod.splits option.splits)

lemma same_user_child: "(\<And>e. same_user e (snd (orphan e))) \<Longrightarrow> same_user e (snd (lex_child rt p name orphan e))"
  by (auto simp: lex_child_def same_user_def split: prod.splits option.splits)

lemma same_user_fork: "same_user e (snd (lex_fork rt name e))"
  by (cases "case_option False (is_sampled rt) (lx_current e System)")
    (simp_all only: lex_fork_def if_P if_not_P same_user_start, simp add: same_user_def)

lemma same_user_enter: "same_user e (snd se) \<Longrightarrow> same_user e (lex_enter rt settings System se)"
  by (simp add: same_user_def lex_enter_def)

lemma same_user_leave: "same_user e (lex_leave rt System u e)"
  by (simp add: same_user_def lex_leave_def lex_finish_def split: option.split prod.split)

lemma same_user_does:
  "same_user e e' \<Longrightarrow> user_ident rt e' = user_ident rt e" "same_user e e' \<Longrightarrow> user_finished e' = user_finished e"
  by (simp_all add: same_user_def user_ident_def user_finished_def)

lemma user_does_system:
  assumes "user_does rt sem out" "\<And>e. same_user e (snd (start e))"
  shows "user_does rt (\<lambda>e. lex_leave rt System (u e) (sem (lex_enter rt settings System (start e)))) out"
  unfolding user_does_def
proof (intro allI)
  fix e
  let ?e1 = "lex_enter rt settings System (start e)" 
  have e1: "same_user e ?e1"
    by (rule same_user_enter [OF assms(2)])
  have e3: "same_user (sem ?e1) (lex_leave rt System (u e) (sem ?e1))"
    by (rule same_user_leave)
  show "user_ident rt (lex_leave rt System (u e) (sem ?e1)) = user_ident rt e \<and>
      (lx_current (lex_leave rt System (u e) (sem ?e1)) User = None \<longleftrightarrow> lx_current e User = None) \<and>
      user_finished (lex_leave rt System (u e) (sem ?e1)) =
        user_finished e @ out (map_option snd (user_ident rt e))"
    using assms(1) e1 e3 unfolding user_does_def same_user_does [OF e3] same_user_does [OF e1, symmetric]
    by (simp add: same_user_def)
qed


lemma kept_user: "rustracing_documented rt \<Longrightarrow> rt_view rt (kept rt settings User s) = rt_view rt s"
  using rustracing_documentedD(1) [of rt] by (auto simp: kept_def is_sampled_def)

lemma user_leave:
  assumes doc: "rustracing_documented rt" and "lx_current e User \<noteq> None"
  shows "user_finished (lex_leave rt User u e) = user_finished e @ (case user_ident rt e of None \<Rightarrow> [] | Some x \<Rightarrow> [x])"
    "lx_current (lex_leave rt User u e) User = u"
proof -
  obtain s where s: "lx_current e User = Some s"
    using assms(2) by blast
  show "lx_current (lex_leave rt User u e) User = u"
    by (simp add: lex_leave_def s)
  show "user_finished (lex_leave rt User u e) = user_finished e @ (case user_ident rt e of None \<Rightarrow> [] | Some x \<Rightarrow> [x])"
  proof (cases "rt_view rt s")
    case None
    then show ?thesis
      using rustracing_documentedD(10) [OF doc None]
      by (simp add: lex_leave_def s lex_finish_def user_ident_def user_finished_def)
  next
    case (Some v)
    from rustracing_documentedD(11) [OF doc Some, of "lx_world e"] obtain t where
      "fst (rt_drop rt s (lx_world e)) = Some (v\<lparr>fs_finish_time := t\<rparr>)" by blast
    then show ?thesis
      using Some
      by (cases "rt_drop rt s (lx_world e)")
        (simp add: lex_leave_def s lex_finish_def user_ident_def user_finished_def span_ident_def)
  qed
qed

lemma user_does_scope:
  assumes doc: "rustracing_documented rt" and body: "user_does rt sem out"
    and start: "\<And>e. same_user e (snd (start e))"
    and ident: "\<And>e. map_option span_ident (rt_view rt (fst (start e))) = i (user_ident rt e)"
  shows "user_finished (lex_leave rt User (lx_current e User) (sem (lex_enter rt settings User (start e)))) =
      user_finished e @ out (map_option snd (i (user_ident rt e))) @
        (case i (user_ident rt e) of None \<Rightarrow> [] | Some x \<Rightarrow> [x])"
    and "lx_current (lex_leave rt User (lx_current e User) (sem (lex_enter rt settings User (start e)))) User = lx_current e User"
proof -
  let ?e1 = "lex_enter rt settings User (start e)"
  have e1: "lx_current ?e1 User = Some (kept rt settings User (fst (start e)))" "user_finished ?e1 = user_finished e"
    using start [of e] by (simp_all add: lex_enter_def user_finished_def same_user_def)
  then have id1: "user_ident rt ?e1 = i (user_ident rt e)"
    by (simp add: user_ident_def kept_user [OF doc] ident [unfolded user_ident_def])
  have "user_ident rt (sem ?e1) = i (user_ident rt e)" "lx_current (sem ?e1) User \<noteq> None"
    "user_finished (sem ?e1) = user_finished e @ out (map_option snd (i (user_ident rt e)))"
    using body e1 id1 unfolding user_does_def by auto
  with user_leave [OF doc this(2)] show
    "user_finished (lex_leave rt User (lx_current e User) (sem ?e1)) =
      user_finished e @ out (map_option snd (i (user_ident rt e))) @ (case i (user_ident rt e) of None \<Rightarrow> [] | Some x \<Rightarrow> [x])"
    "lx_current (lex_leave rt User (lx_current e User) (sem ?e1)) User = lx_current e User"
    by simp_all
qed

text \<open>A child of the current user span has its routing metadata.\<close>

definition child_ident ::
  "string \<Rightarrow> (string \<times> routing_metadata option) option \<Rightarrow> (string \<times> routing_metadata option) option" where
  "child_ident name = map_option (\<lambda>x. (name, snd x))"

lemma user_child_ident:
  assumes doc: "rustracing_documented rt"
  shows "map_option span_ident (rt_view rt (fst (lex_child rt User name (Pair (rt_inactive rt)) e))) =
    child_ident name (user_ident rt e)"
proof (cases "lx_current e User")
  case None
  then show ?thesis
    using rustracing_documentedD(1) [OF doc] by (simp add: lex_child_def user_ident_def child_ident_def)
next
  case (Some s)
  show ?thesis
  proof (cases "rt_view rt s")
    case None
    then show ?thesis
      using Some rustracing_documentedD(4) [OF doc None, of name "lx_world e"]
      by (cases "rt_child rt name s (lx_world e)") (simp add: lex_child_def user_ident_def child_ident_def)
  next
    case (Some v)
    from rustracing_documentedD(5) [OF doc Some, of name "lx_world e"] obtain v' where
      "rt_view rt (fst (rt_child rt name s (lx_world e))) = Some v'" "child_of_span name v v'" by blast
    then show ?thesis
      using Some \<open>lx_current e User = Some s\<close>
      by (cases "rt_child rt name s (lx_world e)")
        (simp add: lex_child_def user_ident_def child_ident_def child_of_span_def span_ident_def)
  qed
qed


abbreviation with_own where
  "with_own name out r \<equiv> out r @ (case r of None \<Rightarrow> [] | Some m \<Rightarrow> [(name, m)])"

lemma child_ident_out:
  "out (map_option snd (child_ident name i)) @ (case child_ident name i of None \<Rightarrow> [] | Some x \<Rightarrow> [x]) =
    with_own name out (map_option snd i)"
  by (cases i) (simp_all add: child_ident_def)

lemma user_does_child:
  assumes doc: "rustracing_documented rt" and body: "user_does rt sem out"
  shows "user_does rt (\<lambda>e. lex_leave rt User (lx_current e User)
      (sem (lex_enter rt settings User (lex_child rt User name (Pair (rt_inactive rt)) e)))) (with_own name out)"
proof -
  have "same_user e (snd (lex_child rt User name (Pair (rt_inactive rt)) e))" for e
    by (rule same_user_child) (simp add: same_user_def)
  note scope = user_does_scope [OF doc body this user_child_ident [OF doc], where settings = settings]
  then show ?thesis
    unfolding user_does_def by (simp add: child_ident_out) (simp add: user_ident_def)
qed

lemma user_does_trace:
  assumes doc: "rustracing_documented rt" and body: "user_does rt sem out"
  shows "user_does rt (\<lambda>e. lex_leave rt User (lx_current e User) (sem (lex_enter rt settings User
      (case start_user_trace rt name routing inbound (lx_world e) of (s, w) \<Rightarrow> (s, e\<lparr>lx_world := w\<rparr>)))))
    (\<lambda>_. out (Some (Some routing)) @ [(name, Some routing)])"
proof -
  let ?start = "\<lambda>e. case start_user_trace rt name routing inbound (lx_world e) of (s, w) \<Rightarrow> (s, e\<lparr>lx_world := w\<rparr>)"
  let ?opts = "\<lparr>so_name = name, so_child_of = map_option inbound_state inbound, so_tags = [], so_routing = Some routing\<rparr>"
  have start: "same_user e (snd (?start e))" for e
    by (simp add: same_user_def split: prod.split)
  have "map_option span_ident (rt_view rt (fst (?start e))) = Some (name, Some routing)" for e
  proof -
    have "priority ?opts = None"
      by (simp add: priority_def)
    from rustracing_documentedD(9) [OF doc this, of "lx_world e"] obtain v where
      "rt_view rt (fst (rt_user_start rt ?opts (lx_world e))) = Some v" "started ?opts v" by blast
    then show ?thesis
      by (simp add: start_user_trace_def started_def span_ident_def split_beta)
  qed
  note scope = user_does_scope [OF doc body start this, where settings = settings]
  then show ?thesis
    unfolding user_does_def by simp (simp add: user_ident_def)
qed

lemma user_does_dual:
  assumes doc: "rustracing_documented rt" and body: "user_does rt sem out"
  shows "user_does rt (lex_dual rt settings name sem) (with_own name out)"
  unfolding user_does_def
proof (intro allI)
  fix e
  let ?start = "lex_child rt System name (lex_orphan_span rt name)"
  let ?e' = "lex_enter rt settings System (?start e)"
  have start: "same_user e (snd (?start e))" for e
    by (rule same_user_child) (simp add: lex_orphan_span_def same_user_start)
  have e': "same_user e ?e'"
    by (rule same_user_enter [OF start])
  have sem': "user_does rt (\<lambda>e'. lex_leave rt System (lx_current e System) (sem e')) out"
    using body same_user_leave same_user_does unfolding user_does_def same_user_def by metis
  show "user_ident rt (lex_dual rt settings name sem e) = user_ident rt e \<and>
      (lx_current (lex_dual rt settings name sem e) User = None \<longleftrightarrow> lx_current e User = None) \<and>
      user_finished (lex_dual rt settings name sem e) = user_finished e @ with_own name out (map_option snd (user_ident rt e))"
  proof (cases "lx_current e User")
    case None
    then show ?thesis
      using user_does_system [OF body start, where u = "\<lambda>e. lx_current e System" and settings = settings]
      by (simp add: user_does_def lex_dual_def lex_dual_open_def user_ident_def)
  next
    case (Some s)
    have "lex_dual rt settings name sem e = lex_leave rt User (lx_current ?e' User)
        (lex_leave rt System (lx_current e System)
          (sem (lex_enter rt settings User (lex_child rt User name (Pair (rt_inactive rt)) ?e'))))"
      using e' Some by (simp add: lex_dual_def lex_dual_open_def Let_def same_user_def)
    then show ?thesis
      using user_does_child [OF doc sem', of settings name, unfolded user_does_def, rule_format, of ?e']
        same_user_does [OF e'] e' by (simp add: same_user_def)
  qed
qed


lemma user_does_span:
  assumes "user_does rt sem out"
  shows "user_does rt (lex_span rt settings name sem) out"
proof -
  have "same_user e (snd (lex_child rt System name (lex_orphan_span rt name) e))" for e
    by (rule same_user_child) (simp add: lex_orphan_span_def same_user_start)
  from user_does_system [OF assms this, where u = "\<lambda>e. lx_current e System"] show ?thesis
    unfolding lex_span_def [abs_def] .
qed

lemma user_does_write:
  assumes doc: "rustracing_documented rt"
  shows "user_does rt (run_lex rt settings (WriteSpan p wr)) (\<lambda>_. [])"
proof -
  have "span_ident v' = span_ident v" if "written wr v v'" for v v'
    using that by (cases wr) (auto simp: span_ident_def dest: set_tag_keeps)
  then have "map_option span_ident (rt_view rt (rt_write rt wr s)) = map_option span_ident (rt_view rt s)" for s
    using rustracing_documentedD(2,3) [OF doc, of s] by (cases "rt_view rt s") fastforce+
  then show ?thesis
    by (auto simp: user_does_def user_ident_def user_finished_def split: option.split)
qed

lemma user_does_lex:
  assumes doc: "rustracing_documented rt"
  shows "user_does rt (run_lex rt settings x) (\<lambda>r. user_spans r x)"
proof (induction x)
  case (InSpan name body)
  show ?case
    unfolding run_lex.simps [abs_def] user_spans.simps [abs_def]
    by (intro user_does_span user_does_fold InSpan)
next
  case (InUserSpan name body)
  show ?case
    unfolding run_lex.simps [abs_def] user_spans.simps [abs_def]
    by (intro user_does_child [OF doc] user_does_fold InUserSpan)
next
  case (InDualSpan name body)
  show ?case
    unfolding run_lex.simps [abs_def] user_spans.simps [abs_def]
    by (intro user_does_dual [OF doc] user_does_fold InDualSpan)
next
  case (InTrace name options body)
  show ?case
    unfolding run_lex.simps [abs_def] user_spans.simps [abs_def]
    by (intro user_does_system same_user_start user_does_fold InTrace)
next
  case (InUserTrace name routing inbound body)
  show ?case
    unfolding run_lex.simps [abs_def] user_spans.simps [abs_def]
    by (rule user_does_trace [OF doc]) (intro user_does_fold InUserTrace)
next
  case (InFork name body)
  show ?case
    unfolding run_lex.simps [abs_def] user_spans.simps [abs_def]
    by (intro user_does_system same_user_fork user_does_fold InFork)
next
  case (InFuture name polls)
  show ?case
    unfolding run_lex.simps [abs_def] user_spans.simps [abs_def] fold_concat [symmetric]
    by (intro user_does_span user_does_fold InFuture)
next
  case (InDualFuture name polls)
  show ?case
    unfolding run_lex.simps [abs_def] user_spans.simps [abs_def] fold_concat [symmetric]
    by (intro user_does_dual [OF doc] user_does_fold InDualFuture)
next
  case (WriteSpan p wr)
  show ?case
    unfolding user_spans.simps by (rule user_does_write [OF doc])
qed

section \<open>Programs\<close>

definition sample_program :: "scoped list" where
  "sample_program =
     [InUserTrace ''request'' \<lparr>rm_group_key = ''g'', rm_encode = ''e''\<rparr> None
        [InDualFuture ''a'' [[WriteSpan System (SetTags [(''k'', StringTag ''v'')])],
           [InDualSpan ''c'' [], InFork ''job'' [InUserSpan ''d'' []]]]]]"

definition sample_settings :: liveness_settings where
  "sample_settings = \<lparr>lt_enabled = True, lt_track_all_spans = False\<rparr>"

text \<open>C5: A program of nested scopes, of spans, user spans, dual spans, traces, forks and futures carried
  across polls, does not panic, leaves the stacks of its thread empty, and the consumers of the two
  tracers receive what the lexical semantics says, in that order: each span when its scope ends,
  a child of the span whose scope is around it, however the references to it went through contexts
  and futures.\<close>

theorem scoped_spans_refine:
  fixes rt :: "('sp, 'w) rustracing" and w :: 'w
    and st :: "('l, 't, 'sp, 'w) trace_state" and e :: "('sp, 'w) lex_state"
  assumes "rustracing_documented rt"
    and "st = fold (run_scoped rt settings root_log th) program (trace_state_new w)"
    and "e = fold (run_lex rt settings) program (lex_state_new w)"
  shows "ts_stacks st = no_scopes \<and> \<not> ts_panicked st \<and>
    (\<forall>p. st_finished (ts_store st p) = lx_finished e p) \<and> ts_world st = lx_world e"
proof -
  have "e = lex_of rt th st"
    using run_program(3) [OF assms(1,2)] assms(3) by simp
  then show ?thesis
    using run_program(1,2) [OF assms(1,2)] by (simp add: lex_of_def)
qed

theorem scoped_spans_refine_witness:
  "map fs_operation_name (st_finished (ts_store
      (fold (run_scoped sample_rustracing sample_settings () 0) sample_program (trace_state_new 0)
        :: (unit, unit, finished_span option, nat) trace_state) System)) =
    [''c'', ''[job ref]'', ''job'', ''a'']"
proof -
  have "map fs_operation_name (lx_finished (fold (run_lex sample_rustracing sample_settings) sample_program (lex_state_new 0)) System) =
      [''c'', ''[job ref]'', ''job'', ''a'']"
    by code_simp
  then show ?thesis
    using scoped_spans_refine [where 'l = unit and 't = unit, OF sample_documented refl refl, where th = 0 and settings = sample_settings
        and root_log = "()" and program = sample_program and w = 0] by simp
qed

text \<open>C11: The consumer of the user tracer receives every span of every user trace, when its scope ends and
  with the routing metadata of its trace, and nothing else, whatever the internal spans are, are
  sampled or not, or are forked: a user span or a dual span counts when a user trace is around it.\<close>

theorem user_traces_complete:
  fixes rt :: "('sp, 'w) rustracing" and st :: "('l, 't, 'sp, 'w) trace_state"
  assumes "rustracing_documented rt"
    and "st = fold (run_scoped rt settings root_log th) program (trace_state_new w)"
  shows "map span_ident (st_finished (ts_store st User)) = concat (map (user_spans None) program)"
proof -
  have "user_does rt (fold (run_lex rt settings) program) (\<lambda>r. concat (map (user_spans r) program))"
    by (rule user_does_fold) (rule user_does_lex [OF assms(1)])
  then have "user_finished (fold (run_lex rt settings) program (lex_state_new w)) =
      concat (map (user_spans None) program)"
    by (simp add: user_does_def user_ident_def user_finished_def lex_state_new_def)
  then show ?thesis
    unfolding run_program(3) [OF assms, symmetric] by (simp add: user_finished_def lex_of_def)
qed

theorem user_traces_complete_witness:
  "map span_ident (st_finished (ts_store
      (fold (run_scoped sample_rustracing sample_settings () 0) sample_program (trace_state_new 0)
        :: (unit, unit, finished_span option, nat) trace_state) User)) =
    map (\<lambda>name. (name, Some \<lparr>rm_group_key = ''g'', rm_encode = ''e''\<rparr>)) [''c'', ''d'', ''a'', ''request'']"
  using user_traces_complete [where 'l = unit and 't = unit, OF sample_documented refl, where th = 0 and settings = sample_settings
      and root_log = "()" and program = sample_program and w = 0]
  by (simp add: sample_program_def)

end
