(* ===== verification/TraceEvents.thy ===== *)
theory TraceEvents
  imports LiveReferences Traceparent
begin

text \<open>
  The dump of the live spans, \<open>telemetry/tracing/live/event_output.rs\<close> and
  \<open>ActiveRoots::get_active_traces\<close> of \<open>telemetry/tracing/live/mod.rs\<close>: a Chrome trace log with a
  begin and an end event for every live sampled span. Times are nanoseconds since the epoch of the
  clock. The display of a trace id belongs to \<open>cf_rustracing_jaeger\<close> and is a parameter, of which
  only is used that it writes hexadecimal digits. The lemmas compare the output with a reader of JSON.
\<close>

section \<open>The trace log\<close>

text \<open>What \<open>InspectableSpan\<close> tells of a span.\<close>

record inspected_span =
  is_context :: "span_state option"
  is_operation_name :: string
  is_start_time :: int
  is_finish_time :: "int option"

datatype trace_event_type = EventBegin | EventEnd

text \<open>The scalar values of a text, \<open>str::chars\<close>.\<close>

definition cont_bits :: "char \<Rightarrow> nat" where
  "cont_bits c = of_char c mod 64"

fun scalar_values :: "string \<Rightarrow> nat list" where
  "scalar_values [] = []"
| "scalar_values (b # bs) =
     (if byte_in 0 127 b then of_char b # scalar_values bs
      else if byte_in 0 223 b then
        (case bs of
           c # cs \<Rightarrow> ((of_char b mod 32) * 64 + cont_bits c) # scalar_values cs
         | _ \<Rightarrow> [])
      else if byte_in 0 239 b then
        (case bs of
           c # d # ds \<Rightarrow>
             ((of_char b mod 16) * 4096 + cont_bits c * 64 + cont_bits d) # scalar_values ds
         | _ \<Rightarrow> [])
      else
        (case bs of
           c # d # e # es \<Rightarrow>
             ((of_char b mod 8) * 262144 + cont_bits c * 4096 + cont_bits d * 64 + cont_bits e)
               # scalar_values es
         | _ \<Rightarrow> []))"

text \<open>\<open>char::escape_default\<close> of the standard library, and \<open>escape\<close>.\<close>

definition escape_default :: "nat \<Rightarrow> string" where
  "escape_default n =
     (if n = 9 then [CHR 0x5C, CHR ''t'']
      else if n = 13 then [CHR 0x5C, CHR ''r'']
      else if n = 10 then [CHR 0x5C, CHR ''n'']
      else if n = 34 \<or> n = 39 \<or> n = 92 then [CHR 0x5C, char_of n]
      else if 32 \<le> n \<and> n \<le> 126 then [char_of n]
      else [CHR 0x5C, CHR ''u'', CHR ''{''] @ show_hex n @ ''}'')"

definition escape :: "string \<Rightarrow> string" where
  "escape s = concat (map escape_default (scalar_values s))"

text \<open>\<open>TraceLogBuilder\<close>: the text written so far.\<close>

definition builder_new :: string where
  "builder_new = ''[''"

definition quoted :: "string \<Rightarrow> string" where
  "quoted s = CHR 0x22 # s @ [CHR 0x22]"

definition event_phase :: "trace_event_type \<Rightarrow> string" where
  "event_phase t = (case t of EventBegin \<Rightarrow> ''B'' | EventEnd \<Rightarrow> ''E'')"

definition write_event ::
  "string \<Rightarrow> string \<Rightarrow> string \<Rightarrow> trace_event_type \<Rightarrow> u64 \<Rightarrow> string \<Rightarrow> string" where
  "write_event trace_id name category event_type timestamp_us out =
     out @ ''{'' @ quoted ''pid'' @ '':1,'' @ quoted ''name'' @ '':'' @ quoted (escape name) @ '','' @
     quoted ''cat'' @ '':'' @ quoted (escape category) @ '','' @
     quoted ''ph'' @ '':'' @ quoted (event_phase event_type) @ '','' @
     quoted ''ts'' @ '':'' @ show_u64 timestamp_us @ '','' @
     quoted ''id'' @ '':'' @ quoted trace_id @ ''},''"

definition finalize :: "u64 \<Rightarrow> string \<Rightarrow> string" where
  "finalize end_timestamp out =
     out @ ''{'' @ quoted ''pid'' @ '':1,'' @ quoted ''name'' @ '':'' @ quoted ''Trace dump requested'' @ '','' @
     quoted ''ph'' @ '':'' @ quoted ''i'' @ '','' @ quoted ''ts'' @ '':'' @ show_u64 end_timestamp @ '','' @
     quoted ''s'' @ '':'' @ quoted ''g'' @ ''}'' @ '']''"

text \<open>\<open>t.duration_since(epoch).ok().and_then(|x| u64::try_from(x.as_micros()).ok())\<close>.\<close>

definition micros_since :: "int \<Rightarrow> int \<Rightarrow> u64 option" where
  "micros_since epoch t =
     (if t < epoch then None
      else let m = (t - epoch) div 1000 in if m < 2 ^ 64 then Some (word_of_int m) else None)"

definition end_of_log :: "int \<Rightarrow> int \<Rightarrow> u64" where
  "end_of_log epoch now = case_option (- 1) id (micros_since epoch now)"

definition event_start :: "int \<Rightarrow> inspected_span \<Rightarrow> u64" where
  "event_start epoch s = case_option 0 id (micros_since epoch (is_start_time s))"

definition event_end :: "int \<Rightarrow> u64 \<Rightarrow> inspected_span \<Rightarrow> u64" where
  "event_end epoch end_timestamp s =
     case_option end_timestamp id (Option.bind (is_finish_time s) (micros_since epoch))"

definition write_span ::
  "(u64 \<Rightarrow> u64 \<Rightarrow> string) \<Rightarrow> int \<Rightarrow> u64 \<Rightarrow> inspected_span \<Rightarrow> string \<Rightarrow> string" where
  "write_span show_trace_id epoch end_timestamp s out =
     (case is_context s of
        None \<Rightarrow> out
      | Some state \<Rightarrow>
          let trace_id = show_trace_id (ss_trace_high state) (ss_trace_low state);
              name = is_operation_name s;
              out = write_event trace_id name [] EventBegin (event_start epoch s) out
          in write_event trace_id name [] EventEnd (event_end epoch end_timestamp s) out)"

definition spans_to_trace_events ::
  "(u64 \<Rightarrow> u64 \<Rightarrow> string) \<Rightarrow> int \<Rightarrow> int \<Rightarrow> inspected_span list \<Rightarrow> string" where
  "spans_to_trace_events show_trace_id epoch now spans =
     (let end_timestamp = end_of_log epoch now
      in finalize end_timestamp
           (fold (write_span show_trace_id epoch end_timestamp) spans builder_new))"

text \<open>\<open>ActiveRoots::get_active_traces\<close>.\<close>

definition get_active_traces ::
  "(u64 \<Rightarrow> u64 \<Rightarrow> string) \<Rightarrow> int \<Rightarrow> int \<Rightarrow> inspected_span live_set \<Rightarrow> string" where
  "get_active_traces show_trace_id start now roots =
     spans_to_trace_events show_trace_id start now
       (map (\<lambda>h. lh_value (lv_handles roots ! h)) (fst (get_live_references roots)))"

section \<open>Reading JSON\<close>

text \<open>RFC 8259, for values without white space between tokens and numbers without sign, fraction
  and exponent.\<close>

datatype json =
    JString string
  | JNumber int
  | JArray "json list"
  | JObject "(string \<times> json) list"

definition json_escape :: "char \<Rightarrow> char option" where
  "json_escape c =
     (if c = CHR 0x22 \<or> c = CHR 0x5C \<or> c = CHR ''/'' then Some c
      else if c = CHR ''b'' then Some (CHR 0x08) else if c = CHR ''f'' then Some (CHR 0x0C)
      else if c = CHR ''n'' then Some (CHR 0x0A) else if c = CHR ''r'' then Some (CHR 0x0D)
      else if c = CHR ''t'' then Some (CHR 0x09) else None)"

text \<open>Four hexadecimal digits, and the bytes of the scalar value they name.\<close>

definition four_hex :: "char \<Rightarrow> char \<Rightarrow> char \<Rightarrow> char \<Rightarrow> nat option" where
  "four_hex a b c d =
     (case (hex_value a, hex_value b, hex_value c, hex_value d) of
        (Some w, Some x, Some y, Some z) \<Rightarrow> Some (w * 4096 + x * 256 + y * 16 + z)
      | _ \<Rightarrow> None)"

definition utf8_bytes :: "nat \<Rightarrow> string" where
  "utf8_bytes n =
     (if n < 128 then [char_of n]
      else if n < 2048 then [char_of (192 + n div 64), char_of (128 + n mod 64)]
      else [char_of (224 + n div 4096), char_of (128 + n div 64 mod 64), char_of (128 + n mod 64)])"

text \<open>The rest of a string after its opening quote, and what follows it.\<close>

fun read_string :: "string \<Rightarrow> (string \<times> string) option" where
  "read_string [] = None"
| "read_string (c # s) =
     (if c = CHR 0x22 then Some ([], s)
      else if c = CHR 0x5C then
        (case s of
           [] \<Rightarrow> None
         | e # s \<Rightarrow>
             if e = CHR ''u'' then
               (case s of
                  w # x # y # z # s \<Rightarrow>
                    (case four_hex w x y z of
                       None \<Rightarrow> None
                     | Some n \<Rightarrow> map_option (\<lambda>(t, r). (utf8_bytes n @ t, r)) (read_string s))
                | _ \<Rightarrow> None)
             else
               (case json_escape e of
                  None \<Rightarrow> None
                | Some x \<Rightarrow> map_option (\<lambda>(t, r). (x # t, r)) (read_string s)))
      else if (of_char c :: nat) < 32 then None
      else map_option (\<lambda>(t, r). (c # t, r)) (read_string s))"

definition read_number :: "string \<Rightarrow> (int \<times> string) option" where
  "read_number s =
     (let ds = takeWhile is_ascii_digit s; r = dropWhile is_ascii_digit s in
      if ds = [] \<or> hd ds = CHR ''0'' \<and> tl ds \<noteq> [] then None else Some (read_uint 0 ds, r))"

text \<open>Values, the rest of an array and the rest of an object; fuel bounds the nesting and the
  number of entries.\<close>

fun read_json :: "nat \<Rightarrow> string \<Rightarrow> (json \<times> string) option"
  and read_elements :: "nat \<Rightarrow> string \<Rightarrow> (json list \<times> string) option"
  and read_members :: "nat \<Rightarrow> string \<Rightarrow> ((string \<times> json) list \<times> string) option" where
  "read_json 0 s = None"
| "read_json (Suc n) s =
     (case s of
        [] \<Rightarrow> None
      | c # r \<Rightarrow>
          if c = CHR 0x22 then map_option (\<lambda>(t, r). (JString t, r)) (read_string r)
          else if c = CHR ''['' then
            (if r \<noteq> [] \<and> hd r = CHR '']'' then Some (JArray [], tl r)
             else map_option (\<lambda>(vs, r). (JArray vs, r)) (read_elements n r))
          else if c = CHR ''{'' then
            (if r \<noteq> [] \<and> hd r = CHR ''}'' then Some (JObject [], tl r)
             else map_option (\<lambda>(ms, r). (JObject ms, r)) (read_members n r))
          else map_option (\<lambda>(i, r). (JNumber i, r)) (read_number s))"
| "read_elements 0 s = None"
| "read_elements (Suc n) s =
     (case read_json n s of
        Some (v, c # r) \<Rightarrow>
          if c = CHR '','' then map_option (\<lambda>(vs, r). (v # vs, r)) (read_elements n r)
          else if c = CHR '']'' then Some ([v], r) else None
      | _ \<Rightarrow> None)"
| "read_members 0 s = None"
| "read_members (Suc n) s =
     (case s of
        q # s \<Rightarrow>
          if q \<noteq> CHR 0x22 then None
          else (case read_string s of
             Some (k, c # r) \<Rightarrow>
               if c \<noteq> CHR '':'' then None
               else (case read_json n r of
                  Some (v, c # r) \<Rightarrow>
                    if c = CHR '','' then map_option (\<lambda>(ms, r). ((k, v) # ms, r)) (read_members n r)
                    else if c = CHR ''}'' then Some ([(k, v)], r) else None
                | _ \<Rightarrow> None)
           | _ \<Rightarrow> None)
      | [] \<Rightarrow> None)"

definition read_json_text :: "string \<Rightarrow> json option" where
  "read_json_text s =
     (case read_json (length s) s of Some (v, []) \<Rightarrow> Some v | _ \<Rightarrow> None)"


section \<open>What a reader gets\<close>

text \<open>The characters \<open>escape_default\<close> writes as JSON does: printable ASCII without the apostrophe,
  tab, line feed and carriage return.\<close>

definition json_scalar :: "nat \<Rightarrow> bool" where
  "json_scalar n \<longleftrightarrow> n = 9 \<or> n = 10 \<or> n = 13 \<or> 32 \<le> n \<and> n \<le> 126 \<and> n \<noteq> 39"

definition json_safe :: "string \<Rightarrow> bool" where
  "json_safe s \<longleftrightarrow> (\<forall>c\<in>set s. json_scalar (of_char c))"

definition plain_char :: "char \<Rightarrow> bool" where
  "plain_char c \<longleftrightarrow> c \<noteq> CHR 0x22 \<and> c \<noteq> CHR 0x5C \<and> 32 \<le> (of_char c :: nat)"

lemma read_string_plain:
  "\<forall>c\<in>set t. plain_char c \<Longrightarrow> read_string (t @ CHR 0x22 # r) = Some (t, r)"
  by (induction t) (auto simp: plain_char_def)

lemma char_of_eq_iff: "n < 256 \<Longrightarrow> char_of n = c \<longleftrightarrow> n = (of_char c :: nat)"
  by (metis char_of_char of_char_of mod_less)

lemma control_chars:
  "char_of (9 :: nat) = CHR 0x09" "char_of (10 :: nat) = CHR 0x0A" "char_of (13 :: nat) = CHR 0x0D"
  by (simp_all add: char_of_eq_iff)

lemma four_hex_brace: "four_hex (CHR ''{'') x y z = None"
  by (simp add: four_hex_def hex_value_def)

lemma read_string_unicode: "read_string (CHR 0x5C # CHR ''u'' # CHR ''{'' # s) = None"
  by (auto simp: four_hex_brace split: list.splits)

lemma read_escape_default:
  "read_string (escape_default n @ s) =
     (if json_scalar n then map_option (\<lambda>(t, r). (char_of n # t, r)) (read_string s) else None)"
proof -
  consider "n = 9 \<or> n = 10 \<or> n = 13 \<or> n = 34 \<or> n = 39 \<or> n = 92"
    | "32 \<le> n" "n \<le> 126" "n \<noteq> 34" "n \<noteq> 39" "n \<noteq> 92"
    | "n \<noteq> 9" "n \<noteq> 10" "n \<noteq> 13" "n < 32 \<or> 126 < n"
    by linarith
  then show ?thesis
  proof cases
    case 1
    then show ?thesis
      by (elim disjE) (simp_all add: escape_default_def json_scalar_def json_escape_def
          control_chars char_of_eq_iff)
  next
    case 2
    then show ?thesis
      by (simp add: escape_default_def json_scalar_def char_of_eq_iff)
  next
    case 3
    then have "escape_default n @ s = CHR 0x5C # CHR ''u'' # CHR ''{'' # show_hex n @ ''}'' @ s"
      by (auto simp: escape_default_def)
    moreover have "\<not> json_scalar n"
      using 3 by (auto simp: json_scalar_def)
    ultimately show ?thesis
      by (simp only: read_string_unicode if_False)
  qed
qed

lemma read_escaped_scalars:
  "read_string (concat (map escape_default ns) @ CHR 0x22 # r) =
     (if \<forall>n\<in>set ns. json_scalar n then Some (map char_of ns, r) else None)"
  by (induction ns) (simp_all add: read_escape_default)

lemma scalar_values_safe: "json_safe s \<Longrightarrow> scalar_values s = map of_char s"
proof (induction s)
  case (Cons c s)
  then have "byte_in 0 127 c" and "scalar_values s = map of_char s"
    by (auto simp: json_safe_def json_scalar_def byte_in_def)
  then show ?case by simp
qed simp

lemma cont_bits_eq: "128 \<le> (of_char c :: nat) \<Longrightarrow> (of_char c :: nat) \<le> 191 \<Longrightarrow> cont_bits c = of_char c - 128"
  by (simp add: cont_bits_def mod_nat_eqI)

lemma scalar_values_head:
  assumes "utf8_valid (b # bs)" and "\<not> byte_in 0 127 b"
  shows "\<exists>n ns. scalar_values (b # bs) = n # ns \<and> 128 \<le> n"
proof -
  let ?b = "of_char b :: nat"
  have high: "128 \<le> ?b"
    using assms(2) by (simp add: byte_in_def)
  consider "194 \<le> ?b" "?b \<le> 223" | "224 \<le> ?b" "?b \<le> 239" | "240 \<le> ?b" "?b \<le> 244"
    using assms high by (auto simp: byte_in_def split: if_splits)
  then show ?thesis
  proof cases
    case 1
    with assms high obtain c cs where bs: "bs = c # cs"
      by (cases bs) (auto simp: byte_in_def)
    have "?b mod 32 = ?b - 192"
      using 1 by (simp add: mod_nat_eqI)
    then have "2 \<le> ?b mod 32"
      using 1 by linarith
    with 1 high bs show ?thesis
      by (auto simp: byte_in_def)
  next
    case 2
    with assms high obtain c d cs where bs: "bs = c # d # cs" and c: "utf8_second b c"
      by (cases bs; cases "tl bs") (auto simp: byte_in_def)
    have "?b mod 16 = ?b - 224"
      using 2 by (simp add: mod_nat_eqI)
    moreover have "cont_bits c = of_char c - 128" if "?b = 224"
      using c that by (intro cont_bits_eq) (simp_all add: utf8_second_def byte_in_def)
    moreover have "160 \<le> (of_char c :: nat)" if "?b = 224"
      using c that by (simp add: utf8_second_def byte_in_def)
    ultimately have "128 \<le> ?b mod 16 * 4096 + cont_bits c * 64 + cont_bits d"
      using 2 by (cases "?b = 224") auto
    with 2 high bs show ?thesis
      by (auto simp: byte_in_def)
  next
    case 3
    with assms high obtain c d e cs where bs: "bs = c # d # e # cs" and c: "utf8_second b c"
      by (cases bs; cases "tl bs"; cases "tl (tl bs)") (auto simp: byte_in_def)
    have "?b mod 8 = ?b - 240"
      using 3 by (simp add: mod_nat_eqI)
    moreover have "cont_bits c = of_char c - 128" if "?b = 240"
      using c that by (intro cont_bits_eq) (simp_all add: utf8_second_def byte_in_def)
    moreover have "144 \<le> (of_char c :: nat)" if "?b = 240"
      using c that by (simp add: utf8_second_def byte_in_def)
    ultimately have "128 \<le> ?b mod 8 * 262144 + cont_bits c * 4096 + cont_bits d * 64 + cont_bits e"
      using 3 by (cases "?b = 240") auto
    with 3 high bs show ?thesis
      by (auto simp: byte_in_def)
  qed
qed

lemma scalar_values_unsafe:
  "utf8_valid s \<Longrightarrow> \<not> json_safe s \<Longrightarrow> \<exists>n\<in>set (scalar_values s). \<not> json_scalar n"
proof (induction s)
  case Nil
  then show ?case by (simp add: json_safe_def)
next
  case (Cons b s)
  show ?case
  proof (cases "byte_in 0 127 b")
    case True
    with Cons show ?thesis by (auto simp: json_safe_def)
  next
    case False
    from scalar_values_head [OF Cons.prems(1) False]
    obtain n ns where "scalar_values (b # s) = n # ns" "128 \<le> n"
      by (elim exE conjE)
    then show ?thesis by (auto simp: json_scalar_def)
  qed
qed

lemma read_escaped:
  assumes "utf8_valid s"
  shows "read_string (escape s @ CHR 0x22 # r) = (if json_safe s then Some (s, r) else None)"
proof (cases "json_safe s")
  case True
  then have "\<forall>n\<in>set (scalar_values s). json_scalar n"
    by (simp add: scalar_values_safe json_safe_def)
  then show ?thesis
    using True unfolding escape_def read_escaped_scalars
    by (simp add: scalar_values_safe comp_def)
next
  case False
  from scalar_values_unsafe [OF assms this] show ?thesis
    using False by (auto simp: escape_def read_escaped_scalars)
qed


text \<open>Numbers: no leading zero.\<close>

lemma show_uint_onto_head: "0 < n \<Longrightarrow> hd (show_uint_onto n acc) \<noteq> CHR ''0''"
proof (induction n acc rule: show_uint_onto.induct)
  case (1 n acc)
  show ?case
  proof (cases "n < 10")
    case True
    have "of_char (digit_char n) \<noteq> (of_char (CHR ''0'') :: int)"
      using True "1.prems" by (simp add: of_digit_char)
    with True show ?thesis
      by (subst show_uint_onto.simps) auto
  next
    case False
    then show ?thesis
      using "1.IH" [OF False] by (subst show_uint_onto.simps) simp
  qed
qed

lemma show_u64_head: "hd (show_u64 w) = CHR ''0'' \<Longrightarrow> tl (show_u64 w) = []"
proof (cases "w = 0")
  case True
  then show ?thesis
    by (simp add: show_u64_def show_int_def show_uint_onto.simps)
next
  case False
  then have "0 < uint w"
    by (simp add: word_neq_0_conv word_less_def)
  then show "hd (show_u64 w) = CHR ''0'' \<Longrightarrow> tl (show_u64 w) = []"
    by (simp add: show_u64_def show_int_def show_uint_onto_head)
qed

lemma read_number_u64:
  assumes "\<not> is_ascii_digit c"
  shows "read_number (show_u64 w @ c # r) = Some (uint w, c # r)"
proof -
  have "takeWhile is_ascii_digit (show_u64 w @ c # r) = show_u64 w"
    and "dropWhile is_ascii_digit (show_u64 w @ c # r) = c # r"
    using assms show_u64_digits [of w] by (simp_all add: takeWhile_append2 dropWhile_append2)
  then show ?thesis
    using show_u64_head [of w] by (auto simp: read_number_def read_show_u64 Let_def)
qed

lemma digit_start:
  "is_ascii_digit c \<Longrightarrow> c \<noteq> CHR 0x22 \<and> c \<noteq> CHR ''['' \<and> c \<noteq> CHR ''{''"
  by (auto simp: is_ascii_digit_def)

lemma read_json_u64:
  assumes "\<not> is_ascii_digit c"
  shows "read_json (Suc n) (show_u64 w @ c # r) = Some (JNumber (uint w), c # r)"
proof -
  obtain d ds where ds: "show_u64 w = d # ds"
    using show_u64_not_Nil by (cases "show_u64 w") auto
  then have "is_ascii_digit d"
    using show_u64_digits [of w] by simp
  with digit_start [of d] read_number_u64 [OF assms, of w r] show ?thesis
    by (simp add: ds)
qed

lemma read_json_quoted:
  "read_json (Suc n) (quoted s @ r) = map_option (\<lambda>(t, r). (JString t, r)) (read_string (s @ CHR 0x22 # r))"
  by (simp add: quoted_def)

text \<open>A member of an object, whose name is written as it is.\<close>

lemma read_members_step:
  assumes "\<forall>c\<in>set k. plain_char c"
  shows "read_members (Suc n) (quoted k @ CHR '':'' # s) =
    (case read_json n s of
       Some (v, c # r) \<Rightarrow>
         if c = CHR '','' then map_option (\<lambda>(ms, r). ((k, v) # ms, r)) (read_members n r)
         else if c = CHR ''}'' then Some ([(k, v)], r) else None
     | _ \<Rightarrow> None)"
  using read_string_plain [OF assms, of "CHR '':'' # s"] by (simp add: quoted_def)

lemma read_members_plain:
  assumes "\<forall>c\<in>set k. plain_char c" "\<forall>c\<in>set x. plain_char c"
  shows "read_members (Suc (Suc n)) (quoted k @ CHR '':'' # quoted x @ CHR '','' # r) =
      map_option (\<lambda>(ms, r). ((k, JString x) # ms, r)) (read_members (Suc n) r)"
    and "read_members (Suc (Suc n)) (quoted k @ CHR '':'' # quoted x @ CHR ''}'' # r) =
      Some ([(k, JString x)], r)"
  using read_members_step [OF assms(1)]
  by (simp_all only: read_json_quoted read_string_plain [OF assms(2)]) simp_all

lemma read_members_escaped:
  assumes "\<forall>c\<in>set k. plain_char c" "utf8_valid x"
  shows "read_members (Suc (Suc n)) (quoted k @ CHR '':'' # quoted (escape x) @ CHR '','' # r) =
      (if json_safe x
       then map_option (\<lambda>(ms, r). ((k, JString x) # ms, r)) (read_members (Suc n) r) else None)"
  using read_members_step [OF assms(1)]
  by (simp only: read_json_quoted read_escaped [OF assms(2)]) simp

lemma read_members_u64:
  assumes "\<forall>c\<in>set k. plain_char c"
  shows "read_members (Suc (Suc n)) (quoted k @ CHR '':'' # show_u64 w @ CHR '','' # r) =
      map_option (\<lambda>(ms, r). ((k, JNumber (uint w)) # ms, r)) (read_members (Suc n) r)"
proof -
  have "\<not> is_ascii_digit (CHR '','')"
    by (simp add: is_ascii_digit_def)
  from read_json_u64 [OF this] show ?thesis
    using read_members_step [OF assms] by simp
qed

lemma read_members_one:
  assumes "\<forall>c\<in>set k. plain_char c"
  shows "read_members (Suc (Suc n)) (quoted k @ CHR '':'' # CHR ''1'' # CHR '','' # r) =
      map_option (\<lambda>(ms, r). ((k, JNumber 1) # ms, r)) (read_members (Suc n) r)"
proof -
  have "show_u64 1 = ''1''"
    by code_simp
  with read_members_u64 [OF assms, of n 1 r] show ?thesis
    by simp
qed

lemma read_object:
  "read_json (Suc n) (CHR ''{'' # quoted k @ r) =
     map_option (\<lambda>(ms, r). (JObject ms, r)) (read_members n (quoted k @ r))"
  by (simp add: quoted_def)

declare read_json.simps(2) [simp del] read_elements.simps(2) [simp del] read_members.simps(2) [simp del]

lemmas read_member_simps = read_object
  read_members_plain read_members_escaped read_members_u64 read_members_one


section \<open>The events of a log\<close>

definition event_json :: "string \<Rightarrow> string \<Rightarrow> trace_event_type \<Rightarrow> u64 \<Rightarrow> json" where
  "event_json trace_id name event_type ts =
     JObject [(''pid'', JNumber 1), (''name'', JString name), (''cat'', JString []),
       (''ph'', JString (event_phase event_type)), (''ts'', JNumber (uint ts)),
       (''id'', JString trace_id)]"

definition dump_json :: "u64 \<Rightarrow> json" where
  "dump_json ts =
     JObject [(''pid'', JNumber 1), (''name'', JString ''Trace dump requested''),
       (''ph'', JString ''i''), (''ts'', JNumber (uint ts)), (''s'', JString ''g'')]"

definition span_json ::
  "(u64 \<Rightarrow> u64 \<Rightarrow> string) \<Rightarrow> int \<Rightarrow> u64 \<Rightarrow> inspected_span \<Rightarrow> json list" where
  "span_json show_trace_id epoch end_timestamp s =
     (case is_context s of
        None \<Rightarrow> []
      | Some state \<Rightarrow>
          let trace_id = show_trace_id (ss_trace_high state) (ss_trace_low state) in
          [event_json trace_id (is_operation_name s) EventBegin (event_start epoch s),
           event_json trace_id (is_operation_name s) EventEnd (event_end epoch end_timestamp s)])"

definition trace_id_display :: "(u64 \<Rightarrow> u64 \<Rightarrow> string) \<Rightarrow> bool" where
  "trace_id_display f \<longleftrightarrow> (\<forall>h l. \<forall>c\<in>set (f h l). hex_value c \<noteq> None)"

lemma write_event_append: "write_event t n c e ts out = out @ write_event t n c e ts []"
  by (simp add: write_event_def)

lemma write_span_append: "write_span f ep e s out = out @ write_span f ep e s []"
proof (cases "is_context s")
  case None
  then show ?thesis by (simp add: write_span_def)
next
  case (Some state)
  let ?t = "f (ss_trace_high state) (ss_trace_low state)" and ?n = "is_operation_name s"
  let ?b = "write_event ?t ?n [] EventBegin (event_start ep s)"
  let ?e = "write_event ?t ?n [] EventEnd (event_end ep e s)"
  have "?e (?b out) = out @ ?e (?b [])"
    using write_event_append [of _ _ _ _ _ "?b out"] write_event_append [of _ _ _ _ _ out]
      write_event_append [of _ _ _ _ _ "?b []"] by (metis append_assoc)
  with Some show ?thesis
    by (simp add: write_span_def Let_def)
qed

lemma fold_write_span:
  "fold (write_span f ep e) spans out = out @ concat (map (\<lambda>s. write_span f ep e s []) spans)"
proof (induction spans arbitrary: out)
  case (Cons s spans)
  have "fold (write_span f ep e) (s # spans) out =
      write_span f ep e s out @ concat (map (\<lambda>s. write_span f ep e s []) spans)"
    by (simp add: Cons.IH)
  then show ?case
    by (simp add: write_span_append [of _ _ _ _ out])
qed simp

lemma plain_names:
  "\<forall>c\<in>set ''pid''. plain_char c" "\<forall>c\<in>set ''name''. plain_char c" "\<forall>c\<in>set ''cat''. plain_char c"
  "\<forall>c\<in>set ''ph''. plain_char c" "\<forall>c\<in>set ''ts''. plain_char c" "\<forall>c\<in>set ''id''. plain_char c"
  "\<forall>c\<in>set ''s''. plain_char c" "\<forall>c\<in>set ''g''. plain_char c" "\<forall>c\<in>set ''i''. plain_char c"
  "\<forall>c\<in>set ''Trace dump requested''. plain_char c" "\<forall>c\<in>set (event_phase t). plain_char c"
  "\<forall>c\<in>set []. plain_char c"
  by (simp_all add: plain_char_def event_phase_def split: trace_event_type.split)

lemma plain_hex: "hex_value c \<noteq> None \<Longrightarrow> plain_char c"
  by (auto simp: plain_char_def hex_value_def Let_def split: if_splits)

lemma escape_Nil: "escape [] = []"
  by (simp add: escape_def)

lemma read_event:
  assumes "utf8_valid name" and "\<forall>c\<in>set t. plain_char c"
  shows "read_json (8 + n) (write_event t name [] e ts [] @ r) =
    (if json_safe name then Some (event_json t name e ts, CHR '','' # r) else None)"
  using assms
  by (simp add: write_event_def numeral_eq_Suc escape_Nil event_json_def read_member_simps plain_names)

lemma read_dump:
  "read_json (8 + n) (finalize ts [] @ r) = Some (dump_json ts, CHR '']'' # r)"
  by (simp add: finalize_def numeral_eq_Suc dump_json_def read_member_simps plain_names)


lemma read_elements_Suc:
  "read_elements (9 + n) s =
     (case read_json (8 + n) s of
        Some (v, c # r) \<Rightarrow>
          if c = CHR '','' then map_option (\<lambda>(vs, r). (v # vs, r)) (read_elements (8 + n) r)
          else if c = CHR '']'' then Some ([v], r) else None
      | _ \<Rightarrow> None)"
proof -
  have "9 + n = Suc (8 + n)" by simp
  then show ?thesis by (simp only: read_elements.simps(2))
qed

lemma read_elements_event:
  assumes "utf8_valid name" and "\<forall>c\<in>set t. plain_char c"
  shows "read_elements (9 + n) (write_event t name [] e ts [] @ r) =
    (if json_safe name
     then map_option (\<lambda>(vs, r). (event_json t name e ts # vs, r)) (read_elements (8 + n) r) else None)"
  using read_event [OF assms, of n e ts r] by (simp add: read_elements_Suc)

lemma read_elements_dump:
  "read_elements (9 + n) (finalize ts []) = Some ([dump_json ts], [])"
  using read_dump [of n ts "[]"] by (simp add: read_elements_Suc)

definition written_safe :: "inspected_span \<Rightarrow> bool" where
  "written_safe s \<longleftrightarrow> is_context s = None \<or> json_safe (is_operation_name s)"

lemma read_elements_spans:
  assumes "trace_id_display f" and "\<forall>s\<in>set spans. utf8_valid (is_operation_name s)"
  shows "read_elements (9 + (length (concat (map (span_json f ep e) spans)) + n))
      (concat (map (\<lambda>s. write_span f ep e s []) spans) @ finalize ts []) =
    (if \<forall>s\<in>set spans. written_safe s
     then Some (concat (map (span_json f ep e) spans) @ [dump_json ts], []) else None)"
  using assms(2)
proof (induction spans)
  case Nil
  then show ?case by (simp add: read_elements_dump)
next
  case (Cons s spans)
  let ?r = "concat (map (\<lambda>s. write_span f ep e s []) spans) @ finalize ts []"
  have IH: "read_elements (9 + (length (concat (map (span_json f ep e) spans)) + n)) ?r =
      (if \<forall>s\<in>set spans. written_safe s
       then Some (concat (map (span_json f ep e) spans) @ [dump_json ts], []) else None)"
    using Cons by simp
  show ?case
  proof (cases "is_context s")
    case None
    then have "write_span f ep e s [] = []" "span_json f ep e s = []" "written_safe s"
      by (simp_all add: span_json_def write_span_def written_safe_def)
    with IH show ?thesis by simp
  next
    case (Some state)
    let ?t = "f (ss_trace_high state) (ss_trace_low state)" and ?n = "is_operation_name s"
    let ?m = "length (concat (map (span_json f ep e) spans)) + n"
    have t: "\<forall>c\<in>set ?t. plain_char c"
      using assms(1) plain_hex by (auto simp: trace_id_display_def)
    have n: "utf8_valid ?n"
      using Cons.prems by simp
    have fuel: "8 + (2 + ?m) = 9 + (1 + ?m)" "8 + (1 + ?m) = 9 + ?m"
      by simp_all
    have "read_elements (9 + (2 + ?m))
        (write_event ?t ?n [] EventBegin (event_start ep s) [] @
         write_event ?t ?n [] EventEnd (event_end ep e s) [] @ ?r) =
      (if json_safe ?n
       then map_option (\<lambda>(vs, r). (span_json f ep e s @ vs, r)) (read_elements (9 + ?m) ?r) else None)"
      by (simp only: read_elements_event [OF n t] fuel)
        (simp add: span_json_def Some Let_def option.map_comp comp_def case_prod_unfold)
    moreover have "write_span f ep e s [] =
        write_event ?t ?n [] EventBegin (event_start ep s) [] @
        write_event ?t ?n [] EventEnd (event_end ep e s) []"
      by (simp add: write_span_def Some Let_def flip: write_event_append)
    moreover have "written_safe s \<longleftrightarrow> json_safe ?n" "length (span_json f ep e s) = 2"
      by (simp_all add: Some written_safe_def span_json_def Let_def)
    ultimately show ?thesis
      using IH by (simp add: add.assoc)
  qed
qed

lemma finalize_append: "finalize ts out = out @ finalize ts []"
  by (simp add: finalize_def)

lemma length_finalize: "9 < length (finalize ts [])"
  by (simp add: finalize_def quoted_def)

lemma length_span_json: "length (span_json f ep e s) \<le> length (write_span f ep e s [])"
  by (simp add: span_json_def write_span_def write_event_def quoted_def Let_def split: option.split)

lemma trace_log_json:
  assumes "trace_id_display f" and "\<forall>s\<in>set spans. utf8_valid (is_operation_name s)"
  shows "read_json_text (spans_to_trace_events f epoch now spans) =
    (let e = end_of_log epoch now in
     if \<forall>s\<in>set spans. written_safe s
     then Some (JArray (concat (map (span_json f epoch e) spans) @ [dump_json e])) else None)"
proof -
  let ?e = "end_of_log epoch now"
  let ?t = "concat (map (\<lambda>s. write_span f epoch ?e s []) spans) @ finalize ?e []"
  let ?j = "concat (map (span_json f epoch ?e) spans)"
  have written: "spans_to_trace_events f epoch now spans = CHR ''['' # ?t"
    unfolding spans_to_trace_events_def builder_new_def fold_write_span Let_def
    by (subst finalize_append) simp
  have "length ?j \<le> length (concat (map (\<lambda>s. write_span f epoch ?e s []) spans))"
    by (induction spans) (simp_all add: length_span_json add_mono)
  then have "9 + length ?j \<le> length ?t"
    using length_finalize [of ?e] by simp
  then obtain n where n: "length ?t = 9 + (length ?j + n)"
    by (metis add.assoc le_Suc_ex)
  have "hd ?t \<noteq> CHR '']''"
  proof (cases "concat (map (\<lambda>s. write_span f epoch ?e s []) spans)")
    case Nil
    show ?thesis
      unfolding Nil finalize_def by simp
  next
    case (Cons c cs)
    have "hd ts = CHR ''{''" if "ts = concat (map (\<lambda>s. write_span f epoch ?e s []) us)" "ts \<noteq> []" for ts us
      using that
    proof (induction us arbitrary: ts)
      case (Cons u us)
      then show ?case
        by (cases "is_context u") (simp_all add: write_span_def write_event_def Let_def)
    qed simp
    from this [of "c # cs" spans] Cons show ?thesis by simp
  qed
  then have "read_json (length (CHR ''['' # ?t)) (CHR ''['' # ?t) =
      map_option (\<lambda>(vs, r). (JArray vs, r)) (read_elements (length ?t) ?t)"
    by (simp add: read_json.simps(2))
  then show ?thesis
    unfolding read_json_text_def written n read_elements_spans [OF assms] by (simp add: Let_def)
qed


text \<open>C16: the dump of the live spans holds, for every sampled live span, a begin and an end event
  with its name, trace id and times, and ends with the event of the dump; a JSON reader gets exactly
  these if every name is of printable ASCII without an apostrophe, tabs and line ends aside, and
  rejects the whole dump if one is not.\<close>

theorem active_traces_json:
  assumes "trace_id_display f"
    and "\<forall>h\<in>set (live_references roots). utf8_valid (is_operation_name (lh_value (lv_handles roots ! h)))"
  shows "read_json_text (get_active_traces f start now roots) =
    (let e = end_of_log start now;
         spans = map (\<lambda>h. lh_value (lv_handles roots ! h)) (live_references roots)
     in if \<forall>s\<in>set spans. is_context s = None \<or> json_safe (is_operation_name s)
        then Some (JArray (concat (map (span_json f start e) spans) @ [dump_json e])) else None)"
  unfolding get_active_traces_def get_live_references_def fst_conv
  using trace_log_json [OF assms(1), of "map (\<lambda>h. lh_value (lv_handles roots ! h)) (live_references roots)"
      start now] assms(2)
  by (simp add: written_safe_def Let_def)

definition one_root :: "string \<Rightarrow> inspected_span live_set" where
  "one_root name = track_end 0 (track_begin next_key
     \<lparr>is_context = Some \<lparr>ss_trace_high = 0, ss_trace_low = 171, ss_span_id = 1, ss_flags = 1\<rparr>,
      is_operation_name = name, is_start_time = 3000, is_finish_time = None\<rparr> live_set_default)"

definition show_low_hex :: "u64 \<Rightarrow> u64 \<Rightarrow> string" where
  "show_low_hex h l = hex_digits 16 (unat l)"

lemma one_root_spans:
  "map (\<lambda>h. lh_value (lv_handles (one_root name) ! h)) (live_references (one_root name)) =
     [\<lparr>is_context = Some \<lparr>ss_trace_high = 0, ss_trace_low = 171, ss_span_id = 1, ss_flags = 1\<rparr>,
       is_operation_name = name, is_start_time = 3000, is_finish_time = None\<rparr>]"
  "live_references (one_root name) = [0]"
  by (simp_all add: one_root_def live_references_def track_end_def track_begin_def update_handle_def
      live_set_default_def next_key_def Let_def)

theorem active_traces_json_witness:
  "read_json_text (get_active_traces show_low_hex 1000 9000 (one_root ''a\"b'')) =
     Some (JArray [event_json ''00000000000000ab'' ''a\"b'' EventBegin 2,
       event_json ''00000000000000ab'' ''a\"b'' EventEnd 8, dump_json 8]) \<and>
   read_json_text (get_active_traces show_low_hex 1000 9000 (one_root ''it's'')) = None"
proof -
  have display: "trace_id_display show_low_hex"
    unfolding trace_id_display_def show_low_hex_def
    using hex_digits_hex by fastforce
  have named: "\<forall>h\<in>set (live_references (one_root name)).
      utf8_valid (is_operation_name (lh_value (lv_handles (one_root name) ! h)))"
    if "utf8_valid name" for name
    using that one_root_spans [of name] by simp
  have "utf8_valid ''a\"b''" "utf8_valid ''it's''" "json_safe ''a\"b''" "\<not> json_safe ''it's''"
    by code_simp+
  moreover have "hex_digits 16 (unat (171 :: u64)) = ''00000000000000ab''"
    by code_simp
  moreover have "micros_since 1000 9000 = Some 8" "micros_since 1000 3000 = Some 2"
    by code_simp+
  ultimately show ?thesis
    using active_traces_json [OF display named, of "''a\"b''" 1000 9000]
      active_traces_json [OF display named, of "''it's''" 1000 9000]
    by (simp add: one_root_spans(1) end_of_log_def span_json_def event_start_def event_end_def
        show_low_hex_def Let_def)
qed

end
