(* ===== verification/TestTraces.thy ===== *)
theory TestTraces
  imports OtlpExport
begin

text \<open>
  The traces of the test telemetry context, \<open>telemetry/tracing/testing.rs\<close>: finished spans are
  grouped by their parent, sorted by start time and assembled into trees, which an iterator walks
  depth first. \<open>create_test_span\<close> follows the references of the spans and need not end on
  arbitrary spans, so it takes fuel; the lemmas show that for spans with different ids as much
  fuel as there are spans is enough, and that the traces contain exactly the spans that descend
  from a root.
\<close>

section \<open>Test spans\<close>

datatype test_span =
  TestSpan (ts_name: string) (ts_children: "test_span list") (ts_logs: "(string \<times> string) list")
    (ts_tags: "(string \<times> tag_value) list") (ts_start_time: int) (ts_finish_time: int)

record test_trace_options =
  include_logs :: bool
  include_tags :: bool
  include_start_time :: bool
  include_finish_time :: bool

text \<open>\<open>TestTraceIterator\<close>: the stack has its top at the end of the list. Collecting what \<open>next\<close>
  returns ends, since each call takes a span off the trees on the stack.\<close>

definition iter_next :: "test_span list \<Rightarrow> (test_span \<times> test_span list) option" where
  "iter_next stack =
     (if stack = [] then None
      else Some (List.last stack, butlast stack @ rev (ts_children (List.last stack))))"

lemma iter_next_smaller:
  assumes "iter_next stack = Some (span, stack')"
  shows "sum_list (map size stack') < sum_list (map size stack)"
proof -
  obtain stack0 where stack: "stack = stack0 @ [span]" "stack' = stack0 @ rev (ts_children span)"
    using assms by (cases stack rule: rev_cases) (auto simp: iter_next_def)
  have "sum_list (map size (ts_children span)) < size span"
  proof (cases span)
    case (TestSpan n cs ls ts s f)
    have "sum_list (map size cs) \<le> size_list size cs"
      by (induction cs) auto
    with TestSpan show ?thesis by simp
  qed
  with stack show ?thesis
    by (simp add: rev_map [symmetric])
qed

function iter_collect :: "test_span list \<Rightarrow> test_span list" where
  "iter_collect stack =
     (case iter_next stack of None \<Rightarrow> [] | Some (span, stack') \<Rightarrow> span # iter_collect stack')"
  by pat_completeness auto
termination
  by (relation "measure (\<lambda>stack. sum_list (map size stack))") (auto simp: iter_next_smaller)

declare iter_collect.simps [simp del]

definition test_trace_iter :: "test_span \<Rightarrow> test_span list" where
  "test_trace_iter trace = iter_collect [trace]"

section \<open>Assembling the traces\<close>

definition span_logs :: "finished_span \<Rightarrow> (string \<times> string) list" where
  "span_logs raw_span = concat (map le_fields (fs_logs raw_span))"

definition span_tags :: "finished_span \<Rightarrow> (string \<times> tag_value) list" where
  "span_tags raw_span = fs_tags raw_span"

text \<open>\<open>HashMap<ParentId, Vec<FinishedSpan>>\<close>, with \<^const>\<open>None\<close> as the parent of roots.\<close>

type_synonym raw_spans = "u64 option \<rightharpoonup> finished_span list"

fun find_parent :: "span_reference list \<Rightarrow> u64 option" where
  "find_parent [] = None"
| "find_parent (ChildOf parent # rs) = Some (ss_span_id parent)"
| "find_parent (FollowsFrom st # rs) = find_parent rs"

definition parent_of :: "finished_span \<Rightarrow> u64 option" where
  "parent_of span = find_parent (fs_references span)"

definition span_id :: "finished_span \<Rightarrow> u64" where
  "span_id span = ss_span_id (fs_context span)"

definition add_raw_span :: "finished_span \<Rightarrow> raw_spans \<Rightarrow> raw_spans" where
  "add_raw_span span raw_spans =
     (let parent_id = parent_of span;
          spans = (case raw_spans parent_id of None \<Rightarrow> [] | Some spans \<Rightarrow> spans)
      in raw_spans(parent_id \<mapsto> spans @ [span]))"

fun all_some :: "'a option list \<Rightarrow> 'a list option" where
  "all_some [] = Some []"
| "all_some (x # xs) =
     (case x of None \<Rightarrow> None
      | Some y \<Rightarrow> (case all_some xs of None \<Rightarrow> None | Some ys \<Rightarrow> Some (y # ys)))"

fun create_test_span ::
  "nat \<Rightarrow> raw_spans \<Rightarrow> test_trace_options \<Rightarrow> finished_span \<Rightarrow> test_span option" where
  "create_test_span 0 raw_spans options raw_span = None"
| "create_test_span (Suc fuel) raw_spans options raw_span =
     map_option (\<lambda>children.
         TestSpan (fs_operation_name raw_span) children
           (if include_logs options then span_logs raw_span else [])
           (if include_tags options then span_tags raw_span else [])
           (if include_start_time options then fs_start_time raw_span else 0)
           (if include_finish_time options then fs_finish_time raw_span else 0))
       (case raw_spans (Some (span_id raw_span)) of
          Some raw_children \<Rightarrow> all_some (map (create_test_span fuel raw_spans options) raw_children)
        | None \<Rightarrow> Some [])"

text \<open>\<open>TestTracesSink::traces\<close>, given the spans the channel holds; \<open>sort_by_key\<close> is stable.\<close>

definition sink_traces ::
  "nat \<Rightarrow> test_trace_options \<Rightarrow> finished_span list \<Rightarrow> raw_spans \<Rightarrow> test_span list option \<times> raw_spans" where
  "sink_traces fuel options received raw_spans =
     (let raw_spans = fold add_raw_span received raw_spans;
          raw_spans = (\<lambda>parent_id. map_option (sort_key fs_start_time) (raw_spans parent_id))
      in (case raw_spans None of
            Some roots \<Rightarrow> all_some (map (create_test_span fuel raw_spans options) roots)
          | None \<Rightarrow> Some [],
          raw_spans))"

section \<open>The iterator is a depth-first walk\<close>

fun preorder :: "test_span \<Rightarrow> test_span list" where
  "preorder (TestSpan n cs ls ts s f) = TestSpan n cs ls ts s f # concat (map preorder cs)"

lemma preorder_unfold: "preorder span = span # concat (map preorder (ts_children span))"
  by (cases span) simp

lemma iter_collect_preorder: "iter_collect stack = concat (map preorder (rev stack))"
proof (induction stack rule: iter_collect.induct)
  case (1 stack)
  show ?case
  proof (cases stack rule: rev_cases)
    case Nil
    then show ?thesis by (simp add: iter_collect.simps [of "[]"] iter_next_def)
  next
    case (snoc stack0 span)
    then have "iter_next stack = Some (span, stack0 @ rev (ts_children span))"
      by (simp add: iter_next_def)
    with 1 snoc show ?thesis
      by (subst iter_collect.simps) (simp add: preorder_unfold [of span] rev_map)
  qed
qed

section \<open>The groups of the sink\<close>

definition children_of :: "finished_span list \<Rightarrow> u64 option \<Rightarrow> finished_span list" where
  "children_of spans parent_id = sort_key fs_start_time (filter (\<lambda>s. parent_of s = parent_id) spans)"

definition grouped :: "finished_span list \<Rightarrow> raw_spans \<Rightarrow> bool" where
  "grouped spans raw_spans \<longleftrightarrow>
     (\<forall>k. raw_spans k = (if children_of spans k = [] then None else Some (children_of spans k)))"

lemma fold_add_raw_span:
  "fold add_raw_span received raw_spans k =
     (case (raw_spans k, filter (\<lambda>s. parent_of s = k) received) of
        (None, []) \<Rightarrow> None
      | (None, new) \<Rightarrow> Some new
      | (Some old, new) \<Rightarrow> Some (old @ new))"
  by (induction received arbitrary: raw_spans)
    (auto simp: add_raw_span_def Let_def split: option.splits list.splits)

lemma sort_key_append_sorted: "sort_key f (sort_key f xs @ ys) = sort_key f (xs @ ys)"
proof (rule properties_for_sort_key)
  fix k
  show "filter (\<lambda>x. f k = f x) (sort_key f (xs @ ys)) = filter (\<lambda>x. f k = f x) (sort_key f xs @ ys)"
    by (simp add: sort_key_stable eq_commute [of "f k"])
qed simp_all

lemma sort_key_idem: "sort_key f (sort_key f xs) = sort_key f xs"
  using sort_key_append_sorted [of f xs "[]"] by simp

lemma sink_traces_grouped:
  assumes "grouped spans raw_spans"
  shows "grouped (spans @ received) (snd (sink_traces fuel options received raw_spans))"
  unfolding grouped_def
proof
  fix k
  have nil: "sort_key fs_start_time xs = [] \<longleftrightarrow> xs = []" for xs
    by (metis length_0_conv length_sort)
  show "snd (sink_traces fuel options received raw_spans) k =
      (if children_of (spans @ received) k = [] then None else Some (children_of (spans @ received) k))"
    using assms
    by (cases "filter (\<lambda>s. parent_of s = k) received")
      (auto simp: sink_traces_def Let_def fold_add_raw_span grouped_def children_of_def nil
        sort_key_append_sorted sort_key_idem)
qed

section \<open>Ancestors\<close>

text \<open>A span with its ancestors, the last of which is a root.\<close>

fun ancestry :: "finished_span list \<Rightarrow> bool" where
  "ancestry [] \<longleftrightarrow> False"
| "ancestry [r] \<longleftrightarrow> parent_of r = None"
| "ancestry (s # p # P) \<longleftrightarrow> parent_of s = Some (span_id p) \<and> ancestry (p # P)"

definition descends :: "finished_span list \<Rightarrow> finished_span \<Rightarrow> bool" where
  "descends spans s \<longleftrightarrow> (\<exists>P. ancestry (s # P) \<and> set (s # P) \<subseteq> set spans)"

lemma same_id:
  "distinct (map span_id spans) \<Longrightarrow> s \<in> set spans \<Longrightarrow> p \<in> set spans \<Longrightarrow> span_id s = span_id p \<Longrightarrow> s = p"
  by (auto simp: distinct_map inj_on_def)

lemma ancestry_unique:
  assumes "distinct (map span_id spans)"
  shows "ancestry (s # P) \<Longrightarrow> ancestry (s # Q) \<Longrightarrow> set P \<subseteq> set spans \<Longrightarrow> set Q \<subseteq> set spans \<Longrightarrow> P = Q"
proof (induction P arbitrary: s Q)
  case Nil
  then show ?case by (cases Q) auto
next
  case (Cons p P)
  then obtain q Q' where Q: "Q = q # Q'" "ancestry (q # Q')" "span_id p = span_id q"
    by (cases Q) auto
  with Cons.prems have "p = q"
    by (intro same_id [OF assms]) auto
  with Cons.IH [of p Q'] Cons.prems Q show ?case by simp
qed

lemma ancestry_suffix: "ancestry (A @ c # B) \<Longrightarrow> ancestry (c # B)"
proof (induction A)
  case (Cons a A)
  then show ?case by (cases "A @ c # B") auto
qed simp

lemma ancestry_fresh:
  assumes "distinct (map span_id spans)" "ancestry (c # s # P)" "set (c # s # P) \<subseteq> set spans"
  shows "c \<notin> set (s # P)"
proof
  assume "c \<in> set (s # P)"
  then obtain A B where split: "s # P = A @ c # B"
    by (meson split_list)
  have "ancestry (s # P)"
    using assms(2) by simp
  then have "ancestry (c # B)"
    unfolding split by (rule ancestry_suffix)
  moreover have "set (s # P) \<subseteq> set spans" "set B \<subseteq> set (s # P)"
    using assms(3) by (simp_all only: split) auto
  ultimately have "s # P = B"
    using assms(2) by (intro ancestry_unique [OF assms(1), of c]) auto
  with arg_cong [OF split, of length] show False
    by simp
qed

lemma ancestry_distinct:
  "distinct (map span_id spans) \<Longrightarrow> ancestry P \<Longrightarrow> set P \<subseteq> set spans \<Longrightarrow> distinct P"
proof (induction P rule: ancestry.induct)
  case (3 s p P)
  then show ?case using ancestry_fresh [of spans s p P] by simp
qed simp_all

lemma ancestry_length:
  "distinct (map span_id spans) \<Longrightarrow> ancestry P \<Longrightarrow> set P \<subseteq> set spans \<Longrightarrow> length P \<le> length spans"
  using ancestry_distinct [of spans P] card_mono [of "set spans" "set P"] card_length [of spans]
  by (simp add: distinct_card)

section \<open>The spans below a span\<close>

fun spans_below :: "nat \<Rightarrow> finished_span list \<Rightarrow> finished_span \<Rightarrow> finished_span list" where
  "spans_below 0 spans s = []"
| "spans_below (Suc n) spans s =
     s # concat (map (spans_below n spans) (children_of spans (Some (span_id s))))"

lemma set_children_of: "set (children_of spans k) = {s \<in> set spans. parent_of s = k}"
  by (auto simp: children_of_def)

lemma ancestry_child:
  "ancestry (s # P) \<Longrightarrow> c \<in> set (children_of spans (Some (span_id s))) \<Longrightarrow> ancestry (c # s # P)"
  by (simp add: set_children_of)

text \<open>What a test span tells of a span besides the children.\<close>

definition span_content :: "test_trace_options \<Rightarrow> finished_span \<Rightarrow> test_span" where
  "span_content options s =
     TestSpan (fs_operation_name s) []
       (if include_logs options then span_logs s else [])
       (if include_tags options then span_tags s else [])
       (if include_start_time options then fs_start_time s else 0)
       (if include_finish_time options then fs_finish_time s else 0)"

definition without_children :: "test_span \<Rightarrow> test_span" where
  "without_children t = TestSpan (ts_name t) [] (ts_logs t) (ts_tags t) (ts_start_time t) (ts_finish_time t)"

lemma all_some_eq: "all_some xs = Some ys \<longleftrightarrow> xs = map Some ys"
proof (induction xs arbitrary: ys)
  case (Cons x xs)
  show ?case
  proof (cases "all_some xs")
    case None
    then have "xs \<noteq> map Some zs" for zs
      using Cons.IH by auto
    with None show ?thesis by (cases ys) (auto split: option.splits)
  next
    case (Some zs)
    then have "xs = map Some zs"
      using Cons.IH by auto
    with Some show ?thesis by (auto split: option.splits)
  qed
qed auto

lemma all_some_map:
  assumes "\<And>x. x \<in> set xs \<Longrightarrow> f x \<noteq> None"
  shows "all_some (map f xs) = Some (map (\<lambda>x. the (f x)) xs)"
  using assms by (auto simp: all_some_eq)

lemma create_test_span_total:
  assumes "distinct (map span_id spans)" "grouped spans raw_spans"
    and "ancestry (s # P)" "set (s # P) \<subseteq> set spans" "length spans \<le> n + length P"
  shows "\<exists>t. create_test_span n raw_spans options s = Some t \<and>
    map without_children (preorder t) = map (span_content options) (spans_below n spans s)"
  using assms(3-5)
proof (induction n arbitrary: s P)
  case 0
  then show ?case
    using ancestry_length [OF assms(1), of "s # P"] by simp
next
  case (Suc n)
  let ?cs = "children_of spans (Some (span_id s))"
  let ?t = "\<lambda>c. the (create_test_span n raw_spans options c)"
  have child: "create_test_span n raw_spans options c = Some (?t c) \<and>
      map without_children (preorder (?t c)) = map (span_content options) (spans_below n spans c)"
    if "c \<in> set ?cs" for c
  proof -
    have "ancestry (c # s # P)" "set (c # s # P) \<subseteq> set spans"
      using ancestry_child [OF Suc.prems(1) that] that Suc.prems(2) by (auto simp: set_children_of)
    from Suc.IH [OF this] Suc.prems(3) show ?thesis by auto
  qed
  then have "all_some (map (create_test_span n raw_spans options) ?cs) = Some (map ?t ?cs)"
    by (intro all_some_map) fastforce
  then have "(case raw_spans (Some (span_id s)) of
      Some cs \<Rightarrow> all_some (map (create_test_span n raw_spans options) cs) | None \<Rightarrow> Some []) =
    Some (map ?t ?cs)"
    using assms(2) by (simp add: grouped_def)
  moreover have "map without_children (concat (map preorder (map ?t ?cs))) =
      map (span_content options) (concat (map (spans_below n spans) ?cs))"
    using child by (simp add: map_concat comp_def cong: map_cong)
  ultimately show ?case
    by (simp add: without_children_def [of "TestSpan _ _ _ _ _ _"] span_content_def [of _ s])
qed

lemma spans_below_subset:
  assumes "distinct (map span_id spans)" "ancestry (s # P)" "set (s # P) \<subseteq> set spans"
  shows "x \<in> set (spans_below n spans s) \<Longrightarrow> \<exists>A. ancestry (A @ s # P) \<and> hd (A @ [s]) = x \<and> set A \<subseteq> set spans"
  using assms(2,3)
proof (induction n arbitrary: s P)
  case (Suc n)
  show ?case
  proof (cases "x = s")
    case True
    with Suc.prems show ?thesis by (intro exI [of _ "[]"]) simp
  next
    case False
    with Suc.prems(1) obtain c where c: "c \<in> set (children_of spans (Some (span_id s)))"
      "x \<in> set (spans_below n spans c)"
      by auto
    have "ancestry (c # s # P)" "set (c # s # P) \<subseteq> set spans"
      using ancestry_child [OF Suc.prems(2) c(1)] c(1) Suc.prems(3) by (auto simp: set_children_of)
    from Suc.IH [OF c(2) this] obtain A where
      "ancestry (A @ c # s # P)" "hd (A @ [c]) = x" "set A \<subseteq> set spans"
      by blast
    with c(1) show ?thesis
      by (intro exI [of _ "A @ [c]"]) (auto simp: set_children_of hd_append)
  qed
qed simp

lemma spans_below_complete:
  assumes "ancestry (A @ s # P)" "set (A @ s # P) \<subseteq> set spans" "length A < n"
  shows "hd (A @ [s]) \<in> set (spans_below n spans s)"
  using assms
proof (induction n arbitrary: s A P)
  case (Suc n)
  show ?case
  proof (cases A rule: rev_cases)
    case (snoc A' c)
    then have c: "c \<in> set (children_of spans (Some (span_id s)))"
      using Suc.prems(1,2) ancestry_suffix [of "A'" c "s # P"] by (auto simp: set_children_of)
    moreover have "hd (A' @ [c]) \<in> set (spans_below n spans c)"
      using Suc.prems snoc by (intro Suc.IH [where P = "s # P"]) auto
    ultimately show ?thesis
      using snoc by (auto simp: hd_append)
  qed simp
qed simp

definition parent_first :: "finished_span \<Rightarrow> finished_span \<Rightarrow> bool" where
  "parent_first a b \<longleftrightarrow> parent_of a \<noteq> Some (span_id b)"

lemma distinct_concat_map:
  assumes "distinct xs" "\<And>x. x \<in> set xs \<Longrightarrow> distinct (f x) \<and> sorted_wrt R (f x)"
    and "\<And>x y a b. x \<in> set xs \<Longrightarrow> y \<in> set xs \<Longrightarrow> x \<noteq> y \<Longrightarrow> a \<in> set (f x) \<Longrightarrow> b \<in> set (f y) \<Longrightarrow>
      a \<noteq> b \<and> R a b"
  shows "distinct (concat (map f xs)) \<and> sorted_wrt R (concat (map f xs))"
  using assms
proof (induction xs)
  case (Cons x xs)
  have rest: "distinct (concat (map f xs)) \<and> sorted_wrt R (concat (map f xs))"
  proof (rule Cons.IH)
    fix y z a b
    assume "y \<in> set xs" "z \<in> set xs" "y \<noteq> z" "a \<in> set (f y)" "b \<in> set (f z)"
    then show "a \<noteq> b \<and> R a b"
      by (intro Cons.prems(3) [of y z]) simp_all
  qed (use Cons.prems(1,2) in simp_all)
  have "a \<noteq> b \<and> R a b" if "a \<in> set (f x)" "b \<in> set (concat (map f xs))" for a b
    using that Cons.prems(1,3) by fastforce
  with rest Cons.prems(2) [of x] show ?case
    by (auto simp: sorted_wrt_append)
qed simp

lemma ancestry_hd_unique:
  assumes "distinct (map span_id spans)" "ancestry L" "ancestry M" "hd L = hd M"
    and "set L \<subseteq> set spans" "set M \<subseteq> set spans"
  shows "L = M"
  using assms ancestry_unique [OF assms(1), of "hd L" "tl L" "tl M"] by (cases L; cases M) auto

lemma siblings_disjoint:
  assumes ids: "distinct (map span_id spans)"
    and c: "ancestry (c # T)" "set (c # T) \<subseteq> set spans"
    and d: "ancestry (d # T)" "set (d # T) \<subseteq> set spans"
    and "c \<noteq> d" "a \<in> set (spans_below n spans c)" "b \<in> set (spans_below n spans d)"
  shows "a \<noteq> b \<and> parent_first a b"
proof -
  obtain A where A: "ancestry (A @ c # T)" "hd (A @ [c]) = a" "set A \<subseteq> set spans"
    using spans_below_subset [OF ids c assms(7)] by blast
  obtain B where B: "ancestry (B @ d # T)" "hd (B @ [d]) = b" "set B \<subseteq> set spans"
    using spans_below_subset [OF ids d assms(8)] by blast
  have L: "hd (A @ c # T) = a" "set (A @ c # T) \<subseteq> set spans"
    and M: "hd (B @ d # T) = b" "set (B @ d # T) \<subseteq> set spans"
    using A(2,3) B(2,3) c(2) d(2) by (auto simp: hd_append)
  have "a \<noteq> b"
  proof
    assume "a = b"
    then have "A @ c # T = B @ d # T"
      using L M by (intro ancestry_hd_unique [OF ids A(1) B(1)]) simp_all
    moreover from arg_cong [OF this, of length] have "length A = length B" by simp
    ultimately show False using \<open>c \<noteq> d\<close> by simp
  qed
  moreover have "parent_of a \<noteq> Some (span_id b)"
  proof
    assume parent: "parent_of a = Some (span_id b)"
    obtain p N where N: "A @ c # T = a # p # N"
      using A(1) L(1) parent by (cases "A @ c # T" rule: ancestry.cases) auto
    then have "ancestry (p # N)" "span_id p = span_id b"
      using A(1) parent by auto
    moreover from this have "p = b"
      using L(2) M N by (intro same_id [OF ids]) (auto simp: hd_append split: if_splits)
    ultimately have "p # N = B @ d # T"
      using L(2) M N by (intro ancestry_hd_unique [OF ids _ B(1)]) (auto simp: hd_append)
    with N have "A @ c # T = (a # B) @ d # T" by simp
    moreover from arg_cong [OF this, of length] have "length A = length (a # B)" by simp
    ultimately have "c # T = d # T"
      by (metis append_eq_append_conv)
    with \<open>c \<noteq> d\<close> show False by simp
  qed
  ultimately show ?thesis
    by (simp add: parent_first_def)
qed

lemma distinct_children_of: "distinct (map span_id spans) \<Longrightarrow> distinct (children_of spans k)"
  by (simp add: children_of_def distinct_map)

lemma siblings_ordered:
  assumes "distinct (map span_id spans)" "distinct cs"
    and "\<And>c. c \<in> set cs \<Longrightarrow> ancestry (c # T) \<and> set (c # T) \<subseteq> set spans"
    and "\<And>c. c \<in> set cs \<Longrightarrow> distinct (spans_below n spans c) \<and> sorted_wrt parent_first (spans_below n spans c)"
  shows "distinct (concat (map (spans_below n spans) cs)) \<and>
    sorted_wrt parent_first (concat (map (spans_below n spans) cs))"
  using assms(2,4) siblings_disjoint [OF assms(1)] assms(3)
  by (intro distinct_concat_map) blast+

lemma spans_below_ordered:
  assumes ids: "distinct (map span_id spans)" and "ancestry (s # P)" "set (s # P) \<subseteq> set spans"
  shows "distinct (spans_below n spans s) \<and> sorted_wrt parent_first (spans_below n spans s)"
  using assms(2,3)
proof (induction n arbitrary: s P)
  case (Suc n)
  let ?cs = "children_of spans (Some (span_id s))"
  have child: "ancestry (c # s # P) \<and> set (c # s # P) \<subseteq> set spans" if "c \<in> set ?cs" for c
    using ancestry_child [OF Suc.prems(1) that] that Suc.prems(2) by (auto simp: set_children_of)
  have below: "distinct (concat (map (spans_below n spans) ?cs)) \<and>
      sorted_wrt parent_first (concat (map (spans_below n spans) ?cs))"
    using Suc.IH child by (intro siblings_ordered [OF ids distinct_children_of [OF ids], where T = "s # P"]) blast+
  moreover have "b \<noteq> s \<and> parent_first s b" if "b \<in> set (concat (map (spans_below n spans) ?cs))" for b
  proof -
    from that obtain c where c: "c \<in> set ?cs" "b \<in> set (spans_below n spans c)" by auto
    from spans_below_subset [OF ids conjunct1 [OF child [OF c(1)]] conjunct2 [OF child [OF c(1)]] c(2)]
    obtain A where A: "ancestry (A @ c # s # P)" "hd (A @ [c]) = b" "set A \<subseteq> set spans" by blast
    then have "distinct (A @ c # s # P)"
      using ancestry_distinct [OF ids A(1)] child [OF c(1)] by auto
    moreover have "b \<in> set (A @ [c])"
      using A(2) by (metis hd_in_set snoc_eq_iff_butlast)
    ultimately have fresh: "b \<notin> set (s # P)" by auto
    have "parent_of s \<noteq> Some (span_id b)"
    proof
      assume parent: "parent_of s = Some (span_id b)"
      then obtain p P' where P: "P = p # P'" "span_id p = span_id b"
        using Suc.prems(1) by (cases P) auto
      moreover have "b \<in> set spans"
        using \<open>b \<in> set (A @ [c])\<close> A(3) child [OF c(1)] by auto
      ultimately have "p = b"
        using Suc.prems(2) by (intro same_id [OF ids]) auto
      with P fresh show False by simp
    qed
    with fresh show ?thesis by (auto simp: parent_first_def)
  qed
  ultimately show ?case by auto
qed simp

section \<open>The traces of a sink\<close>

lemma grouped_empty: "grouped [] Map.empty"
  by (simp add: grouped_def children_of_def)

lemma traces_created:
  assumes "distinct (map span_id spans)" "grouped spans raw_spans" "length spans \<le> fuel"
    and "r \<in> set (children_of spans None)"
  shows "\<exists>t. create_test_span fuel raw_spans options r = Some t \<and>
    map without_children (preorder t) = map (span_content options) (spans_below fuel spans r)"
  using assms(3,4) create_test_span_total [OF assms(1,2), of r "[]" fuel options]
  by (simp add: set_children_of)

lemma spans_below_roots:
  assumes "distinct (map span_id spans)" "length spans \<le> fuel"
  shows "set (concat (map (spans_below fuel spans) (children_of spans None))) =
    {s \<in> set spans. descends spans s}" (is "set ?ss = _")
proof (intro equalityI subsetI)
  fix x
  assume "x \<in> set ?ss"
  then obtain r where r: "ancestry (r # [])" "set (r # []) \<subseteq> set spans"
    and x: "x \<in> set (spans_below fuel spans r)"
    by (auto simp: set_children_of)
  from spans_below_subset [OF assms(1) r x]
  obtain A where A: "ancestry (A @ [r])" "hd (A @ [r]) = x" "set A \<subseteq> set spans" by blast
  then have "A @ [r] = x # tl (A @ [r])"
    by (cases A) auto
  with A r(2) show "x \<in> {s \<in> set spans. descends spans s}"
    unfolding descends_def by (metis (mono_tags, lifting) Un_subset_iff list.set_intros(1) mem_Collect_eq
        set_append subsetD)
next
  fix x
  assume "x \<in> {s \<in> set spans. descends spans s}"
  then obtain P where P: "ancestry (x # P)" "set (x # P) \<subseteq> set spans"
    by (auto simp: descends_def)
  obtain A r where A: "x # P = A @ [r]" by (metis list.distinct(1) rev_exhaust)
  then have r: "parent_of r = None" "r \<in> set spans"
    using ancestry_suffix [of A r "[]"] P by (simp_all only: A) auto
  have "length A < fuel"
    using ancestry_length [OF assms(1) P] arg_cong [OF A, of length] assms(2) by simp
  then have "hd (A @ [r]) \<in> set (spans_below fuel spans r)"
    using P by (intro spans_below_complete [where P = "[]"]) (simp_all only: A)
  then show "x \<in> set ?ss"
    using r A [symmetric] by (auto simp: set_children_of)
qed

lemma traces_of_sink:
  assumes "distinct (map span_id (spans @ received))" "grouped spans raw_spans"
    and "length (spans @ received) \<le> fuel"
  shows "\<exists>traces raw_spans' ss. sink_traces fuel options received raw_spans = (Some traces, raw_spans') \<and>
    grouped (spans @ received) raw_spans' \<and>
    map without_children (concat (map test_trace_iter traces)) = map (span_content options) ss \<and>
    set ss = {s \<in> set (spans @ received). descends (spans @ received) s} \<and>
    distinct ss \<and> sorted_wrt parent_first ss"
proof -
  let ?all = "spans @ received"
  let ?roots = "children_of ?all None"
  let ?ss = "concat (map (spans_below fuel ?all) ?roots)"
  obtain res raw_spans' where sink: "sink_traces fuel options received raw_spans = (res, raw_spans')"
    by fastforce
  then have grouped: "grouped ?all raw_spans'"
    using sink_traces_grouped [OF assms(2), of received fuel options] by simp
  have root: "ancestry (r # []) \<and> set (r # []) \<subseteq> set ?all" if "r \<in> set ?roots" for r
    using that by (simp add: set_children_of)
  let ?t = "\<lambda>r. the (create_test_span fuel raw_spans' options r)"
  have create: "create_test_span fuel raw_spans' options r = Some (?t r) \<and>
      map without_children (preorder (?t r)) = map (span_content options) (spans_below fuel ?all r)"
    if "r \<in> set ?roots" for r
    using traces_created [OF assms(1) grouped assms(3) that, of options] by auto
  then have "all_some (map (create_test_span fuel raw_spans' options) ?roots) = Some (map ?t ?roots)"
    by (intro all_some_map) fastforce
  moreover have "res = (case raw_spans' None of
      Some roots \<Rightarrow> all_some (map (create_test_span fuel raw_spans' options) roots) | None \<Rightarrow> Some [])"
    using sink by (auto simp: sink_traces_def Let_def)
  ultimately have res: "res = Some (map ?t ?roots)"
    using grouped by (simp add: grouped_def)
  have "map without_children (concat (map test_trace_iter (map ?t ?roots))) = map (span_content options) ?ss"
    using create by (simp add: test_trace_iter_def iter_collect_preorder map_concat comp_def cong: map_cong)
  moreover have "distinct ?ss \<and> sorted_wrt parent_first ?ss"
    using root spans_below_ordered [OF assms(1)]
    by (intro siblings_ordered [OF assms(1) distinct_children_of [OF assms(1)], where T = "[]"]) blast+
  ultimately show ?thesis
    using sink res grouped spans_below_roots [OF assms(1,3)] by blast
qed

text \<open>C27: Spans with different ids, received in whatever order and in several calls, make
  traces: \<open>traces\<close> returns, recursing no deeper than there are spans, and iterating over its
  traces yields every span that descends from a root, each once, a parent before its children,
  with the contents the options ask for; spans below a parent that was not received are
  left out.\<close>

theorem test_traces_complete:
  assumes "distinct (map span_id (spans @ received))" "grouped spans raw_spans"
    and "length (spans @ received) \<le> fuel"
  shows "\<exists>traces raw_spans' ss. sink_traces fuel options received raw_spans = (Some traces, raw_spans') \<and>
    grouped (spans @ received) raw_spans' \<and>
    map without_children (concat (map test_trace_iter traces)) = map (span_content options) ss \<and>
    set ss = {s \<in> set (spans @ received). descends (spans @ received) s} \<and>
    distinct ss \<and> sorted_wrt parent_first ss"
  by (rule traces_of_sink [OF assms])

definition child_span :: "u64 \<Rightarrow> u64 \<Rightarrow> finished_span" where
  "child_span parent ident = (sample_span ''child'' None)
     \<lparr>fs_context := \<lparr>ss_trace_high = 0, ss_trace_low = 1, ss_span_id = ident, ss_flags = 1\<rparr>,
      fs_references := [ChildOf \<lparr>ss_trace_high = 0, ss_trace_low = 1, ss_span_id = parent, ss_flags = 1\<rparr>]\<rparr>"

theorem test_traces_complete_witness:
  "\<exists>traces. fst (sink_traces 3 \<lparr>include_logs = True, include_tags = True, include_start_time = True,
      include_finish_time = True\<rparr> [child_span 9 7, child_span 3 4, sample_span ''root'' None] Map.empty) =
      Some traces \<and> length (concat (map test_trace_iter traces)) = 2"
proof -
  let ?root = "sample_span ''root'' None"
  let ?spans = "[child_span 9 7, child_span 3 4, ?root]"
  let ?options = "\<lparr>include_logs = True, include_tags = True, include_start_time = True,
      include_finish_time = True\<rparr>"
  have facts: "span_id ?root = 3" "span_id (child_span p i) = i" "parent_of ?root = None"
    "parent_of (child_span p i) = Some p" for p i
    by (simp_all add: span_id_def parent_of_def child_span_def sample_span_def)
  have ids: "distinct (map span_id ([] @ ?spans))"
    by (simp add: facts)
  have fuel: "length ([] @ ?spans) \<le> 3"
    by simp
  from test_traces_complete [OF ids grouped_empty fuel, of ?options]
  obtain traces raw_spans' ss where sink: "sink_traces 3 ?options ?spans Map.empty = (Some traces, raw_spans')"
    and ss: "map without_children (concat (map test_trace_iter traces)) = map (span_content ?options) ss"
      "set ss = {s \<in> set ?spans. descends ?spans s}" "distinct ss"
    unfolding append_Nil by (elim exE conjE) (rule that)
  have ne: "?root \<noteq> child_span 3 4"
  proof
    assume "?root = child_span 3 4"
    from arg_cong [OF this, of span_id] show False
      by (simp only: facts) simp
  qed
  have "descends ?spans ?root"
    unfolding descends_def by (intro exI [of _ "[]"]) (simp add: facts)
  moreover have "descends ?spans (child_span 3 4)"
    unfolding descends_def by (intro exI [of _ "[?root]"]) (simp add: facts)
  moreover have "\<not> descends ?spans (child_span 9 7)"
  proof
    assume "descends ?spans (child_span 9 7)"
    then obtain P where P: "ancestry (child_span 9 7 # P)" "set P \<subseteq> set ?spans"
      by (auto simp: descends_def)
    then show False
      by (cases P) (auto simp: facts)
  qed
  ultimately have "set ss = {?root, child_span 3 4}"
    using ss(2) by auto
  then have "length ss = 2"
    using ss(3) ne by (metis card_2_iff distinct_card)
  with arg_cong [OF ss(1), of length] sink show ?thesis
    by simp
qed

end
