(* ===== verification/TraceLiterals.thy ===== *)
theory TraceLiterals
  imports TestTraces "HOL-Library.List_Lexorder" "HOL-Library.Char_ord"
begin

text \<open>
  The macro \<open>test_trace!\<close> of \<open>telemetry/tracing/mod.rs\<close>, with which a test writes down the trace that it
  expects of \<open>TestTracesSink::traces\<close>. The lemmas tell which traces can be written.
\<close>

section \<open>The macro\<close>

text \<open>A span as it is written: its name, the lists after \<open>logs:\<close> and \<open>tags:\<close> and the spans in the braces
  after \<open>=>\<close>; what is left out is an empty list.\<close>

datatype trace_literal =
  SpanLit string "(string \<times> string) list" "(string \<times> tag_value) list" "trace_literal list"

fun expand_span :: "trace_literal \<Rightarrow> test_span" where
  "expand_span (SpanLit name logs tags children) =
     TestSpan name (map expand_span children) (sort_key fst logs) tags 0 0"

definition test_trace :: "trace_literal \<Rightarrow> test_span" where
  "test_trace l = expand_span l"

section \<open>What can be written\<close>

definition writable_span :: "test_span \<Rightarrow> bool" where
  "writable_span t \<longleftrightarrow> sorted (map fst (ts_logs t)) \<and> ts_start_time t = 0 \<and> ts_finish_time t = 0"

fun as_literal :: "test_span \<Rightarrow> trace_literal" where
  "as_literal (TestSpan n cs ls ts s f) = SpanLit n ls ts (map as_literal cs)"

lemma expand_as_literal: "\<forall>u\<in>set (preorder t). writable_span u \<Longrightarrow> expand_span (as_literal t) = t"
proof (induction t)
  case (TestSpan n cs ls ts s f)
  then have "map (expand_span \<circ> as_literal) cs = cs"
    by (intro map_idI) auto
  with TestSpan.prems show ?case
    by (simp add: writable_span_def sort_key_id_if_sorted)
qed

lemma expand_writable: "u \<in> set (preorder (expand_span l)) \<Longrightarrow> writable_span u"
  by (induction l) (auto simp: writable_span_def)

lemma literal_iff_writable:
  "(\<exists>ls. map test_trace ls = traces) \<longleftrightarrow> (\<forall>u\<in>set (concat (map test_trace_iter traces)). writable_span u)"
proof
  assume "\<forall>u\<in>set (concat (map test_trace_iter traces)). writable_span u"
  then have "map (test_trace \<circ> as_literal) traces = traces"
    by (intro map_idI) (auto simp: test_trace_def test_trace_iter_def iter_collect_preorder intro!: expand_as_literal)
  then show "\<exists>ls. map test_trace ls = traces"
    by (intro exI [of _ "map as_literal traces"]) simp
qed (auto simp: test_trace_def test_trace_iter_def iter_collect_preorder expand_writable)

lemma writable_without_children: "writable_span (without_children t) = writable_span t"
  by (simp add: writable_span_def without_children_def)

lemma writable_content:
  assumes "\<not> include_start_time options" "\<not> include_finish_time options"
  shows "writable_span (span_content options s) \<longleftrightarrow> (include_logs options \<longrightarrow> sorted (map fst (span_logs s)))"
  using assms by (simp add: writable_span_def span_content_def)

text \<open>C28: without start and finish times, the traces of a sink can be written with \<open>test_trace!\<close> exactly if no
  logs are asked for or if, in each span that descends from a root, the fields of all its log records
  together are in the order of their names. The macro sorts the fields of a span, the sink puts those of
  one record after those of another; so two records in the wrong order make a trace that no test can
  write.\<close>

theorem traces_that_can_be_written:
  assumes "distinct (map span_id (spans @ received))" "grouped spans raw_spans"
    and "length (spans @ received) \<le> fuel"
    and "\<not> include_start_time options" "\<not> include_finish_time options"
    and "sink_traces fuel options received raw_spans = (Some traces, raw_spans')"
  shows "(\<exists>ls. map test_trace ls = traces) \<longleftrightarrow>
    (include_logs options \<longrightarrow>
      (\<forall>s\<in>set (spans @ received). descends (spans @ received) s \<longrightarrow> sorted (map fst (span_logs s))))"
proof -
  obtain ss where ss: "map without_children (concat (map test_trace_iter traces)) = map (span_content options) ss"
    "set ss = {s \<in> set (spans @ received). descends (spans @ received) s}"
    using traces_of_sink [OF assms(1-3), of options] assms(6) by auto
  have "(\<exists>ls. map test_trace ls = traces) \<longleftrightarrow>
      (\<forall>u\<in>set (map without_children (concat (map test_trace_iter traces))). writable_span u)"
    by (simp only: literal_iff_writable set_map ball_simps writable_without_children)
  also have "\<dots> \<longleftrightarrow> (\<forall>s\<in>set ss. include_logs options \<longrightarrow> sorted (map fst (span_logs s)))"
    unfolding ss(1) by (simp add: writable_content [OF assms(4,5)])
  finally show ?thesis
    using ss(2) by auto
qed

text \<open>A root with two log records, of which the second has the smaller name.\<close>

definition two_records :: "finished_span" where
  "two_records = (sample_span ''root'' None)\<lparr>fs_logs :=
     [\<lparr>le_time = 0, le_fields = [(''z'', ''1'')]\<rparr>, \<lparr>le_time = 0, le_fields = [(''a'', ''2'')]\<rparr>]\<rparr>"

definition logs_only :: test_trace_options where
  "logs_only = \<lparr>include_logs = True, include_tags = False, include_start_time = False, include_finish_time = False\<rparr>"

theorem traces_that_can_be_written_witness:
  "sink_traces 1 logs_only [two_records] Map.empty =
     (Some [TestSpan ''root'' [] [(''z'', ''1''), (''a'', ''2'')] [] 0 0],
      snd (sink_traces 1 logs_only [two_records] Map.empty)) \<and>
   (\<nexists>l. test_trace l = TestSpan ''root'' [] [(''z'', ''1''), (''a'', ''2'')] [] 0 0)"
proof -
  let ?traces = "[TestSpan ''root'' [] [(''z'', ''1''), (''a'', ''2'')] [] 0 0]"
  have facts: "parent_of two_records = None" "span_logs two_records = [(''z'', ''1''), (''a'', ''2'')]"
    by (simp_all add: two_records_def parent_of_def sample_span_def span_logs_def)
  have sink: "sink_traces 1 logs_only [two_records] Map.empty =
      (Some ?traces, snd (sink_traces 1 logs_only [two_records] Map.empty))"
    by (simp add: sink_traces_def Let_def add_raw_span_def facts logs_only_def)
      (simp add: two_records_def sample_span_def)
  have "descends [two_records] two_records"
    unfolding descends_def by (intro exI [of _ "[]"]) (simp add: facts)
  moreover have "\<not> sorted (map fst (span_logs two_records))"
    by (simp add: facts list_less_def)
  ultimately have "\<nexists>ls. map test_trace ls = ?traces"
    using traces_that_can_be_written [OF _ grouped_empty _ _ _ sink] by (simp add: logs_only_def)
  moreover have "map test_trace [l] = ?traces" if "test_trace l = hd ?traces" for l
    using that by simp
  ultimately show ?thesis
    using sink by (metis list.sel(1))
qed

end
