(* ===== verification/SettingsSources.thy ===== *)
theory SettingsSources
  imports SettingsYaml Utf8
begin

text \<open>
  Where settings come from: the command line (\<open>cli.rs\<close>), the parsing of YAML and the generated file
  (\<open>settings/mod.rs\<close>), values taken from the environment or from files (\<open>settings/external.rs\<close>) and
  the wrappers of secrets (\<open>settings/secret.rs\<close>). clap, the YAML parsers, the file system and the
  implementations of \<open>Deserialize\<close> and \<open>Debug\<close> for strings and vectors are parameters; a byte
  vector is a HOL string, one character a byte. The lemmas show how far a secret's content can be
  seen in what is serialized, printed or reported, and how every command line is answered.
\<close>

section \<open>Secrets\<close>

datatype secret = Secret string
datatype raw_secret = RawSecret string

text \<open>What is handed to a serializer.\<close>

datatype serialized =
    SerNone
  | SerStr string
  | SerSeq "nat list"
  | SerNewtypeVariant string serialized

definition secret_debug :: "secret \<Rightarrow> string" where
  "secret_debug s = ''Secret''"

definition secret_display :: "secret \<Rightarrow> string" where
  "secret_display s = ''REDACTED''"

definition secret_serialize :: "secret \<Rightarrow> serialized" where
  "secret_serialize s = SerNone"

definition raw_secret_debug :: "raw_secret \<Rightarrow> string" where
  "raw_secret_debug s = ''SecretBytes''"

definition raw_secret_display :: "raw_secret \<Rightarrow> string" where
  "raw_secret_display s = ''REDACTED''"

definition raw_secret_serialize :: "raw_secret \<Rightarrow> serialized" where
  "raw_secret_serialize s = SerNone"

text \<open>What a format's \<open>deserialize_byte_buf\<close> calls on the visitor, and \<open>BytesVisitor\<close>. The elements
  of a sequence are bytes or errors.\<close>

datatype visit =
    VisitStr string
  | VisitString string
  | VisitBytes string
  | VisitByteBuf string
  | VisitSeq "(string + char) list"
  | VisitOther string

fun visit_seq :: "(string + char) list \<Rightarrow> string \<Rightarrow> string + string" where
  "visit_seq [] bytes = Inr bytes"
| "visit_seq (Inl e # seq) bytes = Inl e"
| "visit_seq (Inr b # seq) bytes = visit_seq seq (bytes @ [b])"

fun bytes_visitor :: "visit \<Rightarrow> string + raw_secret" where
  "bytes_visitor (VisitStr v) = Inr (RawSecret v)"
| "bytes_visitor (VisitString v) = Inr (RawSecret v)"
| "bytes_visitor (VisitBytes v) = Inr (RawSecret v)"
| "bytes_visitor (VisitByteBuf v) = Inr (RawSecret v)"
| "bytes_visitor (VisitSeq seq) = map_sum id RawSecret (visit_seq seq [])"
| "bytes_visitor (VisitOther unexpected) =
     Inl (''invalid type: '' @ unexpected @ '', expected a byte array'')"

section \<open>Values from outside\<close>

text \<open>A deserializer, by what the types of this file ask of it: \<open>String\<close>, \<open>Vec<u8>\<close> and
  \<open>deserialize_byte_buf\<close>.\<close>

record deserializer =
  de_string :: "string + string"
  de_vec :: "string + string"
  de_byte_buf :: "string + visit"

text \<open>The environment and the files of the process; \<open>std::env::var\<close> and \<open>std::fs\<close> over them, with
  the messages of the standard library and of \<open>Debug\<close> for an \<open>OsString\<close>.\<close>

record outside =
  out_env :: "string \<Rightarrow> string option"
  out_files :: "string \<Rightarrow> string + string"
  out_debug_os :: "string \<Rightarrow> string"

definition env_var :: "outside \<Rightarrow> string \<Rightarrow> string + string" where
  "env_var w name =
     (case out_env w name of
        None \<Rightarrow> Inl ''environment variable not found''
      | Some v \<Rightarrow>
          if utf8_valid v then Inr v
          else Inl (''environment variable was not valid unicode: '' @ out_debug_os w v))"

definition fs_read :: "outside \<Rightarrow> string \<Rightarrow> string + string" where
  "fs_read w path = out_files w path"

definition fs_read_to_string :: "outside \<Rightarrow> string \<Rightarrow> string + string" where
  "fs_read_to_string w path =
     (case out_files w path of
        Inl e \<Rightarrow> Inl e
      | Inr v \<Rightarrow> if utf8_valid v then Inr v else Inl ''stream did not contain valid UTF-8'')"

text \<open>The four implementations of \<open>DeserializeExternal\<close>, over the types that have one.\<close>

datatype external_type = TString | TVec | TSecret | TRawSecret

datatype external_value =
    StringValue string
  | VecValue string
  | SecretValue secret
  | RawSecretValue raw_secret

fun load_from_env :: "external_type \<Rightarrow> outside \<Rightarrow> string \<Rightarrow> string + external_value" where
  "load_from_env TString w var_name = map_sum id StringValue (env_var w var_name)"
| "load_from_env TVec w var_name = map_sum id VecValue (env_var w var_name)"
| "load_from_env TSecret w var_name = map_sum id (SecretValue \<circ> Secret) (env_var w var_name)"
| "load_from_env TRawSecret w var_name = map_sum id (RawSecretValue \<circ> RawSecret) (env_var w var_name)"

fun load_from_file :: "external_type \<Rightarrow> outside \<Rightarrow> string \<Rightarrow> string + external_value" where
  "load_from_file TString w path = map_sum id StringValue (fs_read_to_string w path)"
| "load_from_file TVec w path = map_sum id VecValue (fs_read w path)"
| "load_from_file TSecret w path = map_sum id (SecretValue \<circ> Secret) (fs_read_to_string w path)"
| "load_from_file TRawSecret w path = map_sum id (RawSecretValue \<circ> RawSecret) (fs_read w path)"

fun deserialize_inline :: "external_type \<Rightarrow> deserializer \<Rightarrow> string + external_value" where
  "deserialize_inline TString d = map_sum id StringValue (de_string d)"
| "deserialize_inline TVec d = map_sum id VecValue (de_vec d)"
| "deserialize_inline TSecret d = map_sum id (SecretValue \<circ> Secret) (de_string d)"
| "deserialize_inline TRawSecret d =
     bind_result (de_byte_buf d) (\<lambda>v. map_sum id RawSecretValue (bytes_visitor v))"

definition deserialize_from_env ::
  "external_type \<Rightarrow> outside \<Rightarrow> deserializer \<Rightarrow> string + external_value" where
  "deserialize_from_env t w d =
     bind_result (de_string d) (\<lambda>var_name.
       map_sum (\<lambda>e. ''failed to read external data from $'' @ var_name @ '': '' @ e) id
         (load_from_env t w var_name))"

definition deserialize_from_file ::
  "external_type \<Rightarrow> outside \<Rightarrow> deserializer \<Rightarrow> string + external_value" where
  "deserialize_from_file t w d =
     bind_result (de_string d) (\<lambda>path.
       map_sum (\<lambda>e. ''failed to read external data from `'' @ path @ ''`: '' @ e) id
         (load_from_file t w path))"

datatype maybe_external = Data external_value | Env external_value | File external_value

text \<open>The derived \<open>Deserialize\<close>: the format gives the variant's name and the deserializer of its
  content.\<close>

definition maybe_external_deserialize ::
  "external_type \<Rightarrow> outside \<Rightarrow> string + (string \<times> deserializer) \<Rightarrow> string + maybe_external" where
  "maybe_external_deserialize t w access =
     bind_result access (\<lambda>(name, d).
       if name = ''data'' then map_sum id Data (deserialize_inline t d)
       else if name = ''env'' then map_sum id Env (deserialize_from_env t w d)
       else if name = ''file'' then map_sum id File (deserialize_from_file t w d)
       else Inl (''unknown variant `'' @ name @ ''`, expected one of `data`, `env`, `file`''))"

fun external_as_ref :: "maybe_external \<Rightarrow> external_value" where
  "external_as_ref (Data v) = v"
| "external_as_ref (Env v) = v"
| "external_as_ref (File v) = v"

text \<open>\<open>Serialize\<close>, \<open>Debug\<close> and \<open>Display\<close>; a vector has no \<open>Display\<close>.\<close>

fun external_value_serialize :: "external_value \<Rightarrow> serialized" where
  "external_value_serialize (StringValue s) = SerStr s"
| "external_value_serialize (VecValue s) = SerSeq (map of_char s)"
| "external_value_serialize (SecretValue s) = secret_serialize s"
| "external_value_serialize (RawSecretValue s) = raw_secret_serialize s"

definition serialize_as_none :: "external_value \<Rightarrow> serialized" where
  "serialize_as_none v = SerNone"

fun maybe_external_serialize :: "maybe_external \<Rightarrow> serialized" where
  "maybe_external_serialize (Data v) = SerNewtypeVariant ''data'' (external_value_serialize v)"
| "maybe_external_serialize (Env v) = SerNewtypeVariant ''env'' (serialize_as_none v)"
| "maybe_external_serialize (File v) = SerNewtypeVariant ''file'' (serialize_as_none v)"

fun external_value_debug :: "(external_value \<Rightarrow> string) \<Rightarrow> external_value \<Rightarrow> string" where
  "external_value_debug dbg (SecretValue s) = secret_debug s"
| "external_value_debug dbg (RawSecretValue s) = raw_secret_debug s"
| "external_value_debug dbg v = dbg v"

fun maybe_external_debug :: "(external_value \<Rightarrow> string) \<Rightarrow> maybe_external \<Rightarrow> string" where
  "maybe_external_debug dbg (Data v) = ''Data('' @ external_value_debug dbg v @ '')''"
| "maybe_external_debug dbg (Env v) = ''Env('' @ external_value_debug dbg v @ '')''"
| "maybe_external_debug dbg (File v) = ''File('' @ external_value_debug dbg v @ '')''"

fun external_value_display :: "external_value \<Rightarrow> string option" where
  "external_value_display (StringValue s) = Some s"
| "external_value_display (VecValue s) = None"
| "external_value_display (SecretValue s) = Some (secret_display s)"
| "external_value_display (RawSecretValue s) = Some (raw_secret_display s)"

definition maybe_external_display :: "maybe_external \<Rightarrow> string option" where
  "maybe_external_display v = external_value_display (external_as_ref v)"

section \<open>What can be seen of a secret\<close>

text \<open>Two worlds that differ only in the text of variables and files: the same ones exist, fail alike
  and are valid UTF-8, and a variable that is not is the same in both.\<close>

definition differ_in_text :: "outside \<Rightarrow> outside \<Rightarrow> bool" where
  "differ_in_text w w' \<longleftrightarrow> out_debug_os w = out_debug_os w' \<and>
     (\<forall>n. case (out_env w n, out_env w' n) of
        (None, None) \<Rightarrow> True
      | (Some u, Some v) \<Rightarrow> u = v \<or> utf8_valid u \<and> utf8_valid v
      | _ \<Rightarrow> False) \<and>
     (\<forall>p. case (out_files w p, out_files w' p) of
        (Inl e, Inl e') \<Rightarrow> e = e'
      | (Inr u, Inr v) \<Rightarrow> utf8_valid u = utf8_valid v
      | _ \<Rightarrow> False)"

definition visible :: "(external_value \<Rightarrow> string) \<Rightarrow> external_type \<Rightarrow> maybe_external \<Rightarrow>
  serialized \<times> (string \<times> string option) option" where
  "visible dbg t v =
     (maybe_external_serialize v,
      if t \<in> {TSecret, TRawSecret} then Some (maybe_external_debug dbg v, maybe_external_display v) else None)"

lemma load_from_env_visible:
  assumes "differ_in_text w w'"
  shows "(\<exists>e. load_from_env t w n = Inl e \<and> load_from_env t w' n = Inl e) \<or>
    (\<exists>u v. load_from_env t w n = Inr u \<and> load_from_env t w' n = Inr v \<and>
      (t \<in> {TSecret, TRawSecret} \<longrightarrow> (\<forall>dbg. external_value_debug dbg u = external_value_debug dbg v) \<and>
        external_value_display u = external_value_display v))"
proof -
  from assms have d: "out_debug_os w' = out_debug_os w"
    and n: "case (out_env w n, out_env w' n) of (None, None) \<Rightarrow> True
      | (Some u, Some v) \<Rightarrow> u = v \<or> utf8_valid u \<and> utf8_valid v | _ \<Rightarrow> False"
    by (simp_all add: differ_in_text_def)
  from n show ?thesis
    by (cases t) (auto simp: env_var_def d secret_debug_def raw_secret_debug_def secret_display_def
        raw_secret_display_def split: option.splits)
qed

lemma load_from_file_visible:
  assumes "differ_in_text w w'"
  shows "(\<exists>e. load_from_file t w n = Inl e \<and> load_from_file t w' n = Inl e) \<or>
    (\<exists>u v. load_from_file t w n = Inr u \<and> load_from_file t w' n = Inr v \<and>
      (t \<in> {TSecret, TRawSecret} \<longrightarrow> (\<forall>dbg. external_value_debug dbg u = external_value_debug dbg v) \<and>
        external_value_display u = external_value_display v))"
proof -
  from assms have n: "case (out_files w n, out_files w' n) of (Inl e, Inl e') \<Rightarrow> e = e'
      | (Inr u, Inr v) \<Rightarrow> utf8_valid u = utf8_valid v | _ \<Rightarrow> False"
    by (simp add: differ_in_text_def)
  then show ?thesis
    by (cases t) (auto simp: fs_read_def fs_read_to_string_def secret_debug_def raw_secret_debug_def
        secret_display_def raw_secret_display_def split: sum.splits)
qed

text \<open>C23: where an external setting is read from the environment or a file, what is serialized of it,
  whatever its type, and for the types of secrets also what is printed of it, and every error are
  the same whatever text the variable or the file holds, as long as the variable is valid UTF-8. A
  variable that is not is shown in the error, also when it is a secret.\<close>

theorem secrets_stay_hidden:
  assumes "differ_in_text w w'"
  shows "map_sum id (visible dbg t) (maybe_external_deserialize t w access) =
      map_sum id (visible dbg t) (maybe_external_deserialize t w' access) \<and>
    (access = Inr (''env'', d) \<and> de_string d = Inr n \<and> out_env w n = Some v \<and> \<not> utf8_valid v \<longrightarrow>
      maybe_external_deserialize TSecret w access =
        Inl (''failed to read external data from $'' @ n @ '': environment variable was not valid unicode: ''
          @ out_debug_os w v))"
proof (intro conjI impI)
  show "map_sum id (visible dbg t) (maybe_external_deserialize t w access) =
      map_sum id (visible dbg t) (maybe_external_deserialize t w' access)"
  proof (cases access)
    case (Inr a)
    obtain name d where a: "a = (name, d)" by fastforce
    consider "name = ''env''" | "name = ''file''" | "name \<noteq> ''env'' \<and> name \<noteq> ''file''" by blast
    then show ?thesis
    proof cases
      case 1
      show ?thesis
      proof (cases "de_string d")
        case (Inr n)
        from 1 load_from_env_visible [OF assms, of t n] show ?thesis
          by (auto simp: Inr \<open>access = Inr a\<close> a maybe_external_deserialize_def deserialize_from_env_def
              visible_def maybe_external_display_def serialize_as_none_def)
      qed (simp add: Inr a 1 maybe_external_deserialize_def deserialize_from_env_def)
    next
      case 2
      show ?thesis
      proof (cases "de_string d")
        case (Inr n)
        from 2 load_from_file_visible [OF assms, of t n] show ?thesis
          by (auto simp: Inr \<open>access = Inr a\<close> a maybe_external_deserialize_def deserialize_from_file_def
              visible_def maybe_external_display_def serialize_as_none_def)
      qed (simp add: Inr a 2 maybe_external_deserialize_def deserialize_from_file_def)
    next
      case 3
      then show ?thesis
        by (simp add: Inr a maybe_external_deserialize_def)
    qed
  qed (simp add: maybe_external_deserialize_def)
next
  assume "access = Inr (''env'', d) \<and> de_string d = Inr n \<and> out_env w n = Some v \<and> \<not> utf8_valid v"
  then show "maybe_external_deserialize TSecret w access =
      Inl (''failed to read external data from $'' @ n @ '': environment variable was not valid unicode: ''
        @ out_debug_os w v)"
    by (simp add: maybe_external_deserialize_def deserialize_from_env_def env_var_def)
qed

definition one_variable :: "string \<Rightarrow> outside" where
  "one_variable v =
     \<lparr>out_env = [''KEY'' \<mapsto> v], out_files = (\<lambda>p. Inl ''No such file''), out_debug_os = (\<lambda>v. v)\<rparr>"

definition naming :: "string \<Rightarrow> deserializer" where
  "naming name = \<lparr>de_string = Inr name, de_vec = Inl [], de_byte_buf = Inr (VisitString name)\<rparr>"

theorem secrets_stay_hidden_witness:
  "map_sum id (visible (\<lambda>v. []) TSecret)
      (maybe_external_deserialize TSecret (one_variable ''one'') (Inr (''env'', naming ''KEY''))) =
    map_sum id (visible (\<lambda>v. []) TSecret)
      (maybe_external_deserialize TSecret (one_variable ''other'') (Inr (''env'', naming ''KEY''))) \<and>
   maybe_external_deserialize TSecret (one_variable ''one'') (Inr (''env'', naming ''KEY'')) =
    Inr (Env (SecretValue (Secret ''one'')))"
proof -
  have "utf8_valid ''one''" "utf8_valid ''other''"
    by code_simp+
  then have "differ_in_text (one_variable ''one'') (one_variable ''other'')"
    by (simp add: differ_in_text_def one_variable_def)
  then have "map_sum id (visible (\<lambda>v. []) TSecret)
      (maybe_external_deserialize TSecret (one_variable ''one'') (Inr (''env'', naming ''KEY''))) =
    map_sum id (visible (\<lambda>v. []) TSecret)
      (maybe_external_deserialize TSecret (one_variable ''other'') (Inr (''env'', naming ''KEY'')))"
    using secrets_stay_hidden by blast
  moreover have "maybe_external_deserialize TSecret (one_variable ''one'') (Inr (''env'', naming ''KEY'')) =
      Inr (Env (SecretValue (Secret ''one'')))"
    by code_simp
  ultimately show ?thesis by simp
qed

section \<open>Parsing YAML\<close>

datatype clap_kind = DisplayHelp | DisplayVersion | OtherKind

text \<open>How a start can end without settings: with an error, with the end of the process after clap has
  printed its text, or in \<open>unreachable!\<close>.\<close>

datatype boot_error = Fails string | Exits clap_kind | Unreachable

text \<open>\<open>from_yaml_str\<close> with \<open>serde_yaml\<close>: to a value, merge keys, from the value.\<close>

definition from_yaml_str_serde ::
  "(string \<Rightarrow> string + 'v) \<Rightarrow> ('v \<Rightarrow> string + 'v) \<Rightarrow> ('v \<Rightarrow> string + 's) \<Rightarrow> string \<Rightarrow> boot_error + 's" where
  "from_yaml_str_serde to_value merge_keys deserialize data =
     map_sum Fails id (bind_result (to_value data) (\<lambda>value. bind_result (merge_keys value) deserialize))"

text \<open>\<open>from_yaml_str\<close> with \<open>serde_saphyr\<close>, which gives its own result and what the callback has left in
  \<open>path_res\<close>, if it was called.\<close>

definition from_yaml_str_saphyr ::
  "(string \<Rightarrow> (string + 's) option \<times> (string + unit)) \<Rightarrow> string \<Rightarrow> boot_error + 's" where
  "from_yaml_str_saphyr with_deserializer data =
     (case with_deserializer data of
        (Some (Inl e), _) \<Rightarrow> Inl (Fails e)
      | (_, Inl e) \<Rightarrow> Inl (Fails e)
      | (Some (Inr v), Inr _) \<Rightarrow> Inr v
      | (None, Inr _) \<Rightarrow> Inl Unreachable)"

section \<open>The command line\<close>

record arg_matches =
  am_generate :: "string option"
  am_config :: "string list option"

text \<open>The type of the settings: \<open>Default\<close>, \<open>Serialize\<close> as YAML, \<open>add_docs\<close> and the parser.\<close>

record 's settings_type =
  st_default :: 's
  st_yaml :: "'s \<Rightarrow> string + string"
  st_docs :: "'s \<Rightarrow> setting"
  st_from_yaml_str :: "string \<Rightarrow> boot_error + 's"

record 'w config_files =
  cf_create :: "string \<Rightarrow> 'w \<Rightarrow> (string + unit) \<times> 'w"
  cf_write_all :: "string \<Rightarrow> string \<Rightarrow> 'w \<Rightarrow> (string + unit) \<times> 'w"
  cf_read_to_string :: "'w \<Rightarrow> string \<Rightarrow> string + string"

definition documented_yaml :: "'s settings_type \<Rightarrow> 's \<Rightarrow> string + string" where
  "documented_yaml st s = map_sum id (\<lambda>yaml. to_yaml_string yaml (st_docs st s)) (st_yaml st s)"

definition to_yaml_file ::
  "'w config_files \<Rightarrow> 's settings_type \<Rightarrow> 's \<Rightarrow> string \<Rightarrow> 'w \<Rightarrow> (string + unit) \<times> 'w" where
  "to_yaml_file cf st s path w =
     (case cf_create cf path w of
        (Inl e, w) \<Rightarrow> (Inl e, w)
      | (Inr _, w) \<Rightarrow>
          (case documented_yaml st s of
             Inl e \<Rightarrow> (Inl e, w)
           | Inr yaml \<Rightarrow> cf_write_all cf path yaml w))"

definition get_arg_matches ::
  "('a \<Rightarrow> (clap_kind \<times> string) + arg_matches) \<Rightarrow> 'a \<Rightarrow> boot_error + arg_matches" where
  "get_arg_matches try_get_matches_from os_args =
     map_sum
       (\<lambda>(kind, e). if kind = DisplayHelp \<or> kind = DisplayVersion then Exits kind else Fails e) id
       (try_get_matches_from os_args)"

definition settings_from_files ::
  "'w config_files \<Rightarrow> 's settings_type \<Rightarrow> 'w \<Rightarrow> string list \<Rightarrow> boot_error + 's" where
  "settings_from_files cf st w =
     from_files (\<lambda>path. map_sum Fails id (cf_read_to_string cf w path)) (st_from_yaml_str st)"

definition get_settings ::
  "'w config_files \<Rightarrow> 's settings_type \<Rightarrow> arg_matches \<Rightarrow> 'w \<Rightarrow> (boot_error + 's) \<times> 'w" where
  "get_settings cf st m w =
     (case am_generate m of
        Some path \<Rightarrow>
          (case to_yaml_file cf st (st_default st) path w of
             (Inl e, w) \<Rightarrow> (Inl (Fails e), w)
           | (Inr _, w) \<Rightarrow> (Inr (st_default st), w))
      | None \<Rightarrow>
          (case am_config m of
             Some paths \<Rightarrow> (settings_from_files cf st w paths, w)
           | None \<Rightarrow> (Inl Unreachable, w)))"

definition cli_new ::
  "'w config_files \<Rightarrow> 's settings_type \<Rightarrow> ('a \<Rightarrow> (clap_kind \<times> string) + arg_matches) \<Rightarrow> 'a \<Rightarrow> 'w \<Rightarrow>
   (boot_error + 's \<times> arg_matches) \<times> 'w" where
  "cli_new cf st try_get_matches_from os_args w =
     (case get_arg_matches try_get_matches_from os_args of
        Inl e \<Rightarrow> (Inl e, w)
      | Inr m \<Rightarrow>
          (case get_settings cf st m w of (r, w) \<Rightarrow> (map_sum id (\<lambda>s. (s, m)) r, w)))"

section \<open>Every command line is answered\<close>

text \<open>clap keeps to \<open>required_unless_present\<close>; the saphyr parser calls the callback unless it fails;
  text that was written to a regular file just created reads back.\<close>

definition clap_documented :: "('a \<Rightarrow> (clap_kind \<times> string) + arg_matches) \<Rightarrow> bool" where
  "clap_documented try_get_matches_from \<longleftrightarrow>
     (\<forall>os_args m. try_get_matches_from os_args = Inr m \<longrightarrow> am_generate m \<noteq> None \<or> am_config m \<noteq> None)"

definition saphyr_documented :: "(string \<Rightarrow> (string + 's) option \<times> (string + unit)) \<Rightarrow> bool" where
  "saphyr_documented with_deserializer \<longleftrightarrow>
     (\<forall>data. with_deserializer data \<noteq> (None, Inr ()))"

definition config_files_documented :: "string set \<Rightarrow> 'w config_files \<Rightarrow> bool" where
  "config_files_documented regular cf \<longleftrightarrow>
     (\<forall>path\<in>regular. \<forall>data w w1 w2. utf8_valid data \<longrightarrow> cf_create cf path w = (Inr (), w1) \<longrightarrow>
        cf_write_all cf path data w1 = (Inr (), w2) \<longrightarrow> cf_read_to_string cf w2 path = Inr data)"

lemma from_yaml_str_saphyr_reachable:
  "saphyr_documented wd \<Longrightarrow> from_yaml_str_saphyr wd data \<noteq> Inl Unreachable"
  by (auto simp: saphyr_documented_def from_yaml_str_saphyr_def split: prod.splits option.splits sum.splits)

lemma from_yaml_str_serde_reachable: "from_yaml_str_serde a b c data \<noteq> Inl Unreachable"
  by (auto simp: from_yaml_str_serde_def map_sum_def split: sum.splits)

lemma read_files_error:
  "read_files r paths data = Inl e \<Longrightarrow> \<exists>p\<in>set paths. r p = Inl e"
  by (induction paths arbitrary: data) (auto simp: Let_def split: sum.splits if_splits)

lemma settings_from_files_reachable:
  assumes "\<And>data. st_from_yaml_str st data \<noteq> Inl Unreachable"
  shows "settings_from_files cf st w paths \<noteq> Inl Unreachable"
proof
  let ?r = "\<lambda>path. map_sum Fails id (cf_read_to_string cf w path)"
  assume "settings_from_files cf st w paths = Inl Unreachable"
  with assms have "read_files ?r paths [] = Inl Unreachable"
    by (auto simp: settings_from_files_def from_files_def bind_result_def split: sum.splits)
  from read_files_error [OF this] obtain p where "?r p = Inl Unreachable" by blast
  then show False
    by (cases "cf_read_to_string cf w p") simp_all
qed

text \<open>with a parser of either kind, every command line ends in one of four ways and never in
  \<open>unreachable!\<close>: clap's help and version texts end the process, its errors are passed on; a file to
  generate is written and wins over files to read: if settings come of it, they are the defaults and
  the file, when it is then given as the only one, is parsed as the documented text of the defaults;
  otherwise the files are read, and nothing is written.\<close>

theorem cli_settles:
  assumes "clap_documented try_get_matches_from" and "config_files_documented regular cf"
    and "(\<exists>wd. saphyr_documented wd \<and> st_from_yaml_str st = from_yaml_str_saphyr wd) \<or>
      (\<exists>a b c. st_from_yaml_str st = from_yaml_str_serde (a :: string \<Rightarrow> string + 'v) b c)"
    and "\<And>yaml. documented_yaml st (st_default st) = Inr yaml \<Longrightarrow> utf8_valid yaml"
    and "cli_new cf st try_get_matches_from os_args w = (r, w')"
  shows "r \<noteq> Inl Unreachable \<and>
    (case try_get_matches_from os_args of
       Inl (kind, e) \<Rightarrow> r = Inl (if kind \<in> {DisplayHelp, DisplayVersion} then Exits kind else Fails e) \<and> w' = w
     | Inr m \<Rightarrow>
         (case am_generate m of
            Some path \<Rightarrow> (\<exists>e. r = Inl (Fails e)) \<or>
              (\<exists>yaml. r = Inr (st_default st, m) \<and> documented_yaml st (st_default st) = Inr yaml \<and>
                (path \<in> regular \<longrightarrow> settings_from_files cf st w' [path] = st_from_yaml_str st yaml))
          | None \<Rightarrow> w' = w \<and>
              r = map_sum id (\<lambda>s. (s, m)) (settings_from_files cf st w (the (am_config m)))))"
proof (cases "try_get_matches_from os_args")
  case (Inl ke)
  with assms(5) show ?thesis
    by (cases ke) (auto simp: cli_new_def get_arg_matches_def split: if_splits)
next
  case (Inr m)
  show ?thesis
  proof (cases "am_generate m")
    case None
    with Inr assms(1) obtain paths where "am_config m = Some paths"
      unfolding clap_documented_def by blast
    with Inr None assms(5) have r: "w' = w" "r = map_sum id (\<lambda>s. (s, m)) (settings_from_files cf st w paths)"
      by (auto simp: cli_new_def get_arg_matches_def get_settings_def)
    have "st_from_yaml_str st data \<noteq> Inl Unreachable" for data
      using assms(3) from_yaml_str_saphyr_reachable from_yaml_str_serde_reachable by metis
    from settings_from_files_reachable [OF this, of cf w paths] have "r \<noteq> Inl Unreachable"
      unfolding r by (cases "settings_from_files cf st w paths") auto
    with r Inr None \<open>am_config m = Some paths\<close> show ?thesis by simp
  next
    case (Some path)
    obtain wr w2 where t: "to_yaml_file cf st (st_default st) path w = (wr, w2)" by fastforce
    show ?thesis
    proof (cases wr)
      case (Inl e)
      with t Some \<open>try_get_matches_from os_args = Inr m\<close> assms(5) show ?thesis
        by (auto simp: cli_new_def get_arg_matches_def get_settings_def)
    next
      case wr: (Inr u)
      with t obtain w1 yaml where w: "cf_create cf path w = (Inr (), w1)"
        "documented_yaml st (st_default st) = Inr yaml" "cf_write_all cf path yaml w1 = (Inr (), w2)"
        by (auto simp: to_yaml_file_def split: prod.splits sum.splits)
      have "path \<in> regular \<longrightarrow> cf_read_to_string cf w2 path = Inr yaml"
        using assms(2,4) w unfolding config_files_documented_def by blast
      then have "path \<in> regular \<longrightarrow> settings_from_files cf st w2 [path] = st_from_yaml_str st yaml"
        by (simp add: settings_from_files_def from_files_def)
      with t wr w Some Inr assms(5) show ?thesis
        by (auto simp: cli_new_def get_arg_matches_def get_settings_def)
    qed
  qed
qed

text \<open>Files as a map, settings that are a number in a YAML text, and a clap of two options.\<close>

definition map_files :: "(string \<rightharpoonup> string) config_files" where
  "map_files = \<lparr>cf_create = (\<lambda>path w. (Inr (), w(path \<mapsto> []))),
     cf_write_all = (\<lambda>path data w. (Inr (), w(path \<mapsto> data))),
     cf_read_to_string = (\<lambda>w path. case w path of None \<Rightarrow> Inl ''No such file'' | Some d \<Rightarrow> Inr d)\<rparr>"

definition length_settings :: "nat settings_type" where
  "length_settings = \<lparr>st_default = 3, st_yaml = (\<lambda>n. Inr (replicate n (CHR ''a''))),
     st_docs = (\<lambda>n. Scalar []), st_from_yaml_str = from_yaml_str_saphyr (\<lambda>d. (Some (Inr (length d)), Inr ()))\<rparr>"

definition two_options :: "string list \<Rightarrow> (clap_kind \<times> string) + arg_matches" where
  "two_options os_args =
     (case os_args of
        [o1, path] \<Rightarrow>
          if o1 = ''-g'' then Inr \<lparr>am_generate = Some path, am_config = None\<rparr>
          else Inr \<lparr>am_generate = None, am_config = Some [path]\<rparr>
      | _ \<Rightarrow> Inl (DisplayHelp, []))"

theorem cli_settles_witness:
  "let (r, w') = cli_new map_files length_settings two_options [''-g'', ''f''] Map.empty
   in r \<noteq> Inl Unreachable \<and> r = Inr (3, \<lparr>am_generate = Some ''f'', am_config = None\<rparr>) \<and>
     settings_from_files map_files length_settings w' [''f''] = Inr 4"
proof -
  let ?m = "\<lparr>am_generate = Some ''f'', am_config = None\<rparr>"
  obtain r w' where c: "cli_new map_files length_settings two_options [''-g'', ''f''] Map.empty = (r, w')"
    by fastforce
  have y: "documented_yaml length_settings (st_default length_settings) = Inr (''aaa'' @ [line_feed])"
    by code_simp
  have u: "utf8_valid (''aaa'' @ [line_feed])"
    by code_simp
  have "r \<noteq> Inl Unreachable \<and>
    (case two_options [''-g'', ''f''] of
       Inl (kind, e) \<Rightarrow> r = Inl (if kind \<in> {DisplayHelp, DisplayVersion} then Exits kind else Fails e) \<and> w' = Map.empty
     | Inr m \<Rightarrow>
         (case am_generate m of
            Some path \<Rightarrow> (\<exists>e. r = Inl (Fails e)) \<or>
              (\<exists>yaml. r = Inr (st_default length_settings, m) \<and>
                documented_yaml length_settings (st_default length_settings) = Inr yaml \<and>
                (path \<in> UNIV \<longrightarrow>
                  settings_from_files map_files length_settings w' [path] = st_from_yaml_str length_settings yaml))
          | None \<Rightarrow> w' = Map.empty \<and>
              r = map_sum id (\<lambda>s. (s, m)) (settings_from_files map_files length_settings Map.empty (the (am_config m)))))"
  proof (rule cli_settles [OF _ _ _ _ c])
    show "clap_documented two_options"
      by (auto simp: clap_documented_def two_options_def split: list.splits if_splits)
    show "config_files_documented UNIV map_files"
      by (auto simp: config_files_documented_def map_files_def)
    show "(\<exists>wd. saphyr_documented wd \<and> st_from_yaml_str length_settings = from_yaml_str_saphyr wd) \<or>
      (\<exists>(a :: string \<Rightarrow> string + unit) b c. st_from_yaml_str length_settings = from_yaml_str_serde a b c)"
      by (rule disjI1) (auto simp: length_settings_def saphyr_documented_def)
    show "utf8_valid yaml" if "documented_yaml length_settings (st_default length_settings) = Inr yaml" for yaml
      using that u unfolding y by simp
  qed
  moreover have "fst (cli_new map_files length_settings two_options [''-g'', ''f''] Map.empty) = Inr (3, ?m)"
    by code_simp
  moreover have "st_from_yaml_str length_settings (''aaa'' @ [line_feed]) = Inr 4"
    by code_simp
  ultimately show ?thesis
    using y by (simp add: c two_options_def)
qed

end
