(* ===== verification/SettingsMacro.thy ===== *)
theory SettingsMacro
  imports Prelude
begin

text \<open>
  The macro \<open>#[settings]\<close>, \<open>foundations-macros/src/settings.rs\<close>, apart from the documentation, which
  is in \<open>SettingsYaml\<close>: the items it accepts, the attributes it adds and the \<open>Default\<close> it implements.
  serde's part is a parameter with its documented behaviour. The lemmas relate the two ways of filling
  a field that a document leaves out.
\<close>

section \<open>Items and attributes\<close>

text \<open>One \<open>serde\<close> attribute of a field: whether it has \<open>flatten\<close>, and \<open>default\<close> as a word or with the path
  of a function.\<close>

datatype 'p override = Inherit | Explicit 'p

record 'p serde_args =
  sa_flatten :: bool
  sa_default :: "'p override option"

text \<open>A field with the keys serde reads it from: its name unless an attribute renames it, its aliases,
  and none if an attribute has \<open>skip\<close> or \<open>skip_deserializing\<close>; the contents of its \<open>serde\<close> attributes
  in their order, or what darling has against them; and whether its \<open>cfg\<close> attributes hold.\<close>

record 'p field_item =
  fi_name :: string
  fi_keys :: "string list"
  fi_serde :: "(string + 'p serde_args) list"
  fi_cfg :: bool

datatype 'p item_fields = UnitFields | UnnamedFields nat | NamedFields "'p field_item list"

datatype 'p item =
    ItemEnum "'p item_fields list"
  | ItemStruct "'p item_fields"
  | ItemOther

record settings_options =
  so_impl_default :: bool
  so_impl_debug :: bool
  so_deny_unknown_fields :: bool

text \<open>Whether the feature \<open>settings_deny_unknown_fields_by_default\<close> is on is a parameter.\<close>

definition options_default :: "bool \<Rightarrow> settings_options" where
  "options_default feature =
     \<lparr>so_impl_default = True, so_impl_debug = True, so_deny_unknown_fields = feature\<rparr>"

datatype item_attr =
    DeriveDefault
  | DeriveCloneSerde
  | DeriveDebug
  | SerdeCrate
  | SerdeDenyUnknownFields
  | SerdeRenameAllSnakeCase
  | SerdeDefault

definition parse_from_attrs :: "(string + 'p serde_args) list \<Rightarrow> string + 'p serde_args option" where
  "parse_from_attrs attrs =
     (case attrs of [] \<Rightarrow> Inr None | attr # _ \<Rightarrow> map_sum (\<lambda>e. e) Some attr)"

definition is_serde_flattened :: "(string + 'p serde_args) list \<Rightarrow> bool" where
  "is_serde_flattened attrs =
     (case parse_from_attrs attrs of Inr (Some args) \<Rightarrow> sa_flatten args | _ \<Rightarrow> False)"

section \<open>Expansion\<close>

text \<open>An initializer of the generated \<open>Default\<close>: a path that is called, or \<open>Default::default\<close>.\<close>

datatype 'p function_path = DefaultDefault | PathOf 'p

definition initializer :: "'p field_item \<Rightarrow> string + (string \<times> 'p function_path)" where
  "initializer field =
     bind_result (parse_from_attrs (fi_serde field)) (\<lambda>args.
       Inr (fi_name field,
         (case args of
            None \<Rightarrow> DefaultDefault
          | Some a \<Rightarrow>
              (case sa_default a of Some (Explicit p) \<Rightarrow> PathOf p | _ \<Rightarrow> DefaultDefault))))"

fun collect_initializers :: "'p field_item list \<Rightarrow> string + (string \<times> 'p function_path) list" where
  "collect_initializers [] = Inr []"
| "collect_initializers (field # fs) =
     bind_result (initializer field) (\<lambda>i.
       bind_result (collect_initializers fs) (\<lambda>inits. Inr (if fi_cfg field then i # inits else inits)))"

definition add_default_attrs :: "settings_options \<Rightarrow> item_attr list" where
  "add_default_attrs options =
     [DeriveCloneSerde]
     @ (if so_impl_debug options then [DeriveDebug] else [])
     @ [SerdeCrate]
     @ (if so_deny_unknown_fields options then [SerdeDenyUnknownFields] else [])"

text \<open>The attributes that are added, and the fields of the \<open>Default\<close> that is implemented by hand.\<close>

record 'p expansion =
  ex_attrs :: "item_attr list"
  ex_default :: "(string \<times> 'p function_path) list option"

fun is_tuple :: "'p item_fields \<Rightarrow> bool" where
  "is_tuple (UnnamedFields n) \<longleftrightarrow> 1 < n"
| "is_tuple fs \<longleftrightarrow> False"

fun is_struct :: "'p item_fields \<Rightarrow> bool" where
  "is_struct (NamedFields fs) \<longleftrightarrow> True"
| "is_struct fs \<longleftrightarrow> False"

definition expand_enum :: "settings_options \<Rightarrow> 'p item_fields list \<Rightarrow> string + 'p expansion" where
  "expand_enum options variants =
     (if \<exists>v\<in>set variants. is_struct v \<or> is_tuple v
      then Inl ''Settings enum variant should either be a unit variant (e.g. `Enum::Foo`) or a new type variant (e.g. `Enum::Foo(Bar)`).''
      else Inr \<lparr>ex_attrs = (if so_impl_default options then [DeriveDefault] else [])
          @ add_default_attrs options @ [SerdeRenameAllSnakeCase],
        ex_default = None\<rparr>)"

definition expand_unnamed_field_struct ::
  "settings_options \<Rightarrow> 'p item_fields \<Rightarrow> string + 'p expansion" where
  "expand_unnamed_field_struct options fs =
     (if is_tuple fs
      then Inl ''Settings with unnamed fields can only be new type structures (e.g. `struct Millimeters(u8)`).''
      else Inr \<lparr>ex_attrs = (if so_impl_default options then [DeriveDefault] else []) @ add_default_attrs options,
        ex_default = None\<rparr>)"

fun named_fields :: "'p item_fields \<Rightarrow> 'p field_item list" where
  "named_fields (NamedFields fs) = fs"
| "named_fields _ = []"

definition expand_struct :: "settings_options \<Rightarrow> 'p item_fields \<Rightarrow> string + 'p expansion" where
  "expand_struct options fs =
     (let attrs = add_default_attrs options @ [SerdeDefault]
      in if so_impl_default options
         then bind_result (collect_initializers (named_fields fs)) (\<lambda>inits.
           Inr \<lparr>ex_attrs = attrs, ex_default = Some inits\<rparr>)
         else Inr \<lparr>ex_attrs = attrs, ex_default = None\<rparr>)"

fun expand_from_parsed :: "settings_options \<Rightarrow> 'p item \<Rightarrow> string + 'p expansion" where
  "expand_from_parsed options (ItemEnum variants) = expand_enum options variants"
| "expand_from_parsed options (ItemStruct (UnnamedFields n)) =
     expand_unnamed_field_struct options (UnnamedFields n)"
| "expand_from_parsed options (ItemStruct fs) = expand_struct options fs"
| "expand_from_parsed options ItemOther = Inl ''Settings should be either structure or enum.''"

section \<open>Defaults at run time\<close>

text \<open>A type has a default for each field's type and a value for each function that is named.\<close>

record ('p, 'v) default_functions =
  fn_default :: "string \<Rightarrow> 'v"
  fn_call :: "'p \<Rightarrow> 'v"

fun run_path :: "('p, 'v) default_functions \<Rightarrow> string \<Rightarrow> 'p function_path \<Rightarrow> 'v" where
  "run_path F name DefaultDefault = fn_default F name"
| "run_path F name (PathOf p) = fn_call F p"

definition generated_default :: "('p, 'v) default_functions \<Rightarrow> (string \<times> 'p function_path) list \<Rightarrow> (string \<times> 'v) list" where
  "generated_default F inits = map (\<lambda>(name, p). (name, run_path F name p)) inits"

text \<open>serde is not part of the repository: the \<open>Deserialize\<close> it derives is a parameter, of which the
  documentation says how it fills the fields of a structure with \<open>#[serde(default)]\<close>. A missing field takes
  the default of the field, from whichever of its attributes has one, and otherwise the field of the
  container's default; so does a field that is skipped.\<close>

definition serde_default_of :: "(string + 'p serde_args) list \<Rightarrow> 'p override option" where
  "serde_default_of attrs =
     (case [d. Inr a \<leftarrow> attrs, Some d \<leftarrow> [sa_default a]] of [] \<Rightarrow> None | d # _ \<Rightarrow> Some d)"

definition missing_value ::
  "('p, 'v) default_functions \<Rightarrow> (string \<rightharpoonup> 'v) \<Rightarrow> 'p field_item \<Rightarrow> 'v" where
  "missing_value F container field =
     (case serde_default_of (fi_serde field) of
        Some (Explicit p) \<Rightarrow> fn_call F p
      | Some Inherit \<Rightarrow> fn_default F (fi_name field)
      | None \<Rightarrow> the (container (fi_name field)))"

type_synonym ('p, 'v, 'y) derived_deserialize =
  "item_attr list \<Rightarrow> (string \<rightharpoonup> 'v) \<Rightarrow> 'p field_item list \<Rightarrow> (string \<times> 'y) list \<Rightarrow> string + (string \<times> 'v) list"

definition entries_of :: "string list \<Rightarrow> (string \<times> 'y) list \<Rightarrow> 'y list" where
  "entries_of keys doc = map snd (filter (\<lambda>e. fst e \<in> set keys) doc)"

definition read_field ::
  "('p, 'v) default_functions \<Rightarrow> (string \<Rightarrow> 'y \<Rightarrow> string + 'v) \<Rightarrow> (string \<rightharpoonup> 'v) \<Rightarrow> (string \<times> 'y) list \<Rightarrow>
   'p field_item \<Rightarrow> string + 'v" where
  "read_field F parse container doc field =
     (case entries_of (fi_keys field) doc of
        [] \<Rightarrow> Inr (missing_value F container field)
      | [y] \<Rightarrow> parse (fi_name field) y
      | _ \<Rightarrow> Inl ''duplicate field'')"

definition known_keys :: "'p field_item list \<Rightarrow> string list" where
  "known_keys fs = concat (map fi_keys fs)"

text \<open>Documented for fields that are not flattened and share no key, and for a document that is a
  mapping, the list of its entries: with unknown fields denied a key that names no field is an error;
  otherwise the fields are read one by one, a second entry for the same field being an error, whatever
  error is reported when one fails. Entries that name no field may be repeated.\<close>

definition serde_documented ::
  "('p, 'v) default_functions \<Rightarrow> (string \<Rightarrow> 'y \<Rightarrow> string + 'v) \<Rightarrow> ('p, 'v, 'y) derived_deserialize \<Rightarrow> bool" where
  "serde_documented F parse deserialize \<longleftrightarrow>
     (\<forall>attrs container fs doc vs.
        SerdeDefault \<in> set attrs \<longrightarrow> distinct (known_keys fs) \<longrightarrow>
        (\<forall>f\<in>set fs. \<forall>a\<in>set (fi_serde f). \<not> isl a \<and> \<not> sa_flatten (projr a)) \<longrightarrow>
        (deserialize attrs container fs doc = Inr vs \<longleftrightarrow>
          (SerdeDenyUnknownFields \<in> set attrs \<longrightarrow> fst ` set doc \<subseteq> set (known_keys fs)) \<and>
          map fst vs = map fi_name fs \<and>
          map (read_field F parse container doc) fs = map (\<lambda>v. Inr (snd v)) vs))"

lemma serde_documentedD:
  assumes "serde_documented F parse deserialize" "SerdeDefault \<in> set attrs" "distinct (known_keys fs)"
    and "\<forall>f\<in>set fs. \<forall>a\<in>set (fi_serde f). \<not> isl a \<and> \<not> sa_flatten (projr a)"
  shows "deserialize attrs container fs doc = Inr vs \<longleftrightarrow>
    (SerdeDenyUnknownFields \<in> set attrs \<longrightarrow> fst ` set doc \<subseteq> set (known_keys fs)) \<and>
    map fst vs = map fi_name fs \<and>
    map (read_field F parse container doc) fs = map (\<lambda>v. Inr (snd v)) vs"
  using assms(1) [unfolded serde_documented_def, rule_format, of attrs fs container doc vs] assms(2-) by blast

section \<open>Properties\<close>

text \<open>The fields whose attributes the macro sees as serde does: darling reads all of them, none flattens
  the field, and the first has the default if any has.\<close>

definition plain_field :: "'p field_item \<Rightarrow> bool" where
  "plain_field field \<longleftrightarrow>
     (\<forall>a\<in>set (fi_serde field). \<not> isl a \<and> \<not> sa_flatten (projr a)) \<and>
     serde_default_of (fi_serde field) = serde_default_of (take 1 (fi_serde field))"

definition default_value :: "('p, 'v) default_functions \<Rightarrow> 'p field_item \<Rightarrow> 'v" where
  "default_value F field =
     (case serde_default_of (fi_serde field) of
        Some (Explicit p) \<Rightarrow> fn_call F p | _ \<Rightarrow> fn_default F (fi_name field))"

lemma initializer_value:
  assumes "initializer field = Inr (name, p)" "plain_field field"
  shows "name = fi_name field \<and> run_path F name p = default_value F field"
  using assms
  by (cases "fi_serde field";
      auto simp: initializer_def parse_from_attrs_def plain_field_def serde_default_of_def
        default_value_def bind_result_def split: sum.splits option.splits override.splits)+

lemma collect_initializers_value:
  assumes "collect_initializers fs = Inr inits" "\<forall>f\<in>set fs. plain_field f"
  shows "generated_default F inits = map (\<lambda>f. (fi_name f, default_value F f)) (filter fi_cfg fs)"
  using assms
  by (induction fs arbitrary: inits)
    (auto simp: generated_default_def bind_result_Inr_iff dest: initializer_value split: prod.splits if_splits)

lemma expand_struct_Inr:
  assumes "expand_from_parsed options (ItemStruct (NamedFields fs)) = Inr ex" "so_impl_default options"
  shows "\<exists>inits. collect_initializers fs = Inr inits \<and> ex_default ex = Some inits \<and>
    SerdeDefault \<in> set (ex_attrs ex) \<and>
    (SerdeDenyUnknownFields \<in> set (ex_attrs ex) \<longleftrightarrow> so_deny_unknown_fields options)"
  using assms by (auto simp: expand_struct_def bind_result_Inr_iff add_default_attrs_def)

lemma map_of_fields:
  "distinct (map fi_name fs) \<Longrightarrow> f \<in> set fs \<Longrightarrow> map_of (map (\<lambda>f. (fi_name f, g f)) fs) (fi_name f) = Some (g f)"
  by (intro map_of_is_SomeI) (auto simp: comp_def)

lemma missing_value_default:
  "container (fi_name f) = Some (default_value F f) \<Longrightarrow> missing_value F container f = default_value F f"
  by (simp add: missing_value_def default_value_def split: option.splits override.splits)

text \<open>What a document says of a field: the value of its one entry or, if it has none, the default.\<close>

definition field_value ::
  "('p, 'v) default_functions \<Rightarrow> (string \<Rightarrow> 'y \<Rightarrow> string + 'v) \<Rightarrow> (string \<times> 'y) list \<Rightarrow> 'p field_item \<Rightarrow> string + 'v" where
  "field_value F parse doc field =
     (case entries_of (fi_keys field) doc of
        [] \<Rightarrow> Inr (default_value F field)
      | [y] \<Rightarrow> parse (fi_name field) y
      | _ \<Rightarrow> Inl ''duplicate field'')"

lemma read_field_value:
  "container (fi_name f) = Some (default_value F f) \<Longrightarrow>
   read_field F parse container doc f = field_value F parse doc f"
  by (simp add: read_field_def field_value_def missing_value_default split: list.split)

lemma entries_of_Nil [simp]: "entries_of ks [] = []" "entries_of [] doc = []"
  by (simp_all add: entries_of_def)

lemma settings_defaults:
  assumes "expand_from_parsed options (ItemStruct (NamedFields fs)) = Inr ex" "so_impl_default options"
    and "distinct (map fi_name (filter fi_cfg fs))" "\<forall>f\<in>set fs. plain_field f"
  shows "generated_default F (the (ex_default ex)) = map (\<lambda>f. (fi_name f, default_value F f)) (filter fi_cfg fs)"
    and "\<forall>f\<in>set (filter fi_cfg fs).
      map_of (generated_default F (the (ex_default ex))) (fi_name f) = Some (default_value F f)"
proof -
  obtain inits where "collect_initializers fs = Inr inits" "ex_default ex = Some inits"
    using expand_struct_Inr [OF assms(1,2)] by auto
  then show *: "generated_default F (the (ex_default ex)) = map (\<lambda>f. (fi_name f, default_value F f)) (filter fi_cfg fs)"
    using collect_initializers_value assms(4) by fastforce
  show "\<forall>f\<in>set (filter fi_cfg fs).
      map_of (generated_default F (the (ex_default ex))) (fi_name f) = Some (default_value F f)"
    unfolding * using map_of_fields [OF assms(3), of _ "default_value F"] by auto
qed

text \<open>C32: for a structure that is expanded with the generated \<open>Default\<close>, an empty document gives exactly the
  default. A document, a mapping that may repeat keys, is accepted exactly if every key names a field that
  is not skipped, or unknown fields are allowed, no field has two entries, and each value of a field
  parses; it then gives the structure's fields in their order, each with the value in the document or else
  as in the default, which is what a skipped field always has. This holds if all fields are plain, that is
  no field is flattened or has its default in a later \<open>serde\<close> attribute than the first, the only one the
  macro reads, and no two fields have a key in common.\<close>

theorem settings_default_is_empty_document:
  assumes "expand_from_parsed options (ItemStruct (NamedFields fs)) = Inr ex" and "so_impl_default options"
    and "distinct (map fi_name (filter fi_cfg fs))" and "\<forall>f\<in>set fs. plain_field f"
    and "distinct (known_keys (filter fi_cfg fs))"
    and "serde_documented F parse deserialize"
    and "dflt = generated_default F (the (ex_default ex))"
  shows "deserialize (ex_attrs ex) (map_of dflt) (filter fi_cfg fs) [] = Inr dflt \<and>
    (deserialize (ex_attrs ex) (map_of dflt) (filter fi_cfg fs) doc = Inr vs \<longleftrightarrow>
      (so_deny_unknown_fields options \<longrightarrow> fst ` set doc \<subseteq> set (known_keys (filter fi_cfg fs))) \<and>
      map fst vs = map fst dflt \<and>
      map (field_value F parse doc) (filter fi_cfg fs) = map (\<lambda>v. Inr (snd v)) vs)"
proof -
  note defaults = settings_defaults [OF assms(1-4), of F, folded assms(7)]
  note attrs = expand_struct_Inr [OF assms(1,2)]
  have plain: "\<forall>f\<in>set (filter fi_cfg fs). \<forall>a\<in>set (fi_serde f). \<not> isl a \<and> \<not> sa_flatten (projr a)"
    using assms(4) by (auto simp: plain_field_def)
  have read: "map (read_field F parse (map_of dflt) d) (filter fi_cfg fs) =
      map (field_value F parse d) (filter fi_cfg fs)" for d
    using defaults(2) by (simp add: read_field_value)
  have documented: "deserialize (ex_attrs ex) (map_of dflt) (filter fi_cfg fs) d = Inr us \<longleftrightarrow>
      (so_deny_unknown_fields options \<longrightarrow> fst ` set d \<subseteq> set (known_keys (filter fi_cfg fs))) \<and>
      map fst us = map fi_name (filter fi_cfg fs) \<and>
      map (field_value F parse d) (filter fi_cfg fs) = map (\<lambda>v. Inr (snd v)) us" for d us
    using serde_documentedD [OF assms(6) _ assms(5) plain, of "ex_attrs ex" "map_of dflt" d us] attrs
    unfolding read by auto
  show ?thesis
    unfolding documented by (simp add: defaults(1) field_value_def comp_def)
qed

text \<open>A deserializer as documented: unknown keys first, then the fields in their order.\<close>

fun deserialize_fields ::
  "('p, 'v) default_functions \<Rightarrow> (string \<Rightarrow> 'y \<Rightarrow> string + 'v) \<Rightarrow> (string \<rightharpoonup> 'v) \<Rightarrow> (string \<times> 'y) list \<Rightarrow>
   'p field_item list \<Rightarrow> string + (string \<times> 'v) list" where
  "deserialize_fields F parse container doc [] = Inr []"
| "deserialize_fields F parse container doc (field # fs) =
     bind_result (read_field F parse container doc field) (\<lambda>v.
       bind_result (deserialize_fields F parse container doc fs) (\<lambda>vs. Inr ((fi_name field, v) # vs)))"

definition deserialize_struct ::
  "('p, 'v) default_functions \<Rightarrow> (string \<Rightarrow> 'y \<Rightarrow> string + 'v) \<Rightarrow> ('p, 'v, 'y) derived_deserialize" where
  "deserialize_struct F parse attrs container fs doc =
     (if SerdeDenyUnknownFields \<in> set attrs \<and> \<not> fst ` set doc \<subseteq> set (known_keys fs)
      then Inl ''unknown field''
      else deserialize_fields F parse container doc fs)"

lemma deserialize_fields_Inr:
  "deserialize_fields F parse container doc fs = Inr vs \<longleftrightarrow>
    map fst vs = map fi_name fs \<and> map (read_field F parse container doc) fs = map (\<lambda>v. Inr (snd v)) vs"
proof (induction fs arbitrary: vs)
  case (Cons f fs)
  then show ?case
    by (cases vs) (auto simp: bind_result_Inr_iff)
qed auto

lemma serde_documented_deserialize_struct: "serde_documented F parse (deserialize_struct F parse)"
  by (simp add: serde_documented_def deserialize_struct_def deserialize_fields_Inr)

definition port_field :: "string field_item" where
  "port_field = \<lparr>fi_name = ''port'', fi_keys = [''port''],
     fi_serde = [Inr \<lparr>sa_flatten = False, sa_default = Some (Explicit ''default_port'')\<rparr>], fi_cfg = True\<rparr>"

definition late_port_field :: "string field_item" where
  "late_port_field = \<lparr>fi_name = ''port'', fi_keys = [''listen-port''],
     fi_serde = [Inr \<lparr>sa_flatten = False, sa_default = None\<rparr>,
       Inr \<lparr>sa_flatten = False, sa_default = Some (Explicit ''default_port'')\<rparr>], fi_cfg = True\<rparr>"

definition skipped_field :: "string field_item" where
  "skipped_field = \<lparr>fi_name = ''a'', fi_keys = [],
     fi_serde = [Inr \<lparr>sa_flatten = False, sa_default = Some (Explicit ''default_a'')\<rparr>], fi_cfg = True\<rparr>"

definition port_functions :: "(string, nat) default_functions" where
  "port_functions = \<lparr>fn_default = (\<lambda>_. 0),
     fn_call = (\<lambda>p. if p = ''default_port'' then 8080 else if p = ''default_a'' then 123 else 0)\<rparr>"

abbreviation port_attrs :: "item_attr list" where
  "port_attrs \<equiv> [DeriveCloneSerde, DeriveDebug, SerdeCrate, SerdeDenyUnknownFields, SerdeDefault]"

theorem settings_default_is_empty_document_witness:
  "deserialize_struct port_functions (\<lambda>_ y. Inr y) port_attrs
     (map_of [(''port'', 8080), (''a'', 123)]) [port_field, skipped_field] [] =
     Inr [(''port'', 8080), (''a'', 123)] \<and>
   deserialize_struct port_functions (\<lambda>_ y. Inr y) port_attrs
     (map_of [(''port'', 8080), (''a'', 123)]) [port_field, skipped_field] [(''port'', 80)] =
     Inr [(''port'', 80), (''a'', 123)]"
proof -
  let ?fs = "[port_field, skipped_field]" and ?options = "options_default True"
  have ex: "expand_from_parsed ?options (ItemStruct (NamedFields ?fs)) =
      Inr \<lparr>ex_attrs = port_attrs,
        ex_default = Some [(''port'', PathOf ''default_port''), (''a'', PathOf ''default_a'')]\<rparr>"
    by (simp add: expand_struct_def initializer_def parse_from_attrs_def port_field_def skipped_field_def
        add_default_attrs_def options_default_def)
  have opt: "so_impl_default ?options" "so_deny_unknown_fields ?options"
    by (simp_all add: options_default_def)
  have fs: "distinct (map fi_name (filter fi_cfg ?fs))" "\<forall>f\<in>set ?fs. plain_field f"
    "distinct (known_keys (filter fi_cfg ?fs))"
    by (simp_all add: plain_field_def known_keys_def port_field_def skipped_field_def)
  have dflt: "generated_default port_functions (the (ex_default \<lparr>ex_attrs = port_attrs,
      ex_default = Some [(''port'', PathOf ''default_port''), (''a'', PathOf ''default_a'')]\<rparr>)) =
      [(''port'', 8080), (''a'', 123)]"
    by (simp add: generated_default_def port_functions_def)
  have reads: "map (field_value port_functions (\<lambda>_ y. Inr y) [(''port'', 80)]) ?fs = [Inr 80, Inr 123]"
    by (simp add: field_value_def entries_of_def default_value_def serde_default_of_def port_field_def
        skipped_field_def port_functions_def)
  from settings_default_is_empty_document [OF ex opt(1) fs serde_documented_deserialize_struct dflt [symmetric],
      of "\<lambda>_ y. Inr y" "[(''port'', 80)]" "[(''port'', 80), (''a'', 123)]"] reads opt(2)
  show ?thesis
    by (simp add: known_keys_def port_field_def skipped_field_def)
qed

text \<open>A skipped field is not a key of the document, and a field with two entries is an error.\<close>

lemma skipped_field_is_no_key:
  "deserialize_struct port_functions (\<lambda>_ y. Inr y) port_attrs container [port_field, skipped_field]
     [(''a'', 5)] = Inl ''unknown field''"
  "deserialize_struct port_functions (\<lambda>_ y. Inr y) port_attrs container [port_field, skipped_field]
     [(''port'', 5), (''port'', 5)] = Inl ''duplicate field''"
  by (simp_all add: deserialize_struct_def known_keys_def port_field_def skipped_field_def read_field_def
      entries_of_def)

text \<open>With the default in a second attribute the two ways of filling a field differ: the generated default
  is that of the field's type and the empty document has the value of the function.\<close>

lemma late_default_is_ignored:
  "expand_from_parsed (options_default False) (ItemStruct (NamedFields [late_port_field])) =
     Inr \<lparr>ex_attrs = [DeriveCloneSerde, DeriveDebug, SerdeCrate, SerdeDefault],
       ex_default = Some [(''port'', DefaultDefault)]\<rparr>"
  "generated_default port_functions [(''port'', DefaultDefault)] = [(''port'', 0)]"
  "deserialize_struct port_functions (\<lambda>_ y. Inr y) [DeriveCloneSerde, DeriveDebug, SerdeCrate, SerdeDefault]
     (map_of [(''port'', 0)]) [late_port_field] [] = Inr [(''port'', 8080)]"
  by (simp_all add: expand_struct_def initializer_def parse_from_attrs_def late_port_field_def
      add_default_attrs_def options_default_def generated_default_def port_functions_def deserialize_struct_def
      read_field_def missing_value_def serde_default_of_def)

text \<open>Every accepted enumeration has unit and one-field variants only, and gets snake case names; every
  accepted structure without names has at most one field.\<close>

lemma accepted_items:
  "expand_from_parsed options (ItemEnum variants) = Inr ex \<Longrightarrow>
    SerdeRenameAllSnakeCase \<in> set (ex_attrs ex) \<and>
    (\<forall>v\<in>set variants. v = UnitFields \<or> (\<exists>n\<le>1. v = UnnamedFields n))"
  "expand_from_parsed options (ItemStruct (UnnamedFields n)) = Inr ex \<Longrightarrow> n \<le> 1"
proof -
  have "v = UnitFields \<or> (\<exists>n\<le>1. v = UnnamedFields n)" if "\<not> is_struct v" "\<not> is_tuple v" for v :: "'a item_fields"
    using that by (cases v) auto
  then show "expand_from_parsed options (ItemEnum variants) = Inr ex \<Longrightarrow>
    SerdeRenameAllSnakeCase \<in> set (ex_attrs ex) \<and>
    (\<forall>v\<in>set variants. v = UnitFields \<or> (\<exists>n\<le>1. v = UnnamedFields n))"
    by (auto simp: expand_enum_def split: if_splits)
qed (auto simp: expand_unnamed_field_struct_def split: if_splits)

end
