(* ===== verification/SpanFn.thy ===== *)
theory SpanFn
  imports Prelude
begin

text \<open>
  The macro \<open>#[span_fn]\<close>, \<open>foundations-macros/src/span_fn.rs\<close>: its arguments, the three ways in which
  the body of a function is rewritten, and what the rewritten function does. A function body is a tree
  of the syntax the macro looks at, the rest of it being effects without a name; an evaluation lists
  the effects with the spans that are active when they happen. The lemmas show which part of a function
  runs in its span and that nothing else changes.
\<close>

section \<open>Arguments\<close>

datatype span_name = NameStr string | NameConst "string list"

datatype attr_token = TokStr string | TokPath "string list" | TokComma | TokOther string

definition parse_span_name :: "attr_token list \<Rightarrow> string + span_name \<times> attr_token list" where
  "parse_span_name input =
     (case input of
        TokStr s # rest \<Rightarrow> Inr (NameStr s, rest)
      | TokPath p # rest \<Rightarrow> Inr (NameConst p, rest)
      | _ \<Rightarrow> Inl ''expected string literal or path'')"

record span_fn_options =
  crate_path :: "string list"
  async_local :: bool
  generic :: bool
  user :: bool

text \<open>Whether \<open>cfg(foundations_generic_telemetry_wrapper)\<close> is set is a parameter.\<close>

definition span_fn_options_default :: "bool \<Rightarrow> span_fn_options" where
  "span_fn_options_default cfg =
     \<lparr>crate_path = [''foundations''], async_local = False, generic = cfg, user = False\<rparr>"

record span_fn_args =
  sfa_span_name :: span_name
  sfa_options :: span_fn_options

text \<open>syn's list of meta items and darling's reading of it are parameters.\<close>

definition parse_optional_trailing_meta_list ::
  "(attr_token list \<Rightarrow> string + 'm list) \<Rightarrow> attr_token list \<Rightarrow> string + 'm list" where
  "parse_optional_trailing_meta_list parse_meta_list input =
     (case input of TokComma # rest \<Rightarrow> parse_meta_list rest | _ \<Rightarrow> Inr [])"

definition parse_args ::
  "(attr_token list \<Rightarrow> string + 'm list) \<Rightarrow> ('m list \<Rightarrow> string + span_fn_options) \<Rightarrow>
   attr_token list \<Rightarrow> string + span_fn_args" where
  "parse_args parse_meta_list from_list input =
     bind_result (parse_span_name input) (\<lambda>(span_name, rest).
       bind_result (parse_optional_trailing_meta_list parse_meta_list rest) (\<lambda>meta_list.
         bind_result (from_list meta_list) (\<lambda>options.
           Inr \<lparr>sfa_span_name = span_name, sfa_options = options\<rparr>)))"

section \<open>Functions\<close>

datatype span_ctor_fn = SpanFn_span | SpanFn_dual_span

datatype apply_fn = Apply | ApplyLocal | ApplyGeneric

text \<open>\<open>ApplyAwait c n a e\<close> is \<open>c(n).into_context().a(e).await\<close> and \<open>SpanStmt c n\<close> is \<open>let __span = c(n);\<close>;
  an \<open>ExprStmt\<close> has a flag for its semicolon.\<close>

datatype 'e rexpr =
    OtherExpr 'e
  | PathExpr "string list"
  | BlockExpr "'e rstmt list"
  | IfExpr 'e "'e rstmt list" "'e rstmt list"
  | AsyncExpr "'e rstmt list"
  | CallExpr "'e rexpr" "'e rexpr list"
  | ApplyAwait span_ctor_fn span_name apply_fn "'e rexpr"
and 'e rstmt =
    LocalStmt "'e rexpr"
  | ExprStmt "'e rexpr" bool
  | ReturnStmt "'e rexpr"
  | SpanStmt span_ctor_fn span_name

text \<open>Attributes, visibility and the rest of the signature are repeated as they are.\<close>

record ('r, 'e) item_fn =
  if_rest :: 'r
  if_async :: bool
  if_block :: "'e rstmt list"

definition span_ctor :: "span_fn_options \<Rightarrow> span_ctor_fn" where
  "span_ctor options = (if user options then SpanFn_dual_span else SpanFn_span)"

definition wrap_with_span :: "span_fn_args \<Rightarrow> 'e rexpr \<Rightarrow> 'e rexpr" where
  "wrap_with_span args block =
     (let options = sfa_options args;
          apply_fn = (if async_local options then ApplyLocal
                      else if generic options then ApplyGeneric else Apply)
      in ApplyAwait (span_ctor options) (sfa_span_name args) apply_fn block)"

definition box_pin :: "string list" where
  "box_pin = [''Box'', ''pin'']"

definition try_async_trait_fn_rewrite :: "span_fn_args \<Rightarrow> 'e rstmt list \<Rightarrow> 'e rstmt list option" where
  "try_async_trait_fn_rewrite args body =
     (if body = [] then None
      else case last body of
        ExprStmt (CallExpr (PathExpr fn_path) [AsyncExpr b]) semi \<Rightarrow>
          if fn_path = box_pin
          then Some (butlast body @
            [ExprStmt (CallExpr (PathExpr box_pin)
               [AsyncExpr [ExprStmt (wrap_with_span args (AsyncExpr b)) False]]) False])
          else None
      | _ \<Rightarrow> None)"

definition expand_from_parsed :: "span_fn_args \<Rightarrow> ('r, 'e) item_fn \<Rightarrow> ('r, 'e) item_fn" where
  "expand_from_parsed args item =
     (let block = if_block item;
          body = (if if_async item
                  then [ExprStmt (wrap_with_span args (AsyncExpr [ExprStmt (BlockExpr block) False])) False]
                  else case try_async_trait_fn_rewrite args block of
                    Some body \<Rightarrow> body
                  | None \<Rightarrow>
                      [SpanStmt (span_ctor (sfa_options args)) (sfa_span_name args),
                       ExprStmt (BlockExpr block) False])
      in item\<lparr>if_block := body\<rparr>)"

section \<open>Evaluation\<close>

datatype 'e event = Did 'e | Called "'e rexpr" | Started span_ctor_fn span_name | Finished span_name

text \<open>A trace has each event with the spans that are active then, the innermost first. Of values only
  futures matter: what they do when they are polled with some spans active, and what they return.\<close>

type_synonym 'e trace = "(span_name list \<times> 'e event) list"

datatype 'e val = Plain | Future "span_name list \<Rightarrow> 'e trace \<times> 'e val"

text \<open>The flag of a result is set after a \<open>return\<close>. A condition that is an effect is true as an oracle says.\<close>

type_synonym 'e outcome = "'e trace \<times> 'e val \<times> bool"

definition and_then :: "'e outcome \<Rightarrow> ('e val \<Rightarrow> 'e outcome) \<Rightarrow> 'e outcome" where
  "and_then r k =
     (case r of (t, v, returned) \<Rightarrow>
        if returned then r else case k v of (t', v', returned') \<Rightarrow> (t @ t', v', returned'))"

definition in_span :: "span_ctor_fn \<Rightarrow> span_name \<Rightarrow> span_name list \<Rightarrow> 'e trace \<Rightarrow> 'e trace" where
  "in_span c n cur t = (cur, Started c n) # t @ [(cur, Finished n)]"

definition poll :: "'e val \<Rightarrow> span_name list \<Rightarrow> 'e trace \<times> 'e val" where
  "poll v cur = (case v of Plain \<Rightarrow> ([], Plain) | Future f \<Rightarrow> f cur)"

definition future_of :: "(span_name list \<Rightarrow> 'e outcome) \<Rightarrow> 'e val" where
  "future_of body = Future (\<lambda>cur. case body cur of (t, v, _) \<Rightarrow> (t, v))"

fun eval_expr :: "('e \<Rightarrow> bool) \<Rightarrow> span_name list \<Rightarrow> 'e rexpr \<Rightarrow> 'e outcome"
  and eval_args :: "('e \<Rightarrow> bool) \<Rightarrow> span_name list \<Rightarrow> 'e rexpr list \<Rightarrow> 'e val \<Rightarrow> 'e outcome"
  and eval_stmts :: "('e \<Rightarrow> bool) \<Rightarrow> span_name list \<Rightarrow> 'e rstmt list \<Rightarrow> 'e outcome"
where
  "eval_expr ch cur (OtherExpr x) = ([(cur, Did x)], Plain, False)"
| "eval_expr ch cur (PathExpr p) = ([], Plain, False)"
| "eval_expr ch cur (BlockExpr ss) = eval_stmts ch cur ss"
| "eval_expr ch cur (IfExpr x ss ss') =
     and_then ([(cur, Did x)], Plain, False)
       (\<lambda>_. if ch x then eval_stmts ch cur ss else eval_stmts ch cur ss')"
| "eval_expr ch cur (AsyncExpr ss) = ([], future_of (\<lambda>cur. eval_stmts ch cur ss), False)"
| "eval_expr ch cur (CallExpr f as) =
     and_then (eval_expr ch cur f) (\<lambda>_.
       and_then (eval_args ch cur as Plain) (\<lambda>v.
         if f = PathExpr box_pin \<and> length as = 1 then ([], v, False)
         else ([(cur, Called f)], Plain, False)))"
| "eval_expr ch cur (ApplyAwait c n a e) =
     (case and_then (eval_expr ch cur e) (\<lambda>v. case poll v (n # cur) of (t, v) \<Rightarrow> (t, v, False)) of
        (t, v, returned) \<Rightarrow> (in_span c n cur t, v, returned))"
| "eval_args ch cur [] v = ([], v, False)"
| "eval_args ch cur (e # es) v = and_then (eval_expr ch cur e) (\<lambda>v. eval_args ch cur es v)"
| "eval_stmts ch cur [] = ([], Plain, False)"
| "eval_stmts ch cur (LocalStmt e # ss) = and_then (eval_expr ch cur e) (\<lambda>_. eval_stmts ch cur ss)"
| "eval_stmts ch cur (ExprStmt e semi # ss) =
     and_then (eval_expr ch cur e)
       (\<lambda>v. if ss = [] then ([], if semi then Plain else v, False) else eval_stmts ch cur ss)"
| "eval_stmts ch cur (ReturnStmt e # ss) = (case eval_expr ch cur e of (t, v, _) \<Rightarrow> (t, v, True))"
| "eval_stmts ch cur (SpanStmt c n # ss) =
     (case eval_stmts ch (n # cur) ss of (t, v, returned) \<Rightarrow> (in_span c n cur t, v, returned))"

text \<open>A call of an \<open>async fn\<close> does nothing before its future is polled.\<close>

definition run_block :: "('e \<Rightarrow> bool) \<Rightarrow> 'e rstmt list \<Rightarrow> span_name list \<Rightarrow> 'e trace \<times> 'e val" where
  "run_block ch ss cur = (case eval_stmts ch cur ss of (t, v, _) \<Rightarrow> (t, v))"

definition call_fn :: "('e \<Rightarrow> bool) \<Rightarrow> ('r, 'e) item_fn \<Rightarrow> span_name list \<Rightarrow> 'e trace \<times> 'e val" where
  "call_fn ch item cur =
     (if if_async item then ([], Future (run_block ch (if_block item))) else run_block ch (if_block item) cur)"

section \<open>The span of a function\<close>

abbreviation args_ctor :: "span_fn_args \<Rightarrow> span_ctor_fn" where
  "args_ctor args \<equiv> span_ctor (sfa_options args)"

lemma and_then_simps [simp]:
  "and_then (t, v, True) k = (t, v, True)"
  "and_then ([], v, False) k = k v"
  by (simp_all add: and_then_def split: prod.splits)

lemma and_then_return [simp]: "and_then r (\<lambda>v. ([], v, False)) = r"
  by (cases r) (simp add: and_then_def)

lemma and_then_assoc: "and_then (and_then r k) l = and_then r (\<lambda>v. and_then (k v) l)"
  by (cases r) (simp add: and_then_def split: prod.splits)

text \<open>A block as it runs inside the span.\<close>

definition run_in_span :: "('e \<Rightarrow> bool) \<Rightarrow> span_fn_args \<Rightarrow> 'e rstmt list \<Rightarrow> span_name list \<Rightarrow> 'e trace \<times> 'e val" where
  "run_in_span ch args ss cur =
     (case run_block ch ss (sfa_span_name args # cur) of
        (t, v) \<Rightarrow> (in_span (args_ctor args) (sfa_span_name args) cur t, v))"

lemma run_block_expr [simp]:
  "run_block ch [ExprStmt e False] cur = (case eval_expr ch cur e of (t, v, _) \<Rightarrow> (t, v))"
  by (simp add: run_block_def)

lemma run_wrapped:
  "eval_expr ch cur (wrap_with_span args (AsyncExpr ss)) =
    (case run_in_span ch args ss cur of (t, v) \<Rightarrow> (t, v, False))"
  by (simp add: wrap_with_span_def Let_def poll_def future_of_def run_in_span_def run_block_def
      split: prod.splits)

lemma future_of_run_block: "future_of (\<lambda>cur. eval_stmts ch cur ss) = Future (run_block ch ss)"
  by (simp add: future_of_def run_block_def fun_eq_iff)

lemma run_span_stmt:
  "run_block ch [SpanStmt (args_ctor args) (sfa_span_name args), ExprStmt (BlockExpr ss) False] cur =
    run_in_span ch args ss cur"
  by (simp add: run_block_def run_in_span_def split: prod.splits)

abbreviation box_pin_async :: "'e rstmt list \<Rightarrow> bool \<Rightarrow> 'e rstmt" where
  "box_pin_async ss semi \<equiv> ExprStmt (CallExpr (PathExpr box_pin) [AsyncExpr ss]) semi"

lemma rewrite_SomeE:
  assumes "try_async_trait_fn_rewrite args body = Some body'"
  obtains pre ss semi where "body = pre @ [box_pin_async ss semi]"
    "body' = pre @ [box_pin_async [ExprStmt (wrap_with_span args (AsyncExpr ss)) False] False]"
proof -
  have "body \<noteq> []" using assms by (auto simp: try_async_trait_fn_rewrite_def)
  moreover obtain ss semi where "last body = box_pin_async ss semi"
    using assms
    by (auto simp: try_async_trait_fn_rewrite_def split: if_splits rstmt.splits rexpr.splits list.splits)
  ultimately show thesis
    using assms that [of "butlast body" ss semi] append_butlast_last_id [of body]
    by (simp add: try_async_trait_fn_rewrite_def)
qed

lemma rewrite_box_pin:
  "try_async_trait_fn_rewrite args (pre @ [box_pin_async ss semi]) =
    Some (pre @ [box_pin_async [ExprStmt (wrap_with_span args (AsyncExpr ss)) False] False])"
  by (simp add: try_async_trait_fn_rewrite_def)

text \<open>What comes before the last statement runs as it is, if it has no span of its own.\<close>

fun is_span_stmt :: "'e rstmt \<Rightarrow> bool" where
  "is_span_stmt (SpanStmt c n) \<longleftrightarrow> True"
| "is_span_stmt s \<longleftrightarrow> False"

lemma eval_stmts_append:
  "\<forall>s\<in>set pre. \<not> is_span_stmt s \<Longrightarrow> ss \<noteq> [] \<Longrightarrow>
   eval_stmts ch cur (pre @ ss) = and_then (eval_stmts ch cur pre) (\<lambda>_. eval_stmts ch cur ss)"
proof (induction pre)
  case (Cons s pre)
  then show ?case
    by (cases s; cases "pre = []") (auto simp: and_then_assoc split: prod.splits)
qed simp

lemma run_block_box_pin:
  assumes "\<forall>s\<in>set pre. \<not> is_span_stmt s"
  shows "run_block ch (pre @ [box_pin_async ss False]) cur =
    (case eval_stmts ch cur pre of (t, v, returned) \<Rightarrow> (t, if returned then v else Future (run_block ch ss)))"
  using eval_stmts_append [OF assms, of "[box_pin_async ss False]" ch cur]
  by (auto simp: run_block_def and_then_def future_of_run_block split: prod.splits)

lemma run_block_wrapped:
  "run_block ch [ExprStmt (wrap_with_span args (AsyncExpr ss)) False] = run_in_span ch args ss"
  by (simp add: fun_eq_iff run_wrapped split: prod.splits)

lemma run_in_span_block: "run_in_span ch args [ExprStmt (BlockExpr ss) False] = run_in_span ch args ss"
  by (simp add: fun_eq_iff run_in_span_def run_block_def)

text \<open>C30: an \<open>async fn\<close> with \<open>#[span_fn]\<close> does nothing when it is called; each time its future is polled to the
  end, the span is started, the whole body runs inside it, and it is finished. A function that is not
  \<open>async\<close> runs as a whole in the span, but a future it returns does not, unless the function ends with
  \<open>Box::pin(async ..)\<close>, as \<open>async_trait\<close> makes it: then the statements before run outside of the span when
  the function is called, and the block runs inside it when it is polled; a future that is returned early
  is left without a span.\<close>

theorem span_fn_runs_in_span:
  "(if_async item \<longrightarrow>
     call_fn ch (expand_from_parsed args item) cur = ([], Future (run_in_span ch args (if_block item)))) \<and>
   (\<not> if_async item \<longrightarrow> (\<nexists>pre ss semi. if_block item = pre @ [box_pin_async ss semi]) \<longrightarrow>
     call_fn ch (expand_from_parsed args item) cur = run_in_span ch args (if_block item) cur) \<and>
   (\<not> if_async item \<longrightarrow> if_block item = pre @ [box_pin_async ss semi] \<longrightarrow>
     (\<forall>s\<in>set pre. \<not> is_span_stmt s) \<longrightarrow>
     call_fn ch (expand_from_parsed args item) cur =
       (case eval_stmts ch cur pre of (t, v, returned) \<Rightarrow>
         (t, if returned then v else Future (run_in_span ch args ss))))"
proof (intro conjI impI)
  assume "if_async item"
  then show "call_fn ch (expand_from_parsed args item) cur = ([], Future (run_in_span ch args (if_block item)))"
    by (simp add: call_fn_def expand_from_parsed_def Let_def run_block_wrapped run_in_span_block)
next
  assume "\<not> if_async item" "\<nexists>pre ss semi. if_block item = pre @ [box_pin_async ss semi]"
  then show "call_fn ch (expand_from_parsed args item) cur = run_in_span ch args (if_block item) cur"
    by (auto simp: call_fn_def expand_from_parsed_def Let_def run_span_stmt elim!: rewrite_SomeE
        split: option.splits)
next
  assume "\<not> if_async item" "if_block item = pre @ [box_pin_async ss semi]" "\<forall>s\<in>set pre. \<not> is_span_stmt s"
  then show "call_fn ch (expand_from_parsed args item) cur =
      (case eval_stmts ch cur pre of (t, v, returned) \<Rightarrow>
        (t, if returned then v else Future (run_in_span ch args ss)))"
    by (simp add: call_fn_def expand_from_parsed_def Let_def rewrite_box_pin run_block_box_pin run_block_wrapped split: prod.splits)
qed

text \<open>The body of a function as \<open>async_trait\<close> makes it: effect 1 before the block, 2 and 3 in it.\<close>

definition trait_fn :: "(unit, nat) item_fn" where
  "trait_fn = \<lparr>if_rest = (), if_async = False,
     if_block = [LocalStmt (OtherExpr 1),
       box_pin_async [LocalStmt (OtherExpr 2), ExprStmt (OtherExpr 3) False] False]\<rparr>"

definition handler_args :: span_fn_args where
  "handler_args = \<lparr>sfa_span_name = NameStr ''handler'', sfa_options = span_fn_options_default False\<rparr>"

theorem span_fn_runs_in_span_witness:
  "fst (call_fn (\<lambda>_. True) (expand_from_parsed handler_args trait_fn) []) = [([], Did 1)] \<and>
   fst (poll (snd (call_fn (\<lambda>_. True) (expand_from_parsed handler_args trait_fn) [])) []) =
     [([], Started SpanFn_span (NameStr ''handler'')), ([NameStr ''handler''], Did 2),
      ([NameStr ''handler''], Did 3), ([], Finished (NameStr ''handler''))]"
  using span_fn_runs_in_span [of trait_fn "\<lambda>_. True" handler_args "[]" "[LocalStmt (OtherExpr 1)]"
      "[LocalStmt (OtherExpr 2), ExprStmt (OtherExpr 3) False]" False]
  by (simp add: trait_fn_def handler_args_def span_fn_options_default_def span_ctor_def and_then_def poll_def
      run_in_span_def run_block_def in_span_def)

section \<open>Nothing else changes\<close>

text \<open>What a trace has besides spans, and when two values are the same up to spans: polled with whatever
  spans active, they do the same and return the same.\<close>

definition erase :: "'e trace \<Rightarrow> 'e event list" where
  "erase t = filter (\<lambda>x. case x of Started _ _ \<Rightarrow> False | Finished _ \<Rightarrow> False | _ \<Rightarrow> True) (map snd t)"

lemma erase_simps [simp]:
  "erase [] = []"
  "erase ((cur, Did x) # t) = Did x # erase t"
  "erase ((cur, Called f) # t) = Called f # erase t"
  "erase (t @ t') = erase t @ erase t'"
  "erase (in_span c n cur t) = erase t"
  by (simp_all add: erase_def in_span_def)

inductive same_val :: "'e val \<Rightarrow> 'e val \<Rightarrow> bool" where
  same_plain: "same_val Plain Plain"
| same_future: "(\<And>cur cur'. erase (fst (f cur)) = erase (fst (g cur')) \<and> same_val (snd (f cur)) (snd (g cur'))) \<Longrightarrow>
    same_val (Future f) (Future g)"

inductive_simps same_val_simps [simp]:
  "same_val Plain v"
  "same_val v Plain"
  "same_val (Future f) (Future g)"

definition same_outcome :: "'e outcome \<Rightarrow> 'e outcome \<Rightarrow> bool" where
  "same_outcome r r' \<longleftrightarrow>
     erase (fst r) = erase (fst r') \<and> same_val (fst (snd r)) (fst (snd r')) \<and> snd (snd r) = snd (snd r')"

lemma same_outcome_simps [simp]:
  "same_outcome (t, v, b) (t', v', b') \<longleftrightarrow> erase t = erase t' \<and> same_val v v' \<and> b = b'"
  by (simp add: same_outcome_def)

lemma same_and_then [intro]:
  assumes "same_outcome r r'" "\<And>v v'. same_val v v' \<Longrightarrow> same_outcome (k v) (k' v')"
  shows "same_outcome (and_then r k) (and_then r' k')"
  using assms(1) assms(2) [of "fst (snd r)" "fst (snd r')"]
  by (cases r; cases r'; cases "k (fst (snd r))"; cases "k' (fst (snd r'))") (auto simp: and_then_def)

lemma same_poll:
  "same_val v v' \<Longrightarrow>
   erase (fst (poll v cur)) = erase (fst (poll v' cur')) \<and> same_val (snd (poll v cur)) (snd (poll v' cur'))"
  by (cases rule: same_val.cases [of v v']) (auto simp: poll_def)

lemma same_future_of:
  "(\<And>cur cur'. same_outcome (b cur) (b' cur')) \<Longrightarrow> same_val (future_of b) (future_of b')"
  by (simp add: future_of_def same_outcome_def split: prod.splits) (metis fst_conv snd_conv)

lemma same_in_span:
  "same_outcome r r' \<Longrightarrow>
   same_outcome (case r of (t, v, b) \<Rightarrow> (in_span c n cur t, v, b)) (case r' of (t, v, b) \<Rightarrow> (in_span c n cur' t, v, b))"
  by (cases r; cases r') simp

lemma eval_same:
  "same_outcome (eval_expr ch cur e) (eval_expr ch cur' e)"
  "same_val v v' \<Longrightarrow> same_outcome (eval_args ch cur es v) (eval_args ch cur' es v')"
  "same_outcome (eval_stmts ch cur ss) (eval_stmts ch cur' ss)"
proof (induction ch cur e and ch cur es v and ch cur ss arbitrary: cur' and cur' v' and cur'
    rule: eval_expr_eval_args_eval_stmts.induct)
  case (5 ch cur ss)
  then show ?case by (auto intro!: same_future_of)
next
  case (6 ch cur f as)
  then show ?case by (auto intro!: same_and_then)
next
  case (7 ch cur c n a e)
  show ?case
    unfolding eval_expr.simps
    by (intro same_in_span same_and_then 7) (simp add: same_poll split: prod.splits, metis same_poll fst_conv snd_conv)
next
  case (14 ch cur c n ss)
  then show ?case unfolding eval_stmts.simps by (intro same_in_span)
next
  case (13 ch cur e ss)
  then show ?case by (simp add: same_outcome_def split: prod.splits) (metis fst_conv snd_conv)
next
  case (12 ch cur e semi ss)
  then show ?case by (auto intro!: same_and_then)
qed (auto intro!: same_and_then)

lemma eval_same_append:
  assumes "ss \<noteq> []" "ss' \<noteq> []" "\<And>cur cur'. same_outcome (eval_stmts ch cur ss) (eval_stmts ch cur' ss')"
  shows "same_outcome (eval_stmts ch cur (pre @ ss)) (eval_stmts ch cur' (pre @ ss'))"
proof (induction pre arbitrary: cur cur')
  case (Cons s pre)
  show ?case
  proof (cases s)
    case (SpanStmt c n)
    then show ?thesis using same_in_span [OF Cons.IH] by simp
  next
    case (ReturnStmt e)
    then show ?thesis using eval_same(3) [of ch cur "[ReturnStmt e]"] by simp
  qed (use Cons.IH assms(1,2) eval_same(1) in \<open>auto intro!: same_and_then\<close>)
qed (use assms(3) in simp)

lemma run_block_same:
  "same_outcome (eval_stmts ch cur ss) (eval_stmts ch cur' ss') \<Longrightarrow>
   erase (fst (run_block ch ss cur)) = erase (fst (run_block ch ss' cur')) \<and>
   same_val (snd (run_block ch ss cur)) (snd (run_block ch ss' cur'))"
  by (cases "eval_stmts ch cur ss"; cases "eval_stmts ch cur' ss'") (simp add: run_block_def)

lemma run_in_span_same:
  "erase (fst (run_in_span ch args ss cur)) = erase (fst (run_block ch ss cur')) \<and>
   same_val (snd (run_in_span ch args ss cur)) (snd (run_block ch ss cur'))"
  using run_block_same [OF eval_same(3) [of ch "sfa_span_name args # cur" ss cur']]
  by (cases "run_block ch ss (sfa_span_name args # cur)") (simp add: run_in_span_def)

lemma future_of_wrapped:
  "future_of (\<lambda>cur. eval_expr ch cur (wrap_with_span args (AsyncExpr ss))) = Future (run_in_span ch args ss)"
  by (simp add: future_of_def run_wrapped fun_eq_iff split: prod.splits)

lemma box_pin_same:
  "same_outcome (eval_stmts ch cur [box_pin_async [ExprStmt (wrap_with_span args (AsyncExpr ss)) False] False])
     (eval_stmts ch cur' [box_pin_async ss False])"
  by (simp add: future_of_run_block future_of_wrapped run_in_span_same)

text \<open>C31: the macro changes nothing of a function but the spans: the function has the same effects when it is
  called, in the same order, and returns the same; the future it returns does the same when it is
  polled, whatever it returns included. This does not hold of a function that ends with
  \<open>Box::pin(async ..);\<close>: the macro loses the semicolon, so it returns what was dropped.\<close>

theorem span_fn_keeps_effects:
  assumes "\<nexists>pre ss. \<not> if_async item \<and> if_block item = pre @ [box_pin_async ss True]"
  shows "if_rest (expand_from_parsed args item) = if_rest item \<and>
    if_async (expand_from_parsed args item) = if_async item \<and>
    erase (fst (call_fn ch (expand_from_parsed args item) cur)) = erase (fst (call_fn ch item cur)) \<and>
    same_val (snd (call_fn ch (expand_from_parsed args item) cur)) (snd (call_fn ch item cur))"
proof (cases "if_async item")
  case True
  then show ?thesis
    by (simp add: call_fn_def expand_from_parsed_def Let_def run_block_wrapped run_in_span_block run_in_span_same)
next
  case False
  show ?thesis
  proof (cases "try_async_trait_fn_rewrite args (if_block item)")
    case None
    then show ?thesis
      using False by (simp add: call_fn_def expand_from_parsed_def Let_def run_span_stmt run_in_span_same)
  next
    case (Some body)
    then obtain pre ss semi where "if_block item = pre @ [box_pin_async ss semi]"
      "body = pre @ [box_pin_async [ExprStmt (wrap_with_span args (AsyncExpr ss)) False] False]"
      by (rule rewrite_SomeE)
    moreover from this assms False have "\<not> semi" by (cases semi) auto
    ultimately show ?thesis
      using False Some run_block_same [OF eval_same_append [OF _ _ box_pin_same]]
      by (simp add: call_fn_def expand_from_parsed_def Let_def)
  qed
qed

theorem span_fn_keeps_effects_witness:
  "erase (fst (call_fn (\<lambda>_. True) (expand_from_parsed handler_args trait_fn) [])) = [Did 1] \<and>
   same_val (snd (call_fn (\<lambda>_. True) (expand_from_parsed handler_args trait_fn) []))
     (snd (call_fn (\<lambda>_. True) trait_fn []))"
proof -
  have "\<nexists>pre ss. \<not> if_async trait_fn \<and> if_block trait_fn = pre @ [box_pin_async ss True]"
    by (auto simp: trait_fn_def dest: arg_cong [where f = last])
  from span_fn_keeps_effects [OF this, of handler_args "\<lambda>_. True" "[]"]
  show ?thesis by (auto simp: trait_fn_def call_fn_def run_block_def and_then_def)
qed

text \<open>A function that makes a future and drops it; with the macro it returns the future, which its
  signature does not allow.\<close>

lemma semicolon_lost:
  assumes "item = \<lparr>if_rest = (), if_async = False, if_block = [box_pin_async [] True]\<rparr>"
  shows "snd (call_fn ch item cur) = Plain"
    and "if_block (expand_from_parsed args item) =
      [box_pin_async [ExprStmt (wrap_with_span args (AsyncExpr [])) False] False]"
    and "snd (call_fn ch (expand_from_parsed args item) cur) \<noteq> Plain"
  unfolding assms
  by (simp_all add: call_fn_def run_block_def expand_from_parsed_def Let_def
      try_async_trait_fn_rewrite_def future_of_def)

end
