(* ===== verification/Router.thy ===== *)
theory Router
  imports Utf8
begin

text \<open>
  The routes of the telemetry server, \<open>telemetry/server/router.rs\<close>: the built-in routes, custom
  routes, and the dispatch of a request. The \<open>matchit\<close> router is a parameter; what is used of it
  is its documentation for paths without parameters: inserting a path that is there conflicts
  with it, any other is added, and a lookup finds the handler inserted under the path. A handler
  is a name for the closure the code boxes; what the other modules return to the built-in ones is
  a parameter too. The lemmas show which handler a request reaches.
\<close>

section \<open>Routes\<close>

datatype 'c handler =
    Health | Metrics | HeapProfile | HeapStats | PprofSymbol | ActiveTraces | Custom 'c

text \<open>\<open>TelemetryServerRoute\<close>; a method is its name.\<close>

record 'c server_route =
  rt_path :: string
  rt_methods :: "string list"
  rt_handler :: "'c handler"

text \<open>\<open>matchit::InsertError\<close>, and \<open>matchit::Router\<close>: \<open>default\<close>, \<open>insert\<close> and \<open>at\<close>.
  \<open>mt_literal\<close> tells the paths and handlers of a router without parameters.\<close>

datatype insert_error = Conflict string | OtherInsertError string

record ('h, 'r) matchit =
  mt_default :: 'r
  mt_insert :: "string \<Rightarrow> 'h \<Rightarrow> 'r \<Rightarrow> insert_error + 'r"
  mt_at :: "string \<Rightarrow> 'r \<Rightarrow> 'h option"
  mt_literal :: "'r \<Rightarrow> (string \<rightharpoonup> 'h) option"

definition brace_free :: "string \<Rightarrow> bool" where
  "brace_free p \<longleftrightarrow> CHR ''{'' \<notin> set p \<and> CHR ''}'' \<notin> set p"

definition matchit_documented :: "('h, 'r) matchit \<Rightarrow> bool" where
  "matchit_documented mt \<longleftrightarrow>
     mt_literal mt (mt_default mt) = Some Map.empty \<and>
     (\<forall>r m p h. mt_literal mt r = Some m \<and> brace_free p \<longrightarrow>
        (case m p of
           None \<Rightarrow> \<exists>r'. mt_insert mt p h r = Inr r' \<and> mt_literal mt r' = Some (m(p \<mapsto> h))
         | Some _ \<Rightarrow> mt_insert mt p h r = Inl (Conflict p))) \<and>
     (\<forall>r m q. mt_literal mt r = Some m \<longrightarrow> mt_at mt q r = m q)"

text \<open>The features that add built-in routes, and the one that leaves parameters in paths.\<close>

record server_features =
  sf_metrics :: bool
  sf_memory_profiling :: bool
  sf_linux :: bool
  sf_tracing :: bool
  sf_pattern_routing :: bool

datatype route_error = InsertRouteError string insert_error

type_synonym 'r routes = "string \<rightharpoonup> 'r"

definition replace_char :: "char \<Rightarrow> string \<Rightarrow> string \<Rightarrow> string" where
  "replace_char c w s = concat (map (\<lambda>x. if x = c then w else [x]) s)"

text \<open>\<open>Routes::set\<close>, its loop over the methods first.\<close>

fun set_methods ::
  "('c handler, 'r) matchit \<Rightarrow> string \<Rightarrow> 'c handler \<Rightarrow> string list \<Rightarrow> 'r routes \<Rightarrow>
   route_error + 'r routes" where
  "set_methods mt path handler [] routes = Inr routes"
| "set_methods mt path handler (m # methods) routes =
     (let router = (case routes m of None \<Rightarrow> mt_default mt | Some r \<Rightarrow> r) in
      case mt_insert mt path handler router of
        Inr router \<Rightarrow> set_methods mt path handler methods (routes(m \<mapsto> router))
      | Inl e \<Rightarrow>
          (if e = Conflict path then set_methods mt path handler methods (routes(m \<mapsto> router))
           else Inl (InsertRouteError path e)))"

definition routes_set ::
  "('c handler, 'r) matchit \<Rightarrow> server_features \<Rightarrow> 'c server_route \<Rightarrow> 'r routes \<Rightarrow>
   route_error + 'r routes" where
  "routes_set mt feat route routes =
     (let path = (if sf_pattern_routing feat then rt_path route
          else replace_char (CHR ''}'') ''}}'' (replace_char (CHR ''{'') ''{{'' (rt_path route)))
      in set_methods mt path (rt_handler route) (rt_methods route) routes)"

definition built_in_routes :: "server_features \<Rightarrow> 'c server_route list" where
  "built_in_routes feat =
     [\<lparr>rt_path = ''/health'', rt_methods = [''GET''], rt_handler = Health\<rparr>]
     @ (if sf_metrics feat
        then [\<lparr>rt_path = ''/metrics'', rt_methods = [''GET''], rt_handler = Metrics\<rparr>] else [])
     @ (if sf_linux feat \<and> sf_memory_profiling feat
        then [\<lparr>rt_path = ''/pprof/heap'', rt_methods = [''GET''], rt_handler = HeapProfile\<rparr>] else [])
     @ (if sf_linux feat \<and> sf_memory_profiling feat
        then [\<lparr>rt_path = ''/pprof/heap_stats'', rt_methods = [''GET''], rt_handler = HeapStats\<rparr>]
        else [])
     @ (if sf_memory_profiling feat
        then [\<lparr>rt_path = ''/pprof/symbol'', rt_methods = [''GET'', ''POST''],
               rt_handler = PprofSymbol\<rparr>] else [])
     @ (if sf_tracing feat
        then [\<lparr>rt_path = ''/debug/traces'', rt_methods = [''GET''], rt_handler = ActiveTraces\<rparr>]
        else [])"

fun set_all ::
  "('c handler, 'r) matchit \<Rightarrow> server_features \<Rightarrow> 'c server_route list \<Rightarrow> 'r routes \<Rightarrow>
   route_error + 'r routes" where
  "set_all mt feat [] routes = Inr routes"
| "set_all mt feat (route # rest) routes =
     bind_result (routes_set mt feat route routes) (set_all mt feat rest)"

definition init_built_in_routes ::
  "('c handler, 'r) matchit \<Rightarrow> server_features \<Rightarrow> 'r routes \<Rightarrow> route_error + 'r routes" where
  "init_built_in_routes mt feat routes = set_all mt feat (built_in_routes feat) routes"

definition routes_new ::
  "('c handler, 'r) matchit \<Rightarrow> server_features \<Rightarrow> 'c server_route list \<Rightarrow>
   route_error + 'r routes" where
  "routes_new mt feat custom_routes =
     bind_result (init_built_in_routes mt feat Map.empty) (set_all mt feat custom_routes)"

section \<open>Requests\<close>

record request =
  rq_method :: string
  rq_uri_path :: string

record response =
  rs_status :: nat
  rs_content_type :: "string option"
  rs_body :: string

definition into_response :: "string \<Rightarrow> string + string \<Rightarrow> response" where
  "into_response content_type res =
     (case res of
        Inr data \<Rightarrow> \<lparr>rs_status = 200, rs_content_type = Some content_type, rs_body = data\<rparr>
      | Inl err \<Rightarrow> \<lparr>rs_status = 500, rs_content_type = None, rs_body = err\<rparr>)"

text \<open>What the modules behind the handlers return, and the custom handlers.\<close>

record 'c server_env =
  se_collect :: "string + string"
  se_heap_profile :: "string + string"
  se_heap_stats :: "string + string"
  se_pprof_symbol :: "request \<Rightarrow> string + string"
  se_active_traces :: string
  se_custom :: "'c \<Rightarrow> request \<Rightarrow> response"
  se_percent_decode :: "string \<Rightarrow> string"

fun call_handler :: "'c server_env \<Rightarrow> 'c handler \<Rightarrow> request \<Rightarrow> response" where
  "call_handler env Health req = into_response ''text/plain'' (Inr '''')"
| "call_handler env Metrics req =
     into_response ''application/openmetrics-text; version=1.0.0; charset=utf-8'' (se_collect env)"
| "call_handler env HeapProfile req =
     into_response ''application/x-gperftools-profile'' (se_heap_profile env)"
| "call_handler env HeapStats req =
     into_response ''text/plain; charset=utf-8'' (se_heap_stats env)"
| "call_handler env PprofSymbol req =
     into_response ''text/plain; charset=utf-8'' (se_pprof_symbol env req)"
| "call_handler env ActiveTraces req =
     into_response ''application/json; charset=utf-8'' (Inr (se_active_traces env))"
| "call_handler env (Custom c) req = se_custom env c req"

definition bad_request :: response where
  "bad_request = \<lparr>rs_status = 400, rs_content_type = None,
     rs_body = ''can'' @ [CHR 39] @ ''t percent-decode URI path as valid UTF-8''\<rparr>"

definition not_found :: response where
  "not_found = \<lparr>rs_status = 404, rs_content_type = None, rs_body = ''''\<rparr>"

definition handle_request ::
  "('c handler, 'r) matchit \<Rightarrow> 'c server_env \<Rightarrow> 'r routes \<Rightarrow> request \<Rightarrow> response" where
  "handle_request mt env routes req =
     (let path = se_percent_decode env (rq_uri_path req) in
      if \<not> utf8_valid path then bad_request
      else case Option.bind (routes (rq_method req)) (mt_at mt path) of
        None \<Rightarrow> not_found
      | Some handler \<Rightarrow> call_handler env handler req)"

section \<open>Which handler a request reaches\<close>

text \<open>The routers hold, per method, the first handler of every path.\<close>

definition serves :: "'c server_route \<Rightarrow> string \<Rightarrow> string \<Rightarrow> bool" where
  "serves route m p \<longleftrightarrow> m \<in> set (rt_methods route) \<and> rt_path route = p"

definition first_handler :: "'c server_route list \<Rightarrow> string \<Rightarrow> string \<Rightarrow> 'c handler option" where
  "first_handler rts m p = map_option rt_handler (find (\<lambda>route. serves route m p) rts)"

definition holds_routes ::
  "('c handler, 'r) matchit \<Rightarrow> (string \<Rightarrow> string \<Rightarrow> 'c handler option) \<Rightarrow> 'r routes \<Rightarrow> bool" where
  "holds_routes mt f routes \<longleftrightarrow>
     (\<forall>m. mt_literal mt (case routes m of None \<Rightarrow> mt_default mt | Some r \<Rightarrow> r) = Some (f m))"

lemma replace_char_free: "c \<notin> set s \<Longrightarrow> replace_char c w s = s"
  by (induction s) (auto simp: replace_char_def)

lemma matchit_insert:
  assumes "matchit_documented mt" "mt_literal mt r = Some m" "brace_free p"
  shows "m p = None \<Longrightarrow> \<exists>r'. mt_insert mt p h r = Inr r' \<and> mt_literal mt r' = Some (m(p \<mapsto> h))"
    and "m p = Some h' \<Longrightarrow> mt_insert mt p h r = Inl (Conflict p)"
proof -
  have "case m p of
      None \<Rightarrow> \<exists>r'. mt_insert mt p h r = Inr r' \<and> mt_literal mt r' = Some (m(p \<mapsto> h))
    | Some _ \<Rightarrow> mt_insert mt p h r = Inl (Conflict p)"
    using assms unfolding matchit_documented_def by blast
  then show "m p = None \<Longrightarrow> \<exists>r'. mt_insert mt p h r = Inr r' \<and> mt_literal mt r' = Some (m(p \<mapsto> h))"
    and "m p = Some h' \<Longrightarrow> mt_insert mt p h r = Inl (Conflict p)"
    by simp_all
qed

lemma set_methods_holds:
  assumes "matchit_documented mt" "brace_free path" "holds_routes mt f routes"
  shows "\<exists>routes'. set_methods mt path handler methods routes = Inr routes' \<and>
    holds_routes mt (\<lambda>m p. if f m p = None \<and> m \<in> set methods \<and> p = path then Some handler else f m p)
      routes'"
  using assms(3)
proof (induction methods arbitrary: routes f)
  case (Cons m methods)
  let ?r = "case routes m of None \<Rightarrow> mt_default mt | Some r \<Rightarrow> r"
  have r: "mt_literal mt ?r = Some (f m)"
    using Cons.prems by (simp add: holds_routes_def)
  let ?g = "\<lambda>m' p. if f m' p = None \<and> m' = m \<and> p = path then Some handler else f m' p"
  have eq: "(\<lambda>m' p. if ?g m' p = None \<and> m' \<in> set methods \<and> p = path then Some handler else ?g m' p) =
      (\<lambda>m' p. if f m' p = None \<and> m' \<in> set (m # methods) \<and> p = path then Some handler else f m' p)"
    by (auto simp: fun_eq_iff)
  show ?case
  proof (cases "f m path")
    case None
    from matchit_insert(1) [OF assms(1) r assms(2) this] obtain r' where r': "mt_insert mt path handler ?r = Inr r'"
      "mt_literal mt r' = Some ((f m)(path \<mapsto> handler))" by blast
    have "holds_routes mt ?g (routes(m \<mapsto> r'))"
      using Cons.prems r'(2) None by (auto simp: holds_routes_def fun_eq_iff)
    from Cons.IH [OF this] r'(1) show ?thesis
      unfolding eq by (simp add: fun_upd_def)
  next
    case (Some h)
    from matchit_insert(2) [OF assms(1) r assms(2) this]
    have ins: "mt_insert mt path handler ?r = Inl (Conflict path)" .
    have "?g = f"
      using Some by (auto simp: fun_eq_iff)
    moreover have "holds_routes mt f (routes(m \<mapsto> ?r))"
      using Cons.prems by (auto simp: holds_routes_def)
    ultimately have "holds_routes mt ?g (routes(m \<mapsto> ?r))" by simp
    from Cons.IH [OF this] ins show ?thesis
      unfolding eq by (simp add: fun_upd_def)
  qed
qed simp

lemma routes_set_holds:
  assumes "matchit_documented mt" "brace_free (rt_path route)"
    and "holds_routes mt (first_handler rts) routes"
  shows "\<exists>routes'. routes_set mt feat route routes = Inr routes' \<and>
    holds_routes mt (first_handler (rts @ [route])) routes'"
proof -
  have "first_handler (rts @ [route]) =
      (\<lambda>m p. if first_handler rts m p = None \<and> m \<in> set (rt_methods route) \<and> p = rt_path route
        then Some (rt_handler route) else first_handler rts m p)"
    by (auto simp: fun_eq_iff first_handler_def find_append serves_def split: option.splits)
  moreover have "routes_set mt feat route = set_methods mt (rt_path route) (rt_handler route) (rt_methods route)"
    using assms(2) by (simp add: fun_eq_iff routes_set_def brace_free_def replace_char_free)
  ultimately show ?thesis
    using set_methods_holds [OF assms, of "rt_handler route" "rt_methods route"] by simp
qed

lemma set_all_holds:
  assumes "matchit_documented mt" "\<forall>route\<in>set new. brace_free (rt_path route)"
    and "holds_routes mt (first_handler rts) routes"
  shows "\<exists>routes'. set_all mt feat new routes = Inr routes' \<and>
    holds_routes mt (first_handler (rts @ new)) routes'"
  using assms(2,3)
proof (induction new arbitrary: rts routes)
  case (Cons route new)
  obtain routes' where "routes_set mt feat route routes = Inr routes'"
    "holds_routes mt (first_handler (rts @ [route])) routes'"
    using routes_set_holds [OF assms(1), of route rts routes feat] Cons.prems by auto
  with Cons.IH [of "rts @ [route]" routes'] Cons.prems(1) show ?case
    by simp
qed simp

lemma built_in_routes_brace_free: "\<forall>route\<in>set (built_in_routes feat). brace_free (rt_path route)"
  by (auto simp: built_in_routes_def brace_free_def)

lemma holds_routes_empty:
  "matchit_documented mt \<Longrightarrow> holds_routes mt (first_handler []) Map.empty"
  by (simp add: holds_routes_def matchit_documented_def first_handler_def fun_eq_iff)

text \<open>A server with any custom routes without parameters starts, and answers a request with
  the first of the built-in and then the custom routes that has its method and its decoded path,
  so that no custom route replaces a built-in one or an earlier one; without such a route it
  answers 404, and 400 for a path that does not decode to UTF-8.\<close>

theorem first_route_wins:
  assumes "matchit_documented mt" "\<forall>route\<in>set custom. brace_free (rt_path route)"
  shows "\<exists>routes. routes_new mt feat custom = Inr routes \<and>
    (\<forall>env req. handle_request mt env routes req =
      (let path = se_percent_decode env (rq_uri_path req) in
       if \<not> utf8_valid path then bad_request
       else case find (\<lambda>route. rq_method req \<in> set (rt_methods route) \<and> rt_path route = path)
             (built_in_routes feat @ custom) of
         None \<Rightarrow> not_found
       | Some route \<Rightarrow> call_handler env (rt_handler route) req))"
proof -
  obtain routes where init: "init_built_in_routes mt feat Map.empty = Inr routes"
    "holds_routes mt (first_handler (built_in_routes feat)) routes"
    using set_all_holds [OF assms(1) built_in_routes_brace_free holds_routes_empty [OF assms(1)], of feat feat]
    by (auto simp: init_built_in_routes_def)
  obtain routes' where new: "set_all mt feat custom routes = Inr routes'"
    and holds: "holds_routes mt (first_handler (built_in_routes feat @ custom)) routes'"
    using set_all_holds [OF assms init(2), of feat] by auto
  have at: "Option.bind (routes' m) (mt_at mt p) = first_handler (built_in_routes feat @ custom) m p" for m p
  proof (cases "routes' m")
    case None
    then have "mt_literal mt (mt_default mt) = Some (first_handler (built_in_routes feat @ custom) m)"
      using holds by (auto simp: holds_routes_def dest: spec [of _ m])
    with assms(1) None show ?thesis
      by (simp add: matchit_documented_def fun_eq_iff)
  next
    case (Some r)
    then have "mt_literal mt r = Some (first_handler (built_in_routes feat @ custom) m)"
      using holds by (auto simp: holds_routes_def dest: spec [of _ m])
    with assms(1) Some show ?thesis
      by (simp add: matchit_documented_def)
  qed
  have "routes_new mt feat custom = Inr routes'"
    using init(1) new by (simp add: routes_new_def)
  moreover have "handle_request mt env routes' req =
      (let path = se_percent_decode env (rq_uri_path req) in
       if \<not> utf8_valid path then bad_request
       else case find (\<lambda>route. rq_method req \<in> set (rt_methods route) \<and> rt_path route = path)
             (built_in_routes feat @ custom) of
         None \<Rightarrow> not_found
       | Some route \<Rightarrow> call_handler env (rt_handler route) req)" for env req
    by (simp add: handle_request_def at first_handler_def serves_def Let_def split: option.split)
  ultimately show ?thesis by blast
qed

definition map_router :: "('h, string \<rightharpoonup> 'h) matchit" where
  "map_router = \<lparr>mt_default = Map.empty,
     mt_insert = (\<lambda>p h r. if r p = None then Inr (r(p \<mapsto> h)) else Inl (Conflict p)),
     mt_at = (\<lambda>q r. r q), mt_literal = Some\<rparr>"

lemma matchit_documented_map: "matchit_documented map_router"
  by (auto simp: matchit_documented_def map_router_def split: option.splits)

definition sample_features :: server_features where
  "sample_features = \<lparr>sf_metrics = False, sf_memory_profiling = False, sf_linux = True,
     sf_tracing = False, sf_pattern_routing = False\<rparr>"

theorem first_route_wins_witness:
  "\<exists>routes. routes_new map_router sample_features
      [\<lparr>rt_path = ''/health'', rt_methods = [''GET'', ''POST''], rt_handler = Custom (1 :: nat)\<rparr>] = Inr routes \<and>
    (\<forall>env. se_percent_decode env = id \<longrightarrow>
      handle_request map_router env routes \<lparr>rq_method = ''GET'', rq_uri_path = ''/health''\<rparr> =
        into_response ''text/plain'' (Inr '''') \<and>
      handle_request map_router env routes \<lparr>rq_method = ''POST'', rq_uri_path = ''/health''\<rparr> =
        se_custom env 1 \<lparr>rq_method = ''POST'', rq_uri_path = ''/health''\<rparr>)"
proof -
  let ?custom = "[\<lparr>rt_path = ''/health'', rt_methods = [''GET'', ''POST''], rt_handler = Custom (1 :: nat)\<rparr>]"
  have valid: "utf8_valid ''/health''" by code_simp
  have "\<forall>route\<in>set ?custom. brace_free (rt_path route)" by (simp add: brace_free_def)
  from first_route_wins [OF matchit_documented_map this, of sample_features]
  obtain routes where routes: "routes_new map_router sample_features ?custom = Inr routes"
    and "\<And>env req. handle_request map_router env routes req =
      (let path = se_percent_decode env (rq_uri_path req) in
       if \<not> utf8_valid path then bad_request
       else case find (\<lambda>route. rq_method req \<in> set (rt_methods route) \<and> rt_path route = path)
             (built_in_routes sample_features @ ?custom) of
         None \<Rightarrow> not_found
       | Some route \<Rightarrow> call_handler env (rt_handler route) req)"
    by blast
  then have "handle_request map_router env routes \<lparr>rq_method = m, rq_uri_path = ''/health''\<rparr> =
      (case find (\<lambda>route. m \<in> set (rt_methods route) \<and> rt_path route = ''/health'')
             (built_in_routes sample_features @ ?custom) of
         None \<Rightarrow> not_found
       | Some route \<Rightarrow> call_handler env (rt_handler route) \<lparr>rq_method = m, rq_uri_path = ''/health''\<rparr>)"
    if "se_percent_decode env = id" for env m
    using valid that by (simp only: Let_def request.simps id_apply if_False simp_thms)
  with routes show ?thesis
    by (intro exI [of _ routes]) (simp add: built_in_routes_def sample_features_def)
qed

end
