(* ===== verification/MemoryProfiler.thy ===== *)
theory MemoryProfiler
  imports Utf8
begin

text \<open>
  The memory profiler, \<open>telemetry/memory_profiler.rs\<close>: its initialization, the thread that collects
  heap profiles, and the calls of \<open>heap_profile\<close>, each a future that holds the request sender's
  mutex until it has its response or is dropped. jemalloc's controls and the file system are
  parameters. The lemmas show that one profile is collected at a time and no caller is forgotten,
  and what dropping a call while its request is open does to the calls after it.
\<close>

section \<open>State\<close>

record profiler_settings =
  ps_enabled :: bool
  ps_sample_interval :: u8

text \<open>The \<open>control\<close> module: the controls that are written, with their values, and whether
  \<open>opt.prof\<close> is set; \<^const>\<open>None\<close> when it cannot be read, which panics.\<close>

datatype control_write = BackgroundThread bool | ProfReset u64 | ProfActive bool | ProfDump string

record 'w jemalloc =
  jc_profiling_enabled :: "'w \<Rightarrow> bool option"
  jc_write :: "control_write \<Rightarrow> 'w \<Rightarrow> (string + unit) \<times> 'w"

text \<open>A temporary file, whose path may not be text, and what is read back from a path.\<close>

record 'w file_system =
  io_new_temp_file :: "'w \<Rightarrow> (string + string) \<times> 'w"
  io_read_to_end :: "string \<Rightarrow> 'w \<Rightarrow> (string + string) \<times> 'w"

datatype init_error =
    SampleIntervalOutOfRange
  | SenderAlreadyInitialized
  | BackgroundThreadFailed string
  | SampleIntervalFailed string
  | ActivationFailed string

datatype profile_error =
    SenderNotInitialized
  | AlreadyInProgress
  | RequestNotSent
  | ResponseNotReceived
  | TempFileFailed string
  | PathNotText
  | PathHasNul
  | DumpFailed string string
  | ReadFailed string
  | ProfileNotText

text \<open>A call of \<open>heap_profile\<close>. Between its request and its end its future waits for the response,
  or has it and is to be polled; a future that is dropped then is cancelled or abandoned.\<close>

datatype profile_call =
    NotCalled
  | AwaitingResponse
  | Responded "profile_error + string"
  | Returned "profile_error + string"
  | Cancelled
  | Abandoned

datatype profile_thread = NotSpawned | Receiving | Collecting nat | ThreadEnded

text \<open>The two statics: \<open>PROFILER\<close>, with whether it holds a profiler, and the sender with the holder
  of its mutex; the requests in the channel, the thread, and the calls by a number each.\<close>

record 'w profiler =
  pr_profiler :: "bool option"
  pr_sender :: "nat option option"
  pr_requests :: "nat list"
  pr_thread :: profile_thread
  pr_calls :: "nat \<Rightarrow> profile_call"
  pr_world :: 'w

definition profiler_start :: "'w \<Rightarrow> 'w profiler" where
  "profiler_start w = \<lparr>pr_profiler = None, pr_sender = None, pr_requests = [],
     pr_thread = NotSpawned, pr_calls = (\<lambda>_. NotCalled), pr_world = w\<rparr>"

section \<open>Initialization\<close>

text \<open>\<open>control::write(...).map_err(...)?\<close>, on the world of the state.\<close>

definition control_write ::
  "'w jemalloc \<Rightarrow> control_write \<Rightarrow> (string \<Rightarrow> init_error) \<Rightarrow> 'w profiler \<Rightarrow>
   (init_error + unit) \<times> 'w profiler" where
  "control_write jc c err s =
     (case jc_write jc c (pr_world s) of (r, w) \<Rightarrow>
        (case r of Inl e \<Rightarrow> Inl (err e) | Inr _ \<Rightarrow> Inr (), s\<lparr>pr_world := w\<rparr>))"

text \<open>\<open>init_profiler\<close>; the result tells whether there is a profiler, \<^const>\<open>None\<close> is a panic.\<close>

definition init_profiler ::
  "'w jemalloc \<Rightarrow> profiler_settings \<Rightarrow> 'w profiler \<Rightarrow> (init_error + bool) option \<times> 'w profiler" where
  "init_profiler jc settings s =
     (if \<not> ps_enabled settings then (Some (Inr False), s)
      else case jc_profiling_enabled jc (pr_world s) of
        None \<Rightarrow> (None, s)
      | Some False \<Rightarrow> (Some (Inr False), s)
      | Some True \<Rightarrow>
          (case pr_sender s of
             Some _ \<Rightarrow> (Some (Inl SenderAlreadyInitialized), s)
           | None \<Rightarrow>
               let s = s\<lparr>pr_sender := Some None, pr_thread := Receiving\<rparr> in
               (case control_write jc (BackgroundThread True) BackgroundThreadFailed s of
                  (Inl e, s) \<Rightarrow> (Some (Inl e), s)
                | (Inr _, s) \<Rightarrow>
                    (case control_write jc (ProfReset (ucast (ps_sample_interval settings)))
                        SampleIntervalFailed s of
                       (Inl e, s) \<Rightarrow> (Some (Inl e), s)
                     | (Inr _, s) \<Rightarrow>
                         (case control_write jc (ProfActive True) ActivationFailed s of
                            (Inl e, s) \<Rightarrow> (Some (Inl e), s)
                          | (Inr _, s) \<Rightarrow> (Some (Inr True), s))))))"

text \<open>\<open>get_or_init_with\<close>: \<open>get_or_try_init\<close> keeps the first result that is no error.\<close>

definition get_or_init_with ::
  "'w jemalloc \<Rightarrow> profiler_settings \<Rightarrow> 'w profiler \<Rightarrow> (init_error + bool) option \<times> 'w profiler" where
  "get_or_init_with jc settings s =
     (if 64 < ps_sample_interval settings then (Some (Inl SampleIntervalOutOfRange), s)
      else case pr_profiler s of
        Some p \<Rightarrow> (Some (Inr p), s)
      | None \<Rightarrow>
          (case init_profiler jc settings s of
             (Some (Inr p), s) \<Rightarrow> (Some (Inr p), s\<lparr>pr_profiler := Some p\<rparr>)
           | (r, s) \<Rightarrow> (r, s)))"

section \<open>Collecting profiles\<close>

definition collect_heap_profile ::
  "'w jemalloc \<Rightarrow> 'w file_system \<Rightarrow> 'w \<Rightarrow> (profile_error + string) \<times> 'w" where
  "collect_heap_profile jc io w =
     (case io_new_temp_file io w of
        (Inl e, w) \<Rightarrow> (Inl (TempFileFailed e), w)
      | (Inr path, w) \<Rightarrow>
          if \<not> utf8_valid path then (Inl PathNotText, w)
          else if CHR 0x00 \<in> set path then (Inl PathHasNul, w)
          else (case jc_write jc (ProfDump path) w of
              (Inl e, w) \<Rightarrow> (Inl (DumpFailed path e), w)
            | (Inr _, w) \<Rightarrow>
                (case io_read_to_end io path w of
                   (Inl e, w) \<Rightarrow> (Inl (ReadFailed e), w)
                 | (Inr profile, w) \<Rightarrow>
                     (if utf8_valid profile then Inr profile else Inl ProfileNotText, w))))"

text \<open>The first poll of \<open>heap_profile\<close>, up to \<open>response_receiver.await\<close>. The request cannot be
  sent when the thread, and with it the receiver, is gone.\<close>

definition set_call :: "nat \<Rightarrow> profile_call \<Rightarrow> 'w profiler \<Rightarrow> 'w profiler" where
  "set_call i c s = s\<lparr>pr_calls := (pr_calls s)(i := c)\<rparr>"

definition heap_profile_begin :: "nat \<Rightarrow> 'w profiler \<Rightarrow> 'w profiler" where
  "heap_profile_begin i s =
     (case pr_sender s of
        None \<Rightarrow> set_call i (Returned (Inl SenderNotInitialized)) s
      | Some (Some _) \<Rightarrow> set_call i (Returned (Inl AlreadyInProgress)) s
      | Some None \<Rightarrow>
          if pr_thread s = ThreadEnded then set_call i (Returned (Inl RequestNotSent)) s
          else set_call i AwaitingResponse
            (s\<lparr>pr_sender := Some (Some i), pr_requests := pr_requests s @ [i]\<rparr>))"

text \<open>The poll after the response is there, and dropping the future before: both release the mutex.\<close>

definition heap_profile_return :: "nat \<Rightarrow> profile_error + string \<Rightarrow> 'w profiler \<Rightarrow> 'w profiler" where
  "heap_profile_return i r s = set_call i (Returned r) (s\<lparr>pr_sender := Some None\<rparr>)"

definition heap_profile_dropped :: "nat \<Rightarrow> 'w profiler \<Rightarrow> 'w profiler" where
  "heap_profile_dropped i s =
     set_call i (if pr_calls s i = AwaitingResponse then Cancelled else Abandoned)
       (s\<lparr>pr_sender := Some None\<rparr>)"

text \<open>\<open>heap_profile_thread\<close>: receiving a request; collecting and answering. When the response cannot
  be sent the thread returns, which drops the requests still in the channel.\<close>

definition thread_receive :: "nat \<Rightarrow> nat list \<Rightarrow> 'w profiler \<Rightarrow> 'w profiler" where
  "thread_receive i is s = s\<lparr>pr_thread := Collecting i, pr_requests := is\<rparr>"

definition drop_request :: "nat \<Rightarrow> (nat \<Rightarrow> profile_call) \<Rightarrow> nat \<Rightarrow> profile_call" where
  "drop_request i calls =
     (if calls i = AwaitingResponse then calls(i := Responded (Inl ResponseNotReceived)) else calls)"

definition thread_respond :: "'w jemalloc \<Rightarrow> 'w file_system \<Rightarrow> nat \<Rightarrow> 'w profiler \<Rightarrow> 'w profiler" where
  "thread_respond jc io i s =
     (case collect_heap_profile jc io (pr_world s) of (r, w) \<Rightarrow>
        let s = s\<lparr>pr_world := w\<rparr> in
        if pr_calls s i = AwaitingResponse
        then set_call i (Responded r) (s\<lparr>pr_thread := Receiving\<rparr>)
        else s\<lparr>pr_thread := ThreadEnded, pr_requests := [],
               pr_calls := fold drop_request (pr_requests s) (pr_calls s)\<rparr>)"

text \<open>\<open>heap_stats\<close>, on what \<open>stats_print\<close> writes, and \<open>memory_profiling::profiler\<close> of the telemetry
  server.\<close>

datatype stats_error = StatsNotPrinted string | StatsNotText

definition heap_stats :: "('w \<Rightarrow> (string + string) \<times> 'w) \<Rightarrow> 'w \<Rightarrow> (stats_error + string) \<times> 'w" where
  "heap_stats stats_print w =
     (case stats_print w of
        (Inl e, w) \<Rightarrow> (Inl (StatsNotPrinted e), w)
      | (Inr stats, w) \<Rightarrow> (if utf8_valid stats then Inr stats else Inl StatsNotText, w))"

datatype server_profiler_error = InitFailed init_error | NotEnabledByEnvironment

definition server_profiler ::
  "'w jemalloc \<Rightarrow> profiler_settings \<Rightarrow> 'w profiler \<Rightarrow>
   (server_profiler_error + unit) option \<times> 'w profiler" where
  "server_profiler jc settings s =
     (case get_or_init_with jc settings s of
        (None, s) \<Rightarrow> (None, s)
      | (Some (Inl e), s) \<Rightarrow> (Some (Inl (InitFailed e)), s)
      | (Some (Inr p), s) \<Rightarrow> (Some (if p then Inr () else Inl NotEnabledByEnvironment), s))"

section \<open>Interleavings\<close>

definition call_open :: "profile_call \<Rightarrow> bool" where
  "call_open c \<longleftrightarrow> c = AwaitingResponse \<or> (\<exists>r. c = Responded r)"

text \<open>Steps of the thread and of the call \<open>i\<close> without its being dropped, and all steps.\<close>

inductive thread_step :: "'w jemalloc \<Rightarrow> 'w file_system \<Rightarrow> 'w profiler \<Rightarrow> 'w profiler \<Rightarrow> bool"
  for jc io where
  receive: "pr_thread s = Receiving \<Longrightarrow> pr_requests s = i # is \<Longrightarrow>
    thread_step jc io s (thread_receive i is s)"
| respond: "pr_thread s = Collecting i \<Longrightarrow> thread_step jc io s (thread_respond jc io i s)"

inductive profiler_step :: "'w jemalloc \<Rightarrow> 'w file_system \<Rightarrow> 'w profiler \<Rightarrow> 'w profiler \<Rightarrow> bool"
  for jc io where
  init: "get_or_init_with jc settings s = (r, s') \<Longrightarrow> profiler_step jc io s s'"
| call: "pr_profiler s = Some True \<Longrightarrow> pr_calls s i = NotCalled \<Longrightarrow>
    profiler_step jc io s (heap_profile_begin i s)"
| returns: "pr_calls s i = Responded r \<Longrightarrow> profiler_step jc io s (heap_profile_return i r s)"
| dropped: "call_open (pr_calls s i) \<Longrightarrow> profiler_step jc io s (heap_profile_dropped i s)"
| thread: "thread_step jc io s s' \<Longrightarrow> profiler_step jc io s s'"

inductive profiler_reachable :: "'w jemalloc \<Rightarrow> 'w file_system \<Rightarrow> 'w profiler \<Rightarrow> 'w profiler \<Rightarrow> bool"
  for jc io s where
  start: "profiler_reachable jc io s s"
| step: "profiler_reachable jc io s t \<Longrightarrow> profiler_step jc io t u \<Longrightarrow> profiler_reachable jc io s u"

inductive_cases profiler_stepE: "profiler_step jc io s t"
inductive_cases thread_stepE: "thread_step jc io s t"


section \<open>The invariant\<close>

lemma fold_drop_request:
  "fold drop_request is calls i =
     (if i \<in> set is \<and> calls i = AwaitingResponse then Responded (Inl ResponseNotReceived) else calls i)"
proof (induction "is" arbitrary: calls)
  case (Cons j js)
  show ?case
    unfolding fold_simps Cons.IH by (auto simp: drop_request_def)
qed simp

lemma set_call_fields [simp]:
  "pr_profiler (set_call i c s) = pr_profiler s" "pr_sender (set_call i c s) = pr_sender s"
  "pr_requests (set_call i c s) = pr_requests s" "pr_thread (set_call i c s) = pr_thread s"
  "pr_calls (set_call i c s) = (pr_calls s)(i := c)" "pr_world (set_call i c s) = pr_world s"
  by (simp_all add: set_call_def)

lemma control_write_fields:
  "control_write jc c err s = (r, t) \<Longrightarrow> \<exists>w. t = s\<lparr>pr_world := w\<rparr>"
  by (auto simp: control_write_def split: prod.splits)

text \<open>What initialization changes: nothing of the requests and calls, and the sender and the thread
  only if there are none.\<close>

lemma init_profiler_fields:
  assumes "init_profiler jc settings s = (r, t)"
  shows "pr_requests t = pr_requests s \<and> pr_calls t = pr_calls s \<and> pr_profiler t = pr_profiler s \<and>
    (pr_sender t = pr_sender s \<and> pr_thread t = pr_thread s \<or>
     pr_sender s = None \<and> pr_sender t = Some None \<and> pr_thread t = Receiving)"
  using assms
  by (auto simp: init_profiler_def Let_def split: if_splits option.splits bool.splits prod.splits sum.splits
      dest!: control_write_fields)

lemma get_or_init_fields:
  assumes "get_or_init_with jc settings s = (r, t)"
  shows "pr_requests t = pr_requests s \<and> pr_calls t = pr_calls s \<and>
    (pr_sender t = pr_sender s \<and> pr_thread t = pr_thread s \<or>
     pr_sender s = None \<and> pr_sender t = Some None \<and> pr_thread t = Receiving)"
proof -
  obtain r' s' where i: "init_profiler jc settings s = (r', s')"
    by (cases "init_profiler jc settings s")
  show ?thesis
    using assms init_profiler_fields [OF i]
    by (auto simp: get_or_init_with_def i split: if_splits option.splits sum.splits)
qed

text \<open>Who holds the mutex has the open call; every request in the channel or with the thread is of a
  call that awaits it or was cancelled, and no such call is without its request, unless the thread
  has ended.\<close>

definition open_requests :: "'w profiler \<Rightarrow> nat list" where
  "open_requests s =
     (case pr_thread s of Collecting i \<Rightarrow> i # pr_requests s | _ \<Rightarrow> pr_requests s)"

abbreviation requested :: "'w profiler \<Rightarrow> nat \<Rightarrow> bool" where
  "requested s i \<equiv> i \<in> set (open_requests s)"

definition profiler_inv :: "'w profiler \<Rightarrow> bool" where
  "profiler_inv s \<longleftrightarrow>
     (pr_sender s = None \<longleftrightarrow> pr_thread s = NotSpawned) \<and>
     (\<forall>i. call_open (pr_calls s i) \<longleftrightarrow> pr_sender s = Some (Some i)) \<and>
     distinct (open_requests s) \<and>
     (\<forall>i. requested s i \<longrightarrow> pr_calls s i = AwaitingResponse \<or> pr_calls s i = Cancelled) \<and>
     (\<forall>i. pr_calls s i = AwaitingResponse \<longrightarrow> requested s i) \<and>
     (\<forall>i. pr_calls s i = Cancelled \<longrightarrow> requested s i \<or> pr_thread s = ThreadEnded) \<and>
     (pr_thread s = NotSpawned \<or> pr_thread s = ThreadEnded \<longrightarrow> pr_requests s = [])"

lemma profiler_invI:
  assumes "pr_sender s = None \<longleftrightarrow> pr_thread s = NotSpawned"
    and "\<And>i. call_open (pr_calls s i) \<longleftrightarrow> pr_sender s = Some (Some i)"
    and "distinct (open_requests s)"
    and "\<And>i. requested s i \<Longrightarrow> pr_calls s i = AwaitingResponse \<or> pr_calls s i = Cancelled"
    and "\<And>i. pr_calls s i = AwaitingResponse \<Longrightarrow> requested s i"
    and "\<And>i. pr_calls s i = Cancelled \<Longrightarrow> requested s i \<or> pr_thread s = ThreadEnded"
    and "pr_thread s = NotSpawned \<or> pr_thread s = ThreadEnded \<Longrightarrow> pr_requests s = []"
  shows "profiler_inv s"
  unfolding profiler_inv_def using assms by blast

lemma profiler_invD:
  assumes "profiler_inv s"
  shows "pr_sender s = None \<longleftrightarrow> pr_thread s = NotSpawned"
    and "call_open (pr_calls s i) \<longleftrightarrow> pr_sender s = Some (Some i)"
    and "distinct (open_requests s)"
    and "requested s i \<Longrightarrow> pr_calls s i = AwaitingResponse \<or> pr_calls s i = Cancelled"
    and "pr_calls s i = AwaitingResponse \<Longrightarrow> requested s i"
    and "pr_calls s i = Cancelled \<Longrightarrow> requested s i \<or> pr_thread s = ThreadEnded"
    and "pr_thread s = NotSpawned \<or> pr_thread s = ThreadEnded \<Longrightarrow> pr_requests s = []"
  using assms unfolding profiler_inv_def by blast+

lemma call_open_simps [simp]:
  "call_open AwaitingResponse" "call_open (Responded r)" "\<not> call_open NotCalled"
  "\<not> call_open (Returned r)" "\<not> call_open Cancelled" "\<not> call_open Abandoned"
  by (simp_all add: call_open_def)

lemma profiler_inv_start: "profiler_inv (profiler_start w)"
  by (rule profiler_invI) (simp_all add: profiler_start_def open_requests_def)

lemma profiler_inv_init:
  assumes "profiler_inv s" "get_or_init_with jc settings s = (r, t)"
  shows "profiler_inv t"
proof -
  note f = get_or_init_fields [OF assms(2)] and inv = profiler_invD [OF assms(1)]
  have req: "open_requests t = open_requests s"
    using f inv(1) by (auto simp: open_requests_def split: profile_thread.split)
  show ?thesis
  proof (rule profiler_invI)
    show "pr_sender t = None \<longleftrightarrow> pr_thread t = NotSpawned"
      using f inv(1) by auto
    show "call_open (pr_calls t i) \<longleftrightarrow> pr_sender t = Some (Some i)" for i
      using f inv(2) [of i] by auto
    show "distinct (open_requests t)"
      using inv(3) by (simp add: req)
    show "requested t i \<Longrightarrow> pr_calls t i = AwaitingResponse \<or> pr_calls t i = Cancelled" for i
      using f inv(4) [of i] by (simp add: req)
    show "pr_calls t i = AwaitingResponse \<Longrightarrow> requested t i" for i
      using f inv(5) [of i] by (simp add: req)
    show "pr_calls t i = Cancelled \<Longrightarrow> requested t i \<or> pr_thread t = ThreadEnded" for i
      using f inv(1) inv(6) [of i] by (auto simp: req)
    show "pr_thread t = NotSpawned \<or> pr_thread t = ThreadEnded \<Longrightarrow> pr_requests t = []"
      using f inv(7) by auto
  qed
qed

text \<open>The other steps.\<close>

lemma open_requests_set_call [simp]: "open_requests (set_call i c s) = open_requests s"
  by (simp add: open_requests_def split: profile_thread.split)

lemma profiler_inv_closed:
  assumes inv: "profiler_inv s" and "\<not> requested s i" "pr_sender s \<noteq> Some (Some i)"
    and "\<not> call_open c" "c \<noteq> Cancelled"
  shows "profiler_inv (set_call i c s)"
proof (rule profiler_invI)
  show "call_open (pr_calls (set_call i c s) j) \<longleftrightarrow> pr_sender (set_call i c s) = Some (Some j)" for j
    using assms profiler_invD(2) [OF inv, of j] by simp
qed (use assms profiler_invD [OF inv] in \<open>auto split: if_splits\<close>)

lemma profiler_inv_begin:
  assumes "profiler_inv s" and "pr_calls s i = NotCalled"
  shows "profiler_inv (heap_profile_begin i s)"
proof -
  note inv = profiler_invD [OF assms(1)]
  have new: "\<not> requested s i" "pr_sender s \<noteq> Some (Some i)"
    using assms(2) inv(4) [of i] inv(2) [of i] by auto
  consider "pr_sender s = None" | j where "pr_sender s = Some (Some j)"
    | "pr_sender s = Some None" "pr_thread s = ThreadEnded"
    | "pr_sender s = Some None" "pr_thread s \<noteq> ThreadEnded"
    by (cases "pr_sender s") auto
  then show ?thesis
  proof cases
    case 1
    then have "heap_profile_begin i s = set_call i (Returned (Inl SenderNotInitialized)) s"
      by (simp add: heap_profile_begin_def)
    with assms(1) new show ?thesis
      by (simp add: profiler_inv_closed)
  next
    case 2
    then have "heap_profile_begin i s = set_call i (Returned (Inl AlreadyInProgress)) s"
      by (simp add: heap_profile_begin_def)
    with assms(1) new show ?thesis
      by (simp add: profiler_inv_closed)
  next
    case 3
    then have "heap_profile_begin i s = set_call i (Returned (Inl RequestNotSent)) s"
      by (simp add: heap_profile_begin_def)
    with assms(1) new show ?thesis
      by (simp add: profiler_inv_closed)
  next
    case 4
    let ?t = "heap_profile_begin i s"
    have t: "?t = set_call i AwaitingResponse
        (s\<lparr>pr_sender := Some (Some i), pr_requests := pr_requests s @ [i]\<rparr>)"
      using 4 by (simp add: heap_profile_begin_def)
    have req: "open_requests ?t = open_requests s @ [i]"
      by (simp add: t open_requests_def split: profile_thread.split)
    have closed: "\<not> call_open (pr_calls s j)" for j
      using 4(1) inv(2) [of j] by simp
    show ?thesis
    proof (rule profiler_invI)
      show "call_open (pr_calls ?t j) \<longleftrightarrow> pr_sender ?t = Some (Some j)" for j
        using closed [of j] by (simp add: t)
      show "distinct (open_requests ?t)"
        using new inv(3) by (simp add: req)
    qed (use 4 inv new in \<open>auto simp: req, auto simp: t split: if_splits\<close>)
  qed
qed


lemma open_requests_sender [simp]: "open_requests (s\<lparr>pr_sender := x\<rparr>) = open_requests s"
  by (simp add: open_requests_def split: profile_thread.split)

lemma profiler_inv_release:
  assumes inv: "profiler_inv s" and open_call: "call_open (pr_calls s i)"
    and c: "\<not> call_open c" "requested s i \<Longrightarrow> c = Cancelled"
      "c = Cancelled \<Longrightarrow> requested s i"
  shows "profiler_inv (set_call i c (s\<lparr>pr_sender := Some None\<rparr>))"
proof -
  note inv = profiler_invD [OF inv]
  have held: "pr_sender s = Some (Some i)"
    using inv(2) open_call by blast
  show ?thesis
  proof (rule profiler_invI)
    fix j
    let ?t = "set_call i c (s\<lparr>pr_sender := Some None\<rparr>)"
    show "call_open (pr_calls ?t j) \<longleftrightarrow> pr_sender ?t = Some (Some j)"
      using inv(2) [of j] held c(1) by simp
    show "pr_calls ?t j = AwaitingResponse \<Longrightarrow> requested ?t j"
      using inv(5) [of j] c(1) by (auto split: if_splits)
    show "requested ?t j \<Longrightarrow> pr_calls ?t j = AwaitingResponse \<or> pr_calls ?t j = Cancelled"
      using inv(4) [of j] c(2) by (auto split: if_splits)
    show "pr_calls ?t j = Cancelled \<Longrightarrow> requested ?t j \<or> pr_thread ?t = ThreadEnded"
      using inv(6) [of j] c(3) by (auto split: if_splits)
  qed (use inv held in auto)
qed

lemma profiler_inv_return:
  assumes "profiler_inv s" "pr_calls s i = Responded r"
  shows "profiler_inv (heap_profile_return i r s)"
proof -
  have "\<not> requested s i"
    using profiler_invD(4) [OF assms(1), of i] assms(2) by auto
  with assms show ?thesis
    unfolding heap_profile_return_def by (intro profiler_inv_release) auto
qed

lemma profiler_inv_dropped:
  assumes "profiler_inv s" "call_open (pr_calls s i)"
  shows "profiler_inv (heap_profile_dropped i s)"
proof -
  have "requested s i \<longleftrightarrow> pr_calls s i = AwaitingResponse"
    using profiler_invD(4,5) [OF assms(1), of i] assms(2) by (auto simp: call_open_def)
  with assms show ?thesis
    unfolding heap_profile_dropped_def by (intro profiler_inv_release) auto
qed

lemma profiler_inv_receive:
  assumes inv: "profiler_inv s" and s: "pr_thread s = Receiving" "pr_requests s = i # is"
  shows "profiler_inv (thread_receive i is s)"
proof -
  have req: "open_requests (thread_receive i is s) = open_requests s"
    using s by (simp add: open_requests_def thread_receive_def)
  show ?thesis
    by (rule profiler_invI; (unfold req)?)
      (use profiler_invD [OF inv] s in \<open>auto simp: thread_receive_def\<close>)
qed

lemma profiler_inv_respond:
  assumes "profiler_inv s" and th: "pr_thread s = Collecting i"
  shows "profiler_inv (thread_respond jc io i s)"
proof -
  obtain r w where r: "collect_heap_profile jc io (pr_world s) = (r, w)"
    by (cases "collect_heap_profile jc io (pr_world s)")
  note inv = profiler_invD [OF assms(1)]
  have reqs: "open_requests s = i # pr_requests s"
    by (simp add: open_requests_def th)
  let ?t = "thread_respond jc io i s"
  show ?thesis
  proof (cases "pr_calls s i = AwaitingResponse")
    case True
    then have t: "?t = set_call i (Responded r) (s\<lparr>pr_world := w, pr_thread := Receiving\<rparr>)"
      by (simp add: thread_respond_def r Let_def)
    have reqs': "open_requests ?t = pr_requests s"
      by (simp add: t open_requests_def)
    have held: "pr_sender s = Some (Some i)"
      using inv(2) [of i] True by simp
    show ?thesis
    proof (rule profiler_invI; (unfold reqs')?)
      show "call_open (pr_calls ?t j) \<longleftrightarrow> pr_sender ?t = Some (Some j)" for j
        using inv(2) [of j] held by (simp add: t)
      show "pr_calls ?t j = Cancelled \<Longrightarrow> j \<in> set (pr_requests s) \<or> pr_thread ?t = ThreadEnded" for j
        using inv(6) [of j] th by (auto simp: t reqs split: if_splits)
    qed (use inv(1,3-7) held in \<open>auto simp: t reqs split: if_splits\<close>)
  next
    case False
    let ?c = "fold drop_request (pr_requests s) (pr_calls s)"
    have t: "?t = s\<lparr>pr_world := w, pr_thread := ThreadEnded, pr_requests := [], pr_calls := ?c\<rparr>"
      using False by (simp add: thread_respond_def r Let_def)
    have cancelled: "pr_calls s i = Cancelled"
      using inv(4) [of i] False by (simp add: reqs)
    have reqs': "open_requests ?t = []"
      by (simp add: t open_requests_def)
    have open_iff: "call_open (?c j) \<longleftrightarrow> call_open (pr_calls s j)" for j
      by (simp add: fold_drop_request)
    show ?thesis
    proof (rule profiler_invI; (unfold reqs')?)
      show "call_open (pr_calls ?t j) \<longleftrightarrow> pr_sender ?t = Some (Some j)" for j
        using inv(2) [of j] by (simp add: t open_iff)
      show "pr_calls ?t j = AwaitingResponse \<Longrightarrow> j \<in> set []" for j
        using inv(5) [of j] cancelled by (auto simp: t fold_drop_request reqs split: if_splits)
    qed (use inv(1) th in \<open>simp_all add: t\<close>)
  qed
qed


lemma profiler_step_inv:
  assumes "profiler_step jc io s t" "profiler_inv s"
  shows "profiler_inv t"
  using assms(1)
proof cases
  case (init settings r)
  with assms(2) show ?thesis by (rule profiler_inv_init)
next
  case (thread)
  then show ?thesis
    using assms(2) by cases (simp_all add: profiler_inv_receive profiler_inv_respond)
qed (use assms(2) in \<open>simp_all add: profiler_inv_begin profiler_inv_return profiler_inv_dropped\<close>)

lemma profiler_reachable_inv:
  "profiler_reachable jc io s t \<Longrightarrow> profiler_inv s \<Longrightarrow> profiler_inv t"
  by (induction rule: profiler_reachable.induct) (auto intro: profiler_step_inv)

section \<open>A call that waits gets its response\<close>

text \<open>The response to a waiting call: its profile if its request is the next the thread answers, the
  error of a dropped response sender if a cancelled call is before it.\<close>

definition next_request :: "'w profiler \<Rightarrow> nat option" where
  "next_request s = (case open_requests s of [] \<Rightarrow> None | i # is \<Rightarrow> Some i)"

definition response_of :: "'w jemalloc \<Rightarrow> 'w file_system \<Rightarrow> nat \<Rightarrow> 'w profiler \<Rightarrow> profile_error + string" where
  "response_of jc io i s =
     (if next_request s = Some i then fst (collect_heap_profile jc io (pr_world s))
      else Inl ResponseNotReceived)"

lemma thread_responds:
  assumes inv: "profiler_inv s" and waiting: "pr_calls s i = AwaitingResponse"
    and th: "pr_thread s = Collecting j"
  shows "pr_calls (thread_respond jc io j s) i = Responded (response_of jc io i s)"
proof -
  note inv = profiler_invD [OF inv]
  obtain r w where r: "collect_heap_profile jc io (pr_world s) = (r, w)"
    by (cases "collect_heap_profile jc io (pr_world s)")
  have reqs: "open_requests s = j # pr_requests s"
    by (simp add: open_requests_def th)
  show ?thesis
  proof (cases "i = j")
    case True
    with waiting show ?thesis
      by (simp add: thread_respond_def r response_of_def next_request_def reqs Let_def)
  next
    case False
    have "pr_calls s j \<noteq> AwaitingResponse"
      using False inv(2) [of i] inv(2) [of j] waiting by auto
    moreover have "i \<in> set (pr_requests s)"
      using inv(5) [OF waiting] False by (simp add: reqs)
    ultimately show ?thesis
      using False waiting
      by (simp add: thread_respond_def r response_of_def next_request_def reqs fold_drop_request Let_def)
  qed
qed

text \<open>C22: a call of \<open>heap_profile\<close> that waits is never forgotten: wherever the thread and the other
  calls are, two steps of the thread at most give it its response, the profile collected for it
  or, when the request of a dropped call is ahead of its own, the error that none comes.\<close>

theorem waiting_profile_is_answered:
  assumes "profiler_reachable jc io (profiler_start w) s" and waiting: "pr_calls s i = AwaitingResponse"
  shows "\<exists>n\<le>2. \<exists>t. (thread_step jc io ^^ n) s t \<and> pr_calls t i = Responded (response_of jc io i s)"
proof -
  have inv: "profiler_inv s"
    by (rule profiler_reachable_inv [OF assms(1) profiler_inv_start])
  note invD = profiler_invD [OF inv]
  show ?thesis
  proof (cases "pr_thread s")
    case (Collecting j)
    then have "(thread_step jc io ^^ 1) s (thread_respond jc io j s)"
      by (auto intro: thread_step.respond)
    with thread_responds [OF inv waiting Collecting] show ?thesis
      by (intro exI [of _ 1]) auto
  next
    case Receiving
    then obtain j js where js: "pr_requests s = j # js"
      using invD(5) [OF waiting] by (cases "pr_requests s") (auto simp: open_requests_def)
    let ?r = "thread_receive j js s"
    have receive: "thread_step jc io s ?r" and th: "pr_thread ?r = Collecting j"
      using thread_step.receive [OF Receiving js] by (simp_all add: thread_receive_def)
    have same: "pr_calls ?r i = AwaitingResponse" "response_of jc io i ?r = response_of jc io i s"
      using waiting Receiving js
      by (simp_all add: thread_receive_def response_of_def next_request_def open_requests_def)
    have "(thread_step jc io ^^ 2) s (thread_respond jc io j ?r)"
      using receive thread_step.respond [OF th] by (auto simp: numeral_2_eq_2 relcompp_apply)
    moreover have "pr_calls (thread_respond jc io j ?r) i = Responded (response_of jc io i s)"
      using thread_responds [OF profiler_inv_receive [OF inv Receiving js] same(1) th]
      by (simp only: same(2))
    ultimately show ?thesis by blast
  qed (use invD(5,7) waiting in \<open>auto simp: open_requests_def\<close>)
qed

section \<open>After a call was dropped\<close>

text \<open>The request \<open>j\<close> of a dropped call is still to be answered, and only requests of older calls
  are before it; or the thread has ended.\<close>

definition doomed :: "nat set \<Rightarrow> nat \<Rightarrow> 'w profiler \<Rightarrow> bool" where
  "doomed old j s \<longleftrightarrow>
     pr_thread s = ThreadEnded \<or>
     (\<exists>us vs. open_requests s = us @ j # vs \<and> set us \<subseteq> old) \<and> pr_calls s j = Cancelled"

lemma doomedI:
  "open_requests s = us @ j # vs \<Longrightarrow> set us \<subseteq> old \<Longrightarrow> pr_calls s j = Cancelled \<Longrightarrow> doomed old j s"
  by (auto simp: doomed_def)

definition no_profile :: "profile_call \<Rightarrow> bool" where
  "no_profile c \<longleftrightarrow> (\<forall>p. c \<noteq> Responded (Inr p) \<and> c \<noteq> Returned (Inr p))"

lemma no_profile_simps [simp]:
  "no_profile NotCalled" "no_profile AwaitingResponse" "no_profile Cancelled" "no_profile Abandoned"
  "no_profile (Responded (Inl e))" "no_profile (Returned (Inl e))"
  "no_profile (Returned r) = no_profile (Responded r)"
  by (auto simp: no_profile_def)

lemma doomed_respond:
  assumes inv: "profiler_inv s" and d: "doomed old j s" and th: "pr_thread s = Collecting k"
    and np: "\<forall>i. i \<notin> old \<longrightarrow> no_profile (pr_calls s i)"
  shows "doomed old j (thread_respond jc io k s) \<and>
    (\<forall>i. i \<notin> old \<longrightarrow> no_profile (pr_calls (thread_respond jc io k s) i))"
proof -
  obtain r w where r: "collect_heap_profile jc io (pr_world s) = (r, w)"
    by (cases "collect_heap_profile jc io (pr_world s)")
  have reqs: "open_requests s = k # pr_requests s"
    by (simp add: open_requests_def th)
  from d th obtain us vs where us: "k # pr_requests s = us @ j # vs" "set us \<subseteq> old"
    and j: "pr_calls s j = Cancelled"
    by (auto simp: doomed_def reqs)
  show ?thesis
  proof (cases "pr_calls s k = AwaitingResponse")
    case True
    with j have "k \<noteq> j" by auto
    with us obtain us' where us': "us = k # us'" "pr_requests s = us' @ j # vs"
      by (cases us) auto
    let ?t = "thread_respond jc io k s"
    have t: "?t = set_call k (Responded r) (s\<lparr>pr_world := w, pr_thread := Receiving\<rparr>)"
      using True by (simp add: thread_respond_def r Let_def)
    have "open_requests ?t = us' @ j # vs"
      using us' by (simp add: t open_requests_def)
    with us us' j \<open>k \<noteq> j\<close> np show ?thesis
      by (auto simp: doomed_def t)
  next
    case False
    with np show ?thesis
      by (simp add: thread_respond_def r Let_def doomed_def fold_drop_request)
  qed
qed

lemma doomed_step:
  assumes step: "profiler_step jc io s t" and inv: "profiler_inv s" and d: "doomed old j s"
    and np: "\<forall>i. i \<notin> old \<longrightarrow> no_profile (pr_calls s i)"
  shows "doomed old j t \<and> (\<forall>i. i \<notin> old \<longrightarrow> no_profile (pr_calls t i))"
  using step
proof cases
  case (init settings r)
  note f = get_or_init_fields [OF init]
  have "pr_sender s \<noteq> None"
    using d profiler_invD(1,7) [OF inv] by (auto simp: doomed_def open_requests_def)
  with f have "open_requests t = open_requests s" "pr_thread t = pr_thread s" "pr_calls t = pr_calls s"
    by (auto simp: open_requests_def split: profile_thread.split)
  with d np show ?thesis by (simp add: doomed_def)
next
  case (call i)
  consider "pr_thread s = ThreadEnded"
    | us vs where "pr_thread s \<noteq> ThreadEnded" "open_requests s = us @ j # vs" "set us \<subseteq> old"
        "pr_calls s j = Cancelled"
    using d by (auto simp: doomed_def)
  then show ?thesis
  proof cases
    case 1
    with np show ?thesis
      unfolding call(1) heap_profile_begin_def by (auto simp: doomed_def split: option.splits)
  next
    case 2
    have "j \<noteq> i"
      using 2 call by auto
    have "open_requests (s\<lparr>pr_sender := x, pr_requests := pr_requests s @ [i]\<rparr>) = us @ j # (vs @ [i])" for x
      using 2(2) by (simp add: open_requests_def split: profile_thread.splits)
    then have "doomed old j (heap_profile_begin i s)"
      unfolding heap_profile_begin_def using 2 \<open>j \<noteq> i\<close>
      by (auto intro: doomedI split: option.split)
    with np show ?thesis
      unfolding call(1) heap_profile_begin_def by (auto split: option.splits)
  qed
next
  case (returns i r)
  then show ?thesis
    using d np [rule_format, of i] np by (auto simp: heap_profile_return_def doomed_def)
next
  case (dropped i)
  then show ?thesis
    using d np by (auto simp: heap_profile_dropped_def doomed_def call_open_def)
next
  case thread
  then show ?thesis
  proof cases
    case (receive i "is")
    then have "open_requests t = open_requests s" "pr_calls t = pr_calls s"
      by (simp_all add: open_requests_def thread_receive_def)
    with d np receive show ?thesis by (auto simp: doomed_def)
  next
    case (respond i)
    then show ?thesis using doomed_respond [OF inv d _ np] by simp
  qed
qed

lemma doomed_reachable:
  assumes "profiler_reachable jc io s t" and "profiler_inv s" "doomed old j s"
    and "\<forall>i. i \<notin> old \<longrightarrow> no_profile (pr_calls s i)"
  shows "doomed old j t \<and> (\<forall>i. i \<notin> old \<longrightarrow> no_profile (pr_calls t i))"
  using assms
proof (induction rule: profiler_reachable.induct)
  case (step t u)
  then show ?case
    using doomed_step [OF step.hyps(2) profiler_reachable_inv [OF step.hyps(1)]] by blast
qed simp

text \<open>C21: once a call has been dropped while its request was open, no call that begins after it ever
  gets a profile: the thread ends on the dropped request, or has ended, and is not started again.\<close>

theorem dropped_request_ends_profiling:
  assumes "profiler_reachable jc io (profiler_start w) s" and j: "pr_calls s j = Cancelled"
    and "profiler_reachable jc io s t" and i: "pr_calls s i = NotCalled"
  shows "pr_calls t i \<noteq> Responded (Inr p) \<and> pr_calls t i \<noteq> Returned (Inr p)"
proof -
  have inv: "profiler_inv s"
    by (rule profiler_reachable_inv [OF assms(1) profiler_inv_start])
  let ?old = "{k. pr_calls s k \<noteq> NotCalled}"
  have "set (open_requests s) \<subseteq> ?old"
    using profiler_invD(4) [OF inv] by fastforce
  have "doomed ?old j s"
  proof (cases "pr_thread s = ThreadEnded")
    case False
    then obtain us vs where us: "open_requests s = us @ j # vs"
      using profiler_invD(6) [OF inv j] split_list by fastforce
    with \<open>set (open_requests s) \<subseteq> ?old\<close> j show ?thesis
      by (intro doomedI [OF us]) auto
  qed (simp add: doomed_def)
  from doomed_reachable [OF assms(3) inv this] i show ?thesis
    by (simp add: no_profile_def)
qed


section \<open>Initialization that failed\<close>

lemma init_profiler_error:
  assumes "init_profiler jc settings s = (Some (Inl e), t)"
  shows "pr_sender t \<noteq> None"
  using assms
  by (auto simp: init_profiler_def Let_def split: if_splits option.splits bool.splits prod.splits sum.splits
      dest!: control_write_fields)

lemma get_or_init_no_profiler:
  assumes "get_or_init_with jc settings s = (r, t)" "pr_sender s \<noteq> None" "pr_profiler s \<noteq> Some True"
  shows "r \<noteq> Some (Inr True) \<and> pr_sender t \<noteq> None \<and> pr_profiler t \<noteq> Some True"
  using assms
  by (auto simp: get_or_init_with_def init_profiler_def split: if_splits option.splits bool.splits)

text \<open>C40: when initialization fails after the request sender was set, in any of the writes to
  jemalloc's controls, no later call of \<open>get_or_init_with\<close> returns a profiler, whatever its settings
  and whatever jemalloc then answers.\<close>

theorem failed_init_is_final:
  assumes init: "get_or_init_with jc settings s = (Some (Inl e), t)" and e: "e \<noteq> SampleIntervalOutOfRange"
    and "profiler_reachable jc' io t u"
  shows "fst (get_or_init_with jc' settings' u) \<noteq> Some (Inr True)"
proof -
  have "pr_profiler s = None" and i: "init_profiler jc settings s = (Some (Inl e), t)"
    using init e
    by (auto simp: get_or_init_with_def split: if_splits option.splits prod.splits sum.splits)
  then have t: "pr_sender t \<noteq> None \<and> pr_profiler t \<noteq> Some True"
    using init_profiler_error [OF i] init_profiler_fields [OF i] by simp
  have "pr_sender u \<noteq> None \<and> pr_profiler u \<noteq> Some True"
    using assms(3) t
  proof (induction rule: profiler_reachable.induct)
    case (step v u)
    then have v: "pr_sender v \<noteq> None" "pr_profiler v \<noteq> Some True" by blast+
    from step.hyps(2) show ?case
    proof cases
      case (init settings r)
      from get_or_init_no_profiler [OF this v] show ?thesis by blast
    next
      case (thread)
      then show ?thesis
        using v by cases (auto simp: thread_receive_def thread_respond_def Let_def split: prod.splits)
    qed (use v in \<open>auto simp: heap_profile_return_def heap_profile_dropped_def\<close>)
  qed
  then show ?thesis
    using get_or_init_no_profiler [of jc' settings' u]
    by (metis prod.collapse)
qed

section \<open>Instances\<close>

definition plain_jemalloc :: "unit jemalloc" where
  "plain_jemalloc = \<lparr>jc_profiling_enabled = (\<lambda>_. Some True), jc_write = (\<lambda>_ w. (Inr (), w))\<rparr>"

definition plain_files :: "unit file_system" where
  "plain_files = \<lparr>io_new_temp_file = (\<lambda>w. (Inr ''t'', w)), io_read_to_end = (\<lambda>_ w. (Inr ''heap'', w))\<rparr>"

definition initialized :: "unit profiler" where
  "initialized = snd (get_or_init_with plain_jemalloc \<lparr>ps_enabled = True, ps_sample_interval = 19\<rparr>
     (profiler_start ()))"

lemma initialized_is:
  "initialized = (profiler_start ())\<lparr>pr_profiler := Some True, pr_sender := Some None, pr_thread := Receiving\<rparr>"
  by (simp add: initialized_def get_or_init_with_def init_profiler_def control_write_def plain_jemalloc_def
      profiler_start_def Let_def)

lemma waiting_reachable:
  "profiler_reachable plain_jemalloc plain_files (profiler_start ()) (heap_profile_begin 0 initialized)"
proof -
  have "get_or_init_with plain_jemalloc \<lparr>ps_enabled = True, ps_sample_interval = 19\<rparr> (profiler_start ()) =
      (fst (get_or_init_with plain_jemalloc \<lparr>ps_enabled = True, ps_sample_interval = 19\<rparr> (profiler_start ())),
       initialized)"
    by (simp add: initialized_def)
  from profiler_step.init [OF this]
  have "profiler_reachable plain_jemalloc plain_files (profiler_start ()) initialized"
    by (rule profiler_reachable.step [OF profiler_reachable.start])
  then show ?thesis
    by (rule profiler_reachable.step, intro profiler_step.call)
      (simp_all add: initialized_is profiler_start_def)
qed

lemma begun_call:
  "heap_profile_begin 0 initialized =
     \<lparr>pr_profiler = Some True, pr_sender = Some (Some 0), pr_requests = [0], pr_thread = Receiving,
      pr_calls = (\<lambda>_. NotCalled)(0 := AwaitingResponse), pr_world = ()\<rparr>"
  by (simp add: initialized_is heap_profile_begin_def set_call_def profiler_start_def)

theorem waiting_profile_is_answered_witness:
  "\<exists>n\<le>2. \<exists>t. (thread_step plain_jemalloc plain_files ^^ n) (heap_profile_begin 0 initialized) t \<and>
     pr_calls t 0 = Responded (Inr ''heap'')"
proof -
  have "response_of plain_jemalloc plain_files 0 (heap_profile_begin 0 initialized) = Inr ''heap''"
    by (simp add: response_of_def next_request_def open_requests_def begun_call collect_heap_profile_def
        plain_files_def plain_jemalloc_def byte_in_def)
  with waiting_profile_is_answered [OF waiting_reachable, of 0] show ?thesis
    by (simp add: begun_call)
qed

theorem dropped_request_ends_profiling_witness:
  "pr_calls (heap_profile_begin 1 (thread_respond plain_jemalloc plain_files 0
     (thread_receive 0 [] (heap_profile_dropped 0 (heap_profile_begin 0 initialized))))) 1 \<noteq>
   Returned (Inr ''heap'')"
proof -
  let ?s = "heap_profile_dropped 0 (heap_profile_begin 0 initialized)"
  let ?r = "thread_receive 0 [] ?s"
  let ?e = "thread_respond plain_jemalloc plain_files 0 ?r"
  have s: "profiler_reachable plain_jemalloc plain_files (profiler_start ()) ?s"
    by (rule profiler_reachable.step [OF waiting_reachable], rule profiler_step.dropped)
      (simp add: begun_call)
  have r: "profiler_step plain_jemalloc plain_files ?s ?r"
    by (intro profiler_step.thread thread_step.receive)
      (simp_all add: begun_call heap_profile_dropped_def)
  have e: "profiler_step plain_jemalloc plain_files ?r ?e"
    by (intro profiler_step.thread thread_step.respond) (simp add: thread_receive_def)
  have c: "profiler_step plain_jemalloc plain_files ?e (heap_profile_begin 1 ?e)"
    by (intro profiler_step.call)
      (simp_all add: begun_call heap_profile_dropped_def thread_receive_def thread_respond_def Let_def
        split: prod.split)
  have "profiler_reachable plain_jemalloc plain_files ?s (heap_profile_begin 1 ?e)"
    by (intro profiler_reachable.step [OF _ c] profiler_reachable.step [OF _ e]
        profiler_reachable.step [OF _ r] profiler_reachable.start)
  from dropped_request_ends_profiling [OF s _ this, of 0 1 "''heap''"] show ?thesis
    by (simp add: begun_call heap_profile_dropped_def)
qed

definition failing_jemalloc :: "unit jemalloc" where
  "failing_jemalloc = plain_jemalloc\<lparr>jc_write := (\<lambda>c w. (if c = ProfActive True then Inl ''EPERM'' else Inr (), w))\<rparr>"

theorem failed_init_is_final_witness:
  "fst (get_or_init_with failing_jemalloc \<lparr>ps_enabled = True, ps_sample_interval = 19\<rparr> (profiler_start ())) =
     Some (Inl (ActivationFailed ''EPERM'')) \<and>
   fst (get_or_init_with plain_jemalloc \<lparr>ps_enabled = True, ps_sample_interval = 20\<rparr>
     (snd (get_or_init_with failing_jemalloc \<lparr>ps_enabled = True, ps_sample_interval = 19\<rparr> (profiler_start ())))) \<noteq>
     Some (Inr True)"
proof -
  let ?i = "get_or_init_with failing_jemalloc \<lparr>ps_enabled = True, ps_sample_interval = 19\<rparr> (profiler_start ())"
  have e: "fst ?i = Some (Inl (ActivationFailed ''EPERM''))"
    by (simp add: get_or_init_with_def init_profiler_def control_write_def failing_jemalloc_def
        plain_jemalloc_def profiler_start_def Let_def)
  then have "?i = (Some (Inl (ActivationFailed ''EPERM'')), snd ?i)"
    by (simp flip: e)
  from failed_init_is_final [where jc' = plain_jemalloc and io = plain_files, OF this _ profiler_reachable.start] e
  show ?thesis by simp
qed

end
