(* ===== verification/ServerShutdown.thy ===== *)
theory ServerShutdown
  imports MemoryProfiler
begin

text \<open>
  The telemetry server and the driver around it, \<open>telemetry/server/mod.rs\<close> and
  \<open>telemetry/driver.rs\<close>: how the server starts, its accept loop and the graceful shutdown with its
  two watch channels, and the driver that polls the server and the other telemetry futures.
  Sockets are a parameter. A connection is a task of its own that ends when it likes; the receivers
  of the watch channel that holds back the shutdown are counted. The lemmas show that the driver
  ends in order, after the signal and the last connection, and that it can always end.
\<close>

section \<open>Starting the server\<close>

datatype tcp_addr = AddrV4 string | AddrV6 string
datatype listen_addr = TcpAddr tcp_addr | UnixAddr string
datatype socket_domain = DomainIpv4 | DomainIpv6

datatype socket_call =
    NewSocket socket_domain
  | SetReuseAddress
  | SetReusePort
  | BindSocket tcp_addr
  | Listen nat
  | SetNonblocking
  | TokioFromStd
  | RemoveFile string
  | BindUnix string

record 'w sockets =
  so_call :: "socket_call \<Rightarrow> 'w \<Rightarrow> (string + unit) \<times> 'w"
  so_exists :: "string \<Rightarrow> 'w \<Rightarrow> bool"

text \<open>Calls in order, up to the first that fails.\<close>

fun socket_calls :: "'w sockets \<Rightarrow> socket_call list \<Rightarrow> 'w \<Rightarrow> (string + unit) \<times> 'w" where
  "socket_calls so [] w = (Inr (), w)"
| "socket_calls so (c # cs) w =
     (case so_call so c w of (Inl e, w) \<Rightarrow> (Inl e, w) | (Inr _, w) \<Rightarrow> socket_calls so cs w)"

definition bind_socket :: "'w sockets \<Rightarrow> tcp_addr \<Rightarrow> 'w \<Rightarrow> (string + unit) \<times> 'w" where
  "bind_socket so addr w =
     socket_calls so
       [NewSocket (case addr of AddrV4 _ \<Rightarrow> DomainIpv4 | AddrV6 _ \<Rightarrow> DomainIpv6),
        SetReuseAddress, SetReusePort, BindSocket addr, Listen 1024] w"

record server_settings =
  sv_enabled :: bool
  sv_addr :: listen_addr
  sv_memory_profiler :: profiler_settings

datatype server_error =
    ProfilerFailed server_profiler_error
  | RouterFailed string
  | BindTcpFailed tcp_addr string
  | ListenerFailed string
  | BindUnixFailed string string

definition on_world ::
  "('w \<Rightarrow> (string + unit) \<times> 'w) \<Rightarrow> 'w profiler \<Rightarrow> (string + unit) \<times> 'w profiler" where
  "on_world f s = (case f (pr_world s) of (r, w) \<Rightarrow> (r, s\<lparr>pr_world := w\<rparr>))"

text \<open>The listener, with the warning of a stale socket file that stays.\<close>

definition open_listener ::
  "'w sockets \<Rightarrow> listen_addr \<Rightarrow> 'w profiler \<Rightarrow> (server_error + unit) \<times> string list \<times> 'w profiler" where
  "open_listener so addr s =
     (case addr of
        TcpAddr a \<Rightarrow>
          (case on_world (bind_socket so a) s of
             (Inl e, s) \<Rightarrow> (Inl (BindTcpFailed a e), [], s)
           | (Inr _, s) \<Rightarrow>
               (case on_world (socket_calls so [SetNonblocking, TokioFromStd]) s of
                  (Inl e, s) \<Rightarrow> (Inl (ListenerFailed e), [], s)
                | (Inr _, s) \<Rightarrow> (Inr (), [], s)))
      | UnixAddr path \<Rightarrow>
          (case (if so_exists so path (pr_world s) then on_world (so_call so (RemoveFile path)) s
                 else (Inr (), s)) of
             (removed, s) \<Rightarrow>
               let warned = (case removed of Inl e \<Rightarrow> [e] | Inr _ \<Rightarrow> []) in
               (case on_world (so_call so (BindUnix path)) s of
                  (Inl e, s) \<Rightarrow> (Inl (BindUnixFailed path e), warned, s)
                | (Inr _, s) \<Rightarrow> (Inr (), warned, s))))"

text \<open>\<open>TelemetryServerFuture::new\<close>: \<open>profiling\<close> is the \<open>memory-profiling\<close> feature on Linux, \<open>router\<close>
  what \<open>Router::new\<close> returns. The result tells whether there is a server.\<close>

definition server_new ::
  "'w sockets \<Rightarrow> 'w jemalloc \<Rightarrow> bool \<Rightarrow> string + unit \<Rightarrow> server_settings \<Rightarrow> 'w profiler \<Rightarrow>
   (server_error + bool) option \<times> string list \<times> 'w profiler" where
  "server_new so jc profiling router settings s =
     (if \<not> sv_enabled settings then (Some (Inr False), [], s)
      else
        (case (if profiling \<and> ps_enabled (sv_memory_profiler settings)
               then server_profiler jc (sv_memory_profiler settings) s else (Some (Inr ()), s)) of
           (None, s) \<Rightarrow> (None, [], s)
         | (Some (Inl e), s) \<Rightarrow> (Some (Inl (ProfilerFailed e)), [], s)
         | (Some (Inr _), s) \<Rightarrow>
             (case router of
                Inl e \<Rightarrow> (Some (Inl (RouterFailed e)), [], s)
              | Inr _ \<Rightarrow>
                  (case open_listener so (sv_addr settings) s of
                     (Inl e, warned, s) \<Rightarrow> (Some (Inl e), warned, s)
                   | (Inr _, warned, s) \<Rightarrow> (Some (Inr True), warned, s)))))"

text \<open>\<open>TelemetryListener::local_addr\<close>, on what the socket tells of its address; a Unix socket may
  have no path.\<close>

datatype socket_name = TcpName tcp_addr | UnixName "string option"

definition listener_local_addr :: "string + socket_name \<Rightarrow> string + listen_addr" where
  "listener_local_addr name =
     (case name of
        Inl e \<Rightarrow> Inl e
      | Inr (TcpName a) \<Rightarrow> Inr (TcpAddr a)
      | Inr (UnixName (Some path)) \<Rightarrow> Inr (UnixAddr path)
      | Inr (UnixName None) \<Rightarrow> Inl ''unix socket listener has no pathname'')"

section \<open>Connections\<close>

text \<open>A connection task: detached when \<open>poll\<close> spawned it, otherwise it serves, was told to shut down,
  or has ended and dropped its receiver of the close channel.\<close>

datatype connection = Detached | Serving | ShuttingDown | ConnectionEnded

text \<open>What runs the server: nothing, the driver by \<open>poll\<close>, or \<open>with_graceful_shutdown\<close> with the number
  of its signal: in its loop, waiting for the close channel, or returned.\<close>

datatype server_phase = NoServer | Polled | Accepting nat | Closing nat | Closed nat

record shutdown_world =
  sw_signals :: "nat \<Rightarrow> bool"
  sw_phase :: server_phase
  sw_connections :: "connection list"
  sw_close_receivers :: nat
  sw_warnings :: nat
  sw_others :: "nat \<Rightarrow> (string + unit) option"

text \<open>\<open>TelemetryServerFuture::poll\<close> on the results of \<open>poll_accept\<close> up to the pending one.\<close>

fun server_poll :: "(string + unit) list \<Rightarrow> shutdown_world \<Rightarrow> shutdown_world" where
  "server_poll [] w = w"
| "server_poll (Inr _ # accepts) w =
     server_poll accepts (w\<lparr>sw_connections := sw_connections w @ [Detached]\<rparr>)"
| "server_poll (Inl _ # accepts) w = server_poll accepts (w\<lparr>sw_warnings := sw_warnings w + 1\<rparr>)"

text \<open>\<open>with_graceful_shutdown\<close> of the server: its start, one round of the loop, the end of the loop,
  and the two events of a connection task.\<close>

definition graceful_begin :: "nat \<Rightarrow> shutdown_world \<Rightarrow> shutdown_world" where
  "graceful_begin n w = w\<lparr>sw_phase := Accepting n, sw_close_receivers := 1\<rparr>"

definition graceful_accept :: "string + unit \<Rightarrow> shutdown_world \<Rightarrow> shutdown_world" where
  "graceful_accept conn w =
     (case conn of
        Inl _ \<Rightarrow> w\<lparr>sw_warnings := sw_warnings w + 1\<rparr>
      | Inr _ \<Rightarrow> w\<lparr>sw_connections := sw_connections w @ [Serving],
                 sw_close_receivers := sw_close_receivers w + 1\<rparr>)"

definition graceful_break :: "nat \<Rightarrow> shutdown_world \<Rightarrow> shutdown_world" where
  "graceful_break n w = w\<lparr>sw_phase := Closing n, sw_close_receivers := sw_close_receivers w - 1\<rparr>"

definition connection_graceful_shutdown :: "nat \<Rightarrow> shutdown_world \<Rightarrow> shutdown_world" where
  "connection_graceful_shutdown i w = w\<lparr>sw_connections := (sw_connections w)[i := ShuttingDown]\<rparr>"

definition connection_break :: "nat \<Rightarrow> shutdown_world \<Rightarrow> shutdown_world" where
  "connection_break i w =
     w\<lparr>sw_connections := (sw_connections w)[i := ConnectionEnded],
       sw_close_receivers := sw_close_receivers w - 1\<rparr>"

definition live_connection :: "connection \<Rightarrow> bool" where
  "live_connection c \<longleftrightarrow> c = Serving \<or> c = ShuttingDown"

text \<open>\<open>tokio::select!\<close> takes any branch that is ready.\<close>

inductive server_step :: "shutdown_world \<Rightarrow> shutdown_world \<Rightarrow> bool" where
  signal: "server_step w (w\<lparr>sw_signals := (sw_signals w)(n := True)\<rparr>)"
| other: "sw_others w i = None \<Longrightarrow> server_step w (w\<lparr>sw_others := (sw_others w)(i \<mapsto> r)\<rparr>)"
| accept: "sw_phase w = Accepting n \<Longrightarrow> server_step w (graceful_accept conn w)"
| stop: "sw_phase w = Accepting n \<Longrightarrow> sw_signals w n \<Longrightarrow> server_step w (graceful_break n w)"
| shutdown: "sw_phase w \<in> {Accepting n, Closing n, Closed n} \<Longrightarrow> sw_signals w n \<Longrightarrow>
    i < length (sw_connections w) \<Longrightarrow> sw_connections w ! i = Serving \<Longrightarrow>
    server_step w (connection_graceful_shutdown i w)"
| ended: "i < length (sw_connections w) \<Longrightarrow> live_connection (sw_connections w ! i) \<Longrightarrow>
    server_step w (connection_break i w)"
| closed: "sw_phase w = Closing n \<Longrightarrow> sw_close_receivers w = 0 \<Longrightarrow>
    server_step w (w\<lparr>sw_phase := Closed n\<rparr>)"

section \<open>The driver\<close>

text \<open>The futures in \<open>tele_futures\<close>: the server with its shutdown, a bare signal, and those that
  telemetry's initialization pushes.\<close>

datatype driver_future = ServerFuture | SignalFuture nat | OtherFuture nat

datatype poll = Pending | Ready "string + unit"

record telemetry_driver =
  td_server_addr :: "listen_addr option"
  td_server :: bool
  td_logging_guard :: "nat option"
  td_futures :: "driver_future list"

definition driver_new :: "(string + listen_addr) option \<Rightarrow> nat list \<Rightarrow> telemetry_driver" where
  "driver_new server_fut others =
     \<lparr>td_server_addr = (case server_fut of Some (Inr a) \<Rightarrow> Some a | _ \<Rightarrow> None),
      td_server = (server_fut \<noteq> None), td_logging_guard = None,
      td_futures = map OtherFuture others\<rparr>"

definition set_logging_guard :: "nat option \<Rightarrow> telemetry_driver \<Rightarrow> telemetry_driver" where
  "set_logging_guard guard d = d\<lparr>td_logging_guard := guard\<rparr>"

text \<open>The guard that is dropped, which waits for the records to be written.\<close>

definition shutdown_logger :: "telemetry_driver \<Rightarrow> nat option \<times> telemetry_driver" where
  "shutdown_logger d = (td_logging_guard d, d\<lparr>td_logging_guard := None\<rparr>)"

definition driver_with_graceful_shutdown ::
  "nat \<Rightarrow> telemetry_driver \<Rightarrow> shutdown_world \<Rightarrow> telemetry_driver \<times> shutdown_world" where
  "driver_with_graceful_shutdown n d w =
     (if td_server d
      then (d\<lparr>td_server := False, td_futures := td_futures d @ [ServerFuture]\<rparr>, graceful_begin n w)
      else (d\<lparr>td_futures := td_futures d @ [SignalFuture n]\<rparr>, w))"

fun future_result :: "shutdown_world \<Rightarrow> driver_future \<Rightarrow> (string + unit) option" where
  "future_result w ServerFuture = (case sw_phase w of Closed _ \<Rightarrow> Some (Inr ()) | _ \<Rightarrow> None)"
| "future_result w (SignalFuture n) = (if sw_signals w n then Some (Inr ()) else None)"
| "future_result w (OtherFuture i) = sw_others w i"

text \<open>\<open>poll_next\<close> of \<open>FuturesUnordered\<close> takes any future that is ready; \<open>poll_futures\<close> is the loop of
  \<open>poll\<close>, whose end for no futures is the result of the server.\<close>

inductive poll_futures ::
  "shutdown_world \<Rightarrow> poll \<Rightarrow> driver_future list \<Rightarrow> poll \<Rightarrow> driver_future list \<Rightarrow> bool"
  for w server_res where
  exhausted: "poll_futures w server_res [] server_res []"
| pending: "fs \<noteq> [] \<Longrightarrow> \<forall>f\<in>set fs. future_result w f = None \<Longrightarrow> poll_futures w server_res fs Pending fs"
| error: "f \<in> set fs \<Longrightarrow> future_result w f = Some (Inl e) \<Longrightarrow>
    poll_futures w server_res fs (Ready (Inl e)) (remove1 f fs)"
| continue: "f \<in> set fs \<Longrightarrow> future_result w f = Some (Inr ()) \<Longrightarrow>
    poll_futures w server_res (remove1 f fs) r fs' \<Longrightarrow> poll_futures w server_res fs r fs'"

inductive driver_poll ::
  "(string + unit) list \<Rightarrow> telemetry_driver \<times> shutdown_world \<Rightarrow> poll \<Rightarrow>
   telemetry_driver \<times> shutdown_world \<Rightarrow> bool" where
  served: "td_server d \<Longrightarrow> poll_futures (server_poll accepts w) Pending (td_futures d) r fs \<Longrightarrow>
    driver_poll accepts (d, w) r (d\<lparr>td_futures := fs\<rparr>, server_poll accepts w)"
| unserved: "\<not> td_server d \<Longrightarrow> poll_futures w (Ready (Inr ())) (td_futures d) r fs \<Longrightarrow>
    driver_poll accepts (d, w) r (d\<lparr>td_futures := fs\<rparr>, w)"

text \<open>The life of a driver, until a poll is ready.\<close>

definition world_new :: "bool \<Rightarrow> shutdown_world" where
  "world_new served =
     \<lparr>sw_signals = (\<lambda>_. False), sw_phase = (if served then Polled else NoServer), sw_connections = [],
      sw_close_receivers = 0, sw_warnings = 0, sw_others = (\<lambda>_. None)\<rparr>"

inductive driver_reachable ::
  "(string + listen_addr) option \<Rightarrow> nat list \<Rightarrow> telemetry_driver \<times> shutdown_world \<Rightarrow> bool"
  for server_fut others where
  start: "driver_reachable server_fut others
    (driver_new server_fut others, world_new (server_fut \<noteq> None))"
| shutdown: "driver_reachable server_fut others (d, w) \<Longrightarrow>
    driver_reachable server_fut others (driver_with_graceful_shutdown n d w)"
| progress: "driver_reachable server_fut others (d, w) \<Longrightarrow> server_step w w' \<Longrightarrow>
    driver_reachable server_fut others (d, w')"
| poll: "driver_reachable server_fut others (d, w) \<Longrightarrow> driver_poll accepts (d, w) Pending (d', w') \<Longrightarrow>
    driver_reachable server_fut others (d', w')"

inductive_cases server_stepE: "server_step w w'"
inductive_cases driver_pollE: "driver_poll accepts (d, w) r (d', w')"


section \<open>The invariant\<close>

abbreviation live_connections :: "shutdown_world \<Rightarrow> connection list" where
  "live_connections w \<equiv> filter live_connection (sw_connections w)"

fun main_receiver :: "server_phase \<Rightarrow> nat" where
  "main_receiver (Accepting n) = 1"
| "main_receiver _ = 0"

definition phase_ok :: "shutdown_world \<Rightarrow> bool" where
  "phase_ok w \<longleftrightarrow>
     (case sw_phase w of
        NoServer \<Rightarrow> live_connections w = []
      | Polled \<Rightarrow> live_connections w = []
      | Accepting n \<Rightarrow> True
      | Closing n \<Rightarrow> sw_signals w n
      | Closed n \<Rightarrow> sw_signals w n \<and> live_connections w = [])"

definition world_inv :: "shutdown_world \<Rightarrow> bool" where
  "world_inv w \<longleftrightarrow>
     sw_close_receivers w = main_receiver (sw_phase w) + length (live_connections w) \<and> phase_ok w"

lemma live_connection_simps [simp]:
  "live_connection Serving" "live_connection ShuttingDown"
  "\<not> live_connection Detached" "\<not> live_connection ConnectionEnded"
  by (simp_all add: live_connection_def)

lemma length_filter_update:
  "i < length xs \<Longrightarrow> P (xs ! i) \<Longrightarrow>
     length (filter P (xs[i := y])) + 1 = length (filter P xs) + (if P y then 1 else 0)"
  by (induction xs arbitrary: i) (auto split: nat.split simp: nth_Cons')

lemmas live_update = length_filter_update [where P = live_connection]

lemma length_filter_live:
  assumes "i < length (sw_connections w)" "live_connection (sw_connections w ! i)"
  shows "0 < length (live_connections w)"
  using assms by (auto simp: filter_empty_conv intro!: bexI [of _ "sw_connections w ! i"])

lemma live_update_Nil:
  assumes "filter live_connection cs = []"
  shows "filter live_connection (cs[i := ConnectionEnded]) = []"
  using assms set_update_subset_insert [of cs i ConnectionEnded] by (auto simp: filter_empty_conv)

lemma world_inv_connection:
  assumes inv: "world_inv w" and i: "i < length (sw_connections w)" "live_connection (sw_connections w ! i)"
  shows "world_inv (connection_graceful_shutdown i w)" and "world_inv (connection_break i w)"
proof -
  have some: "live_connections w \<noteq> []"
    using length_filter_live [OF i] by simp
  show "world_inv (connection_graceful_shutdown i w)"
    using inv i some live_update [OF i, of ShuttingDown]
    by (auto simp: world_inv_def connection_graceful_shutdown_def phase_ok_def split: server_phase.splits)
  show "world_inv (connection_break i w)"
    using inv i some live_update [OF i, of ConnectionEnded] length_filter_live [OF i]
    by (auto simp: world_inv_def connection_break_def phase_ok_def split: server_phase.splits)
qed

lemma world_inv_step: "server_step w w' \<Longrightarrow> world_inv w \<Longrightarrow> world_inv w'"
proof (induction rule: server_step.induct)
  case (signal w n)
  then show ?case by (auto simp: world_inv_def phase_ok_def split: server_phase.splits)
next
  case (other w i r)
  then show ?case by (auto simp: world_inv_def phase_ok_def split: server_phase.splits)
next
  case (accept w n conn)
  then show ?case
    by (auto simp: world_inv_def phase_ok_def graceful_accept_def split: sum.splits)
next
  case (stop w n)
  then show ?case by (auto simp: world_inv_def phase_ok_def graceful_break_def)
next
  case (shutdown w n i)
  then show ?case by (intro world_inv_connection) auto
next
  case (ended i w)
  then show ?case by (intro world_inv_connection) auto
next
  case (closed w n)
  then show ?case by (auto simp: world_inv_def phase_ok_def)
qed

lemma server_step_phase:
  "server_step w w' \<Longrightarrow> (sw_phase w' = NoServer \<longleftrightarrow> sw_phase w = NoServer) \<and>
     (sw_phase w' = Polled \<longleftrightarrow> sw_phase w = Polled)"
  by (induction rule: server_step.induct)
    (auto simp: graceful_accept_def graceful_break_def connection_graceful_shutdown_def connection_break_def
      split: sum.split)

lemmas server_op_defs = graceful_accept_def graceful_break_def connection_graceful_shutdown_def
  connection_break_def

lemma server_step_signals: "server_step w w' \<Longrightarrow> sw_signals w n \<Longrightarrow> sw_signals w' n"
  by (induction rule: server_step.induct) (simp_all add: server_op_defs split: sum.split)

lemma server_step_others: "server_step w w' \<Longrightarrow> sw_others w i = Some r \<Longrightarrow> sw_others w' i = Some r"
  by (induction rule: server_step.induct) (auto simp: server_op_defs split: sum.split)

lemma server_step_closed: "server_step w w' \<Longrightarrow> sw_phase w = Closed n \<Longrightarrow> sw_phase w' = Closed n"
  by (induction rule: server_step.induct) (simp_all add: server_op_defs split: sum.split)

lemma server_step_results:
  assumes "server_step w w'" "future_result w f = Some r"
  shows "future_result w' f = Some r"
proof (cases f)
  case ServerFuture
  then show ?thesis
    using assms server_step_closed [OF assms(1)] by (auto split: server_phase.splits)
next
  case (SignalFuture n)
  then show ?thesis
    using assms server_step_signals [OF assms(1)] by (auto split: if_splits)
next
  case (OtherFuture i)
  then show ?thesis
    using assms server_step_others [OF assms(1)] by simp
qed

lemma server_poll_fields:
  "sw_phase (server_poll accepts w) = sw_phase w \<and> sw_signals (server_poll accepts w) = sw_signals w \<and>
   sw_others (server_poll accepts w) = sw_others w \<and>
   sw_close_receivers (server_poll accepts w) = sw_close_receivers w \<and>
   live_connections (server_poll accepts w) = live_connections w"
  by (induction accepts w rule: server_poll.induct) auto

lemma server_poll_result [simp]: "future_result (server_poll accepts w) f = future_result w f"
  by (cases f) (simp_all add: server_poll_fields)

section \<open>The driver and its futures\<close>

text \<open>A future of the driver is in its set until it has completed.\<close>

definition future_kept :: "telemetry_driver \<Rightarrow> shutdown_world \<Rightarrow> driver_future \<Rightarrow> bool" where
  "future_kept d w f \<longleftrightarrow> f \<in> set (td_futures d) \<or> future_result w f = Some (Inr ())"

definition driver_inv ::
  "(string + listen_addr) option \<Rightarrow> nat list \<Rightarrow> telemetry_driver \<times> shutdown_world \<Rightarrow> bool" where
  "driver_inv server_fut others dw \<longleftrightarrow>
     (case dw of (d, w) \<Rightarrow>
        world_inv w \<and> (td_server d \<longleftrightarrow> sw_phase w = Polled) \<and>
        (server_fut = None \<longleftrightarrow> sw_phase w = NoServer) \<and>
        (sw_phase w \<noteq> NoServer \<and> sw_phase w \<noteq> Polled \<longrightarrow> future_kept d w ServerFuture) \<and>
        (ServerFuture \<in> set (td_futures d) \<longrightarrow> sw_phase w \<noteq> NoServer \<and> sw_phase w \<noteq> Polled) \<and>
        (\<forall>i\<in>set others. future_kept d w (OtherFuture i)))"

lemma poll_futures_kept:
  "poll_futures w res fs r fs' \<Longrightarrow> r = Pending \<Longrightarrow> f \<in> set fs \<Longrightarrow>
     f \<in> set fs' \<or> future_result w f = Some (Inr ())"
proof (induction rule: poll_futures.induct)
  case (continue g fs r fs')
  then show ?case by (cases "f = g") (auto simp: in_set_remove1)
qed auto

lemma poll_futures_subset: "poll_futures w res fs r fs' \<Longrightarrow> set fs' \<subseteq> set fs"
  by (induction rule: poll_futures.induct) (use set_remove1_subset in \<open>fastforce+\<close>)

lemma poll_futures_ready:
  "poll_futures w res fs r fs' \<Longrightarrow> r = Ready (Inr ()) \<Longrightarrow>
     res = Ready (Inr ()) \<and> (\<forall>f\<in>set fs. future_result w f = Some (Inr ()))"
proof (induction rule: poll_futures.induct)
  case (continue g fs r fs')
  have "future_result w f = Some (Inr ())" if "f \<in> set fs" for f
    using continue that by (cases "f = g") (auto simp: in_set_remove1)
  with continue show ?case by blast
qed auto

lemma poll_futures_all_ready:
  "\<forall>f\<in>set fs. future_result w f = Some (Inr ()) \<Longrightarrow> poll_futures w res fs res []"
proof (induction fs)
  case (Cons f fs)
  show ?case
    by (rule poll_futures.continue [of f]) (use Cons in simp_all)
qed (rule poll_futures.exhausted)

lemma driver_inv_reachable:
  "driver_reachable server_fut others dw \<Longrightarrow> driver_inv server_fut others dw"
proof (induction rule: driver_reachable.induct)
  case start
  then show ?case
    by (auto simp: driver_inv_def driver_new_def world_new_def world_inv_def phase_ok_def future_kept_def)
next
  case (shutdown d w n)
  have kept: "future_kept (d\<lparr>td_server := b, td_futures := td_futures d @ fs\<rparr>) v (OtherFuture i)"
    if "future_kept d w (OtherFuture i)" "sw_others v = sw_others w" for b fs v i
    using that by (auto simp: future_kept_def)
  show ?case
  proof (cases "td_server d")
    case True
    with shutdown.IH kept show ?thesis
      by (auto simp: driver_inv_def driver_with_graceful_shutdown_def graceful_begin_def world_inv_def
          phase_ok_def future_kept_def)
  next
    case False
    with shutdown.IH show ?thesis
      by (auto simp: driver_inv_def driver_with_graceful_shutdown_def future_kept_def)
  qed
next
  case (progress d w w')
  note phase = server_step_phase [OF progress.hyps(2)]
  have kept: "future_kept d w' f" if "future_kept d w f" for f
    using that server_step_results [OF progress.hyps(2)] by (auto simp: future_kept_def)
  show ?case
    using progress.IH phase kept world_inv_step [OF progress.hyps(2)] by (auto simp: driver_inv_def)
next
  case (poll d w accepts d' w')
  have "world_inv w'" if "world_inv w"
    using poll.hyps(2) that
    by cases (auto simp: world_inv_def phase_ok_def server_poll_fields split: server_phase.splits)
  moreover have "sw_phase w' = sw_phase w \<and> td_server d' = td_server d"
    using poll.hyps(2) by cases (auto simp: server_poll_fields)
  moreover have "future_kept d' w' f" if "future_kept d w f" for f
    using poll.hyps(2) that
    by cases (auto simp: future_kept_def dest: poll_futures_kept)
  moreover have "set (td_futures d') \<subseteq> set (td_futures d)"
    using poll.hyps(2) by cases (auto dest: poll_futures_subset)
  ultimately show ?case
    using poll.IH by (auto simp: driver_inv_def)
qed


section \<open>Orderly shutdown\<close>

text \<open>C19: when a poll of the driver ends it without an error, then every future that initialization
  gave it has completed without an error; every signal it was to wait for has fired; and if there is
  a telemetry server, it was told to shut down, its signal has fired, and no connection that it
  accepted since is still open.\<close>

theorem driver_ends_in_order:
  assumes "driver_reachable server_fut others (d, w)"
    and "driver_poll accepts (d, w) (Ready (Inr ())) (d', w')"
  shows "(\<forall>i\<in>set others. sw_others w i = Some (Inr ())) \<and>
    (\<forall>n. SignalFuture n \<in> set (td_futures d) \<longrightarrow> sw_signals w n) \<and>
    (server_fut \<noteq> None \<longrightarrow>
       (\<exists>n. sw_phase w = Closed n \<and> sw_signals w n) \<and>
       (\<forall>c\<in>set (sw_connections w). \<not> live_connection c))"
proof -
  have inv: "driver_inv server_fut others (d, w)"
    by (rule driver_inv_reachable [OF assms(1)])
  have unserved: "\<not> td_server d" and ready: "\<forall>f\<in>set (td_futures d). future_result w f = Some (Inr ())"
    using assms(2) by (auto elim!: driver_pollE dest!: poll_futures_ready)
  have kept: "future_result w f = Some (Inr ())" if "future_kept d w f" for f
    using that ready by (auto simp: future_kept_def)
  have others: "\<forall>i\<in>set others. sw_others w i = Some (Inr ())"
    using inv kept by (fastforce simp: driver_inv_def)
  have signals: "\<forall>n. SignalFuture n \<in> set (td_futures d) \<longrightarrow> sw_signals w n"
    using ready by (fastforce split: if_splits)
  have "\<exists>n. sw_phase w = Closed n" if "server_fut \<noteq> None"
    using inv that unserved kept [of ServerFuture]
    by (auto simp: driver_inv_def split: server_phase.splits)
  moreover have "sw_signals w n \<and> live_connections w = []" if "sw_phase w = Closed n" for n
    using inv that by (simp add: driver_inv_def world_inv_def phase_ok_def)
  ultimately show ?thesis
    using others signals by (auto simp: filter_empty_conv)
qed

text \<open>It can always end so.\<close>

lemma signals_can_fire:
  "server_step\<^sup>*\<^sup>* w (w\<lparr>sw_signals := (\<lambda>n. n \<in> set ns \<or> sw_signals w n)\<rparr>)"
proof (induction ns)
  case (Cons n ns)
  let ?w = "w\<lparr>sw_signals := (\<lambda>n. n \<in> set ns \<or> sw_signals w n)\<rparr>"
  have "(sw_signals ?w)(n := True) = (\<lambda>m. m \<in> set (n # ns) \<or> sw_signals w m)"
    by auto
  with server_step.signal [of ?w n] show ?case
    by (intro rtranclp.rtrancl_into_rtrancl [OF Cons.IH]) simp
qed simp

lemma others_can_complete:
  "server_step\<^sup>*\<^sup>* w (w\<lparr>sw_others := (\<lambda>i. if i \<in> set is \<and> sw_others w i = None then Some (Inr ()) else sw_others w i)\<rparr>)"
proof (induction "is")
  case (Cons j "is")
  let ?o = "\<lambda>is i. if i \<in> set is \<and> sw_others w i = None then Some (Inr ()) else sw_others w i"
  show ?case
  proof (cases "?o is j")
    case None
    then have "(?o is)(j \<mapsto> Inr ()) = ?o (j # is)"
      by (auto split: if_splits)
    with None server_step.other [of "w\<lparr>sw_others := ?o is\<rparr>" j "Inr ()"] show ?thesis
      by (intro rtranclp.rtrancl_into_rtrancl [OF Cons.IH]) simp
  next
    case (Some r)
    then have "?o is = ?o (j # is)"
      by (auto simp: fun_eq_iff split: if_splits)
    with Cons.IH show ?thesis by simp
  qed
qed simp

lemma connections_can_end:
  "\<exists>cs. filter live_connection cs = [] \<and>
     server_step\<^sup>*\<^sup>* w (w\<lparr>sw_connections := cs,
       sw_close_receivers := sw_close_receivers w - length (live_connections w)\<rparr>)"
proof (induction "length (live_connections w)" arbitrary: w)
  case 0
  then show ?case by (intro exI [of _ "sw_connections w"]) simp
next
  case (Suc n)
  then have "live_connections w \<noteq> []" by auto
  then obtain i where i: "i < length (sw_connections w)" "live_connection (sw_connections w ! i)"
    by (auto simp: filter_empty_conv in_set_conv_nth)
  let ?w = "connection_break i w"
  have n: "n = length (live_connections ?w)"
    using live_update [OF i, of ConnectionEnded] Suc.hyps(2) by (simp add: connection_break_def)
  from Suc.hyps(1) [OF n] obtain cs where cs: "filter live_connection cs = []"
      "server_step\<^sup>*\<^sup>* ?w (?w\<lparr>sw_connections := cs,
         sw_close_receivers := sw_close_receivers ?w - length (live_connections ?w)\<rparr>)"
    by (elim exE conjE)
  moreover have "?w\<lparr>sw_connections := cs,
         sw_close_receivers := sw_close_receivers ?w - length (live_connections ?w)\<rparr> =
      w\<lparr>sw_connections := cs, sw_close_receivers := sw_close_receivers w - length (live_connections w)\<rparr>"
    using n Suc.hyps(2) by (simp add: connection_break_def)
  ultimately show ?case
    using converse_rtranclp_into_rtranclp [of server_step, OF server_step.ended [OF i]] by metis
qed

lemma server_can_close:
  assumes inv: "world_inv w" and "sw_phase w \<in> {Accepting n, Closing n, Closed n}" and "sw_signals w n"
  shows "\<exists>w'. server_step\<^sup>*\<^sup>* w w' \<and> sw_phase w' = Closed n"
proof -
  have closing: "\<exists>w'. server_step\<^sup>*\<^sup>* v w' \<and> sw_phase w' = Closed n"
    if "world_inv v" "sw_phase v = Closing n" for v
  proof -
    from connections_can_end [of v] obtain cs where cs: "filter live_connection cs = []"
      "server_step\<^sup>*\<^sup>* v (v\<lparr>sw_connections := cs,
         sw_close_receivers := sw_close_receivers v - length (live_connections v)\<rparr>)"
      by (elim exE conjE)
    let ?v = "v\<lparr>sw_connections := cs,
         sw_close_receivers := sw_close_receivers v - length (live_connections v)\<rparr>"
    have "server_step ?v (?v\<lparr>sw_phase := Closed n\<rparr>)"
      using that by (intro server_step.closed) (simp_all add: world_inv_def)
    with cs(2) show ?thesis
      by (intro exI [of _ "?v\<lparr>sw_phase := Closed n\<rparr>"]) (simp add: rtranclp.rtrancl_into_rtrancl)
  qed
  consider "sw_phase w = Accepting n" | "sw_phase w = Closing n" | "sw_phase w = Closed n"
    using assms(2) by auto
  then show ?thesis
  proof cases
    case 1
    note stop = server_step.stop [OF 1 assms(3)]
    have "sw_phase (graceful_break n w) = Closing n"
      by (simp add: graceful_break_def)
    from closing [OF world_inv_step [OF stop inv] this] show ?thesis
      using converse_rtranclp_into_rtranclp [of server_step, OF stop] by blast
  next
    case 2
    then show ?thesis by (rule closing [OF inv])
  next
    case 3
    then show ?thesis by blast
  qed
qed

lemma server_steps_reach:
  "server_step\<^sup>*\<^sup>* w w' \<Longrightarrow> driver_reachable server_fut others (d, w) \<Longrightarrow>
     driver_reachable server_fut others (d, w')"
  by (induction rule: rtranclp_induct) (auto intro: driver_reachable.progress)

lemma server_steps_results:
  "server_step\<^sup>*\<^sup>* w w' \<Longrightarrow> future_result w f = Some r \<Longrightarrow> future_result w' f = Some r"
  by (induction rule: rtranclp_induct) (auto intro: server_step_results)

text \<open>C20: a driver that was told to shut down, or has no server, can always end without an error,
  unless one of its futures already has one: from whatever state the server, its connections and
  the other futures are in, their next steps can lead to a poll that is ready.\<close>

theorem driver_can_end:
  assumes reach: "driver_reachable server_fut others (d, w)" and "\<not> td_server d"
    and ok: "\<forall>f\<in>set (td_futures d). \<forall>e. future_result w f \<noteq> Some (Inl e)"
  shows "\<exists>w' d'. server_step\<^sup>*\<^sup>* w w' \<and> driver_poll [] (d, w') (Ready (Inr ())) (d', w')"
proof -
  obtain os where os: "\<And>i. OtherFuture i \<in> set (td_futures d) \<Longrightarrow> i \<in> set os"
    using that [of "map (\<lambda>f. case f of OtherFuture i \<Rightarrow> i | _ \<Rightarrow> 0) (td_futures d)"] by force
  define ns where
    "ns = (case sw_phase w of Accepting n \<Rightarrow> n | Closing n \<Rightarrow> n | Closed n \<Rightarrow> n | _ \<Rightarrow> 0)
       # map (\<lambda>f. case f of SignalFuture n \<Rightarrow> n | _ \<Rightarrow> 0) (td_futures d)"
  have ns: "\<And>n. SignalFuture n \<in> set (td_futures d) \<Longrightarrow> n \<in> set ns"
    and current: "\<And>n. sw_phase w \<in> {Accepting n, Closing n, Closed n} \<Longrightarrow> n \<in> set ns"
    by (force simp: ns_def)+
  let ?v = "w\<lparr>sw_signals := (\<lambda>n. n \<in> set ns \<or> sw_signals w n)\<rparr>"
  let ?u = "?v\<lparr>sw_others := (\<lambda>i. if i \<in> set os \<and> sw_others ?v i = None then Some (Inr ()) else sw_others ?v i)\<rparr>"
  have steps: "server_step\<^sup>*\<^sup>* w ?u"
    using signals_can_fire [of w ns] others_can_complete [of ?v os] by (rule rtranclp_trans)
  have inv: "driver_inv server_fut others (d, ?u)"
    by (rule driver_inv_reachable [OF server_steps_reach [OF steps reach]])
  have early: "future_result ?u f = Some (Inr ())" if "f \<in> set (td_futures d)" "f \<noteq> ServerFuture" for f
  proof (cases f)
    case (SignalFuture n)
    with that ns show ?thesis by simp
  next
    case (OtherFuture i)
    with that ok os show ?thesis
      by (cases "sw_others w i"; cases "the (sw_others w i)") fastforce+
  qed (use that in simp)
  have "\<exists>w'. server_step\<^sup>*\<^sup>* ?u w' \<and> (ServerFuture \<in> set (td_futures d) \<longrightarrow> future_result w' ServerFuture = Some (Inr ()))"
  proof (cases "ServerFuture \<in> set (td_futures d)")
    case True
    then obtain n where n: "sw_phase ?u \<in> {Accepting n, Closing n, Closed n}"
      using inv by (cases "sw_phase w") (auto simp: driver_inv_def)
    then have "sw_signals ?u n" using current by simp
    from server_can_close [OF _ n this] inv show ?thesis
      by (auto simp: driver_inv_def)
  qed blast
  then obtain w' where w': "server_step\<^sup>*\<^sup>* ?u w'"
      "ServerFuture \<in> set (td_futures d) \<longrightarrow> future_result w' ServerFuture = Some (Inr ())"
    by blast
  have "\<forall>f\<in>set (td_futures d). future_result w' f = Some (Inr ())"
    using server_steps_results [OF w'(1) early] w'(2) by metis
  from driver_poll.unserved [OF assms(2) poll_futures_all_ready [OF this]] rtranclp_trans [OF steps w'(1)]
  show ?thesis by blast
qed


section \<open>Instances\<close>

text \<open>A server told to shut down that has a connection, and what it comes to.\<close>

definition closing_driver :: telemetry_driver where
  "closing_driver = \<lparr>td_server_addr = Some (UnixAddr ''/run/telemetry''), td_server = False,
     td_logging_guard = None, td_futures = [ServerFuture]\<rparr>"

definition busy_world :: shutdown_world where
  "busy_world = graceful_accept (Inr ()) (graceful_begin 0 (world_new True))"

definition signalled_world :: shutdown_world where
  "signalled_world = graceful_break 0 (busy_world\<lparr>sw_signals := (sw_signals busy_world)(0 := True)\<rparr>)"

definition drained_world :: shutdown_world where
  "drained_world = (connection_break 0 signalled_world)\<lparr>sw_phase := Closed 0\<rparr>"

lemma busy_reachable:
  "driver_reachable (Some (Inr (UnixAddr ''/run/telemetry''))) [] (closing_driver, busy_world)"
proof -
  let ?f = "Some (Inr (UnixAddr ''/run/telemetry'')) :: (string + listen_addr) option"
  have "driver_reachable ?f [] (driver_with_graceful_shutdown 0 (driver_new ?f []) (world_new (?f \<noteq> None)))"
    by (rule driver_reachable.shutdown [OF driver_reachable.start])
  moreover have "driver_with_graceful_shutdown 0 (driver_new ?f []) (world_new (?f \<noteq> None)) =
      (closing_driver, graceful_begin 0 (world_new True))"
    by (simp add: driver_with_graceful_shutdown_def driver_new_def closing_driver_def)
  ultimately have "driver_reachable ?f [] (closing_driver, graceful_begin 0 (world_new True))"
    by simp
  then show ?thesis
    unfolding busy_world_def
    by (rule driver_reachable.progress, intro server_step.accept) (simp add: graceful_begin_def)
qed

lemma drained_reachable:
  "driver_reachable (Some (Inr (UnixAddr ''/run/telemetry''))) [] (closing_driver, drained_world)"
proof -
  let ?s = "busy_world\<lparr>sw_signals := (sw_signals busy_world)(0 := True)\<rparr>"
  have phase: "sw_phase busy_world = Accepting 0"
    by (simp add: busy_world_def graceful_accept_def graceful_begin_def)
  have signal: "server_step busy_world ?s"
    by (rule server_step.signal)
  have stop: "server_step ?s signalled_world"
    unfolding signalled_world_def by (rule server_step.stop) (simp_all add: phase)
  have connections: "sw_connections signalled_world = [Serving]" "sw_close_receivers signalled_world = 1"
      "sw_phase signalled_world = Closing 0"
    by (simp_all add: signalled_world_def graceful_break_def busy_world_def graceful_accept_def
        graceful_begin_def world_new_def)
  have ended: "server_step signalled_world (connection_break 0 signalled_world)"
    by (rule server_step.ended) (simp_all add: connections)
  have closed: "server_step (connection_break 0 signalled_world) drained_world"
    unfolding drained_world_def
    by (rule server_step.closed) (simp_all add: connection_break_def connections)
  show ?thesis
    by (rule driver_reachable.progress [OF _ closed], rule driver_reachable.progress [OF _ ended],
        rule driver_reachable.progress [OF _ stop], rule driver_reachable.progress [OF busy_reachable signal])
qed

theorem driver_ends_in_order_witness:
  "sw_connections drained_world = [ConnectionEnded] \<and> \<not> live_connection (sw_connections drained_world ! 0) \<and>
   (\<exists>n. sw_phase drained_world = Closed n \<and> sw_signals drained_world n)"
proof -
  have "driver_poll [] (closing_driver, drained_world) (Ready (Inr ()))
      (closing_driver\<lparr>td_futures := []\<rparr>, drained_world)"
    by (intro driver_poll.unserved poll_futures_all_ready)
      (simp_all add: closing_driver_def drained_world_def)
  from driver_ends_in_order [OF drained_reachable this]
  have "\<exists>n. sw_phase drained_world = Closed n \<and> sw_signals drained_world n"
      "\<forall>c\<in>set (sw_connections drained_world). \<not> live_connection c"
    by simp_all
  moreover have "sw_connections drained_world = [ConnectionEnded]"
    by (simp add: drained_world_def signalled_world_def connection_break_def graceful_break_def
        busy_world_def graceful_accept_def graceful_begin_def world_new_def)
  ultimately show ?thesis by simp
qed

theorem driver_can_end_witness:
  "\<exists>w' d'. server_step\<^sup>*\<^sup>* busy_world w' \<and> driver_poll [] (closing_driver, w') (Ready (Inr ())) (d', w')"
  by (rule driver_can_end [OF busy_reachable])
    (simp_all add: closing_driver_def busy_world_def graceful_accept_def graceful_begin_def)

end
