(* ===== verification/Initialization.thy ===== *)
theory Initialization
  imports ServerShutdown RetryWriter LogDrains LiveReferences F64
begin

text \<open>
  The initialization of telemetry, \<open>telemetry::init\<close> of \<open>telemetry/mod.rs\<close> with \<open>metrics/init.rs\<close>,
  \<open>log/init.rs\<close>, \<open>tracing/init.rs\<close>, the start of the exporters and the sampler of
  \<open>tracing/rate_limit.rs\<close>. The process-wide cells are the state; all features are enabled. Sockets,
  the exporters' libraries and the probabilistic sampler are parameters. The guard of the
  asynchronous log drain ends its thread when it is dropped. The lemmas show what a sequence of
  calls does, the failing ones included, and what the sampler's rate limit is spent on.
\<close>

section \<open>The sampler\<close>

record active_sampling_settings =
  as_sampling_ratio :: f64
  as_rate_limit :: rate_limiting_settings

text \<open>\<open>ProbabilisticSampler\<close> of \<open>cf_rustracing\<close>, whose draws advance a generator, and the direct rate
  limiter of \<open>governor\<close>, which knows the time.\<close>

record ('p, 'c, 'r) probabilistic =
  pb_new :: "f64 \<Rightarrow> string + 'p"
  pb_is_sampled :: "'p \<Rightarrow> 'c \<Rightarrow> 'r \<Rightarrow> bool \<times> 'r"

record 'l direct_limiter =
  dl_per_second :: "u32 \<Rightarrow> 'l"
  dl_check :: "nat \<Rightarrow> 'l \<Rightarrow> bool \<times> 'l"

record ('p, 'l) rate_limiting_sampler =
  rs_inner :: 'p
  rs_rate_limiter :: "'l option"

definition sampler_new ::
  "('p, 'c, 'r) probabilistic \<Rightarrow> 'l direct_limiter \<Rightarrow> active_sampling_settings \<Rightarrow>
   string + ('p, 'l) rate_limiting_sampler" where
  "sampler_new pb dl settings =
     (let limit = as_rate_limit settings;
          rate_limiter =
            (if rate_limiter_present limit then Some (dl_per_second dl (rl_max_events_per_second limit))
             else None)
      in case pb_new pb (as_sampling_ratio settings) of
           Inl e \<Rightarrow> Inl e
         | Inr inner \<Rightarrow> Inr \<lparr>rs_inner = inner, rs_rate_limiter = rate_limiter\<rparr>)"

definition sampler_is_sampled ::
  "('p, 'c, 'r) probabilistic \<Rightarrow> 'l direct_limiter \<Rightarrow> nat \<Rightarrow> 'c \<Rightarrow>
   ('p, 'l) rate_limiting_sampler \<Rightarrow> 'r \<Rightarrow> bool \<times> ('p, 'l) rate_limiting_sampler \<times> 'r" where
  "sampler_is_sampled pb dl t candidate s r =
     (case pb_is_sampled pb (rs_inner s) candidate r of
        (False, r) \<Rightarrow> (False, s, r)
      | (True, r) \<Rightarrow>
          (case rs_rate_limiter s of
             None \<Rightarrow> (True, s, r)
           | Some l \<Rightarrow>
               (case dl_check dl t l of (ok, l) \<Rightarrow> (ok, s\<lparr>rs_rate_limiter := Some l\<rparr>, r))))"

fun sampler_run ::
  "('p, 'c, 'r) probabilistic \<Rightarrow> 'l direct_limiter \<Rightarrow> (nat \<times> 'c) list \<Rightarrow>
   ('p, 'l) rate_limiting_sampler \<Rightarrow> 'r \<Rightarrow> bool list" where
  "sampler_run pb dl [] s r = []"
| "sampler_run pb dl ((t, candidate) # es) s r =
     (case sampler_is_sampled pb dl t candidate s r of (ok, s, r) \<Rightarrow> ok # sampler_run pb dl es s r)"

text \<open>The reference: the probabilistic choice of all candidates first, then the limiter on the chosen
  ones alone.\<close>

fun choices :: "('p, 'c, 'r) probabilistic \<Rightarrow> 'p \<Rightarrow> (nat \<times> 'c) list \<Rightarrow> 'r \<Rightarrow> bool list" where
  "choices pb p [] r = []"
| "choices pb p ((t, candidate) # es) r =
     (case pb_is_sampled pb p candidate r of (ok, r) \<Rightarrow> ok # choices pb p es r)"

fun limited :: "'l direct_limiter \<Rightarrow> nat list \<Rightarrow> 'l option \<Rightarrow> bool list" where
  "limited dl [] l = []"
| "limited dl (t # ts) None = True # limited dl ts None"
| "limited dl (t # ts) (Some l) = (case dl_check dl t l of (ok, l) \<Rightarrow> ok # limited dl ts (Some l))"

definition chosen :: "bool list \<Rightarrow> 'a list \<Rightarrow> 'a list" where
  "chosen bs xs = map snd (filter fst (zip bs xs))"

lemma chosen_simps [simp]:
  "chosen [] xs = []" "chosen bs [] = []"
  "chosen (b # bs) (x # xs) = (if b then x # chosen bs xs else chosen bs xs)"
  by (simp_all add: chosen_def)

text \<open>C18: the sampler decides as if the probabilistic sampler saw all candidates and the rate limiter
  only those it chose: no candidate that is refused for its probability uses up the limit, and the
  limit is checked at the times of the chosen candidates and no others; without a limiter all
  chosen candidates are sampled.\<close>

theorem sampler_limits_chosen:
  "let bs = choices pb (rs_inner s) es r;
       ds = sampler_run pb dl es s r
   in length ds = length es \<and>
      chosen bs ds = limited dl (chosen bs (map fst es)) (rs_rate_limiter s) \<and>
      chosen (map Not bs) ds = replicate (length (filter Not bs)) False"
proof (induction es arbitrary: s r)
  case (Cons e es)
  obtain t candidate where e: "e = (t, candidate)" by fastforce
  obtain ok r' where b: "pb_is_sampled pb (rs_inner s) candidate r = (ok, r')" by fastforce
  show ?case
  proof (cases ok)
    case False
    with Cons.IH [of s r'] show ?thesis
      by (simp add: e b sampler_is_sampled_def Let_def)
  next
    case True
    show ?thesis
    proof (cases "rs_rate_limiter s")
      case None
      with True Cons.IH [of s r'] show ?thesis
        by (simp add: e b sampler_is_sampled_def Let_def)
    next
      case (Some l)
      obtain ok' l' where c: "dl_check dl t l = (ok', l')" by fastforce
      with True Some Cons.IH [of "s\<lparr>rs_rate_limiter := Some l'\<rparr>" r'] show ?thesis
        by (simp add: e b sampler_is_sampled_def Let_def)
    qed
  qed
qed simp

section \<open>Starting the exporters\<close>

record jaeger_settings =
  js_server_addr :: tcp_addr
  js_reporter_bind_addr :: "tcp_addr option"
  js_num_tasks :: nat
  js_max_batch_size :: nat

record grpc_settings =
  gs_endpoint_url :: string
  gs_num_tasks :: nat

datatype traces_output = JaegerThriftUdp jaeger_settings | OpenTelemetryGrpc grpc_settings

fun is_ipv6 :: "tcp_addr \<Rightarrow> bool" where
  "is_ipv6 (AddrV4 a) \<longleftrightarrow> False"
| "is_ipv6 (AddrV6 a) \<longleftrightarrow> True"

definition get_reporter_bind_addr :: "jaeger_settings \<Rightarrow> string + tcp_addr" where
  "get_reporter_bind_addr settings =
     (case js_reporter_bind_addr settings of
        Some addr \<Rightarrow>
          if is_ipv6 (js_server_addr settings) = is_ipv6 addr then Inr addr
          else Inl ''`jaeger_tracing_server_addr` and `jaeger_reporter_bind_addr` must have the same address family''
      | None \<Rightarrow>
          Inr (if is_ipv6 (js_server_addr settings) then AddrV6 ''[::1]:0'' else AddrV4 ''127.0.0.1:0''))"

text \<open>The calls that start an exporter, each of which may fail; \<open>OtlpUdsClient::new\<close> is one of them.\<close>

datatype exporter_call =
    BindUdp tcp_addr
  | UdpNonblocking
  | UdpFromStd
  | NewReporter tcp_addr
  | GrpcChannelFromShared string
  | NewUdsClient nat

type_synonym 'w exporter_calls = "exporter_call \<Rightarrow> 'w \<Rightarrow> (string + unit) \<times> 'w"

fun exporter_run :: "'w exporter_calls \<Rightarrow> exporter_call list \<Rightarrow> 'w \<Rightarrow> (string + unit) \<times> 'w" where
  "exporter_run ec [] w = (Inr (), w)"
| "exporter_run ec (c # cs) w =
     (case ec c w of (Inl e, w) \<Rightarrow> (Inl e, w) | (Inr _, w) \<Rightarrow> exporter_run ec cs w)"

record trace_output_futures =
  to_initializer :: bool
  to_workers :: nat

definition jaeger_start ::
  "'w exporter_calls \<Rightarrow> jaeger_settings \<Rightarrow> 'w \<Rightarrow> (string + trace_output_futures) \<times> 'w" where
  "jaeger_start ec settings w =
     (case get_reporter_bind_addr settings of
        Inl e \<Rightarrow> (Inl e, w)
      | Inr addr \<Rightarrow>
          (case exporter_run ec [BindUdp addr, UdpNonblocking, UdpFromStd,
               NewReporter (js_server_addr settings)] w of
             (Inl e, w) \<Rightarrow> (Inl e, w)
           | (Inr _, w) \<Rightarrow> (Inr \<lparr>to_initializer = False, to_workers = js_num_tasks settings\<rparr>, w)))"

definition grpc_start ::
  "'w exporter_calls \<Rightarrow> grpc_settings \<Rightarrow> 'w \<Rightarrow> (string + trace_output_futures) \<times> 'w" where
  "grpc_start ec settings w =
     (case ec (GrpcChannelFromShared (gs_endpoint_url settings @ ''/v1/traces'')) w of
        (Inl e, w) \<Rightarrow> (Inl e, w)
      | (Inr _, w) \<Rightarrow> (Inr \<lparr>to_initializer = True, to_workers = gs_num_tasks settings\<rparr>, w))"

definition uds_start ::
  "'w exporter_calls \<Rightarrow> nat \<Rightarrow> nat \<Rightarrow> 'w \<Rightarrow> (string + trace_output_futures) \<times> 'w" where
  "uds_start ec settings num_tasks w =
     (case ec (NewUdsClient settings) w of
        (Inl e, w) \<Rightarrow> (Inl e, w)
      | (Inr _, w) \<Rightarrow> (Inr \<lparr>to_initializer = False, to_workers = num_tasks\<rparr>, w))"


section \<open>The cells of the process\<close>

datatype log_output = Terminal | Stderr | LogFile string | TracingRsCompat | CustomOutput nat
datatype log_format = TextFormat | JsonFormat

record log_init_settings =
  li_output :: log_output
  li_format :: log_format
  li_verbosity :: level
  li_ignore_io_errors :: bool
  li_logging :: logging_settings

text \<open>The drain that writes and what it is wrapped in for the worker thread of \<open>slog_async\<close>.\<close>

datatype log_writer = TermStdout | TermStderr | BufferedStdout | BufferedStderr
  | PlainFile string | BufferedFile string

datatype output_drain = TextDrain log_writer | JsonDrain log_writer | TracingSlogDrain | CustomDrain nat

datatype async_drain = IgnoreRes output_drain | FuseDrain output_drain | BareDrain output_drain

record log_harness =
  lg_drain :: async_drain
  lg_settings :: log_init_settings
  lg_kv :: "(string \<times> string) list"

text \<open>The thread of the asynchronous drain: it runs while its guard lives.\<close>

datatype log_worker = NoWorker | WorkerRunning | WorkerStopped

datatype sampling_strategy = PassiveSampling | ActiveSampling active_sampling_settings

record tracing_settings =
  tr_enabled :: bool
  tr_max_queue_size :: "nat option"
  tr_output :: traces_output
  tr_sampling_strategy :: sampling_strategy
  tr_liveness_tracking :: liveness_settings

record user_tracing_settings =
  ut_enabled :: bool
  ut_max_queue_size :: "nat option"
  ut_output :: nat
  ut_num_tasks :: nat

text \<open>A tracer is its sampler and the capacity of its channel of finished spans.\<close>

datatype ('p, 'l) boxed_sampler = PassiveSampler | AllSampler | RateLimiting "('p, 'l) rate_limiting_sampler"

record ('p, 'l) tracing_harness =
  th_sampler :: "('p, 'l) boxed_sampler"
  th_capacity :: "nat option"
  th_liveness :: liveness_settings

record service_info =
  sv_name_in_metrics :: string
  sv_version :: string

text \<open>\<open>TELEMETRY_INITIALIZED\<close>, \<open>SERVICE_NAME\<close>, the info metrics reported, the panic hook's \<open>Once\<close>, the
  \<open>HARNESS\<close> of logging with its thread, those of both tracing pipelines, the number of spawned
  workers and of initializers handed to drivers; \<open>pc_profiler\<close> holds the world.\<close>

record ('p, 'l, 'w) process =
  pc_initialized :: bool
  pc_service_name :: "string option"
  pc_infos :: "(string \<times> string) list"
  pc_panic_hook :: bool
  pc_log :: "log_harness option"
  pc_log_worker :: log_worker
  pc_tracing :: "('p, 'l) tracing_harness option"
  pc_user_tracing :: "('p, 'l) tracing_harness option"
  pc_workers :: nat
  pc_profiler :: "'w profiler"

definition process_new :: "'w \<Rightarrow> ('p, 'l, 'w) process" where
  "process_new w = \<lparr>pc_initialized = False, pc_service_name = None, pc_infos = [],
     pc_panic_hook = False, pc_log = None, pc_log_worker = NoWorker, pc_tracing = None,
     pc_user_tracing = None, pc_workers = 0, pc_profiler = profiler_start w\<rparr>"

definition set_world :: "'w \<Rightarrow> ('p, 'l, 'w) process \<Rightarrow> ('p, 'l, 'w) process" where
  "set_world w p = p\<lparr>pc_profiler := (pc_profiler p)\<lparr>pr_world := w\<rparr>\<rparr>"

section \<open>Initialization of the parts\<close>

text \<open>\<open>metrics::init::init\<close> with the \<open>foundations-metrics\<close> backend.\<close>

definition metrics_init :: "service_info \<Rightarrow> string \<Rightarrow> ('p, 'l, 'w) process \<Rightarrow> ('p, 'l, 'w) process" where
  "metrics_init service pid p =
     (if pc_service_name p = None
      then p\<lparr>pc_service_name := Some (sv_name_in_metrics service),
             pc_infos := pc_infos p @ [(''build_info'', sv_version service), (''runtime_info'', pid)]\<rparr>
      else p)"

text \<open>\<open>panic::install_hook\<close>; whether this call installed it.\<close>

definition install_panic_hook :: "('p, 'l, 'w) process \<Rightarrow> bool \<times> ('p, 'l, 'w) process" where
  "install_panic_hook p = (\<not> pc_panic_hook p, p\<lparr>pc_panic_hook := True\<rparr>)"

definition build_async_drain :: "bool \<Rightarrow> output_drain \<Rightarrow> async_drain" where
  "build_async_drain ignore_io_errors drain = (if ignore_io_errors then IgnoreRes drain else FuseDrain drain)"

text \<open>The output drain of \<open>log::init::init\<close>; only opening a file can fail.\<close>

definition output_drain_of ::
  "('f, 'w) RetryWriter.file_system \<Rightarrow> log_init_settings \<Rightarrow> 'w \<Rightarrow> (io_error + async_drain) \<times> 'w" where
  "output_drain_of fs settings w =
     (let built = build_async_drain (li_ignore_io_errors settings) in
      case (li_output settings, li_format settings) of
        (Terminal, TextFormat) \<Rightarrow> (Inr (built (TextDrain TermStdout)), w)
      | (Stderr, TextFormat) \<Rightarrow> (Inr (built (TextDrain TermStderr)), w)
      | (Terminal, JsonFormat) \<Rightarrow> (Inr (built (JsonDrain BufferedStdout)), w)
      | (Stderr, JsonFormat) \<Rightarrow> (Inr (built (JsonDrain BufferedStderr)), w)
      | (LogFile path, fmt) \<Rightarrow>
          (case retry_writer_new fs path w of
             (Inl e, w) \<Rightarrow> (Inl e, w)
           | (Inr _, w) \<Rightarrow>
               (Inr (built (case fmt of TextFormat \<Rightarrow> TextDrain (PlainFile path)
                                      | JsonFormat \<Rightarrow> JsonDrain (BufferedFile path))), w))
      | (TracingRsCompat, _) \<Rightarrow> (Inr (BareDrain TracingSlogDrain), w)
      | (CustomOutput d, _) \<Rightarrow> (Inr (BareDrain (CustomDrain d)), w))"

text \<open>\<open>log::init::init\<close>; the result tells whether it returns a guard.\<close>

definition log_init ::
  "('f, 'w) RetryWriter.file_system \<Rightarrow> service_info \<Rightarrow> string \<Rightarrow> log_init_settings \<Rightarrow>
   ('p, 'l, 'w) process \<Rightarrow> (io_error + bool) \<times> ('p, 'l, 'w) process" where
  "log_init fs service pid settings p =
     (if pc_log p \<noteq> None then (Inr False, p)
      else case output_drain_of fs settings (pr_world (pc_profiler p)) of
        (Inl e, w) \<Rightarrow> (Inl e, set_world w p)
      | (Inr drain, w) \<Rightarrow>
          (Inr True, (set_world w p)\<lparr>
             pc_log := Some \<lparr>lg_drain = drain, lg_settings = settings,
               lg_kv = [(''pid'', pid), (''version'', sv_version service)]\<rparr>,
             pc_log_worker := WorkerRunning\<rparr>))"

record ('p, 'c, 'r, 'l, 'w) tracing_env =
  te_probabilistic :: "('p, 'c, 'r) probabilistic"
  te_limiter :: "'l direct_limiter"
  te_exporters :: "'w exporter_calls"

definition create_tracer ::
  "('p, 'c, 'r, 'l, 'w) tracing_env \<Rightarrow> tracing_settings \<Rightarrow> string + ('p, 'l) boxed_sampler" where
  "create_tracer te settings =
     (case tr_sampling_strategy settings of
        PassiveSampling \<Rightarrow> Inr PassiveSampler
      | ActiveSampling active \<Rightarrow>
          (case sampler_new (te_probabilistic te) (te_limiter te) active of
             Inl e \<Rightarrow> Inl e | Inr s \<Rightarrow> Inr (RateLimiting s)))"

text \<open>\<open>tracing::init::init\<close> and \<open>init_user\<close>; the result tells whether there is an initializer future.\<close>

definition tracing_init ::
  "('p, 'c, 'r, 'l, 'w) tracing_env \<Rightarrow> tracing_settings \<Rightarrow> ('p, 'l, 'w) process \<Rightarrow>
   (string + bool) \<times> ('p, 'l, 'w) process" where
  "tracing_init te settings p =
     (if \<not> tr_enabled settings \<or> pc_tracing p \<noteq> None then (Inr False, p)
      else case create_tracer te settings of
        Inl e \<Rightarrow> (Inl e, p)
      | Inr sampler \<Rightarrow>
          (case (case tr_output settings of
                   JaegerThriftUdp s \<Rightarrow> jaeger_start (te_exporters te) s (pr_world (pc_profiler p))
                 | OpenTelemetryGrpc s \<Rightarrow> grpc_start (te_exporters te) s (pr_world (pc_profiler p))) of
             (Inl e, w) \<Rightarrow> (Inl e, set_world w p)
           | (Inr futs, w) \<Rightarrow>
               (Inr (to_initializer futs), (set_world w p)\<lparr>
                  pc_tracing := Some \<lparr>th_sampler = sampler, th_capacity = tr_max_queue_size settings,
                    th_liveness = tr_liveness_tracking settings\<rparr>,
                  pc_workers := pc_workers p + to_workers futs\<rparr>)))"

definition user_tracing_init ::
  "('p, 'c, 'r, 'l, 'w) tracing_env \<Rightarrow> user_tracing_settings option \<Rightarrow> ('p, 'l, 'w) process \<Rightarrow>
   (string + bool) \<times> ('p, 'l, 'w) process" where
  "user_tracing_init te user_settings p =
     (case user_settings of
        None \<Rightarrow> (Inr False, p)
      | Some settings \<Rightarrow>
          if \<not> ut_enabled settings \<or> pc_user_tracing p \<noteq> None then (Inr False, p)
          else (case uds_start (te_exporters te) (ut_output settings) (ut_num_tasks settings)
                  (pr_world (pc_profiler p)) of
              (Inl e, w) \<Rightarrow> (Inl e, set_world w p)
            | (Inr futs, w) \<Rightarrow>
                (Inr (to_initializer futs), (set_world w p)\<lparr>
                   pc_user_tracing := Some \<lparr>th_sampler = AllSampler, th_capacity = ut_max_queue_size settings,
                     th_liveness = \<lparr>lt_enabled = False, lt_track_all_spans = False\<rparr>\<rparr>,
                   pc_workers := pc_workers p + to_workers futs\<rparr>)))"

section \<open>\<open>telemetry::init\<close>\<close>

record telemetry_config =
  tc_service :: service_info
  tc_pid :: string
  tc_logging :: log_init_settings
  tc_tracing :: tracing_settings
  tc_user_tracing :: "user_tracing_settings option"
  tc_server :: server_settings
  tc_router :: "string + unit"
  tc_local_addr :: "string + listen_addr"

datatype init_failure =
    AlreadyInitialized
  | LoggingFailed io_error
  | TracingFailed string
  | UserTracingFailed string
  | ServerFailed server_error

record ('p, 'c, 'r, 'l, 'f, 'w) telemetry_env =
  en_files :: "('f, 'w) RetryWriter.file_system"
  en_tracing :: "('p, 'c, 'r, 'l, 'w) tracing_env"
  en_sockets :: "'w sockets"
  en_jemalloc :: "'w jemalloc"
  en_profiling :: bool

text \<open>Returning early, or unwinding, drops the guard that was obtained.\<close>

definition drop_guard :: "bool \<Rightarrow> ('p, 'l, 'w) process \<Rightarrow> ('p, 'l, 'w) process" where
  "drop_guard guard p = (if guard then p\<lparr>pc_log_worker := WorkerStopped\<rparr> else p)"

text \<open>From logging on: the driver that is returned, \<^const>\<open>None\<close> for a panic.\<close>

definition start_server ::
  "('p, 'c, 'r, 'l, 'f, 'w) telemetry_env \<Rightarrow> telemetry_config \<Rightarrow> bool \<Rightarrow> nat list \<Rightarrow>
   ('p, 'l, 'w) process \<Rightarrow> (init_failure + telemetry_driver) option \<times> ('p, 'l, 'w) process" where
  "start_server en config guard futs p =
     (case server_new (en_sockets en) (en_jemalloc en) (en_profiling en) (tc_router config)
         (tc_server config) (pc_profiler p) of
        (None, _, s) \<Rightarrow> (None, drop_guard guard (p\<lparr>pc_profiler := s\<rparr>))
      | (Some (Inl e), _, s) \<Rightarrow> (Some (Inl (ServerFailed e)), drop_guard guard (p\<lparr>pc_profiler := s\<rparr>))
      | (Some (Inr served), _, s) \<Rightarrow>
          (Some (Inr (set_logging_guard (if guard then Some 0 else None)
             (driver_new (if served then Some (tc_local_addr config) else None) futs))),
           p\<lparr>pc_profiler := s\<rparr>))"

definition init_tracing_and_server ::
  "('p, 'c, 'r, 'l, 'f, 'w) telemetry_env \<Rightarrow> telemetry_config \<Rightarrow> bool \<Rightarrow>
   ('p, 'l, 'w) process \<Rightarrow> (init_failure + telemetry_driver) option \<times> ('p, 'l, 'w) process" where
  "init_tracing_and_server en config guard p =
     (case tracing_init (en_tracing en) (tc_tracing config) p of
        (Inl e, p) \<Rightarrow> (Some (Inl (TracingFailed e)), drop_guard guard p)
      | (Inr fut, p) \<Rightarrow>
          (case user_tracing_init (en_tracing en) (tc_user_tracing config) p of
             (Inl e, p) \<Rightarrow> (Some (Inl (UserTracingFailed e)), drop_guard guard p)
           | (Inr user_fut, p) \<Rightarrow>
               start_server en config guard
                 ((if fut then [0] else []) @ (if user_fut then [1] else []))
                 (p\<lparr>pc_initialized := True\<rparr>)))"

definition telemetry_init ::
  "('p, 'c, 'r, 'l, 'f, 'w) telemetry_env \<Rightarrow> telemetry_config \<Rightarrow> ('p, 'l, 'w) process \<Rightarrow>
   (init_failure + telemetry_driver) option \<times> ('p, 'l, 'w) process" where
  "telemetry_init en config p =
     (if pc_initialized p then (Some (Inl AlreadyInitialized), p)
      else
        let p = snd (install_panic_hook (metrics_init (tc_service config) (tc_pid config) p)) in
        case log_init (en_files en) (tc_service config) (tc_pid config) (tc_logging config) p of
          (Inl e, p) \<Rightarrow> (Some (Inl (LoggingFailed e)), p)
        | (Inr guard, p) \<Rightarrow> init_tracing_and_server en config guard p)"

text \<open>Calls one after the other.\<close>

fun telemetry_inits ::
  "('p, 'c, 'r, 'l, 'f, 'w) telemetry_env \<Rightarrow> telemetry_config list \<Rightarrow> ('p, 'l, 'w) process \<Rightarrow>
   (init_failure + telemetry_driver) option list \<times> ('p, 'l, 'w) process" where
  "telemetry_inits en [] p = ([], p)"
| "telemetry_inits en (config # configs) p =
     (case telemetry_init en config p of (r, p) \<Rightarrow>
      case telemetry_inits en configs p of (rs, p) \<Rightarrow> (r # rs, p))"


section \<open>What the calls do\<close>

definition got_driver :: "(init_failure + telemetry_driver) option \<Rightarrow> bool" where
  "got_driver r = (case r of Some (Inr _) \<Rightarrow> True | _ \<Rightarrow> False)"

definition logging_failed :: "(init_failure + telemetry_driver) option \<Rightarrow> bool" where
  "logging_failed r = (case r of Some (Inl (LoggingFailed _)) \<Rightarrow> True | _ \<Rightarrow> False)"

text \<open>A call may be tried again after these.\<close>

definition retryable :: "(init_failure + telemetry_driver) option \<Rightarrow> bool" where
  "retryable r = (case r of
     Some (Inl (LoggingFailed _)) \<Rightarrow> True
   | Some (Inl (TracingFailed _)) \<Rightarrow> True
   | Some (Inl (UserTracingFailed _)) \<Rightarrow> True
   | _ \<Rightarrow> False)"

lemma set_world_fields [simp]:
  "pc_initialized (set_world w p) = pc_initialized p" "pc_log (set_world w p) = pc_log p"
  "pc_log_worker (set_world w p) = pc_log_worker p"
  by (simp_all add: set_world_def)

lemma drop_guard_fields [simp]:
  "pc_initialized (drop_guard b p) = pc_initialized p" "pc_log (drop_guard b p) = pc_log p"
  "pc_log_worker (drop_guard b p) = (if b then WorkerStopped else pc_log_worker p)"
  by (simp_all add: drop_guard_def)

lemma tracing_init_fields:
  assumes "tracing_init te settings p = (r, q)"
  shows "pc_initialized q = pc_initialized p" "pc_log q = pc_log p" "pc_log_worker q = pc_log_worker p"
  using assms
  by (auto simp: tracing_init_def split: if_splits sum.splits prod.splits)

lemma user_tracing_init_fields:
  assumes "user_tracing_init te settings p = (r, q)"
  shows "pc_initialized q = pc_initialized p" "pc_log q = pc_log p" "pc_log_worker q = pc_log_worker p"
  using assms
  by (auto simp: user_tracing_init_def split: if_splits option.splits sum.splits prod.splits)

lemma start_server_fields:
  assumes "start_server en config guard futs p = (r, q)"
  shows "pc_initialized q = pc_initialized p" "pc_log q = pc_log p"
    "pc_log_worker q = (if guard \<and> \<not> got_driver r then WorkerStopped else pc_log_worker p)"
    "\<not> retryable r" "\<not> logging_failed r" "r \<noteq> Some (Inl AlreadyInitialized)"
  using assms
  by (auto simp: start_server_def got_driver_def retryable_def logging_failed_def
      split: prod.splits option.splits sum.splits)

lemma init_tracing_and_server_fields:
  assumes "init_tracing_and_server en config guard p = (r, q)"
  shows "pc_initialized q \<longleftrightarrow> pc_initialized p \<or> \<not> retryable r" "pc_log q = pc_log p"
    "pc_log_worker q = (if guard \<and> \<not> got_driver r then WorkerStopped else pc_log_worker p)"
    "\<not> logging_failed r" "r \<noteq> Some (Inl AlreadyInitialized)"
proof -
  obtain t p1 where t: "tracing_init (en_tracing en) (tc_tracing config) p = (t, p1)" by fastforce
  obtain u p2 where u: "user_tracing_init (en_tracing en) (tc_user_tracing config) p1 = (u, p2)" by fastforce
  note tf = tracing_init_fields [OF t] and uf = user_tracing_init_fields [OF u]
  have "(pc_initialized q \<longleftrightarrow> pc_initialized p \<or> \<not> retryable r) \<and> pc_log q = pc_log p \<and>
    pc_log_worker q = (if guard \<and> \<not> got_driver r then WorkerStopped else pc_log_worker p) \<and> \<not> logging_failed r \<and>
    r \<noteq> Some (Inl AlreadyInitialized)"
  proof (cases t)
    case (Inl e)
    with assms t tf show ?thesis
      by (auto simp: init_tracing_and_server_def got_driver_def retryable_def logging_failed_def)
  next
    case (Inr fut)
    show ?thesis
    proof (cases u)
      case (Inl e)
      with assms t u Inr tf uf show ?thesis
        by (auto simp: init_tracing_and_server_def got_driver_def retryable_def logging_failed_def)
    next
      case (Inr user_fut)
      with assms t u \<open>t = Inr fut\<close>
      have s: "start_server en config guard ((if fut then [0] else []) @ (if user_fut then [1] else []))
          (p2\<lparr>pc_initialized := True\<rparr>) = (r, q)"
        by (simp add: init_tracing_and_server_def)
      from start_server_fields [OF s] tf uf show ?thesis by simp
    qed
  qed
  then show "pc_initialized q \<longleftrightarrow> pc_initialized p \<or> \<not> retryable r" "pc_log q = pc_log p"
    "pc_log_worker q = (if guard \<and> \<not> got_driver r then WorkerStopped else pc_log_worker p)"
    "\<not> logging_failed r" "r \<noteq> Some (Inl AlreadyInitialized)"
    by blast+
qed

text \<open>One call, by what it finds.\<close>

lemma telemetry_init_again:
  "pc_initialized p \<Longrightarrow> telemetry_init en config p = (Some (Inl AlreadyInitialized), p)"
  by (simp add: telemetry_init_def)

lemma telemetry_init_first:
  assumes "telemetry_init en config p = (r, q)" "\<not> pc_initialized p"
  shows "pc_initialized q \<longleftrightarrow> \<not> retryable r" and "r \<noteq> Some (Inl AlreadyInitialized)"
    and "logging_failed r \<Longrightarrow> pc_log p = None \<and> pc_log q = None \<and> pc_log_worker q = pc_log_worker p"
    and "\<not> logging_failed r \<Longrightarrow> pc_log q \<noteq> None \<and>
      pc_log_worker q = (if pc_log p \<noteq> None then pc_log_worker p
        else if got_driver r then WorkerRunning else WorkerStopped)"
proof -
  let ?p = "snd (install_panic_hook (metrics_init (tc_service config) (tc_pid config) p))"
  have p: "pc_initialized ?p = pc_initialized p" "pc_log ?p = pc_log p" "pc_log_worker ?p = pc_log_worker p"
    by (simp_all add: install_panic_hook_def metrics_init_def)
  obtain l p1 where l: "log_init (en_files en) (tc_service config) (tc_pid config) (tc_logging config) ?p = (l, p1)"
    by fastforce
  have lf: "pc_initialized p1 = pc_initialized p"
      "\<And>e. l = Inl e \<Longrightarrow> pc_log p = None \<and> pc_log p1 = None \<and> pc_log_worker p1 = pc_log_worker p"
      "\<And>g. l = Inr g \<Longrightarrow> pc_log p1 \<noteq> None \<and> (g \<longleftrightarrow> pc_log p = None) \<and>
         pc_log_worker p1 = (if g then WorkerRunning else pc_log_worker p)"
    using l p by (auto simp: log_init_def split: if_splits sum.splits prod.splits)
  have "(pc_initialized q \<longleftrightarrow> \<not> retryable r) \<and> r \<noteq> Some (Inl AlreadyInitialized) \<and>
    (logging_failed r \<longrightarrow> pc_log p = None \<and> pc_log q = None \<and> pc_log_worker q = pc_log_worker p) \<and>
    (\<not> logging_failed r \<longrightarrow> pc_log q \<noteq> None \<and>
      pc_log_worker q = (if pc_log p \<noteq> None then pc_log_worker p
        else if got_driver r then WorkerRunning else WorkerStopped))"
  proof (cases l)
    case (Inl e)
    with assms l have "r = Some (Inl (LoggingFailed e))" "q = p1"
      by (simp_all add: telemetry_init_def Let_def)
    with lf Inl assms(2) show ?thesis by (simp add: retryable_def logging_failed_def)
  next
    case (Inr g)
    with assms l have s: "init_tracing_and_server en config g p1 = (r, q)"
      by (simp add: telemetry_init_def Let_def)
    from init_tracing_and_server_fields [OF s] lf(1) lf(3) [OF Inr] assms(2) show ?thesis by auto
  qed
  then show "pc_initialized q \<longleftrightarrow> \<not> retryable r" and "r \<noteq> Some (Inl AlreadyInitialized)"
    and "logging_failed r \<Longrightarrow> pc_log p = None \<and> pc_log q = None \<and> pc_log_worker q = pc_log_worker p"
    and "\<not> logging_failed r \<Longrightarrow> pc_log q \<noteq> None \<and>
      pc_log_worker q = (if pc_log p \<noteq> None then pc_log_worker p
        else if got_driver r then WorkerRunning else WorkerStopped)"
    by blast+
qed

lemma telemetry_inits_again:
  "pc_initialized p \<Longrightarrow>
     telemetry_inits en configs p = (replicate (length configs) (Some (Inl AlreadyInitialized)), p)"
  by (induction configs) (simp_all add: telemetry_init_again)

text \<open>a call of \<open>telemetry::init\<close> that returns a driver, fails to start the server or panics is the
  last that does anything: every later call fails as one too many, whatever its settings. Only calls
  that fail in logging or tracing are followed by real attempts, and at most one driver is returned.\<close>

theorem init_settles:
  assumes "telemetry_inits en configs p = (rs, q)" and "\<not> pc_initialized p"
  shows "(\<forall>k<length rs.
      (rs ! k = Some (Inl AlreadyInitialized) \<longleftrightarrow> (\<exists>i<k. \<not> retryable (rs ! i)))) \<and>
    length (filter got_driver rs) \<le> 1"
  using assms
proof (induction configs arbitrary: p rs)
  case (Cons config configs)
  obtain r p1 where r: "telemetry_init en config p = (r, p1)" by fastforce
  obtain rs' q' where rs': "telemetry_inits en configs p1 = (rs', q')" by fastforce
  note first = telemetry_init_first [OF r Cons.prems(2)]
  have rs: "rs = r # rs'"
    using Cons.prems(1) by (simp add: r rs')
  show ?case
  proof (cases "retryable r")
    case True
    have "telemetry_inits en configs p1 = (rs', q)"
      using Cons.prems(1) by (simp add: r rs')
    moreover have "\<not> pc_initialized p1" "\<not> got_driver r"
      using first(1) True by (auto simp: retryable_def got_driver_def split: option.splits sum.splits)
    ultimately show ?thesis
      using Cons.IH [of p1 rs'] first(2) True
      by (simp add: rs All_less_Suc2 Ex_less_Suc2)
  next
    case False
    then have "rs' = replicate (length configs) (Some (Inl AlreadyInitialized))"
      using telemetry_inits_again [of p1 en configs] first(1) rs' by simp
    moreover have "filter got_driver (replicate n (Some (Inl AlreadyInitialized))) = []" for n
      by (simp add: got_driver_def)
    ultimately show ?thesis
      using first(2) False by (simp add: rs All_less_Suc2 Ex_less_Suc2)
  qed
qed simp

text \<open>C17: the thread that writes the logs runs after a sequence of calls if and only if the first call
  that got past the set-up of logging returned a driver: if that call failed later, in tracing or with
  the server, it took the thread with it and no later call, a successful one included, starts it again.\<close>

theorem logging_needs_first_attempt:
  assumes "telemetry_inits en configs (process_new w) = (rs, q)"
  shows "pc_log_worker q = WorkerRunning \<longleftrightarrow>
    (case filter (\<lambda>r. \<not> logging_failed r) rs of [] \<Rightarrow> False | r # _ \<Rightarrow> got_driver r)"
proof -
  have kept: "pc_log_worker q' = pc_log_worker p"
    if "telemetry_inits en configs p = (rs', q')" "pc_log p \<noteq> None" for configs p rs' q'
    using that
  proof (induction configs arbitrary: p rs')
    case (Cons config configs)
    obtain r p1 where r: "telemetry_init en config p = (r, p1)" by fastforce
    obtain rs2 where rs2: "telemetry_inits en configs p1 = (rs2, q')"
      using Cons.prems(1) by (auto simp: r split: prod.splits)
    have "pc_log p1 \<noteq> None \<and> pc_log_worker p1 = pc_log_worker p"
    proof (cases "pc_initialized p")
      case True
      with r Cons.prems(2) show ?thesis by (simp add: telemetry_init_again)
    next
      case False
      from telemetry_init_first(3,4) [OF r False] Cons.prems(2) show ?thesis by auto
    qed
    with Cons.IH [OF rs2] show ?case by simp
  qed simp
  have "pc_log_worker q = WorkerRunning \<longleftrightarrow>
      (case filter (\<lambda>r. \<not> logging_failed r) rs of [] \<Rightarrow> False | r # _ \<Rightarrow> got_driver r)"
    if "telemetry_inits en configs p = (rs, q)" "\<not> pc_initialized p" "pc_log p = None"
      "pc_log_worker p = NoWorker" for p
    using that
  proof (induction configs arbitrary: p rs)
    case (Cons config configs)
    obtain r p1 where r: "telemetry_init en config p = (r, p1)" by fastforce
    obtain rs' where rs': "telemetry_inits en configs p1 = (rs', q)" and rs: "rs = r # rs'"
      using Cons.prems(1) by (auto simp: r split: prod.splits)
    note first = telemetry_init_first [OF r Cons.prems(2)]
    show ?case
    proof (cases "logging_failed r")
      case True
      then have "retryable r"
        by (auto simp: retryable_def logging_failed_def split: option.splits sum.splits init_failure.splits)
      with Cons.IH [OF rs'] first(1,3) True Cons.prems(4) show ?thesis by (simp add: rs)
    next
      case False
      with kept [OF rs'] first(4) Cons.prems(3) show ?thesis by (simp add: rs)
    qed
  qed simp
  then show ?thesis
    using assms by (simp add: process_new_def)
qed


section \<open>Instances\<close>

definition quiet_env :: "(unit, unit, unit, unit, nat, unit) telemetry_env" where
  "quiet_env = \<lparr>en_files = \<lparr>fs_create = (\<lambda>_ w. (Inr 0, w)), fs_write = (\<lambda>_ buf w. (Inr (length buf), w))\<rparr>,
     en_tracing = \<lparr>te_probabilistic = \<lparr>pb_new = (\<lambda>_. Inr ()), pb_is_sampled = (\<lambda>_ _ r. (True, r))\<rparr>,
       te_limiter = \<lparr>dl_per_second = (\<lambda>_. ()), dl_check = (\<lambda>_ l. (True, l))\<rparr>,
       te_exporters = (\<lambda>_ w. (Inr (), w))\<rparr>,
     en_sockets = \<lparr>so_call = (\<lambda>_ w. (Inr (), w)), so_exists = (\<lambda>_ _. False)\<rparr>,
     en_jemalloc = plain_jemalloc, en_profiling = False\<rparr>"

text \<open>The reporter's address is given, and in the first case not of the family of the server's.\<close>

definition config_with_bind_addr :: "tcp_addr \<Rightarrow> telemetry_config" where
  "config_with_bind_addr addr =
     \<lparr>tc_service = \<lparr>sv_name_in_metrics = ''svc'', sv_version = ''1''\<rparr>, tc_pid = ''42'',
      tc_logging = \<lparr>li_output = Terminal, li_format = TextFormat, li_verbosity = InfoLevel,
        li_ignore_io_errors = False, li_logging = \<lparr>ls_redact_keys = [],
        ls_rate_limit = \<lparr>rl_enabled = False, rl_max_events_per_second = 0\<rparr>, ls_log_volume_metrics = False\<rparr>\<rparr>,
      tc_tracing = \<lparr>tr_enabled = True, tr_max_queue_size = Some 1000000,
        tr_output = JaegerThriftUdp \<lparr>js_server_addr = AddrV4 ''127.0.0.1:6831'',
          js_reporter_bind_addr = Some addr, js_num_tasks = 1, js_max_batch_size = 100\<rparr>,
        tr_sampling_strategy = PassiveSampling,
        tr_liveness_tracking = \<lparr>lt_enabled = False, lt_track_all_spans = False\<rparr>\<rparr>,
      tc_user_tracing = None,
      tc_server = \<lparr>sv_enabled = False, sv_addr = UnixAddr ''/run/telemetry'',
        sv_memory_profiler = \<lparr>ps_enabled = False, ps_sample_interval = 19\<rparr>\<rparr>,
      tc_router = Inr (), tc_local_addr = Inr (UnixAddr ''/run/telemetry'')\<rparr>"

definition two_attempts :: "(init_failure + telemetry_driver) option list \<times> (unit, unit, unit) process" where
  "two_attempts = telemetry_inits quiet_env
     [config_with_bind_addr (AddrV6 ''[::]:0''), config_with_bind_addr (AddrV4 ''0.0.0.0:0''),
      config_with_bind_addr (AddrV4 ''0.0.0.0:0'')] (process_new ())"

lemma two_attempts_results:
  "map retryable (fst two_attempts) = [True, False, False]"
  "map got_driver (fst two_attempts) = [False, True, False]"
  "map logging_failed (fst two_attempts) = [False, False, False]"
  by (simp_all add: two_attempts_def telemetry_init_def init_tracing_and_server_def start_server_def
      server_new_def tracing_init_def user_tracing_init_def log_init_def output_drain_of_def metrics_init_def
      install_panic_hook_def create_tracer_def jaeger_start_def get_reporter_bind_addr_def
      config_with_bind_addr_def quiet_env_def process_new_def profiler_start_def set_world_def drop_guard_def
      retryable_def got_driver_def logging_failed_def Let_def)

theorem init_settles_witness:
  "fst two_attempts ! 2 = Some (Inl AlreadyInitialized) \<and> fst two_attempts ! 1 \<noteq> Some (Inl AlreadyInitialized)"
proof -
  have "telemetry_inits quiet_env
     [config_with_bind_addr (AddrV6 ''[::]:0''), config_with_bind_addr (AddrV4 ''0.0.0.0:0''),
      config_with_bind_addr (AddrV4 ''0.0.0.0:0'')] (process_new ()) = (fst two_attempts, snd two_attempts)"
    by (simp add: two_attempts_def)
  from conjunct1 [OF init_settles [OF this]]
  have settles: "\<forall>k<length (fst two_attempts). (fst two_attempts ! k = Some (Inl AlreadyInitialized) \<longleftrightarrow>
      (\<exists>i<k. \<not> retryable (fst two_attempts ! i)))"
    by (simp add: process_new_def)
  obtain a b c where abc: "fst two_attempts = [a, b, c]"
    using two_attempts_results(1) by (auto simp: map_eq_Cons_conv)
  have "retryable a" "\<not> retryable b"
    using two_attempts_results(1) by (simp_all add: abc)
  with settles show ?thesis
    by (simp add: abc All_less_Suc2 Ex_less_Suc2 numeral_2_eq_2)
qed

theorem logging_needs_first_attempt_witness:
  "map got_driver (fst two_attempts) = [False, True, False] \<and> pc_log_worker (snd two_attempts) \<noteq> WorkerRunning"
proof -
  have "telemetry_inits quiet_env
     [config_with_bind_addr (AddrV6 ''[::]:0''), config_with_bind_addr (AddrV4 ''0.0.0.0:0''),
      config_with_bind_addr (AddrV4 ''0.0.0.0:0'')] (process_new ()) = (fst two_attempts, snd two_attempts)"
    by (simp add: two_attempts_def)
  note first = logging_needs_first_attempt [OF this]
  obtain a b c where abc: "fst two_attempts = [a, b, c]"
    using two_attempts_results(1) by (auto simp: map_eq_Cons_conv)
  have "\<not> got_driver a" "\<not> logging_failed a"
    using two_attempts_results(2,3) by (simp_all add: abc)
  with first two_attempts_results(2) show ?thesis by (simp add: abc)
qed

end
