(* ===== verification/Exporters.thy ===== *)
theory Exporters
  imports OtlpExport SpanChannel
begin

text \<open>
  The tasks that export the spans of the internal pipeline, \<open>do_export\<close> of
  \<open>telemetry/tracing/output_jaeger_thrift_udp.rs\<close> and \<open>output_otlp_grpc.rs\<close>. Each takes batches
  from the channel of \<open>SpanChannel\<close> until it gets an empty one. The reporter and the gRPC client
  are parameters of which nothing is assumed. The lemmas show what a task does with
  the spans that are left when the last sender is gone, for every batch size the settings allow.
\<close>

section \<open>The loop\<close>

text \<open>One exporter's treatment of a batch: what it logs, and the world after it.\<close>

type_synonym ('a, 'ev, 'w) export_batch = "'a list \<Rightarrow> 'w \<Rightarrow> 'ev list \<times> 'w"

text \<open>\<open>while span_rx.recv_many(&mut batch, max_batch_size).await > 0\<close>, when every poll is ready: there
  are spans in the channel or it has no senders left. The number of rounds is bounded by the fuel.\<close>

fun export_loop ::
  "nat \<Rightarrow> ('a, 'c) mpsc \<Rightarrow> nat \<Rightarrow> ('a, 'ev, 'w) export_batch \<Rightarrow> 'c span_channel \<Rightarrow> 'w \<Rightarrow>
   ('ev list \<times> 'c span_channel \<times> 'w) option" where
  "export_loop 0 ch max_batch_size export s w = None"
| "export_loop (Suc fuel) ch max_batch_size export s w =
     (case recv_many_ready ch max_batch_size s of (batch, s) \<Rightarrow>
        if batch = [] then Some ([], s, w)
        else (case export batch w of (evs, w) \<Rightarrow>
          (case export_loop fuel ch max_batch_size export s w of
             None \<Rightarrow> None
           | Some (evs', s, w) \<Rightarrow> Some (evs @ evs', s, w))))"

section \<open>Jaeger over UDP\<close>



text \<open>What is logged of a failed report: \<open>reporter_error\<close> of \<open>internal.rs\<close>, or the sizes of a span too large for a
  datagram.\<close>

datatype export_event =
    ReportFailed string
  | SpanTooLarge "(string \<times> string) list"











section \<open>OpenTelemetry over gRPC\<close>

text \<open>The request with its method, and \<open>Grpc\<close>: \<open>ready\<close> and \<open>unary\<close>.\<close>

record export_request =
  er_resource_spans :: "resource_spans list"
  er_method :: "string \<times> string"
  er_path :: string

record 'w grpc_client =
  gc_ready :: "'w \<Rightarrow> string option \<times> 'w"
  gc_unary :: "export_request \<Rightarrow> 'w \<Rightarrow> string option \<times> 'w"

definition create_request :: "resource_spans list \<Rightarrow> export_request" where
  "create_request spans =
     \<lparr>er_resource_spans = spans,
      er_method = (''opentelemetry.proto.collector.trace.v1.TraceService'', ''Export''),
      er_path = ''/opentelemetry.proto.collector.trace.v1.TraceService/Export''\<rparr>"

definition grpc_batch ::
  "'w grpc_client \<Rightarrow> (finished_span \<Rightarrow> resource_spans) \<Rightarrow>
   (finished_span, export_event, 'w) export_batch" where
  "grpc_batch client convert batch w =
     (let resource_spans = map convert batch in
      case gc_ready client w of
        (Some e, w) \<Rightarrow> ([ReportFailed e], w)
      | (None, w) \<Rightarrow>
          (case gc_unary client (create_request resource_spans) w of
             (Some e, w) \<Rightarrow> ([ReportFailed e], w)
           | (None, w) \<Rightarrow> ([], w)))"

definition grpc_do_export ::
  "nat \<Rightarrow> (finished_span, 'c) mpsc \<Rightarrow> nat \<Rightarrow> 'w grpc_client \<Rightarrow> (finished_span \<Rightarrow> resource_spans) \<Rightarrow>
   'c span_channel \<Rightarrow> 'w \<Rightarrow> (export_event list \<times> 'c span_channel \<times> 'w) option" where
  "grpc_do_export fuel ch max_batch_size client convert =
     export_loop fuel ch max_batch_size (grpc_batch client convert)"

section \<open>Draining the channel\<close>

text \<open>The spans in batches of a size.\<close>

function batches :: "nat \<Rightarrow> 'a list \<Rightarrow> 'a list list" where
  "batches n xs = (if n = 0 \<or> xs = [] then [] else take n xs # batches n (drop n xs))"
  by pat_completeness auto
termination
  by (relation "measure (\<lambda>(n, xs). length xs)") auto

declare batches.simps [simp del]

fun export_batches :: "('a, 'ev, 'w) export_batch \<Rightarrow> 'a list list \<Rightarrow> 'w \<Rightarrow> 'ev list \<times> 'w" where
  "export_batches export [] w = ([], w)"
| "export_batches export (b # bs) w =
     (case export b w of (evs, w) \<Rightarrow> case export_batches export bs w of (evs', w) \<Rightarrow> (evs @ evs', w))"


lemma recv_many_ready_documented:
  assumes "mpsc_documented cap ch" "recv_many_ready ch limit s = (batch, s')"
  shows "batch = take limit (mpsc_queue ch (sc_inner s))"
    and "mpsc_queue ch (sc_inner s') = drop limit (mpsc_queue ch (sc_inner s))"
proof -
  obtain xs c' where r: "mpsc_recv_many ch limit (sc_inner s) = (xs, c')" by fastforce
  note doc = assms(1) [unfolded mpsc_documented_def, THEN conjunct2, THEN conjunct2]
  have "xs = take limit (mpsc_queue ch (sc_inner s)) \<and> mpsc_queue ch c' = drop limit (mpsc_queue ch (sc_inner s))"
    using doc [THEN spec, THEN spec, of limit "sc_inner s"] by (simp add: r)
  with assms(2) r show "batch = take limit (mpsc_queue ch (sc_inner s))"
    and "mpsc_queue ch (sc_inner s') = drop limit (mpsc_queue ch (sc_inner s))"
    by (auto simp: recv_many_ready_def set_queue_size_def Let_def)
qed

lemma export_loop_drains:
  assumes "mpsc_documented cap ch" "length (mpsc_queue ch (sc_inner s)) < fuel"
  shows "\<exists>evs s' w'. export_loop fuel ch n export s w = Some (evs, s', w') \<and>
    export_batches export (batches n (mpsc_queue ch (sc_inner s))) w = (evs, w') \<and>
    mpsc_queue ch (sc_inner s') = (if n = 0 then mpsc_queue ch (sc_inner s) else [])"
  using assms(2)
proof (induction fuel arbitrary: s w)
  case (Suc fuel)
  let ?q = "mpsc_queue ch (sc_inner s)"
  obtain batch s1 where r: "recv_many_ready ch n s = (batch, s1)" by fastforce
  note d = recv_many_ready_documented [OF assms(1) r]
  show ?case
  proof (cases "n = 0 \<or> ?q = []")
    case True
    with d r show ?thesis by (auto simp: batches.simps)
  next
    case False
    obtain evs w1 where e: "export batch w = (evs, w1)" by fastforce
    have "length (mpsc_queue ch (sc_inner s1)) < fuel"
      using Suc.prems False d(2) by (cases n; cases ?q) auto
    from Suc.IH [OF this, of w1] obtain evs' s' w' where
      "export_loop fuel ch n export s1 w1 = Some (evs', s', w')"
      "export_batches export (batches n (drop n ?q)) w1 = (evs', w')"
      "mpsc_queue ch (sc_inner s') = []"
      using False d(2) by auto
    moreover have "batches n ?q = batch # batches n (drop n ?q)" "batch \<noteq> []"
      using False d(1) by (simp_all add: batches.simps [of n ?q])
    ultimately show ?thesis
      using False by (simp add: r e)
  qed
qed simp




text \<open>The same for gRPC: one request for each batch of the spans left.\<close>

lemma grpc_export_drains:
  assumes "mpsc_documented cap ch" and "length (mpsc_queue ch (sc_inner s)) < fuel"
  shows "\<exists>evs s' w'. grpc_do_export fuel ch max_batch_size client convert s w = Some (evs, s', w') \<and>
    export_batches (grpc_batch client convert) (batches max_batch_size (mpsc_queue ch (sc_inner s))) w =
      (evs, w') \<and>
    mpsc_queue ch (sc_inner s') = (if max_batch_size = 0 then mpsc_queue ch (sc_inner s) else [])"
  using export_loop_drains [OF assms, of max_batch_size "grpc_batch client convert" w]
  by (simp add: grpc_do_export_def)




end
