(* ===== verification/PanicHook.thy ===== *)
theory PanicHook
  imports Counters
begin

text \<open>
  The panic hook, \<open>panic/hook.rs\<close> with \<open>telemetry::is_initialized\<close>: installed once, it counts and
  logs a panic and passes it to the hook that was there before. Other code may set hooks too: the
  standard library's \<open>set_hook\<close> replaces the hook, and one that took the hook before it may pass
  panics on to it. slog's drain, the standard error and the text of \<open>serde_json\<close> are what the
  logged entries go to and are not looked into. The lemmas show which panics are counted and logged,
  that none is so twice, and which other hooks see it.
\<close>

section \<open>Logging a panic\<close>

datatype panic_payload = StrPayload string | StringPayload string | OtherPayload

record panic_location =
  pl_file :: string
  pl_line :: nat
  pl_column :: nat

record panic_info =
  pi_payload :: panic_payload
  pi_location :: "panic_location option"

definition panic_payload_as_str :: "panic_info \<Rightarrow> string" where
  "panic_payload_as_str info =
     (case pi_payload info of
        StrPayload s \<Rightarrow> s | StringPayload s \<Rightarrow> s | OtherPayload \<Rightarrow> ''<non-string panic payload>'')"

text \<open>Where an entry goes: to the log drain, with the location as a value, or as fields of a JSON
  object to the standard error. What writing returns is ignored.\<close>

datatype panic_entry =
    DrainEntry string "panic_location option"
  | StderrEntry "(string \<times> string) list"

definition location_text :: "panic_location option \<Rightarrow> string" where
  "location_text location =
     (case location of
        None \<Rightarrow> ''<unknown>''
      | Some l \<Rightarrow> pl_file l @ '':'' @ show_int (int (pl_line l)) @ '':'' @ show_int (int (pl_column l)))"

definition log_panic :: "bool \<Rightarrow> panic_info \<Rightarrow> panic_entry" where
  "log_panic is_initialized info =
     (let payload = panic_payload_as_str info in
      if is_initialized then DrainEntry payload (pi_location info)
      else StderrEntry [(''level'', ''error''), (''msg'', ''panic occurred''), (''payload'', payload),
        (''location'', location_text (pi_location info))])"

section \<open>Hooks\<close>

text \<open>The hook of the process: the default one, the one of this library with the hook it took the
  place of, or another, which may pass panics on to a hook that it took.\<close>

datatype panic_hook =
    DefaultHook
  | FoundationsHook panic_hook
  | OtherHook nat "panic_hook option"

record panic_state =
  ps_once :: bool
  ps_hook :: panic_hook
  ps_total :: u64
  ps_entries :: "panic_entry list"
  ps_others :: "nat list"
  ps_defaults :: nat

definition panic_state_new :: panic_state where
  "panic_state_new = \<lparr>ps_once = False, ps_hook = DefaultHook, ps_total = 0, ps_entries = [],
     ps_others = [], ps_defaults = 0\<rparr>"

text \<open>The standard library: \<open>take_hook\<close> leaves the default hook, \<open>set_hook\<close> drops the hook that is
  there.\<close>

definition take_hook :: "panic_state \<Rightarrow> panic_hook \<times> panic_state" where
  "take_hook s = (ps_hook s, s\<lparr>ps_hook := DefaultHook\<rparr>)"

definition set_hook :: "panic_hook \<Rightarrow> panic_state \<Rightarrow> panic_state" where
  "set_hook hook s = s\<lparr>ps_hook := hook\<rparr>"

text \<open>\<open>install_hook\<close>: under a \<open>Once\<close>; the result is whether this call did it.\<close>

definition install_hook :: "panic_state \<Rightarrow> bool \<times> panic_state" where
  "install_hook s =
     (if ps_once s then (False, s)
      else (case take_hook (s\<lparr>ps_once := True\<rparr>) of
        (previous, s) \<Rightarrow> (True, set_hook (FoundationsHook previous) s)))"

fun run_hook :: "bool \<Rightarrow> panic_info \<Rightarrow> panic_hook \<Rightarrow> panic_state \<Rightarrow> panic_state" where
  "run_hook is_initialized info DefaultHook s = s\<lparr>ps_defaults := ps_defaults s + 1\<rparr>"
| "run_hook is_initialized info (OtherHook n previous) s =
     (let s = s\<lparr>ps_others := ps_others s @ [n]\<rparr>
      in case previous of None \<Rightarrow> s | Some previous \<Rightarrow> run_hook is_initialized info previous s)"
| "run_hook is_initialized info (FoundationsHook previous) s =
     (let s = s\<lparr>ps_total := snd (counter_u64_inc (ps_total s))\<rparr>;
          s = s\<lparr>ps_entries := ps_entries s @ [log_panic is_initialized info]\<rparr>
      in run_hook is_initialized info previous s)"

text \<open>What happens in a process: installations, other code that sets a hook in place of the one that
  is there, that sets a hook which passes panics on to the one it took, or that takes the hook and
  sets none, and panics with the state of telemetry.\<close>

datatype panic_op =
    Install
  | SetOther nat
  | ChainOther nat
  | TakeAway
  | Panics bool panic_info

fun panic_step :: "panic_op \<Rightarrow> panic_state \<Rightarrow> panic_state" where
  "panic_step Install s = snd (install_hook s)"
| "panic_step (SetOther n) s = set_hook (OtherHook n None) s"
| "panic_step (ChainOther n) s =
     (case take_hook s of (previous, s) \<Rightarrow> set_hook (OtherHook n (Some previous)) s)"
| "panic_step TakeAway s = snd (take_hook s)"
| "panic_step (Panics is_initialized info) s = run_hook is_initialized info (ps_hook s) s"

section \<open>Every panic once\<close>

text \<open>The reference: who hears of a panic, which is whether the library's hook, which other hooks, the
  last first, and whether the default hook. The library's hook comes in with the first installation
  only.\<close>

record panic_view =
  pv_installed :: bool
  pv_foundations :: bool
  pv_others :: "nat list"
  pv_default :: bool

definition panic_view_new :: panic_view where
  "panic_view_new =
     \<lparr>pv_installed = False, pv_foundations = False, pv_others = [], pv_default = True\<rparr>"

fun view_step :: "panic_op \<Rightarrow> panic_view \<Rightarrow> panic_view" where
  "view_step Install v =
     (if pv_installed v then v else v\<lparr>pv_installed := True, pv_foundations := True\<rparr>)"
| "view_step (SetOther n) v = v\<lparr>pv_foundations := False, pv_others := [n], pv_default := False\<rparr>"
| "view_step (ChainOther n) v = v\<lparr>pv_others := n # pv_others v\<rparr>"
| "view_step TakeAway v = v\<lparr>pv_foundations := False, pv_others := [], pv_default := True\<rparr>"
| "view_step (Panics is_initialized info) v = v"

fun panic_reference ::
  "panic_op list \<Rightarrow> panic_view \<Rightarrow> panic_entry list \<times> nat list \<times> nat" where
  "panic_reference [] v = ([], [], 0)"
| "panic_reference (Panics is_initialized info # ops) v =
     (case panic_reference ops v of (es, os, d) \<Rightarrow>
        ((if pv_foundations v then [log_panic is_initialized info] else []) @ es,
         pv_others v @ os, (if pv_default v then 1 else 0) + d))"
| "panic_reference (op # ops) v = panic_reference ops (view_step op v)"

fun foundations_hooks :: "panic_hook \<Rightarrow> nat" where
  "foundations_hooks DefaultHook = 0"
| "foundations_hooks (FoundationsHook h) = Suc (foundations_hooks h)"
| "foundations_hooks (OtherHook n h) = (case h of None \<Rightarrow> 0 | Some h \<Rightarrow> foundations_hooks h)"

fun other_hooks :: "panic_hook \<Rightarrow> nat list" where
  "other_hooks DefaultHook = []"
| "other_hooks (FoundationsHook h) = other_hooks h"
| "other_hooks (OtherHook n h) = n # (case h of None \<Rightarrow> [] | Some h \<Rightarrow> other_hooks h)"

fun default_hooks :: "panic_hook \<Rightarrow> nat" where
  "default_hooks DefaultHook = 1"
| "default_hooks (FoundationsHook h) = default_hooks h"
| "default_hooks (OtherHook n h) = (case h of None \<Rightarrow> 0 | Some h \<Rightarrow> default_hooks h)"

lemma run_hook_result:
  "run_hook b info h s =
     s\<lparr>ps_total := ps_total s + of_nat (foundations_hooks h),
       ps_entries := ps_entries s @ replicate (foundations_hooks h) (log_panic b info),
       ps_others := ps_others s @ other_hooks h, ps_defaults := ps_defaults s + default_hooks h\<rparr>"
proof (induction h arbitrary: s)
  case (FoundationsHook h)
  then show ?case
    by (simp add: counter_u64_inc_def counter_u64_inc_by_def fetch_add_def Let_def add.assoc)
next
  case (OtherHook n h)
  then show ?case
    by (cases h) (simp_all add: Let_def)
qed simp

text \<open>The view of the hook that is set.\<close>

definition view_ok :: "panic_view \<Rightarrow> panic_state \<Rightarrow> bool" where
  "view_ok v s \<longleftrightarrow> pv_installed v = ps_once s \<and> (pv_foundations v \<longrightarrow> ps_once s) \<and>
     foundations_hooks (ps_hook s) = (if pv_foundations v then 1 else 0) \<and>
     other_hooks (ps_hook s) = pv_others v \<and>
     default_hooks (ps_hook s) = (if pv_default v then 1 else 0)"

lemma view_ok_step: "view_ok v s \<Longrightarrow> view_ok (view_step op v) (panic_step op s)"
  by (cases op)
    (auto simp: view_ok_def install_hook_def set_hook_def take_hook_def run_hook_result)

lemma panic_ops_reference:
  assumes "view_ok v s" "panic_reference ops v = (es, os, d)"
  shows "ps_entries (fold panic_step ops s) = ps_entries s @ es \<and>
    ps_total (fold panic_step ops s) = ps_total s + of_nat (length es) \<and>
    ps_others (fold panic_step ops s) = ps_others s @ os \<and>
    ps_defaults (fold panic_step ops s) = ps_defaults s + d"
  using assms
proof (induction ops arbitrary: v s es os d)
  case (Cons op ops)
  let ?s = "panic_step op s" and ?v = "view_step op v"
  obtain es' os' d' where r: "panic_reference ops ?v = (es', os', d')"
    by (cases "panic_reference ops ?v")
  note rest = Cons.IH [OF view_ok_step [OF Cons.prems(1), of op] r]
  show ?case
  proof (cases "\<exists>b info. op = Panics b info")
    case True
    with rest r Cons.prems show ?thesis
      by (auto simp: run_hook_result view_ok_def)
  next
    case False
    then have "panic_reference (op # ops) v = panic_reference ops ?v"
      "ps_entries ?s = ps_entries s" "ps_total ?s = ps_total s" "ps_others ?s = ps_others s"
      "ps_defaults ?s = ps_defaults s"
      by (cases op; simp add: install_hook_def set_hook_def take_hook_def)+
    with rest r Cons.prems(2) show ?thesis by simp
  qed
qed simp

text \<open>C25: in any sequence of installations, of hooks that other code sets or takes away and of
  panics, a panic is counted once and logged once exactly if the hook has been installed and no other
  code has since set a hook that does not pass panics on or taken the hook away, however often it is
  installed: once it is cut off, installing it again does not bring it back. No other panic is
  counted or logged. The hooks of other code and the default hook see a panic as often as if this
  library's hook were not there: each that is set and not cut off since, once.\<close>

theorem panics_counted_once:
  "let s = fold panic_step ops panic_state_new in
     panic_reference ops panic_view_new = (ps_entries s, ps_others s, ps_defaults s) \<and>
     ps_total s = of_nat (length (ps_entries s))"
proof -
  obtain es os d where r: "panic_reference ops panic_view_new = (es, os, d)"
    by (cases "panic_reference ops panic_view_new")
  have "view_ok panic_view_new panic_state_new"
    by (simp add: view_ok_def panic_view_new_def panic_state_new_def)
  from panic_ops_reference [OF this r] r show ?thesis
    by (simp add: panic_state_new_def Let_def)
qed

text \<open>A hook that replaces the one before it cuts the library's off.\<close>

lemma replaced_hook_counts_nothing:
  "let s = fold panic_step
       [Panics False info, Install, Panics False info, ChainOther 1, Panics False info,
        SetOther 2, Install, Panics False info] panic_state_new
   in ps_total s = 2 \<and> ps_others s = [1, 2] \<and> ps_defaults s = 3"
  by (simp add: panic_state_new_def install_hook_def take_hook_def set_hook_def
      counter_u64_inc_def counter_u64_inc_by_def fetch_add_def)

end
