(* ===== verification/Syscalls.thy ===== *)
theory Syscalls
  imports Prelude
begin

text \<open>
  The \<open>Syscall\<close> enumerations of \<open>security/syscalls/\<close>, one per processor architecture: the
  variants with their discriminants, in the order of the source and in ranges of its lines. A \<open>Syscall\<close> is the name of a
  variant; \<open>as i32\<close> looks its discriminant up.
\<close>

datatype target_arch = X86_64 | Aarch64

definition syscalls_x86_64_1 :: "(string \<times> int) list" where
  "syscalls_x86_64_1 =
     [(''_sysctl'', 156), (''accept'', 43), (''accept4'', 288), (''access'', 21), (''acct'',
      163), (''add_key'', 248), (''adjtimex'', 159), (''afs_syscall'', 183), (''alarm'',
      37), (''arch_prctl'', 158), (''bind'', 49), (''bpf'', 321), (''brk'', 12),
      (''capget'', 125), (''capset'', 126), (''chdir'', 80), (''chmod'', 90), (''chown'',
      92), (''chroot'', 161), (''clock_adjtime'', 305), (''clock_getres'', 229),
      (''clock_gettime'', 228), (''clock_nanosleep'', 230), (''clock_settime'', 227),
      (''clone'', 56), (''clone3'', 435), (''close'', 3), (''close_range'', 436),
      (''connect'', 42), (''copy_file_range'', 326), (''creat'', 85), (''create_module'',
      174), (''delete_module'', 176), (''dup'', 32), (''dup2'', 33), (''dup3'', 292),
      (''epoll_create'', 213), (''epoll_create1'', 291), (''epoll_ctl'', 233),
      (''epoll_ctl_old'', 214), (''epoll_pwait'', 281), (''epoll_pwait2'', 441),
      (''epoll_wait'', 232), (''epoll_wait_old'', 215), (''eventfd'', 284), (''eventfd2'',
      290), (''execve'', 59), (''execveat'', 322), (''exit'', 60), (''exit_group'', 231),
      (''faccessat'', 269), (''faccessat2'', 439), (''fadvise64'', 221), (''fallocate'',
      285), (''fanotify_init'', 300), (''fanotify_mark'', 301), (''fchdir'', 81),
      (''fchmod'', 91), (''fchmodat'', 268), (''fchown'', 93), (''fchownat'', 260),
      (''fcntl'', 72), (''fdatasync'', 75), (''fgetxattr'', 193), (''finit_module'', 313),
      (''flistxattr'', 196), (''flock'', 73), (''fork'', 57), (''fremovexattr'', 199),
      (''fsconfig'', 431), (''fsetxattr'', 190), (''fsmount'', 432), (''fsopen'', 430),
      (''fspick'', 433)]"

definition syscalls_x86_64_2 :: "(string \<times> int) list" where
  "syscalls_x86_64_2 =
     [(''fstat'', 5), (''fstatfs'', 138), (''fsync'', 74), (''ftruncate'', 77), (''futex'',
      202), (''futex_waitv'', 449), (''futimesat'', 261), (''get_kernel_syms'', 177),
      (''get_mempolicy'', 239), (''get_robust_list'', 274), (''get_thread_area'', 211),
      (''getcpu'', 309), (''getcwd'', 79), (''getdents'', 78), (''getdents64'', 217),
      (''getegid'', 108), (''geteuid'', 107), (''getgid'', 104), (''getgroups'', 115),
      (''getitimer'', 36), (''getpeername'', 52), (''getpgid'', 121), (''getpgrp'', 111),
      (''getpid'', 39), (''getpmsg'', 181), (''getppid'', 110), (''getpriority'', 140),
      (''getrandom'', 318), (''getresgid'', 120), (''getresuid'', 118), (''getrlimit'', 97),
      (''getrusage'', 98), (''getsid'', 124), (''getsockname'', 51), (''getsockopt'', 55),
      (''gettid'', 186), (''gettimeofday'', 96), (''getuid'', 102), (''getxattr'', 191),
      (''init_module'', 175), (''inotify_add_watch'', 254), (''inotify_init'', 253),
      (''inotify_init1'', 294), (''inotify_rm_watch'', 255), (''io_cancel'', 210),
      (''io_destroy'', 207), (''io_getevents'', 208), (''io_pgetevents'', 333),
      (''io_setup'', 206), (''io_submit'', 209), (''io_uring_enter'', 426),
      (''io_uring_register'', 427), (''io_uring_setup'', 425), (''ioctl'', 16), (''ioperm'',
      173), (''iopl'', 172), (''ioprio_get'', 252), (''ioprio_set'', 251), (''kcmp'', 312),
      (''kexec_file_load'', 320), (''kexec_load'', 246), (''keyctl'', 250), (''kill'', 62),
      (''landlock_add_rule'', 445), (''landlock_create_ruleset'', 444),
      (''landlock_restrict_self'', 446), (''lchown'', 94), (''lgetxattr'', 192), (''link'',
      86), (''linkat'', 265), (''listen'', 50), (''listxattr'', 194), (''llistxattr'', 195),
      (''lookup_dcookie'', 212)]"

definition syscalls_x86_64_3 :: "(string \<times> int) list" where
  "syscalls_x86_64_3 =
     [(''lremovexattr'', 198), (''lseek'', 8), (''lsetxattr'', 189), (''lstat'', 6),
      (''madvise'', 28), (''mbind'', 237), (''membarrier'', 324), (''memfd_create'', 319),
      (''memfd_secret'', 447), (''migrate_pages'', 256), (''mincore'', 27), (''mkdir'', 83),
      (''mkdirat'', 258), (''mknod'', 133), (''mknodat'', 259), (''mlock'', 149),
      (''mlock2'', 325), (''mlockall'', 151), (''mmap'', 9), (''modify_ldt'', 154),
      (''mount'', 165), (''mount_setattr'', 442), (''move_mount'', 429), (''move_pages'',
      279), (''mprotect'', 10), (''mq_getsetattr'', 245), (''mq_notify'', 244),
      (''mq_open'', 240), (''mq_timedreceive'', 243), (''mq_timedsend'', 242),
      (''mq_unlink'', 241), (''mremap'', 25), (''msgctl'', 71), (''msgget'', 68),
      (''msgrcv'', 70), (''msgsnd'', 69), (''msync'', 26), (''munlock'', 150),
      (''munlockall'', 152), (''munmap'', 11), (''name_to_handle_at'', 303), (''nanosleep'',
      35), (''newfstatat'', 262), (''nfsservctl'', 180), (''open'', 2),
      (''open_by_handle_at'', 304), (''open_tree'', 428), (''openat'', 257), (''openat2'',
      437), (''pause'', 34), (''perf_event_open'', 298), (''personality'', 135),
      (''pidfd_getfd'', 438), (''pidfd_open'', 434), (''pidfd_send_signal'', 424),
      (''pipe'', 22), (''pipe2'', 293), (''pivot_root'', 155), (''pkey_alloc'', 330),
      (''pkey_free'', 331), (''pkey_mprotect'', 329), (''poll'', 7), (''ppoll'', 271),
      (''prctl'', 157), (''pread64'', 17), (''preadv'', 295), (''preadv2'', 327),
      (''prlimit64'', 302), (''process_madvise'', 440), (''process_mrelease'', 448),
      (''process_vm_readv'', 310), (''process_vm_writev'', 311), (''pselect6'', 270),
      (''ptrace'', 101)]"

definition syscalls_x86_64_4 :: "(string \<times> int) list" where
  "syscalls_x86_64_4 =
     [(''putpmsg'', 182), (''pwrite64'', 18), (''pwritev'', 296), (''pwritev2'', 328),
      (''query_module'', 178), (''quotactl'', 179), (''quotactl_fd'', 443), (''read'', 0),
      (''readahead'', 187), (''readlink'', 89), (''readlinkat'', 267), (''readv'', 19),
      (''reboot'', 169), (''recvfrom'', 45), (''recvmmsg'', 299), (''recvmsg'', 47),
      (''remap_file_pages'', 216), (''removexattr'', 197), (''rename'', 82), (''renameat'',
      264), (''renameat2'', 316), (''request_key'', 249), (''restart_syscall'', 219),
      (''rmdir'', 84), (''rseq'', 334), (''rt_sigaction'', 13), (''rt_sigpending'', 127),
      (''rt_sigprocmask'', 14), (''rt_sigqueueinfo'', 129), (''rt_sigreturn'', 15),
      (''rt_sigsuspend'', 130), (''rt_sigtimedwait'', 128), (''rt_tgsigqueueinfo'', 297),
      (''sched_get_priority_max'', 146), (''sched_get_priority_min'', 147),
      (''sched_getaffinity'', 204), (''sched_getattr'', 315), (''sched_getparam'', 143),
      (''sched_getscheduler'', 145), (''sched_rr_get_interval'', 148),
      (''sched_setaffinity'', 203), (''sched_setattr'', 314), (''sched_setparam'', 142),
      (''sched_setscheduler'', 144), (''sched_yield'', 24), (''seccomp'', 317),
      (''security'', 185), (''select'', 23), (''semctl'', 66), (''semget'', 64), (''semop'',
      65), (''semtimedop'', 220), (''sendfile'', 40), (''sendmmsg'', 307), (''sendmsg'',
      46), (''sendto'', 44), (''set_mempolicy'', 238), (''set_mempolicy_home_node'', 450),
      (''set_robust_list'', 273), (''set_thread_area'', 205), (''set_tid_address'', 218),
      (''setdomainname'', 171), (''setfsgid'', 123), (''setfsuid'', 122), (''setgid'', 106),
      (''setgroups'', 116), (''sethostname'', 170), (''setitimer'', 38), (''setns'', 308),
      (''setpgid'', 109), (''setpriority'', 141), (''setregid'', 114), (''setresgid'', 119),
      (''setresuid'', 117)]"

definition syscalls_x86_64_5 :: "(string \<times> int) list" where
  "syscalls_x86_64_5 =
     [(''setreuid'', 113), (''setrlimit'', 160), (''setsid'', 112), (''setsockopt'', 54),
      (''settimeofday'', 164), (''setuid'', 105), (''setxattr'', 188), (''shmat'', 30),
      (''shmctl'', 31), (''shmdt'', 67), (''shmget'', 29), (''shutdown'', 48),
      (''sigaltstack'', 131), (''signalfd'', 282), (''signalfd4'', 289), (''socket'', 41),
      (''socketpair'', 53), (''splice'', 275), (''stat'', 4), (''statfs'', 137), (''statx'',
      332), (''swapoff'', 168), (''swapon'', 167), (''symlink'', 88), (''symlinkat'', 266),
      (''sync'', 162), (''sync_file_range'', 277), (''syncfs'', 306), (''sysfs'', 139),
      (''sysinfo'', 99), (''syslog'', 103), (''tee'', 276), (''tgkill'', 234), (''time'',
      201), (''timer_create'', 222), (''timer_delete'', 226), (''timer_getoverrun'', 225),
      (''timer_gettime'', 224), (''timer_settime'', 223), (''timerfd_create'', 283),
      (''timerfd_gettime'', 287), (''timerfd_settime'', 286), (''times'', 100), (''tkill'',
      200), (''truncate'', 76), (''tuxcall'', 184), (''umask'', 95), (''umount2'', 166),
      (''uname'', 63), (''unlink'', 87), (''unlinkat'', 263), (''unshare'', 272),
      (''uselib'', 134), (''userfaultfd'', 323), (''ustat'', 136), (''utime'', 132),
      (''utimensat'', 280), (''utimes'', 235), (''vfork'', 58), (''vhangup'', 153),
      (''vmsplice'', 278), (''vserver'', 236), (''wait4'', 61), (''waitid'', 247),
      (''write'', 1), (''writev'', 20)]"

definition syscalls_x86_64 :: "(string \<times> int) list" where
  "syscalls_x86_64 = syscalls_x86_64_1 @ syscalls_x86_64_2 @ syscalls_x86_64_3 @ syscalls_x86_64_4 @ syscalls_x86_64_5"

definition syscalls_aarch64_1 :: "(string \<times> int) list" where
  "syscalls_aarch64_1 =
     [(''accept'', 202), (''accept4'', 242), (''acct'', 89), (''add_key'', 217),
      (''adjtimex'', 171), (''bind'', 200), (''bpf'', 280), (''brk'', 214), (''capget'',
      90), (''capset'', 91), (''chdir'', 49), (''chroot'', 51), (''clock_adjtime'', 266),
      (''clock_getres'', 114), (''clock_gettime'', 113), (''clock_nanosleep'', 115),
      (''clock_settime'', 112), (''clone'', 220), (''clone3'', 435), (''close'', 57),
      (''close_range'', 436), (''connect'', 203), (''copy_file_range'', 285),
      (''delete_module'', 106), (''dup'', 23), (''dup3'', 24), (''epoll_create1'', 20),
      (''epoll_ctl'', 21), (''epoll_pwait'', 22), (''epoll_pwait2'', 441), (''eventfd2'',
      19), (''execve'', 221), (''execveat'', 281), (''exit'', 93), (''exit_group'', 94),
      (''faccessat'', 48), (''faccessat2'', 439), (''fadvise64'', 223), (''fallocate'', 47),
      (''fanotify_init'', 262), (''fanotify_mark'', 263), (''fchdir'', 50), (''fchmod'',
      52), (''fchmodat'', 53), (''fchown'', 55), (''fchownat'', 54), (''fcntl'', 25),
      (''fdatasync'', 83), (''fgetxattr'', 10), (''finit_module'', 273), (''flistxattr'',
      13), (''flock'', 32), (''fremovexattr'', 16), (''fsconfig'', 431), (''fsetxattr'', 7),
      (''fsmount'', 432), (''fsopen'', 430), (''fspick'', 433), (''fstat'', 80),
      (''fstatfs'', 44), (''fsync'', 82), (''ftruncate'', 46), (''futex'', 98),
      (''futex_waitv'', 449), (''get_mempolicy'', 236), (''get_robust_list'', 100),
      (''getcpu'', 168), (''getcwd'', 17), (''getdents64'', 61), (''getegid'', 177),
      (''geteuid'', 175), (''getgid'', 176), (''getgroups'', 158), (''getitimer'', 102)]"

definition syscalls_aarch64_2 :: "(string \<times> int) list" where
  "syscalls_aarch64_2 =
     [(''getpeername'', 205), (''getpgid'', 155), (''getpid'', 172), (''getppid'', 173),
      (''getpriority'', 141), (''getrandom'', 278), (''getresgid'', 150), (''getresuid'',
      148), (''getrlimit'', 163), (''getrusage'', 165), (''getsid'', 156), (''getsockname'',
      204), (''getsockopt'', 209), (''gettid'', 178), (''gettimeofday'', 169), (''getuid'',
      174), (''getxattr'', 8), (''init_module'', 105), (''inotify_add_watch'', 27),
      (''inotify_init1'', 26), (''inotify_rm_watch'', 28), (''io_cancel'', 3),
      (''io_destroy'', 1), (''io_getevents'', 4), (''io_pgetevents'', 292), (''io_setup'',
      0), (''io_submit'', 2), (''io_uring_enter'', 426), (''io_uring_register'', 427),
      (''io_uring_setup'', 425), (''ioctl'', 29), (''ioprio_get'', 31), (''ioprio_set'',
      30), (''kcmp'', 272), (''kexec_file_load'', 294), (''kexec_load'', 104), (''keyctl'',
      219), (''kill'', 129), (''landlock_add_rule'', 445), (''landlock_create_ruleset'',
      444), (''landlock_restrict_self'', 446), (''lgetxattr'', 9), (''linkat'', 37),
      (''listen'', 201), (''listxattr'', 11), (''llistxattr'', 12), (''lookup_dcookie'',
      18), (''lremovexattr'', 15), (''lseek'', 62), (''lsetxattr'', 6), (''madvise'', 233),
      (''mbind'', 235), (''membarrier'', 283), (''memfd_create'', 279), (''memfd_secret'',
      447), (''migrate_pages'', 238), (''mincore'', 232), (''mkdirat'', 34), (''mknodat'',
      33), (''mlock'', 228), (''mlock2'', 284), (''mlockall'', 230), (''mmap'', 222),
      (''mount'', 40), (''mount_setattr'', 442), (''move_mount'', 429), (''move_pages'',
      239), (''mprotect'', 226), (''mq_getsetattr'', 185), (''mq_notify'', 184),
      (''mq_open'', 180), (''mq_timedreceive'', 183), (''mq_timedsend'', 182),
      (''mq_unlink'', 181)]"

definition syscalls_aarch64_3 :: "(string \<times> int) list" where
  "syscalls_aarch64_3 =
     [(''mremap'', 216), (''msgctl'', 187), (''msgget'', 186), (''msgrcv'', 188),
      (''msgsnd'', 189), (''msync'', 227), (''munlock'', 229), (''munlockall'', 231),
      (''munmap'', 215), (''name_to_handle_at'', 264), (''nanosleep'', 101),
      (''newfstatat'', 79), (''nfsservctl'', 42), (''open_by_handle_at'', 265),
      (''open_tree'', 428), (''openat'', 56), (''openat2'', 437), (''perf_event_open'',
      241), (''personality'', 92), (''pidfd_getfd'', 438), (''pidfd_open'', 434),
      (''pidfd_send_signal'', 424), (''pipe2'', 59), (''pivot_root'', 41), (''pkey_alloc'',
      289), (''pkey_free'', 290), (''pkey_mprotect'', 288), (''ppoll'', 73), (''prctl'',
      167), (''pread64'', 67), (''preadv'', 69), (''preadv2'', 286), (''prlimit64'', 261),
      (''process_madvise'', 440), (''process_mrelease'', 448), (''process_vm_readv'', 270),
      (''process_vm_writev'', 271), (''pselect6'', 72), (''ptrace'', 117), (''pwrite64'',
      68), (''pwritev'', 70), (''pwritev2'', 287), (''quotactl'', 60), (''quotactl_fd'',
      443), (''read'', 63), (''readahead'', 213), (''readlinkat'', 78), (''readv'', 65),
      (''reboot'', 142), (''recvfrom'', 207), (''recvmmsg'', 243), (''recvmsg'', 212),
      (''remap_file_pages'', 234), (''removexattr'', 14), (''renameat'', 38),
      (''renameat2'', 276), (''request_key'', 218), (''restart_syscall'', 128), (''rseq'',
      293), (''rt_sigaction'', 134), (''rt_sigpending'', 136), (''rt_sigprocmask'', 135),
      (''rt_sigqueueinfo'', 138), (''rt_sigreturn'', 139), (''rt_sigsuspend'', 133),
      (''rt_sigtimedwait'', 137), (''rt_tgsigqueueinfo'', 240), (''sched_get_priority_max'',
      125), (''sched_get_priority_min'', 126), (''sched_getaffinity'', 123),
      (''sched_getattr'', 275), (''sched_getparam'', 121), (''sched_getscheduler'', 120),
      (''sched_rr_get_interval'', 127)]"

definition syscalls_aarch64_4 :: "(string \<times> int) list" where
  "syscalls_aarch64_4 =
     [(''sched_setaffinity'', 122), (''sched_setattr'', 274), (''sched_setparam'', 118),
      (''sched_setscheduler'', 119), (''sched_yield'', 124), (''seccomp'', 277),
      (''semctl'', 191), (''semget'', 190), (''semop'', 193), (''semtimedop'', 192),
      (''sendfile'', 71), (''sendmmsg'', 269), (''sendmsg'', 211), (''sendto'', 206),
      (''set_mempolicy'', 237), (''set_mempolicy_home_node'', 450), (''set_robust_list'',
      99), (''set_tid_address'', 96), (''setdomainname'', 162), (''setfsgid'', 152),
      (''setfsuid'', 151), (''setgid'', 144), (''setgroups'', 159), (''sethostname'', 161),
      (''setitimer'', 103), (''setns'', 268), (''setpgid'', 154), (''setpriority'', 140),
      (''setregid'', 143), (''setresgid'', 149), (''setresuid'', 147), (''setreuid'', 145),
      (''setrlimit'', 164), (''setsid'', 157), (''setsockopt'', 208), (''settimeofday'',
      170), (''setuid'', 146), (''setxattr'', 5), (''shmat'', 196), (''shmctl'', 195),
      (''shmdt'', 197), (''shmget'', 194), (''shutdown'', 210), (''sigaltstack'', 132),
      (''signalfd4'', 74), (''socket'', 198), (''socketpair'', 199), (''splice'', 76),
      (''statfs'', 43), (''statx'', 291), (''swapoff'', 225), (''swapon'', 224),
      (''symlinkat'', 36), (''sync'', 81), (''sync_file_range'', 84), (''syncfs'', 267),
      (''sysinfo'', 179), (''syslog'', 116), (''tee'', 77), (''tgkill'', 131),
      (''timer_create'', 107), (''timer_delete'', 111), (''timer_getoverrun'', 109),
      (''timer_gettime'', 108), (''timer_settime'', 110), (''timerfd_create'', 85),
      (''timerfd_gettime'', 87), (''timerfd_settime'', 86), (''times'', 153), (''tkill'',
      130), (''truncate'', 45), (''umask'', 166), (''umount2'', 39), (''uname'', 160)]"

definition syscalls_aarch64_5 :: "(string \<times> int) list" where
  "syscalls_aarch64_5 =
     [(''unlinkat'', 35), (''unshare'', 97), (''userfaultfd'', 282), (''utimensat'', 88),
      (''vhangup'', 58), (''vmsplice'', 75), (''wait4'', 260), (''waitid'', 95), (''write'',
      64), (''writev'', 66)]"

definition syscalls_aarch64 :: "(string \<times> int) list" where
  "syscalls_aarch64 = syscalls_aarch64_1 @ syscalls_aarch64_2 @ syscalls_aarch64_3 @ syscalls_aarch64_4 @ syscalls_aarch64_5"

definition syscall_table :: "target_arch \<Rightarrow> (string \<times> int) list" where
  "syscall_table arch = (case arch of X86_64 \<Rightarrow> syscalls_x86_64 | Aarch64 \<Rightarrow> syscalls_aarch64)"

text \<open>A name that is no variant has no number.\<close>

definition syscall_number :: "target_arch \<Rightarrow> string \<Rightarrow> int option" where
  "syscall_number arch = map_of (syscall_table arch)"

lemmas syscalls_x86_64_defs = syscalls_x86_64_def syscalls_x86_64_1_def syscalls_x86_64_2_def
  syscalls_x86_64_3_def syscalls_x86_64_4_def syscalls_x86_64_5_def

lemmas syscalls_aarch64_defs = syscalls_aarch64_def syscalls_aarch64_1_def syscalls_aarch64_2_def
  syscalls_aarch64_3_def syscalls_aarch64_4_def syscalls_aarch64_5_def

lemma syscall_numbers_distinct_x86_64: "distinct (map snd syscalls_x86_64)"
  by (simp add: syscalls_x86_64_defs)

lemma syscall_numbers_distinct_aarch64: "distinct (map snd syscalls_aarch64)"
  by (simp add: syscalls_aarch64_defs)

lemma syscall_numbers_distinct: "distinct (map snd (syscall_table arch))"
  by (cases arch)
    (simp_all only: syscall_table_def target_arch.case syscall_numbers_distinct_x86_64
      syscall_numbers_distinct_aarch64)

lemma syscall_number_inj:
  assumes "syscall_number arch a = Some n" "syscall_number arch b = Some n"
  shows "a = b"
proof -
  have "(a, n) \<in> set (syscall_table arch)" "(b, n) \<in> set (syscall_table arch)"
    using assms by (auto simp: syscall_number_def dest: map_of_SomeD)
  then show ?thesis
    using syscall_numbers_distinct [of arch]
    by (metis distinct_map inj_onD prod.inject snd_conv)
qed

lemma syscall_numbers_x86_64_nonneg: "list_all (\<lambda>e. 0 \<le> snd e) syscalls_x86_64"
  by (simp add: syscalls_x86_64_defs)

lemma syscall_numbers_aarch64_nonneg: "list_all (\<lambda>e. 0 \<le> snd e) syscalls_aarch64"
  by (simp add: syscalls_aarch64_defs)

lemma syscall_number_nonneg: "syscall_number arch s = Some n \<Longrightarrow> 0 \<le> n"
  using syscall_numbers_x86_64_nonneg syscall_numbers_aarch64_nonneg
  by (cases arch)
    (auto simp: syscall_number_def syscall_table_def list_all_iff dest!: map_of_SomeD)

end
