(* ===== verification/Sandbox.thy ===== *)
theory Sandbox
  imports Syscalls
begin

unbundle bit_operations_syntax

text \<open>
  System call sandboxing, \<open>security/mod.rs\<close>, \<open>security/internal.rs\<close> and the allow lists of
  \<open>security/common_syscall_allow_lists.rs\<close>. libseccomp is a parameter: what is used of it is its
  documentation, that a filter context collects its rules and that a loaded filter takes the
  default action for a call no rule matches and a rule's action when all the rules that match
  agree on it. The constants of the generated bindings are a parameter. The lemmas show that the
  kernel decides as the rules say, and what the allow lists of the crate can never let through.
\<close>

section \<open>Rules\<close>

datatype violation_action = KillProcess | AllowAndLogViolation

datatype arg_cmp =
    NotEqual u32 u64
  | LessThan u32 u64
  | LessThanOrEqual u32 u64
  | Equal u32 u64
  | GreaterThanOrEqual u32 u64
  | GreaterThan u32 u64
  | EqualMasked (masked_arg_idx: u32) (cmp_mask: u64) (masked_value: u64)

datatype rule =
    Allow (rule_syscall: string) (rule_cmps: "arg_cmp list")
  | AllowAndLog (rule_syscall: string) (rule_cmps: "arg_cmp list")
  | ReturnError (rule_syscall: string) (rule_error: "16 word") (rule_cmps: "arg_cmp list")

text \<open>The bindings: comparison operators, actions and \<open>prctl\<close> options, and libseccomp's
  comparison structure.\<close>

datatype scmp_compare =
    SCMP_CMP_NE | SCMP_CMP_LT | SCMP_CMP_LE | SCMP_CMP_EQ | SCMP_CMP_GE | SCMP_CMP_GT
  | SCMP_CMP_MASKED_EQ

record sys_consts =
  SCMP_ACT_KILL_PROCESS :: u32
  SCMP_ACT_LOG :: u32
  SCMP_ACT_ALLOW :: u32
  PR_SET_NAME :: u32
  PR_GET_SECCOMP :: u32

record scmp_arg_cmp =
  sac_arg :: u32
  sac_op :: scmp_compare
  sac_datum_a :: u64
  sac_datum_b :: u64

record raw_rule =
  rr_action :: u32
  rr_syscall :: int
  rr_arg_cmps :: "scmp_arg_cmp list"

definition violation_action_repr :: "sys_consts \<Rightarrow> violation_action \<Rightarrow> u32" where
  "violation_action_repr c va =
     (case va of KillProcess \<Rightarrow> SCMP_ACT_KILL_PROCESS c | AllowAndLogViolation \<Rightarrow> SCMP_ACT_LOG c)"

fun to_sys_op :: "arg_cmp \<Rightarrow> scmp_arg_cmp" where
  "to_sys_op (NotEqual i v) =
     \<lparr>sac_arg = i, sac_op = SCMP_CMP_NE, sac_datum_a = v, sac_datum_b = 0\<rparr>"
| "to_sys_op (LessThan i v) =
     \<lparr>sac_arg = i, sac_op = SCMP_CMP_LT, sac_datum_a = v, sac_datum_b = 0\<rparr>"
| "to_sys_op (LessThanOrEqual i v) =
     \<lparr>sac_arg = i, sac_op = SCMP_CMP_LE, sac_datum_a = v, sac_datum_b = 0\<rparr>"
| "to_sys_op (Equal i v) =
     \<lparr>sac_arg = i, sac_op = SCMP_CMP_EQ, sac_datum_a = v, sac_datum_b = 0\<rparr>"
| "to_sys_op (GreaterThanOrEqual i v) =
     \<lparr>sac_arg = i, sac_op = SCMP_CMP_GE, sac_datum_a = v, sac_datum_b = 0\<rparr>"
| "to_sys_op (GreaterThan i v) =
     \<lparr>sac_arg = i, sac_op = SCMP_CMP_GT, sac_datum_a = v, sac_datum_b = 0\<rparr>"
| "to_sys_op (EqualMasked i m v) =
     \<lparr>sac_arg = i, sac_op = SCMP_CMP_MASKED_EQ, sac_datum_a = m, sac_datum_b = v\<rparr>"

text \<open>The action of a rule, and the conversion of a rule; a name that is no variant of
  \<open>Syscall\<close> cannot occur in a rule.\<close>

fun rule_action :: "sys_consts \<Rightarrow> rule \<Rightarrow> u32" where
  "rule_action c (Allow s cmps) = SCMP_ACT_ALLOW c"
| "rule_action c (AllowAndLog s cmps) = SCMP_ACT_LOG c"
| "rule_action c (ReturnError s err_num cmps) = 0x50000 OR (ucast err_num AND 0xffff)"

definition raw_rule_from :: "target_arch \<Rightarrow> sys_consts \<Rightarrow> rule \<Rightarrow> raw_rule" where
  "raw_rule_from arch c rule =
     \<lparr>rr_action = rule_action c rule,
      rr_syscall = (case syscall_number arch (rule_syscall rule) of Some n \<Rightarrow> n | None \<Rightarrow> - 1),
      rr_arg_cmps = map to_sys_op (rule_cmps rule)\<rparr>"

section \<open>Enabling the sandbox\<close>

text \<open>libseccomp's calls; a result other than zero is an error. \<open>sc_rules\<close> tells the default
  action and the rules of a context, \<open>sc_verdict\<close> what the kernel does with a system call, given
  its number and arguments, once the context is loaded.\<close>

record 'c seccomp =
  sc_init :: "u32 \<Rightarrow> 'c option"
  sc_rule_add_exact_array :: "'c \<Rightarrow> u32 \<Rightarrow> int \<Rightarrow> scmp_arg_cmp list \<Rightarrow> int \<times> 'c"
  sc_load :: "'c \<Rightarrow> int \<times> 'c"
  sc_rules :: "'c \<Rightarrow> u32 \<times> raw_rule list"
  sc_verdict :: "'c \<Rightarrow> int \<Rightarrow> (u32 \<Rightarrow> u64) \<Rightarrow> u32"

datatype sandbox_error =
    SeccompInitFailed | AddRuleFailed rule int | LoadRulesFailed int | TooManyComparisons

text \<open>The loop over the rules: the first that is refused ends it. The number of comparisons is
  converted to 32 bits with \<open>unwrap\<close>.\<close>

fun add_exception_rules ::
  "target_arch \<Rightarrow> sys_consts \<Rightarrow> 'c seccomp \<Rightarrow> rule list \<Rightarrow> 'c \<Rightarrow> sandbox_error + 'c" where
  "add_exception_rules arch c sc [] ctx = Inr ctx"
| "add_exception_rules arch c sc (rule # rules) ctx =
     (let raw = raw_rule_from arch c rule in
      if 2 ^ 32 \<le> length (rr_arg_cmps raw) then Inl TooManyComparisons
      else case sc_rule_add_exact_array sc ctx (rr_action raw) (rr_syscall raw) (rr_arg_cmps raw) of
        (init_res, ctx) \<Rightarrow>
          if init_res \<noteq> 0 then Inl (AddRuleFailed rule init_res)
          else add_exception_rules arch c sc rules ctx)"

definition enable_syscall_sandboxing ::
  "target_arch \<Rightarrow> sys_consts \<Rightarrow> 'c seccomp \<Rightarrow> violation_action \<Rightarrow> rule list \<Rightarrow>
   sandbox_error + 'c" where
  "enable_syscall_sandboxing arch c sc violation_action exception_rules =
     (case sc_init sc (violation_action_repr c violation_action) of
        None \<Rightarrow> Inl SeccompInitFailed
      | Some ctx \<Rightarrow> bind_result (add_exception_rules arch c sc exception_rules ctx)
          (\<lambda>ctx. case sc_load sc ctx of (load_res, ctx) \<Rightarrow>
             if load_res \<noteq> 0 then Inl (LoadRulesFailed load_res) else Inr ctx))"

text \<open>\<open>is_syscall_sandboxing_enabled_for_current_thread\<close> on what \<open>prctl\<close> returns.\<close>

definition is_syscall_sandboxing_enabled :: "i32 \<Rightarrow> bool option" where
  "is_syscall_sandboxing_enabled current_seccomp_mode =
     (if current_seccomp_mode = 0 then Some False
      else if current_seccomp_mode = 2 then Some True else None)"

section \<open>Allow lists\<close>

text \<open>The items of \<open>allow_list!\<close>: a bare system call and one with comparators.\<close>

definition allow :: "string \<Rightarrow> rule list" where
  "allow s = [Allow s []]"

definition allow_if :: "string \<Rightarrow> arg_cmp list \<Rightarrow> rule list" where
  "allow_if s cmps = [Allow s cmps]"

text \<open>What the lists depend on: the architecture, debug assertions and the id of the process.\<close>

record list_config =
  lc_arch :: target_arch
  lc_debug_assertions :: bool
  lc_process_id :: u32

definition cfg_arch :: "list_config \<Rightarrow> target_arch \<Rightarrow> rule list \<Rightarrow> rule list" where
  "cfg_arch cfg arch rules = (if lc_arch cfg = arch then rules else [])"

definition RUST_BASICS :: "sys_consts \<Rightarrow> list_config \<Rightarrow> rule list" where
  "RUST_BASICS c cfg =
     concat (map allow [''sigaltstack'', ''getrandom'', ''clone'', ''clone3'', ''futex'',
       ''sched_yield'', ''set_robust_list'', ''sched_getaffinity'', ''madvise'', ''mprotect''])
     @ (if lc_debug_assertions cfg then allow ''fcntl'' else [])
     @ allow_if ''prctl'' [Equal 0 (ucast (PR_SET_NAME c))]
     @ allow_if ''prctl'' [Equal 0 (ucast (PR_GET_SECCOMP c))]"

definition SERVICE_BASICS :: "sys_consts \<Rightarrow> list_config \<Rightarrow> rule list" where
  "SERVICE_BASICS c cfg =
     RUST_BASICS c cfg @ allow ''exit'' @ allow ''exit_group''
     @ cfg_arch cfg X86_64 (allow ''pause'')
     @ cfg_arch cfg Aarch64 (allow_if ''ppoll'' [Equal 0 0, Equal 1 0, Equal 2 0, Equal 3 0])
     @ allow_if ''kill'' [Equal 0 (ucast (lc_process_id cfg))]
     @ allow_if ''tgkill'' [Equal 0 (ucast (lc_process_id cfg))]
     @ concat (map allow [''getpid'', ''gettid'', ''rt_sigprocmask'', ''read'', ''write'',
         ''close'', ''brk'', ''mmap'', ''munmap'', ''mremap'', ''fstat'', ''statx''])
     @ cfg_arch cfg X86_64 (allow ''stat'') @ cfg_arch cfg X86_64 (allow ''lstat'')
     @ concat (map allow [''newfstatat'', ''lseek'', ''rseq''])"

definition ASYNC :: "list_config \<Rightarrow> rule list" where
  "ASYNC cfg =
     cfg_arch cfg X86_64 (allow ''epoll_wait'') @ allow ''epoll_pwait'' @ allow ''epoll_ctl''
     @ cfg_arch cfg X86_64 (allow ''epoll_create'') @ allow ''epoll_create1''"

definition NET_SOCKET_API :: "rule list" where
  "NET_SOCKET_API =
     concat (map allow [''socket'', ''connect'', ''shutdown'', ''accept'', ''accept4'',
       ''sendto'', ''sendmsg'', ''sendmmsg'', ''recvfrom'', ''recvmsg'', ''recvmmsg'',
       ''socketpair'', ''setsockopt'', ''getsockopt'', ''getsockname'', ''bind'', ''ioctl''])"

definition FS_WATCH :: "list_config \<Rightarrow> rule list" where
  "FS_WATCH cfg =
     cfg_arch cfg X86_64 (allow ''inotify_init'')
     @ concat (map allow [''inotify_init1'', ''inotify_add_watch'', ''inotify_rm_watch'',
         ''getdents64''])"

definition VECTORED_IO :: "rule list" where
  "VECTORED_IO = concat (map allow [''readv'', ''writev'', ''preadv'', ''pwritev''])"

definition SENTRY_EXTRAS :: "list_config \<Rightarrow> rule list" where
  "SENTRY_EXTRAS cfg = cfg_arch cfg X86_64 (allow ''readlink'') @ allow ''uname''"

section \<open>What the kernel decides\<close>

definition sys_cmp_holds :: "(u32 \<Rightarrow> u64) \<Rightarrow> scmp_arg_cmp \<Rightarrow> bool" where
  "sys_cmp_holds args cmp =
     (let x = args (sac_arg cmp); a = sac_datum_a cmp in
      case sac_op cmp of
        SCMP_CMP_NE \<Rightarrow> x \<noteq> a | SCMP_CMP_LT \<Rightarrow> x < a | SCMP_CMP_LE \<Rightarrow> x \<le> a
      | SCMP_CMP_EQ \<Rightarrow> x = a | SCMP_CMP_GE \<Rightarrow> a \<le> x | SCMP_CMP_GT \<Rightarrow> a < x
      | SCMP_CMP_MASKED_EQ \<Rightarrow> x AND a = sac_datum_b cmp)"

definition raw_rule_matches :: "int \<Rightarrow> (u32 \<Rightarrow> u64) \<Rightarrow> raw_rule \<Rightarrow> bool" where
  "raw_rule_matches nr args raw \<longleftrightarrow>
     rr_syscall raw = nr \<and> list_all (sys_cmp_holds args) (rr_arg_cmps raw)"

definition seccomp_documented :: "'c seccomp \<Rightarrow> bool" where
  "seccomp_documented sc \<longleftrightarrow>
     (\<forall>a ctx. sc_init sc a = Some ctx \<longrightarrow> sc_rules sc ctx = (a, [])) \<and>
     (\<forall>ctx a s cmps ctx'. sc_rule_add_exact_array sc ctx a s cmps = (0, ctx') \<longrightarrow>
        sc_rules sc ctx' = (fst (sc_rules sc ctx), snd (sc_rules sc ctx)
          @ [\<lparr>rr_action = a, rr_syscall = s, rr_arg_cmps = cmps\<rparr>])) \<and>
     (\<forall>ctx ctx'. sc_load sc ctx = (0, ctx') \<longrightarrow> sc_rules sc ctx' = sc_rules sc ctx) \<and>
     (\<forall>ctx nr args. (\<forall>raw\<in>set (snd (sc_rules sc ctx)). \<not> raw_rule_matches nr args raw) \<longrightarrow>
        sc_verdict sc ctx nr args = fst (sc_rules sc ctx)) \<and>
     (\<forall>ctx nr args raw. raw \<in> set (snd (sc_rules sc ctx)) \<and> raw_rule_matches nr args raw \<and>
        (\<forall>raw'\<in>set (snd (sc_rules sc ctx)). raw_rule_matches nr args raw' \<longrightarrow>
           rr_action raw' = rr_action raw) \<longrightarrow>
        sc_verdict sc ctx nr args = rr_action raw)"

text \<open>What the documentation of \<open>ArgCmp\<close> and \<open>Rule\<close> says of a call.\<close>

fun arg_cmp_holds :: "(u32 \<Rightarrow> u64) \<Rightarrow> arg_cmp \<Rightarrow> bool" where
  "arg_cmp_holds args (NotEqual i v) \<longleftrightarrow> args i \<noteq> v"
| "arg_cmp_holds args (LessThan i v) \<longleftrightarrow> args i < v"
| "arg_cmp_holds args (LessThanOrEqual i v) \<longleftrightarrow> args i \<le> v"
| "arg_cmp_holds args (Equal i v) \<longleftrightarrow> args i = v"
| "arg_cmp_holds args (GreaterThanOrEqual i v) \<longleftrightarrow> v \<le> args i"
| "arg_cmp_holds args (GreaterThan i v) \<longleftrightarrow> v < args i"
| "arg_cmp_holds args (EqualMasked i m v) \<longleftrightarrow> args i AND m = v"

definition rule_applies :: "string \<Rightarrow> (u32 \<Rightarrow> u64) \<Rightarrow> rule \<Rightarrow> bool" where
  "rule_applies s args rule \<longleftrightarrow> rule_syscall rule = s \<and> list_all (arg_cmp_holds args) (rule_cmps rule)"

lemma to_sys_op_holds [simp]: "sys_cmp_holds args (to_sys_op cmp) = arg_cmp_holds args cmp"
  by (cases cmp) (simp_all add: sys_cmp_holds_def Let_def)

lemma raw_rule_matches_from:
  assumes "syscall_number arch s = Some nr"
  shows "raw_rule_matches nr args (raw_rule_from arch c rule) \<longleftrightarrow> rule_applies s args rule"
  using assms syscall_number_inj [OF assms, of "rule_syscall rule"] syscall_number_nonneg [OF assms]
  by (auto simp: raw_rule_matches_def raw_rule_from_def rule_applies_def list_all_iff
      split: option.splits)

lemma seccomp_documentedD:
  assumes "seccomp_documented sc"
  shows "sc_init sc a = Some ctx \<Longrightarrow> sc_rules sc ctx = (a, [])"
    and "sc_rule_add_exact_array sc ctx a s cmps = (0, ctx') \<Longrightarrow>
      sc_rules sc ctx' = (fst (sc_rules sc ctx), snd (sc_rules sc ctx)
        @ [\<lparr>rr_action = a, rr_syscall = s, rr_arg_cmps = cmps\<rparr>])"
    and "sc_load sc ctx = (0, ctx') \<Longrightarrow> sc_rules sc ctx' = sc_rules sc ctx"
    and "\<forall>raw\<in>set (snd (sc_rules sc ctx)). \<not> raw_rule_matches nr args raw \<Longrightarrow>
      sc_verdict sc ctx nr args = fst (sc_rules sc ctx)"
    and "raw \<in> set (snd (sc_rules sc ctx)) \<Longrightarrow> raw_rule_matches nr args raw \<Longrightarrow>
      \<forall>raw'\<in>set (snd (sc_rules sc ctx)). raw_rule_matches nr args raw' \<longrightarrow>
        rr_action raw' = rr_action raw \<Longrightarrow>
      sc_verdict sc ctx nr args = rr_action raw"
  using assms unfolding seccomp_documented_def by blast+

lemma add_exception_rules_rules:
  assumes "seccomp_documented sc" "add_exception_rules arch c sc rules ctx = Inr ctx'"
  shows "sc_rules sc ctx' =
    (fst (sc_rules sc ctx), snd (sc_rules sc ctx) @ map (raw_rule_from arch c) rules)"
  using assms(2)
proof (induction rules arbitrary: ctx)
  case (Cons rule rules)
  let ?raw = "raw_rule_from arch c rule"
  obtain r ctx1 where add: "sc_rule_add_exact_array sc ctx (rr_action ?raw) (rr_syscall ?raw)
      (rr_arg_cmps ?raw) = (r, ctx1)"
    by fastforce
  then have "r = 0" and rest: "add_exception_rules arch c sc rules ctx1 = Inr ctx'"
    using Cons.prems by (simp_all add: Let_def split: if_splits)
  with seccomp_documentedD(2) [OF assms(1)] add
  have "sc_rules sc ctx1 = (fst (sc_rules sc ctx), snd (sc_rules sc ctx) @ [?raw])"
    by simp
  with Cons.IH [OF rest] show ?case by simp
qed simp

lemma verdict_follows_rules:
  assumes "seccomp_documented sc"
    and "enable_syscall_sandboxing arch c sc va rules = Inr ctx"
    and "syscall_number arch s = Some nr"
  shows "((\<forall>rule\<in>set rules. \<not> rule_applies s args rule) \<longrightarrow>
      sc_verdict sc ctx nr args = violation_action_repr c va) \<and>
    (\<forall>rule\<in>set rules. rule_applies s args rule \<and>
      (\<forall>rule'\<in>set rules. rule_applies s args rule' \<longrightarrow> rule_action c rule' = rule_action c rule) \<longrightarrow>
      sc_verdict sc ctx nr args = rule_action c rule)"
proof -
  obtain ctx0 where init: "sc_init sc (violation_action_repr c va) = Some ctx0"
    using assms(2) by (cases "sc_init sc (violation_action_repr c va)")
      (simp_all add: enable_syscall_sandboxing_def)
  then obtain ctx1 where add: "add_exception_rules arch c sc rules ctx0 = Inr ctx1"
    using assms(2) by (cases "add_exception_rules arch c sc rules ctx0")
      (simp_all add: enable_syscall_sandboxing_def)
  obtain r ctx2 where "sc_load sc ctx1 = (r, ctx2)"
    by fastforce
  with assms(2) init add have load: "sc_load sc ctx1 = (0, ctx)"
    by (simp add: enable_syscall_sandboxing_def split: if_splits)
  have "sc_rules sc ctx0 = (violation_action_repr c va, [])"
    using seccomp_documentedD(1) [OF assms(1) init] .
  moreover have "sc_rules sc ctx = sc_rules sc ctx1"
    using seccomp_documentedD(3) [OF assms(1) load] .
  ultimately have rules: "sc_rules sc ctx = (violation_action_repr c va, map (raw_rule_from arch c) rules)"
    using add_exception_rules_rules [OF assms(1) add] by simp
  have matches: "raw_rule_matches nr args (raw_rule_from arch c rule) \<longleftrightarrow> rule_applies s args rule"
    if "rule \<in> set rules" for rule
    using raw_rule_matches_from [OF assms(3)] .
  have action: "rr_action (raw_rule_from arch c rule) = rule_action c rule" for rule
    by (simp add: raw_rule_from_def)
  show ?thesis
  proof (intro conjI impI ballI)
    assume "\<forall>rule\<in>set rules. \<not> rule_applies s args rule"
    with matches have "\<forall>raw\<in>set (snd (sc_rules sc ctx)). \<not> raw_rule_matches nr args raw"
      by (simp add: rules)
    from seccomp_documentedD(4) [OF assms(1) this]
    show "sc_verdict sc ctx nr args = violation_action_repr c va"
      by (simp add: rules)
  next
    fix rule
    assume rule: "rule \<in> set rules" and applies: "rule_applies s args rule \<and>
      (\<forall>rule'\<in>set rules. rule_applies s args rule' \<longrightarrow> rule_action c rule' = rule_action c rule)"
    have "raw_rule_from arch c rule \<in> set (snd (sc_rules sc ctx))"
      using rule by (simp add: rules)
    moreover have "raw_rule_matches nr args (raw_rule_from arch c rule)"
      using matches [OF rule] applies by blast
    moreover have "\<forall>raw'\<in>set (snd (sc_rules sc ctx)). raw_rule_matches nr args raw' \<longrightarrow>
        rr_action raw' = rr_action (raw_rule_from arch c rule)"
    proof (intro ballI impI)
      fix raw'
      assume "raw' \<in> set (snd (sc_rules sc ctx))" "raw_rule_matches nr args raw'"
      then obtain rule' where rule': "rule' \<in> set rules" "raw' = raw_rule_from arch c rule'"
        and "raw_rule_matches nr args (raw_rule_from arch c rule')"
        by (auto simp: rules)
      then have "rule_applies s args rule'"
        using matches [OF rule'(1)] by simp
      with applies rule'(1) have "rule_action c rule' = rule_action c rule"
        by blast
      then show "rr_action raw' = rr_action (raw_rule_from arch c rule)"
        by (simp only: rule'(2) action)
    qed
    ultimately have "sc_verdict sc ctx nr args = rr_action (raw_rule_from arch c rule)"
      by (rule seccomp_documentedD(5) [OF assms(1)])
    then show "sc_verdict sc ctx nr args = rule_action c rule"
      by (simp add: action)
  qed
qed

text \<open>C9: When \<open>enable_syscall_sandboxing\<close> returns \<open>Ok\<close>, the kernel decides as the rules are
  documented: a call that no rule applies to meets the violation action, and a call some rules
  apply to that agree on their action meets this action, the error number of a \<open>ReturnError\<close>
  and masked comparisons included.\<close>

theorem sandbox_enforces_rules:
  assumes "seccomp_documented sc"
    and "enable_syscall_sandboxing arch c sc va rules = Inr ctx"
    and "syscall_number arch s = Some nr"
  shows "((\<forall>rule\<in>set rules. \<not> rule_applies s args rule) \<longrightarrow>
      sc_verdict sc ctx nr args = violation_action_repr c va) \<and>
    (\<forall>rule\<in>set rules. rule_applies s args rule \<and>
      (\<forall>rule'\<in>set rules. rule_applies s args rule' \<longrightarrow> rule_action c rule' = rule_action c rule) \<longrightarrow>
      sc_verdict sc ctx nr args = rule_action c rule)"
  using verdict_follows_rules [OF assms] .

section \<open>What the common lists let through\<close>

definition common_rules :: "sys_consts \<Rightarrow> list_config \<Rightarrow> rule list" where
  "common_rules c cfg =
     SERVICE_BASICS c cfg @ ASYNC cfg @ NET_SOCKET_API @ FS_WATCH cfg @ VECTORED_IO
     @ SENTRY_EXTRAS cfg"

lemmas list_defs =
  RUST_BASICS_def SERVICE_BASICS_def ASYNC_def NET_SOCKET_API_def FS_WATCH_def VECTORED_IO_def
  SENTRY_EXTRAS_def allow_def allow_if_def cfg_arch_def

definition shared_syscalls :: "string list" where
  "shared_syscalls =
     [''sigaltstack'', ''getrandom'', ''clone'', ''clone3'', ''futex'', ''sched_yield'',
      ''set_robust_list'', ''sched_getaffinity'', ''madvise'', ''mprotect'', ''fcntl'', ''prctl'',
      ''exit'', ''exit_group'', ''kill'', ''tgkill'', ''getpid'', ''gettid'', ''rt_sigprocmask'',
      ''read'', ''write'', ''close'', ''brk'', ''mmap'', ''munmap'', ''mremap'', ''fstat'',
      ''statx'', ''newfstatat'', ''lseek'', ''rseq'', ''epoll_pwait'', ''epoll_ctl'',
      ''epoll_create1'', ''socket'', ''connect'', ''shutdown'', ''accept'', ''accept4'',
      ''sendto'', ''sendmsg'', ''sendmmsg'', ''recvfrom'', ''recvmsg'', ''recvmmsg'',
      ''socketpair'', ''setsockopt'', ''getsockopt'', ''getsockname'', ''bind'', ''ioctl'',
      ''inotify_init1'', ''inotify_add_watch'', ''inotify_rm_watch'', ''getdents64'', ''readv'',
      ''writev'', ''preadv'', ''pwritev'', ''uname'']"

text \<open>The calls that start a program, trace a process or reach its memory; open, create, rename, link or
  remove a file or change its mode or owner; mount; listen; load code into the kernel; change the
  user, the groups, the capabilities or the namespaces; and the ways to signal a process other than
  \<open>kill\<close> and \<open>tgkill\<close>.\<close>

definition forbidden_syscalls :: "string list" where
  "forbidden_syscalls =
     [''execve'', ''execveat'', ''fork'', ''vfork'', ''ptrace'', ''process_vm_readv'',
      ''process_vm_writev'', ''open'', ''openat'', ''openat2'', ''creat'', ''open_by_handle_at'',
      ''unlink'', ''unlinkat'', ''rmdir'', ''rename'', ''renameat'', ''renameat2'', ''link'',
      ''linkat'', ''symlink'', ''symlinkat'', ''truncate'', ''ftruncate'', ''mkdir'',
      ''mkdirat'', ''mknod'', ''mknodat'', ''chmod'', ''fchmod'', ''fchmodat'', ''chown'',
      ''fchown'', ''lchown'', ''fchownat'', ''mount'', ''umount2'', ''move_mount'', ''fsopen'',
      ''fsconfig'', ''fsmount'', ''fspick'', ''open_tree'', ''mount_setattr'', ''pivot_root'',
      ''chroot'', ''swapon'', ''swapoff'', ''listen'', ''bpf'', ''init_module'',
      ''finit_module'', ''create_module'', ''delete_module'', ''kexec_load'',
      ''kexec_file_load'', ''setuid'', ''setgid'', ''setreuid'', ''setregid'', ''setresuid'',
      ''setresgid'', ''setfsuid'', ''setfsgid'', ''setgroups'', ''capset'', ''setns'',
      ''unshare'', ''tkill'', ''rt_sigqueueinfo'', ''rt_tgsigqueueinfo'', ''pidfd_send_signal'',
      ''io_uring_setup'', ''userfaultfd'', ''perf_event_open'', ''reboot'']"

definition arch_syscalls :: "target_arch \<Rightarrow> string list" where
  "arch_syscalls arch =
     (case arch of
        X86_64 \<Rightarrow> [''pause'', ''stat'', ''lstat'', ''epoll_wait'', ''epoll_create'', ''inotify_init'',
          ''readlink'']
      | Aarch64 \<Rightarrow> [''ppoll''])"

definition let_through :: "target_arch \<Rightarrow> string list" where
  "let_through arch = shared_syscalls @ arch_syscalls arch"

lemma forbidden_not_common:
  "s \<in> set forbidden_syscalls \<Longrightarrow> s \<notin> set (let_through arch)"
proof -
  have "list_all (\<lambda>s. s \<notin> set shared_syscalls \<and> s \<notin> set (arch_syscalls X86_64) \<and>
      s \<notin> set (arch_syscalls Aarch64)) forbidden_syscalls"
    by code_simp
  then show "s \<in> set forbidden_syscalls \<Longrightarrow> s \<notin> set (let_through arch)"
    by (cases arch) (auto simp: list_all_iff let_through_def)
qed

text \<open>The rules are those with conditions, which are few, and others whose names depend on the
  architecture and on debug assertions only.\<close>

definition plain_names :: "target_arch \<Rightarrow> bool \<Rightarrow> string list" where
  "plain_names arch debug =
     map rule_syscall (filter (\<lambda>rule. rule_cmps rule = []) (common_rules
       \<lparr>SCMP_ACT_KILL_PROCESS = 0, SCMP_ACT_LOG = 0, SCMP_ACT_ALLOW = 0, PR_SET_NAME = 0, PR_GET_SECCOMP = 0\<rparr>
       \<lparr>lc_arch = arch, lc_debug_assertions = debug, lc_process_id = 0\<rparr>))"

definition conditional_rules :: "sys_consts \<Rightarrow> list_config \<Rightarrow> rule list" where
  "conditional_rules c cfg =
     [Allow ''prctl'' [Equal 0 (ucast (PR_SET_NAME c))], Allow ''prctl'' [Equal 0 (ucast (PR_GET_SECCOMP c))]]
     @ (if lc_arch cfg = Aarch64 then [Allow ''ppoll'' [Equal 0 0, Equal 1 0, Equal 2 0, Equal 3 0]] else [])
     @ [Allow ''kill'' [Equal 0 (ucast (lc_process_id cfg))], Allow ''tgkill'' [Equal 0 (ucast (lc_process_id cfg))]]"

lemma filter_common_rules:
  "map rule_syscall (filter (\<lambda>rule. rule_cmps rule = []) (common_rules c cfg)) =
     plain_names (lc_arch cfg) (lc_debug_assertions cfg)"
  "filter (\<lambda>rule. rule_cmps rule \<noteq> []) (common_rules c cfg) = conditional_rules c cfg"
  by (simp_all add: plain_names_def conditional_rules_def common_rules_def list_defs)

definition conditional_names :: "string list" where
  "conditional_names = [''prctl'', ''ppoll'', ''kill'', ''tgkill'']"

lemma names_let_through:
  "list_all (\<lambda>arch. list_all (\<lambda>s. s \<in> set (let_through arch) \<and> s \<notin> set conditional_names)
      (plain_names arch True @ plain_names arch False)) [X86_64, Aarch64]"
  "list_all (\<lambda>arch. ''fcntl'' \<notin> set (plain_names arch False)) [X86_64, Aarch64]"
  "''prctl'' \<in> set shared_syscalls \<and> ''kill'' \<in> set shared_syscalls \<and> ''tgkill'' \<in> set shared_syscalls \<and>
     ''ppoll'' \<in> set (arch_syscalls Aarch64)"
  by code_simp+

lemma common_rule_cases:
  assumes "rule \<in> set (common_rules c cfg)"
  obtains (plain) "rule_syscall rule \<in> set (plain_names (lc_arch cfg) (lc_debug_assertions cfg))"
  | (conditional) "rule \<in> set (conditional_rules c cfg)"
proof (cases "rule_cmps rule = []")
  case True
  then have "rule_syscall rule \<in> set (map rule_syscall (filter (\<lambda>rule. rule_cmps rule = []) (common_rules c cfg)))"
    using assms by simp
  then show thesis unfolding filter_common_rules(1) by (rule plain)
next
  case False
  then have "rule \<in> set (filter (\<lambda>rule. rule_cmps rule \<noteq> []) (common_rules c cfg))"
    using assms by simp
  then show thesis unfolding filter_common_rules(2) by (rule conditional)
qed

lemma plain_name:
  assumes "s \<in> set (plain_names arch debug)"
  shows "s \<in> set (let_through arch)" "s \<notin> set conditional_names" "s = ''fcntl'' \<Longrightarrow> debug"
  using assms names_let_through(1,2) by (cases arch; cases debug; auto simp: list_all_iff)+

text \<open>What a rule of the lists says of a call it applies to.\<close>

definition call_conditions :: "sys_consts \<Rightarrow> list_config \<Rightarrow> string \<Rightarrow> (u32 \<Rightarrow> u64) \<Rightarrow> bool" where
  "call_conditions c cfg s args \<longleftrightarrow>
     s \<in> set (let_through (lc_arch cfg)) \<and>
     (s = ''kill'' \<longrightarrow> args 0 = ucast (lc_process_id cfg)) \<and>
     (s = ''tgkill'' \<longrightarrow> args 0 = ucast (lc_process_id cfg)) \<and>
     (s = ''prctl'' \<longrightarrow> args 0 = ucast (PR_SET_NAME c) \<or> args 0 = ucast (PR_GET_SECCOMP c)) \<and>
     (s = ''fcntl'' \<longrightarrow> lc_debug_assertions cfg) \<and>
     (s = ''ppoll'' \<longrightarrow> args 0 = 0 \<and> args 1 = 0 \<and> args 2 = 0 \<and> args 3 = 0)"

lemma conditional_rule_conditions:
  assumes "rule \<in> set (conditional_rules c cfg)" "list_all (arg_cmp_holds args) (rule_cmps rule)"
  shows "call_conditions c cfg (rule_syscall rule) args"
proof -
  have through: "''prctl'' \<in> set (let_through arch)" "''kill'' \<in> set (let_through arch)"
    "''tgkill'' \<in> set (let_through arch)" "''ppoll'' \<in> set (let_through Aarch64)" for arch
    using names_let_through(3) by (simp_all add: let_through_def)
  from assms(1) consider
    "rule = Allow ''prctl'' [Equal 0 (ucast (PR_SET_NAME c))]"
    | "rule = Allow ''prctl'' [Equal 0 (ucast (PR_GET_SECCOMP c))]"
    | "lc_arch cfg = Aarch64" "rule = Allow ''ppoll'' [Equal 0 0, Equal 1 0, Equal 2 0, Equal 3 0]"
    | "rule = Allow ''kill'' [Equal 0 (ucast (lc_process_id cfg))]"
    | "rule = Allow ''tgkill'' [Equal 0 (ucast (lc_process_id cfg))]"
    unfolding conditional_rules_def by (simp split: if_splits) blast+
  then show ?thesis
    using assms(2) by cases (simp_all add: call_conditions_def through)
qed

lemma common_rule_applies:
  assumes "rule \<in> set (common_rules c cfg)" "rule_applies s args rule"
  shows "call_conditions c cfg s args"
  using assms(1)
proof (cases rule: common_rule_cases)
  case plain
  then have "s \<in> set (plain_names (lc_arch cfg) (lc_debug_assertions cfg))"
    using assms(2) by (simp add: rule_applies_def)
  from plain_name [OF this] show ?thesis
    unfolding call_conditions_def conditional_names_def by auto
next
  case conditional
  then show ?thesis
    using conditional_rule_conditions [of rule c cfg args] assms(2) by (simp add: rule_applies_def)
qed

text \<open>C8: Whatever part of the crate's allow lists a service combines, on either architecture, once
  the sandbox is enabled a call meets the violation action with any arguments if it is not one of the
  named calls of the architecture that are let through; so do signals to a process with another id
  than the one the lists were made in, \<open>prctl\<close> with any option but the two listed, \<open>fcntl\<close> without
  debug assertions and \<open>ppoll\<close> with an argument that is not null. None of the calls that open, create,
  rename, link or remove a file, start a program, trace a process, mount, listen, load code into the
  kernel, change the user, the groups, the capabilities or the namespaces, or signal a process in
  another way is let through.\<close>

theorem common_lists_confine:
  assumes "seccomp_documented sc" "set rules \<subseteq> set (common_rules c cfg)"
    and "enable_syscall_sandboxing (lc_arch cfg) c sc va rules = Inr ctx"
    and "syscall_number (lc_arch cfg) s = Some nr"
    and "s \<notin> set (let_through (lc_arch cfg)) \<or> s \<in> set forbidden_syscalls \<or>
      s \<in> {''kill'', ''tgkill''} \<and> args 0 \<noteq> ucast (lc_process_id cfg) \<or>
      s = ''prctl'' \<and> args 0 \<notin> {ucast (PR_SET_NAME c), ucast (PR_GET_SECCOMP c)} \<or>
      s = ''fcntl'' \<and> \<not> lc_debug_assertions cfg \<or>
      s = ''ppoll'' \<and> (\<exists>i\<in>{0, 1, 2, 3}. args i \<noteq> 0)"
  shows "sc_verdict sc ctx nr args = violation_action_repr c va"
proof -
  have "\<not> call_conditions c cfg s args"
    using assms(5) forbidden_not_common [of s] unfolding call_conditions_def by auto
  then have "\<not> rule_applies s args rule" if "rule \<in> set rules" for rule
    using common_rule_applies [OF subsetD [OF assms(2) that], of s args] by blast
  with verdict_follows_rules [OF assms(1,3,4), of args] show ?thesis by blast
qed

definition list_seccomp :: "(u32 \<times> raw_rule list) seccomp" where
  "list_seccomp =
     \<lparr>sc_init = (\<lambda>a. Some (a, [])),
      sc_rule_add_exact_array = (\<lambda>ctx a s cmps.
        (0, (fst ctx, snd ctx @ [\<lparr>rr_action = a, rr_syscall = s, rr_arg_cmps = cmps\<rparr>]))),
      sc_load = (\<lambda>ctx. (0, ctx)), sc_rules = id,
      sc_verdict = (\<lambda>ctx nr args. case find (raw_rule_matches nr args) (snd ctx) of
        None \<Rightarrow> fst ctx | Some raw \<Rightarrow> rr_action raw)\<rparr>"

lemma seccomp_documented_list: "seccomp_documented list_seccomp"
proof -
  have "sc_verdict list_seccomp ctx nr args = fst ctx"
    if "\<forall>raw\<in>set (snd ctx). \<not> raw_rule_matches nr args raw" for ctx nr args
  proof -
    have "find (raw_rule_matches nr args) (snd ctx) = None"
      using that by (simp add: find_None_iff)
    then show ?thesis by (simp add: list_seccomp_def)
  qed
  moreover have "sc_verdict list_seccomp ctx nr args = rr_action raw"
    if "raw \<in> set (snd ctx)" "raw_rule_matches nr args raw"
      "\<forall>raw'\<in>set (snd ctx). raw_rule_matches nr args raw' \<longrightarrow> rr_action raw' = rr_action raw"
    for ctx nr args raw
  proof (cases "find (raw_rule_matches nr args) (snd ctx)")
    case None
    with that(1,2) show ?thesis by (auto simp: find_None_iff)
  next
    case (Some raw')
    then have "raw' \<in> set (snd ctx)" "raw_rule_matches nr args raw'"
      by (auto simp: find_Some_iff)
    with that(3) Some show ?thesis by (simp add: list_seccomp_def)
  qed
  moreover have rules: "sc_rules list_seccomp ctx = ctx" for ctx
    by (simp add: list_seccomp_def)
  moreover have "\<forall>a ctx. sc_init list_seccomp a = Some ctx \<longrightarrow> ctx = (a, [])"
    by (simp add: list_seccomp_def)
  moreover have "\<forall>ctx a s cmps ctx'. sc_rule_add_exact_array list_seccomp ctx a s cmps = (0, ctx') \<longrightarrow>
      ctx' = (fst ctx, snd ctx @ [\<lparr>rr_action = a, rr_syscall = s, rr_arg_cmps = cmps\<rparr>])"
    by (simp add: list_seccomp_def)
  moreover have "\<forall>ctx ctx'. sc_load list_seccomp ctx = (0, ctx') \<longrightarrow> ctx' = ctx"
    by (simp add: list_seccomp_def)
  ultimately show ?thesis
    unfolding seccomp_documented_def rules by blast
qed

definition sample_consts :: sys_consts where
  "sample_consts = \<lparr>SCMP_ACT_KILL_PROCESS = 0x80000000, SCMP_ACT_LOG = 0x7ffc0000,
     SCMP_ACT_ALLOW = 0x7fff0000, PR_SET_NAME = 15, PR_GET_SECCOMP = 21\<rparr>"

theorem sandbox_enforces_rules_witness:
  "\<exists>ctx. enable_syscall_sandboxing X86_64 sample_consts list_seccomp KillProcess
      [Allow ''exit'' [EqualMasked 0 0xFF 0], ReturnError ''listen'' 1 []] = Inr ctx \<and>
    sc_verdict list_seccomp ctx 60 (\<lambda>_. 0x100) = SCMP_ACT_ALLOW sample_consts \<and>
    sc_verdict list_seccomp ctx 60 (\<lambda>_. 1) = SCMP_ACT_KILL_PROCESS sample_consts \<and>
    sc_verdict list_seccomp ctx 50 (\<lambda>_. 0) = 0x50001"
proof -
  let ?rules = "[Allow ''exit'' [EqualMasked 0 0xFF 0], ReturnError ''listen'' 1 []]"
  have known: "syscall_number X86_64 ''exit'' = Some 60" "syscall_number X86_64 ''listen'' = Some 50"
    by code_simp+
  obtain ctx where ctx: "enable_syscall_sandboxing X86_64 sample_consts list_seccomp KillProcess ?rules = Inr ctx"
    by (simp add: enable_syscall_sandboxing_def list_seccomp_def raw_rule_from_def Let_def known)
  note enforced = sandbox_enforces_rules [OF seccomp_documented_list ctx]
  from enforced [OF known(1), of "\<lambda>_. 0x100"] enforced [OF known(1), of "\<lambda>_. 1"]
    enforced [OF known(2), of "\<lambda>_. 0"] ctx
  show ?thesis
    by (auto simp: rule_applies_def violation_action_repr_def sample_consts_def)
qed

theorem common_lists_confine_witness:
  "\<exists>ctx. enable_syscall_sandboxing Aarch64 sample_consts list_seccomp KillProcess
      (VECTORED_IO @ allow ''uname'') = Inr ctx \<and>
    sc_verdict list_seccomp ctx 221 (\<lambda>_. 0) = SCMP_ACT_KILL_PROCESS sample_consts"
proof -
  let ?cfg = "\<lparr>lc_arch = Aarch64, lc_debug_assertions = False, lc_process_id = 7\<rparr>"
  let ?rules = "VECTORED_IO @ allow ''uname''"
  obtain ctx where ctx: "enable_syscall_sandboxing Aarch64 sample_consts list_seccomp KillProcess ?rules = Inr ctx"
    by (simp add: enable_syscall_sandboxing_def list_seccomp_def raw_rule_from_def Let_def
        VECTORED_IO_def allow_def)
  have "set ?rules \<subseteq> set (common_rules sample_consts ?cfg)"
    by (auto simp: common_rules_def SENTRY_EXTRAS_def)
  moreover have "syscall_number Aarch64 ''execve'' = Some 221"
    by code_simp
  moreover have "''execve'' \<in> set forbidden_syscalls"
    by (simp add: forbidden_syscalls_def)
  ultimately have "sc_verdict list_seccomp ctx 221 (\<lambda>_. 0) = violation_action_repr sample_consts KillProcess"
    using common_lists_confine [OF seccomp_documented_list, of ?rules sample_consts ?cfg] ctx by simp
  with ctx show ?thesis
    by (simp add: violation_action_repr_def)
qed

end
