(* ===== verification/SentryHook.thy ===== *)
theory SentryHook
  imports Prelude
begin

text \<open>
  The Sentry hook, \<open>sentry/hook.rs\<close> and its copy in \<open>foundations-sentry/src/hook.rs\<close>: events are
  rate limited by fingerprint, passed to the hook that was there before, and counted by level.
  The keyed rate limiter of the \<open>governor\<close> crate is a parameter: what is used of it is its
  documentation, that every key has a state of its own which only checks of this key change and
  that \<open>retain_recent\<close> forgets nothing that matters. Time is an argument of every event. The
  lemmas show that exactly the events that are sent are counted, and that the events of a
  fingerprint are limited as if there were no others.
\<close>

section \<open>Events and fingerprints\<close>

datatype level = Debug | Info | Warning | Error | Fatal

record exception =
  ex_ty :: string
  ex_value :: "string option"

record event =
  ev_fingerprint :: "string list"
  ev_message :: "string option"
  ev_exception :: "exception list"
  ev_level :: level

definition is_sentry_default_fingerprint :: "string list \<Rightarrow> bool" where
  "is_sentry_default_fingerprint fp =
     (case fp of [fp] \<Rightarrow> fp = ''{{ default }}'' \<or> fp = ''{{default}}'' | _ \<Rightarrow> False)"

fun join :: "string \<Rightarrow> string list \<Rightarrow> string" where
  "join sep [] = []"
| "join sep [s] = s"
| "join sep (s # ss) = s @ sep @ join sep ss"

definition level_fingerprint :: "level \<Rightarrow> string" where
  "level_fingerprint l =
     (case l of
        Debug \<Rightarrow> ''level::debug'' | Info \<Rightarrow> ''level::info'' | Warning \<Rightarrow> ''level::warning''
      | Error \<Rightarrow> ''level::error'' | Fatal \<Rightarrow> ''level::fatal'')"

text \<open>The explicit fingerprint, the message, the first exception or the level.\<close>

definition exception_fingerprint :: "exception list \<Rightarrow> string option" where
  "exception_fingerprint exs =
     (case exs of
        [] \<Rightarrow> None
      | exc # _ \<Rightarrow>
          (case ex_value exc of
             Some val \<Rightarrow> Some val
           | None \<Rightarrow> if ex_ty exc \<noteq> [] then Some (ex_ty exc) else None))"

definition extract_fingerprint :: "event \<Rightarrow> string" where
  "extract_fingerprint event =
     (let explicit_fp = ev_fingerprint event in
      if explicit_fp \<noteq> [] \<and> \<not> is_sentry_default_fingerprint explicit_fp
      then (case explicit_fp of [fp] \<Rightarrow> fp | _ \<Rightarrow> join ''::'' explicit_fp)
      else case ev_message event of Some msg \<Rightarrow> msg
      | None \<Rightarrow>
          (case exception_fingerprint (ev_exception event) of
             Some fp \<Rightarrow> fp | None \<Rightarrow> level_fingerprint (ev_level event)))"

section \<open>The hook\<close>

text \<open>\<open>governor\<close>'s keyed limiter: the check of a key and \<open>retain_recent\<close>, at a time; and the
  limiter of the \<open>ratelimit!\<close> macro that guards the cleanup. \<open>kl_view\<close> tells the state of a key.\<close>

record ('l, 'q) keyed_limiter =
  kl_check_key :: "nat \<Rightarrow> string \<Rightarrow> 'l \<Rightarrow> bool \<times> 'l"
  kl_retain_recent :: "nat \<Rightarrow> 'l \<Rightarrow> 'l"
  kl_view :: "'l \<Rightarrow> string \<Rightarrow> 'q"

definition keyed_limiter_documented ::
  "('l, 'q) keyed_limiter \<Rightarrow> (nat \<Rightarrow> 'q \<Rightarrow> bool \<times> 'q) \<Rightarrow> bool" where
  "keyed_limiter_documented kl cell \<longleftrightarrow>
     (\<forall>t k l ok l'. kl_check_key kl t k l = (ok, l') \<longrightarrow>
        cell t (kl_view kl l k) = (ok, kl_view kl l' k) \<and>
        (\<forall>k'. k' \<noteq> k \<longrightarrow> kl_view kl l' k' = kl_view kl l k')) \<and>
     (\<forall>t l. kl_view kl (kl_retain_recent kl t l) = kl_view kl l)"

type_synonym 's before_send = "event \<Rightarrow> 's \<Rightarrow> event option \<times> 's"

text \<open>What the hook changes: the limiter if the settings have a rate, the limiter of the cleanup,
  the state of the previous hook, and the counters of \<open>sentry_events_total\<close>.\<close>

record ('l, 'g, 's) hook_state =
  hs_limiter :: 'l
  hs_cleanup :: 'g
  hs_previous :: 's
  hs_events_total :: "level \<Rightarrow> u64"

definition rate_limit ::
  "('l, 'q) keyed_limiter \<Rightarrow> (nat \<Rightarrow> 'g \<Rightarrow> bool \<times> 'g) \<Rightarrow> nat \<Rightarrow> event \<Rightarrow>
   ('l, 'g, 's) hook_state \<Rightarrow> bool \<times> ('l, 'g, 's) hook_state" where
  "rate_limit kl cleanup t event st =
     (case cleanup t (hs_cleanup st) of (ok, g) \<Rightarrow>
        let l = (if ok then kl_retain_recent kl t (hs_limiter st) else hs_limiter st) in
        case kl_check_key kl t (extract_fingerprint event) l of (allowed, l) \<Rightarrow>
          (allowed, st\<lparr>hs_limiter := l, hs_cleanup := g\<rparr>))"

text \<open>The closure \<open>install_hook_with_settings\<close> puts into \<open>before_send\<close>.\<close>

definition hook_before_send ::
  "bool \<Rightarrow> ('l, 'q) keyed_limiter \<Rightarrow> (nat \<Rightarrow> 'g \<Rightarrow> bool \<times> 'g) \<Rightarrow> 's before_send option \<Rightarrow>
   nat \<Rightarrow> event \<Rightarrow> ('l, 'g, 's) hook_state \<Rightarrow> event option \<times> ('l, 'g, 's) hook_state" where
  "hook_before_send limited kl cleanup previous t event st =
     (case (if limited then rate_limit kl cleanup t event st else (True, st)) of (allowed, st) \<Rightarrow>
        if \<not> allowed then (None, st)
        else case (case previous of None \<Rightarrow> (Some event, st)
               | Some prev \<Rightarrow> (case prev event (hs_previous st) of (r, s) \<Rightarrow> (r, st\<lparr>hs_previous := s\<rparr>)))
          of (None, st) \<Rightarrow> (None, st)
          | (Some event, st) \<Rightarrow>
              (Some event, st\<lparr>hs_events_total :=
                 (hs_events_total st)(ev_level event := hs_events_total st (ev_level event) + 1)\<rparr>))"

text \<open>The client's options: \<open>take\<close> the previous hook, install the new one.\<close>

record 's client_options =
  co_before_send :: "'s before_send option"

definition install_hook_with_settings ::
  "u32 option \<Rightarrow> ('l, 'q) keyed_limiter \<Rightarrow> (nat \<Rightarrow> 'g \<Rightarrow> bool \<times> 'g) \<Rightarrow> 's client_options \<Rightarrow>
   nat \<Rightarrow> event \<Rightarrow> ('l, 'g, 's) hook_state \<Rightarrow> event option \<times> ('l, 'g, 's) hook_state" where
  "install_hook_with_settings max_events_per_second kl cleanup options =
     hook_before_send (max_events_per_second \<noteq> None) kl cleanup (co_before_send options)"

section \<open>Sequences of events\<close>

fun run_hook ::
  "(nat \<Rightarrow> event \<Rightarrow> ('l, 'g, 's) hook_state \<Rightarrow> event option \<times> ('l, 'g, 's) hook_state) \<Rightarrow>
   (nat \<times> event) list \<Rightarrow> ('l, 'g, 's) hook_state \<Rightarrow>
   event option list \<times> ('l, 'g, 's) hook_state" where
  "run_hook hook [] st = ([], st)"
| "run_hook hook ((t, e) # es) st =
     (case hook t e st of (r, st) \<Rightarrow>
      case run_hook hook es st of (rs, st) \<Rightarrow> (r # rs, st))"

definition sent :: "level \<Rightarrow> event option list \<Rightarrow> nat" where
  "sent l rs = length (filter (\<lambda>r. \<exists>e. r = Some e \<and> ev_level e = l) rs)"

lemma hook_counts:
  assumes "hook_before_send limited kl cleanup previous t e st = (r, st')"
  shows "hs_events_total st' = (\<lambda>l. hs_events_total st l + of_nat (sent l [r]))"
proof -
  obtain allowed st1 where st1: "(if limited then rate_limit kl cleanup t e st else (True, st)) = (allowed, st1)"
    by fastforce
  then have total: "hs_events_total st1 = hs_events_total st"
    by (auto simp: rate_limit_def Let_def split: if_splits prod.splits)
  show ?thesis
  proof (cases "allowed \<and> previous \<noteq> None")
    case True
    then obtain prev r' s where "previous = Some prev" "prev e (hs_previous st1) = (r', s)" "allowed"
      by fastforce
    with assms st1 total show ?thesis
      by (cases r') (auto simp: hook_before_send_def sent_def fun_eq_iff)
  next
    case False
    with assms st1 total show ?thesis
      by (cases allowed) (auto simp: hook_before_send_def sent_def fun_eq_iff)
  qed
qed

lemma sent_Cons: "sent l (r # rs) = sent l [r] + sent l rs"
  by (simp add: sent_def)

text \<open>Whatever the limiter and the previous hook do, over any sequence of events the counter of a
  level grows by the number of events of that level that are sent, as the previous hook left
  them: no event that is limited or filtered is counted, and none is counted twice.\<close>

theorem sentry_counts_sent:
  assumes "run_hook (install_hook_with_settings rate kl cleanup options) es st = (rs, st')"
  shows "length rs = length es \<and>
    hs_events_total st' l = hs_events_total st l + of_nat (sent l rs)"
  using assms
proof (induction es arbitrary: st rs)
  case Nil
  then show ?case by (simp add: sent_def)
next
  case (Cons te es)
  obtain t e where te: "te = (t, e)" by fastforce
  obtain r st1 where hook: "install_hook_with_settings rate kl cleanup options t e st = (r, st1)"
    by fastforce
  obtain rs' st2 where run: "run_hook (install_hook_with_settings rate kl cleanup options) es st1 = (rs', st2)"
    by fastforce
  have rs: "rs = r # rs'" and "st2 = st'"
    using Cons.prems hook run te by simp_all
  with Cons.IH run have "length rs' = length es \<and>
      hs_events_total st' l = hs_events_total st1 l + of_nat (sent l rs')"
    by blast
  with rs show ?case
    using hook_counts [OF hook [unfolded install_hook_with_settings_def]] sent_Cons [of l r rs']
    by simp
qed

section \<open>Groups of events\<close>

text \<open>With a limiter and no previous hook, whether an event is sent.\<close>

lemma hook_limited:
  assumes "keyed_limiter_documented kl cell"
    and "hook_before_send True kl cleanup None t e st = (r, st')"
  shows "cell t (kl_view kl (hs_limiter st) (extract_fingerprint e)) =
      (r \<noteq> None, kl_view kl (hs_limiter st') (extract_fingerprint e))"
    and "k \<noteq> extract_fingerprint e \<Longrightarrow> kl_view kl (hs_limiter st') k = kl_view kl (hs_limiter st) k"
    and "r \<in> {None, Some e}"
proof -
  obtain ok g where g: "cleanup t (hs_cleanup st) = (ok, g)" by fastforce
  let ?l = "if ok then kl_retain_recent kl t (hs_limiter st) else hs_limiter st"
  obtain allowed l' where l': "kl_check_key kl t (extract_fingerprint e) ?l = (allowed, l')" by fastforce
  have view: "kl_view kl ?l = kl_view kl (hs_limiter st)"
    using assms(1) by (simp add: keyed_limiter_documented_def)
  have check: "cell t (kl_view kl ?l (extract_fingerprint e)) = (allowed, kl_view kl l' (extract_fingerprint e))"
    "\<And>k. k \<noteq> extract_fingerprint e \<Longrightarrow> kl_view kl l' k = kl_view kl ?l k"
    using assms(1) l' unfolding keyed_limiter_documented_def by blast+
  have r: "r = (if allowed then Some e else None)" and st': "hs_limiter st' = l'"
    using assms(2) g l' by (auto simp: hook_before_send_def rate_limit_def Let_def split: if_splits)
  show "cell t (kl_view kl (hs_limiter st) (extract_fingerprint e)) =
      (r \<noteq> None, kl_view kl (hs_limiter st') (extract_fingerprint e))"
    using check(1) by (simp add: r st' view)
  show "k \<noteq> extract_fingerprint e \<Longrightarrow> kl_view kl (hs_limiter st') k = kl_view kl (hs_limiter st) k"
    using check(2) by (simp add: st' view)
  show "r \<in> {None, Some e}"
    by (simp add: r)
qed

definition of_group :: "string \<Rightarrow> nat \<times> event \<Rightarrow> bool" where
  "of_group fp = (\<lambda>(t, e). extract_fingerprint e = fp)"

lemma groups_independent:
  assumes "keyed_limiter_documented kl cell"
    and "kl_view kl (hs_limiter st) fp = kl_view kl (hs_limiter sg) fp"
  shows "map snd (filter (\<lambda>(te, r). of_group fp te)
      (zip es (fst (run_hook (hook_before_send True kl cleanup None) es st)))) =
    fst (run_hook (hook_before_send True kl cleanup None) (filter (of_group fp) es) sg)"
  using assms(2)
proof (induction es arbitrary: st sg)
  case (Cons te es)
  obtain t e where te: "te = (t, e)" by fastforce
  obtain r st1 where st1: "hook_before_send True kl cleanup None t e st = (r, st1)" by fastforce
  note hook = hook_limited [OF assms(1) st1]
  show ?case
  proof (cases "extract_fingerprint e = fp")
    case True
    obtain r' sg1 where sg1: "hook_before_send True kl cleanup None t e sg = (r', sg1)" by fastforce
    note hook' = hook_limited [OF assms(1) sg1]
    have "r' = r" "kl_view kl (hs_limiter st1) fp = kl_view kl (hs_limiter sg1) fp"
      using hook(1,3) hook'(1,3) Cons.prems True by auto
    with Cons.IH [of st1 sg1] True te st1 sg1 show ?thesis
      by (simp add: of_group_def case_prod_beta)
  next
    case False
    then have "kl_view kl (hs_limiter st1) fp = kl_view kl (hs_limiter sg) fp"
      using hook(2) Cons.prems by simp
    with Cons.IH [of st1 sg] False te st1 show ?thesis
      by (simp add: of_group_def case_prod_beta)
  qed
qed simp

text \<open>The events of a fingerprint are limited by themselves: in any sequence of events of all
  kinds, those of one fingerprint are sent or dropped exactly as in the sequence of them alone, at
  the same times, however often the cleanup runs in between.\<close>

theorem sentry_groups_independent:
  assumes "keyed_limiter_documented kl cell" "co_before_send options = None"
  shows "map snd (filter (\<lambda>(te, r). of_group fp te)
      (zip es (fst (run_hook (install_hook_with_settings (Some rate) kl cleanup options) es st)))) =
    fst (run_hook (install_hook_with_settings (Some rate) kl cleanup options) (filter (of_group fp) es) st)"
  using groups_independent [OF assms(1) refl] by (simp add: install_hook_with_settings_def assms(2))

text \<open>A limiter with one event per key and time, and a cleanup that always runs.\<close>

definition once_limiter :: "(string \<Rightarrow> nat option, nat option) keyed_limiter" where
  "once_limiter = \<lparr>kl_check_key = (\<lambda>t k l. (l k \<noteq> Some t, l(k \<mapsto> t))),
     kl_retain_recent = (\<lambda>t l. l), kl_view = (\<lambda>l. l)\<rparr>"

lemma once_limiter_documented:
  "keyed_limiter_documented once_limiter (\<lambda>t q. (q \<noteq> Some t, Some t))"
  by (simp add: keyed_limiter_documented_def once_limiter_def)

definition message_event :: "string \<Rightarrow> event" where
  "message_event msg =
     \<lparr>ev_fingerprint = [''{{ default }}''], ev_message = Some msg, ev_exception = [], ev_level = Error\<rparr>"

definition sample_hook_state :: "(string \<Rightarrow> nat option, unit, unit) hook_state" where
  "sample_hook_state =
     \<lparr>hs_limiter = Map.empty, hs_cleanup = (), hs_previous = (), hs_events_total = (\<lambda>_. 0)\<rparr>"

abbreviation sample_hook where
  "sample_hook \<equiv> install_hook_with_settings (Some 1) once_limiter (\<lambda>t g. (True, g))
     (\<lparr>co_before_send = None\<rparr> :: unit client_options)"

theorem sentry_counts_sent_witness:
  "hs_events_total (snd (run_hook sample_hook
     [(1, message_event ''a''), (1, message_event ''b''), (1, message_event ''a'')] sample_hook_state))
     Error = 2"
proof -
  let ?es = "[(1, message_event ''a''), (1, message_event ''b''), (1, message_event ''a'')]"
  obtain rs st' where run: "run_hook sample_hook ?es sample_hook_state = (rs, st')"
    by fastforce
  then have "rs = [Some (message_event ''a''), Some (message_event ''b''), None]"
    by (auto simp: install_hook_with_settings_def hook_before_send_def rate_limit_def Let_def
        once_limiter_def sample_hook_state_def extract_fingerprint_def message_event_def
        is_sentry_default_fingerprint_def)
  with sentry_counts_sent [OF run, of Error] run show ?thesis
    by (simp add: sent_def message_event_def sample_hook_state_def)
qed

theorem sentry_groups_independent_witness:
  "map snd (filter (\<lambda>(te, r). of_group ''a'' te)
      (zip [(1, message_event ''a''), (1, message_event ''b''), (1, message_event ''a'')]
        (fst (run_hook sample_hook
          [(1, message_event ''a''), (1, message_event ''b''), (1, message_event ''a'')]
          sample_hook_state)))) =
    fst (run_hook sample_hook [(1, message_event ''a''), (1, message_event ''a'')] sample_hook_state)"
proof -
  have "filter (of_group ''a'') [(1, message_event ''a''), (1, message_event ''b''), (1, message_event ''a'')] =
      [(1, message_event ''a''), (1, message_event ''a'')]"
    by (simp add: of_group_def extract_fingerprint_def message_event_def is_sentry_default_fingerprint_def)
  then show ?thesis
    using sentry_groups_independent [OF once_limiter_documented,
        of "\<lparr>co_before_send = None\<rparr>" "''a''"
        "[(1, message_event ''a''), (1, message_event ''b''), (1, message_event ''a'')]" 1
        "\<lambda>t g. (True, g)" sample_hook_state]
    by simp
qed

end
