(* ===== verification/Spec2Isabelle.thy ===== *)
theory Spec2Isabelle
  imports RangeGaugeRace TimeHistograms Exemplars NativeHistograms Infos MetricsEndpoint
    RuntimeMetrics Logger RetryWriter SpanChannel LiveReferences SpanRefinement TraceEvents
    TraceLiterals SettingsSources SettingsMacro SpanFn InfoMacro Router Initialization Exporters PanicHook Sandbox SentryHook
begin

text \<open>
  A verification development of the \<open>foundations\<close> library: its metrics system
  (\<open>foundations-metrics-registry/\<close> and \<open>foundations-metrics/\<close>), the telemetry of the
  \<open>foundations\<close> crate (\<open>foundations/src/telemetry/\<close>), and its settings, sandboxing and Sentry hook.

  The metrics system. A service keeps metric handles (\<open>Counter\<close>, \<open>Gauge\<close>, \<open>RangeGauge\<close>, \<open>Histogram\<close>,
  \<open>TimeHistogram\<close>, \<open>NativeHistogram\<close>, families of them by label set, info metrics) that many
  threads update. \<open>NamedMetric\<close> completes the families a metric encodes with its name and help
  and is pushed to the process-wide registry. A scrape takes a snapshot of the registry
  (\<open>iter\<close>), lets each metric encode protobuf families, applies the service name as a prefix or
  a label, drops what validation rejects (\<open>collect\<close>), and prints OpenMetrics text or delimited
  protobuf (\<open>encode_to_text\<close>, \<open>encode_to_protobuf\<close>), which validate once more.

  Telemetry of the \<open>foundations\<close> crate. Each thread has stacks of the log and the spans that are
  current; a \<open>TelemetryContext\<close> captures them and enters them again, in a scope or around the
  polls of a future. A log record passes the current logger, whose fields and verbosity scopes
  change or fork, and the drains in front of the output. A finished span is queued in a
  bounded channel from which an exporter takes batches, converts them to OTLP and sends them; a
  trace is continued between services by the \<open>traceparent\<close> header. The text endpoint collects
  the metrics that are registered with \<open>prometheus_client\<close>.

  Theories of the metrics system, in the order of the calls.
  \<^item> \<open>Prelude\<close>: word types, \<open>Result\<close> chaining, decimal printing, \<open>retain_mut\<close>, iteration orders.
  \<^item> \<open>F64\<close>, \<open>F64_Arith\<close>: the doubles the code computes with, as their 64 bits: comparisons,
    \<open>total_cmp\<close> as the \<open>linorder\<close> instance, and rounding to nearest even for \<open>+ - * /\<close> and the
    integer casts.
  \<^item> \<open>Proto\<close>: \<open>proto/model.rs\<close>, one record per message. \<open>Diagnostics\<close>: \<open>diagnostics.rs\<close>; every
    report is a constructor and every \<open>expect\<close>, \<open>unreachable!\<close> or underflow a \<open>Panic\<close> event.
    \<open>Externals\<close>: \<open>ryu\<close> and \<open>Debug\<close> output, as parameters.
  \<^item> \<open>Validation\<close>: \<open>validation.rs\<close>. Sanitizing keeps exactly the valid rows, reaches a fixpoint,
    never panics, and the borrowing entry point agrees with the one in place.
  \<^item> \<open>Labels\<close>: \<open>labels/\<close>; a value of a \<open>Serialize\<close> type is a tree of the calls it makes on
    its serializer.
  \<^item> \<open>Registry\<close>: \<open>registry.rs\<close>, \<open>iter.rs\<close>, \<open>metadata.rs\<close>; runs of registrations, snapshots and \<open>next\<close>
    calls. \<open>Collect\<close>: \<open>collect.rs\<close>. \<open>MetricValue\<close>: \<open>value.rs\<close> and \<open>registered.rs\<close>; the locale
    \<open>metric_value\<close> is the contract of an \<open>EncodeMetricValue\<close> (relative names, no panic),
    \<open>valid_metric_value\<close> adds valid rows; every metric type below interprets one of them.
  \<^item> \<open>Atomics\<close>: atomic read-modify-write operations and the compare-and-swap loop \<open>update_f64\<close>,
    also as a step relation of any number of threads. \<open>Counters\<close>, \<open>Gauges\<close>: \<open>counter.rs\<close> and
    \<open>gauge.rs\<close>; the locales \<open>counter_atomic\<close>, \<open>gauge_atomic\<close>, \<open>exact_gauge\<close> and \<open>generic_gauge\<close> are
    the Rust traits, interpreted on the models of their implementations. \<open>RangeGaugeRace\<close>: the
    statements of \<open>RangeGauge\<close> interleaved by threads.
  \<^item> \<open>Histograms\<close>, \<open>TimeHistograms\<close>: \<open>histogram.rs\<close>; \<open>Exemplars\<close>: \<open>exemplar.rs\<close> and the exemplar
    halves of \<open>counter.rs\<close> and \<open>histogram.rs\<close>; \<open>NativeHistograms\<close>: \<open>native_histogram.rs\<close> around
    the external histogram; \<open>Infos\<close>: \<open>info.rs\<close>; \<open>Families\<close>: \<open>family.rs\<close>, whose label map is
    the locale \<open>metric_store\<close>.
  \<^item> \<open>TextSyntax\<close>, \<open>TextEncoding\<close>: \<open>encoding/\<close>. The writers, and a reader of whole expositions on
    the specification side; scraping the output gives back the samples of the families.
  \<^item> \<open>Exposition\<close>: the path from an increment to a scrape. \<open>MetricsMacro\<close>: the macro \<open>#[metrics]\<close>
    (\<open>foundations-macros/src/metrics/\<close>), what it accepts and what the module it generates does: one
    registration, one metric per label set. \<open>MetricsEndpoint\<close>: \<open>metrics::collect\<close> of
    \<open>foundations/src/telemetry/metrics/mod.rs\<close>, the extra producers, \<open>metrics/init.rs\<close> with the service
    name and the two info metrics it reports, and the whole path from a declaration with the macro
    to the samples in the text of the endpoint. \<open>InfoMacro\<close>: the macro \<open>#[info_metric]\<close>
    (\<open>foundations-macros/src/info_metric/\<close>), its names, and what is exposed of the values reported.
    \<open>RuntimeMetrics\<close>: \<open>tokio_runtime_metrics/\<close>, the monitor whose runtimes write to series of their own.

  Theories of the telemetry.
  \<^item> \<open>Scopes\<close>: \<open>scope.rs\<close>, \<open>telemetry_context.rs\<close> and \<open>TelemetryScope\<close>; the five stacks of a
    thread implement one stack of contexts. \<open>Logger\<close>: \<open>log/internal.rs\<close>, the operations of
    \<open>log/mod.rs\<close> that change a logger, and \<open>with_forked_log\<close>.
  \<^item> \<open>LogDrains\<close>: \<open>log/field_filtering.rs\<close>, \<open>field_dedup.rs\<close>, \<open>field_redact.rs\<close>, \<open>rate_limit.rs\<close>,
    \<open>log_volume.rs\<close> and \<open>wrap_root_drain\<close>. \<open>RetryWriter\<close>: \<open>log/retry_writer.rs\<close>.
  \<^item> \<open>Utf8\<close>: what the standard library does with bytes and hexadecimal digits. \<open>Traceparent\<close>:
    \<open>tracing/traceparent.rs\<close>, \<open>w3c_traceparent\<close> and the inbound state of \<open>start_user_trace\<close>.
  \<^item> \<open>SpanChannel\<close>: \<open>tracing/channel.rs\<close>. \<open>LiveReferences\<close>: \<open>tracing/live/live_reference_set.rs\<close>
    and the span handles of \<open>tracing/internal.rs\<close>. \<open>OtlpExport\<close>: \<open>otlp_conversion/\<close> and
    \<open>tracing/output_otlp_uds.rs\<close>.
  \<^item> \<open>TraceSpans\<close>: \<open>tracing/internal.rs\<close>, the start and the fork of traces, child spans and user
    spans, over the spans of \<open>cf_rustracing\<close> and a store of cells with reference counts.
    \<open>SpanScopes\<close>: the scopes of both pipelines of \<open>tracing/mod.rs\<close>, contexts and the programs made
    of them, and their lexical semantics, which knows no stacks and references.
    \<open>SpanReferences\<close>, \<open>SpanRefinement\<close>: the programs implement the lexical semantics, through
    scopes, dual spans, forks and the polls of futures; every user trace is complete.
  \<^item> \<open>SpanFn\<close>: the macro \<open>#[span_fn]\<close> (\<open>foundations-macros/src/span_fn.rs\<close>), the code it makes of a function,
    what of the function runs in the span, and that nothing else of it changes.
  \<^item> \<open>TraceEvents\<close>: \<open>tracing/live/event_output.rs\<close>, the dump of the live spans, and when it is JSON.
  \<^item> \<open>TestTraces\<close>: \<open>tracing/testing.rs\<close>, the span trees a test sees. \<open>TraceLiterals\<close>: the macro
    \<open>test_trace!\<close> of \<open>tracing/mod.rs\<close>, and which of these trees can be written with it.
  \<^item> \<open>MetricsCollect\<close>: \<open>metrics/rewind.rs\<close> and \<open>Registries::collect\<close> of \<open>metrics/internal.rs\<close>.
  \<^item> \<open>Router\<close>: \<open>server/router.rs\<close>, which handler of the telemetry server a request reaches.
    \<open>MemoryProfiler\<close>: \<open>memory_profiler.rs\<close>, the profiling thread and the calls of \<open>heap_profile\<close>.
    \<open>ServerShutdown\<close>: \<open>server/mod.rs\<close> and \<open>driver.rs\<close>; the driver ends after its signal, its futures
    and the last connection, and it can always end. \<open>Initialization\<close>: \<open>telemetry::init\<close> with
    \<open>log/init.rs\<close>, \<open>tracing/init.rs\<close>, \<open>metrics/init.rs\<close>, the start of the exporters and the sampler;
    what a sequence of calls does, the failing ones included. \<open>Exporters\<close>: the tasks of
    \<open>tracing/output_jaeger_thrift_udp.rs\<close> and \<open>output_otlp_grpc.rs\<close>, which drain the channel.

  Theories of the other services.
  \<^item> \<open>SettingsYaml\<close>: \<open>settings/\<close> and the \<open>add_docs\<close> code of \<open>foundations-macros/src/settings.rs\<close>; where
    the documentation of a field goes in the YAML text, which fields lose it because they are written
    under another key, and that nothing else changes.
    \<open>SettingsSources\<close>: \<open>cli.rs\<close>, the parsers and the generated file, \<open>settings/external.rs\<close> and
    \<open>settings/secret.rs\<close>; how a command line is answered, and where the text of a secret shows.
    \<open>SettingsMacro\<close>: the rest of the macro \<open>#[settings]\<close>; the \<open>Default\<close> it implements is what serde
    makes of an empty document, and which documents are accepted, skipped fields and repeated keys
    included.
  \<^item> \<open>Syscalls\<close>, \<open>Sandbox\<close>: \<open>security/\<close>; the tables of system call numbers, the rules of a filter,
    and what the allow lists can never let through.
  \<^item> \<open>SentryHook\<close>: \<open>sentry/hook.rs\<close> and its copy in \<open>foundations-sentry/\<close>, the rate limit per
    fingerprint and the counters. \<open>PanicHook\<close>: \<open>panic/hook.rs\<close>, one count and one entry per panic
    while no other hook cuts it off.

  Parameters. Third-party code is an argument of the definitions that call it, and what they rely
  on a named hypothesis that states its documentation: \<open>hex_documented\<close> (the \<open>hex\<close> crate),
  \<open>mpsc_documented\<close> (tokio's channel), \<open>slab_documented\<close> (the key of a vacant slab entry),
  \<open>matchit_documented\<close> (the router of literal paths), \<open>seccomp_documented\<close> (libseccomp's filter
  contexts and the verdict of the kernel), \<open>keyed_limiter_documented\<close> (governor's keyed limiter),
  \<open>rustracing_documented\<close> (the spans and tracers of \<open>cf_rustracing\<close>; a concrete tracer satisfies
  it), \<open>clap_documented\<close>, \<open>saphyr_documented\<close> and \<open>config_files_documented\<close> (the command line
  parser, a YAML parser and regular files), \<open>serde_documented\<close> (the defaults of serde's derive),
  \<open>slab_vacant\<close> (a slab's free keys). slog's output, the text of the YAML serializer, the rate limiter, the file system, the
  exporter's connection and what \<open>prometheus_client\<close> writes are parameters of which nothing is
  assumed.

  State and effects. A handle is an index into a list of cells where clones share a cell
  (counters, gauges), otherwise the state behind its \<open>Arc\<close>. Operations return the new state.
  Code that reports returns the list of its events. Interleavings are either sequences of
  atomic operations (where one operation is one atomic instruction or holds a lock) or step
  relations with one constructor per atomic instruction (\<open>cas_step\<close>, \<open>race_step\<close>) and
  invariants by rule induction; \<open>TimeHistograms\<close> lists the instructions of each call. Strings are
  lists of UTF-8 bytes. Integers keep their width. A \<open>HashMap\<close> is a map with an arbitrary
  iteration order.

  Bounds and fuel. All loops are structural or carry a proved measure (binary search, decimal
  printing, the snapshot iterator); the compare-and-swap loop takes the list of values it
  fails against, and \<open>update_f64_can_finish\<close> shows that it can always return. The readers
  \<open>read_labels\<close> and \<open>decode_families\<close> take the length of their input as fuel: each round
  consumes at least a byte. The retry loop of \<open>RetryWriter\<close> ends by its count of attempts.
  An export loop needs a round for every batch, so more fuel than there are spans is enough.
  \<open>create_test_span\<close> recurses along references that could be cyclic; as much fuel as there are
  spans is enough when their ids differ.

  Not modelled: the layout of protobuf bytes (\<open>prost\<close>) and the bucket arithmetic of native
  histograms (\<open>prometheus_client\<close>), which are parameters; \<open>Debug\<close> and \<open>Display\<close> implementations;
  memory reclamation and the fairness of locks; the token streams of the procedural macros, and
  \<open>with_test_telemetry\<close>; finish callbacks of spans; the wrappers of \<open>settings/net.rs\<close> and \<open>addr.rs\<close>; connections, sockets and files beyond the
  parameters above.
\<close>

end
